(* ===== verification/Prelude.thy ===== *)
theory Prelude
  imports
    Main
    "HOL-Library.AList"
    "HOL-Library.Multiset"
    "HOL-Library.List_Lexorder"
    "HOL-Library.Char_ord"
    "HOL-Library.Word"
begin

text \<open>
  The vocabulary shared by all components: how values of the Go language are written in the model.

  \<^item> A Go \<open>byte\<close> is a HOL \<open>char\<close> (eight bits), so a Go \<open>string\<close> and a \<open>[]byte\<close> are both lists of
    \<open>char\<close>; the order of \<open>string\<close> (\<open>List_Lexorder\<close> over \<open>Char_ord\<close>) is Go's bytewise \<open><\<close>.
  \<^item> A \<open>time.Time\<close> is the number of nanoseconds since the Unix epoch (an \<open>int\<close>); the zero value
    \<open>time.Time{}\<close> is 1 January of year 1.  A \<open>time.Duration\<close> is an \<open>int\<close> in the range of
    \<open>int64\<close>; where the code multiplies durations the wrap-around is written out with \<open>to_i64\<close>.
  \<^item> A Go map is an association list with distinct keys (\<open>gm_wf\<close>).  Ranging over a map visits its
    entries in an order the language leaves open: an operation that ranges takes the order as a
    parameter, a function that permutes the entries (\<open>is_range_order\<close>).
  \<^item> A function that may panic returns an \<open>outcome\<close>; the state it leaves behind is returned beside
    it, because the callers recover from panics and keep using the state.
\<close>

section \<open>Types\<close>

type_synonym byte = char
type_synonym gtime = int
type_synonym duration = int

named_theorems codec_simps \<open>decoding of what was just encoded\<close>
named_theorems conserve \<open>what each operation does to the multiset of live messages\<close>
named_theorems wf_pres \<open>each operation keeps the well-formedness invariant\<close>

datatype 'a outcome = Ret 'a | Panic string

section \<open>Integers of the machine\<close>

definition to_i64 :: "int \<Rightarrow> int" where
  "to_i64 x = (x + 2 ^ 63) mod 2 ^ 64 - 2 ^ 63"

lemma to_i64_id [simp]: "- (2 ^ 63) \<le> x \<Longrightarrow> x < 2 ^ 63 \<Longrightarrow> to_i64 x = x"
  by (simp add: to_i64_def)

lemma to_i64_bounds: "- (2 ^ 63) \<le> to_i64 x \<and> to_i64 x < 2 ^ 63"
  using pos_mod_bound [of "2 ^ 64 :: int" "x + 2 ^ 63"]
    pos_mod_sign [of "2 ^ 64 :: int" "x + 2 ^ 63"]
  by (simp add: to_i64_def)

lemma unat_bound: "unat w < 2 ^ LENGTH('a)" for w :: "'a::len word"
  by (rule unsigned_less)

section \<open>Time\<close>

definition zeroTime :: gtime where
  "zeroTime = - 62135596800000000000"

definition isZero :: "gtime \<Rightarrow> bool" where
  "isZero t = (t = zeroTime)"

lemma isZero_zeroTime [simp]: "isZero zeroTime"
  by (simp add: isZero_def)

section \<open>Maps\<close>

type_synonym ('k, 'v) gomap = "('k \<times> 'v) list"
type_synonym ('k, 'v) range_order = "('k, 'v) gomap \<Rightarrow> ('k, 'v) gomap"

abbreviation gm_wf :: "('k, 'v) gomap \<Rightarrow> bool" where
  "gm_wf m \<equiv> distinct (map fst m)"

abbreviation gm_get :: "('k, 'v) gomap \<Rightarrow> 'k \<Rightarrow> 'v option" where
  "gm_get \<equiv> map_of"

abbreviation gm_put :: "'k \<Rightarrow> 'v \<Rightarrow> ('k, 'v) gomap \<Rightarrow> ('k, 'v) gomap" where
  "gm_put \<equiv> AList.update"

abbreviation gm_del :: "'k \<Rightarrow> ('k, 'v) gomap \<Rightarrow> ('k, 'v) gomap" where
  "gm_del \<equiv> AList.delete"

definition is_range_order :: "('k, 'v) range_order \<Rightarrow> bool" where
  "is_range_order it = (\<forall>m. mset (it m) = mset m)"

lemma is_range_order_id: "is_range_order (\<lambda>m. m)"
  by (simp add: is_range_order_def)

lemma is_range_order_rev: "is_range_order rev"
  by (simp add: is_range_order_def)

lemma range_order_mset: "is_range_order it \<Longrightarrow> mset (it m) = mset m"
  by (simp add: is_range_order_def)

lemma range_order_set: "is_range_order it \<Longrightarrow> set (it m) = set m"
  by (metis range_order_mset set_mset_mset)

lemma range_order_wf:
  assumes "is_range_order it" and "gm_wf m"
  shows "gm_wf (it m)"
proof -
  have "mset (map fst (it m)) = mset (map fst m)"
    using assms(1) by (simp add: range_order_mset)
  with assms(2) show ?thesis by (metis mset_eq_imp_distinct_iff)
qed

lemma gm_wf_put: "gm_wf m \<Longrightarrow> gm_wf (gm_put k v m)"
  by (rule distinct_update)

lemma gm_wf_del: "gm_wf m \<Longrightarrow> gm_wf (gm_del k m)"
  by (simp add: distinct_delete)

lemma gm_put_fresh: "gm_get m k = None \<Longrightarrow> gm_put k v m = m @ [(k, v)]"
  by (induction m) (auto split: if_splits)

lemma gm_get_put [simp]: "gm_get (gm_put k v m) k' = (if k = k' then Some v else gm_get m k')"
  by (simp add: update_conv')

lemma gm_get_del [simp]: "gm_get (gm_del k m) k' = (if k = k' then None else gm_get m k')"
  by (simp add: delete_conv')

lemma gm_del_fresh: "gm_get m k = None \<Longrightarrow> gm_del k m = m"
  by (induction m) (auto split: if_splits)

lemma gm_del_mset:
  "gm_wf m \<Longrightarrow> gm_get m k = Some v \<Longrightarrow> mset m = add_mset (k, v) (mset (gm_del k m))"
proof (induction m)
  case Nil
  then show ?case by simp
next
  case (Cons e m)
  show ?case
  proof (cases "fst e = k")
    case True
    with Cons.prems have "gm_get m k = None" by (auto simp: map_of_eq_None_iff)
    with True Cons.prems show ?thesis by (cases e) (simp add: gm_del_fresh)
  next
    case False
    with Cons show ?thesis by (cases e) auto
  qed
qed

lemma gm_del_length:
  "gm_wf m \<Longrightarrow> gm_get m k = Some v \<Longrightarrow> length m = Suc (length (gm_del k m))"
  by (metis gm_del_mset size_add_mset size_mset)

lemma gm_set_eq: "gm_wf m \<Longrightarrow> set m = {(k, v). gm_get m k = Some v}"
  by (auto simp: map_of_eq_Some_iff)

lemma gm_put_in:
  assumes "gm_wf m" and "(a, b) \<in> set (gm_put k v m)"
  shows "(a, b) = (k, v) \<or> (a, b) \<in> set m"
proof -
  have "gm_get (gm_put k v m) a = Some b"
    using assms(2) gm_wf_put [OF assms(1)] by (rule map_of_is_SomeI [rotated])
  then show ?thesis by (auto dest: map_of_SomeD split: if_splits)
qed

end
