(* ===== verification/Timing_Wheel.thy ===== *)
theory Timing_Wheel
  imports Prelude
begin

text \<open>
  The timing wheel of the scheduler (\<open>internal/scheduler/timingwheel.go\<close>).  A bucket, in the code a
  linked list, is a list with the head first; a callback is a value of the type \<open>'cb\<close>, and a tick
  returns the callbacks it runs, in order.  The coarse clock \<open>xtime.UnixNano\<close> is an argument.
\<close>

section \<open>Model\<close>

record 'cb timerTask =
  executeAt :: int
  callback :: 'cb

record 'cb TimingWheel =
  buckets :: "'cb timerTask list list"
  bucketTime :: int
  current :: nat

definition NewTimingWheel :: "duration \<Rightarrow> nat \<Rightarrow> 'cb TimingWheel" where
  "NewTimingWheel tick slots = \<lparr>buckets = replicate slots [], bucketTime = tick, current = 0\<rparr>"

definition put_task :: "nat \<Rightarrow> 'cb timerTask \<Rightarrow> 'cb TimingWheel \<Rightarrow> 'cb TimingWheel" where
  "put_task idx t tw = tw\<lparr>buckets := (buckets tw)[idx := t # buckets tw ! idx]\<rparr>"

definition ticks_of :: "int \<Rightarrow> 'cb TimingWheel \<Rightarrow> nat" where
  "ticks_of d tw = (let ticks = d div bucketTime tw in if ticks = 0 then 1 else nat ticks)"

definition tw_Add :: "gtime \<Rightarrow> duration \<Rightarrow> 'cb \<Rightarrow> 'cb TimingWheel \<Rightarrow> 'cb TimingWheel" where
  "tw_Add now delay cb tw =
     (let delay = (if delay < 0 then 0 else delay);
          idx = (current tw + ticks_of delay tw) mod length (buckets tw)
      in put_task idx \<lparr>executeAt = to_i64 (now + delay), callback = cb\<rparr> tw)"

text \<open>The loop of \<open>tick\<close> over the bucket that was taken out.\<close>

fun tick_tasks :: "gtime \<Rightarrow> 'cb timerTask list \<Rightarrow> 'cb TimingWheel \<Rightarrow> 'cb list \<times> 'cb TimingWheel" where
  "tick_tasks now [] tw = ([], tw)"
| "tick_tasks now (t # ts) tw =
     (if executeAt t \<le> now
      then let (fired, tw) = tick_tasks now ts tw in (callback t # fired, tw)
      else let remaining = executeAt t - now;
               n = length (buckets tw);
               idx = (current tw + ticks_of remaining tw - 1 + n) mod n
           in tick_tasks now ts (put_task idx t tw))"

definition tick :: "gtime \<Rightarrow> 'cb TimingWheel \<Rightarrow> 'cb list \<times> 'cb TimingWheel" where
  "tick now tw =
     (let head = buckets tw ! current tw;
          tw = tw\<lparr>buckets := (buckets tw)[current tw := []], current := (current tw + 1) mod length (buckets tw)\<rparr>
      in tick_tasks now head tw)"

section \<open>When tasks are looked at\<close>

text \<open>\<open>off n c i\<close> is the number of ticks before the one that takes out bucket \<open>i\<close>.\<close>

definition off :: "nat \<Rightarrow> nat \<Rightarrow> nat \<Rightarrow> nat" where
  "off n c i = (if c \<le> i then i - c else i + n - c)"

definition wheel_wf :: "int \<Rightarrow> nat \<Rightarrow> 'cb TimingWheel \<Rightarrow> bool" where
  "wheel_wf b n tw = (bucketTime tw = b \<and> length (buckets tw) = n \<and> current tw < n)"

definition tasks :: "'cb TimingWheel \<Rightarrow> 'cb timerTask multiset" where
  "tasks tw = mset (concat (buckets tw))"

text \<open>\<open>t\<close> is the time of the next tick; no task is looked at later than \<open>K\<close> after its time.\<close>

definition on_time :: "int \<Rightarrow> int \<Rightarrow> 'cb TimingWheel \<Rightarrow> bool" where
  "on_time K t tw = (\<forall>i < length (buckets tw). \<forall>x \<in> set (buckets tw ! i).
     t + int (off (length (buckets tw)) (current tw) i) * bucketTime tw \<le> executeAt x + K)"

lemma off_mod:
  assumes "c < n"
  shows "off n c ((c + m) mod n) = m mod n"
proof -
  define r where "r = m mod n"
  have r: "r < n" using assms by (simp add: r_def)
  have "(c + m) mod n = (c + r) mod n" by (simp add: r_def mod_add_right_eq)
  also have "\<dots> = (if c + r < n then c + r else c + r - n)" using assms r by (simp add: le_mod_geq)
  finally show ?thesis unfolding r_def [symmetric] using assms r by (auto simp: off_def)
qed

lemma off_next: "c < n \<Longrightarrow> i < n \<Longrightarrow> i \<noteq> c \<Longrightarrow> off n c i = Suc (off n ((c + 1) mod n) i)"
  by (cases "Suc c = n") (auto simp: off_def)

lemma concat_update: "i < length xs \<Longrightarrow> mset (concat (xs[i := t # xs ! i])) = add_mset t (mset (concat xs))"
  by (induction xs arbitrary: i) (auto split: nat.splits)

lemma concat_clear: "i < length xs \<Longrightarrow> mset (concat xs) = mset (xs ! i) + mset (concat (xs[i := []]))"
  by (induction xs arbitrary: i) (auto split: nat.splits)

lemma put_task_simps [simp]:
  "length (buckets (put_task idx t tw)) = length (buckets tw)" "current (put_task idx t tw) = current tw"
  "bucketTime (put_task idx t tw) = bucketTime tw"
  by (simp_all add: put_task_def)

lemma put_task_tasks: "idx < length (buckets tw) \<Longrightarrow> tasks (put_task idx t tw) = add_mset t (tasks tw)"
  by (simp add: tasks_def put_task_def concat_update)

lemma put_task_on_time:
  assumes "on_time K t tw" and "current tw < length (buckets tw)" and "0 < bucketTime tw"
    and "t + int m * bucketTime tw \<le> executeAt x + K"
  shows "on_time K t (put_task ((current tw + m) mod length (buckets tw)) x tw)"
proof -
  let ?n = "length (buckets tw)" and ?b = "bucketTime tw"
  have "int (m mod ?n) * ?b \<le> int m * ?b" using assms(3) by (intro mult_right_mono) auto
  then have "t + int (off ?n (current tw) ((current tw + m) mod ?n)) * ?b \<le> executeAt x + K"
    using assms(2,4) by (simp add: off_mod)
  moreover have "(current tw + m) mod ?n < ?n" using assms(2) by (intro mod_less_divisor) auto
  ultimately show ?thesis using assms(1) unfolding on_time_def
    by (auto simp: put_task_def nth_list_update)
qed

lemma ticks_bound:
  assumes "0 \<le> d" and "0 < bucketTime tw"
  shows "1 \<le> ticks_of d tw" and "int (ticks_of d tw) * bucketTime tw \<le> max d (bucketTime tw)"
proof -
  have "0 \<le> d div bucketTime tw" using assms by (simp add: pos_imp_zdiv_nonneg_iff)
  moreover have "d div bucketTime tw * bucketTime tw \<le> d"
    using assms div_mult_mod_eq [of d "bucketTime tw"] pos_mod_sign [of "bucketTime tw" d] by linarith
  ultimately show "1 \<le> ticks_of d tw" and "int (ticks_of d tw) * bucketTime tw \<le> max d (bucketTime tw)"
    by (auto simp: ticks_of_def Let_def)
qed

section \<open>Adding and ticking\<close>

lemma tw_Add_on_time:
  assumes "on_time (L + 2 * b) t tw" and "wheel_wf b n tw" and "0 < b"
    and "t - b \<le> a" and "a \<le> t" and "a - L \<le> c" and "E = c + max 0 d" and "- (2 ^ 63) \<le> E" and "E < 2 ^ 63"
  shows "on_time (L + 2 * b) t (tw_Add c d cb tw)" and "wheel_wf b n (tw_Add c d cb tw)"
    and "tasks (tw_Add c d cb tw) = add_mset \<lparr>executeAt = E, callback = cb\<rparr> (tasks tw)"
proof -
  let ?m = "ticks_of (max 0 d) tw" and ?x = "\<lparr>executeAt = E, callback = cb\<rparr>"
  have wf: "bucketTime tw = b" "length (buckets tw) = n" "current tw < n" using assms(2) by (simp_all add: wheel_wf_def)
  have mx: "(if d < 0 then 0 else d) = max 0 d" by (simp add: max_def)
  have add: "tw_Add c d cb tw = put_task ((current tw + ?m) mod n) ?x tw"
    unfolding tw_Add_def Let_def mx wf(2) assms(7) [symmetric] to_i64_id [OF assms(8,9)] ..
  have "int ?m * b \<le> max (max 0 d) b" using ticks_bound(2) [of "max 0 d" tw] assms(3) wf by simp
  also have "\<dots> \<le> max 0 d + b" using assms(3) by auto
  finally have "t + int ?m * b \<le> E + (L + 2 * b)" using assms(4-7) by linarith
  then have "t + int ?m * bucketTime tw \<le> executeAt ?x + (L + 2 * b)" using wf by simp
  from put_task_on_time [OF assms(1) _ _ this] show "on_time (L + 2 * b) t (tw_Add c d cb tw)"
    using wf assms(3) by (simp add: add)
  show "wheel_wf b n (tw_Add c d cb tw)" using wf by (simp add: add wheel_wf_def)
  have "(current tw + ?m) mod n < n" using wf(3) by (intro mod_less_divisor) auto
  then show "tasks (tw_Add c d cb tw) = add_mset ?x (tasks tw)" using wf by (simp add: add put_task_tasks)
qed

text \<open>The tasks of the bucket that are not due go back; \<open>t\<close> is the time of this tick.\<close>

lemma tw_Add_contents:
  assumes "wheel_wf b n tw"
  shows "wheel_wf b n (tw_Add c d cb tw)"
    and "image_mset callback (tasks (tw_Add c d cb tw)) = add_mset cb (image_mset callback (tasks tw))"
proof -
  have "(current tw + m) mod length (buckets tw) < length (buckets tw)" for m
    using assms by (intro mod_less_divisor) (auto simp: wheel_wf_def)
  then show "wheel_wf b n (tw_Add c d cb tw)"
    and "image_mset callback (tasks (tw_Add c d cb tw)) = add_mset cb (image_mset callback (tasks tw))"
    using assms by (simp_all add: tw_Add_def Let_def put_task_tasks wheel_wf_def)
qed

lemma tick_tasks_contents:
  assumes "tick_tasks c ts tw = (fired, tw')" and "wheel_wf b n tw"
  shows "wheel_wf b n tw' \<and> fired = map callback (filter (\<lambda>x. executeAt x \<le> c) ts)
    \<and> tasks tw' = mset (filter (\<lambda>x. \<not> executeAt x \<le> c) ts) + tasks tw"
  using assms
proof (induction c ts tw arbitrary: fired rule: tick_tasks.induct)
  case (2 c x ts tw)
  show ?case
  proof (cases "executeAt x \<le> c")
    case True
    with 2(3) obtain f where "tick_tasks c ts tw = (f, tw')" "fired = callback x # f" by (auto split: prod.splits)
    with 2(1) [OF True] 2(4) True show ?thesis by auto
  next
    case False
    let ?i = "(current tw + ticks_of (executeAt x - c) tw - 1 + length (buckets tw)) mod length (buckets tw)"
    have "?i < length (buckets tw)" using 2(4) by (intro mod_less_divisor) (auto simp: wheel_wf_def)
    then have "tasks (put_task ?i x tw) = add_mset x (tasks tw)" by (rule put_task_tasks)
    moreover have "wheel_wf b n (put_task ?i x tw)" using 2(4) by (simp add: wheel_wf_def)
    ultimately show ?thesis using 2(2) [OF False refl refl refl] 2(3) False by (simp add: Let_def)
  qed
qed auto

lemma tick_tasks_on_time:
  assumes "tick_tasks c ts tw = (fired, tw')" and "wheel_wf b n tw" and "0 < b" and "0 \<le> L"
    and "on_time (L + 2 * b) (t + b) tw" and "t - L \<le> c"
  shows "on_time (L + 2 * b) (t + b) tw'"
  using assms
proof (induction c ts tw arbitrary: fired rule: tick_tasks.induct)
  case (2 c x ts tw)
  have wf: "bucketTime tw = b" "length (buckets tw) = n" "current tw < n" using 2(4) by (simp_all add: wheel_wf_def)
  show ?case
  proof (cases "executeAt x \<le> c")
    case True
    with 2(3) obtain f where "tick_tasks c ts tw = (f, tw')" by (auto split: prod.splits)
    with 2(1) [OF True] 2(4-8) show ?thesis by auto
  next
    case False
    let ?m = "ticks_of (executeAt x - c) tw"
    note T = ticks_bound [of "executeAt x - c" tw]
    have m: "1 \<le> ?m" using T(1) False wf 2(5) by simp
    let ?tw = "put_task ((current tw + (?m - 1)) mod n) x tw"
    have "current tw + ?m - 1 + n = current tw + (?m - 1) + n" using m by simp
    then have idx: "(current tw + ?m - 1 + n) mod n = (current tw + (?m - 1)) mod n" by (simp only: mod_add_self2)
    have "int (?m - 1) * b = int ?m * b - b" using m by (simp add: of_nat_diff left_diff_distrib)
    moreover have "int ?m * b \<le> max (executeAt x - c) b" using T(2) False wf 2(5) by simp
    ultimately have "t + b + int (?m - 1) * bucketTime tw \<le> executeAt x + (L + 2 * b)"
      using 2(5,6,8) wf False by (auto simp: max_def split: if_splits)
    from put_task_on_time [OF 2(7) _ _ this] have "on_time (L + 2 * b) (t + b) ?tw" using wf 2(5) by simp
    moreover have "wheel_wf b n ?tw" using wf by (simp add: wheel_wf_def)
    moreover have "tick_tasks c ts ?tw = (fired, tw')" using 2(3) False wf idx by (simp add: Let_def)
    ultimately show ?thesis using 2(2) [OF False refl refl refl] 2(5,6,8) wf idx by (simp add: Let_def)
  qed
qed auto

lemma tick_contents:
  assumes "tick c tw = (fired, tw')" and "wheel_wf b n tw"
  shows "wheel_wf b n tw'"
    and "tasks tw = mset (filter (\<lambda>x. executeAt x \<le> c) (buckets tw ! current tw)) + tasks tw'"
    and "fired = map callback (filter (\<lambda>x. executeAt x \<le> c) (buckets tw ! current tw))"
proof -
  let ?tw = "tw\<lparr>buckets := (buckets tw)[current tw := []], current := (current tw + 1) mod length (buckets tw)\<rparr>"
  have wf: "bucketTime tw = b" "length (buckets tw) = n" "current tw < n" using assms(2) by (simp_all add: wheel_wf_def)
  have "(current tw + 1) mod n < n" using wf(3) by (intro mod_less_divisor) auto
  then have w: "wheel_wf b n ?tw" using wf by (simp add: wheel_wf_def)
  have "tick_tasks c (buckets tw ! current tw) ?tw = (fired, tw')" using assms(1) by (simp add: tick_def)
  note E = tick_tasks_contents [OF this w]
  have "tasks tw = mset (buckets tw ! current tw) + tasks ?tw" using concat_clear [of "current tw" "buckets tw"] wf by (simp add: tasks_def)
  with E show "tasks tw = mset (filter (\<lambda>x. executeAt x \<le> c) (buckets tw ! current tw)) + tasks tw'"
    by (simp add: ac_simps)
  show "wheel_wf b n tw'" and "fired = map callback (filter (\<lambda>x. executeAt x \<le> c) (buckets tw ! current tw))"
    using E by auto
qed

lemma tick_on_time:
  assumes "tick c tw = (fired, tw')" and "wheel_wf b n tw" and "0 < b" and "0 \<le> L"
    and "on_time (L + 2 * b) t tw" and "t - L \<le> c"
  shows "on_time (L + 2 * b) (t + b) tw'"
    and "x \<in> set (buckets tw ! current tw) \<Longrightarrow> t \<le> executeAt x + (L + 2 * b)"
proof -
  let ?tw = "tw\<lparr>buckets := (buckets tw)[current tw := []], current := (current tw + 1) mod length (buckets tw)\<rparr>"
  have wf: "bucketTime tw = b" "length (buckets tw) = n" "current tw < n" using assms(2) by (simp_all add: wheel_wf_def)
  have "(current tw + 1) mod n < n" using wf(3) by (intro mod_less_divisor) auto
  then have w: "wheel_wf b n ?tw" using wf by (simp add: wheel_wf_def)
  have "t + b + int (off n ((current tw + 1) mod n) i) * b \<le> executeAt x + (L + 2 * b)"
    if "i < n" "i \<noteq> current tw" "x \<in> set (buckets tw ! i)" for i x
    using assms(5) that off_next [OF wf(3) that(1,2)] wf by (force simp: on_time_def algebra_simps)
  then have o: "on_time (L + 2 * b) (t + b) ?tw"
    using wf by (auto simp: on_time_def nth_list_update split: if_splits)
  have "tick_tasks c (buckets tw ! current tw) ?tw = (fired, tw')" using assms(1) by (simp add: tick_def)
  then show "on_time (L + 2 * b) (t + b) tw'" by (rule tick_tasks_on_time [OF _ w assms(3,4) o assms(6)])
  have "off n (current tw) (current tw) = 0" by (simp add: off_def)
  then show "x \<in> set (buckets tw ! current tw) \<Longrightarrow> t \<le> executeAt x + (L + 2 * b)"
    using assms(5) wf unfolding on_time_def by fastforce
qed

section \<open>The wheel in time\<close>

text \<open>
  \<open>wheel b n L due t added fired tw\<close>: the wheel was started with tick \<open>b\<close> and \<open>n\<close> slots and the ticker
  fires every \<open>b\<close>; the next tick is at \<open>t\<close>.  The coarse clock lags at most \<open>L\<close> behind the time.
  \<open>due cb\<close> is the time for which callback \<open>cb\<close> was added, and \<open>fired\<close> lists the callbacks that ran,
  with their times.
\<close>

inductive wheel ::
  "int \<Rightarrow> nat \<Rightarrow> int \<Rightarrow> ('cb \<Rightarrow> int) \<Rightarrow> int \<Rightarrow> 'cb list \<Rightarrow> ('cb \<times> int) list \<Rightarrow> 'cb TimingWheel \<Rightarrow> bool"
  for b :: int and n :: nat and L :: int and due :: "'cb \<Rightarrow> int" where
  wheel_new: "wheel b n L due t [] [] (NewTimingWheel b n)"
| wheel_add: "wheel b n L due t added fired tw \<Longrightarrow> t - b \<le> a \<Longrightarrow> a \<le> t \<Longrightarrow> a - L \<le> c \<Longrightarrow> c \<le> a \<Longrightarrow>
    due cb = c + max 0 d \<Longrightarrow> - (2 ^ 63) \<le> due cb \<Longrightarrow> due cb < 2 ^ 63 \<Longrightarrow>
    wheel b n L due t (cb # added) fired (tw_Add c d cb tw)"
| wheel_tick: "wheel b n L due t added fired tw \<Longrightarrow> t - L \<le> c \<Longrightarrow> c \<le> t \<Longrightarrow> tick c tw = (cbs, tw') \<Longrightarrow>
    wheel b n L due (t + b) added (map (\<lambda>cb. (cb, t)) cbs @ fired) tw'"

lemma wheel_invariant:
  assumes "wheel b n L due t added fired tw" and "0 < b" and "0 < n" and "0 \<le> L"
  shows "wheel_wf b n tw \<and> on_time (L + 2 * b) t tw
    \<and> (\<forall>x \<in># tasks tw. executeAt x = due (callback x))
    \<and> mset added = mset (map fst fired) + image_mset callback (tasks tw)
    \<and> (\<forall>(cb, \<tau>) \<in> set fired. due cb \<le> \<tau> \<and> \<tau> \<le> due cb + (L + 2 * b))"
  using assms
proof (induction rule: wheel.induct)
  case (wheel_new t)
  then show ?case
    by (simp add: NewTimingWheel_def wheel_wf_def on_time_def tasks_def)
next
  case (wheel_add t added fired tw a c cb d)
  note I = wheel_add.IH [OF wheel_add.prems]
  note A = tw_Add_on_time [of L b t tw n a c "due cb" d cb]
  from A I wheel_add show ?case by simp
next
  case (wheel_tick t added fired tw c cbs tw')
  note I = wheel_tick.IH [OF wheel_tick.prems]
  let ?f = "filter (\<lambda>x. executeAt x \<le> c) (buckets tw ! current tw)"
  note C = tick_contents [OF wheel_tick.hyps(4)]
  note T = tick_on_time [OF wheel_tick.hyps(4) _ wheel_tick.prems(1,3) _ wheel_tick.hyps(2)]
  have f: "tasks tw = mset ?f + tasks tw'" "cbs = map callback ?f" "wheel_wf b n tw'" "on_time (L + 2 * b) (t + b) tw'"
    using T(1) C I by blast+
  have d: "executeAt x = due (callback x)" if "x \<in># tasks tw" for x using I that by blast
  have "due (callback x) \<le> t \<and> t \<le> due (callback x) + (L + 2 * b)" if "x \<in> set ?f" for x
  proof -
    have "x \<in># tasks tw" using that f(1) by simp
    moreover have "t \<le> executeAt x + (L + 2 * b)" using T(2) I that by auto
    ultimately show ?thesis using d that wheel_tick.hyps(3) by auto
  qed
  then have "\<forall>(cb, \<tau>) \<in> set (map (\<lambda>cb. (cb, t)) cbs @ fired). due cb \<le> \<tau> \<and> \<tau> \<le> due cb + (L + 2 * b)"
    using I by (auto simp: f(2))
  moreover have "mset added = mset (map fst (map (\<lambda>cb. (cb, t)) cbs @ fired)) + image_mset callback (tasks tw')"
  proof -
    have "mset added = mset (map fst fired) + image_mset callback (mset ?f + tasks tw')" using I f(1) by argo
    moreover have "map fst (map (\<lambda>cb. (cb, t)) cbs) = map callback ?f" by (simp add: f(2) comp_def)
    ultimately show ?thesis by simp
  qed
  moreover have "\<forall>x \<in># tasks tw'. executeAt x = due (callback x)" using d f(1) by simp
  ultimately show ?case using f(3,4) by blast
qed

text \<open>
  [C22] Timers.  Whatever is added and however often the wheel turned, every callback added was run
  exactly once or is still in the wheel; none ran before its time or later than two ticks and the lag
  of the coarse clock after it, whatever the delay, also beyond a rotation of the wheel; and none that
  is overdue by that much is still in the wheel.
\<close>

theorem wheel_on_time:
  assumes "wheel b n L due t added fired tw" and "0 < b" and "0 < n" and "0 \<le> L"
  shows "mset added = mset (map fst fired) + image_mset callback (tasks tw)
    \<and> (\<forall>(cb, \<tau>) \<in> set fired. due cb \<le> \<tau> \<and> \<tau> \<le> due cb + L + 2 * b)
    \<and> (\<forall>x \<in># tasks tw. t \<le> due (callback x) + L + 2 * b)"
proof -
  note I = wheel_invariant [OF assms]
  have "t \<le> executeAt x + (L + 2 * b)" if x: "x \<in># tasks tw" for x
  proof -
    obtain B where "B \<in> set (buckets tw)" "x \<in> set B" using x by (auto simp: tasks_def)
    then obtain i where i: "i < length (buckets tw)" "x \<in> set (buckets tw ! i)" by (auto simp: in_set_conv_nth)
    have w: "bucketTime tw = b" using I by (simp add: wheel_wf_def)
    have "t + int (off (length (buckets tw)) (current tw) i) * b \<le> executeAt x + (L + 2 * b)"
      using I i unfolding on_time_def w by blast
    moreover have "0 \<le> int (off (length (buckets tw)) (current tw) i) * b" using assms(2) by simp
    ultimately show ?thesis by linarith
  qed
  with I show ?thesis by (auto simp: add.assoc)
qed

theorem wheel_on_time_witness:
  "\<exists>fired tw. wheel 10 2 1 (\<lambda>_. 45) 70 [()] fired tw \<and> map fst fired = [()] \<and> snd (hd fired) \<le> 66"
proof -
  define tw :: "unit TimingWheel" where "tw = tw_Add 0 45 () (NewTimingWheel 10 2)"
  have w: "wheel 10 2 1 (\<lambda>_. 45) 10 [()] [] tw"
    unfolding tw_def by (rule wheel_add [OF wheel_new, where a = 0]) simp_all
  obtain c1 t1 where 1: "tick 10 tw = (c1, t1)" by fastforce
  obtain c2 t2 where 2: "tick 20 t1 = (c2, t2)" by fastforce
  obtain c3 t3 where 3: "tick 30 t2 = (c3, t3)" by fastforce
  obtain c4 t4 where 4: "tick 40 t3 = (c4, t4)" by fastforce
  obtain c5 t5 where 5: "tick 50 t4 = (c5, t5)" by fastforce
  obtain c6 t6 where 6: "tick 60 t5 = (c6, t6)" by fastforce
  obtain fired where f: "wheel 10 2 1 (\<lambda>_. 45) 70 [()] fired t6"
    using wheel_tick [OF wheel_tick [OF wheel_tick [OF wheel_tick [OF wheel_tick [OF wheel_tick [OF w _ _ 1] _ _ 2] _ _ 3] _ _ 4] _ _ 5] _ _ 6]
    by force
  from wheel_on_time [OF f] have R: "{#()#} = mset (map fst fired) + image_mset callback (tasks t6)"
    "\<forall>(cb, \<tau>) \<in> set fired. 45 \<le> \<tau> \<and> \<tau> \<le> 66" "\<forall>x \<in># tasks t6. 70 \<le> (66 :: int)" by auto
  then have "tasks t6 = {#}" by (auto intro: multiset_nonemptyE)
  with R(1) have "size (mset (map fst fired)) = 1" by (metis add_0_right image_mset_empty size_single)
  then have "map fst fired = [()]" by (cases fired) auto
  with f R show ?thesis by (cases fired) auto
qed

end
