(* ===== verification/Go_Binary.thy ===== *)
theory Go_Binary
  imports Prelude
begin

text \<open>
  What the code uses of Go's \<open>encoding/binary\<close>, \<open>encoding/hex\<close> and \<open>io\<close>: big-endian integers of a
  given width (\<open>PutUint16\<close>, \<open>PutUint32\<close>, \<open>PutUint64\<close> and their readers), lower-case hexadecimal,
  and \<open>io.ReadFull\<close> on a byte stream.  The protocol codec, the WAL records, the snapshots and the
  message identifiers are all built from these; the lemmas are the decode-after-encode laws they
  share (collection \<open>codec_simps\<close>).
\<close>

section \<open>Big-endian integers\<close>

text \<open>\<open>be_bytes k n\<close> is the \<open>k\<close>-byte big-endian form of \<open>n\<close> truncated to \<open>k\<close> bytes.\<close>

fun be_bytes :: "nat \<Rightarrow> nat \<Rightarrow> byte list" where
  "be_bytes 0 n = []"
| "be_bytes (Suc k) n = be_bytes k (n div 256) @ [char_of n]"

definition be_val :: "byte list \<Rightarrow> nat" where
  "be_val bs = foldl (\<lambda>a c. a * 256 + of_char c) 0 bs"

lemma length_be_bytes [simp]: "length (be_bytes k n) = k"
  by (induction k arbitrary: n) simp_all

lemma be_val_Nil [simp]: "be_val [] = 0"
  by (simp add: be_val_def)

lemma be_val_snoc [simp]: "be_val (bs @ [c]) = be_val bs * 256 + of_char c"
  by (simp add: be_val_def)

lemma be_val_be_bytes [codec_simps]: "be_val (be_bytes k n) = n mod 256 ^ k"
proof (induction k arbitrary: n)
  case 0
  then show ?case by simp
next
  case (Suc k)
  have "n mod (256 * 256 ^ k) = 256 * (n div 256 mod 256 ^ k) + n mod 256"
    by (rule mod_mult2_eq)
  with Suc show ?case by (simp add: of_char_of)
qed

lemma be_val_bound: "be_val bs < 256 ^ length bs"
proof (induction bs rule: rev_induct)
  case Nil
  then show ?case by simp
next
  case (snoc c bs)
  have "of_char c < (256::nat)"
    using of_char_of [of "of_char c :: nat"] mod_less_divisor [of 256 "of_char c :: nat"]
    by (simp add: char_of_char)
  with snoc show ?case
    unfolding be_val_snoc length_append_singleton power_Suc by linarith
qed

lemma be_bytes_be_val: "be_bytes (length bs) (be_val bs) = bs"
proof (induction bs rule: rev_induct)
  case Nil
  then show ?case by simp
next
  case (snoc c bs)
  have c: "of_char c < (256::nat)"
    using be_val_bound [of "[c]"] be_val_snoc [of "[]" c] by simp
  have "char_of (be_val bs * 256 + of_char c) = (char_of (of_char c :: nat) :: char)"
    by (metis char_of_mod_256 mod_mult_self3)
  with snoc c show ?case by (simp add: char_of_char)
qed

lemma be_bytes_inject:
  "be_bytes k m = be_bytes k n \<longleftrightarrow> m mod 256 ^ k = n mod 256 ^ k"
  by (metis be_val_be_bytes be_bytes_be_val length_be_bytes)

lemma be_word64 [codec_simps]: "word_of_nat (be_val (be_bytes 8 (unat w))) = (w :: 64 word)"
  using unat_bound [of w] by (simp add: be_val_be_bytes)

lemma be_word32 [codec_simps]: "word_of_nat (be_val (be_bytes 4 (unat w))) = (w :: 32 word)"
  using unat_bound [of w] by (simp add: be_val_be_bytes)

section \<open>Hexadecimal\<close>

definition hex_digit :: "nat \<Rightarrow> char" where
  "hex_digit n = ''0123456789abcdef'' ! n"

definition hex_encode :: "byte list \<Rightarrow> string" where
  "hex_encode bs = concat (map (\<lambda>b. [hex_digit (of_char b div 16), hex_digit (of_char b mod 16)]) bs)"

lemma hex_digit_inject: "m < 16 \<Longrightarrow> n < 16 \<Longrightarrow> hex_digit m = hex_digit n \<longleftrightarrow> m = n"
proof -
  have "distinct ''0123456789abcdef''" by simp
  then show "m < 16 \<Longrightarrow> n < 16 \<Longrightarrow> hex_digit m = hex_digit n \<longleftrightarrow> m = n"
    unfolding hex_digit_def by (intro nth_eq_iff_index_eq) simp_all
qed

lemma of_char_bound: "of_char c < (256 :: nat)"
  using be_val_bound [of "[c]"] be_val_snoc [of "[]" c] by simp

lemma hex_byte_inject:
  "hex_digit (of_char b div 16) = hex_digit (of_char c div 16) \<Longrightarrow>
   hex_digit (of_char b mod 16) = hex_digit (of_char c mod 16) \<Longrightarrow> b = c"
proof -
  assume *: "hex_digit (of_char b div 16) = hex_digit (of_char c div 16)"
    "hex_digit (of_char b mod 16) = hex_digit (of_char c mod 16)"
  have "of_char b div 16 < (16::nat)" and "of_char c div 16 < (16::nat)"
    using of_char_bound [of b] of_char_bound [of c] by (simp_all add: less_mult_imp_div_less)
  with * have "of_char b div 16 = (of_char c div 16 :: nat)"
    and "of_char b mod 16 = (of_char c mod 16 :: nat)"
    by (simp_all add: hex_digit_inject)
  then have "(of_char b :: nat) = of_char c" by (metis div_mult_mod_eq)
  then show "b = c" by (metis char_of_char)
qed

lemma length_hex_encode [simp]: "length (hex_encode bs) = 2 * length bs"
  by (induction bs) (simp_all add: hex_encode_def)

lemma hex_encode_inject: "hex_encode bs = hex_encode cs \<longleftrightarrow> bs = cs"
proof
  show "hex_encode bs = hex_encode cs \<Longrightarrow> bs = cs"
  proof (induction bs arbitrary: cs)
    case Nil
    then show ?case by (cases cs) (simp_all add: hex_encode_def)
  next
    case (Cons b bs)
    then show ?case by (cases cs) (auto simp: hex_encode_def dest: hex_byte_inject)
  qed
qed simp

section \<open>Reading a byte stream\<close>

datatype ioerr = EOF | UnexpectedEOF

text \<open>\<open>io.ReadFull\<close> into a buffer of \<open>n\<close> bytes: what was read and what is left of the stream.\<close>

definition readFull :: "nat \<Rightarrow> byte list \<Rightarrow> ioerr + byte list \<times> byte list" where
  "readFull n bs =
     (if n \<le> length bs then Inr (take n bs, drop n bs)
      else if bs = [] then Inl EOF else Inl UnexpectedEOF)"

lemma readFull_append [codec_simps]: "length xs = n \<Longrightarrow> readFull n (xs @ ys) = Inr (xs, ys)"
  by (auto simp: readFull_def)

lemma readFull_Inr: "readFull n bs = Inr (xs, ys) \<Longrightarrow> bs = xs @ ys \<and> length xs = n"
  by (auto simp: readFull_def split: if_splits)

lemma readFull_short: "length bs < n \<Longrightarrow> \<exists>e. readFull n bs = Inl e"
  by (simp add: readFull_def)

text \<open>Sequencing of reads: the first error is the result.\<close>

definition rbind :: "'e + 'a \<Rightarrow> ('a \<Rightarrow> 'e + 'b) \<Rightarrow> 'e + 'b" where
  "rbind r f = (case r of Inl e \<Rightarrow> Inl e | Inr x \<Rightarrow> f x)"

lemma rbind_simps [simp, codec_simps]: "rbind (Inl e) f = Inl e" "rbind (Inr x) f = f x"
  by (simp_all add: rbind_def)

lemma rbind_Inr_iff: "rbind r f = Inr y \<longleftrightarrow> (\<exists>x. r = Inr x \<and> f x = Inr y)"
  by (cases r) simp_all

end
