(* ===== verification/Go_Heap.thy ===== *)
theory Go_Heap
  imports Prelude
begin

text \<open>
  The array heap of Go's \<open>container/heap\<close>, as \<^verbatim>\<open>internal/queue/delayed.go\<close> and
  \<^verbatim>\<open>internal/queue/group.go\<close> use it: \<open>Init\<close>, \<open>Push\<close>, \<open>Pop\<close> with the sifting loops \<open>up\<close> and
  \<open>down\<close>.  The functions are parametrised by the element order \<open>Less\<close>; the locale
  \<open>strict_weak_order\<close> states what \<open>container/heap\<close> documents that it needs of \<open>Less\<close>, and proves
  that the heap is a priority queue under it.
\<close>

section \<open>Model\<close>

definition heap_swap :: "'a list \<Rightarrow> nat \<Rightarrow> nat \<Rightarrow> 'a list" where
  "heap_swap h i j = h[i := h ! j, j := h ! i]"

lemma length_heap_swap [simp]: "length (heap_swap h i j) = length h"
  by (simp add: heap_swap_def)

function heap_up :: "('a \<Rightarrow> 'a \<Rightarrow> bool) \<Rightarrow> 'a list \<Rightarrow> nat \<Rightarrow> 'a list" where
  "heap_up lt h j =
     (let i = (j - 1) div 2 in
      if i = j \<or> \<not> lt (h ! j) (h ! i) then h
      else heap_up lt (heap_swap h i j) i)"
  by pat_completeness auto
termination
  by (relation "measure (\<lambda>(lt, h, j). j)") auto

text \<open>The smaller of the two children of \<open>i\<close> below \<open>n\<close>, the left one on ties.\<close>

definition child_pick :: "('a \<Rightarrow> 'a \<Rightarrow> bool) \<Rightarrow> 'a list \<Rightarrow> nat \<Rightarrow> nat \<Rightarrow> nat" where
  "child_pick lt h i n =
     (let j1 = 2 * i + 1; j2 = j1 + 1
      in if j2 < n \<and> lt (h ! j2) (h ! j1) then j2 else j1)"

lemma child_pick_cases: "child_pick lt h i n = 2 * i + 1 \<or> child_pick lt h i n = 2 * i + 2"
  by (simp add: child_pick_def Let_def)

lemma child_pick_bounds:
  "i < child_pick lt h i n \<and> (2 * i + 1 < n \<longrightarrow> child_pick lt h i n < n)"
  by (auto simp: child_pick_def Let_def)

function heap_down :: "('a \<Rightarrow> 'a \<Rightarrow> bool) \<Rightarrow> 'a list \<Rightarrow> nat \<Rightarrow> nat \<Rightarrow> 'a list" where
  "heap_down lt h i n =
     (if 2 * i + 1 \<ge> n then h
      else let j = child_pick lt h i n in
           if \<not> lt (h ! j) (h ! i) then h
           else heap_down lt (heap_swap h i j) j n)"
  by pat_completeness auto
termination
proof (relation "measure (\<lambda>(lt, h, i, n). n - i)", simp)
  fix lt :: "'a \<Rightarrow> 'a \<Rightarrow> bool" and h i n x
  assume "\<not> n \<le> 2 * i + 1" and "x = child_pick lt h i n"
  with child_pick_bounds [of i lt h n]
  show "((lt, heap_swap h i x, x, n), lt, h, i, n) \<in> measure (\<lambda>(lt, h, i, n). n - i)"
    by auto
qed

declare heap_up.simps [simp del] heap_down.simps [simp del]

definition heap_init :: "('a \<Rightarrow> 'a \<Rightarrow> bool) \<Rightarrow> 'a list \<Rightarrow> 'a list" where
  "heap_init lt h = fold (\<lambda>i h. heap_down lt h i (length h)) (rev [0..<length h div 2]) h"

definition heap_push :: "('a \<Rightarrow> 'a \<Rightarrow> bool) \<Rightarrow> 'a \<Rightarrow> 'a list \<Rightarrow> 'a list" where
  "heap_push lt x h = heap_up lt (h @ [x]) (length h)"

text \<open>\<open>heap.Pop\<close> of an empty heap panics (\<open>Swap(0, -1)\<close>); the model returns \<open>None\<close>.\<close>

definition heap_pop :: "('a \<Rightarrow> 'a \<Rightarrow> bool) \<Rightarrow> 'a list \<Rightarrow> ('a \<times> 'a list) option" where
  "heap_pop lt h =
     (if h = [] then None
      else let n = length h - 1;
               h1 = heap_down lt (heap_swap h 0 n) 0 n
           in Some (h1 ! n, take n h1))"

section \<open>Contents and length\<close>

lemma mset_heap_swap [simp]:
  "i < length h \<Longrightarrow> j < length h \<Longrightarrow> mset (heap_swap h i j) = mset h"
  by (simp add: heap_swap_def mset_swap)

lemma heap_swap_nth:
  "i < length h \<Longrightarrow> j < length h \<Longrightarrow> k < length h \<Longrightarrow>
   heap_swap h i j ! k = (if k = i then h ! j else if k = j then h ! i else h ! k)"
  by (auto simp: heap_swap_def nth_list_update)

lemma heap_up_stop:
  "j = 0 \<or> \<not> lt (h ! j) (h ! ((j - 1) div 2)) \<Longrightarrow> heap_up lt h j = h"
  by (subst heap_up.simps) (auto simp: Let_def)

lemma heap_up_step:
  "0 < j \<Longrightarrow> lt (h ! j) (h ! ((j - 1) div 2)) \<Longrightarrow>
   heap_up lt h j = heap_up lt (heap_swap h ((j - 1) div 2) j) ((j - 1) div 2)"
  by (subst heap_up.simps) (auto simp: Let_def)

lemma heap_up_induct [case_names stop step]:
  assumes "\<And>h j. j = 0 \<or> \<not> lt (h ! j) (h ! ((j - 1) div 2)) \<Longrightarrow> P h j"
    and "\<And>h j. 0 < j \<Longrightarrow> lt (h ! j) (h ! ((j - 1) div 2)) \<Longrightarrow>
          P (heap_swap h ((j - 1) div 2) j) ((j - 1) div 2) \<Longrightarrow> P h j"
  shows "P h j"
proof (induction j arbitrary: h rule: less_induct)
  case (less j)
  show ?case
  proof (cases "j = 0 \<or> \<not> lt (h ! j) (h ! ((j - 1) div 2))")
    case True
    then show ?thesis by (rule assms(1))
  next
    case False
    then have "(j - 1) div 2 < j" by linarith
    with False show ?thesis using assms(2) less by simp
  qed
qed

lemma length_heap_up [simp]: "length (heap_up lt h j) = length h"
  by (induction h j rule: heap_up_induct [of lt]) (simp_all add: heap_up_stop heap_up_step)

lemma mset_heap_up: "j < length h \<Longrightarrow> mset (heap_up lt h j) = mset h"
  by (induction h j rule: heap_up_induct [of lt]) (simp_all add: heap_up_stop heap_up_step)

lemma heap_down_stop:
  "n \<le> 2 * i + 1 \<or> \<not> lt (h ! child_pick lt h i n) (h ! i) \<Longrightarrow> heap_down lt h i n = h"
  by (subst heap_down.simps) (auto simp: Let_def)

lemma heap_down_step:
  "2 * i + 1 < n \<Longrightarrow> lt (h ! child_pick lt h i n) (h ! i) \<Longrightarrow>
   heap_down lt h i n = heap_down lt (heap_swap h i (child_pick lt h i n)) (child_pick lt h i n) n"
  by (subst heap_down.simps) (auto simp: Let_def)

lemma heap_down_induct [case_names stop step]:
  assumes "\<And>h i. n \<le> 2 * i + 1 \<or> \<not> lt (h ! child_pick lt h i n) (h ! i) \<Longrightarrow> P h i"
    and "\<And>h i. 2 * i + 1 < n \<Longrightarrow> lt (h ! child_pick lt h i n) (h ! i) \<Longrightarrow>
          P (heap_swap h i (child_pick lt h i n)) (child_pick lt h i n) \<Longrightarrow> P h i"
  shows "P h i"
proof (induction "n - i" arbitrary: h i rule: less_induct)
  case less
  show ?case
  proof (cases "n \<le> 2 * i + 1 \<or> \<not> lt (h ! child_pick lt h i n) (h ! i)")
    case True
    then show ?thesis by (rule assms(1))
  next
    case False
    with child_pick_bounds [of i lt h n] have "n - child_pick lt h i n < n - i" by linarith
    with False show ?thesis using assms(2) less by (meson not_le)
  qed
qed

lemma length_heap_down [simp]: "length (heap_down lt h i n) = length h"
  by (induction h i rule: heap_down_induct [of n lt]) (simp_all add: heap_down_stop heap_down_step)

lemma heap_down_contents:
  "n \<le> length h \<Longrightarrow>
   mset (heap_down lt h i n) = mset h
   \<and> (\<forall>k. n \<le> k \<and> k < length h \<longrightarrow> heap_down lt h i n ! k = h ! k)"
proof (induction h i rule: heap_down_induct [of n lt])
  case (stop h i)
  then show ?case by (simp add: heap_down_stop)
next
  case (step h i)
  let ?j = "child_pick lt h i n"
  have j: "?j < n" and i: "i < n" using child_pick_bounds [of i lt h n] step by auto
  have "heap_swap h i ?j ! k = h ! k" if "n \<le> k" "k < length h" for k
    using that i j by (auto simp: heap_swap_nth)
  then show ?case using step i j by (simp add: heap_down_step)
qed

lemmas mset_heap_down = heap_down_contents [THEN conjunct1]
  and heap_down_frame = heap_down_contents [THEN conjunct2, rule_format]

lemma heap_pop_Some: "h \<noteq> [] \<Longrightarrow> \<exists>x h'. heap_pop lt h = Some (x, h')"
  by (simp add: heap_pop_def Let_def)

lemma heap_pop_contents:
  assumes "heap_pop lt h = Some (x, h')"
  shows "x = h ! 0 \<and> mset h = add_mset x (mset h') \<and> length h = Suc (length h')"
proof -
  let ?n = "length h - 1"
  let ?d = "heap_down lt (heap_swap h 0 ?n) 0 ?n"
  have h: "h \<noteq> []" and x: "x = ?d ! ?n" and h': "h' = take ?n ?d"
    using assms by (auto simp: heap_pop_def Let_def split: if_splits)
  then have n: "?n < length h" and n0: "0 < length h" by (cases h; simp)+
  have ms: "mset ?d = mset h" and last: "?d ! ?n = h ! 0"
    using n n0 heap_down_contents [of ?n "heap_swap h 0 ?n" lt 0] by (auto simp: heap_swap_nth)
  have "?d = take ?n ?d @ [?d ! ?n]"
    using n take_Suc_conv_app_nth [of ?n ?d] by (cases h) auto
  then have "mset ?d = add_mset (?d ! ?n) (mset (take ?n ?d))"
    by (metis add_mset_add_single mset_append mset_single_iff_right)
  with n ms last x h' show ?thesis by simp
qed

lemma heap_push_contents:
  "mset (heap_push lt x h) = add_mset x (mset h)
   \<and> length (heap_push lt x h) = Suc (length h)"
  by (simp add: heap_push_def mset_heap_up)

section \<open>Heap order\<close>

text \<open>No element among the first \<open>n\<close> precedes its parent, for parents from \<open>lo\<close> on.\<close>

definition heap_from :: "('a \<Rightarrow> 'a \<Rightarrow> bool) \<Rightarrow> nat \<Rightarrow> 'a list \<Rightarrow> nat \<Rightarrow> bool" where
  "heap_from lt lo h n =
     (\<forall>k. 0 < k \<and> k < n \<and> lo \<le> (k - 1) div 2 \<longrightarrow> \<not> lt (h ! k) (h ! ((k - 1) div 2)))"

abbreviation heap_ok :: "('a \<Rightarrow> 'a \<Rightarrow> bool) \<Rightarrow> 'a list \<Rightarrow> bool" where
  "heap_ok lt h \<equiv> heap_from lt 0 h (length h)"

text \<open>One defect: only the edges below \<open>i\<close> may be wrong, and skipping \<open>i\<close> is in order.\<close>

definition down_inv :: "('a \<Rightarrow> 'a \<Rightarrow> bool) \<Rightarrow> nat \<Rightarrow> 'a list \<Rightarrow> nat \<Rightarrow> nat \<Rightarrow> bool" where
  "down_inv lt lo h i n =
     ((\<forall>k. 0 < k \<and> k < n \<and> lo \<le> (k - 1) div 2 \<and> (k - 1) div 2 \<noteq> i \<longrightarrow>
           \<not> lt (h ! k) (h ! ((k - 1) div 2))) \<and>
      (0 < i \<and> lo \<le> (i - 1) div 2 \<longrightarrow>
         (\<forall>k. 0 < k \<and> k < n \<and> (k - 1) div 2 = i \<longrightarrow> \<not> lt (h ! k) (h ! ((i - 1) div 2)))))"

text \<open>One defect: only the edge above \<open>j\<close> may be wrong, and skipping \<open>j\<close> is in order.\<close>

definition up_inv :: "('a \<Rightarrow> 'a \<Rightarrow> bool) \<Rightarrow> 'a list \<Rightarrow> nat \<Rightarrow> bool" where
  "up_inv lt h j =
     ((\<forall>k. 0 < k \<and> k < length h \<and> k \<noteq> j \<longrightarrow> \<not> lt (h ! k) (h ! ((k - 1) div 2))) \<and>
      (0 < j \<longrightarrow> (\<forall>k. 0 < k \<and> k < length h \<and> (k - 1) div 2 = j \<longrightarrow>
           \<not> lt (h ! k) (h ! ((j - 1) div 2)))))"

lemma children_of: "(0 < k \<and> (k - 1) div 2 = i) = (k = 2 * i + 1 \<or> k = 2 * i + 2)" for k i :: nat
  by (cases k) auto

locale strict_weak_order =
  fixes lt :: "'a \<Rightarrow> 'a \<Rightarrow> bool"
  assumes lt_asym: "lt a b \<Longrightarrow> \<not> lt b a"
    and not_lt_trans: "\<not> lt b a \<Longrightarrow> \<not> lt c b \<Longrightarrow> \<not> lt c a"
begin

lemma child_pick_least:
  assumes "k = 2 * i + 1 \<or> k = 2 * i + 2" and "k < n"
  shows "\<not> lt (h ! k) (h ! child_pick lt h i n)"
  using assms lt_asym by (auto simp: child_pick_def Let_def)

lemma down_inv_step:
  assumes inv: "down_inv lt lo h i n" and n: "n \<le> length h" "2 * i + 1 < n" and lo: "lo \<le> i"
    and less: "lt (h ! child_pick lt h i n) (h ! i)"
  shows "down_inv lt lo (heap_swap h i (child_pick lt h i n)) (child_pick lt h i n) n"
proof -
  define j where "j = child_pick lt h i n"
  have j: "j < n" "i < j" "0 < j" "(j - 1) div 2 = i"
    using child_pick_bounds [of i lt h n] child_pick_cases [of lt h i n] n by (auto simp: j_def)
  have sw: "heap_swap h i j ! k = (if k = i then h ! j else if k = j then h ! i else h ! k)"
    if "k < n" for k using that j n by (simp add: heap_swap_nth)
  have edge: "\<not> lt (heap_swap h i j ! k) (heap_swap h i j ! ((k - 1) div 2))"
    if k: "0 < k" "k < n" "lo \<le> (k - 1) div 2" "(k - 1) div 2 \<noteq> j" for k
  proof -
    have p: "(k - 1) div 2 < k" using k by linarith
    show ?thesis
    proof (cases "(k - 1) div 2 = i")
      case True
      then have "\<not> lt (h ! k) (h ! j)" using child_pick_least [of k i n h] children_of [of k i] k by (simp add: j_def)
      moreover have "\<not> lt (h ! i) (h ! j)" using less lt_asym by (simp add: j_def)
      ultimately show ?thesis using True k p j by (auto simp: sw)
    next
      case False
      show ?thesis
      proof (cases "k = i")
        case True
        then have "\<not> lt (h ! j) (h ! ((i - 1) div 2))"
          using inv k j by (auto simp: down_inv_def)
        then show ?thesis using True k p by (auto simp: sw)
      next
        case ki: False
        have "k \<noteq> j" using False j by auto
        moreover have "\<not> lt (h ! k) (h ! ((k - 1) div 2))"
          using inv k False by (simp add: down_inv_def)
        ultimately show ?thesis using ki False k p by (simp add: sw)
      qed
    qed
  qed
  have below: "\<not> lt (heap_swap h i j ! k) (heap_swap h i j ! ((j - 1) div 2))"
    if k: "0 < k" "k < n" "(k - 1) div 2 = j" for k
  proof -
    have "j < k" using k by linarith
    moreover have "(k - 1) div 2 \<noteq> i" and "lo \<le> (k - 1) div 2" using k j lo by simp_all
    then have "\<not> lt (h ! k) (h ! j)" using inv k unfolding down_inv_def by metis
    ultimately show ?thesis using k j by (simp add: sw)
  qed
  show ?thesis using edge below unfolding down_inv_def j_def [symmetric] by blast
qed

lemma heap_down_order:
  "down_inv lt lo h i n \<Longrightarrow> n \<le> length h \<Longrightarrow> lo \<le> i \<Longrightarrow> heap_from lt lo (heap_down lt h i n) n"
proof (induction h i rule: heap_down_induct [of n lt])
  case (stop h i)
  have "\<not> lt (h ! k) (h ! i)" if "0 < k" "k < n" "(k - 1) div 2 = i" for k
  proof -
    have k: "k = 2 * i + 1 \<or> k = 2 * i + 2" using that children_of by blast
    then have "\<not> lt (h ! child_pick lt h i n) (h ! i)" using stop(1) that by auto
    then show ?thesis using child_pick_least [OF k that(2)] not_lt_trans by blast
  qed
  then show ?case using stop by (auto simp: heap_down_stop heap_from_def down_inv_def)
next
  case (step h i)
  then show ?case
    using down_inv_step [OF step.prems(1,2) step.hyps(1) step.prems(3) step.hyps(2)]
      child_pick_bounds [of i lt h n]
    by (simp add: heap_down_step)
qed

lemma up_inv_step:
  assumes inv: "up_inv lt h j" and j: "0 < j" "j < length h"
    and less: "lt (h ! j) (h ! ((j - 1) div 2))"
  shows "up_inv lt (heap_swap h ((j - 1) div 2) j) ((j - 1) div 2)"
proof -
  define i where "i = (j - 1) div 2"
  have i: "i < j" using j by (simp add: i_def)
  have sw: "heap_swap h i j ! k = (if k = i then h ! j else if k = j then h ! i else h ! k)"
    if "k < length h" for k using that i j by (simp add: heap_swap_nth)
  have ij: "\<not> lt (h ! i) (h ! j)" using less lt_asym by (simp add: i_def)
  have ok: "\<not> lt (h ! k) (h ! ((k - 1) div 2))" if "0 < k" "k < length h" "k \<noteq> j" for k
    using inv that by (simp add: up_inv_def)
  have edge: "\<not> lt (heap_swap h i j ! k) (heap_swap h i j ! ((k - 1) div 2))"
    if k: "0 < k" "k < length h" "k \<noteq> i" for k
  proof -
    have p: "(k - 1) div 2 < length h" "(k - 1) div 2 \<noteq> k" using k by linarith+
    consider "k = j" | "k \<noteq> j" "(k - 1) div 2 = j" | "k \<noteq> j" "(k - 1) div 2 = i"
      | "k \<noteq> j" "(k - 1) div 2 \<noteq> j" "(k - 1) div 2 \<noteq> i" by blast
    then show ?thesis
    proof cases
      case 1
      then have "(k - 1) div 2 = i" by (simp add: i_def)
      then show ?thesis using 1 ij i k by (simp add: sw)
    next
      case 2
      then have "\<not> lt (h ! k) (h ! i)" using inv j k by (simp add: up_inv_def i_def)
      then show ?thesis using 2 k p i by (simp add: sw)
    next
      case 3
      then have "\<not> lt (h ! k) (h ! i)" using ok [of k] k by simp
      then have "\<not> lt (h ! k) (h ! j)" using ij not_lt_trans by blast
      then show ?thesis using 3 k p by (simp add: sw)
    next
      case 4
      then show ?thesis using ok [of k] k p by (simp add: sw)
    qed
  qed
  have below: "\<not> lt (heap_swap h i j ! k) (heap_swap h i j ! ((i - 1) div 2))"
    if k: "0 < i" "0 < k" "k < length h" "(k - 1) div 2 = i" for k
  proof -
    have q: "(i - 1) div 2 < i" using k(1) by linarith
    have "\<not> lt (h ! i) (h ! ((i - 1) div 2))" using ok [of i] i j k(1) by simp
    moreover have "\<not> lt (h ! k) (h ! i) \<or> k = j" using ok [of k] k by auto
    ultimately have "\<not> lt (h ! k) (h ! ((i - 1) div 2)) \<or> k = j" using not_lt_trans by blast
    then show ?thesis
      using \<open>\<not> lt (h ! i) (h ! ((i - 1) div 2))\<close> q i j k by (auto simp: sw)
  qed
  show ?thesis using edge below unfolding up_inv_def i_def [symmetric] length_heap_swap by blast
qed

lemma heap_up_order: "up_inv lt h j \<Longrightarrow> j < length h \<Longrightarrow> heap_ok lt (heap_up lt h j)"
proof (induction h j rule: heap_up_induct [of lt])
  case (stop h j)
  have "\<not> lt (h ! k) (h ! ((k - 1) div 2))" if "0 < k" "k < length h" for k
    using stop that by (cases "k = j") (auto simp: up_inv_def)
  then show ?case using stop by (simp add: heap_up_stop heap_from_def)
next
  case (step h j)
  have "(j - 1) div 2 < length h" using step by linarith
  with step show ?case using up_inv_step [OF step.prems(1) step.hyps(1) step.prems(2) step.hyps(2)]
    by (simp add: heap_up_step)
qed

text \<open>The promises of the three operations.\<close>

lemma heap_push_ok:
  assumes "heap_ok lt h"
  shows "heap_ok lt (heap_push lt x h)"
proof -
  have parent: "(k - 1) div 2 < k" if "0 < k" for k :: nat using that by linarith
  have "\<not> lt ((h @ [x]) ! k) ((h @ [x]) ! ((k - 1) div 2))" if "0 < k" "k < length h" for k
    using assms that parent [of k] by (simp add: heap_from_def nth_append)
  moreover have "(k - 1) div 2 \<noteq> length h" if "0 < k" "k < length (h @ [x])" for k
    using parent [of k] that by auto
  ultimately have "up_inv lt (h @ [x]) (length h)"
    unfolding up_inv_def by (metis length_append_singleton less_SucE)
  then show ?thesis unfolding heap_push_def by (rule heap_up_order) simp
qed

lemma heap_pop_ok:
  assumes "heap_ok lt h" and "heap_pop lt h = Some (x, h')"
  shows "heap_ok lt h'"
proof -
  let ?n = "length h - 1"
  have h: "h \<noteq> []" and h': "h' = take ?n (heap_down lt (heap_swap h 0 ?n) 0 ?n)"
    using assms(2) by (auto simp: heap_pop_def Let_def split: if_splits)
  have "heap_swap h 0 ?n ! k = h ! k" if "0 < k" "k < ?n" for k
    using that h by (simp add: heap_swap_nth)
  then have "down_inv lt 0 (heap_swap h 0 ?n) 0 ?n"
    using assms(1) by (auto simp: down_inv_def heap_from_def)
  then have "heap_from lt 0 (heap_down lt (heap_swap h 0 ?n) 0 ?n) ?n"
    by (rule heap_down_order) simp_all
  then show ?thesis by (auto simp: heap_from_def h' less_imp_diff_less)
qed

lemma heap_min:
  assumes "heap_ok lt h" and "k < length h"
  shows "\<not> lt (h ! k) (h ! 0)"
  using assms(2)
proof (induction k rule: less_induct)
  case (less k)
  show ?case
  proof (cases "k = 0")
    case True
    then show ?thesis using lt_asym by blast
  next
    case False
    then have p: "(k - 1) div 2 < k" by linarith
    then have "\<not> lt (h ! ((k - 1) div 2)) (h ! 0)" using less by simp
    moreover have "\<not> lt (h ! k) (h ! ((k - 1) div 2))"
      using assms(1) less.prems False by (simp add: heap_from_def)
    ultimately show ?thesis using not_lt_trans by blast
  qed
qed

lemma heap_pop_min:
  assumes "heap_ok lt h" and "heap_pop lt h = Some (x, h')" and "y \<in> set h"
  shows "\<not> lt y x"
  using heap_min [OF assms(1)] heap_pop_contents [OF assms(2)] assms(3)
  by (metis in_set_conv_nth)

lemma heap_init_from:
  "m \<le> length h \<Longrightarrow> heap_from lt m h (length h) \<Longrightarrow>
   heap_ok lt (fold (\<lambda>i h. heap_down lt h i (length h)) (rev [0..<m]) h)"
proof (induction m arbitrary: h)
  case 0
  then show ?case by simp
next
  case (Suc m)
  have "down_inv lt m h m (length h)"
    using Suc.prems(2) by (auto simp: down_inv_def heap_from_def)
  then have "heap_from lt m (heap_down lt h m (length h)) (length h)"
    by (rule heap_down_order) simp_all
  then show ?case using Suc.IH [of "heap_down lt h m (length h)"] Suc.prems(1) by simp
qed

lemma heap_init_ok: "heap_ok lt (heap_init lt h)"
proof -
  have "heap_from lt (length h div 2) h (length h)"
    unfolding heap_from_def by (intro allI impI) linarith
  then show ?thesis unfolding heap_init_def by (intro heap_init_from) simp_all
qed

end

lemma heap_init_contents: "mset (heap_init lt h) = mset h"
proof -
  have "mset (fold (\<lambda>i h. heap_down lt h i (length h)) is h) = mset h" for "is"
    by (induction "is" arbitrary: h) (simp_all add: mset_heap_down)
  then show ?thesis by (simp add: heap_init_def)
qed

end
