(* ===== verification/Message.thy ===== *)
theory Message
  imports Go_Binary Go_Heap
begin

text \<open>
  Messages and their identifiers (\<^verbatim>\<open>internal/queue/message.go\<close>) and the order of the delayed heap
  (\<^verbatim>\<open>internal/queue/delayed.go\<close>).  The process-wide counter behind \<open>newID\<close> is an explicit state
  (\<open>idgen\<close>).  The lemmas show that a process never issues the same identifier twice before its
  64-bit counter wraps, and that \<open>delayedHeap\<close>'s \<open>Less\<close> is a strict weak order, so that the heap of
  \<open>Go_Heap\<close> is a priority queue on messages.
\<close>

section \<open>Messages\<close>

text \<open>
  \<open>MessageState\<close> is an \<open>int8\<close> with five named values; a snapshot may carry any other value, which
  is kept as it is.
\<close>

datatype MessageState =
  StatePending | StateProcessing | StateDone | StateFailed | StateDLQ | StateOther "8 word"

definition msgstate_of_int8 :: "8 word \<Rightarrow> MessageState" where
  "msgstate_of_int8 w =
     (if w = 0 then StatePending else if w = 1 then StateProcessing else if w = 2 then StateDone
      else if w = 3 then StateFailed else if w = 4 then StateDLQ else StateOther w)"

fun int8_of_msgstate :: "MessageState \<Rightarrow> 8 word" where
  "int8_of_msgstate StatePending = 0"
| "int8_of_msgstate StateProcessing = 1"
| "int8_of_msgstate StateDone = 2"
| "int8_of_msgstate StateFailed = 3"
| "int8_of_msgstate StateDLQ = 4"
| "int8_of_msgstate (StateOther w) = w"

fun MessageState_String :: "MessageState \<Rightarrow> string" where
  "MessageState_String StatePending = ''pending''"
| "MessageState_String StateProcessing = ''processing''"
| "MessageState_String StateDone = ''done''"
| "MessageState_String StateFailed = ''failed''"
| "MessageState_String StateDLQ = ''dlq''"
| "MessageState_String (StateOther w) = ''unknown''"

lemma msgstate_of_int8_roundtrip [simp]: "int8_of_msgstate (msgstate_of_int8 w) = w"
  by (simp add: msgstate_of_int8_def)

record message =
  m_ID :: string
  m_QueueName :: string
  m_Namespace :: string
  m_GroupKey :: string
  m_Payload :: "byte list"
  m_State :: MessageState
  m_Attempts :: int
  m_ScheduledAt :: gtime
  m_CreatedAt :: gtime
  m_LastError :: string

section \<open>Identifiers\<close>

record idgen =
  initMsgIDPrefix :: "64 word"
  msgIDCounter :: "64 word"

definition newID :: "idgen \<Rightarrow> string \<times> idgen" where
  "newID g =
     (let g = g\<lparr>msgIDCounter := msgIDCounter g + 1\<rparr>;
          ident = Bit_Operations.xor (initMsgIDPrefix g) (msgIDCounter g)
      in (hex_encode (be_bytes 8 (unat ident)), g))"

definition GenerateID :: "idgen \<Rightarrow> string \<times> idgen" where
  "GenerateID g = newID g"

definition newMessageAt ::
  "string \<Rightarrow> string \<Rightarrow> string \<Rightarrow> byte list \<Rightarrow> gtime \<Rightarrow> idgen \<Rightarrow> message \<times> idgen" where
  "newMessageAt q ns grp payload now g =
     (let (ident, g) = newID g in
      (\<lparr>m_ID = ident, m_QueueName = q, m_Namespace = ns, m_GroupKey = grp, m_Payload = payload,
        m_State = StatePending, m_Attempts = 0, m_ScheduledAt = now, m_CreatedAt = now,
        m_LastError = []\<rparr>, g))"

definition NewMessageForRecovery ::
  "string \<Rightarrow> string \<Rightarrow> string \<Rightarrow> byte list \<Rightarrow> gtime \<Rightarrow> string \<Rightarrow> message" where
  "NewMessageForRecovery q ns grp payload now ident =
     \<lparr>m_ID = ident, m_QueueName = q, m_Namespace = ns, m_GroupKey = grp, m_Payload = payload,
      m_State = StatePending, m_Attempts = 0, m_ScheduledAt = now, m_CreatedAt = now,
      m_LastError = []\<rparr>"

text \<open>The identifiers issued by \<open>n\<close> successive calls.\<close>

fun issued :: "nat \<Rightarrow> idgen \<Rightarrow> string list" where
  "issued 0 g = []"
| "issued (Suc n) g = (let (ident, g') = newID g in ident # issued n g')"

lemma newID_unfold:
  "newID g = (hex_encode (be_bytes 8 (unat (Bit_Operations.xor (initMsgIDPrefix g) (msgIDCounter g + 1)))),
     g\<lparr>msgIDCounter := msgIDCounter g + 1\<rparr>)"
  by (simp add: newID_def Let_def)

lemma length_newID: "length (fst (newID g)) = 16"
  by (simp add: newID_unfold)

lemma xor_left_cancel: "Bit_Operations.xor a b = Bit_Operations.xor a c \<longleftrightarrow> b = c" for a b c :: "64 word"
proof
  assume "Bit_Operations.xor a b = Bit_Operations.xor a c"
  then have "Bit_Operations.xor a (Bit_Operations.xor a b) = Bit_Operations.xor a (Bit_Operations.xor a c)"
    by simp
  then show "b = c" by (simp add: xor.assoc [symmetric])
qed simp

definition nth_id :: "64 word \<Rightarrow> 64 word \<Rightarrow> string" where
  "nth_id p c = hex_encode (be_bytes 8 (unat (Bit_Operations.xor p c)))"

lemma nth_id_inject: "nth_id p c = nth_id p d \<longleftrightarrow> c = d"
proof -
  have bound: "unat x < 256 ^ 8" for x :: "64 word"
    using unat_bound [of x] by simp
  show ?thesis
    unfolding nth_id_def hex_encode_inject be_bytes_inject mod_less [OF bound] word_unat_eq_iff [symmetric]
    by (rule xor_left_cancel)
qed

lemma issued_eq:
  "issued n g = map (\<lambda>k. nth_id (initMsgIDPrefix g) (msgIDCounter g + of_nat (Suc k))) [0..<n]"
proof (induction n arbitrary: g)
  case 0
  then show ?case by simp
next
  case (Suc n)
  show ?case
    by (simp add: newID_unfold Suc map_upt_Suc nth_id_def add.assoc del: upt_Suc)
qed

text \<open>
  Unique identifiers.  Whatever the prefix and the counter's start, a process issues pairwise
  different 16-character identifiers until it has issued \<open>2 ^ 64\<close> of them.
\<close>

lemma newID_distinct:
  assumes "n \<le> 2 ^ 64"
  shows "distinct (issued n g) \<and> (\<forall>ident \<in> set (issued n g). length ident = 16)"
proof
  have "inj_on (\<lambda>k. nth_id (initMsgIDPrefix g) (msgIDCounter g + of_nat (Suc k))) (set [0..<n])"
  proof (rule inj_onI)
    fix i j assume i: "i \<in> set [0..<n]" and j: "j \<in> set [0..<n]"
      and eq: "nth_id (initMsgIDPrefix g) (msgIDCounter g + of_nat (Suc i))
             = nth_id (initMsgIDPrefix g) (msgIDCounter g + of_nat (Suc j))"
    then have "(of_nat i :: 64 word) = of_nat j" by (simp add: nth_id_inject)
    moreover have "i < 2 ^ 64" "j < 2 ^ 64" using i j assms by auto
    ultimately show "i = j" by (simp add: word_of_nat_eq_iff take_bit_nat_eq_self)
  qed
  then show "distinct (issued n g)" unfolding issued_eq by (simp add: distinct_map)
  show "\<forall>ident \<in> set (issued n g). length ident = 16"
    unfolding issued_eq by (auto simp: nth_id_def)
qed

text \<open>
  Uniqueness does not extend across restarts: whatever the prefixes of two processes, each
  identifier of the first is also issued by the second, at the counter value that differs from the
  first one's by the exclusive or of the prefixes.  With prefixes \<open>2 ^ 20\<close> nanoseconds apart, that is
  after about a million messages.
\<close>

lemma newID_repeats_after_restart:
  "nth_id p c = nth_id p' (Bit_Operations.xor (Bit_Operations.xor p p') c)"
proof -
  have "Bit_Operations.xor p' (Bit_Operations.xor (Bit_Operations.xor p p') c) = Bit_Operations.xor p c"
    by (metis (no_types) xor.assoc xor.commute xor_self_eq xor.left_neutral)
  then show ?thesis by (simp add: nth_id_def)
qed

section \<open>The order of the delayed heap\<close>

definition delayed_Less :: "message \<Rightarrow> message \<Rightarrow> bool" where
  "delayed_Less a b =
     (if m_ScheduledAt a = m_ScheduledAt b then m_ID a < m_ID b
      else m_ScheduledAt a < m_ScheduledAt b)"

interpretation delayed_order: strict_weak_order delayed_Less
  by unfold_locales (auto simp: delayed_Less_def split: if_splits)

lemma delayed_Less_scheduled: "\<not> delayed_Less a b \<Longrightarrow> m_ScheduledAt b \<le> m_ScheduledAt a"
  by (auto simp: delayed_Less_def split: if_splits)

end
