(* ===== verification/RateLimit.thy ===== *)
theory RateLimit
  imports Prelude
begin

text \<open>
  The sliding-window limiter of \<^verbatim>\<open>internal/queue/ratelimit.go\<close>.  The \<open>events\<close> slice holds Unix
  nanoseconds (\<open>int64\<close>); \<open>allow\<close> evicts the events before the window, then accepts or refuses.
  The lemmas show that the slice never grows beyond \<open>max\<close>, that no window of the configured length
  ever contains more than \<open>max\<close> accepted events, and when a refused caller is accepted again.
\<close>

section \<open>Model\<close>

record slidingWindowLimiter =
  lim_max :: int
  lim_window :: int
  lim_events :: "int list"

text \<open>\<open>make([]int64, 0, initCap)\<close> panics when the capacity is negative.\<close>

definition newSlidingWindowLimiter :: "int \<Rightarrow> duration \<Rightarrow> slidingWindowLimiter outcome" where
  "newSlidingWindowLimiter mx window =
     (let initCap = min mx 64 in
      if initCap < 0 then Panic ''makeslice: cap out of range''
      else Ret \<lparr>lim_max = mx, lim_window = window, lim_events = []\<rparr>)"

text \<open>The eviction loop: the index of the first event that is not before the cutoff.\<close>

fun evictIndex :: "int \<Rightarrow> int list \<Rightarrow> nat" where
  "evictIndex cutoff [] = 0"
| "evictIndex cutoff (e # es) = (if e < cutoff then Suc (evictIndex cutoff es) else 0)"

text \<open>
  Both branches of the compaction leave the slice \<open>events[i:]\<close>; they differ in the backing array
  only.  Reading \<open>events[0]\<close> of an empty slice panics.
\<close>

definition allow ::
  "slidingWindowLimiter \<Rightarrow> gtime \<Rightarrow> (bool \<times> gtime) outcome \<times> slidingWindowLimiter" where
  "allow l now =
     (let nowNs = to_i64 now;
          cutoff = to_i64 (nowNs - lim_window l);
          i = evictIndex cutoff (lim_events l);
          l = (if i > 0 then l\<lparr>lim_events := drop i (lim_events l)\<rparr> else l)
      in if int (length (lim_events l)) \<ge> lim_max l
         then (case lim_events l of
                 [] \<Rightarrow> (Panic ''index out of range'', l)
               | e # _ \<Rightarrow>
                   let wakeAt = to_i64 (e + lim_window l);
                       wakeAt = (if wakeAt < nowNs then nowNs else wakeAt)
                   in (Ret (False, wakeAt), l))
         else (Ret (True, zeroTime), l\<lparr>lim_events := lim_events l @ [nowNs]\<rparr>))"

section \<open>Eviction\<close>

lemma drop_evictIndex: "drop (evictIndex c es) es = dropWhile (\<lambda>e. e < c) es"
  by (induction es) auto

lemma evicted_all: "e \<in> set (takeWhile (\<lambda>e. e < c) es) \<Longrightarrow> e < c"
  by (auto dest: set_takeWhileD)

definition live_events :: "slidingWindowLimiter \<Rightarrow> gtime \<Rightarrow> int list" where
  "live_events l now = dropWhile (\<lambda>e. e < now - lim_window l) (lim_events l)"

text \<open>The range in which the \<open>int64\<close> arithmetic of \<open>allow\<close> does not wrap.\<close>

definition clock_ok :: "slidingWindowLimiter \<Rightarrow> gtime \<Rightarrow> bool" where
  "clock_ok l now =
     (0 \<le> now \<and> now < 2 ^ 62 \<and> 0 \<le> lim_window l \<and> lim_window l < 2 ^ 62 \<and>
      (\<forall>e \<in> set (lim_events l). 0 \<le> e \<and> e < 2 ^ 62))"

lemma allow_eq:
  assumes "clock_ok l now"
  shows "allow l now =
    (let es = live_events l now in
     if int (length es) \<ge> lim_max l
     then (case es of
             [] \<Rightarrow> (Panic ''index out of range'', l\<lparr>lim_events := es\<rparr>)
           | e # _ \<Rightarrow> (Ret (False, max now (e + lim_window l)), l\<lparr>lim_events := es\<rparr>))
     else (Ret (True, zeroTime), l\<lparr>lim_events := es @ [now]\<rparr>))"
proof -
  have now: "to_i64 now = now" and cut: "to_i64 (now - lim_window l) = now - lim_window l"
    using assms by (simp_all add: clock_ok_def)
  have es: "(let i = evictIndex c (lim_events l) in
      if i > 0 then l\<lparr>lim_events := drop i (lim_events l)\<rparr> else l)
      = l\<lparr>lim_events := dropWhile (\<lambda>e. e < c) (lim_events l)\<rparr>" for c
    using drop_evictIndex [of c "lim_events l"]
    by (cases "evictIndex c (lim_events l)") (simp_all add: Let_def)
  have wake: "to_i64 (e + lim_window l) = e + lim_window l"
    if "dropWhile P (lim_events l) = e # r" for e r P
  proof -
    have "e \<in> set (dropWhile P (lim_events l))" by (simp add: that)
    then have "e \<in> set (lim_events l)" by (rule set_dropWhileD)
    then show ?thesis using assms by (fastforce simp: clock_ok_def)
  qed
  show ?thesis
    unfolding allow_def Let_def now cut es [unfolded Let_def] live_events_def
    by (cases "dropWhile (\<lambda>e. e < now - lim_window l) (lim_events l)") 
      (simp_all add: wake max_def del: dropWhile_eq_Nil_conv)
qed

section \<open>The window bound\<close>

definition lim_wf :: "slidingWindowLimiter \<Rightarrow> bool" where
  "lim_wf l = (0 < lim_max l \<and> int (length (lim_events l)) \<le> lim_max l)"

lemma length_live: "length (live_events l now) \<le> length (lim_events l)"
  unfolding live_events_def by (rule length_dropWhile_le)

lemma live_subset: "set (live_events l now) \<subseteq> set (lim_events l)"
  unfolding live_events_def by (auto dest: set_dropWhileD)

text \<open>Neither absence of panics nor the length bound depends on the clock.\<close>

lemma allow_no_panic:
  assumes "lim_wf l"
  shows "\<exists>b w. fst (allow l now) = Ret (b, w)"
  using assms by (auto simp: allow_def lim_wf_def Let_def split: list.split)

lemma allow_wf:
  assumes "lim_wf l"
  shows "lim_wf (snd (allow l now))"
  using assms by (auto simp: allow_def lim_wf_def Let_def split: list.split)

text \<open>The events accepted when \<open>allow\<close> is called at the times of a list, oldest first.\<close>

fun accepted :: "slidingWindowLimiter \<Rightarrow> gtime list \<Rightarrow> gtime list" where
  "accepted l [] = []"
| "accepted l (t # ts) =
     (case allow l t of
        (Ret (True, _), l') \<Rightarrow> t # accepted l' ts
      | (_, l') \<Rightarrow> accepted l' ts)"

definition in_window :: "gtime \<Rightarrow> duration \<Rightarrow> gtime list \<Rightarrow> nat" where
  "in_window t w es = length (filter (\<lambda>e. t \<le> e \<and> e \<le> t + w) es)"

definition window_inv :: "gtime list \<Rightarrow> slidingWindowLimiter \<Rightarrow> gtime \<Rightarrow> bool" where
  "window_inv h l last_t =
     (lim_wf l \<and> 0 \<le> lim_window l \<and> lim_window l < 2 ^ 62 \<and>
      (\<forall>e \<in> set h. 0 \<le> e \<and> e \<le> last_t) \<and>
      (\<exists>old. h = old @ lim_events l \<and> (\<forall>e \<in> set old. e < last_t - lim_window l)) \<and>
      (\<forall>t. int (in_window t (lim_window l) h) \<le> lim_max l))"

lemma window_inv_clock:
  assumes "window_inv h l last_t" and "last_t \<le> t" and "0 \<le> t" and "t < 2 ^ 62"
  shows "clock_ok l t"
proof -
  have "set (lim_events l) \<subseteq> set h" and "\<forall>e \<in> set h. 0 \<le> e \<and> e \<le> last_t"
    and "0 \<le> lim_window l" and "lim_window l < 2 ^ 62"
    using assms(1) by (auto simp: window_inv_def)
  then show ?thesis using assms(2-4) unfolding clock_ok_def by (meson le_less_trans order_trans subsetD)
qed

lemma window_inv_evict:
  assumes "window_inv h l last_t" and "last_t \<le> t"
  shows "\<exists>old. h = old @ live_events l t \<and> (\<forall>e \<in> set old. e < t - lim_window l)"
proof -
  from assms(1) obtain old where h: "h = old @ lim_events l"
    and old: "\<forall>e \<in> set old. e < last_t - lim_window l"
    by (auto simp: window_inv_def)
  let ?P = "\<lambda>e. e < t - lim_window l"
  have "h = (old @ takeWhile ?P (lim_events l)) @ live_events l t"
    by (simp add: h live_events_def)
  moreover have "\<forall>e \<in> set (old @ takeWhile ?P (lim_events l)). e < t - lim_window l"
    using old assms(2) by (auto dest: set_takeWhileD)
  ultimately show ?thesis by blast
qed

lemma window_inv_refuse:
  assumes "window_inv h l last_t" and "last_t \<le> t"
  shows "window_inv h (l\<lparr>lim_events := live_events l t\<rparr>) t"
proof -
  have "\<forall>e \<in> set h. e \<le> t" using assms by (auto simp: window_inv_def)
  with assms window_inv_evict [OF assms] length_live [of l t] show ?thesis
    by (auto simp: window_inv_def lim_wf_def)
qed

lemma window_inv_accept:
  assumes inv: "window_inv h l last_t" and t: "last_t \<le> t" "0 \<le> t"
    and room: "int (length (live_events l t)) < lim_max l"
  shows "window_inv (h @ [t]) (l\<lparr>lim_events := live_events l t @ [t]\<rparr>) t"
proof -
  from window_inv_evict [OF inv t(1)] obtain old where h: "h = old @ live_events l t"
    and old: "\<forall>e \<in> set old. e < t - lim_window l" by blast
  have count: "int (in_window s (lim_window l) (h @ [t])) \<le> lim_max l" for s
  proof (cases "s \<le> t \<and> t \<le> s + lim_window l")
    case False
    then show ?thesis using inv by (auto simp: window_inv_def in_window_def)
  next
    case True
    have none: "filter (\<lambda>e. s \<le> e \<and> e \<le> s + lim_window l) old = []"
      using old True by (auto simp: filter_empty_conv)
    have "in_window s (lim_window l) (h @ [t]) \<le> Suc (length (live_events l t))"
      by (simp add: in_window_def h none le_SucI)
    then show ?thesis using room by simp
  qed
  have "\<exists>old. h @ [t] = old @ live_events l t @ [t] \<and> (\<forall>e \<in> set old. e < t - lim_window l)"
    using h old by auto
  moreover have "\<forall>e \<in> set (h @ [t]). 0 \<le> e \<and> e \<le> t"
    using inv t by (auto simp: window_inv_def)
  ultimately show ?thesis using inv room count by (simp add: window_inv_def lim_wf_def)
qed

lemma accepted_window:
  assumes "window_inv h l last_t" and "sorted (last_t # ts)" and "\<forall>t \<in> set ts. 0 \<le> t \<and> t < 2 ^ 62"
  shows "int (in_window t (lim_window l) (h @ accepted l ts)) \<le> lim_max l"
  using assms
proof (induction ts arbitrary: h l last_t)
  case Nil
  then show ?case by (simp add: window_inv_def)
next
  case (Cons s ts)
  have s: "last_t \<le> s" "0 \<le> s" "s < 2 ^ 62" using Cons.prems by auto
  have clock: "clock_ok l s" using window_inv_clock [OF Cons.prems(1)] s by blast
  have rest: "sorted (s # ts)" "\<forall>t \<in> set ts. 0 \<le> t \<and> t < 2 ^ 62" using Cons.prems by auto
  show ?case
  proof (cases "lim_max l \<le> int (length (live_events l s))")
    case True
    have "\<exists>r. allow l s = (r, l\<lparr>lim_events := live_events l s\<rparr>) \<and> (\<forall>w. r \<noteq> Ret (True, w))"
      using True by (auto simp: allow_eq [OF clock] Let_def split: list.split)
    then have "accepted l (s # ts) = accepted (l\<lparr>lim_events := live_events l s\<rparr>) ts"
      by (auto split: prod.splits outcome.splits bool.splits)
    then show ?thesis
      using Cons.IH [OF window_inv_refuse [OF Cons.prems(1) s(1)] rest] by simp
  next
    case False
    then have "accepted l (s # ts) = s # accepted (l\<lparr>lim_events := live_events l s @ [s]\<rparr>) ts"
      by (simp add: allow_eq [OF clock] Let_def)
    then show ?thesis
      using Cons.IH [OF window_inv_accept [OF Cons.prems(1) s(1,2)] rest] False by simp
  qed
qed

lemma window_inv_new:
  assumes "newSlidingWindowLimiter mx w = Ret l" and "0 < mx" and "0 \<le> w" and "w < 2 ^ 62"
  shows "window_inv [] l t"
  using assms
  by (auto simp: newSlidingWindowLimiter_def Let_def window_inv_def lim_wf_def in_window_def
      split: if_splits)

text \<open>
  [C33] Rate limit.  When the clock does not run backwards, no time window of the configured length
  ever contains more than \<open>max\<close> of the events that a fresh limiter accepted.
\<close>

theorem allow_rate_bound:
  assumes "newSlidingWindowLimiter mx w = Ret l" and "0 < mx" and "0 \<le> w" and "w < 2 ^ 62"
    and "sorted ts" and "\<forall>t \<in> set ts. 0 \<le> t \<and> t < 2 ^ 62"
  shows "int (in_window t w (accepted l ts)) \<le> mx"
proof -
  have l: "lim_max l = mx" "lim_window l = w"
    using assms(1) by (auto simp: newSlidingWindowLimiter_def Let_def split: if_splits)
  have "sorted (0 # ts)" using assms(5,6) by auto
  from accepted_window [OF window_inv_new [OF assms(1-4)] this assms(6)] show ?thesis
    by (simp add: l)
qed

definition demo_limiter :: slidingWindowLimiter where
  "demo_limiter = \<lparr>lim_max = 2, lim_window = 10, lim_events = []\<rparr>"

theorem allow_rate_bound_witness:
  "int (in_window 0 10 (accepted demo_limiter [1, 2, 3, 11, 12, 14])) \<le> 2
   \<and> accepted demo_limiter [1, 2, 3, 11, 12, 14] = [1, 2, 12, 14]"
proof
  have "newSlidingWindowLimiter 2 10 = Ret demo_limiter"
    by (simp add: newSlidingWindowLimiter_def demo_limiter_def)
  then show "int (in_window 0 10 (accepted demo_limiter [1, 2, 3, 11, 12, 14])) \<le> 2"
    by (rule allow_rate_bound) simp_all
  show "accepted demo_limiter [1, 2, 3, 11, 12, 14] = [1, 2, 12, 14]"
    by (simp add: demo_limiter_def allow_def Let_def)
qed

section \<open>The retry time\<close>

text \<open>
  Retry time of a refusal.  A caller refused with retry time \<open>w\<close> is refused again at every
  time up to and including \<open>w\<close>, and accepted one nanosecond later: the returned time is the last
  refused instant, not (as the comment on \<open>allow\<close> says) the earliest instant of a successful retry.
\<close>

lemma allow_retry_time:
  assumes clock: "clock_ok l now" and wf: "lim_wf l" and srt: "sorted (lim_events l)"
    and past: "\<forall>e \<in> set (lim_events l). e \<le> now"
    and refused: "allow l now = (Ret (False, w), l')"
    and horizon: "w + 1 < 2 ^ 62"
  shows "now \<le> w
    \<and> (now \<le> t \<and> t \<le> w \<longrightarrow> (\<exists>w' l''. allow l' t = (Ret (False, w'), l'')))
    \<and> (\<exists>l''. allow l' (w + 1) = (Ret (True, zeroTime), l''))"
proof (intro conjI)
  obtain e es where live: "live_events l now = e # es" and full: "lim_max l \<le> int (length (e # es))"
    and w: "w = max now (e + lim_window l)" and l': "l' = l\<lparr>lim_events := e # es\<rparr>"
    using refused by (auto simp: allow_eq [OF clock] Let_def split: if_splits list.splits)
  have mem: "set (e # es) \<subseteq> set (lim_events l)" using live_subset [of l now] by (simp only: live)
  have e_live: "now - lim_window l \<le> e"
    using live hd_dropWhile [of "\<lambda>x. x < now - lim_window l" "lim_events l"]
    by (simp add: live_events_def)
  have w_eq: "w = e + lim_window l" using w e_live by simp
  show "now \<le> w" by (simp add: w)
  have win: "0 \<le> lim_window l" using clock by (simp add: clock_ok_def)
  have clock': "clock_ok l' s" if "now \<le> s" "s \<le> w + 1" for s
    using clock that mem horizon by (fastforce simp: clock_ok_def l')
  have len: "int (length (e # es)) = lim_max l"
    using full wf length_live [of l now] by (simp add: live lim_wf_def)
  show "now \<le> t \<and> t \<le> w \<longrightarrow> (\<exists>w' l''. allow l' t = (Ret (False, w'), l''))"
  proof
    assume t: "now \<le> t \<and> t \<le> w"
    then have "live_events l' t = e # es" by (simp add: live_events_def l' w_eq)
    moreover have "clock_ok l' t" and "lim_max l' = lim_max l" using t clock' by (simp_all add: l')
    ultimately show "\<exists>w' l''. allow l' t = (Ret (False, w'), l'')"
      using len by (simp add: allow_eq Let_def)
  qed
  have "length (live_events l' (w + 1)) \<le> length es"
    by (simp add: live_events_def l' w_eq length_dropWhile_le)
  then have "\<not> lim_max l' \<le> int (length (live_events l' (w + 1)))" using len by (simp add: l')
  then show "\<exists>l''. allow l' (w + 1) = (Ret (True, zeroTime), l'')"
    using \<open>now \<le> w\<close> by (simp add: allow_eq [OF clock' [of "w + 1"]] Let_def)
qed

end
