(* ===== verification/Group.thy ===== *)
theory Group
  imports Message RateLimit
begin

text \<open>
  The runtime state of one consumer group (\<^verbatim>\<open>internal/queue/group.go\<close>): the ready and urgent
  slices with their head indices, the delayed heap, the map of messages in processing, the rate
  limiter and the deficit counter, with every operation of the file.  A slot of \<open>ready\<close> or
  \<open>urgent\<close> is \<open>None\<close> where the Go slice holds \<open>nil\<close>.

  The operations run under the shard mutex, so each is one atomic step here.  Ranging over the
  processing map takes the visiting order as the parameter \<open>it\<close>.
\<close>

section \<open>Configuration\<close>

record RateLimitConfig =
  rl_Max :: int
  rl_Window :: duration

record RetryConfig =
  rt_MaxAttempts :: int
  rt_Backoff :: string
  rt_InitialDelay :: duration
  rt_MaxDelay :: duration

record DLQConfig =
  dlq_Enabled :: bool
  dlq_Queue :: string

record GroupConfig =
  c_Key :: string
  c_Parallelism :: int
  c_Quantum :: int
  c_LeaseTimeout :: duration
  c_RateLimit :: "RateLimitConfig option"
  c_Retry :: RetryConfig
  c_DLQ :: "DLQConfig option"
  c_MaxPending :: int

definition Second :: duration where
  "Second = 1000000000"

definition defaultGroupConfig :: "string \<Rightarrow> GroupConfig" where
  "defaultGroupConfig key =
     \<lparr>c_Key = key, c_Parallelism = 1, c_Quantum = 1, c_LeaseTimeout = 5 * 60 * Second,
      c_RateLimit = None,
      c_Retry = \<lparr>rt_MaxAttempts = 3, rt_Backoff = ''exponential'',
                 rt_InitialDelay = Second, rt_MaxDelay = 5 * 60 * Second\<rparr>,
      c_DLQ = None, c_MaxPending = 10000000\<rparr>"

definition IsSequential :: "GroupConfig \<Rightarrow> bool" where
  "IsSequential c = (c_Parallelism c \<le> 1)"

section \<open>Group state\<close>

text \<open>\<open>g_nilProcessing\<close> says that \<open>processing\<close> is the \<open>nil\<close> map: it reads as empty, and a write to it panics.\<close>

record group =
  g_cfg :: GroupConfig
  g_ready :: "message option list"
  g_readyHead :: nat
  g_urgent :: "message option list"
  g_urgentHead :: nat
  g_delayed :: "message list"
  g_processing :: "(string, message) gomap"
  g_nilProcessing :: bool
  g_limiter :: "slidingWindowLimiter option"
  g_deficit :: int
  g_quantum :: int
  g_isScheduled :: "32 word"
  g_wakeScheduledAt :: int

text \<open>The defaults \<open>newGroup\<close> fills in before it builds the group.\<close>

definition fill_defaults :: "GroupConfig \<Rightarrow> GroupConfig" where
  "fill_defaults cfg =
     (let def = defaultGroupConfig (c_Key cfg);
          cfg = (if c_Parallelism cfg \<le> 0 then cfg\<lparr>c_Parallelism := c_Parallelism def\<rparr> else cfg);
          cfg = (if c_Quantum cfg \<le> 0 then cfg\<lparr>c_Quantum := c_Quantum def\<rparr> else cfg);
          r = c_Retry cfg; dr = c_Retry def;
          r = (if rt_MaxAttempts r = 0 then r\<lparr>rt_MaxAttempts := rt_MaxAttempts dr\<rparr> else r);
          r = (if rt_Backoff r = [] then r\<lparr>rt_Backoff := rt_Backoff dr\<rparr> else r);
          r = (if rt_InitialDelay r = 0 then r\<lparr>rt_InitialDelay := rt_InitialDelay dr\<rparr> else r);
          r = (if rt_MaxDelay r = 0 then r\<lparr>rt_MaxDelay := rt_MaxDelay dr\<rparr> else r)
      in cfg\<lparr>c_Retry := r\<rparr>)"

definition newGroup :: "GroupConfig \<Rightarrow> group outcome" where
  "newGroup cfg0 =
     (let cfg = fill_defaults cfg0;
          limiter = (case c_RateLimit cfg of
                       None \<Rightarrow> Ret None
                     | Some rl \<Rightarrow> (case newSlidingWindowLimiter (rl_Max rl) (rl_Window rl) of
                                     Ret l \<Rightarrow> Ret (Some l)
                                   | Panic e \<Rightarrow> Panic e))
      in case limiter of
           Panic e \<Rightarrow> Panic e
         | Ret lim \<Rightarrow>
             Ret \<lparr>g_cfg = cfg, g_ready = [], g_readyHead = 0, g_urgent = [], g_urgentHead = 0,
                  g_delayed = heap_init delayed_Less [], g_processing = [], g_nilProcessing = False, g_limiter = lim,
                  g_deficit = 0, g_quantum = c_Quantum cfg,
                  g_isScheduled = 0, g_wakeScheduledAt = 0\<rparr>)"

definition enqueue :: "message \<Rightarrow> group \<Rightarrow> group" where
  "enqueue msg g = g\<lparr>g_ready := g_ready g @ [Some msg]\<rparr>"

definition pendingCount :: "group \<Rightarrow> int" where
  "pendingCount g =
     (int (length (g_urgent g)) - int (g_urgentHead g))
     + (int (length (g_ready g)) - int (g_readyHead g)) + int (length (g_delayed g))"

definition processingCount :: "group \<Rightarrow> int" where
  "processingCount g = int (length (g_processing g))"

section \<open>Promotion of delayed messages and expired leases\<close>

text \<open>The earlier of two wake times, the zero time standing for none.\<close>

definition earlier :: "gtime \<Rightarrow> gtime \<Rightarrow> gtime" where
  "earlier wake t = (if isZero wake \<or> t < wake then t else wake)"

text \<open>First loop of \<open>promoteDelayed\<close>: one entry of the processing map.\<close>

fun expireLease :: "gtime \<Rightarrow> string \<times> message \<Rightarrow> group \<times> gtime \<Rightarrow> group \<times> gtime" where
  "expireLease now (ident, msg) (g, wake) =
     (if now > m_ScheduledAt msg
      then (g\<lparr>g_processing := gm_del ident (g_processing g),
              g_urgent := g_urgent g @ [Some (msg\<lparr>m_State := StatePending\<rparr>)]\<rparr>, wake)
      else (g, earlier wake (m_ScheduledAt msg)))"

text \<open>Second loop: pop the delayed messages that are due and append them to \<open>ready\<close>.\<close>

function promoteLoop :: "gtime \<Rightarrow> group \<Rightarrow> gtime \<Rightarrow> group \<times> gtime" where
  "promoteLoop now g wake =
     (case g_delayed g of
        [] \<Rightarrow> (g, wake)
      | msg # _ \<Rightarrow>
          if m_ScheduledAt msg > now then (g, earlier wake (m_ScheduledAt msg))
          else (case heap_pop delayed_Less (g_delayed g) of
                  None \<Rightarrow> (g, wake)
                | Some (_, rest) \<Rightarrow>
                    promoteLoop now (g\<lparr>g_delayed := rest, g_ready := g_ready g @ [Some msg]\<rparr>) wake))"
  by pat_completeness auto
termination
  by (relation "measure (\<lambda>(now, g, wake). length (g_delayed g))") (auto dest: heap_pop_contents)

declare promoteLoop.simps [simp del]

definition promoteDelayed ::
  "(string, message) range_order \<Rightarrow> gtime \<Rightarrow> group \<Rightarrow> group \<times> gtime" where
  "promoteDelayed it now g =
     (let (g, wake) = fold (expireLease now) (it (g_processing g)) (g, zeroTime)
      in promoteLoop now g wake)"

definition nextDelayedAt :: "group \<Rightarrow> gtime \<times> bool" where
  "nextDelayedAt g =
     (case g_delayed g of [] \<Rightarrow> (zeroTime, False) | m # _ \<Rightarrow> (m_ScheduledAt m, True))"

definition nextDelayedAtOrZero :: "group \<Rightarrow> gtime" where
  "nextDelayedAtOrZero g =
     (let (t, ok) = nextDelayedAt g in if \<not> ok then zeroTime else t)"

section \<open>Dispatch\<close>

datatype dispatchStopReason = dispatchStopEmpty | dispatchStopCapacity | dispatchStopRateLimited

text \<open>What dispatch writes into a message: the state, and the lease deadline.\<close>

definition lease :: "group \<Rightarrow> gtime \<Rightarrow> message \<Rightarrow> message" where
  "lease g now msg =
     msg\<lparr>m_State := StateProcessing, m_ScheduledAt := now + c_LeaseTimeout (g_cfg g)\<rparr>"

definition start_processing :: "gtime \<Rightarrow> message \<Rightarrow> group \<Rightarrow> message outcome \<times> group" where
  "start_processing now msg g =
     (let msg = lease g now msg
      in if g_nilProcessing g then (Panic ''assignment to entry in nil map'', g)
         else (Ret msg, g\<lparr>g_processing := gm_put (m_ID msg) msg (g_processing g)\<rparr>))"

text \<open>
  The loop over \<open>ready\<close>: every slot passed is cleared, \<open>nil\<close> slots are skipped, and the first
  message found is returned.
\<close>

function scanReady ::
  "message option list \<Rightarrow> nat \<Rightarrow> message option \<times> message option list \<times> nat" where
  "scanReady slots hd_idx =
     (if hd_idx < length slots
      then case slots ! hd_idx of
             Some msg \<Rightarrow> (Some msg, slots[hd_idx := None], Suc hd_idx)
           | None \<Rightarrow> scanReady (slots[hd_idx := None]) (Suc hd_idx)
      else (None, slots, hd_idx))"
  by pat_completeness auto
termination
  by (relation "measure (\<lambda>(slots, hd_idx). length slots - hd_idx)") auto

declare scanReady.simps [simp del]

text \<open>
  The second half of \<open>nextDispatchable\<close>, after the parallelism cap and the limiter have passed.
  The urgent branch does not skip \<open>nil\<close>: writing \<open>msg.State\<close> of a \<open>nil\<close> message panics, after
  \<open>urgentHead\<close> has advanced.  Writing to a \<open>nil\<close> map panics in both branches, after the slot was cleared.
\<close>

definition takeNext ::
  "gtime \<Rightarrow> group \<Rightarrow> (message option \<times> dispatchStopReason \<times> gtime) outcome \<times> group" where
  "takeNext now g =
     (if g_urgentHead g < length (g_urgent g)
      then let slot = g_urgent g ! g_urgentHead g;
               g = g\<lparr>g_urgent := (g_urgent g)[g_urgentHead g := None],
                     g_urgentHead := Suc (g_urgentHead g)\<rparr>
           in (case slot of
                 None \<Rightarrow> (Panic ''nil pointer dereference'', g)
               | Some msg \<Rightarrow> (case start_processing now msg g of
                                (Ret msg, g) \<Rightarrow> (Ret (Some msg, dispatchStopEmpty, zeroTime), g)
                              | (Panic e, g) \<Rightarrow> (Panic e, g)))
      else let g = g\<lparr>g_urgent := [], g_urgentHead := 0\<rparr>;
               (found, slots, hd_idx) = scanReady (g_ready g) (g_readyHead g);
               g = g\<lparr>g_ready := slots, g_readyHead := hd_idx\<rparr>
           in (case found of
                 Some msg \<Rightarrow> (case start_processing now msg g of
                                (Ret msg, g) \<Rightarrow> (Ret (Some msg, dispatchStopEmpty, zeroTime), g)
                              | (Panic e, g) \<Rightarrow> (Panic e, g))
               | None \<Rightarrow>
                   let g = g\<lparr>g_ready := [], g_readyHead := 0\<rparr>
                   in (Ret (None, dispatchStopEmpty,
                            if g_delayed g \<noteq> [] then nextDelayedAtOrZero g else zeroTime), g)))"

definition nextDispatchable ::
  "gtime \<Rightarrow> group \<Rightarrow> (message option \<times> dispatchStopReason \<times> gtime) outcome \<times> group" where
  "nextDispatchable now g =
     (if int (length (g_processing g)) \<ge> c_Parallelism (g_cfg g)
      then (Ret (None, dispatchStopCapacity, zeroTime), g)
      else case g_limiter g of
             None \<Rightarrow> takeNext now g
           | Some l \<Rightarrow>
               let (res, l) = allow l now; g = g\<lparr>g_limiter := Some l\<rparr>
               in (case res of
                     Panic e \<Rightarrow> (Panic e, g)
                   | Ret (allowed, wakeAt) \<Rightarrow>
                       if \<not> allowed then (Ret (None, dispatchStopRateLimited, wakeAt), g)
                       else takeNext now g))"

definition next_msg :: "gtime \<Rightarrow> group \<Rightarrow> message option outcome \<times> group" where
  "next_msg now g =
     (case nextDispatchable now g of
        (Ret (msg, _, _), g) \<Rightarrow> (Ret msg, g)
      | (Panic e, g) \<Rightarrow> (Panic e, g))"

section \<open>One scheduling round\<close>

text \<open>How the \<open>for g.deficit > 0\<close> loop of \<open>drainRound\<close> ends.\<close>

datatype drain_end =
    DrainEmpty gtime       \<comment> \<open>returned from inside the loop, with the stop's wake time\<close>
  | DrainCapacity          \<comment> \<open>left by \<open>break\<close>, \<open>blockedByCapacity\<close> set\<close>
  | DrainRateLimited gtime \<comment> \<open>left by \<open>break\<close>, with the limiter's wake time\<close>
  | DrainSpent             \<comment> \<open>the deficit is used up\<close>

lemma nextDispatchable_deficit: "nextDispatchable now g = (r, g') \<Longrightarrow> g_deficit g' = g_deficit g"
  by (auto simp: nextDispatchable_def takeNext_def start_processing_def Let_def
      split: if_splits option.splits prod.splits outcome.splits)

function drainLoop ::
  "gtime \<Rightarrow> group \<Rightarrow> message list \<Rightarrow> (message list \<times> drain_end) outcome \<times> group" where
  "drainLoop now g batch =
     (if g_deficit g > 0
      then case nextDispatchable now g of
             (Panic e, g') \<Rightarrow> (Panic e, g')
           | (Ret (Some msg, _, _), g') \<Rightarrow>
               drainLoop now (g'\<lparr>g_deficit := g_deficit g' - 1\<rparr>) (batch @ [msg])
           | (Ret (None, stop, stopWake), g') \<Rightarrow>
               (Ret (batch, case stop of
                              dispatchStopEmpty \<Rightarrow> DrainEmpty stopWake
                            | dispatchStopCapacity \<Rightarrow> DrainCapacity
                            | dispatchStopRateLimited \<Rightarrow> DrainRateLimited stopWake), g')
      else (Ret (batch, DrainSpent), g))"
  by pat_completeness auto
termination
  by (relation "measure (\<lambda>(now, g, batch). nat (g_deficit g))")
    (auto dest: nextDispatchable_deficit [OF sym])

declare drainLoop.simps [simp del]

text \<open>
  \<open>drainRound\<close> returns the batch (\<open>None\<close> is Go's \<open>nil\<close>), the wake time, whether it is meaningful,
  and whether messages remain to be drained at once.
\<close>

definition drainRound ::
  "(string, message) range_order \<Rightarrow> gtime \<Rightarrow> group \<Rightarrow>
   (message list option \<times> gtime \<times> bool \<times> bool) outcome \<times> group" where
  "drainRound it now g =
     (let (g, wakeAt) = promoteDelayed it now g in
      if pendingCount g = 0 then (Ret (None, wakeAt, \<not> isZero wakeAt, False), g)
      else
        let g = (if g_quantum g \<le> 0 then g\<lparr>g_quantum := 1\<rparr> else g);
            g = g\<lparr>g_deficit := g_deficit g + g_quantum g\<rparr>
        in case drainLoop now g [] of
             (Panic e, g) \<Rightarrow> (Panic e, g)
           | (Ret (ready, DrainEmpty stopWake), g) \<Rightarrow>
               let wakeAt = (if \<not> isZero stopWake then earlier wakeAt stopWake else wakeAt)
               in (Ret (Some ready, wakeAt, \<not> isZero wakeAt, False), g)
           | (Ret (ready, DrainCapacity), g) \<Rightarrow>
               (Ret (Some ready, wakeAt, \<not> isZero wakeAt, False), g)
           | (Ret (ready, stop), g) \<Rightarrow>
               let wakeAt = (case stop of DrainRateLimited t \<Rightarrow> earlier wakeAt t | _ \<Rightarrow> wakeAt)
               in if \<not> isZero wakeAt then (Ret (Some ready, wakeAt, True, False), g)
                  else if pendingCount g > 0 then (Ret (Some ready, zeroTime, False, True), g)
                  else (Ret (Some ready, zeroTime, False, False), g))"

section \<open>Completion and failure\<close>

definition complete :: "string \<Rightarrow> group \<Rightarrow> message option \<times> group" where
  "complete msgID g =
     (case gm_get (g_processing g) msgID of
        None \<Rightarrow> (None, g)
      | Some msg \<Rightarrow> (Some (msg\<lparr>m_State := StateDone\<rparr>),
                     g\<lparr>g_processing := gm_del msgID (g_processing g)\<rparr>))"

text \<open>\<open>1 << attempt\<close> is an \<open>int64\<close> shift here, so it is \<open>0\<close> from 64 on and negative at 63.\<close>

definition retryDelay :: "RetryConfig \<Rightarrow> int \<Rightarrow> duration" where
  "retryDelay r attempt =
     (let base = rt_InitialDelay r; maxD = rt_MaxDelay r;
          d = (if rt_Backoff r = ''exponential'' then to_i64 (base * to_i64 (2 ^ nat attempt))
               else if rt_Backoff r = ''linear'' then to_i64 (base * to_i64 (attempt + 1))
               else base)
      in if d > maxD then maxD else d)"

definition fail :: "string \<Rightarrow> string \<Rightarrow> gtime \<Rightarrow> group \<Rightarrow> message option \<times> group" where
  "fail msgID errMsg now g =
     (case gm_get (g_processing g) msgID of
        None \<Rightarrow> (None, g)
      | Some msg \<Rightarrow>
          let g = g\<lparr>g_processing := gm_del msgID (g_processing g)\<rparr>;
              msg = msg\<lparr>m_LastError := errMsg, m_Attempts := m_Attempts msg + 1\<rparr>;
              retry = c_Retry (g_cfg g)
          in if m_Attempts msg < rt_MaxAttempts retry
             then let msg = msg\<lparr>m_ScheduledAt := now + retryDelay retry (m_Attempts msg),
                                m_State := StatePending\<rparr>
                  in (None, g\<lparr>g_delayed := heap_push delayed_Less msg (g_delayed g)\<rparr>)
             else (case c_DLQ (g_cfg g) of
                     Some dlq \<Rightarrow> if dlq_Enabled dlq then (Some (msg\<lparr>m_State := StateDLQ\<rparr>), g)
                                 else (None, g)
                   | None \<Rightarrow> (None, g)))"

definition returnToPending :: "string \<Rightarrow> group \<Rightarrow> bool \<times> group" where
  "returnToPending msgID g =
     (case gm_get (g_processing g) msgID of
        None \<Rightarrow> (False, g)
      | Some msg \<Rightarrow>
          (True, g\<lparr>g_processing := gm_del msgID (g_processing g),
                   g_urgent := g_urgent g @ [Some (msg\<lparr>m_State := StatePending\<rparr>)]\<rparr>))"

section \<open>Export and import\<close>

record GroupState =
  gs_Key :: string
  gs_Parallelism :: int
  gs_Quantum :: int
  gs_ReadyMsgs :: "message list"
  gs_UrgentMsgs :: "message list"
  gs_DelayedMsgs :: "message list"
  gs_ProcessingMsgs :: "(string, message) gomap"
  gs_nilProcessing :: bool

definition live_slots :: "nat \<Rightarrow> message option list \<Rightarrow> message list" where
  "live_slots hd_idx slots = List.map_filter (\<lambda>s. s) (drop hd_idx slots)"

definition Group_ExportState :: "group \<Rightarrow> GroupState" where
  "Group_ExportState g =
     \<lparr>gs_Key = c_Key (g_cfg g), gs_Parallelism = c_Parallelism (g_cfg g), gs_Quantum = g_quantum g,
      gs_ReadyMsgs = live_slots (g_readyHead g) (g_ready g),
      gs_UrgentMsgs = live_slots (g_urgentHead g) (g_urgent g),
      gs_DelayedMsgs = g_delayed g, gs_ProcessingMsgs = g_processing g, gs_nilProcessing = False\<rparr>"

definition Group_ImportState :: "GroupState \<Rightarrow> group \<Rightarrow> group" where
  "Group_ImportState st g =
     g\<lparr>g_ready := map Some (gs_ReadyMsgs st), g_readyHead := 0,
       g_urgent := map Some (gs_UrgentMsgs st), g_urgentHead := 0,
       g_delayed := heap_init delayed_Less (gs_DelayedMsgs st),
       g_processing := gs_ProcessingMsgs st, g_nilProcessing := gs_nilProcessing st\<rparr>"

end
