(* ===== verification/Group_Safety.thy ===== *)
theory Group_Safety
  imports Group
begin

text \<open>
  The invariant of a consumer group and what its operations do to the messages in it: an abstract
  group (two queues, a multiset of delayed messages, a map of leased messages), the refinement of
  the slice-and-heap representation to it, conservation of messages, the parallelism cap and the
  bounds of a scheduling round.
\<close>

section \<open>Slices with a head index are queues\<close>

text \<open>The contract of a FIFO queue, in terms of the list of its elements.\<close>

locale fifo =
  fixes elems :: "'s \<Rightarrow> 'a list"
    and push :: "'a \<Rightarrow> 's \<Rightarrow> 's"
    and pop :: "'s \<Rightarrow> 'a option \<times> 's"
    and inv :: "'s \<Rightarrow> bool"
  assumes elems_push: "inv s \<Longrightarrow> elems (push x s) = elems s @ [x]"
    and inv_push: "inv s \<Longrightarrow> inv (push x s)"
    and pop_elems: "inv s \<Longrightarrow> pop s = (r, s') \<Longrightarrow>
          (case elems s of [] \<Rightarrow> r = None \<and> elems s' = [] | x # xs \<Rightarrow> r = Some x \<and> elems s' = xs)"
    and inv_pop: "inv s \<Longrightarrow> pop s = (r, s') \<Longrightarrow> inv s'"
begin

fun pops :: "nat \<Rightarrow> 's \<Rightarrow> 'a list \<times> 's" where
  "pops 0 s = ([], s)"
| "pops (Suc n) s =
     (case pop s of (None, s') \<Rightarrow> ([], s') | (Some x, s') \<Rightarrow> let (xs, t) = pops n s' in (x # xs, t))"

lemma pops_elems:
  "inv s \<Longrightarrow> pops n s = (xs, t) \<Longrightarrow> xs = take n (elems s) \<and> elems t = drop n (elems s) \<and> inv t"
proof (induction n arbitrary: s xs t)
  case 0
  then show ?case by simp
next
  case (Suc n)
  obtain r s' where r: "pop s = (r, s')" by fastforce
  note spec = pop_elems [OF Suc.prems(1) r] inv_pop [OF Suc.prems(1) r]
  show ?case
  proof (cases "elems s")
    case Nil
    then show ?thesis using spec Suc.prems(2) by (simp add: r)
  next
    case (Cons x ys)
    then show ?thesis using spec Suc.prems(2) Suc.IH [of s'] by (auto simp: r split: prod.splits)
  qed
qed

text \<open>Whatever is pushed comes out in the order it was pushed, after what was there before.\<close>

lemma fold_push: "inv s \<Longrightarrow> elems (fold push xs s) = elems s @ xs \<and> inv (fold push xs s)"
  by (induction xs arbitrary: s) (simp_all add: elems_push inv_push)

end

lemma live_slots_hit:
  "h < length s \<Longrightarrow> s ! h = Some m \<Longrightarrow> live_slots h s = m # live_slots (Suc h) s"
  by (simp add: live_slots_def List.map_filter_def Cons_nth_drop_Suc [symmetric])

lemma live_slots_skip:
  "h < length s \<Longrightarrow> s ! h = None \<Longrightarrow> live_slots h s = live_slots (Suc h) s"
  by (simp add: live_slots_def List.map_filter_def Cons_nth_drop_Suc [symmetric])

lemma live_slots_end [simp]: "length s \<le> h \<Longrightarrow> live_slots h s = []"
  by (simp add: live_slots_def List.map_filter_def)

lemma live_slots_clear [simp]: "live_slots (Suc h) (s[h := x]) = live_slots (Suc h) s"
  by (simp add: live_slots_def drop_update_cancel)

lemma live_slots_snoc: "h \<le> length s \<Longrightarrow> live_slots h (s @ [Some m]) = live_slots h s @ [m]"
  by (simp add: live_slots_def List.map_filter_def)

lemma live_slots_map_Some: "live_slots 0 (map Some ms) = ms"
  by (simp add: live_slots_def List.map_filter_def comp_def)

lemma scanReady_spec:
  "scanReady s h = (r, s', h') \<Longrightarrow> h \<le> length s \<Longrightarrow>
   (case live_slots h s of [] \<Rightarrow> r = None \<and> live_slots h' s' = []
    | m # ms \<Rightarrow> r = Some m \<and> live_slots h' s' = ms) \<and> h' \<le> length s'"
proof (induction s h arbitrary: r s' h' rule: scanReady.induct)
  case (1 s h)
  show ?case
  proof (cases "h < length s")
    case False
    then show ?thesis using "1.prems" by (subst (asm) scanReady.simps) auto
  next
    case True
    show ?thesis
    proof (cases "s ! h")
      case None
      with True "1.prems" have "scanReady (s[h := None]) (Suc h) = (r, s', h')"
        by (subst (asm) scanReady.simps) simp
      with "1.IH" [OF True None] True show ?thesis by (simp add: live_slots_skip [OF True None])
    next
      case (Some m)
      with True "1.prems" show ?thesis
        by (subst (asm) scanReady.simps) (auto simp: live_slots_hit [OF True Some])
    qed
  qed
qed

interpretation ready_fifo: fifo
  "\<lambda>(s, h). live_slots h s" "\<lambda>m (s, h). (s @ [Some m], h)" "\<lambda>(s, h). scanReady s h"
  "\<lambda>(s, h). h \<le> length s"
proof (unfold_locales, goal_cases)
  case (1 s x)
  then show ?case by (auto simp: live_slots_snoc)
next
  case (2 s x)
  then show ?case by auto
next
  case (3 s r s')
  then show ?case using scanReady_spec by (auto split: prod.splits)
next
  case (4 s r s')
  then show ?case using scanReady_spec by (auto split: prod.splits)
qed

section \<open>The invariant and the abstract group\<close>

definition urgentQ :: "group \<Rightarrow> message list" where
  "urgentQ g = live_slots (g_urgentHead g) (g_urgent g)"

definition readyQ :: "group \<Rightarrow> message list" where
  "readyQ g = live_slots (g_readyHead g) (g_ready g)"

text \<open>The identifiers of all messages the group is responsible for, with multiplicity.\<close>

definition live_ids :: "group \<Rightarrow> string multiset" where
  "live_ids g =
     mset (map m_ID (urgentQ g)) + mset (map m_ID (readyQ g)) + mset (map m_ID (g_delayed g))
     + mset (map fst (g_processing g))"

text \<open>
  Representation invariant: head indices within their slices, no \<open>nil\<close> slot left in the urgent
  queue, heap order, the processing map keyed by message identifier and not \<open>nil\<close>.
\<close>

definition group_rep :: "group \<Rightarrow> bool" where
  "group_rep g =
     (g_readyHead g \<le> length (g_ready g) \<and>
      g_urgentHead g \<le> length (g_urgent g) \<and> None \<notin> set (drop (g_urgentHead g) (g_urgent g)) \<and>
      heap_ok delayed_Less (g_delayed g) \<and>
      gm_wf (g_processing g) \<and> (\<forall>(ident, m) \<in> set (g_processing g). m_ID m = ident) \<and> \<not> g_nilProcessing g \<and>
      (\<forall>l. g_limiter g = Some l \<longrightarrow> lim_wf l))"

text \<open>The full invariant adds that no identifier occurs twice.\<close>

definition group_wf :: "group \<Rightarrow> bool" where
  "group_wf g = (group_rep g \<and> (\<forall>ident. count (live_ids g) ident \<le> 1))"

definition within_capacity :: "group \<Rightarrow> bool" where
  "within_capacity g = (int (length (g_processing g)) \<le> c_Parallelism (g_cfg g))"

record agroup =
  a_urgent :: "message list"
  a_ready :: "message list"
  a_delayed :: "message multiset"
  a_leased :: "string \<Rightarrow> message option"

definition abs_group :: "group \<Rightarrow> agroup" where
  "abs_group g =
     \<lparr>a_urgent = urgentQ g, a_ready = readyQ g, a_delayed = mset (g_delayed g),
      a_leased = map_of (g_processing g)\<rparr>"

text \<open>The abstract dispatch step: urgent messages first, then ready ones, each in FIFO order.\<close>

definition a_next :: "duration \<Rightarrow> gtime \<Rightarrow> agroup \<Rightarrow> message option \<times> agroup" where
  "a_next timeout now a =
     (case (a_urgent a, a_ready a) of
        (m # us, _) \<Rightarrow>
          (let m' = m\<lparr>m_State := StateProcessing, m_ScheduledAt := now + timeout\<rparr>
           in (Some m', a\<lparr>a_urgent := us, a_leased := (a_leased a)(m_ID m \<mapsto> m')\<rparr>))
      | ([], m # rs) \<Rightarrow>
          (let m' = m\<lparr>m_State := StateProcessing, m_ScheduledAt := now + timeout\<rparr>
           in (Some m', a\<lparr>a_ready := rs, a_leased := (a_leased a)(m_ID m \<mapsto> m')\<rparr>))
      | ([], []) \<Rightarrow> (None, a))"

lemma in_processing_live: "ident \<in> fst ` set (g_processing g) \<Longrightarrow> ident \<in># live_ids g"
  by (auto simp: live_ids_def)

lemma fresh_processing:
  assumes "count (live_ids g) ident \<le> 1" and "ident \<in> m_ID ` set (urgentQ g @ readyQ g @ g_delayed g)"
  shows "gm_get (g_processing g) ident = None"
proof (rule ccontr)
  assume "gm_get (g_processing g) ident \<noteq> None"
  then have "ident \<in># mset (map fst (g_processing g))" by (auto simp: map_of_eq_None_iff)
  moreover have "ident \<in># mset (map m_ID (urgentQ g @ readyQ g @ g_delayed g))"
    using assms(2) by auto
  moreover have "live_ids g = mset (map m_ID (urgentQ g @ readyQ g @ g_delayed g))
    + mset (map fst (g_processing g))" by (simp add: live_ids_def)
  ultimately have "2 \<le> count (live_ids g) ident"
    unfolding count_greater_zero_iff [symmetric] by (simp only: count_union)
  then show False using assms(1) by simp
qed

lemma gm_put_fresh_mset:
  "gm_get m k = None \<Longrightarrow> mset (map fst (gm_put k v m)) = add_mset k (mset (map fst m))"
  by (simp add: gm_put_fresh)

lemma gm_del_fst_mset:
  "gm_wf m \<Longrightarrow> gm_get m k = Some v \<Longrightarrow>
   mset (map fst m) = add_mset k (mset (map fst (gm_del k m)))"
  by (simp add: gm_del_mset)

section \<open>One dispatch\<close>

lemma urgentQ_head:
  assumes "group_rep g" and "g_urgentHead g < length (g_urgent g)"
  obtains m where "g_urgent g ! g_urgentHead g = Some m"
    and "urgentQ g = m # live_slots (Suc (g_urgentHead g)) (g_urgent g)"
proof -
  have "g_urgent g ! g_urgentHead g \<in> set (drop (g_urgentHead g) (g_urgent g))"
    using assms(2) by (metis Cons_nth_drop_Suc list.set_intros(1))
  then have "g_urgent g ! g_urgentHead g \<noteq> None"
    using assms(1) unfolding group_rep_def by metis
  then obtain m where "g_urgent g ! g_urgentHead g = Some m" by blast
  then show thesis using that live_slots_hit [OF assms(2)] by (simp add: urgentQ_def)
qed

text \<open>
  What \<open>takeNext\<close> does, in one statement per outcome: it never panics, it takes the head of the
  urgent queue or else of the ready queue, and it changes nothing but those queues and the map.
\<close>

lemma takeNext_cases:
  assumes rep: "group_rep g"
  obtains
    (urgent) m us g' where "urgentQ g = m # us"
      and "takeNext now g = (Ret (Some (lease g now m), dispatchStopEmpty, zeroTime), g')"
      and "urgentQ g' = us" and "readyQ g' = readyQ g"
      and "g_processing g' = gm_put (m_ID m) (lease g now m) (g_processing g)"
      and "g_delayed g' = g_delayed g" and "g_cfg g' = g_cfg g" and "g_limiter g' = g_limiter g"
      and "g_readyHead g' \<le> length (g_ready g')" and "g_urgentHead g' \<le> length (g_urgent g')"
      and "None \<notin> set (drop (g_urgentHead g') (g_urgent g'))"
  | (ready) m rs g' where "urgentQ g = []" and "readyQ g = m # rs"
      and "takeNext now g = (Ret (Some (lease g now m), dispatchStopEmpty, zeroTime), g')"
      and "urgentQ g' = []" and "readyQ g' = rs"
      and "g_processing g' = gm_put (m_ID m) (lease g now m) (g_processing g)"
      and "g_delayed g' = g_delayed g" and "g_cfg g' = g_cfg g" and "g_limiter g' = g_limiter g"
      and "g_readyHead g' \<le> length (g_ready g')" and "g_urgentHead g' \<le> length (g_urgent g')"
      and "None \<notin> set (drop (g_urgentHead g') (g_urgent g'))"
  | (empty) g' w where "urgentQ g = []" and "readyQ g = []"
      and "takeNext now g = (Ret (None, dispatchStopEmpty, w), g')"
      and "urgentQ g' = []" and "readyQ g' = []"
      and "g_processing g' = g_processing g"
      and "g_delayed g' = g_delayed g" and "g_cfg g' = g_cfg g" and "g_limiter g' = g_limiter g"
      and "g_readyHead g' \<le> length (g_ready g')" and "g_urgentHead g' \<le> length (g_urgent g')"
      and "None \<notin> set (drop (g_urgentHead g') (g_urgent g'))"
proof (cases "g_urgentHead g < length (g_urgent g)")
  case True
  let ?h = "g_urgentHead g"
  from urgentQ_head [OF rep True] obtain m where m: "g_urgent g ! ?h = Some m"
    and q: "urgentQ g = m # live_slots (Suc ?h) (g_urgent g)" by blast
  have rest: "None \<notin> set (drop (Suc ?h) ((g_urgent g)[?h := None]))"
  proof -
    have "set (drop (Suc ?h) (g_urgent g)) \<subseteq> set (drop ?h (g_urgent g))"
      by (rule set_drop_subset_set_drop) simp
    then show ?thesis using rep by (auto simp: group_rep_def drop_update_cancel)
  qed
  show ?thesis
    by (rule urgent [of m _ "snd (takeNext now g)", OF q])
      (use rep True rest in \<open>auto simp: takeNext_def m start_processing_def Let_def lease_def
        urgentQ_def readyQ_def group_rep_def\<close>)
next
  case False
  then have u: "urgentQ g = []" by (simp add: urgentQ_def)
  obtain r s' h' where scan: "scanReady (g_ready g) (g_readyHead g) = (r, s', h')"
    by (metis prod_cases3)
  note spec = scanReady_spec [OF scan] rep
  show ?thesis
  proof (cases "readyQ g")
    case Nil
    then have r: "r = None" using spec by (simp add: readyQ_def group_rep_def)
    show ?thesis
      by (rule empty [of _ "snd (takeNext now g)", OF u Nil])
        (use False in \<open>auto simp: takeNext_def scan r Let_def urgentQ_def readyQ_def\<close>)
  next
    case (Cons m rs)
    then have r: "r = Some m" and rs: "live_slots h' s' = rs" and h': "h' \<le> length s'"
      using spec by (simp_all add: readyQ_def group_rep_def)
    show ?thesis
      by (rule ready [of m rs "snd (takeNext now g)", OF u Cons])
        (use False rs h' rep in \<open>auto simp: takeNext_def scan r start_processing_def Let_def lease_def
          urgentQ_def readyQ_def group_rep_def\<close>)
  qed
qed

lemma live_ids_limiter [simp]: "live_ids (g\<lparr>g_limiter := l\<rparr>) = live_ids g"
  by (simp add: live_ids_def urgentQ_def readyQ_def)

lemma abs_group_limiter [simp]: "abs_group (g\<lparr>g_limiter := l\<rparr>) = abs_group g"
  by (simp add: abs_group_def urgentQ_def readyQ_def)

lemma nextDispatchable_cases:
  assumes rep: "group_rep g"
  obtains
    (capacity) "c_Parallelism (g_cfg g) \<le> int (length (g_processing g))"
      and "nextDispatchable now g = (Ret (None, dispatchStopCapacity, zeroTime), g)"
  | (limited) l l' w where "int (length (g_processing g)) < c_Parallelism (g_cfg g)"
      and "g_limiter g = Some l" and "allow l now = (Ret (False, w), l')"
      and "group_rep (g\<lparr>g_limiter := Some l'\<rparr>)"
      and "nextDispatchable now g = (Ret (None, dispatchStopRateLimited, w), g\<lparr>g_limiter := Some l'\<rparr>)"
  | (take) lim where "int (length (g_processing g)) < c_Parallelism (g_cfg g)"
      and "g_limiter g = None \<and> lim = None \<or>
           (\<exists>l l' w. g_limiter g = Some l \<and> lim = Some l' \<and> allow l now = (Ret (True, w), l'))"
      and "group_rep (g\<lparr>g_limiter := lim\<rparr>)"
      and "nextDispatchable now g = takeNext now (g\<lparr>g_limiter := lim\<rparr>)"
proof (cases "c_Parallelism (g_cfg g) \<le> int (length (g_processing g))")
  case True
  then show ?thesis by (intro capacity) (simp_all add: nextDispatchable_def)
next
  case False
  show ?thesis
  proof (cases "g_limiter g")
    case None
    then have same: "g\<lparr>g_limiter := None\<rparr> = g" by simp
    show ?thesis
      by (rule take [of None]) (use False None rep in \<open>simp_all add: nextDispatchable_def same\<close>)
  next
    case (Some l)
    then have l: "lim_wf l" using rep by (simp add: group_rep_def)
    obtain b w l' where a: "allow l now = (Ret (b, w), l')"
      using allow_no_panic [OF l, of now] by (metis prod.collapse)
    have rep': "group_rep (g\<lparr>g_limiter := Some l'\<rparr>)"
      using rep allow_wf [OF l, of now] by (simp add: group_rep_def a)
    show ?thesis
    proof (cases b)
      case True
      with False Some a rep' show ?thesis
        by (intro take [of "Some l'"]) (simp_all add: nextDispatchable_def Let_def)
    next
      case b: False
      with False Some a rep' show ?thesis
        by (intro limited [of l w l']) (simp_all add: nextDispatchable_def Let_def)
    qed
  qed
qed

text \<open>Taking the message \<open>m\<close> out of a queue and leasing it keeps the identifiers.\<close>

lemma lease_id [simp]: "m_ID (lease g now m) = m_ID m"
  by (simp add: lease_def)

lemma takeNext_nil: "takeNext now g = (r, g') \<Longrightarrow> g_nilProcessing g' = g_nilProcessing g"
  by (auto simp: takeNext_def start_processing_def Let_def split: if_splits option.splits prod.splits)

lemma group_rep_lease:
  assumes "group_rep g" and "g_nilProcessing g' = g_nilProcessing g"
    and "g_processing g' = gm_put (m_ID m) (lease g now m) (g_processing g)"
    and "g_delayed g' = g_delayed g" and "g_limiter g' = g_limiter g"
    and "g_readyHead g' \<le> length (g_ready g')" and "g_urgentHead g' \<le> length (g_urgent g')"
    and "None \<notin> set (drop (g_urgentHead g') (g_urgent g'))"
  shows "group_rep g'"
proof -
  have "\<forall>(ident, m') \<in> set (gm_put (m_ID m) (lease g now m) (g_processing g)). m_ID m' = ident"
  proof (clarify)
    fix a b assume "(a, b) \<in> set (gm_put (m_ID m) (lease g now m) (g_processing g))"
    moreover have "gm_wf (gm_put (m_ID m) (lease g now m) (g_processing g))"
      using assms(1) by (simp add: group_rep_def gm_wf_put)
    ultimately have "gm_get (gm_put (m_ID m) (lease g now m) (g_processing g)) a = Some b"
      by (rule map_of_is_SomeI [rotated])
    then show "m_ID b = a"
      using assms(1) by (auto simp: group_rep_def dest!: map_of_SomeD split: if_splits)
  qed
  then show ?thesis using assms by (simp add: group_rep_def gm_wf_put)
qed

lemma takeNext_pres:
  assumes rep: "group_rep g" and uniq: "\<forall>ident. count (live_ids g) ident \<le> 1"
    and step: "takeNext now g = (r, g')"
  shows "group_rep g' \<and> live_ids g' = live_ids g
    \<and> length (g_processing g') \<le> Suc (length (g_processing g))"
  using rep
proof (cases g rule: takeNext_cases [where now = now])
  case (urgent m us g'')
  have fresh: "gm_get (g_processing g) (m_ID m) = None"
    using uniq urgent(1) by (intro fresh_processing) auto
  show ?thesis
    using urgent step group_rep_lease [OF rep takeNext_nil [OF urgent(2)] urgent(5,6,8,9,10,11)] gm_put_fresh_mset [OF fresh]
    by (simp add: live_ids_def gm_put_fresh [OF fresh])
next
  case (ready m rs g'')
  have fresh: "gm_get (g_processing g) (m_ID m) = None"
    using uniq ready(2) by (intro fresh_processing) auto
  show ?thesis
    using ready step group_rep_lease [OF rep takeNext_nil [OF ready(3)] ready(6,7,9,10,11,12)] gm_put_fresh_mset [OF fresh]
    by (simp add: live_ids_def gm_put_fresh [OF fresh])
next
  case (empty g'' w)
  then show ?thesis using rep step takeNext_nil [OF step] by (simp add: live_ids_def group_rep_def)
qed

lemma nextDispatchable_pres:
  assumes wf: "group_wf g" and step: "nextDispatchable now g = (r, g')"
  shows "group_wf g' \<and> live_ids g' = live_ids g \<and> (\<exists>x. r = Ret x)
    \<and> (within_capacity g \<longrightarrow> within_capacity g')
    \<and> g_cfg g' = g_cfg g \<and> g_delayed g' = g_delayed g \<and> g_quantum g' = g_quantum g"
proof -
  have rep: "group_rep g" using wf by (simp add: group_wf_def)
  then show ?thesis
  proof (cases g rule: nextDispatchable_cases [where now = now])
    case capacity
    then show ?thesis using step wf by simp
  next
    case (limited l l' w)
    then show ?thesis using step wf by (auto simp: group_wf_def within_capacity_def)
  next
    case (take lim)
    let ?g = "g\<lparr>g_limiter := lim\<rparr>"
    have step': "takeNext now ?g = (r, g')" using take step by simp
    have pres: "group_rep g' \<and> live_ids g' = live_ids g
        \<and> length (g_processing g') \<le> Suc (length (g_processing g))"
      using takeNext_pres [OF take(3) _ step'] wf by (simp add: group_wf_def)
    have frame: "(\<exists>x. r = Ret x) \<and> g_cfg g' = g_cfg g \<and> g_delayed g' = g_delayed g"
      using take(3) by (cases ?g rule: takeNext_cases [where now = now]) (use step' in auto)
    have "g_quantum g' = g_quantum g"
      using step' by (auto simp: takeNext_def start_processing_def Let_def
          split: if_splits option.splits prod.splits)
    then show ?thesis using pres frame take(1) wf by (simp add: group_wf_def within_capacity_def)
  qed
qed

lemma nextDispatchable_msg:
  assumes wf: "group_wf g" and nd: "nextDispatchable now g = (Ret (Some m, st, w), g')"
  shows "gm_get (g_processing g') (m_ID m) = Some m \<and> m_State m = StateProcessing
    \<and> m_ScheduledAt m = now + c_LeaseTimeout (g_cfg g)
    \<and> gm_get (g_processing g) (m_ID m) = None
    \<and> (\<forall>ident. ident \<noteq> m_ID m \<longrightarrow> gm_get (g_processing g') ident = gm_get (g_processing g) ident)"
proof -
  have rep: "group_rep g" and uniq: "\<And>ident. count (live_ids g) ident \<le> 1"
    using wf by (simp_all add: group_wf_def)
  from rep show ?thesis
  proof (cases g rule: nextDispatchable_cases [where now = now])
    case (take lim)
    let ?g = "g\<lparr>g_limiter := lim\<rparr>"
    have step: "takeNext now ?g = (Ret (Some m, st, w), g')" using nd take(4) by simp
    from take(3) have "m_ID m \<in> m_ID ` set (urgentQ ?g @ readyQ ?g @ g_delayed ?g)"
      by (cases ?g rule: takeNext_cases [where now = now]) (use step in auto)
    then have "gm_get (g_processing ?g) (m_ID m) = None"
      using uniq by (intro fresh_processing) simp_all
    moreover from take(3) have "gm_get (g_processing g') (m_ID m) = Some m
      \<and> m_State m = StateProcessing \<and> m_ScheduledAt m = now + c_LeaseTimeout (g_cfg ?g)
      \<and> (\<forall>i. i \<noteq> m_ID m \<longrightarrow> gm_get (g_processing g') i = gm_get (g_processing ?g) i)"
      by (cases ?g rule: takeNext_cases [where now = now]) (use step in \<open>auto simp: lease_def\<close>)
    ultimately show ?thesis by simp
  qed (use nd in auto)
qed

lemma nextDispatchable_none:
  assumes rep: "group_rep g" and nd: "nextDispatchable now g = (Ret (None, st, w), g')"
  shows "g_processing g' = g_processing g"
  using rep
proof (cases g rule: nextDispatchable_cases [where now = now])
  case (take lim)
  then have t: "takeNext now (g\<lparr>g_limiter := lim\<rparr>) = (Ret (None, st, w), g')" using nd by simp
  from take(3) show ?thesis
    by (cases "g\<lparr>g_limiter := lim\<rparr>" rule: takeNext_cases [where now = now]) (use t in auto)
qed (use nd in auto)

section \<open>Expired leases and due retries\<close>

text \<open>
  Returning a leased message to the urgent queue: the common effect of an expired lease and of
  \<open>returnToPending\<close>.
\<close>

definition to_urgent :: "string \<Rightarrow> message \<Rightarrow> group \<Rightarrow> group" where
  "to_urgent ident msg g =
     g\<lparr>g_processing := gm_del ident (g_processing g),
       g_urgent := g_urgent g @ [Some (msg\<lparr>m_State := StatePending\<rparr>)]\<rparr>"

lemma to_urgent_pres:
  assumes rep: "group_rep g" and m: "gm_get (g_processing g) ident = Some msg"
  shows "group_rep (to_urgent ident msg g) \<and> live_ids (to_urgent ident msg g) = live_ids g
    \<and> urgentQ (to_urgent ident msg g) = urgentQ g @ [msg\<lparr>m_State := StatePending\<rparr>]
    \<and> readyQ (to_urgent ident msg g) = readyQ g
    \<and> length (g_processing g) = Suc (length (g_processing (to_urgent ident msg g)))"
proof -
  let ?g = "to_urgent ident msg g"
  have id: "m_ID msg = ident"
    using rep map_of_SomeD [OF m] by (auto simp: group_rep_def)
  have wf: "gm_wf (g_processing g)" and hd: "g_urgentHead g \<le> length (g_urgent g)"
    using rep by (simp_all add: group_rep_def)
  have sub: "set (gm_del ident (g_processing g)) \<subseteq> set (g_processing g)"
    by (auto simp: AList.delete_eq)
  have u: "urgentQ ?g = urgentQ g @ [msg\<lparr>m_State := StatePending\<rparr>]"
    using hd by (simp add: urgentQ_def to_urgent_def live_slots_snoc)
  have "group_rep ?g"
    using rep sub hd by (auto simp: group_rep_def to_urgent_def gm_wf_del)
  moreover have r: "readyQ ?g = readyQ g" and d: "g_delayed ?g = g_delayed g"
    and pr: "g_processing ?g = gm_del ident (g_processing g)"
    by (simp_all add: readyQ_def to_urgent_def)
  moreover have "live_ids ?g = live_ids g"
    unfolding live_ids_def u r d pr gm_del_fst_mset [OF wf m] by (simp add: id)
  ultimately show ?thesis using u gm_del_length [OF wf m] by simp
qed

lemma expireLease_eq:
  "expireLease now (ident, msg) (g, wake) =
     (if now > m_ScheduledAt msg then (to_urgent ident msg g, wake)
      else (g, earlier wake (m_ScheduledAt msg)))"
  by (simp add: to_urgent_def)

lemma to_urgent_frame [simp]:
  "g_processing (to_urgent ident msg g) = gm_del ident (g_processing g)"
  "g_delayed (to_urgent ident msg g) = g_delayed g" "g_cfg (to_urgent ident msg g) = g_cfg g"
  "g_ready (to_urgent ident msg g) = g_ready g"
  "g_quantum (to_urgent ident msg g) = g_quantum g" "g_deficit (to_urgent ident msg g) = g_deficit g"
  by (simp_all add: to_urgent_def)

lemma expire_fold:
  assumes "group_rep g" and "distinct (map fst es)"
    and "\<forall>(ident, m) \<in> set es. gm_get (g_processing g) ident = Some m"
    and "fold (expireLease now) es (g, w) = (g', w')"
  shows "group_rep g' \<and> live_ids g' = live_ids g \<and> length (g_processing g') \<le> length (g_processing g)
    \<and> g_delayed g' = g_delayed g \<and> g_cfg g' = g_cfg g \<and> g_quantum g' = g_quantum g
    \<and> g_deficit g' = g_deficit g
    \<and> (\<forall>ident. gm_get (g_processing g') ident =
          (case map_of es ident of
             Some m \<Rightarrow> if now > m_ScheduledAt m then None else gm_get (g_processing g) ident
           | None \<Rightarrow> gm_get (g_processing g) ident))
    \<and> w' = fold (\<lambda>t w. earlier w t)
             (filter (\<lambda>t. \<not> now > t) (map (\<lambda>e. m_ScheduledAt (snd e)) es)) w"
  using assms
proof (induction es arbitrary: g w)
  case Nil
  then show ?case by simp
next
  case (Cons e es)
  obtain ident m where e: "e = (ident, m)" by (cases e)
  have m: "gm_get (g_processing g) ident = Some m" using Cons.prems(3) by (auto simp: e)
  have fresh: "map_of es ident = None" using Cons.prems(2) by (simp add: e map_of_eq_None_iff)
  have others: "\<forall>(i, m) \<in> set es. i \<noteq> ident \<and> gm_get (g_processing g) i = Some m"
    using Cons.prems(2,3) by (force simp: e)
  show ?case
  proof (cases "now > m_ScheduledAt m")
    case True
    note p = to_urgent_pres [OF Cons.prems(1) m]
    have rest: "\<forall>(i, m') \<in> set es. gm_get (g_processing (to_urgent ident m g)) i = Some m'"
      using others by (auto split: prod.splits)
    have "fold (expireLease now) es (to_urgent ident m g, w) = (g', w')"
      using Cons.prems(4) True by (simp add: e expireLease_eq del: expireLease.simps)
    from Cons.IH [OF _ _ rest this] p Cons.prems(2) True fresh show ?thesis
      by (auto simp: e split: option.splits)
  next
    case False
    have rest: "\<forall>(i, m') \<in> set es. gm_get (g_processing g) i = Some m'" using others by auto
    have "fold (expireLease now) es (g, earlier w (m_ScheduledAt m)) = (g', w')"
      using Cons.prems(4) False by (simp add: e)
    from Cons.IH [OF Cons.prems(1) _ rest this] Cons.prems(2) False fresh m show ?thesis
      by (auto simp: e split: option.splits)
  qed
qed

lemma delayed_head_min:
  assumes "heap_ok delayed_Less h" and "h = m # r" and "x \<in> set h"
  shows "m_ScheduledAt m \<le> m_ScheduledAt x"
  using delayed_order.heap_min [OF assms(1)] assms(2,3)
  by (metis delayed_Less_scheduled in_set_conv_nth nth_Cons_0)

lemma promoteLoop_pres:
  assumes "group_rep g" and "promoteLoop now g w = (g', w')"
  shows "group_rep g' \<and> live_ids g' = live_ids g \<and> g_processing g' = g_processing g
    \<and> g_cfg g' = g_cfg g \<and> g_quantum g' = g_quantum g \<and> g_deficit g' = g_deficit g
    \<and> urgentQ g' = urgentQ g
    \<and> (\<forall>m \<in> set (g_delayed g'). now < m_ScheduledAt m)
    \<and> (\<exists>due. readyQ g' = readyQ g @ due \<and> mset (g_delayed g) = mset due + mset (g_delayed g')
             \<and> (\<forall>m \<in> set due. m_ScheduledAt m \<le> now))
    \<and> w' = (if g_delayed g' = [] then w
            else earlier w (Min (m_ScheduledAt ` set (g_delayed g'))))"
  using assms
proof (induction now g w arbitrary: g' w' rule: promoteLoop.induct)
  case (1 now g w)
  have heap: "heap_ok delayed_Less (g_delayed g)" using "1.prems"(1) by (simp add: group_rep_def)
  show ?case
  proof (cases "g_delayed g")
    case Nil
    then show ?thesis using "1.prems" by (subst (asm) promoteLoop.simps) simp
  next
    case (Cons msg r)
    have min: "\<forall>x \<in> set (g_delayed g). m_ScheduledAt msg \<le> m_ScheduledAt x"
      using delayed_head_min [OF heap Cons] by blast
    show ?thesis
    proof (cases "m_ScheduledAt msg > now")
      case True
      then have "g' = g" and "w' = earlier w (m_ScheduledAt msg)"
        using "1.prems"(2) Cons by (auto simp: promoteLoop.simps [of now g w])
      moreover have "Min (m_ScheduledAt ` set (g_delayed g)) = m_ScheduledAt msg"
        using min Cons by (intro Min_eqI) auto
      ultimately show ?thesis using True "1.prems"(1) min Cons by (auto simp: less_le_trans)
    next
      case False
      obtain x rest where pop: "heap_pop delayed_Less (g_delayed g) = Some (x, rest)"
        using heap_pop_Some [of "g_delayed g" delayed_Less] Cons by auto
      have x: "x = msg" and ms: "mset (g_delayed g) = add_mset msg (mset rest)"
        using heap_pop_contents [OF pop] Cons by simp_all
      let ?g = "g\<lparr>g_delayed := rest, g_ready := g_ready g @ [Some msg]\<rparr>"
      have step: "promoteLoop now ?g w = (g', w')"
        using "1.prems"(2) False Cons pop by (simp add: promoteLoop.simps [of now g w])
      have rep: "group_rep ?g"
        using "1.prems"(1) delayed_order.heap_pop_ok [OF heap pop] by (simp add: group_rep_def)
      have rq: "readyQ ?g = readyQ g @ [msg]" and uq: "urgentQ ?g = urgentQ g"
        using "1.prems"(1) by (simp_all add: readyQ_def urgentQ_def group_rep_def live_slots_snoc)
      have ids: "live_ids ?g = live_ids g"
        unfolding live_ids_def rq uq using ms by simp
      from "1.IH" [OF Cons False pop _ rep step] x obtain due where
        "readyQ g' = readyQ ?g @ due" "mset (g_delayed ?g) = mset due + mset (g_delayed g')"
        "\<forall>m \<in> set due. m_ScheduledAt m \<le> now" by auto
      then have "readyQ g' = readyQ g @ (msg # due)"
        "mset (g_delayed g) = mset (msg # due) + mset (g_delayed g')"
        "\<forall>m \<in> set (msg # due). m_ScheduledAt m \<le> now"
        using False by (simp_all add: rq ms)
      then show ?thesis using "1.IH" [OF Cons False pop _ rep step] ids uq by auto
    qed
  qed
qed

text \<open>The deadlines a group waits for: leases and retries.\<close>

definition deadlines :: "group \<Rightarrow> gtime set" where
  "deadlines g = m_ScheduledAt ` (snd ` set (g_processing g) \<union> set (g_delayed g))"

lemma fold_earlier:
  assumes "zeroTime \<notin> set ts"
  shows "fold (\<lambda>t w. earlier w t) ts w =
    (let S = set ts \<union> (if w = zeroTime then {} else {w}) in if S = {} then zeroTime else Min S)"
  using assms
proof (induction ts arbitrary: w)
  case Nil
  then show ?case by (simp add: Let_def)
next
  case (Cons t ts)
  have e: "earlier w t = (if w = zeroTime then t else min w t)"
    by (auto simp: earlier_def isZero_def)
  have nz: "earlier w t \<noteq> zeroTime" using Cons.prems by (auto simp: e min_def)
  have "Min (set ts \<union> {earlier w t}) = Min (set (t # ts) \<union> (if w = zeroTime then {} else {w}))"
    by (cases "ts = []") (auto simp: e Min_insert min.assoc min.commute min.left_commute)
  then show ?case using Cons nz by (simp add: Let_def)
qed

lemma promoteDelayed_full:
  assumes rep: "group_rep g" and it: "is_range_order it" and step: "promoteDelayed it now g = (g', w)"
  shows "group_rep g' \<and> live_ids g' = live_ids g
    \<and> length (g_processing g') \<le> length (g_processing g)
    \<and> g_cfg g' = g_cfg g \<and> g_quantum g' = g_quantum g \<and> g_deficit g' = g_deficit g
    \<and> set (g_processing g') = {(i, m) \<in> set (g_processing g). now \<le> m_ScheduledAt m}
    \<and> (\<forall>m \<in> set (g_delayed g'). now < m_ScheduledAt m)
    \<and> (zeroTime \<notin> deadlines g' \<longrightarrow>
        w = (if deadlines g' = {} then zeroTime else Min (deadlines g')))"
proof -
  let ?es = "it (g_processing g)"
  obtain g1 w1 where f: "fold (expireLease now) ?es (g, zeroTime) = (g1, w1)" by fastforce
  have loop: "promoteLoop now g1 w1 = (g', w)" using step f by (simp add: promoteDelayed_def)
  have gwf: "gm_wf (g_processing g)" using rep by (simp add: group_rep_def)
  have es: "gm_wf ?es" "set ?es = set (g_processing g)"
    using range_order_wf [OF it gwf] range_order_set [OF it] by auto
  have get: "map_of ?es = map_of (g_processing g)"
    using es gwf by (metis map_of_inject_set)
  have "\<forall>(ident, m) \<in> set ?es. gm_get (g_processing g) ident = Some m"
    using es gwf by auto
  note ex = expire_fold [OF rep es(1) this f]
  then have "group_rep g1" by blast
  note pl = promoteLoop_pres [OF this loop]
  have wf': "gm_wf (g_processing g')" using pl unfolding group_rep_def by blast
  have procs: "set (g_processing g') = {(i, m) \<in> set (g_processing g). now \<le> m_ScheduledAt m}"
    using ex pl unfolding gm_set_eq [OF wf'] gm_set_eq [OF gwf] get
    by (auto split: option.splits if_splits)
  have wake: "w = (if deadlines g' = {} then zeroTime else Min (deadlines g'))"
    if nz: "zeroTime \<notin> deadlines g'"
  proof -
    let ?ts = "filter (\<lambda>t. \<not> now > t) (map (\<lambda>e. m_ScheduledAt (snd e)) ?es)"
    define T where "T = set ?ts"
    let ?D = "m_ScheduledAt ` set (g_delayed g')"
    have T: "T = m_ScheduledAt ` snd ` set (g_processing g')" "finite T"
      unfolding procs T_def using es(2) by force+
    have nT: "zeroTime \<notin> T" using nz by (simp add: T(1) deadlines_def image_Un)
    have w1: "w1 = (if T = {} then zeroTime else Min T)"
      using ex fold_earlier [OF nT [unfolded T_def], of zeroTime] by (simp add: Let_def T_def)
    have w1z: "(w1 = zeroTime) = (T = {})" using w1 nT T(2) Min_in [of T] by metis
    have dl: "deadlines g' = T \<union> ?D" by (simp only: deadlines_def T(1) image_Un)
    show ?thesis
    proof (cases "g_delayed g' = []")
      case True
      then show ?thesis using pl w1 by (simp add: dl)
    next
      case False
      then have D: "?D \<noteq> {}" "finite ?D" by auto
      have "w = earlier w1 (Min ?D)" using pl False by simp
      also have "\<dots> = Min (T \<union> ?D)"
      proof (cases "T = {}")
        case True
        then show ?thesis using w1 by (simp add: earlier_def)
      next
        case False
        then have "earlier w1 (Min ?D) = min (Min T) (Min ?D)"
          using w1 w1z by (auto simp: earlier_def isZero_def min_def)
        then show ?thesis using Min_Un [OF T(2) False D(2,1)] by simp
      qed
      finally show ?thesis using D by (simp add: dl)
    qed
  qed
  show ?thesis using ex pl procs wake by simp
qed

lemma group_wf_conserved: "group_rep g' \<Longrightarrow> live_ids g' = live_ids g \<Longrightarrow> group_wf g \<Longrightarrow> group_wf g'"
  by (simp add: group_wf_def)

end
