(* ===== verification/Group_Round.thy ===== *)
theory Group_Round
  imports Group_Safety
begin

text \<open>
  Properties of a consumer group: a scheduling round dispatches at most its deficit, within the
  parallelism cap and without losing messages; dispatch refines the abstract queue; completion,
  failure, requeue and import keep the invariant; the bounds of the retry delay.
\<close>

section \<open>A scheduling round\<close>

definition the_default :: "'a \<Rightarrow> 'a option \<Rightarrow> 'a" where
  "the_default d x = (case x of None \<Rightarrow> d | Some v \<Rightarrow> v)"

lemma the_default_simps [simp]: "the_default d None = d" "the_default d (Some v) = v"
  by (simp_all add: the_default_def)

lemma deficit_frame [simp]:
  "live_ids (g\<lparr>g_deficit := d\<rparr>) = live_ids g" "group_rep (g\<lparr>g_deficit := d\<rparr>) = group_rep g"
  "live_ids (g\<lparr>g_quantum := q\<rparr>) = live_ids g" "group_rep (g\<lparr>g_quantum := q\<rparr>) = group_rep g"
  "pendingCount (g\<lparr>g_deficit := d\<rparr>) = pendingCount g"
  by (simp_all add: live_ids_def group_rep_def urgentQ_def readyQ_def pendingCount_def)

lemma deficit_frame_wf [simp]:
  "group_wf (g\<lparr>g_deficit := d\<rparr>) = group_wf g" "group_wf (g\<lparr>g_quantum := q\<rparr>) = group_wf g"
  "within_capacity (g\<lparr>g_deficit := d\<rparr>) = within_capacity g"
  "within_capacity (g\<lparr>g_quantum := q\<rparr>) = within_capacity g"
  by (simp_all add: group_wf_def within_capacity_def)

lemma drainLoop_pres:
  assumes "group_wf g" and "drainLoop now g batch = (r, g')"
    and "0 \<le> g_deficit g" and "\<forall>m \<in> set batch. gm_get (g_processing g) (m_ID m) = Some m"
    and "distinct (map m_ID batch)"
  shows "group_wf g' \<and> (within_capacity g \<longrightarrow> within_capacity g') \<and> live_ids g' = live_ids g \<and> g_cfg g' = g_cfg g
    \<and> (\<exists>batch' stop. r = Ret (batch', stop)
        \<and> int (length batch') + g_deficit g' = int (length batch) + g_deficit g
        \<and> 0 \<le> g_deficit g' \<and> distinct (map m_ID batch')
        \<and> (\<forall>m \<in> set batch'. gm_get (g_processing g') (m_ID m) = Some m))"
  using assms
proof (induction now g batch arbitrary: r g' rule: drainLoop.induct)
  case (1 now g batch)
  show ?case
  proof (cases "g_deficit g > 0")
    case False
    then show ?thesis using "1.prems" by (simp add: drainLoop.simps [of now g batch]) blast
  next
    case True
    obtain res g1 where nd: "nextDispatchable now g = (res, g1)" by fastforce
    note pres = nextDispatchable_pres [OF "1.prems"(1) nd]
    have df: "g_deficit g1 = g_deficit g" by (rule nextDispatchable_deficit [OF nd])
    obtain x where x: "res = Ret x" using pres by blast
    obtain mo st wk where res: "res = Ret (mo, st, wk)" using x by (cases x) auto
    have rep: "group_rep g" using "1.prems"(1) by (simp add: group_wf_def)
    show ?thesis
    proof (cases mo)
      case None
      then show ?thesis
        using "1.prems" True pres df nextDispatchable_none [OF rep nd [unfolded res None]]
        by (simp add: drainLoop.simps [of now g batch] nd res) blast
    next
      case (Some m)
      let ?g = "g1\<lparr>g_deficit := g_deficit g1 - 1\<rparr>"
      have msg: "gm_get (g_processing g1) (m_ID m) = Some m"
        and fresh: "gm_get (g_processing g) (m_ID m) = None"
        and other: "\<And>i. i \<noteq> m_ID m \<Longrightarrow> gm_get (g_processing g1) i = gm_get (g_processing g) i"
        using nextDispatchable_msg [OF "1.prems"(1)] nd res Some by auto
      have new: "\<forall>y \<in> set batch. m_ID y \<noteq> m_ID m" using "1.prems"(4) fresh by force
      have step: "drainLoop now ?g (batch @ [m]) = (r, g')"
        using "1.prems"(2) True nd res Some by (simp add: drainLoop.simps [of now g batch])
      have b: "\<forall>x \<in> set (batch @ [m]). gm_get (g_processing ?g) (m_ID x) = Some x"
      proof
        fix x assume "x \<in> set (batch @ [m])"
        then show "gm_get (g_processing ?g) (m_ID x) = Some x"
          using "1.prems"(4) msg other [of "m_ID x"] new by (cases "x = m") auto
      qed
      have d: "distinct (map m_ID (batch @ [m]))" using "1.prems"(5) new by auto
      have "group_wf ?g" "0 \<le> g_deficit ?g" using pres True df by simp_all
      from "1.IH" [OF True nd [unfolded res Some, symmetric] refl refl refl refl this(1) step this(2) b d]
      show ?thesis using pres df by simp
    qed
  qed
qed

lemma promoteDelayed_wf:
  assumes "group_wf g" and "is_range_order it" and "promoteDelayed it now g = (g', w)"
  shows "group_wf g' \<and> live_ids g' = live_ids g \<and> g_cfg g' = g_cfg g \<and> g_quantum g' = g_quantum g
    \<and> g_deficit g' = g_deficit g \<and> (within_capacity g \<longrightarrow> within_capacity g')"
proof -
  have rep: "group_rep g" using assms(1) by (simp add: group_wf_def)
  have "group_rep g' \<and> live_ids g' = live_ids g \<and> length (g_processing g') \<le> length (g_processing g)
    \<and> g_cfg g' = g_cfg g \<and> g_quantum g' = g_quantum g \<and> g_deficit g' = g_deficit g"
    using promoteDelayed_full [OF rep assms(2,3)] by blast
  then show ?thesis using assms(1) by (simp add: group_wf_def within_capacity_def)
qed

lemma drainRound_pres:
  assumes wf: "group_wf g" "0 \<le> g_deficit g" and it: "is_range_order it"
    and round: "drainRound it now g = (r, g')"
  shows "group_wf g' \<and> (within_capacity g \<longrightarrow> within_capacity g') \<and> g_cfg g' = g_cfg g \<and> 0 \<le> g_deficit g' \<and> live_ids g' = live_ids g
    \<and> (\<exists>b wakeAt hasWake still. r = Ret (b, wakeAt, hasWake, still)
        \<and> distinct (map m_ID (the_default [] b))
        \<and> (\<forall>m \<in> set (the_default [] b). gm_get (g_processing g') (m_ID m) = Some m)
        \<and> int (length (the_default [] b)) + g_deficit g' \<le> g_deficit g + max 1 (g_quantum g))"
proof -
  obtain g1 w where p: "promoteDelayed it now g = (g1, w)" by fastforce
  note pw = promoteDelayed_wf [OF wf(1) it p]
  show ?thesis
  proof (cases "pendingCount g1 = 0")
    case True
    then show ?thesis using round pw wf by (auto simp: drainRound_def p)
  next
    case False
    let ?g2 = "if g_quantum g1 \<le> 0 then g1\<lparr>g_quantum := 1\<rparr> else g1"
    define g3 where "g3 = ?g2\<lparr>g_deficit := g_deficit ?g2 + g_quantum ?g2\<rparr>"
    obtain r3 g4 where l: "drainLoop now g3 [] = (r3, g4)" by fastforce
    have g3: "group_wf g3" "within_capacity g \<longrightarrow> within_capacity g3" "0 \<le> g_deficit g3" "live_ids g3 = live_ids g"
      "g_cfg g3 = g_cfg g" "g_deficit g3 = g_deficit g + max 1 (g_quantum g)"
      using pw wf by (auto simp: g3_def max_def)
    have "group_wf g4 \<and> (within_capacity g3 \<longrightarrow> within_capacity g4) \<and> live_ids g4 = live_ids g3 \<and> g_cfg g4 = g_cfg g3
      \<and> (\<exists>batch' stop. r3 = Ret (batch', stop)
        \<and> int (length batch') + g_deficit g4 = int (length ([] :: message list)) + g_deficit g3
        \<and> 0 \<le> g_deficit g4 \<and> distinct (map m_ID batch')
        \<and> (\<forall>m \<in> set batch'. gm_get (g_processing g4) (m_ID m) = Some m))"
      by (rule drainLoop_pres [OF g3(1) l g3(3)]) simp_all
    then obtain b stop where g4: "group_wf g4" "within_capacity g \<longrightarrow> within_capacity g4" "live_ids g4 = live_ids g"
      "r3 = Ret (b, stop)" "int (length b) + g_deficit g4 = g_deficit g3" "0 \<le> g_deficit g4"
      "distinct (map m_ID b)" "\<forall>m \<in> set b. gm_get (g_processing g4) (m_ID m) = Some m"
      using g3(2,4) by auto
    have cfg4: "g_cfg g4 = g_cfg g3" using drainLoop_pres [OF g3(1) l g3(3)] by simp
    have unf: "drainRound it now g = (let res = (\<lambda>w h s. (Ret (Some b, w, h, s), g4)) in
       case stop of DrainEmpty t \<Rightarrow> let w' = (if \<not> isZero t then earlier w t else w) in res w' (\<not> isZero w') False
       | DrainCapacity \<Rightarrow> res w (\<not> isZero w) False
       | stop \<Rightarrow> let w' = (case stop of DrainRateLimited t \<Rightarrow> earlier w t | _ \<Rightarrow> w)
                in if \<not> isZero w' then res w' True False
                   else if pendingCount g4 > 0 then res zeroTime False True else res zeroTime False False)"
      using False l g4(4) unfolding drainRound_def p g3_def
      by (simp add: Let_def split: drain_end.split)
    have "\<exists>w h s. (r, g') = (Ret (Some b, w, h, s), g4)"
      unfolding round [symmetric] unf by (auto simp: Let_def split: drain_end.split)
    then show ?thesis using g4 g3(5,6) cfg4 by auto
  qed
qed

section \<open>Dispatch refines the abstract queue\<close>

lemma takeNext_abs:
  assumes "group_rep g" and "takeNext now g = (r, g')"
  shows "group_rep g' \<and> (\<exists>mo w. r = Ret (mo, dispatchStopEmpty, w)
    \<and> (mo, abs_group g') = a_next (c_LeaseTimeout (g_cfg g)) now (abs_group g))"
  using assms(1)
proof (cases g rule: takeNext_cases [where now = now])
  case (urgent m us g'')
  then show ?thesis using assms group_rep_lease [OF assms(1) takeNext_nil [OF urgent(2)] urgent(5,6,8,9,10,11)]
    by (simp add: a_next_def abs_group_def lease_def update_conv' Let_def)
next
  case (ready m rs g'')
  then show ?thesis using assms group_rep_lease [OF assms(1) takeNext_nil [OF ready(3)] ready(6,7,9,10,11,12)]
    by (simp add: a_next_def abs_group_def lease_def update_conv' Let_def)
next
  case (empty g'' w)
  then show ?thesis using assms takeNext_nil [OF assms(2)] by (simp add: a_next_def abs_group_def group_rep_def)
qed

lemma nextDispatchable_abs:
  assumes rep: "group_rep g" and nd: "nextDispatchable now g = (r, g')"
  shows "group_rep g' \<and> (\<exists>mo stop w. r = Ret (mo, stop, w) \<and>
     (if stop = dispatchStopEmpty
      then (mo, abs_group g') = a_next (c_LeaseTimeout (g_cfg g)) now (abs_group g)
      else mo = None \<and> abs_group g' = abs_group g))"
  using rep
proof (cases g rule: nextDispatchable_cases [where now = now])
  case capacity
  then show ?thesis using nd rep by simp
next
  case (limited l l' w)
  then show ?thesis using nd by auto
next
  case (take lim)
  have t: "takeNext now (g\<lparr>g_limiter := lim\<rparr>) = (r, g')" using nd take(4) by simp
  show ?thesis using takeNext_abs [OF take(3) t] by auto
qed

lemma enqueue_pres:
  assumes "group_rep g"
  shows "group_rep (enqueue m g) \<and> live_ids (enqueue m g) = add_mset (m_ID m) (live_ids g)
    \<and> urgentQ (enqueue m g) = urgentQ g \<and> readyQ (enqueue m g) = readyQ g @ [m]"
proof -
  have "readyQ (enqueue m g) = readyQ g @ [m]" "urgentQ (enqueue m g) = urgentQ g"
    using assms by (simp_all add: readyQ_def urgentQ_def enqueue_def group_rep_def live_slots_snoc)
  then show ?thesis using assms by (simp add: live_ids_def group_rep_def enqueue_def)
qed

lemma complete_pres:
  assumes rep: "group_rep g" and c: "complete i g = (r, g')"
  shows "group_rep g' \<and> urgentQ g' = urgentQ g \<and> readyQ g' = readyQ g
    \<and> g_delayed g' = g_delayed g \<and> g_cfg g' = g_cfg g \<and> g_deficit g' = g_deficit g
    \<and> (case r of None \<Rightarrow> g' = g \<and> gm_get (g_processing g) i = None
       | Some m \<Rightarrow> live_ids g = add_mset i (live_ids g') \<and> m_ID m = i
           \<and> length (g_processing g) = Suc (length (g_processing g'))
           \<and> gm_get (g_processing g') i = None)"
proof (cases "gm_get (g_processing g) i")
  case None
  then show ?thesis using c rep by (auto simp: complete_def)
next
  case (Some m)
  let ?g = "g\<lparr>g_processing := gm_del i (g_processing g)\<rparr>"
  have wf: "gm_wf (g_processing g)" using rep by (simp add: group_rep_def)
  have sub: "set (gm_del i (g_processing g)) \<subseteq> set (g_processing g)" by (auto simp: AList.delete_eq)
  have id: "m_ID m = i" using rep map_of_SomeD [OF Some] by (auto simp: group_rep_def)
  have "group_rep ?g" using rep sub by (auto simp: group_rep_def gm_wf_del)
  moreover have "live_ids g = add_mset i (live_ids ?g)"
    unfolding live_ids_def using gm_del_fst_mset [OF wf Some] by (simp add: urgentQ_def readyQ_def)
  ultimately show ?thesis using c Some gm_del_length [OF wf Some] id
    by (auto simp: complete_def urgentQ_def readyQ_def)
qed

section \<open>Failure and requeue\<close>

text \<open>The message \<open>fail\<close> pushes on the delayed heap when attempts remain.\<close>

definition retried :: "group \<Rightarrow> gtime \<Rightarrow> string \<Rightarrow> message \<Rightarrow> message" where
  "retried g now err m =
     m\<lparr>m_LastError := err, m_Attempts := m_Attempts m + 1,
       m_ScheduledAt := now + retryDelay (c_Retry (g_cfg g)) (m_Attempts m + 1),
       m_State := StatePending\<rparr>"

definition attempts_left :: "group \<Rightarrow> message \<Rightarrow> bool" where
  "attempts_left g m = (m_Attempts m + 1 < rt_MaxAttempts (c_Retry (g_cfg g)))"

lemma fail_via_complete:
  "fail i err now g =
     (case complete i g of
        (None, g') \<Rightarrow> (None, g')
      | (Some _, g') \<Rightarrow>
          let m = the (gm_get (g_processing g) i) in
          if attempts_left g m
          then (None, g'\<lparr>g_delayed := heap_push delayed_Less (retried g now err m) (g_delayed g')\<rparr>)
          else (case c_DLQ (g_cfg g) of
                  Some dlq \<Rightarrow>
                    if dlq_Enabled dlq
                    then (Some (m\<lparr>m_LastError := err, m_Attempts := m_Attempts m + 1, m_State := StateDLQ\<rparr>), g')
                    else (None, g')
                | None \<Rightarrow> (None, g')))"
  by (auto simp: fail_def complete_def Let_def attempts_left_def retried_def split: option.split)

lemma delayed_push_rep:
  assumes "group_rep g"
  shows "group_rep (g\<lparr>g_delayed := heap_push delayed_Less m (g_delayed g)\<rparr>)
    \<and> live_ids (g\<lparr>g_delayed := heap_push delayed_Less m (g_delayed g)\<rparr>) = add_mset (m_ID m) (live_ids g)"
proof -
  have "mset (map m_ID (heap_push delayed_Less m (g_delayed g))) = add_mset (m_ID m) (mset (map m_ID (g_delayed g)))"
    using heap_push_contents [of delayed_Less m "g_delayed g"] by simp
  then show ?thesis using assms delayed_order.heap_push_ok
    by (auto simp: group_rep_def live_ids_def urgentQ_def readyQ_def)
qed

lemma fail_pres:
  assumes rep: "group_rep g" and m: "gm_get (g_processing g) i = Some m"
    and f: "fail i err now g = (r, g')"
  shows "group_rep g' \<and> g_cfg g' = g_cfg g \<and> g_deficit g' = g_deficit g
    \<and> g_processing g' = gm_del i (g_processing g)
    \<and> length (g_processing g) = Suc (length (g_processing g'))
    \<and> (if attempts_left g m
       then r = None \<and> live_ids g' = live_ids g
         \<and> mset (g_delayed g') = add_mset (retried g now err m) (mset (g_delayed g))
       else live_ids g = add_mset i (live_ids g') \<and> g_delayed g' = g_delayed g
         \<and> (r \<noteq> None \<longleftrightarrow> (\<exists>dlq. c_DLQ (g_cfg g) = Some dlq \<and> dlq_Enabled dlq))
         \<and> (\<forall>x. r = Some x \<longrightarrow> m_ID x = i \<and> m_State x = StateDLQ \<and> m_Payload x = m_Payload m))"
proof -
  obtain r1 g1 where c: "complete i g = (r1, g1)" by fastforce
  note cp = complete_pres [OF rep c]
  have r1: "r1 \<noteq> None" "g_processing g1 = gm_del i (g_processing g)"
    using c m by (auto simp: complete_def)
  then obtain x where x: "r1 = Some x" by blast
  have id: "m_ID m = i" using rep map_of_SomeD [OF m] by (auto simp: group_rep_def)
  have g1: "group_rep g1" "live_ids g = add_mset i (live_ids g1)" "g_delayed g1 = g_delayed g"
    "g_cfg g1 = g_cfg g" "g_deficit g1 = g_deficit g"
    "length (g_processing g) = Suc (length (g_processing g1))"
    using cp x by auto
  show ?thesis
  proof (cases "attempts_left g m")
    case True
    have "g' = g1\<lparr>g_delayed := heap_push delayed_Less (retried g now err m) (g_delayed g1)\<rparr>" "r = None"
      using f True by (simp_all add: fail_via_complete c x m)
    moreover have "m_ID (retried g now err m) = i" by (simp add: retried_def id)
    ultimately show ?thesis
      using True g1 r1 delayed_push_rep [OF g1(1), of "retried g now err m"]
      by (simp add: heap_push_contents)
  next
    case False
    then show ?thesis using f g1 r1 id
      by (auto simp: fail_via_complete c x m split: option.splits if_splits)
  qed
qed

lemma returnToPending_eq:
  "returnToPending i g =
     (case gm_get (g_processing g) i of None \<Rightarrow> (False, g) | Some m \<Rightarrow> (True, to_urgent i m g))"
  by (simp add: returnToPending_def to_urgent_def split: option.split)

lemma fill_defaults_frame:
  "c_RateLimit (fill_defaults cfg) = c_RateLimit cfg"
  "0 < c_Parallelism (fill_defaults cfg)" "0 < c_Quantum (fill_defaults cfg)"
  by (simp_all add: fill_defaults_def Let_def defaultGroupConfig_def)

lemma newGroup_wf:
  assumes "newGroup cfg = Ret g" and "\<forall>rl. c_RateLimit cfg = Some rl \<longrightarrow> 0 < rl_Max rl"
  shows "group_wf g \<and> within_capacity g \<and> g_deficit g = 0 \<and> live_ids g = {#}
    \<and> urgentQ g = [] \<and> readyQ g = [] \<and> 0 < c_Parallelism (g_cfg g) \<and> 0 < g_quantum g"
proof -
  have lim: "lim_wf l" if "g_limiter g = Some l" for l
  proof (cases "c_RateLimit cfg")
    case None
    then show ?thesis using that assms(1) by (auto simp: newGroup_def Let_def fill_defaults_frame)
  next
    case (Some rl)
    then show ?thesis using that assms
      by (auto simp: newGroup_def Let_def fill_defaults_frame newSlidingWindowLimiter_def lim_wf_def
          split: if_splits)
  qed
  have f: "g_ready g = []" "g_readyHead g = 0" "g_urgent g = []" "g_urgentHead g = 0"
    "g_delayed g = heap_init delayed_Less []" "g_processing g = []" "\<not> g_nilProcessing g" "g_deficit g = 0"
    "g_cfg g = fill_defaults cfg" "g_quantum g = c_Quantum (fill_defaults cfg)"
    using assms(1) by (auto simp: newGroup_def Let_def split: outcome.splits)
  have d: "heap_init delayed_Less [] = []"
    using heap_init_contents [of delayed_Less "[]"] by simp
  show ?thesis using lim fill_defaults_frame(2,3) [of cfg] delayed_order.heap_init_ok [of "[]"]
    by (simp add: group_wf_def group_rep_def within_capacity_def live_ids_def urgentQ_def readyQ_def
        live_slots_def map_filter_simps f d)
qed

section \<open>Runs of a group\<close>

text \<open>
  The operations of a group as steps.  A step is labelled with what it does to the messages; the
  only requirement on the environment is that an enqueued message has a fresh identifier.
\<close>

datatype gevent =
    GEnqueue string
  | GDispatch "message list"
  | GFinish string
  | GKeep

inductive gstep :: "group \<Rightarrow> gevent \<Rightarrow> group \<Rightarrow> bool" where
  gs_enqueue: "m_ID m \<notin># live_ids g \<Longrightarrow> gstep g (GEnqueue (m_ID m)) (enqueue m g)"
| gs_round: "is_range_order it \<Longrightarrow> drainRound it now g = (Ret (b, w, h, s), g') \<Longrightarrow>
    gstep g (GDispatch (the_default [] b)) g'"
| gs_next: "next_msg now g = (Ret mo, g') \<Longrightarrow>
    gstep g (GDispatch (case mo of None \<Rightarrow> [] | Some m \<Rightarrow> [m])) g'"
| gs_complete: "complete i g = (Some m, g') \<Longrightarrow> gstep g (GFinish i) g'"
| gs_fail: "gm_get (g_processing g) i = Some m \<Longrightarrow> fail i err now g = (r, g') \<Longrightarrow>
    gstep g (if attempts_left g m then GKeep else GFinish i) g'"
| gs_return: "returnToPending i g = (True, g') \<Longrightarrow> gstep g GKeep g'"

inductive grun :: "group \<Rightarrow> gevent list \<Rightarrow> group \<Rightarrow> bool" where
  grun_nil: "grun g [] g"
| grun_snoc: "grun g tr g' \<Longrightarrow> gstep g' e g'' \<Longrightarrow> grun g (tr @ [e]) g''"

inductive_cases gstepE: "gstep g e g'"

fun entered :: "gevent \<Rightarrow> string multiset" where
  "entered (GEnqueue i) = {#i#}"
| "entered _ = {#}"

fun finished :: "gevent \<Rightarrow> string multiset" where
  "finished (GFinish i) = {#i#}"
| "finished _ = {#}"

definition group_ok :: "group \<Rightarrow> bool" where
  "group_ok g = (group_wf g \<and> within_capacity g \<and> 0 \<le> g_deficit g)"

lemma group_wf_sub:
  assumes "group_wf g" and "group_rep g'" and "live_ids g = add_mset i (live_ids g')"
  shows "group_wf g'"
proof -
  have "count (live_ids g') j \<le> count (live_ids g) j" for j using assms(3) by simp
  then show ?thesis using assms(1,2) unfolding group_wf_def by (meson le_trans)
qed

lemma group_wf_add:
  assumes "group_wf g" and "group_rep g'" and "live_ids g' = add_mset i (live_ids g)" "i \<notin># live_ids g"
  shows "group_wf g'"
  using assms by (auto simp: group_wf_def not_in_iff)

lemma next_msg_pres:
  assumes "group_wf g" and "next_msg now g = (Ret mo, g')"
  shows "group_wf g' \<and> live_ids g' = live_ids g \<and> (within_capacity g \<longrightarrow> within_capacity g')
    \<and> g_deficit g' = g_deficit g"
proof -
  obtain x where "nextDispatchable now g = (Ret x, g')"
    using assms(2) by (auto simp: next_msg_def split: prod.splits outcome.splits)
  then show ?thesis using nextDispatchable_pres [OF assms(1)] nextDispatchable_deficit by blast
qed

lemma gstep_pres:
  assumes "gstep g e g'" and ok: "group_ok g"
  shows "group_ok g' \<and> entered e + live_ids g = live_ids g' + finished e"
  using assms(1)
proof (cases rule: gstep.cases)
  case (gs_enqueue m)
  have rep: "group_rep g" using ok by (simp add: group_ok_def group_wf_def)
  note p = enqueue_pres [OF rep, of m]
  have "group_wf g'" using group_wf_add p gs_enqueue ok by (metis group_ok_def)
  then show ?thesis using ok p gs_enqueue by (simp add: group_ok_def within_capacity_def enqueue_def)
next
  case (gs_round it now b w h s)
  then show ?thesis using drainRound_pres [OF _ _ gs_round(2,3)] ok by (simp add: group_ok_def)
next
  case (gs_next now mo)
  then show ?thesis using next_msg_pres [of g now mo g'] ok by (simp add: group_ok_def)
next
  case (gs_complete i m)
  have rep: "group_rep g" using ok by (simp add: group_ok_def group_wf_def)
  note p = complete_pres [OF rep gs_complete(2)]
  have "group_wf g'" using group_wf_sub [of g g' i] p ok by (simp add: group_ok_def)
  then show ?thesis using ok p gs_complete by (simp add: group_ok_def within_capacity_def)
next
  case (gs_fail i m err now r)
  have rep: "group_rep g" using ok by (simp add: group_ok_def group_wf_def)
  note p = fail_pres [OF rep gs_fail(2,3)]
  have frame: "g_cfg g' = g_cfg g" "g_deficit g' = g_deficit g"
    "length (g_processing g') \<le> length (g_processing g)" using p by simp_all
  have ids: "if attempts_left g m then live_ids g' = live_ids g else live_ids g = add_mset i (live_ids g')"
    using p by (metis (no_types))
  have "group_wf g" using ok by (simp add: group_ok_def)
  moreover have "group_rep g'" using p by blast
  ultimately have "group_wf g'" using ids group_wf_sub group_wf_conserved by (metis (full_types))
  then show ?thesis using ok frame ids gs_fail(1)
    by (simp add: group_ok_def within_capacity_def split: if_splits)
next
  case (gs_return i)
  have rep: "group_rep g" using ok by (simp add: group_ok_def group_wf_def)
  obtain m where m: "gm_get (g_processing g) i = Some m" and g': "g' = to_urgent i m g"
    using gs_return(2) by (auto simp: returnToPending_eq split: option.splits)
  note p = to_urgent_pres [OF rep m]
  have "g_deficit g' = g_deficit g" "g_cfg g' = g_cfg g" by (simp_all add: g')
  moreover have "group_rep g'" "live_ids g' = live_ids g" "length (g_processing g') \<le> length (g_processing g)"
    unfolding g' using p by linarith+
  moreover have "group_wf g'" using calculation ok group_wf_conserved [of g' g] by (simp add: group_ok_def)
  ultimately show ?thesis using ok gs_return(1) by (simp add: group_ok_def within_capacity_def)
qed

lemma grun_pres:
  assumes "grun g tr g'" and "group_ok g"
  shows "group_ok g' \<and>
    sum_list (map entered tr) + live_ids g = live_ids g' + sum_list (map finished tr)"
  using assms
proof (induction rule: grun.induct)
  case (grun_nil g)
  then show ?case by simp
next
  case (grun_snoc g tr g' e g'')
  then show ?case using gstep_pres [OF grun_snoc.hyps(2)] by (simp add: ac_simps)
qed

text \<open>A group and messages for the concrete instances below.\<close>

definition demo_msg :: "string \<Rightarrow> message" where
  "demo_msg ident =
     \<lparr>m_ID = ident, m_QueueName = ''q'', m_Namespace = ''ns'', m_GroupKey = ''k'', m_Payload = ''p'',
      m_State = StatePending, m_Attempts = 0, m_ScheduledAt = 0, m_CreatedAt = 0, m_LastError = []\<rparr>"

definition demo_group :: group where
  "demo_group =
     \<lparr>g_cfg = defaultGroupConfig ''k'', g_ready = [], g_readyHead = 0, g_urgent = [], g_urgentHead = 0,
      g_delayed = [], g_processing = [], g_nilProcessing = False, g_limiter = None, g_deficit = 0, g_quantum = 1,
      g_isScheduled = 0, g_wakeScheduledAt = 0\<rparr>"

lemma demo_new: "newGroup (defaultGroupConfig ''k'') = Ret demo_group"
  by (simp add: newGroup_def fill_defaults_def defaultGroupConfig_def demo_group_def Let_def
      heap_init_def Second_def)

lemma demo_rate: "\<forall>rl. c_RateLimit (defaultGroupConfig ''k'') = Some rl \<longrightarrow> 0 < rl_Max rl"
  by (simp add: defaultGroupConfig_def)

section \<open>Properties\<close>

text \<open>
  [C5] Conservation.  Whatever sequence of operations a group goes through after \<open>newGroup\<close>, its
  invariant holds (head indices, heap order, no identifier twice), the number of leased messages
  never exceeds the configured parallelism, and every message that was enqueued is either still in
  the group exactly once or has been finished exactly once (acknowledged, or failed for the last
  time): nothing is lost and nothing is duplicated.
\<close>

theorem group_run_conserves:
  assumes "newGroup cfg = Ret g0" and "\<forall>rl. c_RateLimit cfg = Some rl \<longrightarrow> 0 < rl_Max rl"
    and "grun g0 tr g"
  shows "group_wf g \<and> int (length (g_processing g)) \<le> c_Parallelism (g_cfg g)
    \<and> sum_list (map entered tr) = live_ids g + sum_list (map finished tr)"
proof -
  have n: "group_ok g0" "live_ids g0 = {#}"
    using newGroup_wf [OF assms(1,2)] by (simp_all add: group_ok_def)
  from grun_pres [OF assms(3) n(1)] n(2) show ?thesis
    by (simp add: group_ok_def within_capacity_def)
qed

theorem group_run_conserves_witness:
  "\<exists>g2. grun demo_group [GEnqueue ''a'', GDispatch [lease demo_group 7 (demo_msg ''a'')]] g2
     \<and> group_wf g2 \<and> live_ids g2 = {# ''a'' #} \<and> length (g_processing g2) = 1"
proof -
  let ?g1 = "enqueue (demo_msg ''a'') demo_group" and ?m = "lease demo_group 7 (demo_msg ''a'')"
  let ?g2 = "demo_group\<lparr>g_processing := [(''a'', ?m)], g_ready := [None], g_readyHead := 1\<rparr>"
  have "gstep demo_group (GEnqueue (m_ID (demo_msg ''a''))) ?g1"
    by (rule gs_enqueue) (simp add: demo_group_def live_ids_def urgentQ_def readyQ_def live_slots_def
        map_filter_simps)
  then have "grun demo_group ([] @ [GEnqueue ''a'']) ?g1"
    by (intro grun_snoc [OF grun_nil]) (simp add: demo_msg_def)
  moreover have "next_msg 7 ?g1 = (Ret (Some ?m), ?g2)" by code_simp
  then have "gstep ?g1 (GDispatch [?m]) ?g2" using gs_next [of 7 ?g1 "Some ?m"] by simp
  ultimately have run: "grun demo_group [GEnqueue ''a'', GDispatch [?m]] ?g2"
    using grun_snoc by fastforce
  then show ?thesis
    using group_run_conserves [OF demo_new demo_rate run]
    by (intro exI [of _ ?g2]) (auto simp: demo_group_def)
qed

text \<open>
  [C25] Bounded fair rounds.  A scheduling round of a group in a good state returns without panic;
  the batch has no message twice, every message of it is leased in the new state, it is no longer
  than the accumulated deficit plus one quantum, what is not used stays as deficit, and the round
  keeps the invariant, the parallelism cap and all messages.
\<close>

theorem drainRound_bounded:
  assumes "group_wf g" and "within_capacity g" and "0 \<le> g_deficit g" and "is_range_order it"
    and "drainRound it now g = (r, g')"
  shows "\<exists>b wakeAt hasWake still. r = Ret (b, wakeAt, hasWake, still)
    \<and> distinct (map m_ID (the_default [] b))
    \<and> (\<forall>m \<in> set (the_default [] b). gm_get (g_processing g') (m_ID m) = Some m)
    \<and> int (length (the_default [] b)) + g_deficit g' \<le> g_deficit g + max 1 (g_quantum g)
    \<and> group_wf g' \<and> within_capacity g' \<and> 0 \<le> g_deficit g' \<and> live_ids g' = live_ids g"
  using drainRound_pres [OF assms(1,3,4,5)] assms(2) by blast

lemma demo_ok: "group_wf demo_group" "within_capacity demo_group" "g_deficit demo_group = 0"
  "group_rep demo_group" "urgentQ demo_group = []" "readyQ demo_group = []" "live_ids demo_group = {#}"
  using newGroup_wf [OF demo_new demo_rate] by (auto simp: group_wf_def)

lemma demo_enqueued: "group_wf (enqueue (demo_msg ''a'') demo_group)"
  using group_wf_add [OF demo_ok(1)] enqueue_pres [OF demo_ok(4), of "demo_msg ''a''"] demo_ok(7)
  by simp

theorem drainRound_bounded_witness:
  "\<exists>b w h s g'. drainRound rev 7 (enqueue (demo_msg ''a'') demo_group) = (Ret (b, w, h, s), g')
     \<and> length (the_default [] b) = 1 \<and> group_wf g' \<and> g_deficit g' = 0"
proof -
  let ?g = "enqueue (demo_msg ''a'') demo_group"
  obtain r g' where r: "drainRound rev 7 ?g = (r, g')" by fastforce
  have "(case drainRound rev 7 ?g of (Ret (b, _), g') \<Rightarrow> length (the_default [] b) = 1 \<and> g_deficit g' = 0)"
    by code_simp
  moreover have "within_capacity ?g" "0 \<le> g_deficit ?g" by code_simp+
  ultimately show ?thesis
    using drainRound_bounded [OF demo_enqueued _ _ is_range_order_rev r] r by auto
qed

text \<open>
  [C24] Dispatch refines the abstract queue.  On every state that satisfies the representation
  invariant, \<open>nextDispatchable\<close> returns; when it stops for capacity or the rate limit it hands out
  nothing and changes no message, and otherwise its result and its effect are exactly those of the
  abstract step \<open>a_next\<close>: the oldest urgent message, else the oldest ready one, leased until
  \<open>now + LeaseTimeout\<close>, and none only when both queues are empty.  So urgent messages are handed out first
  in, first out, where the documentation of the queue says the opposite.
\<close>

theorem nextDispatchable_refines:
  assumes "group_rep g" and "nextDispatchable now g = (r, g')"
  shows "group_rep g' \<and> (\<exists>mo stop w. r = Ret (mo, stop, w) \<and>
     (if stop = dispatchStopEmpty
      then (mo, abs_group g') = a_next (c_LeaseTimeout (g_cfg g)) now (abs_group g)
      else mo = None \<and> abs_group g' = abs_group g))"
  by (rule nextDispatchable_abs [OF assms])

theorem nextDispatchable_refines_witness:
  "\<exists>g'. nextDispatchable 7 (enqueue (demo_msg ''a'') demo_group)
       = (Ret (Some (lease demo_group 7 (demo_msg ''a'')), dispatchStopEmpty, zeroTime), g')
     \<and> a_leased (abs_group g') ''a'' = Some (lease demo_group 7 (demo_msg ''a''))
     \<and> a_ready (abs_group g') = []"
proof -
  let ?g = "enqueue (demo_msg ''a'') demo_group" and ?m = "lease demo_group 7 (demo_msg ''a'')"
  let ?g' = "snd (nextDispatchable 7 ?g)"
  have nd: "nextDispatchable 7 ?g = (Ret (Some ?m, dispatchStopEmpty, zeroTime), ?g')" by code_simp
  have "group_rep ?g" using demo_enqueued by (simp add: group_wf_def)
  from nextDispatchable_refines [OF this nd]
  have "(Some ?m, abs_group ?g') = a_next (c_LeaseTimeout (g_cfg ?g)) 7 (abs_group ?g)" by auto
  moreover have "abs_group ?g = \<lparr>a_urgent = [], a_ready = [demo_msg ''a''], a_delayed = {#}, a_leased = Map.empty\<rparr>"
    using enqueue_pres [OF demo_ok(4), of "demo_msg ''a''"] demo_ok(5,6)
    by (simp add: abs_group_def) (simp add: enqueue_def demo_group_def)
  ultimately have "a_leased (abs_group ?g') ''a'' = Some ?m \<and> a_ready (abs_group ?g') = []"
    by (auto simp: a_next_def Let_def demo_msg_def)
  then show ?thesis using nd by blast
qed

text \<open>A client's calls on one group, without failures and expiries, and what they hand out.\<close>

datatype gcall = CallEnqueue message | CallNext gtime | CallComplete string

fun exec_calls :: "gcall list \<Rightarrow> group \<Rightarrow> message list outcome \<times> group" where
  "exec_calls [] g = (Ret [], g)"
| "exec_calls (CallEnqueue m # cs) g = exec_calls cs (enqueue m g)"
| "exec_calls (CallComplete i # cs) g = exec_calls cs (snd (complete i g))"
| "exec_calls (CallNext now # cs) g =
     (case next_msg now g of
        (Panic e, g) \<Rightarrow> (Panic e, g)
      | (Ret mo, g) \<Rightarrow>
          (case exec_calls cs g of
             (Panic e, g) \<Rightarrow> (Panic e, g)
           | (Ret ms, g) \<Rightarrow> (Ret ((case mo of None \<Rightarrow> [] | Some m \<Rightarrow> [m]) @ ms), g)))"

fun enqueued :: "gcall list \<Rightarrow> string list" where
  "enqueued [] = []"
| "enqueued (CallEnqueue m # cs) = m_ID m # enqueued cs"
| "enqueued (_ # cs) = enqueued cs"

lemma next_msg_fifo:
  assumes "group_rep g" and "urgentQ g = []"
  shows "\<exists>mo g'. next_msg now g = (Ret mo, g') \<and> group_rep g' \<and> urgentQ g' = []
    \<and> map m_ID (readyQ g) = (case mo of None \<Rightarrow> [] | Some m \<Rightarrow> [m_ID m]) @ map m_ID (readyQ g')"
proof -
  obtain r g' where nd: "nextDispatchable now g = (r, g')" by fastforce
  obtain mo stop w where r: "r = Ret (mo, stop, w)" and rep: "group_rep g'"
    and a: "if stop = dispatchStopEmpty
      then (mo, abs_group g') = a_next (c_LeaseTimeout (g_cfg g)) now (abs_group g)
      else mo = None \<and> abs_group g' = abs_group g"
    using nextDispatchable_abs [OF assms(1) nd] by auto
  have "urgentQ g' = [] \<and> map m_ID (readyQ g) = (case mo of None \<Rightarrow> [] | Some m \<Rightarrow> [m_ID m]) @ map m_ID (readyQ g')"
    using a assms(2) by (cases "readyQ g") (auto simp: a_next_def abs_group_def Let_def split: if_splits)
  then show ?thesis using rep by (simp add: next_msg_def nd r)
qed

lemma exec_calls_fifo:
  assumes "group_rep g" and "urgentQ g = []"
  shows "\<exists>ms g'. exec_calls cs g = (Ret ms, g')
    \<and> map m_ID ms @ map m_ID (readyQ g') = map m_ID (readyQ g) @ enqueued cs"
  using assms
proof (induction cs g rule: exec_calls.induct)
  case (2 m cs g)
  then show ?case using enqueue_pres [OF "2.prems"(1), of m] by auto
next
  case (3 i cs g)
  then show ?case using complete_pres [OF "3.prems"(1), of i "fst (complete i g)" "snd (complete i g)"] by auto
next
  case (4 now cs g)
  obtain mo g' where n: "next_msg now g = (Ret mo, g')" and g': "group_rep g'" "urgentQ g' = []"
    and q: "map m_ID (readyQ g) = (case mo of None \<Rightarrow> [] | Some m \<Rightarrow> [m_ID m]) @ map m_ID (readyQ g')"
    using next_msg_fifo [OF "4.prems"] by blast
  obtain ms g'' where ms: "exec_calls cs g' = (Ret ms, g'')"
    and e: "map m_ID ms @ map m_ID (readyQ g'') = map m_ID (readyQ g') @ enqueued cs"
    using "4.IH" [OF n [symmetric] refl g'] by blast
  then show ?case using n q by (cases mo) auto
qed simp

text \<open>
  FIFO.  As long as no message fails and no lease expires, the messages a fresh group hands
  out, in the order it hands them out, followed by those still ready, are the enqueued messages in
  the order in which they were enqueued, for any interleaving of publishing, dispatching and
  acknowledging.
\<close>

lemma group_fifo:
  assumes "newGroup cfg = Ret g0" and "\<forall>rl. c_RateLimit cfg = Some rl \<longrightarrow> 0 < rl_Max rl"
  shows "\<exists>ms g. exec_calls cs g0 = (Ret ms, g) \<and> map m_ID ms @ map m_ID (readyQ g) = enqueued cs"
  using exec_calls_fifo [of g0 cs] newGroup_wf [OF assms] by (auto simp: group_wf_def)

text \<open>
  Promotion and wake time.  Whatever order the processing map is visited in, \<open>promoteDelayed\<close>
  keeps every message; afterwards exactly the leases that have not expired remain, no delayed
  message is due, and the wake time returned is the earliest deadline the group still waits for,
  or the zero time when it waits for none.
\<close>

lemma promoteDelayed_wake:
  assumes "group_rep g" and "is_range_order it" and "promoteDelayed it now g = (g', w)"
    and "zeroTime \<notin> deadlines g'"
  shows "group_rep g' \<and> live_ids g' = live_ids g
    \<and> set (g_processing g') = {(i, m) \<in> set (g_processing g). now \<le> m_ScheduledAt m}
    \<and> (\<forall>m \<in> set (g_delayed g'). now < m_ScheduledAt m)
    \<and> w = (if deadlines g' = {} then zeroTime else Min (deadlines g'))"
  using promoteDelayed_full [OF assms(1-3)] assms(4) by auto

text \<open>One expired lease, one live lease, one retry that is due and one that is not.\<close>

definition demo_waiting :: group where
  "demo_waiting = demo_group\<lparr>
     g_processing := [(''a'', (demo_msg ''a'')\<lparr>m_ScheduledAt := 5\<rparr>), (''b'', (demo_msg ''b'')\<lparr>m_ScheduledAt := 40\<rparr>)],
     g_delayed := [(demo_msg ''c'')\<lparr>m_ScheduledAt := 6\<rparr>, (demo_msg ''d'')\<lparr>m_ScheduledAt := 30\<rparr>]\<rparr>"

lemma demo_waiting_rep: "group_rep demo_waiting"
  by (auto simp: group_rep_def demo_waiting_def demo_group_def demo_msg_def heap_from_def
      delayed_Less_def less_Suc_eq numeral_2_eq_2)

text \<open>
  Failure.  A negative acknowledgement of a leased message releases its lease; while attempts
  remain the message is kept, with its attempt counted, and waits in the delayed heap until
  \<open>now\<close> plus the backoff delay, and the delayed set is otherwise unchanged; at the last attempt it
  leaves the group, and is handed out for the dead-letter queue exactly when one is enabled.
\<close>

lemma fail_outcome:
  assumes "group_rep g" and "gm_get (g_processing g) i = Some m" and "fail i err now g = (r, g')"
  shows "group_rep g' \<and> g_processing g' = gm_del i (g_processing g)
    \<and> (if m_Attempts m + 1 < rt_MaxAttempts (c_Retry (g_cfg g))
       then r = None \<and> live_ids g' = live_ids g
         \<and> mset (g_delayed g') = add_mset
             (m\<lparr>m_LastError := err, m_Attempts := m_Attempts m + 1,
                m_ScheduledAt := now + retryDelay (c_Retry (g_cfg g)) (m_Attempts m + 1),
                m_State := StatePending\<rparr>) (mset (g_delayed g))
       else live_ids g = add_mset i (live_ids g') \<and> g_delayed g' = g_delayed g
         \<and> (r \<noteq> None \<longleftrightarrow> (\<exists>dlq. c_DLQ (g_cfg g) = Some dlq \<and> dlq_Enabled dlq)))"
  using fail_pres [OF assms] unfolding attempts_left_def retried_def by (simp split: if_splits)

section \<open>The retry delay\<close>

text \<open>
  Backoff.  With a positive initial delay, an attempt number that is not negative and a product
  that fits 63 bits, the retry delay is the documented one: exponential, linear or fixed, capped by
  \<open>MaxDelay\<close>; it never decreases from one attempt to the next and is never negative.
\<close>

lemma retryDelay_backoff:
  assumes "0 \<le> rt_InitialDelay r" and "0 \<le> rt_MaxDelay r" and "0 \<le> n"
    and "rt_InitialDelay r * 2 ^ nat (n + 1) < 2 ^ 63" and "n + 1 < 62"
    and "rt_InitialDelay r < 2 ^ 63"
  shows "retryDelay r n = min (rt_MaxDelay r)
      (if rt_Backoff r = ''exponential'' then rt_InitialDelay r * 2 ^ nat n
       else if rt_Backoff r = ''linear'' then rt_InitialDelay r * (n + 1) else rt_InitialDelay r)
    \<and> 0 \<le> retryDelay r n \<and> retryDelay r n \<le> retryDelay r (n + 1)"
proof -
  let ?b = "rt_InitialDelay r"
  have lin: "k + 1 \<le> 2 ^ nat k" if "0 \<le> k" for k :: int
    using that of_nat_mono [OF Suc_leI [OF less_exp [of "nat k"]], where ?'a = int] by simp
  have step: "(2 :: int) ^ nat (n + 1) = 2 * 2 ^ nat n" using assms(3) by (simp add: nat_add_distrib)
  have e: "to_i64 (2 ^ nat k) = 2 ^ nat k" if "k < 62" "0 \<le> k" for k
  proof -
    have "(2 :: int) ^ nat k < 2 ^ 62" using that by (intro power_strict_increasing) auto
    moreover have "x < 2 ^ 62 \<Longrightarrow> 0 < x \<Longrightarrow> to_i64 x = x" for x by (rule to_i64_id) simp_all
    ultimately show ?thesis by (meson zero_less_numeral zero_less_power)
  qed
  have up: "?b * x < 2 ^ 63" if "x \<le> 2 ^ nat (n + 1)" for x
    using mult_left_mono [OF that assms(1)] assms(4) by linarith
  have id: "to_i64 (?b * x) = ?b * x" if "0 \<le> x" "x \<le> 2 ^ nat (n + 1)" for x
    using up [OF that(2)] assms(1) that(1) by (intro to_i64_id) (auto intro: order_trans [of _ 0])
  have small: "(n + 1) + 1 \<le> 2 ^ nat (n + 1)"
    using lin [of "n + 1"] assms(3) by simp
  have nn: "to_i64 (n + 1) = n + 1" "to_i64 (n + 1 + 1) = n + 1 + 1"
    using assms(3,5) by (auto intro!: to_i64_id)
  have val: "retryDelay r k = min (rt_MaxDelay r)
      (if rt_Backoff r = ''exponential'' then ?b * 2 ^ nat k
       else if rt_Backoff r = ''linear'' then ?b * (k + 1) else ?b)" if k: "k = n \<or> k = n + 1" for k
  proof -
    have "2 ^ nat k \<le> (2 :: int) ^ nat (n + 1)" "k + 1 \<le> 2 ^ nat (n + 1)" "0 \<le> k + 1" "k < 62" "0 \<le> k"
      using k small assms(3,5) by (auto intro: power_increasing)
    then have "to_i64 (?b * to_i64 (2 ^ nat k)) = ?b * 2 ^ nat k" "to_i64 (?b * to_i64 (k + 1)) = ?b * (k + 1)"
      using id [of "2 ^ nat k"] id [of "k + 1"] e [of k] nn k by auto
    then show ?thesis by (simp add: retryDelay_def Let_def min_def)
  qed
  have "?b * 2 ^ nat n \<le> ?b * 2 ^ nat (n + 1)" "?b * (n + 1) \<le> ?b * (n + 1 + 1)"
    using assms(1) step by (auto intro: mult_left_mono)
  then show ?thesis using val [of n] val [of "n + 1"] assms(1-3) by (auto simp: min_def)
qed

text \<open>
  Beyond 63 bits the product wraps around: with a one second base and a ten second cap, attempt 34
  is scheduled in the past, so the cap does not hold and the message is retried at once.
\<close>

lemma retryDelay_overflow:
  "retryDelay \<lparr>rt_MaxAttempts = 100, rt_Backoff = ''exponential'', rt_InitialDelay = Second,
     rt_MaxDelay = 10 * Second\<rparr> 34 < 0"
  by code_simp

section \<open>Export and import\<close>

lemma live_slots_Some [simp]: "live_slots 0 (map Some xs) = xs"
  by (induction xs) (simp_all add: live_slots_def map_filter_simps)

lemma import_export_abs:
  assumes "group_rep g" and "\<forall>l. g_limiter g0 = Some l \<longrightarrow> lim_wf l"
  shows "abs_group (Group_ImportState (Group_ExportState g) g0) = abs_group g
    \<and> group_rep (Group_ImportState (Group_ExportState g) g0)"
proof -
  have "mset (heap_init delayed_Less (g_delayed g)) = mset (g_delayed g)"
    by (simp add: heap_init_contents)
  moreover have "heap_ok delayed_Less (heap_init delayed_Less (g_delayed g))"
    by (rule delayed_order.heap_init_ok)
  ultimately show ?thesis using assms
    by (auto simp: Group_ImportState_def Group_ExportState_def abs_group_def urgentQ_def readyQ_def
        group_rep_def)
qed

text \<open>
  Snapshot round trip.  Importing the exported state of a group into any other group
  reproduces its queues in order, its delayed messages and its leases: the abstract group is the
  same, whatever \<open>nil\<close> slots and consumed prefixes the exporting group had, and the imported group
  satisfies the representation invariant.
\<close>

lemma export_import:
  assumes "group_rep g" and "\<forall>l. g_limiter g0 = Some l \<longrightarrow> lim_wf l"
  shows "abs_group (Group_ImportState (Group_ExportState g) g0) = abs_group g
    \<and> group_rep (Group_ImportState (Group_ExportState g) g0)"
  by (rule import_export_abs [OF assms])

section \<open>Two corner cases\<close>

text \<open>
  The urgent queue must not hold \<open>nil\<close>: where a slot of it has been cleared, as the recovery
  operations do, the next dispatch panics.
\<close>

lemma urgent_nil_panics:
  assumes "g_urgentHead g < length (g_urgent g)" and "g_urgent g ! g_urgentHead g = None"
    and "int (length (g_processing g)) < c_Parallelism (g_cfg g)" and "g_limiter g = None"
  shows "\<exists>g'. nextDispatchable now g = (Panic ''nil pointer dereference'', g')"
  using assms by (simp add: nextDispatchable_def takeNext_def Let_def)

text \<open>
  A round that stops because its deficit is spent reports \<open>stillPending = False\<close> as soon as any lease
  is outstanding, although a message is ready and capacity is free: three slots, one lease until 99
  and two ready messages leave one of them ready, to be looked at again only at time 99.
\<close>

lemma drainRound_defers_ready:
  "case drainRound rev 7 (demo_group\<lparr>g_cfg := (defaultGroupConfig ''k'')\<lparr>c_Parallelism := 3\<rparr>,
       g_processing := [(''a'', (demo_msg ''a'')\<lparr>m_ScheduledAt := 99\<rparr>)],
       g_ready := [Some (demo_msg ''b''), Some (demo_msg ''c'')]\<rparr>) of
     (Ret (b, wakeAt, hasWake, stillPending), g') \<Rightarrow>
       wakeAt = 99 \<and> hasWake \<and> \<not> stillPending \<and> pendingCount g' = 1 \<and> length (g_processing g') = 2"
  by code_simp

end
