(* ===== verification/Key_Index.thy ===== *)
theory Key_Index
  imports Prelude "HOL-Library.Sublist"
begin

text \<open>
  The sorted index of group keys (\<open>groupKeyIndex\<close> in \<^verbatim>\<open>internal/queue/queue.go\<close>) and the binary
  search \<open>sort.SearchStrings\<close> it is built on.  Strings are compared bytewise, as in Go.
\<close>

section \<open>\<open>sort.SearchStrings\<close>\<close>

function searchLoop :: "string list \<Rightarrow> string \<Rightarrow> nat \<Rightarrow> nat \<Rightarrow> nat" where
  "searchLoop a x i j =
     (if i < j
      then let h = (i + j) div 2 in
           if a ! h < x then searchLoop a x (h + 1) j else searchLoop a x i h
      else i)"
  by pat_completeness auto
termination
  by (relation "measure (\<lambda>(a, x, i, j). j - i)") auto

declare searchLoop.simps [simp del]

definition SearchStrings :: "string list \<Rightarrow> string \<Rightarrow> nat" where
  "SearchStrings a x = searchLoop a x 0 (length a)"

lemma searchLoop_bounds:
  assumes "sorted a" and "i \<le> j" and "j \<le> length a"
    and "\<forall>k < i. a ! k < x" and "\<forall>k. j \<le> k \<and> k < length a \<longrightarrow> x \<le> a ! k"
  shows "let r = searchLoop a x i j in
    r \<le> length a \<and> (\<forall>k < r. a ! k < x) \<and> (\<forall>k. r \<le> k \<and> k < length a \<longrightarrow> x \<le> a ! k)"
  using assms
proof (induction a x i j rule: searchLoop.induct)
  case (1 a x i j)
  show ?case
  proof (cases "i < j")
    case False
    then have "searchLoop a x i j = i" by (subst searchLoop.simps) simp
    then show ?thesis using False "1.prems" by (simp add: Let_def)
  next
    case True
    define h where "h = (i + j) div 2"
    have h: "i \<le> h" "h < j" using True by (auto simp: h_def)
    show ?thesis
    proof (cases "a ! h < x")
      case less: True
      have "\<forall>k < h + 1. a ! k < x"
        using less "1.prems"(1,3) h sorted_nth_mono [OF "1.prems"(1)] by (metis dual_order.strict_trans1
            less_Suc_eq_le Suc_eq_plus1 le_less_trans less_le_trans)
      then show ?thesis using "1.IH"(1) [OF True h_def less] "1.prems" True less h
        by (simp add: searchLoop.simps [of a x i j] Let_def h_def [symmetric])
    next
      case ge: False
      have "\<forall>k. h \<le> k \<and> k < length a \<longrightarrow> x \<le> a ! k"
        using ge sorted_nth_mono [OF "1.prems"(1)] by (meson not_less order_trans)
      then show ?thesis using "1.IH"(2) [OF True h_def ge] "1.prems" True ge h
        by (simp add: searchLoop.simps [of a x i j] Let_def h_def [symmetric])
    qed
  qed
qed

text \<open>On a sorted slice the search returns the position of the first element not below \<open>x\<close>.\<close>

lemma SearchStrings_spec:
  assumes "sorted a"
  shows "SearchStrings a x \<le> length a" "\<forall>y \<in> set (take (SearchStrings a x) a). y < x"
    "\<forall>y \<in> set (drop (SearchStrings a x) a). x \<le> y"
proof -
  let ?r = "SearchStrings a x"
  have r: "?r \<le> length a" "\<forall>k < ?r. a ! k < x" "\<forall>k. ?r \<le> k \<and> k < length a \<longrightarrow> x \<le> a ! k"
    using searchLoop_bounds [OF assms, of 0 "length a" x] unfolding SearchStrings_def Let_def
    by (meson le_less_trans less_irrefl not_less_zero le_refl zero_le)+
  show "?r \<le> length a" by (rule r(1))
  show "\<forall>y \<in> set (take ?r a). y < x" using r(1,2) by (auto simp: in_set_conv_nth)
  show "\<forall>y \<in> set (drop ?r a). x \<le> y" using r(1,3) by (auto simp: in_set_conv_nth)
qed

section \<open>The index\<close>

record groupKeyIndex =
  idx_keys :: "string list"

text \<open>\<open>append\<close>, the overlapping \<open>copy\<close> and the assignment insert the key at position \<open>i\<close>.\<close>

definition idx_add :: "string \<Rightarrow> groupKeyIndex \<Rightarrow> groupKeyIndex" where
  "idx_add key idx =
     (let ks = idx_keys idx; i = SearchStrings ks key in
      if i < length ks \<and> ks ! i = key then idx
      else idx\<lparr>idx_keys := take i ks @ [key] @ drop i ks\<rparr>)"

definition idx_page :: "groupKeyIndex \<Rightarrow> string \<Rightarrow> int \<Rightarrow> string list \<times> string" where
  "idx_page idx after limit =
     (let ks = idx_keys idx;
          start = (if after \<noteq> []
                   then let i = SearchStrings ks after
                        in if i < length ks \<and> ks ! i = after then i + 1 else i
                   else 0);
          end = min (int start + limit) (int (length ks))
      in if int start \<ge> end then ([], [])
         else (take (nat end - start) (drop start ks),
               if end < int (length ks) then ks ! (nat end - 1) else []))"

definition idx_count :: "groupKeyIndex \<Rightarrow> nat" where
  "idx_count idx = length (idx_keys idx)"

text \<open>Strictly increasing keys: sorted and without duplicates.\<close>

definition idx_wf :: "groupKeyIndex \<Rightarrow> bool" where
  "idx_wf idx = sorted_wrt (<) (idx_keys idx)"

lemma idx_wf_sorted: "idx_wf idx \<Longrightarrow> sorted (idx_keys idx)" "idx_wf idx \<Longrightarrow> distinct (idx_keys idx)"
  by (simp_all add: idx_wf_def strict_sorted_iff)

lemma idx_add_spec:
  assumes "idx_wf idx"
  shows "idx_wf (idx_add key idx) \<and> set (idx_keys (idx_add key idx)) = insert key (set (idx_keys idx))"
proof -
  define ks where "ks = idx_keys idx"
  define i where "i = SearchStrings ks key"
  have s: "sorted ks" "sorted_wrt (<) ks" using assms idx_wf_sorted by (auto simp: ks_def idx_wf_def)
  note sp = SearchStrings_spec [OF s(1), of key, folded i_def]
  have split: "ks = take i ks @ drop i ks" by simp
  show ?thesis
  proof (cases "i < length ks \<and> ks ! i = key")
    case True
    then show ?thesis using assms by (auto simp: idx_add_def Let_def ks_def i_def in_set_conv_nth)
  next
    case False
    have "key \<notin> set (drop i ks)"
    proof
      assume "key \<in> set (drop i ks)"
      then obtain y ys where d: "drop i ks = y # ys" by (cases "drop i ks") auto
      have lt: "i < length ks" using d by (metis drop_all not_less list.distinct(1))
      have y: "y = ks ! i" using d lt by (metis Cons_nth_drop_Suc list.inject)
      have "sorted (y # ys)" using s(1) d by (metis sorted_wrt_drop)
      then have "y \<le> key" using \<open>key \<in> set (drop i ks)\<close> d by auto
      moreover have "key \<le> y" using sp(3) d by auto
      ultimately show False using False y lt by simp
    qed
    then have "\<forall>y \<in> set (drop i ks). key < y" using sp(3) by (metis le_neq_trans)
    moreover have "sorted_wrt (<) (take i ks @ drop i ks)" using s(2) by simp
    ultimately have "sorted_wrt (<) (take i ks @ [key] @ drop i ks)"
      using sp(2) by (auto simp: sorted_wrt_append simp del: append_take_drop_id)
    moreover have "set (take i ks @ [key] @ drop i ks) = insert key (set ks)"
      by (subst (3) split) (simp del: append_take_drop_id add: set_append)
    moreover have "idx_add key idx = idx\<lparr>idx_keys := take i ks @ [key] @ drop i ks\<rparr>"
      using False unfolding idx_add_def Let_def ks_def i_def by (rule if_not_P)
    ultimately show ?thesis by (simp add: idx_wf_def ks_def)
  qed
qed

section \<open>Pagination\<close>

text \<open>The keys a page after the given cursor is cut from.\<close>

definition remaining :: "groupKeyIndex \<Rightarrow> string \<Rightarrow> string list" where
  "remaining idx after =
     (if after = [] then idx_keys idx else filter (\<lambda>k. after < k) (idx_keys idx))"

lemma filter_above:
  assumes "sorted_wrt (<) ks" and "i \<le> length ks" and "\<forall>y \<in> set (take i ks). y \<le> x"
    and "\<forall>y \<in> set (drop i ks). x < (y :: string)"
  shows "filter (\<lambda>k. x < k) ks = drop i ks"
proof -
  have "filter (\<lambda>k. x < k) (take i ks @ drop i ks) = drop i ks"
    using assms(3,4) unfolding filter_append
    by (simp add: filter_empty_conv filter_id_conv leD)
  then show ?thesis by simp
qed

lemma page_start:
  assumes "idx_wf idx" and "after \<noteq> []"
  shows "drop (let i = SearchStrings (idx_keys idx) after
               in if i < length (idx_keys idx) \<and> idx_keys idx ! i = after then i + 1 else i) (idx_keys idx)
         = remaining idx after"
proof -
  define ks where "ks = idx_keys idx"
  define i where "i = SearchStrings ks after"
  have s: "sorted ks" "sorted_wrt (<) ks" using assms idx_wf_sorted by (auto simp: ks_def idx_wf_def)
  note sp = SearchStrings_spec [OF s(1), of after, folded i_def]
  have hit: "filter (\<lambda>k. after < k) ks = drop (i + 1) ks" if "i < length ks" "ks ! i = after"
  proof (rule filter_above [OF s(2)])
    show "\<forall>y \<in> set (take (i + 1) ks). y \<le> after"
      using sp(2) that by (auto simp: take_Suc_conv_app_nth intro: less_imp_le)
    have "sorted_wrt (<) (ks ! i # drop (i + 1) ks)"
      using s(2) that(1) by (metis Cons_nth_drop_Suc Suc_eq_plus1 sorted_wrt_drop)
    then show "\<forall>y \<in> set (drop (i + 1) ks). after < y" using that(2) by simp
  qed (use that in simp)
  have miss: "filter (\<lambda>k. after < k) ks = drop i ks" if no: "\<not> (i < length ks \<and> ks ! i = after)"
  proof (rule filter_above [OF s(2) sp(1)])
    show "\<forall>y \<in> set (take i ks). y \<le> after" using sp(2) by (auto intro: less_imp_le)
    have "after \<notin> set (drop i ks)"
    proof
      assume a: "after \<in> set (drop i ks)"
      then have lt: "i < length ks" by (metis drop_all not_less empty_iff list.set(1))
      then have "ks ! i \<le> after"
        using a s(1) by (metis Cons_nth_drop_Suc set_ConsD sorted_simps(2) sorted_wrt_drop order_refl)
      moreover have "after \<le> ks ! i" using sp(3) lt by (metis Cons_nth_drop_Suc list.set_intros(1))
      ultimately show False using no lt by simp
    qed
    then show "\<forall>y \<in> set (drop i ks). after < y" using sp(3) by (metis le_neq_trans)
  qed
  show ?thesis using assms(2) hit miss by (simp add: remaining_def Let_def ks_def i_def)
qed

lemma idx_page_eq:
  assumes "idx_wf idx" and "0 < limit"
  shows "idx_page idx after limit =
    (let r = remaining idx after; n = nat limit in
     (take n r, if n < length r then r ! (n - 1) else []))"
proof -
  define ks where "ks = idx_keys idx"
  define start where "start = (if after \<noteq> [] then let i = SearchStrings ks after
      in if i < length ks \<and> ks ! i = after then i + 1 else i else 0)"
  have r: "remaining idx after = drop start ks"
    using page_start [OF assms(1), of after] by (auto simp: start_def ks_def remaining_def)
  have pg: "idx_page idx after limit =
    (let end = min (int start + limit) (int (length ks)) in
     if int start \<ge> end then ([], [])
     else (take (nat end - start) (drop start ks), if end < int (length ks) then ks ! (nat end - 1) else []))"
    by (simp add: idx_page_def Let_def start_def ks_def)
  show ?thesis
  proof (cases "int start + limit < int (length ks)")
    case True
    obtain m where m: "limit = int (Suc m)" using assms(2) by (metis gr0_implies_Suc pos_int_cases)
    have n: "nat (int start + limit) = Suc (start + m)" "nat limit = Suc m" by (simp_all add: m)
    have "Suc m < length (drop start ks)" "\<not> int start \<ge> int start + limit"
      using True m by auto
    then show ?thesis using True n by (simp add: pg r Let_def min_def)
  next
    case False
    then show ?thesis using assms(2) by (auto simp: pg r Let_def min_def)
  qed
qed

text \<open>Following the cursors from page to page; \<open>None\<close> when the fuel runs out.\<close>

fun pages :: "nat \<Rightarrow> groupKeyIndex \<Rightarrow> string \<Rightarrow> int \<Rightarrow> string list option" where
  "pages 0 idx after limit = None"
| "pages (Suc n) idx after limit =
     (let (ks, nextCursor) = idx_page idx after limit in
      if nextCursor = [] then Some ks
      else case pages n idx nextCursor limit of None \<Rightarrow> None | Some ks' \<Rightarrow> Some (ks @ ks'))"

lemma remaining_drop:
  assumes "idx_wf idx" and "remaining idx after ! (n - 1) \<noteq> []" and "0 < n" and "n < length (remaining idx after)"
  shows "remaining idx (remaining idx after ! (n - 1)) = drop n (remaining idx after)"
proof -
  let ?r = "remaining idx after" and ?x = "remaining idx after ! (n - 1)"
  have sr: "sorted_wrt (<) ?r" using assms(1) by (simp add: remaining_def idx_wf_def sorted_wrt_filter)
  have x: "?x \<in> set ?r" using assms(4) by simp
  have above: "filter (\<lambda>k. ?x < k) ?r = drop n ?r"
  proof (rule filter_above [OF sr])
    show "\<forall>y \<in> set (take n ?r). y \<le> ?x"
    proof
      fix y assume "y \<in> set (take n ?r)"
      then obtain k where k: "k < n" "y = ?r ! k" using assms(4) by (auto simp: in_set_conv_nth)
      then consider "k = n - 1" | "k < n - 1" by linarith
      then show "y \<le> ?x"
      proof cases
        case 2
        then show ?thesis using sr k(2) assms(4) by (auto simp: sorted_wrt_iff_nth_less intro: less_imp_le)
      qed (simp add: k)
    qed
    show "\<forall>y \<in> set (drop n ?r). ?x < y"
      using assms(3,4) sr by (auto simp: in_set_conv_nth sorted_wrt_iff_nth_less)
  qed (use assms(4) in simp)
  have "filter (\<lambda>k. ?x < k) ?r = filter (\<lambda>k. ?x < k) (idx_keys idx)"
  proof (cases "after = []")
    case False
    then have "after < ?x" using x by (simp add: remaining_def)
    then show ?thesis using False
      by (auto simp: remaining_def intro!: filter_cong intro: less_trans)
  qed (simp add: remaining_def)
  then show ?thesis using above assms(2) by (simp add: remaining_def)
qed

lemma remaining_next:
  assumes "idx_wf idx" and "[] \<notin> set (idx_keys idx)" and "0 < n" and "n < length (remaining idx after)"
  shows "remaining idx (remaining idx after ! (n - 1)) = drop n (remaining idx after)
    \<and> remaining idx after ! (n - 1) \<noteq> []"
proof -
  have "set (remaining idx after) \<subseteq> set (idx_keys idx)" by (auto simp: remaining_def)
  moreover have "remaining idx after ! (n - 1) \<in> set (remaining idx after)" using assms(4) by simp
  ultimately have "remaining idx after ! (n - 1) \<noteq> []" using assms(2) by force
  then show ?thesis using remaining_drop [OF assms(1) _ assms(3,4)] by simp
qed

lemma pages_remaining:
  assumes "idx_wf idx" and "[] \<notin> set (idx_keys idx)" and "0 < limit"
  shows "length (remaining idx after) < n \<Longrightarrow> pages n idx after limit = Some (remaining idx after)"
proof (induction n arbitrary: after)
  case (Suc n)
  let ?r = "remaining idx after" and ?k = "nat limit"
  show ?case
  proof (cases "?k < length ?r")
    case True
    have k: "0 < ?k" using assms(3) by simp
    note nx = remaining_next [OF assms(1,2) k True]
    have "length (remaining idx (?r ! (?k - 1))) < n" using nx Suc.prems True k by simp
    note IH = Suc.IH [OF this]
    show ?thesis using IH nx True by (simp add: idx_page_eq [OF assms(1,3)] Let_def)
  next
    case False
    then show ?thesis by (simp add: idx_page_eq [OF assms(1,3)] Let_def)
  qed
qed simp

section \<open>Properties\<close>

text \<open>
  The key index.  Inserting keys in any order, with any repetitions, into an empty index gives
  the strictly increasing list of exactly those keys.
\<close>

lemma idx_add_sorted:
  "idx_keys (fold idx_add ks \<lparr>idx_keys = []\<rparr>) = sorted_list_of_set (set ks)"
proof -
  have "idx_wf idx \<Longrightarrow> idx_wf (fold idx_add ks idx)
      \<and> set (idx_keys (fold idx_add ks idx)) = set (idx_keys idx) \<union> set ks" for idx
    by (induction ks arbitrary: idx) (use idx_add_spec in auto)
  from this [of "\<lparr>idx_keys = []\<rparr>"] show ?thesis
    by (simp add: idx_wf_def strict_sorted_equal)
qed

text \<open>
  [C34] Pagination.  When no key is the empty string, following the cursors from the empty one, with
  any positive page size, visits every key of the index exactly once and in order, and ends.
\<close>

theorem pages_complete:
  assumes "idx_wf idx" and "[] \<notin> set (idx_keys idx)" and "0 < limit"
  shows "pages (Suc (length (idx_keys idx))) idx [] limit = Some (idx_keys idx)"
  using pages_remaining [OF assms, of "[]" "Suc (length (idx_keys idx))"]
  by (simp add: remaining_def del: pages.simps)

theorem pages_complete_witness:
  "pages 4 \<lparr>idx_keys = [''a'', ''b'', ''c'']\<rparr> [] 2 = Some [''a'', ''b'', ''c'']
   \<and> idx_page \<lparr>idx_keys = [''a'', ''b'', ''c'']\<rparr> [] 2 = ([''a'', ''b''], ''b'')"
proof -
  let ?idx = "\<lparr>idx_keys = [''a'', ''b'', ''c'']\<rparr>"
  have "idx_wf ?idx" by code_simp
  moreover have "idx_page ?idx [] 2 = ([''a'', ''b''], ''b'')" by code_simp
  ultimately show ?thesis using pages_complete [of ?idx 2] by (simp add: numeral_eq_Suc)
qed

text \<open>The empty key cannot serve as a cursor: a page that ends with it looks like the last one.\<close>

lemma pages_empty_key: "pages 9 \<lparr>idx_keys = [[], ''b'']\<rparr> [] 1 = Some [[]]"
  by code_simp

end
