(* ===== verification/Go_Path.thy ===== *)
theory Go_Path
  imports Prelude
begin

text \<open>
  Go's \<open>path.Match\<close> and the rune decoder it uses, as the group configuration relies on them
  (\<open>GroupConfig.Matches\<close>).  \<open>None\<close> is \<open>ErrBadPattern\<close>.  The lemmas at the end say what the patterns
  the configuration is meant for match: a fixed key, and a prefix followed by a star.
\<close>

section \<open>Decoding one rune\<close>

definition RuneError :: int where
  "RuneError = 0xFFFD"

definition cont_byte :: "int \<Rightarrow> int \<Rightarrow> char \<Rightarrow> bool" where
  "cont_byte lo hi c = (lo \<le> of_char c \<and> of_char c \<le> hi)"

text \<open>The payload of the leading byte, the range its second byte must lie in and the size.\<close>

definition rune_lead :: "int \<Rightarrow> (int \<times> int \<times> int \<times> nat) option" where
  "rune_lead b =
     (if 0xC2 \<le> b \<and> b \<le> 0xDF then Some (b - 0xC0, 0x80, 0xBF, 2)
      else if b = 0xE0 then Some (0, 0xA0, 0xBF, 3)
      else if b = 0xED then Some (0xD, 0x80, 0x9F, 3)
      else if 0xE1 \<le> b \<and> b \<le> 0xEF then Some (b - 0xE0, 0x80, 0xBF, 3)
      else if b = 0xF0 then Some (0, 0x90, 0xBF, 4)
      else if 0xF1 \<le> b \<and> b \<le> 0xF3 then Some (b - 0xF0, 0x80, 0xBF, 4)
      else if b = 0xF4 then Some (4, 0x80, 0x8F, 4)
      else None)"

definition DecodeRuneInString :: "string \<Rightarrow> int \<times> nat" where
  "DecodeRuneInString s =
     (case s of
        [] \<Rightarrow> (RuneError, 0)
      | c # cs \<Rightarrow>
          if of_char c < (0x80 :: int) then (of_char c, 1)
          else (case rune_lead (of_char c) of
                  None \<Rightarrow> (RuneError, 1)
                | Some (p, lo, hi, n) \<Rightarrow>
                    if length s < n \<or> \<not> cont_byte lo hi (cs ! 0)
                       \<or> \<not> list_all (cont_byte 0x80 0xBF) (take (n - 2) (drop 1 cs))
                    then (RuneError, 1)
                    else (fold (\<lambda>c r. r * 64 + (of_char c - 0x80)) (take (n - 1) cs) p, n)))"

section \<open>Pattern matching\<close>

fun skipStars :: "string \<Rightarrow> bool \<times> string" where
  "skipStars [] = (False, [])"
| "skipStars (c # cs) = (if c = CHR ''*'' then (True, snd (skipStars cs)) else (False, c # cs))"

text \<open>The index at which the loop labelled \<open>Scan\<close> stops.\<close>

fun scanEnd :: "bool \<Rightarrow> string \<Rightarrow> nat" where
  "scanEnd inrange [] = 0"
| "scanEnd inrange [c] =
     (if c = CHR ''*'' \<and> \<not> inrange then 0 else 1)"
| "scanEnd inrange (c # d # cs) =
     (if c = CHR 0x5C then 2 + scanEnd inrange cs
      else if c = CHR ''['' then Suc (scanEnd True (d # cs))
      else if c = CHR '']'' then Suc (scanEnd False (d # cs))
      else if c = CHR ''*'' \<and> \<not> inrange then 0
      else Suc (scanEnd inrange (d # cs)))"

definition scanChunk :: "string \<Rightarrow> bool \<times> string \<times> string" where
  "scanChunk pattern =
     (let (star, p) = skipStars pattern; i = scanEnd False p in (star, take i p, drop i p))"

text \<open>One bound of a range in a character class.\<close>

definition getEsc :: "string \<Rightarrow> (int \<times> string) option" where
  "getEsc chunk =
     (if chunk = [] \<or> hd chunk = CHR ''-'' \<or> hd chunk = CHR '']'' then None
      else let chunk = (if hd chunk = CHR 0x5C then tl chunk else chunk) in
        if chunk = [] then None
        else let (r, n) = DecodeRuneInString chunk; rest = drop n chunk in
          if r = RuneError \<and> n = 1 then None else if rest = [] then None else Some (r, rest))"

lemma Decode_pos: "s \<noteq> [] \<Longrightarrow> 1 \<le> snd (DecodeRuneInString s)"
  by (auto simp: DecodeRuneInString_def rune_lead_def split: list.splits if_splits option.splits)

lemma getEsc_shorter: "getEsc chunk = Some (r, rest) \<Longrightarrow> length rest < length chunk"
  using Decode_pos [of chunk] Decode_pos [of "tl chunk"]
  by (auto simp: getEsc_def Let_def split: if_splits prod.splits)

text \<open>The loop over the ranges of a class, up to its closing bracket.\<close>

function classLoop :: "int \<Rightarrow> string \<Rightarrow> bool \<Rightarrow> nat \<Rightarrow> (bool \<times> string) option" where
  "classLoop r chunk matched nrange =
     (if chunk \<noteq> [] \<and> hd chunk = CHR '']'' \<and> nrange > 0 then Some (matched, tl chunk)
      else case getEsc chunk of
             None \<Rightarrow> None
           | Some (lo, chunk1) \<Rightarrow>
               if hd chunk1 = CHR ''-''
               then (case getEsc (tl chunk1) of
                       None \<Rightarrow> None
                     | Some (hi, chunk2) \<Rightarrow>
                         classLoop r chunk2 (matched \<or> lo \<le> r \<and> r \<le> hi) (Suc nrange))
               else classLoop r chunk1 (matched \<or> lo \<le> r \<and> r \<le> lo) (Suc nrange))"
  by pat_completeness auto
termination
proof (relation "measure (\<lambda>(r, chunk, matched, nrange). length chunk)", goal_cases)
  case 1
  then show ?case by simp
next
  case (2 r chunk matched nrange x2 lo chunk1 x2a hi chunk2)
  then show ?case
    using getEsc_shorter [of chunk lo chunk1] getEsc_shorter [of "tl chunk1" hi chunk2] by simp
next
  case (3 r chunk matched nrange x2 lo chunk1)
  then show ?case using getEsc_shorter [of chunk lo chunk1] by simp
qed

declare classLoop.simps [simp del]

lemma classLoop_length: "classLoop r chunk m n = Some (m', rest) \<Longrightarrow> length rest \<le> length chunk"
proof (induction r chunk m n rule: classLoop.induct)
  case (1 r chunk m n)
  show ?case
  proof (cases "chunk \<noteq> [] \<and> hd chunk = CHR '']'' \<and> n > 0")
    case True
    then show ?thesis using "1.prems" by (auto simp: classLoop.simps [of r chunk])
  next
    case False
    obtain lo c1 where c1: "getEsc chunk = Some (lo, c1)"
      using "1.prems" False by (auto simp: classLoop.simps [of r chunk] split: option.splits)
    note IH = "1.IH" [OF False c1 refl]
    show ?thesis
    proof (cases "hd c1 = CHR ''-''")
      case True
      then obtain hi c2 where c2: "getEsc (tl c1) = Some (hi, c2)"
        using "1.prems" False c1 by (auto simp: classLoop.simps [of r chunk] split: option.splits)
      show ?thesis
        using IH(1) [OF True c2 refl] "1.prems" False c1 c2 True
          getEsc_shorter [OF c1] getEsc_shorter [OF c2]
        by (simp add: classLoop.simps [of r chunk])
    next
      case no: False
      then show ?thesis using IH(2) "1.prems" False c1 getEsc_shorter [OF c1]
        by (simp add: classLoop.simps [of r chunk])
    qed
  qed
qed

text \<open>
  \<open>matchChunk\<close> with its variable \<open>failed\<close> as an argument: after a mismatch the chunk is still
  checked for syntax.  The result is the rest of \<open>s\<close>, or none for a mismatch.
\<close>

function matchChunk :: "string \<Rightarrow> string \<Rightarrow> bool \<Rightarrow> string option option" where
  "matchChunk chunk s failed0 =
     (case chunk of
        [] \<Rightarrow> Some (if failed0 then None else Some s)
      | c # cs \<Rightarrow>
          let failed = (failed0 \<or> s = []) in
          if c = CHR ''['' then
            (let (r, n) = (if failed then (0, 0) else DecodeRuneInString s);
                 (negated, body) = (case cs of
                     d # ds \<Rightarrow> if d = CHR ''^'' then (True, ds) else (False, cs)
                   | [] \<Rightarrow> (False, cs))
             in case classLoop r body False 0 of
                  None \<Rightarrow> None
                | Some (matched, rest) \<Rightarrow> matchChunk rest (drop n s) (failed \<or> matched = negated))
          else if c = CHR ''?'' then
            (if failed then matchChunk cs s True
             else matchChunk cs (drop (snd (DecodeRuneInString s)) s) (hd s = CHR ''/''))
          else if c = CHR 0x5C then
            (case cs of
               [] \<Rightarrow> None
             | d # ds \<Rightarrow> if failed then matchChunk ds s True else matchChunk ds (tl s) (d \<noteq> hd s))
          else if failed then matchChunk cs s True else matchChunk cs (tl s) (c \<noteq> hd s))"
  by pat_completeness auto
termination
  by (relation "measure (\<lambda>(chunk, s, failed). length chunk)")
    (auto dest!: classLoop_length split: list.splits if_splits)

declare matchChunk.simps [simp del]

text \<open>The loop that skips \<open>i + 1\<close> bytes of the name after a star.\<close>

fun starLoop :: "string \<Rightarrow> bool \<Rightarrow> string \<Rightarrow> string option option" where
  "starLoop chunk lastc [] = Some None"
| "starLoop chunk lastc (c # cs) =
     (if c = CHR ''/'' then Some None
      else case matchChunk chunk cs False of
             None \<Rightarrow> None
           | Some (Some t) \<Rightarrow> if lastc \<and> t \<noteq> [] then starLoop chunk lastc cs else Some (Some t)
           | Some None \<Rightarrow> starLoop chunk lastc cs)"

lemma skipStars_length: "length (snd (skipStars p)) \<le> length p"
  by (induction p) auto

lemma skipStars_False: "\<not> fst (skipStars p) \<Longrightarrow> snd (skipStars p) = p \<and> (p = [] \<or> hd p \<noteq> CHR ''*'')"
  by (cases p) (auto split: if_splits)

lemma skipStars_True: "fst (skipStars p) \<Longrightarrow> length (snd (skipStars p)) < length p"
  using skipStars_length [of "tl p"] by (cases p) (auto split: if_splits)

lemma scanChunk_shorter:
  assumes "pattern \<noteq> []" and "scanChunk pattern = (star, chunk, rest)"
  shows "length rest < length pattern"
proof (cases "fst (skipStars pattern)")
  case True
  then show ?thesis using skipStars_True [of pattern] assms(2)
    by (auto simp: scanChunk_def Let_def split: prod.splits)
next
  case False
  obtain c cs where p: "pattern = c # cs" using assms(1) by (cases pattern) auto
  have c: "c \<noteq> CHR ''*''" and s: "skipStars pattern = (False, pattern)"
    using False skipStars_False [OF False] p by (auto split: if_splits)
  have "0 < scanEnd False pattern" using c p by (cases cs) auto
  then show ?thesis using assms s by (auto simp: scanChunk_def Let_def)
qed

lemmas scanChunk_shorter_sym = scanChunk_shorter [OF _ sym]

text \<open>The final check that the remainder of the pattern is well formed.\<close>

function checkRest :: "string \<Rightarrow> bool option" where
  "checkRest pattern =
     (if pattern = [] then Some False
      else let (star, chunk, rest) = scanChunk pattern in
           case matchChunk chunk [] False of None \<Rightarrow> None | Some _ \<Rightarrow> checkRest rest)"
  by pat_completeness auto
termination
  by (relation "measure length") (auto dest: scanChunk_shorter_sym)

declare checkRest.simps [simp del]

function pathMatch :: "string \<Rightarrow> string \<Rightarrow> bool option" where
  "pathMatch pattern name =
     (if pattern = [] then Some (name = [])
      else let (star, chunk, rest) = scanChunk pattern in
        if star \<and> chunk = [] then Some (CHR ''/'' \<notin> set name)
        else case matchChunk chunk name False of
               None \<Rightarrow> None
             | Some (Some t) \<Rightarrow>
                 if t = [] \<or> rest \<noteq> [] then pathMatch rest t
                 else if star then (case starLoop chunk (rest = []) name of
                                      None \<Rightarrow> None
                                    | Some (Some t) \<Rightarrow> pathMatch rest t
                                    | Some None \<Rightarrow> checkRest rest)
                 else checkRest rest
             | Some None \<Rightarrow>
                 if star then (case starLoop chunk (rest = []) name of
                                 None \<Rightarrow> None
                               | Some (Some t) \<Rightarrow> pathMatch rest t
                               | Some None \<Rightarrow> checkRest rest)
                 else checkRest rest)"
  by pat_completeness auto
termination
  by (relation "measure (\<lambda>(pattern, name). length pattern)") (auto dest: scanChunk_shorter_sym)

declare pathMatch.simps [simp del]

section \<open>Keys and prefixes\<close>

text \<open>A string without the four characters that mean something in a pattern.\<close>

definition plain :: "string \<Rightarrow> bool" where
  "plain p = (set p \<inter> {CHR ''*'', CHR ''?'', CHR ''['', CHR 0x5C} = {})"

lemma scanEnd_plain: "plain p \<Longrightarrow> scanEnd False p = length p"
proof (induction p)
  case (Cons c p)
  then show ?case by (cases p) (auto simp: plain_def)
qed simp

lemma scanEnd_plain_star: "plain p \<Longrightarrow> scanEnd False (p @ ''*'') = length p"
proof (induction p)
  case (Cons c p)
  then show ?case by (cases p) (auto simp: plain_def)
qed simp

lemma skipStars_plain: "plain p \<Longrightarrow> p \<noteq> [] \<Longrightarrow> skipStars (p @ q) = (False, p @ q)"
  by (cases p) (auto simp: plain_def)

lemma matchChunk_failed: "plain p \<Longrightarrow> matchChunk p s True = Some None"
  by (induction p arbitrary: s) (subst matchChunk.simps; auto simp: plain_def)+

lemma matchChunk_plain:
  "plain p \<Longrightarrow> matchChunk p s False =
     Some (if take (length p) s = p then Some (drop (length p) s) else None)"
proof (induction p arbitrary: s)
  case Nil
  then show ?case by (subst matchChunk.simps) simp
next
  case (Cons c p)
  have c: "c \<notin> {CHR ''*'', CHR ''?'', CHR ''['', CHR 0x5C}" and p: "plain p"
    using Cons.prems by (auto simp: plain_def)
  show ?case
    using Cons.IH [OF p] c matchChunk_failed [OF p] 
    by (cases s; cases "hd s = c") (auto simp: matchChunk.simps [of "c # p"])
qed

lemma pathMatch_plain:
  assumes "plain p"
  shows "pathMatch p name = Some (name = p)"
proof (cases "p = []")
  case True
  then show ?thesis by (simp add: pathMatch.simps)
next
  case False
  have sc: "scanChunk p = (False, p, [])"
    using skipStars_plain [OF assms False, of "[]"] scanEnd_plain [OF assms] by (simp add: scanChunk_def)
  have nil: "pathMatch [] t = Some (t = [])" "checkRest [] = Some False" for t
    by (simp_all add: pathMatch.simps checkRest.simps)
  have "take (length p) name = p \<and> drop (length p) name = [] \<longleftrightarrow> name = p"
    by (metis append_Nil2 append_take_drop_id order_refl take_all drop_all)
  then show ?thesis using False
    by (auto simp: pathMatch.simps [of p] sc matchChunk_plain [OF assms] nil)
qed

lemma pathMatch_prefix_star:
  assumes "plain p"
  shows "pathMatch (p @ ''*'') name =
    Some (take (length p) name = p \<and> CHR ''/'' \<notin> set (drop (length p) name))"
proof -
  have star: "pathMatch ''*'' t = Some (CHR ''/'' \<notin> set t)" for t
    by (simp add: pathMatch.simps scanChunk_def)
  show ?thesis
  proof (cases "p = []")
    case True
    then show ?thesis by (simp add: star)
  next
    case False
    have sc: "scanChunk (p @ ''*'') = (False, p, ''*'')"
      using skipStars_plain [OF assms False, of "''*''"] scanEnd_plain_star [OF assms]
      by (simp add: scanChunk_def)
    have chk: "checkRest ''*'' = Some False"
      by (simp add: checkRest.simps [of "''*''"] checkRest.simps [of "[]"] scanChunk_def matchChunk.simps)
    show ?thesis
      by (auto simp: pathMatch.simps [of "p @ ''*''"] sc matchChunk_plain [OF assms] star chk)
  qed
qed

end
