(* ===== verification/Config_Index.thy ===== *)
theory Config_Index
  imports Group Go_Path
begin

text \<open>
  Declared group configurations: \<open>GroupConfig.Matches\<close>, the index \<open>configIdx\<close> of
  \<^verbatim>\<open>internal/queue/queue.go\<close> with its exact and wildcard halves, and the in-memory store of
  \<^verbatim>\<open>internal/queue/store.go\<close>.  Both are keyed stores in the sense of the locale below.
\<close>

section \<open>Keyed stores\<close>

text \<open>What a client may assume of a store whose values carry their own key.\<close>

locale keyed_store =
  fixes get :: "'s \<Rightarrow> 'k \<Rightarrow> 'v option"
    and put :: "'v \<Rightarrow> 's \<Rightarrow> 's"
    and del :: "'k \<Rightarrow> 's \<Rightarrow> 's"
    and key :: "'v \<Rightarrow> 'k"
    and inv :: "'s \<Rightarrow> bool"
  assumes get_put: "inv s \<Longrightarrow> get (put v s) k = (if k = key v then Some v else get s k)"
    and inv_put: "inv s \<Longrightarrow> inv (put v s)"
    and get_del: "inv s \<Longrightarrow> get (del k' s) k = (if k = k' then None else get s k)"
    and inv_del: "inv s \<Longrightarrow> inv (del k' s)"
begin

text \<open>The last value stored under a key is the one found.\<close>

lemma get_puts:
  "inv s \<Longrightarrow> inv (fold put vs s) \<and>
   get (fold put vs s) k =
     (case find (\<lambda>v. key v = k) (rev vs) of Some v \<Rightarrow> Some v | None \<Rightarrow> get s k)"
proof (induction vs rule: rev_induct)
  case (snoc v vs)
  then show ?case by (auto simp: inv_put get_put)
qed simp

lemma del_put: "inv s \<Longrightarrow> get (del (key v) (put v s)) k = (if k = key v then None else get s k)"
  by (simp add: get_del get_put inv_put)

end

section \<open>Matching\<close>

definition Matches :: "GroupConfig \<Rightarrow> string \<Rightarrow> bool" where
  "Matches c key = (if c_Key c = key then True else pathMatch (c_Key c) key = Some True)"

section \<open>The configuration index\<close>

record configIdx =
  ci_exact :: "(string, GroupConfig) gomap"
  ci_wildcards :: "GroupConfig list"

definition newConfigIdx :: configIdx where
  "newConfigIdx = \<lparr>ci_exact = [], ci_wildcards = []\<rparr>"

definition isGlobPattern :: "string \<Rightarrow> bool" where
  "isGlobPattern key = list_ex (\<lambda>c. c \<in> {CHR ''*'', CHR ''?'', CHR ''[''}) key"

text \<open>The loop of \<open>set\<close> over the wildcards: replace the first with the same key, else append.\<close>

fun setWildcard :: "GroupConfig \<Rightarrow> GroupConfig list \<Rightarrow> GroupConfig list" where
  "setWildcard c [] = [c]"
| "setWildcard c (w # ws) = (if c_Key w = c_Key c then c # ws else w # setWildcard c ws)"

definition ci_set :: "GroupConfig \<Rightarrow> configIdx \<Rightarrow> configIdx" where
  "ci_set c ci =
     (if isGlobPattern (c_Key c) then ci\<lparr>ci_wildcards := setWildcard c (ci_wildcards ci)\<rparr>
      else ci\<lparr>ci_exact := gm_put (c_Key c) c (ci_exact ci)\<rparr>)"

definition ci_get :: "configIdx \<Rightarrow> string \<Rightarrow> GroupConfig option" where
  "ci_get ci key =
     (case gm_get (ci_exact ci) key of
        Some c \<Rightarrow> Some c
      | None \<Rightarrow> find (\<lambda>c. c_Key c = key) (ci_wildcards ci))"

fun delWildcard :: "string \<Rightarrow> GroupConfig list \<Rightarrow> bool \<times> GroupConfig list" where
  "delWildcard key [] = (False, [])"
| "delWildcard key (w # ws) =
     (if c_Key w = key then (True, ws) else let (b, ws') = delWildcard key ws in (b, w # ws'))"

definition ci_del :: "string \<Rightarrow> configIdx \<Rightarrow> bool \<times> configIdx" where
  "ci_del key ci =
     (if gm_get (ci_exact ci) key \<noteq> None then (True, ci\<lparr>ci_exact := gm_del key (ci_exact ci)\<rparr>)
      else let (b, ws) = delWildcard key (ci_wildcards ci) in (b, ci\<lparr>ci_wildcards := ws\<rparr>))"

definition ci_resolve :: "configIdx \<Rightarrow> string \<Rightarrow> GroupConfig option" where
  "ci_resolve ci key =
     (case gm_get (ci_exact ci) key of
        Some c \<Rightarrow> Some c
      | None \<Rightarrow> (case find (\<lambda>c. Matches c key) (ci_wildcards ci) of
                   Some c \<Rightarrow> Some (c\<lparr>c_Key := key\<rparr>)
                 | None \<Rightarrow> None))"

text \<open>The keys are sorted, so the order in which the map is visited does not matter.\<close>

definition ci_list :: "configIdx \<Rightarrow> GroupConfig list" where
  "ci_list ci =
     map (\<lambda>k. the (gm_get (ci_exact ci) k)) (sort (map fst (ci_exact ci))) @ ci_wildcards ci"

definition ci_count :: "configIdx \<Rightarrow> nat" where
  "ci_count ci = length (ci_exact ci) + length (ci_wildcards ci)"

definition ci_wf :: "configIdx \<Rightarrow> bool" where
  "ci_wf ci =
     (gm_wf (ci_exact ci) \<and> (\<forall>(k, c) \<in> set (ci_exact ci). c_Key c = k \<and> \<not> isGlobPattern k) \<and>
      distinct (map c_Key (ci_wildcards ci)) \<and> (\<forall>c \<in> set (ci_wildcards ci). isGlobPattern (c_Key c)))"

lemma ci_wf_new: "ci_wf newConfigIdx"
  by (simp add: ci_wf_def newConfigIdx_def)

lemma setWildcard_keys: "c_Key ` set (setWildcard c ws) = insert (c_Key c) (c_Key ` set ws)"
  by (induction ws) auto

lemma setWildcard_distinct:
  "distinct (map c_Key ws) \<Longrightarrow> distinct (map c_Key (setWildcard c ws))"
  by (induction ws) (auto simp: setWildcard_keys)

lemma find_setWildcard:
  "find (\<lambda>w. c_Key w = k) (setWildcard c ws) =
     (if k = c_Key c then Some c else find (\<lambda>w. c_Key w = k) ws)"
  by (induction ws) auto

lemma delWildcard_eq:
  "distinct (map c_Key ws) \<Longrightarrow> snd (delWildcard key ws) = filter (\<lambda>w. c_Key w \<noteq> key) ws"
proof (induction ws)
  case (Cons w ws)
  have "filter (\<lambda>v. c_Key v \<noteq> c_Key w) ws = ws"
    using Cons.prems by (intro filter_True) (simp add: image_iff, metis)
  then show ?case using Cons by (auto simp: Let_def split_beta)
qed simp

lemma find_filter_key:
  "find (\<lambda>w. c_Key w = k) (filter (\<lambda>w. c_Key w \<noteq> key) ws) =
     (if k = key then None else find (\<lambda>w. c_Key w = k) ws)"
  by (induction ws) auto

lemma ci_exact_glob: "ci_wf ci \<Longrightarrow> isGlobPattern k \<Longrightarrow> gm_get (ci_exact ci) k = None"
  by (cases "gm_get (ci_exact ci) k") (auto simp: ci_wf_def dest!: map_of_SomeD)

lemma ci_wild_exact: "ci_wf ci \<Longrightarrow> \<not> isGlobPattern k \<Longrightarrow> find (\<lambda>c. c_Key c = k) (ci_wildcards ci) = None"
  by (auto simp: ci_wf_def find_None_iff)

lemma ci_get_exact: "ci_wf ci \<Longrightarrow> \<not> isGlobPattern k \<Longrightarrow> ci_get ci k = gm_get (ci_exact ci) k"
  by (simp add: ci_get_def ci_wild_exact split: option.split)

lemma ci_get_glob:
  "ci_wf ci \<Longrightarrow> isGlobPattern k \<Longrightarrow> ci_get ci k = find (\<lambda>c. c_Key c = k) (ci_wildcards ci)"
  by (simp add: ci_get_def ci_exact_glob)

lemma ci_wf_set:
  assumes wf: "ci_wf ci"
  shows "ci_wf (ci_set c ci)"
proof (cases "isGlobPattern (c_Key c)")
  case True
  have "\<forall>x \<in> set (setWildcard c (ci_wildcards ci)). isGlobPattern (c_Key x)"
  proof
    fix x assume "x \<in> set (setWildcard c (ci_wildcards ci))"
    then have "c_Key x \<in> insert (c_Key c) (c_Key ` set (ci_wildcards ci))"
      unfolding setWildcard_keys [symmetric] by (rule imageI)
    then show "isGlobPattern (c_Key x)" using wf True by (auto simp: ci_wf_def)
  qed
  then show ?thesis using wf True by (simp add: ci_wf_def ci_set_def setWildcard_distinct)
next
  case False
  have g: "gm_wf (ci_exact ci)" using wf by (simp add: ci_wf_def)
  show ?thesis using wf False by (auto simp: ci_wf_def ci_set_def gm_wf_put dest!: gm_put_in [OF g])
qed

lemma ci_wf_del:
  assumes wf: "ci_wf ci"
  shows "ci_wf (snd (ci_del k ci))"
proof -
  have "set (gm_del k (ci_exact ci)) \<subseteq> set (ci_exact ci)" by (auto simp: AList.delete_eq)
  moreover have "snd (delWildcard k (ci_wildcards ci)) = filter (\<lambda>w. c_Key w \<noteq> k) (ci_wildcards ci)"
    using wf by (intro delWildcard_eq) (simp add: ci_wf_def)
  ultimately show ?thesis using wf
    by (auto simp: ci_wf_def ci_del_def Let_def gm_wf_del distinct_map_filter split_beta)
qed

lemma ci_get_set:
  assumes "ci_wf ci"
  shows "ci_get (ci_set c ci) k = (if k = c_Key c then Some c else ci_get ci k)"
  using assms
  by (auto simp: ci_get_def ci_set_def find_setWildcard ci_exact_glob split: option.split)

lemma ci_get_del:
  assumes wf: "ci_wf ci"
  shows "ci_get (snd (ci_del k' ci)) k = (if k = k' then None else ci_get ci k)"
proof (cases "gm_get (ci_exact ci) k'")
  case None
  have "snd (delWildcard k' (ci_wildcards ci)) = filter (\<lambda>w. c_Key w \<noteq> k') (ci_wildcards ci)"
    using wf by (intro delWildcard_eq) (simp add: ci_wf_def)
  then show ?thesis using None
    by (auto simp: ci_get_def ci_del_def split_beta Let_def find_filter_key split: option.split)
next
  case (Some c)
  then have "\<not> isGlobPattern k'" using wf by (auto simp: ci_wf_def dest!: map_of_SomeD)
  then have "find (\<lambda>c. c_Key c = k') (ci_wildcards ci) = None" by (rule ci_wild_exact [OF wf])
  then show ?thesis using Some by (auto simp: ci_get_def ci_del_def split: option.split)
qed

interpretation config_store: keyed_store ci_get ci_set "\<lambda>k ci. snd (ci_del k ci)" c_Key ci_wf
  by unfold_locales (simp_all add: ci_get_set ci_get_del ci_wf_set ci_wf_del)

lemma ci_del_result: "ci_wf ci \<Longrightarrow> fst (ci_del k ci) = (ci_get ci k \<noteq> None)"
proof -
  have "fst (delWildcard k ws) = (find (\<lambda>c. c_Key c = k) ws \<noteq> None)" for ws
    by (induction ws) (auto simp: split_beta Let_def)
  then show ?thesis by (auto simp: ci_del_def ci_get_def split_beta Let_def split: option.split)
qed

lemma ci_list_length: "length (ci_list ci) = ci_count ci"
  by (simp add: ci_list_def ci_count_def)

section \<open>The in-memory store\<close>

record QueueSpec =
  qs_Name :: string
  qs_Namespace :: string
  qs_Groups :: "GroupConfig list"

definition queueKey :: "string \<Rightarrow> string \<Rightarrow> string" where
  "queueKey namespace name = namespace @ ''/'' @ name"

record InMemoryStore =
  st_specs :: "(string, QueueSpec) gomap"

definition NewInMemoryStore :: InMemoryStore where
  "NewInMemoryStore = \<lparr>st_specs = []\<rparr>"

definition SaveQueue :: "QueueSpec \<Rightarrow> InMemoryStore \<Rightarrow> InMemoryStore" where
  "SaveQueue spec s =
     s\<lparr>st_specs := gm_put (queueKey (qs_Namespace spec) (qs_Name spec)) spec (st_specs s)\<rparr>"

definition LoadQueues :: "(string, QueueSpec) range_order \<Rightarrow> InMemoryStore \<Rightarrow> QueueSpec list" where
  "LoadQueues it s = map snd (it (st_specs s))"

definition DeleteQueue :: "string \<Rightarrow> string \<Rightarrow> InMemoryStore \<Rightarrow> InMemoryStore" where
  "DeleteQueue namespace name s = s\<lparr>st_specs := gm_del (queueKey namespace name) (st_specs s)\<rparr>"

interpretation spec_store: keyed_store
  "\<lambda>s k. gm_get (st_specs s) k" SaveQueue "\<lambda>k s. s\<lparr>st_specs := gm_del k (st_specs s)\<rparr>"
  "\<lambda>spec. queueKey (qs_Namespace spec) (qs_Name spec)" "\<lambda>s. gm_wf (st_specs s)"
  by unfold_locales (auto simp: SaveQueue_def gm_wf_put gm_wf_del)

lemma LoadQueues_set:
  assumes "gm_wf (st_specs s)" and "is_range_order it"
  shows "set (LoadQueues it s) = {v. \<exists>k. gm_get (st_specs s) k = Some v}"
  using assms by (force simp: LoadQueues_def range_order_set map_of_eq_Some_iff)

section \<open>Properties\<close>

text \<open>
  Declared configurations.  After any sequence of declarations, looking a key up (exact or
  wildcard) gives the configuration declared last under that key, and nothing for a key never
  declared.
\<close>

lemma config_last_wins:
  "ci_get (fold ci_set cs newConfigIdx) k = find (\<lambda>c. c_Key c = k) (rev cs)"
  using config_store.get_puts [OF ci_wf_new, of cs k]
  by (simp add: ci_get_def newConfigIdx_def split: option.splits)

text \<open>
  Prefix wildcards.  A declared pattern that is a prefix without special characters followed
  by a star applies to exactly the keys that start with the prefix and have no slash after it, and
  the configuration handed out carries the real key; a configuration declared for the exact key
  takes precedence.
\<close>

lemma wildcard_prefix:
  assumes "plain p" and "c_Key w = p @ ''*''" and "ci_wildcards ci = [w]"
  shows "ci_resolve ci key =
    (case gm_get (ci_exact ci) key of
       Some c \<Rightarrow> Some c
     | None \<Rightarrow> if (\<exists>r. key = p @ r \<and> CHR ''/'' \<notin> set r) then Some (w\<lparr>c_Key := key\<rparr>) else None)"
proof -
  have "Matches w key \<longleftrightarrow> take (length p) key = p \<and> CHR ''/'' \<notin> set (drop (length p) key)"
    using assms(1,2) by (auto simp: Matches_def pathMatch_prefix_star plain_def)
  also have "\<dots> \<longleftrightarrow> (\<exists>r. key = p @ r \<and> CHR ''/'' \<notin> set r)"
    by (metis append_eq_conv_conj append_take_drop_id)
  finally show ?thesis by (simp add: ci_resolve_def assms(3) split: option.split)
qed

end
