(* ===== verification/Queue.thy ===== *)
theory Queue
  imports Group_Round Key_Index Config_Index
begin

text \<open>
  A queue (\<^verbatim>\<open>internal/queue/queue.go\<close>, \<^verbatim>\<open>hash.go\<close>): 32 shards of groups selected by an FNV-1a
  hash of the group key, the declared configurations and the sorted key index, with every operation
  of the type.  Each operation runs under the lock of one shard and is one step here; \<open>now\<close> is the
  clock reading and \<open>gen\<close> the identifier generator.  A panic is returned beside the state it leaves.
\<close>

unbundle bit_operations_syntax

section \<open>Sharding\<close>

definition HashKey :: "string \<Rightarrow> 32 word" where
  "HashKey s = fold (\<lambda>c h. (h XOR of_nat (of_char c)) * 16777619) s 2166136261"

definition queueShardCount :: nat where
  "queueShardCount = 32"

definition shardIdx :: "string \<Rightarrow> nat" where
  "shardIdx key = unat (HashKey key AND (of_nat queueShardCount - 1))"

record Queue =
  q_Name :: string
  q_Namespace :: string
  q_cfgIdx :: configIdx
  q_shards :: "(string, group) gomap list"
  q_keyIdx :: groupKeyIndex

definition NewQueue :: "string \<Rightarrow> string \<Rightarrow> Queue" where
  "NewQueue name namespace =
     \<lparr>q_Name = name, q_Namespace = namespace, q_cfgIdx = newConfigIdx,
      q_shards = replicate queueShardCount [], q_keyIdx = \<lparr>idx_keys = []\<rparr>\<rparr>"

definition GetGroup :: "Queue \<Rightarrow> string \<Rightarrow> group option" where
  "GetGroup q key = gm_get (q_shards q ! shardIdx key) key"

text \<open>Writing through the group pointer, or storing a new group, in the shard of the key.\<close>

definition put_group :: "string \<Rightarrow> group \<Rightarrow> Queue \<Rightarrow> Queue" where
  "put_group key g q =
     q\<lparr>q_shards := (q_shards q)[shardIdx key := gm_put key g (q_shards q ! shardIdx key)]\<rparr>"

section \<open>Configuration\<close>

definition SetGroupConfig :: "GroupConfig \<Rightarrow> Queue \<Rightarrow> Queue" where
  "SetGroupConfig cfg0 q =
     (let cfg = (if c_Quantum cfg0 \<le> 0 then cfg0\<lparr>c_Quantum := 1\<rparr> else cfg0);
          q = q\<lparr>q_cfgIdx := ci_set cfg (q_cfgIdx q)\<rparr>
      in if \<not> isGlobPattern (c_Key cfg)
         then (case GetGroup q (c_Key cfg) of
                 Some g \<Rightarrow> put_group (c_Key cfg) (g\<lparr>g_cfg := cfg, g_quantum := c_Quantum cfg\<rparr>) q
               | None \<Rightarrow> q)
         else q\<lparr>q_shards := map (map (\<lambda>(key, g).
                  if Matches cfg key
                  then (key, g\<lparr>g_cfg := cfg\<lparr>c_Key := key\<rparr>, g_quantum := c_Quantum cfg\<rparr>)
                  else (key, g))) (q_shards q)\<rparr>)"

definition DeleteGroupConfig :: "string \<Rightarrow> Queue \<Rightarrow> bool \<times> Queue" where
  "DeleteGroupConfig key q =
     (let (b, ci) = ci_del key (q_cfgIdx q) in (b, q\<lparr>q_cfgIdx := ci\<rparr>))"

definition GetGroupConfig :: "Queue \<Rightarrow> string \<Rightarrow> GroupConfig option" where
  "GetGroupConfig q key = ci_get (q_cfgIdx q) key"

definition ListGroupConfigs :: "Queue \<Rightarrow> GroupConfig list" where
  "ListGroupConfigs q = ci_list (q_cfgIdx q)"

definition resolveConfig :: "Queue \<Rightarrow> string \<Rightarrow> GroupConfig" where
  "resolveConfig q key =
     (case ci_resolve (q_cfgIdx q) key of Some c \<Rightarrow> c | None \<Rightarrow> defaultGroupConfig key)"

fun cursorStart :: "string \<Rightarrow> nat \<Rightarrow> GroupConfig list \<Rightarrow> nat" where
  "cursorStart after i [] = 0"
| "cursorStart after i (c # cs) = (if c_Key c = after then i + 1 else cursorStart after (i + 1) cs)"

definition pageLimit :: "int \<Rightarrow> int" where
  "pageLimit limit = (if limit \<le> 0 \<or> limit > 1000 then 100 else limit)"

definition PageGroupConfigs :: "Queue \<Rightarrow> string \<Rightarrow> int \<Rightarrow> GroupConfig list \<times> string" where
  "PageGroupConfigs q after limit0 =
     (let limit = nat (pageLimit limit0); all = ci_list (q_cfgIdx q);
          start = (if after \<noteq> [] then cursorStart after 0 all else 0);
          end = min (start + limit) (length all)
      in (take (end - start) (drop start all), if end < length all then c_Key (all ! (end - 1)) else []))"

definition GroupCount :: "Queue \<Rightarrow> nat" where
  "GroupCount q = idx_count (q_keyIdx q)"

definition ConfigCount :: "Queue \<Rightarrow> nat" where
  "ConfigCount q = ci_count (q_cfgIdx q)"

section \<open>Statistics\<close>

record GroupStats =
  st_Key :: string
  st_Pending :: int
  st_Processing :: int

record QueueStats =
  qst_Name :: string
  qst_Namespace :: string
  qst_Groups :: "GroupStats list"

definition stats_of :: "string \<Rightarrow> group \<Rightarrow> GroupStats" where
  "stats_of key g = \<lparr>st_Key = key, st_Pending = pendingCount g, st_Processing = processingCount g\<rparr>"

definition GetGroupStats :: "Queue \<Rightarrow> string \<Rightarrow> GroupStats option" where
  "GetGroupStats q key = map_option (stats_of key) (GetGroup q key)"

definition PageGroupStats :: "Queue \<Rightarrow> string \<Rightarrow> int \<Rightarrow> GroupStats list \<times> string" where
  "PageGroupStats q after limit =
     (let (keys, nextCursor) = idx_page (q_keyIdx q) after (pageLimit limit) in
      if keys = [] then ([], [])
      else (List.map_filter (GetGroupStats q) keys, nextCursor))"

definition Snapshot :: "(string, group) range_order \<Rightarrow> Queue \<Rightarrow> QueueStats \<times> GroupConfig list" where
  "Snapshot it q =
     (\<lparr>qst_Name = q_Name q, qst_Namespace = q_Namespace q,
       qst_Groups = concat (map (\<lambda>shard. map (\<lambda>(key, g). stats_of key g) (it shard)) (q_shards q))\<rparr>,
      ListGroupConfigs q)"

definition Stats :: "(string, group) range_order \<Rightarrow> Queue \<Rightarrow> QueueStats" where
  "Stats it q = fst (Snapshot it q)"

section \<open>Publishing\<close>

datatype queue_error =
    DepthLimitExceeded string int
  | GroupNotFound string
  | MessageNotFound string

text \<open>The common start of \<open>Publish\<close> and \<open>PublishWithID\<close>: find the group or create it.\<close>

definition ensure_group :: "string \<Rightarrow> Queue \<Rightarrow> (group \<times> bool) outcome \<times> Queue" where
  "ensure_group key q =
     (case GetGroup q key of
        Some g \<Rightarrow> (Ret (g, True), q)
      | None \<Rightarrow> (case newGroup (resolveConfig q key) of
                   Panic e \<Rightarrow> (Panic e, q)
                 | Ret g \<Rightarrow> (Ret (g, False), put_group key g q)))"

definition PublishWithID ::
  "string \<Rightarrow> string \<Rightarrow> byte list \<Rightarrow> gtime \<Rightarrow> idgen \<Rightarrow> Queue \<Rightarrow>
   (queue_error + message) outcome \<times> idgen \<times> Queue" where
  "PublishWithID key msgID payload now gen q =
     (case ensure_group key q of
        (Panic e, q) \<Rightarrow> (Panic e, gen, q)
      | (Ret (g, ok), q) \<Rightarrow>
          if c_MaxPending (g_cfg g) > 0 \<and> pendingCount g \<ge> c_MaxPending (g_cfg g)
          then (Ret (Inl (DepthLimitExceeded key (c_MaxPending (g_cfg g)))), gen, q)
          else let (msg, gen) = newMessageAt (q_Name q) (q_Namespace q) key payload now gen;
                   msg = msg\<lparr>m_ID := msgID\<rparr>;
                   q = put_group key (enqueue msg g) q;
                   q = (if \<not> ok then q\<lparr>q_keyIdx := idx_add key (q_keyIdx q)\<rparr> else q)
               in (Ret (Inr msg), gen, q))"

definition Publish ::
  "string \<Rightarrow> byte list \<Rightarrow> gtime \<Rightarrow> idgen \<Rightarrow> Queue \<Rightarrow>
   (queue_error + message) outcome \<times> idgen \<times> Queue" where
  "Publish key payload now gen q =
     (case ensure_group key q of
        (Panic e, q) \<Rightarrow> (Panic e, gen, q)
      | (Ret (g, ok), q) \<Rightarrow>
          if c_MaxPending (g_cfg g) > 0 \<and> pendingCount g \<ge> c_MaxPending (g_cfg g)
          then (Ret (Inl (DepthLimitExceeded key (c_MaxPending (g_cfg g)))), gen, q)
          else let (msg, gen) = newMessageAt (q_Name q) (q_Namespace q) key payload now gen;
                   q = put_group key (enqueue msg g) q;
                   q = (if \<not> ok then q\<lparr>q_keyIdx := idx_add key (q_keyIdx q)\<rparr> else q)
               in (Ret (Inr msg), gen, q))"

section \<open>Acknowledgement, failure and dispatch\<close>

definition ReturnToPending :: "string \<Rightarrow> string \<Rightarrow> Queue \<Rightarrow> Queue" where
  "ReturnToPending key msgID q =
     (case GetGroup q key of
        None \<Rightarrow> q
      | Some g \<Rightarrow> put_group key (snd (returnToPending msgID g)) q)"

definition Complete :: "string \<Rightarrow> string \<Rightarrow> Queue \<Rightarrow> (queue_error + unit) \<times> Queue" where
  "Complete key msgID q =
     (case GetGroup q key of
        None \<Rightarrow> (Inl (GroupNotFound key), q)
      | Some g \<Rightarrow>
          (case complete msgID g of
             (None, g) \<Rightarrow> (Inl (MessageNotFound msgID), put_group key g q)
           | (Some _, g) \<Rightarrow> (Inr (), put_group key g q)))"

definition TryDispatchOne ::
  "(string, message) range_order \<Rightarrow> string \<Rightarrow> gtime \<Rightarrow> Queue \<Rightarrow> message option outcome \<times> Queue" where
  "TryDispatchOne it key now q =
     (case GetGroup q key of
        None \<Rightarrow> (Ret None, q)
      | Some g \<Rightarrow>
          let g = fst (promoteDelayed it now g); (r, g) = next_msg now g in (r, put_group key g q))"

definition CompleteAndNext ::
  "(string, message) range_order \<Rightarrow> string \<Rightarrow> string \<Rightarrow> gtime \<Rightarrow> Queue \<Rightarrow>
   message option outcome \<times> Queue" where
  "CompleteAndNext it key msgID now q =
     (case GetGroup q key of
        None \<Rightarrow> (Ret None, q)
      | Some g \<Rightarrow>
          let g = snd (complete msgID g); g = fst (promoteDelayed it now g); (r, g) = next_msg now g
          in (r, put_group key g q))"

text \<open>The queue name and the message for the dead-letter queue, or the empty name and none.\<close>

definition dlq_target :: "GroupConfig \<Rightarrow> message option \<Rightarrow> string \<times> message option" where
  "dlq_target cfg dlq =
     (case (dlq, c_DLQ cfg) of
        (Some m, Some d) \<Rightarrow> (dlq_Queue d, Some m)
      | _ \<Rightarrow> ([], None))"

definition Fail ::
  "string \<Rightarrow> string \<Rightarrow> string \<Rightarrow> gtime \<Rightarrow> Queue \<Rightarrow>
   (queue_error + string \<times> message option) \<times> Queue" where
  "Fail key msgID errMsg now q =
     (case GetGroup q key of
        None \<Rightarrow> (Inl (GroupNotFound key), q)
      | Some g \<Rightarrow>
          let (dlq, g) = fail msgID errMsg now g in (Inr (dlq_target (g_cfg g) dlq), put_group key g q))"

definition FailAndNext ::
  "(string, message) range_order \<Rightarrow> string \<Rightarrow> string \<Rightarrow> string \<Rightarrow> gtime \<Rightarrow> Queue \<Rightarrow>
   ((string \<times> message option) \<times> message option) outcome \<times> Queue" where
  "FailAndNext it key msgID errMsg now q =
     (case GetGroup q key of
        None \<Rightarrow> (Ret (([], None), None), q)
      | Some g \<Rightarrow>
          let (dlq, g) = fail msgID errMsg now g; target = dlq_target (g_cfg g) dlq;
              g = fst (promoteDelayed it now g)
          in (case next_msg now g of
                (Ret mo, g) \<Rightarrow> (Ret (target, mo), put_group key g q)
              | (Panic e, g) \<Rightarrow> (Panic e, put_group key g q)))"

definition DrainGroup ::
  "(string, message) range_order \<Rightarrow> string \<Rightarrow> gtime \<Rightarrow> Queue \<Rightarrow>
   (message list option \<times> gtime \<times> bool \<times> bool) outcome \<times> Queue" where
  "DrainGroup it key now q =
     (case GetGroup q key of
        None \<Rightarrow> (Ret (None, zeroTime, False, False), q)
      | Some g \<Rightarrow> let (r, g) = drainRound it now g in (r, put_group key g q))"

section \<open>Lease sweep\<close>

record ExpiredLease =
  el_Namespace :: string
  el_QueueName :: string
  el_GroupKey :: string
  el_MsgID :: string

definition expiredIDs :: "(string, message) range_order \<Rightarrow> gtime \<Rightarrow> group \<Rightarrow> string list" where
  "expiredIDs it now g =
     map fst (filter (\<lambda>(ident, m). now > m_ScheduledAt m) (it (g_processing g)))"

definition sweepGroup :: "(string, message) range_order \<Rightarrow> gtime \<Rightarrow> group \<Rightarrow> group" where
  "sweepGroup it now g = fold (\<lambda>ident g. snd (returnToPending ident g)) (expiredIDs it now g) g"

definition SweepExpiredLeases ::
  "(string, group) range_order \<Rightarrow> (string, message) range_order \<Rightarrow> gtime \<Rightarrow> Queue \<Rightarrow>
   ExpiredLease list \<times> Queue" where
  "SweepExpiredLeases itg it now q =
     (concat (map (\<lambda>shard. concat (map (\<lambda>(key, g).
        map (\<lambda>ident. \<lparr>el_Namespace = q_Namespace q, el_QueueName = q_Name q,
                      el_GroupKey = c_Key (g_cfg g), el_MsgID = ident\<rparr>) (expiredIDs it now g))
        (itg shard))) (q_shards q)),
      q\<lparr>q_shards := map (map (\<lambda>(key, g). (key, sweepGroup it now g))) (q_shards q)\<rparr>)"

section \<open>Recovery\<close>

text \<open>The first occupied slot from the head on that holds the message.\<close>

fun findSlot :: "string \<Rightarrow> nat \<Rightarrow> message option list \<Rightarrow> (nat \<times> message) option" where
  "findSlot msgID i [] = None"
| "findSlot msgID i (s # ss) =
     (case s of
        Some m \<Rightarrow> if m_ID m = msgID then Some (i, m) else findSlot msgID (i + 1) ss
      | None \<Rightarrow> findSlot msgID (i + 1) ss)"

definition replay_start :: "gtime \<Rightarrow> message \<Rightarrow> group \<Rightarrow> bool outcome \<times> group" where
  "replay_start now msg g =
     (case start_processing now msg g of (Ret _, g) \<Rightarrow> (Ret True, g) | (Panic e, g) \<Rightarrow> (Panic e, g))"

definition group_replayLease :: "string \<Rightarrow> gtime \<Rightarrow> group \<Rightarrow> bool outcome \<times> group" where
  "group_replayLease msgID now g =
     (case findSlot msgID (g_urgentHead g) (drop (g_urgentHead g) (g_urgent g)) of
        Some (i, msg) \<Rightarrow>
          replay_start now msg (g\<lparr>g_urgent := (g_urgent g)[i := None]\<rparr>)
      | None \<Rightarrow>
          (case findSlot msgID (g_readyHead g) (drop (g_readyHead g) (g_ready g)) of
             Some (i, msg) \<Rightarrow>
               replay_start now msg (g\<lparr>g_ready := (g_ready g)[i := None]\<rparr>)
           | None \<Rightarrow> (Ret False, g)))"

definition ReplayLease :: "string \<Rightarrow> string \<Rightarrow> gtime \<Rightarrow> Queue \<Rightarrow> bool outcome \<times> Queue" where
  "ReplayLease key msgID now q =
     (case GetGroup q key of
        None \<Rightarrow> (Ret False, q)
      | Some g \<Rightarrow> let (b, g) = group_replayLease msgID now g in (b, put_group key g q))"

definition group_removeMessage :: "string \<Rightarrow> group \<Rightarrow> bool \<times> group" where
  "group_removeMessage msgID g =
     (case findSlot msgID (g_urgentHead g) (drop (g_urgentHead g) (g_urgent g)) of
        Some (i, _) \<Rightarrow> (True, g\<lparr>g_urgent := (g_urgent g)[i := None]\<rparr>)
      | None \<Rightarrow>
          (case findSlot msgID (g_readyHead g) (drop (g_readyHead g) (g_ready g)) of
             Some (i, _) \<Rightarrow> (True, g\<lparr>g_ready := (g_ready g)[i := None]\<rparr>)
           | None \<Rightarrow>
               if gm_get (g_processing g) msgID \<noteq> None
               then (True, g\<lparr>g_processing := gm_del msgID (g_processing g)\<rparr>)
               else (False, g)))"

definition RemoveMessage :: "string \<Rightarrow> string \<Rightarrow> Queue \<Rightarrow> bool \<times> Queue" where
  "RemoveMessage key msgID q =
     (case GetGroup q key of
        None \<Rightarrow> (False, q)
      | Some g \<Rightarrow> let (b, g) = group_removeMessage msgID g in (b, put_group key g q))"

section \<open>Scheduling tokens\<close>

text \<open>The atomics behind a \<open>GroupToken\<close>, as operations on the group.\<close>

definition TrySchedule :: "group \<Rightarrow> bool \<times> group" where
  "TrySchedule g = (if g_isScheduled g = 0 then (True, g\<lparr>g_isScheduled := 1\<rparr>) else (False, g))"

definition Unschedule :: "group \<Rightarrow> group" where
  "Unschedule g = g\<lparr>g_isScheduled := 0\<rparr>"

definition LoadWake :: "group \<Rightarrow> int" where
  "LoadWake g = g_wakeScheduledAt g"

definition TrySetWake :: "int \<Rightarrow> int \<Rightarrow> group \<Rightarrow> bool \<times> group" where
  "TrySetWake cur nxt g =
     (if g_wakeScheduledAt g = cur then (True, g\<lparr>g_wakeScheduledAt := nxt\<rparr>) else (False, g))"

definition ClearWake :: "int \<Rightarrow> group \<Rightarrow> group" where
  "ClearWake expected g =
     (if g_wakeScheduledAt g = expected then g\<lparr>g_wakeScheduledAt := 0\<rparr> else g)"

section \<open>Export and import\<close>

record QueueState =
  qst_SName :: string
  qst_SNamespace :: string
  qst_SGroups :: "(string, GroupState) gomap"

definition Queue_ExportState :: "(string, group) range_order \<Rightarrow> Queue \<Rightarrow> QueueState" where
  "Queue_ExportState it q =
     \<lparr>qst_SName = q_Name q, qst_SNamespace = q_Namespace q,
      qst_SGroups = fold (\<lambda>(key, g) acc. gm_put key (Group_ExportState g) acc)
                      (concat (map it (q_shards q))) []\<rparr>"

definition import_group :: "GroupState \<Rightarrow> Queue \<Rightarrow> unit outcome \<times> Queue" where
  "import_group gs q =
     (let cfg = (resolveConfig q (gs_Key gs))\<lparr>c_Parallelism := gs_Parallelism gs, c_Key := gs_Key gs\<rparr> in
      case newGroup cfg of
        Panic e \<Rightarrow> (Panic e, q)
      | Ret g \<Rightarrow>
          (Ret (), put_group (gs_Key gs) ((Group_ImportState gs g)\<lparr>g_quantum := gs_Quantum gs\<rparr>) q))"

fun import_groups :: "GroupState list \<Rightarrow> Queue \<Rightarrow> unit outcome \<times> Queue" where
  "import_groups [] q = (Ret (), q)"
| "import_groups (gs # rest) q =
     (case import_group gs q of
        (Panic e, q) \<Rightarrow> (Panic e, q)
      | (Ret _, q) \<Rightarrow> import_groups rest q)"

definition Queue_ImportState ::
  "(string, GroupState) range_order \<Rightarrow> QueueState \<Rightarrow> Queue \<Rightarrow> unit outcome \<times> Queue" where
  "Queue_ImportState it state q =
     (let states = map snd (it (qst_SGroups state)) in
      case import_groups states q of
        (Panic e, q) \<Rightarrow> (Panic e, q)
      | (Ret _, q) \<Rightarrow> (Ret (), q\<lparr>q_keyIdx := \<lparr>idx_keys = sort (map gs_Key states)\<rparr>\<rparr>))"

end
