(* ===== verification/Queue_Safety.thy ===== *)
theory Queue_Safety
  imports Queue
begin

text \<open>
  The invariant of a queue and what its operations keep: the shards form one table of groups, every
  group satisfies its own invariant under its own key, the key index lists exactly the groups, and
  published messages get identifiers that are fresh in their group.
\<close>

section \<open>Tables of groups\<close>

text \<open>A table that is only read and written through one key at a time.\<close>

locale table =
  fixes look :: "'q \<Rightarrow> 'k \<Rightarrow> 'g option"
    and upd :: "'k \<Rightarrow> 'g \<Rightarrow> 'q \<Rightarrow> 'q"
    and inv :: "'q \<Rightarrow> bool"
  assumes look_upd: "inv q \<Longrightarrow> look (upd k g q) k' = (if k' = k then Some g else look q k')"
    and inv_upd: "inv q \<Longrightarrow> inv (upd k g q)"
begin

definition modify :: "'k \<Rightarrow> ('g \<Rightarrow> 'g) \<Rightarrow> 'q \<Rightarrow> 'q" where
  "modify k f q = (case look q k of None \<Rightarrow> q | Some g \<Rightarrow> upd k (f g) q)"

lemma look_modify: "inv q \<Longrightarrow> look (modify k f q) k' = (if k' = k then map_option f (look q k) else look q k')"
  by (auto simp: modify_def look_upd split: option.split)

lemma inv_modify: "inv q \<Longrightarrow> inv (modify k f q)"
  by (simp add: modify_def inv_upd split: option.split)

lemma modify_pres:
  assumes "inv q" and "\<And>k g. look q k = Some g \<Longrightarrow> P k g" and "\<And>g. P k g \<Longrightarrow> P k (f g)"
    and "look (modify k f q) k' = Some g"
  shows "P k' g"
  using assms by (auto simp: look_modify split: if_splits)

lemma modify_dom: "inv q \<Longrightarrow> {k'. look (modify k f q) k' \<noteq> None} = {k'. look q k' \<noteq> None}"
  by (auto simp: look_modify)

end

section \<open>The shards are one table\<close>

lemma shardIdx_less: "shardIdx key < queueShardCount"
proof -
  have "HashKey key AND 31 \<le> (31 :: 32 word)" by (rule word_and_le1)
  then have "unat (HashKey key AND 31) \<le> unat (31 :: 32 word)" by (simp add: word_le_nat_alt)
  then show ?thesis by (simp add: shardIdx_def queueShardCount_def)
qed

definition shards_wf :: "Queue \<Rightarrow> bool" where
  "shards_wf q =
     (length (q_shards q) = queueShardCount \<and>
      (\<forall>i < queueShardCount. gm_wf (q_shards q ! i) \<and> (\<forall>k \<in> fst ` set (q_shards q ! i). shardIdx k = i)))"

lemma shards_put:
  assumes "shards_wf q"
  shows "shards_wf (put_group k g q)"
proof -
  let ?m = "q_shards q ! shardIdx k"
  have m: "gm_wf ?m" "\<forall>x \<in> fst ` set ?m. shardIdx x = shardIdx k"
    using assms shardIdx_less [of k] by (auto simp: shards_wf_def)
  have keys: "fst ` set (gm_put k g ?m) = insert k (fst ` set ?m)"
    by (simp add: dom_update)
  have m': "gm_wf (gm_put k g ?m) \<and> (\<forall>x \<in> fst ` set (gm_put k g ?m). shardIdx x = shardIdx k)"
    unfolding keys by (intro conjI) (rule gm_wf_put [OF m(1)], use m(2) in blast)
  have nth: "q_shards (put_group k g q) ! i = (if i = shardIdx k then gm_put k g ?m else q_shards q ! i)"
    if "i < queueShardCount" for i
    using that assms by (simp add: put_group_def shards_wf_def nth_list_update)
  show ?thesis unfolding shards_wf_def
  proof (intro conjI allI impI)
    show "length (q_shards (put_group k g q)) = queueShardCount"
      using assms by (simp add: shards_wf_def put_group_def)
  next
    fix i assume i: "i < queueShardCount"
    then show "gm_wf (q_shards (put_group k g q) ! i)"
      using m' nth assms by (simp add: shards_wf_def)
    show "\<forall>x \<in> fst ` set (q_shards (put_group k g q) ! i). shardIdx x = i"
      unfolding nth [OF i] using m' assms i by (auto simp: shards_wf_def split: if_splits)
  qed
qed

interpretation groups: table GetGroup put_group shards_wf
proof
  show "GetGroup (put_group k g q) k' = (if k' = k then Some g else GetGroup q k')"
    if "shards_wf q" for q k g k'
    using that shardIdx_less [of k]
    by (auto simp: GetGroup_def put_group_def nth_list_update shards_wf_def)
qed (rule shards_put)

lemma in_shard:
  assumes "shards_wf q" and "i < queueShardCount"
  shows "set (q_shards q ! i) = {(k, g). shardIdx k = i \<and> GetGroup q k = Some g}"
  using assms by (fastforce simp: shards_wf_def GetGroup_def)

lemma all_groups:
  assumes "shards_wf q"
  shows "set (concat (q_shards q)) = {(k, g). GetGroup q k = Some g}"
proof -
  have "set (q_shards q) = (!) (q_shards q) ` {..<queueShardCount}"
    using assms by (auto simp: shards_wf_def in_set_conv_nth image_iff)
  then have "set (concat (q_shards q)) = (\<Union>i < queueShardCount. set (q_shards q ! i))"
    by simp
  also have "\<dots> = {(k, g). GetGroup q k = Some g}"
    using in_shard [OF assms] shardIdx_less by auto
  finally show ?thesis .
qed

text \<open>Operations that visit every group of every shard.\<close>

definition map_groups :: "(string \<Rightarrow> group \<Rightarrow> group) \<Rightarrow> Queue \<Rightarrow> Queue" where
  "map_groups f q = q\<lparr>q_shards := map (map (\<lambda>(key, g). (key, f key g))) (q_shards q)\<rparr>"

lemma map_groups_look:
  assumes "shards_wf q"
  shows "shards_wf (map_groups f q) \<and> GetGroup (map_groups f q) k = map_option (f k) (GetGroup q k)"
proof -
  have fst: "map fst (map (\<lambda>(key, g). (key, f key g)) m) = map fst m" for m :: "(string, group) gomap"
    by (induction m) auto
  have get: "gm_get (map (\<lambda>(key, g). (key, f key g)) m) k = map_option (f k) (gm_get m k)" for m
    by (induction m) auto
  have sh: "q_shards (map_groups f q) ! i = map (\<lambda>(key, g). (key, f key g)) (q_shards q ! i)"
    if "i < queueShardCount" for i using assms that by (simp add: map_groups_def shards_wf_def)
  have set: "fst ` set (map (\<lambda>(key, g). (key, f key g)) m) = fst ` set m" for m
    by (metis fst list.set_map)
  have "shards_wf (map_groups f q)"
    unfolding shards_wf_def
  proof (intro conjI allI impI)
    fix i assume i: "i < queueShardCount"
    show "gm_wf (q_shards (map_groups f q) ! i)" unfolding sh [OF i] fst using assms i by (simp add: shards_wf_def)
    show "\<forall>x \<in> fst ` set (q_shards (map_groups f q) ! i). shardIdx x = i"
      unfolding sh [OF i] set using assms i by (simp add: shards_wf_def)
  qed (use assms in \<open>simp add: map_groups_def shards_wf_def\<close>)
  then show ?thesis using sh [OF shardIdx_less] get by (simp add: GetGroup_def)
qed

section \<open>The invariant\<close>

definition config_ok :: "GroupConfig \<Rightarrow> bool" where
  "config_ok c = (\<forall>rl. c_RateLimit c = Some rl \<longrightarrow> 0 < rl_Max rl)"

definition cfgs_ok :: "configIdx \<Rightarrow> bool" where
  "cfgs_ok ci = (\<forall>c \<in> snd ` set (ci_exact ci) \<union> set (ci_wildcards ci). config_ok c)"

definition grp_inv :: "string \<Rightarrow> group \<Rightarrow> bool" where
  "grp_inv k g = (group_wf g \<and> 0 \<le> g_deficit g \<and> c_Key (g_cfg g) = k)"

definition queue_wf :: "Queue \<Rightarrow> bool" where
  "queue_wf q =
     (shards_wf q \<and> ci_wf (q_cfgIdx q) \<and> cfgs_ok (q_cfgIdx q) \<and> idx_wf (q_keyIdx q) \<and>
      set (idx_keys (q_keyIdx q)) = {k. GetGroup q k \<noteq> None} \<and>
      (\<forall>k g. GetGroup q k = Some g \<longrightarrow> grp_inv k g))"

lemma NewQueue_wf: "queue_wf (NewQueue n ns)"
proof -
  have "shards_wf (NewQueue n ns)" by (simp add: shards_wf_def NewQueue_def)
  moreover have "GetGroup (NewQueue n ns) k = None" for k
    using shardIdx_less [of k] by (simp add: GetGroup_def NewQueue_def)
  moreover have "q_cfgIdx (NewQueue n ns) = newConfigIdx" "q_keyIdx (NewQueue n ns) = \<lparr>idx_keys = []\<rparr>"
    by (simp_all add: NewQueue_def)
  moreover have "cfgs_ok newConfigIdx" by (simp add: cfgs_ok_def newConfigIdx_def)
  ultimately show ?thesis by (simp add: queue_wf_def ci_wf_new idx_wf_def)
qed

text \<open>What a group operation other than \<open>enqueue\<close> does: it keeps the invariant and adds no message.\<close>

definition shrinks :: "(group \<Rightarrow> group) \<Rightarrow> bool" where
  "shrinks f = (\<forall>k g. grp_inv k g \<longrightarrow> grp_inv k (f g) \<and> set_mset (live_ids (f g)) \<subseteq> set_mset (live_ids g))"

lemma shrinks_comp: "shrinks f \<Longrightarrow> shrinks h \<Longrightarrow> shrinks (\<lambda>g. f (h g))"
  unfolding shrinks_def by blast

lemma put_group_frame [simp]:
  "q_cfgIdx (put_group k g q) = q_cfgIdx q" "q_keyIdx (put_group k g q) = q_keyIdx q"
  "q_Name (put_group k g q) = q_Name q" "q_Namespace (put_group k g q) = q_Namespace q"
  by (simp_all add: put_group_def)

lemma modify_frame [simp]:
  "q_cfgIdx (groups.modify k f q) = q_cfgIdx q" "q_keyIdx (groups.modify k f q) = q_keyIdx q"
  by (simp_all add: groups.modify_def split: option.split)

lemma modify_wf:
  assumes wf: "queue_wf q" and f: "shrinks f"
  shows "queue_wf (groups.modify k f q)"
proof -
  have sh: "shards_wf q" using wf by (simp add: queue_wf_def)
  have "grp_inv k' g" if "GetGroup (groups.modify k f q) k' = Some g" for k' g
    using groups.modify_pres [OF sh, where P = grp_inv] that wf f unfolding queue_wf_def shrinks_def by blast
  then show ?thesis using wf groups.inv_modify [OF sh] groups.modify_dom [OF sh] by (simp add: queue_wf_def)
qed

section \<open>Group operations\<close>

lemma shrinksI:
  assumes "\<And>k g. grp_inv k g \<Longrightarrow> group_wf (f g) \<and> 0 \<le> g_deficit (f g) \<and> g_cfg (f g) = g_cfg g
    \<and> (\<exists>rest. live_ids g = live_ids (f g) + rest)"
  shows "shrinks f"
  unfolding shrinks_def
proof (intro allI impI)
  fix k g assume g: "grp_inv k g"
  from assms [OF g] obtain rest where "live_ids g = live_ids (f g) + rest" by blast
  then show "grp_inv k (f g) \<and> set_mset (live_ids (f g)) \<subseteq> set_mset (live_ids g)"
    using assms [OF g] g by (simp add: grp_inv_def)
qed

lemma grp_inv_rep: "grp_inv k g \<Longrightarrow> group_rep g"
  by (simp add: grp_inv_def group_wf_def)

lemma shrinks_complete: "shrinks (\<lambda>g. snd (complete i g))"
proof (rule shrinksI)
  fix k g assume g: "grp_inv k g"
  obtain r g' where c: "complete i g = (r, g')" by fastforce
  note p = complete_pres [OF grp_inv_rep [OF g] c]
  show "group_wf (snd (complete i g)) \<and> 0 \<le> g_deficit (snd (complete i g))
    \<and> g_cfg (snd (complete i g)) = g_cfg g \<and> (\<exists>rest. live_ids g = live_ids (snd (complete i g)) + rest)"
  proof (cases r)
    case None
    then show ?thesis using p g c by (simp add: grp_inv_def)
  next
    case (Some m)
    then have ids: "live_ids g = add_mset i (live_ids g')" using p by simp
    then have "group_wf g'" using group_wf_sub [of g g' i] p g by (simp add: grp_inv_def)
    then show ?thesis using p g c ids by (auto simp: grp_inv_def intro: exI [of _ "{#i#}"])
  qed
qed

lemma shrinks_promote: "is_range_order it \<Longrightarrow> shrinks (\<lambda>g. fst (promoteDelayed it now g))"
proof (rule shrinksI)
  fix k g assume it: "is_range_order it" and g: "grp_inv k g"
  obtain g' w where p: "promoteDelayed it now g = (g', w)" by fastforce
  show "group_wf (fst (promoteDelayed it now g)) \<and> 0 \<le> g_deficit (fst (promoteDelayed it now g))
    \<and> g_cfg (fst (promoteDelayed it now g)) = g_cfg g
    \<and> (\<exists>rest. live_ids g = live_ids (fst (promoteDelayed it now g)) + rest)"
    using promoteDelayed_wf [OF _ it p] g p by (simp add: grp_inv_def)
qed

lemma next_msg_total:
  assumes "group_wf g"
  obtains mo g' where "next_msg now g = (Ret mo, g')"
proof -
  obtain r g' where nd: "nextDispatchable now g = (r, g')" by fastforce
  from nextDispatchable_pres [OF assms nd] obtain x where "r = Ret x" by blast
  then show ?thesis using that nd by (cases x) (auto simp: next_msg_def)
qed

lemma shrinks_next: "shrinks (\<lambda>g. snd (next_msg now g))"
proof (rule shrinksI)
  fix k g assume g: "grp_inv k g"
  then obtain mo g' where n: "next_msg now g = (Ret mo, g')"
    using next_msg_total by (metis grp_inv_def)
  obtain x where "nextDispatchable now g = (Ret x, g')"
    using n by (auto simp: next_msg_def split: prod.splits outcome.splits)
  then show "group_wf (snd (next_msg now g)) \<and> 0 \<le> g_deficit (snd (next_msg now g))
    \<and> g_cfg (snd (next_msg now g)) = g_cfg g \<and> (\<exists>rest. live_ids g = live_ids (snd (next_msg now g)) + rest)"
    using nextDispatchable_pres [of g now] nextDispatchable_deficit n g by (fastforce simp: grp_inv_def)
qed

lemma shrinks_fail: "shrinks (\<lambda>g. snd (fail i err now g))"
proof (rule shrinksI)
  fix k g assume g: "grp_inv k g"
  obtain r g' where f: "fail i err now g = (r, g')" by fastforce
  have wf: "group_wf g" using g by (simp add: grp_inv_def)
  show "group_wf (snd (fail i err now g)) \<and> 0 \<le> g_deficit (snd (fail i err now g))
    \<and> g_cfg (snd (fail i err now g)) = g_cfg g \<and> (\<exists>rest. live_ids g = live_ids (snd (fail i err now g)) + rest)"
  proof (cases "gm_get (g_processing g) i")
    case None
    then show ?thesis using g by (simp add: fail_def grp_inv_def)
  next
    case (Some m)
    note p = fail_pres [OF grp_inv_rep [OF g] Some f]
    have fr: "group_rep g'" "g_cfg g' = g_cfg g" "g_deficit g' = g_deficit g" using p by simp_all
    show ?thesis
    proof (cases "attempts_left g m")
      case True
      then have "live_ids g' = live_ids g" using p by simp
      then show ?thesis using f fr g group_wf_conserved [OF fr(1) _ wf] by (simp add: grp_inv_def)
    next
      case False
      then have ids: "live_ids g = add_mset i (live_ids g')" using p by simp
      then show ?thesis using f fr g group_wf_sub [OF wf fr(1) ids]
        by (auto simp: grp_inv_def intro: exI [of _ "{#i#}"])
    qed
  qed
qed

lemma shrinks_return: "shrinks (\<lambda>g. snd (returnToPending i g))"
proof (rule shrinksI)
  fix k g assume g: "grp_inv k g"
  show "group_wf (snd (returnToPending i g)) \<and> 0 \<le> g_deficit (snd (returnToPending i g))
    \<and> g_cfg (snd (returnToPending i g)) = g_cfg g
    \<and> (\<exists>rest. live_ids g = live_ids (snd (returnToPending i g)) + rest)"
  proof (cases "gm_get (g_processing g) i")
    case None
    then show ?thesis using g by (simp add: returnToPending_def grp_inv_def)
  next
    case (Some m)
    note p = to_urgent_pres [OF grp_inv_rep [OF g] Some]
    have "group_wf (to_urgent i m g)" using p g group_wf_conserved by (simp add: grp_inv_def)
    then show ?thesis using p g Some by (simp add: returnToPending_eq grp_inv_def)
  qed
qed

lemma shrinks_drain: "is_range_order it \<Longrightarrow> shrinks (\<lambda>g. snd (drainRound it now g))"
proof (rule shrinksI)
  fix k g assume it: "is_range_order it" and g: "grp_inv k g"
  obtain r g' where d: "drainRound it now g = (r, g')" by fastforce
  show "group_wf (snd (drainRound it now g)) \<and> 0 \<le> g_deficit (snd (drainRound it now g))
    \<and> g_cfg (snd (drainRound it now g)) = g_cfg g
    \<and> (\<exists>rest. live_ids g = live_ids (snd (drainRound it now g)) + rest)"
    using drainRound_pres [OF _ _ it d] g d by (simp add: grp_inv_def)
qed

lemma shrinks_sweep: "shrinks (sweepGroup it now)"
proof -
  have "shrinks (fold (\<lambda>ident g. snd (returnToPending ident g)) ids)" for ids
  proof (induction ids)
    case Nil
    then show ?case by (simp add: shrinks_def)
  next
    case (Cons i ids)
    from shrinks_comp [OF Cons shrinks_return [of i]] show ?case by (simp add: comp_def)
  qed
  then show ?thesis unfolding sweepGroup_def shrinks_def by blast
qed

section \<open>Publishing\<close>

lemma fill_defaults_Key: "c_Key (fill_defaults cfg) = c_Key cfg"
  by (simp add: fill_defaults_def Let_def)

lemma newGroup_total:
  assumes "config_ok cfg"
  obtains g where "newGroup cfg = Ret g" and "grp_inv (c_Key cfg) g" and "live_ids g = {#}"
    and "pendingCount g = 0"
proof -
  have "\<exists>g. newGroup cfg = Ret g"
    using assms by (auto simp: newGroup_def Let_def fill_defaults_frame config_ok_def
        newSlidingWindowLimiter_def split: option.split)
  then obtain g where g: "newGroup cfg = Ret g" by blast
  have f: "g_cfg g = fill_defaults cfg" "pendingCount g = 0"
    using g heap_init_contents [of delayed_Less "[]"]
    by (auto simp: newGroup_def Let_def pendingCount_def split: outcome.splits)
  show ?thesis
    using that [OF g] newGroup_wf [OF g] assms f by (simp add: grp_inv_def config_ok_def fill_defaults_Key)
qed

lemma resolveConfig_ok:
  assumes "queue_wf q"
  shows "config_ok (resolveConfig q k) \<and> c_Key (resolveConfig q k) = k"
proof -
  have wf: "ci_wf (q_cfgIdx q)" "cfgs_ok (q_cfgIdx q)" using assms by (simp_all add: queue_wf_def)
  have d: "config_ok (defaultGroupConfig k)" "c_Key (defaultGroupConfig k) = k"
    by (simp_all add: config_ok_def defaultGroupConfig_def)
  show ?thesis
  proof (cases "gm_get (ci_exact (q_cfgIdx q)) k")
    case (Some c)
    then have "(k, c) \<in> set (ci_exact (q_cfgIdx q))" by (rule map_of_SomeD)
    then show ?thesis using wf Some
      by (force simp: resolveConfig_def ci_resolve_def ci_wf_def cfgs_ok_def)
  next
    case None
    show ?thesis
    proof (cases "find (\<lambda>c. Matches c k) (ci_wildcards (q_cfgIdx q))")
      case (Some c)
      then have "c \<in> set (ci_wildcards (q_cfgIdx q))" by (metis find_Some_iff nth_mem)
      then have "config_ok c" using wf(2) by (simp add: cfgs_ok_def)
      then show ?thesis using None Some by (simp add: resolveConfig_def ci_resolve_def config_ok_def)
    qed (use None d in \<open>simp add: resolveConfig_def ci_resolve_def\<close>)
  qed
qed

lemma ensure_group_total:
  assumes wf: "queue_wf q"
  obtains (old) g where "ensure_group k q = (Ret (g, True), q)" and "GetGroup q k = Some g" and "grp_inv k g"
  | (new) g where "ensure_group k q = (Ret (g, False), put_group k g q)" and "GetGroup q k = None"
      and "grp_inv k g" and "live_ids g = {#}" and "pendingCount g = 0"
proof (cases "GetGroup q k")
  case None
  from resolveConfig_ok [OF wf] newGroup_total obtain g where
    "newGroup (resolveConfig q k) = Ret g" "grp_inv k g" "live_ids g = {#}" "pendingCount g = 0" by metis
  then show ?thesis using new None by (simp add: ensure_group_def)
next
  case (Some g)
  then show ?thesis using old wf by (simp add: ensure_group_def queue_wf_def)
qed

definition add_message :: "string \<Rightarrow> message \<Rightarrow> group \<Rightarrow> bool \<Rightarrow> Queue \<Rightarrow> Queue" where
  "add_message k m g ok q =
     (let q = put_group k (enqueue m g) q in
      if \<not> ok then q\<lparr>q_keyIdx := idx_add k (q_keyIdx q)\<rparr> else q)"

lemma GetGroup_keyIdx [simp]: "GetGroup (q\<lparr>q_keyIdx := x\<rparr>) k = GetGroup q k"
  "shards_wf (q\<lparr>q_keyIdx := x\<rparr>) = shards_wf q"
  by (simp_all add: GetGroup_def shards_wf_def)

lemma enqueue_inv:
  assumes "grp_inv k g" and "m_ID m \<notin># live_ids g"
  shows "grp_inv k (enqueue m g)"
proof -
  note p = enqueue_pres [OF grp_inv_rep [OF assms(1)], of m]
  have "group_wf (enqueue m g)" using group_wf_add [of g] p assms by (simp add: grp_inv_def)
  then show ?thesis using assms(1) by (simp add: grp_inv_def enqueue_def)
qed

lemma add_message_wf:
  assumes wf: "queue_wf q" and e: "ensure_group k q = (Ret (g, ok), q1)" and fresh: "m_ID m \<notin># live_ids g"
  shows "queue_wf (add_message k m g ok q1)
    \<and> (\<forall>k'. GetGroup (add_message k m g ok q1) k' = (if k' = k then Some (enqueue m g) else GetGroup q k'))"
proof -
  have sh: "shards_wf q" using wf by (simp add: queue_wf_def)
  have g: "grp_inv k g"
    using wf by (cases rule: ensure_group_total [where k = k]) (use e in simp_all)
  have get: "GetGroup (add_message k m g ok q1) k' = (if k' = k then Some (enqueue m g) else GetGroup q k')" for k'
    using wf by (cases rule: ensure_group_total [where k = k])
      (use e in \<open>simp_all add: add_message_def Let_def groups.look_upd sh groups.inv_upd\<close>)
  have sh': "shards_wf (add_message k m g ok q1)"
    using wf by (cases rule: ensure_group_total [where k = k])
      (use e in \<open>simp_all add: add_message_def Let_def sh groups.inv_upd\<close>)
  have idx: "idx_wf (q_keyIdx (add_message k m g ok q1))
    \<and> set (idx_keys (q_keyIdx (add_message k m g ok q1))) = insert k {k. GetGroup q k \<noteq> None}"
    using wf
  proof (cases rule: ensure_group_total [where k = k])
    case (old g0)
    then have "k \<in> {k. GetGroup q k \<noteq> None}" by simp
    then show ?thesis using old wf e by (simp add: add_message_def Let_def queue_wf_def insert_absorb)
  next
    case (new g0)
    have "idx_wf (q_keyIdx q)" using wf by (simp add: queue_wf_def)
    from idx_add_spec [OF this, of k] show ?thesis using new wf e
      by (simp add: add_message_def Let_def queue_wf_def)
  qed
  have cfg: "q_cfgIdx (add_message k m g ok q1) = q_cfgIdx q"
    using wf by (cases rule: ensure_group_total [where k = k])
      (use e in \<open>simp_all add: add_message_def Let_def\<close>)
  have "{k'. GetGroup (add_message k m g ok q1) k' \<noteq> None} = insert k {k. GetGroup q k \<noteq> None}"
    by (auto simp: get)
  then show ?thesis using wf sh' idx cfg get enqueue_inv [OF g fresh] by (simp add: queue_wf_def)
qed

section \<open>Configuration and sweep\<close>

lemma map_groups_wf:
  assumes wf: "queue_wf q" and f: "\<And>k g. grp_inv k g \<Longrightarrow> grp_inv k (f k g)"
  shows "queue_wf (map_groups f q)"
proof -
  have sh: "shards_wf q" using wf by (simp add: queue_wf_def)
  have "q_cfgIdx (map_groups f q) = q_cfgIdx q" "q_keyIdx (map_groups f q) = q_keyIdx q"
    by (simp_all add: map_groups_def)
  then show ?thesis using wf map_groups_look [OF sh, of f] f by (auto simp: queue_wf_def)
qed

lemma cfgs_ok_mono:
  assumes "cfgs_ok ci" and "config_ok c" and "snd ` set (ci_exact ci') \<subseteq> insert c (snd ` set (ci_exact ci))"
    and "set (ci_wildcards ci') \<subseteq> insert c (set (ci_wildcards ci))"
  shows "cfgs_ok ci'"
  using assms unfolding cfgs_ok_def by blast

lemma cfgs_ok_set:
  assumes "ci_wf ci" and "cfgs_ok ci" and "config_ok c"
  shows "cfgs_ok (ci_set c ci)"
proof (rule cfgs_ok_mono [OF assms(2,3)])
  have g: "gm_wf (ci_exact ci)" using assms(1) by (simp add: ci_wf_def)
  show "snd ` set (ci_exact (ci_set c ci)) \<subseteq> insert c (snd ` set (ci_exact ci))"
  proof
    fix x assume "x \<in> snd ` set (ci_exact (ci_set c ci))"
    then obtain k where "(k, x) \<in> set (ci_exact (ci_set c ci))" by auto
    then show "x \<in> insert c (snd ` set (ci_exact ci))"
      using gm_put_in [OF g, of k x "c_Key c" c] by (force simp: ci_set_def split: if_splits)
  qed
  have "set (setWildcard c ws) \<subseteq> insert c (set ws)" for ws by (induction ws) auto
  then show "set (ci_wildcards (ci_set c ci)) \<subseteq> insert c (set (ci_wildcards ci))"
    by (auto simp: ci_set_def)
qed

lemma cfgs_ok_del:
  assumes "cfgs_ok ci"
  shows "cfgs_ok (snd (ci_del k ci))"
proof (rule cfgs_ok_mono [OF assms])
  show "config_ok (defaultGroupConfig k)" by (simp add: config_ok_def defaultGroupConfig_def)
  have "set (snd (delWildcard k ws)) \<subseteq> set ws" for ws by (induction ws) (auto simp: Let_def split_beta)
  then show "set (ci_wildcards (snd (ci_del k ci))) \<subseteq> insert (defaultGroupConfig k) (set (ci_wildcards ci))"
    by (auto simp: ci_del_def Let_def split_beta)
  show "snd ` set (ci_exact (snd (ci_del k ci))) \<subseteq> insert (defaultGroupConfig k) (snd ` set (ci_exact ci))"
    by (auto simp: ci_del_def Let_def split_beta AList.delete_eq)
qed

lemma grp_inv_cfg:
  "grp_inv k g \<Longrightarrow> c_Key c = k \<Longrightarrow> grp_inv k (g\<lparr>g_cfg := c, g_quantum := x\<rparr>)"
  by (simp add: grp_inv_def group_wf_def group_rep_def live_ids_def urgentQ_def readyQ_def)

lemma GetGroup_cfgIdx [simp]: "GetGroup (q\<lparr>q_cfgIdx := x\<rparr>) k = GetGroup q k"
  "shards_wf (q\<lparr>q_cfgIdx := x\<rparr>) = shards_wf q"
  by (simp_all add: GetGroup_def shards_wf_def)

lemma queue_wf_cfgIdx:
  "queue_wf q \<Longrightarrow> ci_wf ci \<Longrightarrow> cfgs_ok ci \<Longrightarrow> queue_wf (q\<lparr>q_cfgIdx := ci\<rparr>)"
  by (simp add: queue_wf_def)

lemma SetGroupConfig_eq:
  "SetGroupConfig cfg0 q =
     (let cfg = (if c_Quantum cfg0 \<le> 0 then cfg0\<lparr>c_Quantum := 1\<rparr> else cfg0);
          q = q\<lparr>q_cfgIdx := ci_set cfg (q_cfgIdx q)\<rparr>
      in if \<not> isGlobPattern (c_Key cfg)
         then groups.modify (c_Key cfg) (\<lambda>g. g\<lparr>g_cfg := cfg, g_quantum := c_Quantum cfg\<rparr>) q
         else map_groups (\<lambda>key g. if Matches cfg key
                then g\<lparr>g_cfg := cfg\<lparr>c_Key := key\<rparr>, g_quantum := c_Quantum cfg\<rparr> else g) q)"
proof -
  have "(\<lambda>(key, g). if P key then (key, a key g) else (key, g)) = (\<lambda>(key, g). (key, if P key then a key g else g))"
    for P :: "string \<Rightarrow> bool" and a :: "string \<Rightarrow> group \<Rightarrow> group" by auto
  then show ?thesis by (simp add: SetGroupConfig_def groups.modify_def map_groups_def Let_def)
qed

lemma SetGroupConfig_wf:
  assumes wf: "queue_wf q" and ok: "config_ok cfg0"
  shows "queue_wf (SetGroupConfig cfg0 q)"
proof -
  define cfg where "cfg = (if c_Quantum cfg0 \<le> 0 then cfg0\<lparr>c_Quantum := 1\<rparr> else cfg0)"
  let ?q = "q\<lparr>q_cfgIdx := ci_set cfg (q_cfgIdx q)\<rparr>"
  have "config_ok cfg" using ok by (simp add: cfg_def config_ok_def)
  then have wf': "queue_wf ?q"
    using wf by (intro queue_wf_cfgIdx) (simp_all add: queue_wf_def ci_wf_set cfgs_ok_set)
  show ?thesis
  proof (cases "isGlobPattern (c_Key cfg)")
    case False
    let ?f = "\<lambda>g. g\<lparr>g_cfg := cfg, g_quantum := c_Quantum cfg\<rparr>"
    have sh: "shards_wf ?q" using wf' by (simp add: queue_wf_def)
    have "grp_inv k g" if "GetGroup (groups.modify (c_Key cfg) ?f ?q) k = Some g" for k g
      using that wf' grp_inv_cfg [of "c_Key cfg" _ cfg]
      by (auto simp: groups.look_modify [OF sh] queue_wf_def split: if_splits)
    then have "queue_wf (groups.modify (c_Key cfg) ?f ?q)"
      using wf' groups.inv_modify [OF sh] groups.modify_dom [OF sh] by (simp add: queue_wf_def)
    then show ?thesis using False by (simp add: SetGroupConfig_eq Let_def cfg_def [symmetric])
  next
    case True
    show ?thesis using True map_groups_wf [OF wf'] grp_inv_cfg
      by (simp add: SetGroupConfig_eq Let_def cfg_def [symmetric])
  qed
qed

lemma DeleteGroupConfig_wf: "queue_wf q \<Longrightarrow> queue_wf (snd (DeleteGroupConfig key q))"
  using queue_wf_cfgIdx [of q "snd (ci_del key (q_cfgIdx q))"] ci_wf_del cfgs_ok_del
  by (simp add: DeleteGroupConfig_def queue_wf_def split_beta)

lemma Sweep_eq: "snd (SweepExpiredLeases itg it now q) = map_groups (\<lambda>_. sweepGroup it now) q"
  by (simp add: SweepExpiredLeases_def map_groups_def)

lemma Sweep_wf: "queue_wf q \<Longrightarrow> queue_wf (snd (SweepExpiredLeases itg it now q))"
  using map_groups_wf [of q "\<lambda>_. sweepGroup it now"] shrinks_sweep [of it now]
  by (simp add: Sweep_eq shrinks_def)

section \<open>Operations as steps\<close>

datatype qop =
    OpPublish string "byte list" gtime
  | OpPublishWithID string "byte list" gtime
  | OpComplete string string
  | OpCompleteAndNext string string gtime
  | OpTryDispatchOne string gtime
  | OpFail string string string gtime
  | OpFailAndNext string string string gtime
  | OpDrainGroup string gtime
  | OpReturnToPending string string
  | OpSweep gtime
  | OpSetConfig GroupConfig
  | OpDeleteConfig string
  | OpReplayLease string string gtime
  | OpRemoveMessage string string

definition forget :: "'a outcome \<Rightarrow> unit outcome" where
  "forget r = (case r of Ret _ \<Rightarrow> Ret () | Panic e \<Rightarrow> Panic e)"

text \<open>
  One operation on a queue, with the generator.  \<open>PublishWithID\<close> is called as the broker does, with
  an identifier generated just before.
\<close>

fun exec_op ::
  "(string, group) range_order \<Rightarrow> (string, message) range_order \<Rightarrow> qop \<Rightarrow> idgen \<times> Queue \<Rightarrow>
   unit outcome \<times> idgen \<times> Queue" where
  "exec_op itg it (OpPublish k p now) (gen, q) =
     (let (r, gen, q) = Publish k p now gen q in (forget r, gen, q))"
| "exec_op itg it (OpPublishWithID k p now) (gen, q) =
     (let (i, gen) = GenerateID gen; (r, gen, q) = PublishWithID k i p now gen q in (forget r, gen, q))"
| "exec_op itg it (OpComplete k i) (gen, q) = (Ret (), gen, snd (Complete k i q))"
| "exec_op itg it (OpCompleteAndNext k i now) (gen, q) =
     (let (r, q) = CompleteAndNext it k i now q in (forget r, gen, q))"
| "exec_op itg it (OpTryDispatchOne k now) (gen, q) =
     (let (r, q) = TryDispatchOne it k now q in (forget r, gen, q))"
| "exec_op itg it (OpFail k i err now) (gen, q) = (Ret (), gen, snd (Fail k i err now q))"
| "exec_op itg it (OpFailAndNext k i err now) (gen, q) =
     (let (r, q) = FailAndNext it k i err now q in (forget r, gen, q))"
| "exec_op itg it (OpDrainGroup k now) (gen, q) =
     (let (r, q) = DrainGroup it k now q in (forget r, gen, q))"
| "exec_op itg it (OpReturnToPending k i) (gen, q) = (Ret (), gen, ReturnToPending k i q)"
| "exec_op itg it (OpSweep now) (gen, q) = (Ret (), gen, snd (SweepExpiredLeases itg it now q))"
| "exec_op itg it (OpSetConfig cfg) (gen, q) = (Ret (), gen, SetGroupConfig cfg q)"
| "exec_op itg it (OpDeleteConfig k) (gen, q) = (Ret (), gen, snd (DeleteGroupConfig k q))"
| "exec_op itg it (OpReplayLease k i now) (gen, q) =
     (let (r, q) = ReplayLease k i now q in (forget r, gen, q))"
| "exec_op itg it (OpRemoveMessage k i) (gen, q) = (Ret (), gen, snd (RemoveMessage k i q))"

fun exec_ops ::
  "(string, group) range_order \<Rightarrow> (string, message) range_order \<Rightarrow> qop list \<Rightarrow> idgen \<times> Queue \<Rightarrow>
   unit outcome \<times> idgen \<times> Queue" where
  "exec_ops itg it [] s = (Ret (), s)"
| "exec_ops itg it (op # ops) s =
     (case exec_op itg it op s of
        (Panic e, s) \<Rightarrow> (Panic e, s)
      | (Ret _, s) \<Rightarrow> exec_ops itg it ops s)"

text \<open>The operations of a queue in service; the last two are for the replay of a log only.\<close>

fun op_ok :: "qop \<Rightarrow> bool" where
  "op_ok (OpSetConfig cfg) = config_ok cfg"
| "op_ok (OpReplayLease _ _ _) = False"
| "op_ok (OpRemoveMessage _ _) = False"
| "op_ok _ = True"

text \<open>
  The identifiers in the queue are among the first \<open>n\<close> the generator has issued.
\<close>

definition gen_inv :: "nat \<Rightarrow> idgen \<Rightarrow> Queue \<Rightarrow> bool" where
  "gen_inv n gen q =
     (msgIDCounter gen = of_nat n \<and>
      (\<forall>k g. GetGroup q k = Some g \<longrightarrow>
        (\<forall>i \<in># live_ids g. \<exists>j < n. i = nth_id (initMsgIDPrefix gen) (of_nat (Suc j)))))"

lemma newID_step:
  assumes "msgIDCounter gen = of_nat n"
  shows "newID gen = (nth_id (initMsgIDPrefix gen) (of_nat (Suc n)), gen\<lparr>msgIDCounter := of_nat (Suc n)\<rparr>)"
  using assms by (simp add: newID_unfold nth_id_def add.commute)

lemma nth_id_fresh:
  assumes "j < n" and "Suc n < 2 ^ 64"
  shows "nth_id p (of_nat (Suc j)) \<noteq> nth_id p (of_nat (Suc n))"
proof -
  have "(of_nat (Suc j) :: 64 word) \<noteq> of_nat (Suc n)"
    using assms by (simp add: word_of_nat_eq_iff take_bit_nat_eq_self del: of_nat_Suc)
  then show ?thesis by (simp add: nth_id_inject del: of_nat_Suc)
qed

definition op_result :: "nat \<Rightarrow> unit outcome \<times> idgen \<times> Queue \<Rightarrow> bool" where
  "op_result n res = (\<exists>gen q n'. res = (Ret (), gen, q) \<and> n' \<le> n + 2 \<and> queue_wf q \<and> gen_inv n' gen q)"

lemma op_resultI:
  "n' \<le> n + 2 \<Longrightarrow> queue_wf q \<Longrightarrow> gen_inv n' gen q \<Longrightarrow> op_result n (Ret (), gen, q)"
  unfolding op_result_def by blast

lemma modify_result:
  assumes "queue_wf q" and "gen_inv n gen q" and "shrinks f"
  shows "op_result n (Ret (), gen, groups.modify k f q)"
proof -
  have sh: "shards_wf q" using assms(1) by (simp add: queue_wf_def)
  have "gen_inv n gen (groups.modify k f q)"
    unfolding gen_inv_def
  proof (intro conjI allI impI ballI)
    show "msgIDCounter gen = of_nat n" using assms(2) by (simp add: gen_inv_def)
    fix k' g i assume g: "GetGroup (groups.modify k f q) k' = Some g" and i: "i \<in># live_ids g"
    have "\<exists>g0. GetGroup q k' = Some g0 \<and> i \<in># live_ids g0"
    proof (cases "k' = k")
      case True
      then obtain g0 where g0: "GetGroup q k' = Some g0" "g = f g0"
        using g by (auto simp: groups.look_modify [OF sh])
      have "grp_inv k' g0" using g0(1) assms(1) by (simp add: queue_wf_def)
      then have "set_mset (live_ids g) \<subseteq> set_mset (live_ids g0)"
        using assms(3) unfolding shrinks_def g0(2) by blast
      then show ?thesis using g0(1) i by blast
    qed (use g i in \<open>simp add: groups.look_modify [OF sh]\<close>)
    then show "\<exists>j < n. i = nth_id (initMsgIDPrefix gen) (of_nat (Suc j))"
      using assms(2) unfolding gen_inv_def by blast
  qed
  then show ?thesis by (intro op_resultI [of n] modify_wf assms(1,3)) simp_all
qed

lemma publish_result:
  assumes wf: "queue_wf q" and gen: "gen_inv n gen q" and n: "n + 2 < 2 ^ 64"
    and e: "ensure_group k q = (Ret (g, ok), q1)" and n': "n' = n + 1 \<or> n' = n + 2"
    and gen': "gen' = gen\<lparr>msgIDCounter := of_nat n'\<rparr>"
    and m: "m_ID m = nth_id (initMsgIDPrefix gen) (of_nat (Suc n))"
  shows "op_result n (Ret (), gen', add_message k m g ok q1)"
proof -
  have ids: "\<exists>j < n. i = nth_id (initMsgIDPrefix gen) (of_nat (Suc j))" if "i \<in># live_ids g" for i
    using wf
  proof (cases rule: ensure_group_total [where k = k])
    case (old g0)
    then have "GetGroup q k = Some g" using e by simp
    then show ?thesis using gen that unfolding gen_inv_def by blast
  next
    case (new g0)
    then show ?thesis using e that by simp
  qed
  have fresh: "m_ID m \<notin># live_ids g"
    using ids nth_id_fresh [of _ n] n m by (metis Suc_lessD add_2_eq_Suc')
  note a = add_message_wf [OF wf e fresh]
  have rep: "group_rep g" using wf
    by (cases rule: ensure_group_total [where k = k]) (use e in \<open>auto intro: grp_inv_rep\<close>)
  have "gen_inv n' gen' (add_message k m g ok q1)"
    unfolding gen_inv_def
  proof (intro conjI allI impI ballI)
    show "msgIDCounter gen' = of_nat n'" by (simp add: gen')
    fix k' g' i assume g': "GetGroup (add_message k m g ok q1) k' = Some g'" and i: "i \<in># live_ids g'"
    have "i = m_ID m \<or> (\<exists>j < n. i = nth_id (initMsgIDPrefix gen) (of_nat (Suc j)))"
    proof (cases "k' = k")
      case True
      then have "g' = enqueue m g" using a g' by simp
      then show ?thesis using i ids enqueue_pres [OF rep, of m] by auto
    next
      case False
      then show ?thesis using a g' i gen unfolding gen_inv_def by auto
    qed
    then show "\<exists>j < n'. i = nth_id (initMsgIDPrefix gen') (of_nat (Suc j))"
      using m n' by (auto simp: gen' simp del: of_nat_Suc intro: exI [of _ n] less_trans)
  qed
  then show ?thesis using a n' by (intro op_resultI [of n']) auto
qed

lemma gen_inv_later:
  assumes "gen_inv n gen q"
  shows "gen_inv (Suc n) (gen\<lparr>msgIDCounter := of_nat (Suc n)\<rparr>) q"
  unfolding gen_inv_def
proof (intro conjI allI impI ballI)
  fix k g i assume "GetGroup q k = Some g" and "i \<in># live_ids g"
  then obtain j where "j < n" "i = nth_id (initMsgIDPrefix gen) (of_nat (Suc j))"
    using assms unfolding gen_inv_def by blast
  then show "\<exists>j < Suc n. i = nth_id (initMsgIDPrefix (gen\<lparr>msgIDCounter := of_nat (Suc n)\<rparr>)) (of_nat (Suc j))"
    by (intro exI [of _ j]) simp
qed simp

lemma Publish_ok:
  assumes wf: "queue_wf q" and gen: "gen_inv n gen q" and n: "n + 2 < 2 ^ 64"
  shows "op_result n (exec_op itg it (OpPublish k p now) (gen, q))"
proof -
  obtain g ok q1 where e: "ensure_group k q = (Ret (g, ok), q1)"
    using wf by (cases rule: ensure_group_total [where k = k]) blast+
  have c: "msgIDCounter gen = of_nat n" using gen by (simp add: gen_inv_def)
  show ?thesis
  proof (cases "c_MaxPending (g_cfg g) > 0 \<and> pendingCount g \<ge> c_MaxPending (g_cfg g)")
    case True
    have "q1 = q" using wf by (cases rule: ensure_group_total [where k = k]) (use e True in auto)
    then show ?thesis using True op_resultI [OF _ wf gen, of n] by (simp add: Publish_def e forget_def)
  next
    case False
    define m where "m = fst (newMessageAt (q_Name q1) (q_Namespace q1) k p now gen)"
    have m: "newMessageAt (q_Name q1) (q_Namespace q1) k p now gen = (m, gen\<lparr>msgIDCounter := of_nat (Suc n)\<rparr>)"
      by (simp add: m_def newMessageAt_def newID_step [OF c] del: of_nat_Suc)
    have "m_ID m = nth_id (initMsgIDPrefix gen) (of_nat (Suc n))"
      by (simp add: m_def newMessageAt_def newID_step [OF c] del: of_nat_Suc)
    from publish_result [OF wf gen n e _ refl this, of "Suc n"] False show ?thesis
      by (auto simp: Publish_def e m forget_def add_message_def Let_def simp del: of_nat_Suc)
  qed
qed

lemma PublishWithID_ok:
  assumes wf: "queue_wf q" and gen: "gen_inv n gen q" and n: "n + 2 < 2 ^ 64"
  shows "op_result n (exec_op itg it (OpPublishWithID k p now) (gen, q))"
proof -
  obtain g ok q1 where e: "ensure_group k q = (Ret (g, ok), q1)"
    using wf by (cases rule: ensure_group_total [where k = k]) blast+
  have c: "msgIDCounter gen = of_nat n" using gen by (simp add: gen_inv_def)
  let ?gen = "gen\<lparr>msgIDCounter := of_nat (Suc n)\<rparr>" and ?i = "nth_id (initMsgIDPrefix gen) (of_nat (Suc n))"
  have c': "msgIDCounter ?gen = of_nat (Suc n)" by simp
  show ?thesis
  proof (cases "c_MaxPending (g_cfg g) > 0 \<and> pendingCount g \<ge> c_MaxPending (g_cfg g)")
    case True
    have "q1 = q" using wf by (cases rule: ensure_group_total [where k = k]) (use e True in auto)
    moreover have "op_result n (Ret (), ?gen, q)" by (rule op_resultI [OF _ wf gen_inv_later [OF gen]]) simp
    ultimately show ?thesis using True
      by (simp add: PublishWithID_def GenerateID_def newID_step [OF c] e forget_def del: of_nat_Suc)
  next
    case False
    obtain m0 where m: "newMessageAt (q_Name q1) (q_Namespace q1) k p now ?gen =
        (m0, gen\<lparr>msgIDCounter := of_nat (Suc (Suc n))\<rparr>)"
      by (simp add: newMessageAt_def newID_step [OF c'] del: of_nat_Suc)
    define m where "m = m0\<lparr>m_ID := ?i\<rparr>"
    have "m_ID m = ?i" by (simp add: m_def)
    from publish_result [OF wf gen n e _ refl this, of "Suc (Suc n)"] False show ?thesis
      by (auto simp: PublishWithID_def GenerateID_def newID_step [OF c] e m m_def [symmetric] forget_def
          add_message_def Let_def simp del: of_nat_Suc)
  qed
qed

text \<open>Every other operation modifies one group by a group operation, or all of them.\<close>

lemma Complete_eq: "snd (Complete k i q) = groups.modify k (\<lambda>g. snd (complete i g)) q"
  by (auto simp: Complete_def groups.modify_def split: option.split prod.split)

lemma Fail_eq: "snd (Fail k i err now q) = groups.modify k (\<lambda>g. snd (fail i err now g)) q"
  by (auto simp: Fail_def groups.modify_def Let_def split: option.split prod.split)

lemma ReturnToPending_eq: "ReturnToPending k i q = groups.modify k (\<lambda>g. snd (returnToPending i g)) q"
  by (simp add: ReturnToPending_def groups.modify_def)

lemma promoted_next:
  assumes "grp_inv k g" and "is_range_order it"
  obtains mo g' where "next_msg now (fst (promoteDelayed it now g)) = (Ret mo, g')"
  using assms shrinks_promote [of it now] next_msg_total unfolding shrinks_def grp_inv_def by metis

lemma TryDispatchOne_eq:
  assumes "queue_wf q" and "is_range_order it"
  obtains mo where "TryDispatchOne it k now q =
    (Ret mo, groups.modify k (\<lambda>g. snd (next_msg now (fst (promoteDelayed it now g)))) q)"
proof (cases "GetGroup q k")
  case None
  then show ?thesis using that by (simp add: TryDispatchOne_def groups.modify_def)
next
  case (Some g)
  then have "grp_inv k g" using assms(1) by (simp add: queue_wf_def)
  then obtain mo g' where "next_msg now (fst (promoteDelayed it now g)) = (Ret mo, g')"
    using promoted_next assms(2) by blast
  then show ?thesis using that Some by (simp add: TryDispatchOne_def groups.modify_def)
qed

lemma CompleteAndNext_eq:
  assumes "queue_wf q" and "is_range_order it"
  obtains mo where "CompleteAndNext it k i now q =
    (Ret mo, groups.modify k (\<lambda>g. snd (next_msg now (fst (promoteDelayed it now (snd (complete i g)))))) q)"
proof (cases "GetGroup q k")
  case None
  then show ?thesis using that by (simp add: CompleteAndNext_def groups.modify_def)
next
  case (Some g)
  then have "grp_inv k g" using assms(1) by (simp add: queue_wf_def)
  then have "grp_inv k (snd (complete i g))" using shrinks_complete [of i] unfolding shrinks_def by blast
  then obtain mo g' where "next_msg now (fst (promoteDelayed it now (snd (complete i g)))) = (Ret mo, g')"
    using promoted_next assms(2) by blast
  then show ?thesis using that Some by (simp add: CompleteAndNext_def groups.modify_def Let_def)
qed

lemma FailAndNext_eq:
  assumes "queue_wf q" and "is_range_order it"
  obtains r where "FailAndNext it k i err now q =
    (Ret r, groups.modify k (\<lambda>g. snd (next_msg now (fst (promoteDelayed it now (snd (fail i err now g)))))) q)"
proof (cases "GetGroup q k")
  case None
  then show ?thesis using that by (simp add: FailAndNext_def groups.modify_def)
next
  case (Some g)
  then have "grp_inv k g" using assms(1) by (simp add: queue_wf_def)
  then have "grp_inv k (snd (fail i err now g))" using shrinks_fail [of i err now] unfolding shrinks_def by blast
  then obtain mo g' where "next_msg now (fst (promoteDelayed it now (snd (fail i err now g)))) = (Ret mo, g')"
    using promoted_next assms(2) by blast
  then show ?thesis using that Some
    by (simp add: FailAndNext_def groups.modify_def Let_def split_beta)
qed

lemma DrainGroup_eq:
  assumes "queue_wf q" and "is_range_order it"
  obtains r where "DrainGroup it k now q = (Ret r, groups.modify k (\<lambda>g. snd (drainRound it now g)) q)"
proof (cases "GetGroup q k")
  case None
  then show ?thesis using that by (simp add: DrainGroup_def groups.modify_def)
next
  case (Some g)
  then have g: "group_wf g" "0 \<le> g_deficit g" using assms(1) by (simp_all add: queue_wf_def grp_inv_def)
  obtain r g' where d: "drainRound it now g = (r, g')" by fastforce
  with drainRound_pres [OF g assms(2)] obtain x where "r = Ret x" by metis
  then show ?thesis using that Some d by (simp add: DrainGroup_def groups.modify_def)
qed

lemmas shrinks_ops =
  shrinks_complete shrinks_fail shrinks_return shrinks_drain
  shrinks_comp [OF shrinks_next shrinks_promote]
  shrinks_comp [OF shrinks_comp [OF shrinks_next shrinks_promote] shrinks_complete]
  shrinks_comp [OF shrinks_comp [OF shrinks_next shrinks_promote] shrinks_fail]

lemma map_groups_result:
  assumes "queue_wf q" and "gen_inv n gen q" and "shrinks f"
  shows "op_result n (Ret (), gen, map_groups (\<lambda>_. f) q)"
proof (rule op_resultI [of n])
  have sh: "shards_wf q" using assms(1) by (simp add: queue_wf_def)
  show "queue_wf (map_groups (\<lambda>_. f) q)"
    by (rule map_groups_wf [OF assms(1)]) (use assms(3) in \<open>simp add: shrinks_def\<close>)
  show "gen_inv n gen (map_groups (\<lambda>_. f) q)"
    unfolding gen_inv_def
  proof (intro conjI allI impI ballI)
    show "msgIDCounter gen = of_nat n" using assms(2) by (simp add: gen_inv_def)
    fix k g i assume g: "GetGroup (map_groups (\<lambda>_. f) q) k = Some g" and i: "i \<in># live_ids g"
    then obtain g0 where g0: "GetGroup q k = Some g0" "g = f g0" using map_groups_look [OF sh] by auto
    then have "grp_inv k g0" using assms(1) by (simp add: queue_wf_def)
    then have "i \<in># live_ids g0" using assms(3) i unfolding shrinks_def g0(2) by blast
    then show "\<exists>j < n. i = nth_id (initMsgIDPrefix gen) (of_nat (Suc j))"
      using assms(2) g0(1) unfolding gen_inv_def by blast
  qed
qed simp

lemma live_ids_cfg [simp]: "live_ids (g\<lparr>g_cfg := c\<rparr>) = live_ids g"
  by (simp add: live_ids_def urgentQ_def readyQ_def)

lemma SetGroupConfig_ids:
  assumes "queue_wf q" and "GetGroup (SetGroupConfig cfg q) k = Some g"
  shows "\<exists>g0. GetGroup q k = Some g0 \<and> live_ids g = live_ids g0"
proof -
  have sh: "shards_wf (q\<lparr>q_cfgIdx := ci\<rparr>)" for ci using assms(1) by (simp add: queue_wf_def)
  show ?thesis using assms(2)
    by (auto simp: SetGroupConfig_eq Let_def groups.look_modify [OF sh] map_groups_look [OF sh] split: if_splits)
qed

lemma SetConfig_result:
  assumes "queue_wf q" and "gen_inv n gen q" and "config_ok cfg"
  shows "op_result n (Ret (), gen, SetGroupConfig cfg q)"
proof (rule op_resultI [OF _ SetGroupConfig_wf [OF assms(1,3)]])
  show "gen_inv n gen (SetGroupConfig cfg q)"
    using assms(2) SetGroupConfig_ids [OF assms(1)] unfolding gen_inv_def by metis
qed simp

lemma DeleteConfig_result:
  assumes "queue_wf q" and "gen_inv n gen q"
  shows "op_result n (Ret (), gen, snd (DeleteGroupConfig k q))"
  by (rule op_resultI [of n], simp, rule DeleteGroupConfig_wf [OF assms(1)])
    (use assms(2) in \<open>simp add: gen_inv_def DeleteGroupConfig_def split_beta\<close>)

lemma exec_op_ok:
  assumes wf: "queue_wf q" and gen: "gen_inv n gen q" and n: "n + 2 < 2 ^ 64"
    and it: "is_range_order it" and op: "op_ok op"
  shows "op_result n (exec_op itg it op (gen, q))"
proof (cases op)
  case (OpPublish k p now)
  then show ?thesis using Publish_ok [OF wf gen n] by simp
next
  case (OpPublishWithID k p now)
  then show ?thesis using PublishWithID_ok [OF wf gen n] by simp
next
  case (OpComplete k i)
  then show ?thesis using modify_result [OF wf gen shrinks_ops(1)] by (simp add: Complete_eq)
next
  case (OpCompleteAndNext k i now)
  obtain r where "CompleteAndNext it k i now q =
      (Ret r, groups.modify k (\<lambda>g. snd (next_msg now (fst (promoteDelayed it now (snd (complete i g)))))) q)"
    using CompleteAndNext_eq [OF wf it] by blast
  then show ?thesis using OpCompleteAndNext modify_result [OF wf gen shrinks_ops(6) [OF it]] by (simp add: forget_def)
next
  case (OpTryDispatchOne k now)
  obtain r where "TryDispatchOne it k now q =
      (Ret r, groups.modify k (\<lambda>g. snd (next_msg now (fst (promoteDelayed it now g)))) q)"
    using TryDispatchOne_eq [OF wf it] by blast
  then show ?thesis using OpTryDispatchOne modify_result [OF wf gen shrinks_ops(5) [OF it]] by (simp add: forget_def)
next
  case (OpFail k i err now)
  then show ?thesis using modify_result [OF wf gen shrinks_ops(2)] by (simp add: Fail_eq)
next
  case (OpFailAndNext k i err now)
  obtain r where "FailAndNext it k i err now q =
      (Ret r, groups.modify k (\<lambda>g. snd (next_msg now (fst (promoteDelayed it now (snd (fail i err now g)))))) q)"
    using FailAndNext_eq [OF wf it] by blast
  then show ?thesis using OpFailAndNext modify_result [OF wf gen shrinks_ops(7) [OF it]] by (simp add: forget_def)
next
  case (OpDrainGroup k now)
  obtain r where "DrainGroup it k now q =
      (Ret r, groups.modify k (\<lambda>g. snd (drainRound it now g)) q)"
    using DrainGroup_eq [OF wf it] by blast
  then show ?thesis using OpDrainGroup modify_result [OF wf gen shrinks_ops(4) [OF it]] by (simp add: forget_def)
next
  case (OpReturnToPending k i)
  then show ?thesis using modify_result [OF wf gen shrinks_ops(3)] by (simp add: ReturnToPending_eq)
next
  case (OpSweep now)
  then show ?thesis using map_groups_result [OF wf gen shrinks_sweep] by (simp add: Sweep_eq)
next
  case (OpSetConfig cfg)
  then show ?thesis using SetConfig_result [OF wf gen] op by simp
next
  case (OpDeleteConfig k)
  then show ?thesis using DeleteConfig_result [OF wf gen] by simp
qed (use op in simp_all)

end
