(* ===== verification/Scheduler.thy ===== *)
theory Scheduler
  imports Timing_Wheel Queue_Safety
begin

text \<open>
  The event-driven scheduler (\<open>internal/scheduler/scheduler.go\<close>).  Queues are objects that the
  scheduler, the activations and the timers share by pointer: a pointer is a number, and \<open>s_heap\<close>
  holds the objects.  Since groups are never deleted, a group token is a pointer to its queue with
  the key of the group.  The captured variables of a timer's callback are its data.  The counters of
  busy workers and the statistics of \<open>Metrics\<close> are left out.
\<close>

section \<open>Model\<close>

type_synonym qref = nat

record groupActivation =
  a_q :: qref
  a_groupKey :: string
  a_enqueuedAt :: gtime

record wakeup =
  wk_q :: qref
  wk_groupKey :: string
  wk_wakeNs :: int

record Scheduler =
  s_heap :: "qref \<Rightarrow> Queue"
  s_queues :: "(string, qref) gomap"
  s_active :: "groupActivation list"
  s_wheel :: "wakeup TimingWheel"
  s_activationsTotal :: "64 word"
  s_latencyTotal :: "64 word"
  s_latencyMax :: "64 word"

definition activeCap :: nat where
  "activeCap = 65536"

definition NewScheduler :: "(qref \<Rightarrow> Queue) \<Rightarrow> Scheduler" where
  "NewScheduler heap =
     \<lparr>s_heap = heap, s_queues = [], s_active = [], s_wheel = NewTimingWheel 10000000 65536,
      s_activationsTotal = 0, s_latencyTotal = 0, s_latencyMax = 0\<rparr>"

definition put_queue :: "qref \<Rightarrow> Queue \<Rightarrow> Scheduler \<Rightarrow> Scheduler" where
  "put_queue r q s = s\<lparr>s_heap := (s_heap s)(r := q)\<rparr>"

definition RegisterQueue :: "qref \<Rightarrow> Scheduler \<Rightarrow> Scheduler" where
  "RegisterQueue r s =
     s\<lparr>s_queues := gm_put (queueKey (q_Namespace (s_heap s r)) (q_Name (s_heap s r))) r (s_queues s)\<rparr>"

definition UnregisterQueue :: "string \<Rightarrow> string \<Rightarrow> Scheduler \<Rightarrow> Scheduler" where
  "UnregisterQueue namespace name s = s\<lparr>s_queues := gm_del (queueKey namespace name) (s_queues s)\<rparr>"

definition sch_GetQueue :: "string \<Rightarrow> string \<Rightarrow> Scheduler \<Rightarrow> qref option" where
  "sch_GetQueue namespace name s = gm_get (s_queues s) (queueKey namespace name)"

definition ListQueues :: "(string, qref) range_order \<Rightarrow> Scheduler \<Rightarrow> qref list" where
  "ListQueues it s = map snd (it (s_queues s))"

subsection \<open>Activation\<close>

text \<open>Writing through a group token.\<close>

definition on_token :: "qref \<Rightarrow> string \<Rightarrow> (group \<Rightarrow> group) \<Rightarrow> Scheduler \<Rightarrow> Scheduler" where
  "on_token r key f s =
     (case GetGroup (s_heap s r) key of
        None \<Rightarrow> s
      | Some g \<Rightarrow> put_queue r (put_group key (f g) (s_heap s r)) s)"

definition Activate :: "gtime \<Rightarrow> qref \<Rightarrow> string \<Rightarrow> Scheduler \<Rightarrow> Scheduler" where
  "Activate now r groupKey s =
     (if groupKey = [] then s
      else case GetGroup (s_heap s r) groupKey of
        None \<Rightarrow> s
      | Some g \<Rightarrow>
          if fst (TrySchedule g) then
            let s = on_token r groupKey (\<lambda>g. snd (TrySchedule g)) s;
                s = s\<lparr>s_activationsTotal := s_activationsTotal s + 1\<rparr>
            in if length (s_active s) < activeCap
               then s\<lparr>s_active := s_active s @ [\<lparr>a_q = r, a_groupKey = groupKey, a_enqueuedAt = now\<rparr>]\<rparr>
               else on_token r groupKey Unschedule s
          else s)"

text \<open>
  \<open>rnow\<close> is the clock of \<open>time.Until\<close>, \<open>now\<close> the coarse clock that the wheel reads.  A lost race of the
  compare-and-swap only repeats the loop, so the loop is one step.
\<close>

definition scheduleWake :: "gtime \<Rightarrow> gtime \<Rightarrow> qref \<Rightarrow> string \<Rightarrow> gtime \<Rightarrow> Scheduler \<Rightarrow> Scheduler" where
  "scheduleWake rnow now r groupKey wakeAt s =
     (case GetGroup (s_heap s r) groupKey of
        None \<Rightarrow> s
      | Some g \<Rightarrow>
          let wakeNs = to_i64 wakeAt; curr = LoadWake g
          in if curr \<noteq> 0 \<and> curr \<le> wakeNs then s
             else
               let s = on_token r groupKey (\<lambda>g. snd (TrySetWake curr wakeNs g)) s;
                   delay = wakeAt - rnow;
                   delay = (if delay < 0 then 0 else delay)
               in s\<lparr>s_wheel := tw_Add now delay \<lparr>wk_q = r, wk_groupKey = groupKey, wk_wakeNs = wakeNs\<rparr> (s_wheel s)\<rparr>)"

text \<open>The callback of a timer, and a tick of the wheel.\<close>

definition wake_group :: "gtime \<Rightarrow> wakeup \<Rightarrow> Scheduler \<Rightarrow> Scheduler" where
  "wake_group now w s =
     Activate now (wk_q w) (wk_groupKey w) (on_token (wk_q w) (wk_groupKey w) (ClearWake (wk_wakeNs w)) s)"

definition wheel_turn :: "gtime \<Rightarrow> Scheduler \<Rightarrow> Scheduler" where
  "wheel_turn now s = (let (cbs, tw) = tick now (s_wheel s) in fold (wake_group now) cbs (s\<lparr>s_wheel := tw\<rparr>))"

subsection \<open>Processing an activation\<close>

type_synonym 'b DispatchFunc = "message \<Rightarrow> 'b \<Rightarrow> bool \<times> 'b"

text \<open>
  The loop over the drained messages; the state \<open>'b\<close> is what the dispatch function changes.  The
  first refusal returns that message and all that follow.
\<close>

fun deliver :: "'b DispatchFunc \<Rightarrow> string \<Rightarrow> message list \<Rightarrow> Queue \<Rightarrow> 'b \<Rightarrow> bool \<times> Queue \<times> 'b" where
  "deliver dispatch key [] q b = (True, q, b)"
| "deliver dispatch key (msg # ms) q b =
     (case dispatch msg b of
        (True, b) \<Rightarrow> deliver dispatch key ms q b
      | (False, b) \<Rightarrow> (False, fold (\<lambda>m. ReturnToPending key (m_ID m)) (msg # ms) q, b))"

definition record_latency :: "gtime \<Rightarrow> groupActivation \<Rightarrow> Scheduler \<Rightarrow> Scheduler" where
  "record_latency now a s =
     (let latencyNs = word_of_int (now - a_enqueuedAt a) :: 64 word
      in s\<lparr>s_latencyTotal := s_latencyTotal s + latencyNs,
           s_latencyMax := (if latencyNs \<le> s_latencyMax s then s_latencyMax s else latencyNs)\<rparr>)"

definition processActivation ::
  "'b DispatchFunc \<Rightarrow> (string, message) range_order \<Rightarrow> gtime \<Rightarrow> gtime \<Rightarrow> groupActivation \<Rightarrow>
   Scheduler \<times> 'b \<Rightarrow> unit outcome \<times> Scheduler \<times> 'b" where
  "processActivation dispatch it rnow now a = (\<lambda>(s, b).
     let r = a_q a; key = a_groupKey a;
         s = on_token r key Unschedule (record_latency now a s)
     in case DrainGroup it key now (s_heap s r) of
          (Panic e, q) \<Rightarrow> (Panic e, put_queue r q s, b)
        | (Ret (ready, wakeAt, hasWake, stillPending), q) \<Rightarrow>
            let (delivered, q, b) = (case ready of None \<Rightarrow> (True, q, b) | Some ms \<Rightarrow> deliver dispatch key ms q b);
                s = put_queue r q s
            in (Ret (),
                (if \<not> delivered then s
                 else if hasWake then scheduleWake rnow now r key wakeAt s
                 else if stillPending then Activate now r key s
                 else s), b))"

text \<open>One iteration of a worker; after a panic the worker is started again.\<close>

definition worker ::
  "'b DispatchFunc \<Rightarrow> (string, message) range_order \<Rightarrow> gtime \<Rightarrow> gtime \<Rightarrow> Scheduler \<times> 'b \<Rightarrow> Scheduler \<times> 'b" where
  "worker dispatch it rnow now = (\<lambda>(s, b).
     case s_active s of
       [] \<Rightarrow> (s, b)
     | a # as \<Rightarrow> snd (processActivation dispatch it rnow now a (s\<lparr>s_active := as\<rparr>, b)))"

end
