(* ===== verification/Registry.thy ===== *)
theory Registry
  imports Prelude
begin

text \<open>
  The subscription registry of the broker (\<open>internal/broker/registry.go\<close>): glob patterns, the list of
  the connections subscribed under one key with its round-robin cursor, and the two maps of exact
  and wildcard keys.  A connection is a number.  A \<open>sync.Map\<close> is a map whose \<open>Range\<close> order is a
  parameter.
\<close>

section \<open>Glob patterns\<close>

definition reg_isGlobPattern :: "string \<Rightarrow> bool" where
  "reg_isGlobPattern s = list_ex (\<lambda>c. c \<in> set ''*?['') s"

text \<open>\<open>name[i:]\<close> for \<open>i\<close> from 0 to \<open>len(name)\<close>.\<close>

primrec suffixes_of :: "'a list \<Rightarrow> 'a list list" where
  "suffixes_of [] = [[]]"
| "suffixes_of (x # xs) = (x # xs) # suffixes_of xs"

function matchGlobRec :: "string \<Rightarrow> string \<Rightarrow> bool" where
  "matchGlobRec [] name = (name = [])"
| "matchGlobRec (p # pattern) name =
     (if p = CHR ''*'' then
        (let pattern = dropWhile (\<lambda>c. c = CHR ''*'') pattern
         in if pattern = [] then True else list_ex (matchGlobRec pattern) (suffixes_of name))
      else if p = CHR ''?'' then
        (case name of [] \<Rightarrow> False | _ # name \<Rightarrow> matchGlobRec pattern name)
      else
        (case name of [] \<Rightarrow> False | n # name \<Rightarrow> p = n \<and> matchGlobRec pattern name))"
  by pat_completeness auto
termination
  by (relation "measure (length \<circ> fst)") (auto simp: le_imp_less_Suc length_dropWhile_le)

definition matchGlob :: "string \<Rightarrow> string \<Rightarrow> bool" where
  "matchGlob pattern name = matchGlobRec pattern name"

section \<open>Subscriber lists\<close>

type_synonym conn = nat

record subKey =
  k_ns :: string
  k_queue :: string
  k_group :: string

record subList =
  sl_conns :: "conn list option"
  sl_cursor :: "64 word"

definition newSubList :: subList where
  "newSubList = \<lparr>sl_conns = None, sl_cursor = 0\<rparr>"

definition sl_list :: "subList \<Rightarrow> conn list" where
  "sl_list l = (case sl_conns l of None \<Rightarrow> [] | Some cs \<Rightarrow> cs)"

definition sl_add :: "conn \<Rightarrow> subList \<Rightarrow> subList" where
  "sl_add c l = l\<lparr>sl_conns := Some (sl_list l @ [c])\<rparr>"

definition sl_remove :: "conn \<Rightarrow> subList \<Rightarrow> bool \<times> subList" where
  "sl_remove c l =
     (case sl_conns l of
        None \<Rightarrow> (True, l)
      | Some cur \<Rightarrow>
          if c \<in> set cur
          then let nxt = takeWhile (\<lambda>x. x \<noteq> c) cur @ tl (dropWhile (\<lambda>x. x \<noteq> c) cur)
               in (nxt = [], l\<lparr>sl_conns := Some nxt\<rparr>)
          else (cur = [], l))"

definition sl_next :: "subList \<Rightarrow> conn option \<times> subList" where
  "sl_next l =
     (case sl_conns l of
        None \<Rightarrow> (None, l)
      | Some conns \<Rightarrow>
          if conns = [] then (None, l)
          else (Some (conns ! (unat (sl_cursor l) mod length conns)), l\<lparr>sl_cursor := sl_cursor l + 1\<rparr>))"

definition sl_hasAny :: "subList \<Rightarrow> bool" where
  "sl_hasAny l = (case sl_conns l of None \<Rightarrow> False | Some cs \<Rightarrow> length cs > 0)"

section \<open>The registry\<close>

type_synonym subKeyEntry = "subKey \<times> bool"

record subRegistry =
  r_exact :: "(subKey, subList) gomap"
  r_wildcard :: "(subKey, subList) gomap"
  r_connSubs :: "(conn, subKeyEntry list) gomap"

definition newSubRegistry :: subRegistry where
  "newSubRegistry = \<lparr>r_exact = [], r_wildcard = [], r_connSubs = []\<rparr>"

definition load_or_store :: "subKey \<Rightarrow> (subKey, subList) gomap \<Rightarrow> subList" where
  "load_or_store key m = (case gm_get m key of Some l \<Rightarrow> l | None \<Rightarrow> newSubList)"

definition conn_entries :: "conn \<Rightarrow> subRegistry \<Rightarrow> subKeyEntry list" where
  "conn_entries c r = (case gm_get (r_connSubs r) c of Some es \<Rightarrow> es | None \<Rightarrow> [])"

definition reg_add :: "string \<Rightarrow> string \<Rightarrow> string \<Rightarrow> conn \<Rightarrow> subRegistry \<Rightarrow> subRegistry" where
  "reg_add ns q grp c r =
     (let key = \<lparr>k_ns = ns, k_queue = q, k_group = grp\<rparr>;
          wildcard = reg_isGlobPattern grp;
          r = (if wildcard
               then r\<lparr>r_wildcard := gm_put key (sl_add c (load_or_store key (r_wildcard r))) (r_wildcard r)\<rparr>
               else r\<lparr>r_exact := gm_put key (sl_add c (load_or_store key (r_exact r))) (r_exact r)\<rparr>)
      in r\<lparr>r_connSubs := gm_put c (conn_entries c r @ [(key, wildcard)]) (r_connSubs r)\<rparr>)"

definition covers :: "string \<Rightarrow> string \<Rightarrow> string \<Rightarrow> subKey \<Rightarrow> bool" where
  "covers ns q grp key = (k_ns key = ns \<and> k_queue key = q \<and> matchGlob (k_group key) grp)"

definition reg_has :: "string \<Rightarrow> string \<Rightarrow> string \<Rightarrow> subRegistry \<Rightarrow> bool" where
  "reg_has ns q grp r =
     ((case gm_get (r_exact r) \<lparr>k_ns = ns, k_queue = q, k_group = grp\<rparr> of
         Some l \<Rightarrow> sl_hasAny l | None \<Rightarrow> False)
      \<or> list_ex (\<lambda>(key, l). covers ns q grp key \<and> sl_hasAny l) (r_wildcard r))"

text \<open>
  The clean-up of one subscription has two steps, and the second is not under the lock of the list:
  the connection is taken out of the list, and if that left the list empty the key is deleted.
\<close>

definition drop_conn :: "conn \<Rightarrow> subKey \<Rightarrow> (subKey, subList) gomap \<Rightarrow> bool \<times> (subKey, subList) gomap" where
  "drop_conn c key m =
     (case gm_get m key of
        None \<Rightarrow> (False, m)
      | Some l \<Rightarrow> let (emp, l) = sl_remove c l in (emp, gm_put key l m))"

definition drop_entry :: "conn \<Rightarrow> subKey \<Rightarrow> (subKey, subList) gomap \<Rightarrow> (subKey, subList) gomap" where
  "drop_entry c key m = (let (emp, m) = drop_conn c key m in if emp then gm_del key m else m)"

fun reg_cleanup :: "conn \<Rightarrow> subKeyEntry list \<Rightarrow> subRegistry \<Rightarrow> subRegistry" where
  "reg_cleanup c [] r = r"
| "reg_cleanup c ((key, wildcard) # es) r =
     reg_cleanup c es
       (if wildcard then r\<lparr>r_wildcard := drop_entry c key (r_wildcard r)\<rparr>
        else r\<lparr>r_exact := drop_entry c key (r_exact r)\<rparr>)"

definition reg_remove :: "conn \<Rightarrow> subRegistry \<Rightarrow> subRegistry" where
  "reg_remove c r = reg_cleanup c (conn_entries c r) (r\<lparr>r_connSubs := gm_del c (r_connSubs r)\<rparr>)"

fun scan_wildcards :: "string \<Rightarrow> string \<Rightarrow> string \<Rightarrow> (subKey, subList) gomap \<Rightarrow> subRegistry \<Rightarrow> conn option \<times> subRegistry" where
  "scan_wildcards ns q grp [] r = (None, r)"
| "scan_wildcards ns q grp ((key, l) # es) r =
     (if covers ns q grp key then
        (case sl_next l of
           (Some c, l) \<Rightarrow> (Some c, r\<lparr>r_wildcard := gm_put key l (r_wildcard r)\<rparr>)
         | (None, l) \<Rightarrow> scan_wildcards ns q grp es r)
      else scan_wildcards ns q grp es r)"

definition reg_next ::
  "(subKey, subList) range_order \<Rightarrow> string \<Rightarrow> string \<Rightarrow> string \<Rightarrow> subRegistry \<Rightarrow> conn option \<times> subRegistry" where
  "reg_next it ns q grp r =
     (let key = \<lparr>k_ns = ns, k_queue = q, k_group = grp\<rparr> in
      case gm_get (r_exact r) key of
        Some l \<Rightarrow>
          (case sl_next l of
             (Some c, l) \<Rightarrow> (Some c, r\<lparr>r_exact := gm_put key l (r_exact r)\<rparr>)
           | (None, l) \<Rightarrow> scan_wildcards ns q grp (it (r_wildcard r)) r)
      | None \<Rightarrow> scan_wildcards ns q grp (it (r_wildcard r)) r)"

section \<open>What patterns mean\<close>

text \<open>The rules of the comment above \<open>matchGlob\<close>.\<close>

inductive globs :: "string \<Rightarrow> string \<Rightarrow> bool" where
  glob_end: "globs [] []"
| glob_star: "globs p n \<Longrightarrow> globs (CHR ''*'' # p) (xs @ n)"
| glob_any: "globs p n \<Longrightarrow> globs (CHR ''?'' # p) (x # n)"
| glob_char: "c \<noteq> CHR ''*'' \<Longrightarrow> c \<noteq> CHR ''?'' \<Longrightarrow> globs p n \<Longrightarrow> globs (c # p) (c # n)"

inductive_simps globs_Nil: "globs [] n"
inductive_simps globs_Cons: "globs (c # p) n"

lemma in_suffixes: "ys \<in> set (suffixes_of xs) \<longleftrightarrow> (\<exists>zs. xs = zs @ ys)"
  by (induction xs) (auto simp: Cons_eq_append_conv)

lemma globs_stars: "globs (CHR ''*'' # p) n \<longleftrightarrow>
    (\<exists>xs m. n = xs @ m \<and> globs (dropWhile (\<lambda>c. c = CHR ''*'') p) m)"
proof (induction p arbitrary: n)
  case Nil
  then show ?case by (auto simp: globs_Cons)
next
  case (Cons c p)
  have "globs (CHR ''*'' # c # p) n \<longleftrightarrow> (\<exists>xs m. n = xs @ m \<and> globs (c # p) m)"
    by (auto simp: globs_Cons [of "CHR ''*''"])
  then show ?case
  proof (cases "c = CHR ''*''")
    case True
    have "(\<exists>xs m. n = xs @ m \<and> (\<exists>ys k. m = ys @ k \<and> globs d k)) \<longleftrightarrow> (\<exists>xs m. n = xs @ m \<and> globs d m)" for d
      by (metis append.assoc append_Nil)
    with True Cons.IH \<open>globs (CHR ''*'' # c # p) n \<longleftrightarrow> _\<close> show ?thesis by simp
  qed simp
qed

lemma matchGlobRec_globs: "matchGlobRec p n \<longleftrightarrow> globs p n"
proof (induction p n rule: matchGlobRec.induct)
  case (1 name)
  then show ?case by (auto simp: globs_Nil)
next
  case (2 p pattern name)
  show ?case
  proof (cases "p = CHR ''*''")
    case True
    let ?d = "dropWhile (\<lambda>c. c = CHR ''*'') pattern"
    show ?thesis
    proof (cases "?d = []")
      case True
      then have "globs (CHR ''*'' # pattern) name" unfolding globs_stars True by (simp add: globs_Nil)
      with True \<open>p = _\<close> show ?thesis by simp
    next
      case False
      have "globs (CHR ''*'' # pattern) name \<longleftrightarrow> (\<exists>m \<in> set (suffixes_of name). globs ?d m)"
        unfolding globs_stars by (metis in_suffixes)
      with 2(1) [OF True refl False] True False show ?thesis by (simp add: list_ex_iff del: dropWhile_eq_Nil_conv)
    qed
  next
    case False
    with 2(2,3) show ?thesis by (cases name) (auto simp: globs_Cons)
  qed
qed

text \<open>
  [C35] Glob matching.  The matcher with its collapsed stars and early exits decides exactly the
  relation that the documentation describes: a star stands for any sequence, also the empty one and
  also one with slashes, a question mark for one character, everything else for itself.
\<close>

theorem matchGlob_correct: "matchGlob pattern name \<longleftrightarrow> globs pattern name"
  unfolding matchGlob_def by (rule matchGlobRec_globs)

section \<open>Who is subscribed\<close>

lemma remove_first: "c \<in> set cs \<Longrightarrow> takeWhile (\<lambda>x. x \<noteq> c) cs @ tl (dropWhile (\<lambda>x. x \<noteq> c) cs) = remove1 c cs"
  by (induction cs) auto

lemma sl_remove_list:
  "sl_remove c l = (e, l') \<Longrightarrow> sl_list l' = remove1 c (sl_list l) \<and> e = (sl_list l' = [])"
  by (auto simp: sl_remove_def sl_list_def remove_first Let_def remove1_idem split: option.splits if_splits)

lemma sl_add_list [simp]: "sl_list (sl_add c l) = sl_list l @ [c]"
  by (simp add: sl_add_def sl_list_def)

lemma newSubList_list [simp]: "sl_list newSubList = []"
  by (simp add: newSubList_def sl_list_def)

lemma sl_hasAny_list: "sl_hasAny l \<longleftrightarrow> sl_list l \<noteq> []"
  by (simp add: sl_hasAny_def sl_list_def split: option.splits)

lemma sl_next_list:
  assumes "sl_next l = (r, l')"
  shows "sl_list l' = sl_list l" and "r = None \<longleftrightarrow> sl_list l = []" and "r = Some c \<Longrightarrow> c \<in> set (sl_list l)"
  using assms by (auto simp: sl_next_def sl_list_def split: option.splits if_splits)

text \<open>The connections listed under a key, and the invariant between the lists and the entries of the connections.\<close>

definition listed :: "subRegistry \<Rightarrow> subKey \<Rightarrow> conn list" where
  "listed r k = (case gm_get (if reg_isGlobPattern (k_group k) then r_wildcard r else r_exact r) k of
     None \<Rightarrow> [] | Some l \<Rightarrow> sl_list l)"

definition keyed :: "subRegistry \<Rightarrow> bool" where
  "keyed r = (gm_wf (r_exact r) \<and> gm_wf (r_wildcard r)
     \<and> (\<forall>k l. gm_get (r_exact r) k = Some l \<longrightarrow> \<not> reg_isGlobPattern (k_group k))
     \<and> (\<forall>k l. gm_get (r_wildcard r) k = Some l \<longrightarrow> reg_isGlobPattern (k_group k)))"

lemma drop_entry_list:
  "(case gm_get (drop_entry c k m) k' of None \<Rightarrow> [] | Some l \<Rightarrow> sl_list l)
   = (let cs = (case gm_get m k' of None \<Rightarrow> [] | Some l \<Rightarrow> sl_list l) in if k' = k then remove1 c cs else cs)"
  by (auto simp: drop_entry_def drop_conn_def Let_def split: option.splits prod.splits dest: sl_remove_list)

lemma drop_entry_keys: "gm_get (drop_entry c k m) k' = Some l \<Longrightarrow> \<exists>l. gm_get m k' = Some l"
  by (auto simp: drop_entry_def drop_conn_def split: option.splits prod.splits if_splits)

lemma drop_entry_wf: "gm_wf m \<Longrightarrow> gm_wf (drop_entry c k m)"
  by (auto simp: drop_entry_def drop_conn_def gm_wf_put gm_wf_del split: option.splits prod.splits)

lemma cleanup_lists:
  assumes "keyed r" and "\<forall>(k, w) \<in> set es. w = reg_isGlobPattern (k_group k)"
  shows "keyed (reg_cleanup c es r) \<and> r_connSubs (reg_cleanup c es r) = r_connSubs r
    \<and> (\<forall>k c'. count_list (listed (reg_cleanup c es r) k) c' =
      count_list (listed r k) c' - (if c' = c then count_list es (k, reg_isGlobPattern (k_group k)) else 0))"
  using assms
proof (induction c es r rule: reg_cleanup.induct)
  case (2 c key w es r)
  let ?r = "if w then r\<lparr>r_wildcard := drop_entry c key (r_wildcard r)\<rparr> else r\<lparr>r_exact := drop_entry c key (r_exact r)\<rparr>"
  have w: "w = reg_isGlobPattern (k_group key)" and es: "\<forall>(k, w) \<in> set es. w = reg_isGlobPattern (k_group k)" using 2(3) by auto
  have k: "keyed ?r" using 2(2) by (auto simp: keyed_def drop_entry_wf simp del: map_of_eq_Some_iff dest!: drop_entry_keys)
  have "listed ?r k = (if k = key then remove1 c (listed r k) else listed r k)" for k
    using w by (auto simp: listed_def drop_entry_list Let_def)
  moreover have "count_list (remove1 c cs) c' = count_list cs c' - (if c' = c then 1 else 0)" for cs c'
    by (induction cs) auto
  ultimately have "count_list (listed ?r k) c' = count_list (listed r k) c' - (if c' = c \<and> k = key then 1 else 0)"
    for k c' by simp
  with 2(1) [OF k es] w show ?case by auto
qed auto

section \<open>The registry over time\<close>

datatype ract =
    SubAct string string string conn
  | GoneAct conn
  | PickAct "(subKey, subList) range_order" string string string

fun reg_act :: "ract \<Rightarrow> subRegistry \<Rightarrow> subRegistry" where
  "reg_act (SubAct ns q grp c) r = reg_add ns q grp c r"
| "reg_act (GoneAct c) r = reg_remove c r"
| "reg_act (PickAct it ns q grp) r = snd (reg_next it ns q grp r)"

text \<open>The contract: a bag of subscriptions, to which a connection adds and which it leaves as a whole.\<close>

fun sub_act :: "ract \<Rightarrow> (subKey \<times> conn) list \<Rightarrow> (subKey \<times> conn) list" where
  "sub_act (SubAct ns q grp c) S = S @ [(\<lparr>k_ns = ns, k_queue = q, k_group = grp\<rparr>, c)]"
| "sub_act (GoneAct c) S = filter (\<lambda>(k, c'). c' \<noteq> c) S"
| "sub_act (PickAct it ns q grp) S = S"

definition serves :: "string \<Rightarrow> string \<Rightarrow> string \<Rightarrow> subKey \<Rightarrow> bool" where
  "serves ns q grp k =
     (if reg_isGlobPattern (k_group k) then covers ns q grp k else k = \<lparr>k_ns = ns, k_queue = q, k_group = grp\<rparr>)"

definition reg_inv :: "subRegistry \<Rightarrow> (subKey \<times> conn) list \<Rightarrow> bool" where
  "reg_inv r S = (keyed r
     \<and> (\<forall>c. conn_entries c r = map (\<lambda>(k, _). (k, reg_isGlobPattern (k_group k))) (filter (\<lambda>(k, c'). c' = c) S))
     \<and> (\<forall>k c. count_list (listed r k) c = count_list S (k, c)))"

lemma entries_count:
  "count_list (map (\<lambda>(k, _). (k, reg_isGlobPattern (k_group k))) (filter (\<lambda>(k, c'). c' = c) S)) (k, reg_isGlobPattern (k_group k))
   = count_list S (k, c)"
  by (induction S) auto

lemma count_filter_conn: "count_list (filter (\<lambda>(k, c'). c' \<noteq> c) S) (k, c') = (if c' = c then 0 else count_list S (k, c'))"
  by (induction S) auto

lemma reg_add_inv:
  assumes "reg_inv r S"
  shows "reg_inv (reg_add ns q grp c r) (sub_act (SubAct ns q grp c) S)"
proof -
  let ?k = "\<lparr>k_ns = ns, k_queue = q, k_group = grp\<rparr>" and ?r = "reg_add ns q grp c r"
  have "listed ?r k = (if k = ?k then listed r k @ [c] else listed r k)" for k
    by (auto simp: reg_add_def Let_def listed_def load_or_store_def split: option.splits)
  moreover have "conn_entries c' ?r = (if c' = c then conn_entries c r @ [(?k, reg_isGlobPattern grp)] else conn_entries c' r)" for c'
    by (auto simp: reg_add_def Let_def conn_entries_def)
  moreover have "keyed ?r" using assms
    by (auto simp: reg_inv_def keyed_def reg_add_def Let_def gm_wf_put simp del: map_of_eq_Some_iff split: if_splits)
  ultimately show ?thesis using assms by (auto simp: reg_inv_def)
qed

lemma reg_remove_inv:
  assumes "reg_inv r S"
  shows "reg_inv (reg_remove c r) (sub_act (GoneAct c) S)"
proof -
  let ?r0 = "r\<lparr>r_connSubs := gm_del c (r_connSubs r)\<rparr>"
  have "keyed ?r0" "listed ?r0 = listed r" using assms by (auto simp: reg_inv_def keyed_def listed_def)
  moreover have "\<forall>(k, w) \<in> set (conn_entries c r). w = reg_isGlobPattern (k_group k)"
    using assms by (auto simp: reg_inv_def)
  ultimately have C: "keyed (reg_remove c r)" "r_connSubs (reg_remove c r) = gm_del c (r_connSubs r)"
    "count_list (listed (reg_remove c r) k) c' =
      count_list (listed r k) c' - (if c' = c then count_list (conn_entries c r) (k, reg_isGlobPattern (k_group k)) else 0)" for k c'
    using cleanup_lists [of ?r0 "conn_entries c r" c] by (simp_all add: reg_remove_def)
  have "conn_entries c' (reg_remove c r) = (if c' = c then [] else conn_entries c' r)" for c'
    by (simp add: conn_entries_def C(2))
  moreover have "filter (\<lambda>(k, c''). c'' = c') (filter (\<lambda>(k, c'). c' \<noteq> c) S)
    = (if c' = c then [] else filter (\<lambda>(k, c''). c'' = c') S)" for c'
    by (induction S) auto
  ultimately show ?thesis using C(1,3) assms
    by (simp add: reg_inv_def entries_count count_filter_conn)
qed

lemma scan_wildcards_result:
  assumes "scan_wildcards ns q grp es r = (x, r')" and "set es \<subseteq> set (r_wildcard r)" and "gm_wf (r_wildcard r)"
  shows "r_exact r' = r_exact r" and "r_connSubs r' = r_connSubs r"
    and "listed r' k = listed r k" and "keyed r \<Longrightarrow> keyed r'"
    and "x = None \<longleftrightarrow> \<not> (\<exists>k l. (k, l) \<in> set es \<and> covers ns q grp k \<and> sl_list l \<noteq> [])"
    and "x = Some c \<Longrightarrow> \<exists>k l. (k, l) \<in> set es \<and> covers ns q grp k \<and> c \<in> set (sl_list l)"
proof -
  have "r_exact r' = r_exact r \<and> r_connSubs r' = r_connSubs r \<and> (keyed r \<longrightarrow> keyed r') \<and> (\<forall>k. listed r' k = listed r k)
    \<and> (x = None \<longleftrightarrow> \<not> (\<exists>k l. (k, l) \<in> set es \<and> covers ns q grp k \<and> sl_list l \<noteq> []))
    \<and> (\<forall>c. x = Some c \<longrightarrow> (\<exists>k l. (k, l) \<in> set es \<and> covers ns q grp k \<and> c \<in> set (sl_list l)))"
    using assms
  proof (induction es)
    case (Cons e es)
    obtain key l where e: "e = (key, l)" by fastforce
    obtain y l' where n: "sl_next l = (y, l')" by fastforce
    note L = sl_next_list [OF n]
    have g: "gm_get (r_wildcard r) key = Some l" using Cons.prems e by simp
    show ?case
    proof (cases "covers ns q grp key \<and> y \<noteq> None")
      case True
      then obtain c where y: "y = Some c" by auto
      with True n Cons.prems(1) e have x: "x = Some c" and r': "r' = r\<lparr>r_wildcard := gm_put key l' (r_wildcard r)\<rparr>" by auto
      have "listed r' k = listed r k" for k using g L(1) by (auto simp: listed_def r')
      moreover have "keyed r \<longrightarrow> keyed r'"
        using g by (auto simp: keyed_def r' gm_wf_put simp del: map_of_eq_Some_iff split: if_splits)
      ultimately show ?thesis using True L(2) L(3) [of c] y e by (auto simp: x r')
    next
      case False
      with n e Cons.prems(1) have s: "scan_wildcards ns q grp es r = (x, r')" by (auto split: if_splits option.splits)
      from False L(2) have "\<not> (covers ns q grp key \<and> sl_list l \<noteq> [])" by auto
      moreover have "set es \<subseteq> set (r_wildcard r)" using Cons.prems(2) by simp
      ultimately show ?thesis using Cons.IH [OF s] Cons.prems(3) e by (simp, blast)
    qed
  qed auto
  then show "r_exact r' = r_exact r" and "r_connSubs r' = r_connSubs r" and "listed r' k = listed r k"
    and "keyed r \<Longrightarrow> keyed r'" and "x = None \<longleftrightarrow> \<not> (\<exists>k l. (k, l) \<in> set es \<and> covers ns q grp k \<and> sl_list l \<noteq> [])"
    and "x = Some c \<Longrightarrow> \<exists>k l. (k, l) \<in> set es \<and> covers ns q grp k \<and> c \<in> set (sl_list l)" by blast+
qed

lemma exact_listed:
  "keyed r \<Longrightarrow> gm_get (r_exact r) k = Some l \<Longrightarrow> \<not> reg_isGlobPattern (k_group k) \<and> listed r k = sl_list l"
  by (auto simp: keyed_def listed_def)

lemma wildcard_listed:
  "keyed r \<Longrightarrow> (k, l) \<in> set (r_wildcard r) \<Longrightarrow> reg_isGlobPattern (k_group k) \<and> listed r k = sl_list l"
  by (auto simp: keyed_def listed_def)

lemma listed_exact:
  "keyed r \<Longrightarrow> listed r k \<noteq> [] \<Longrightarrow> \<not> reg_isGlobPattern (k_group k) \<Longrightarrow> \<exists>l. gm_get (r_exact r) k = Some l \<and> sl_list l = listed r k"
  by (auto simp: listed_def split: option.splits)

lemma listed_wildcard:
  "keyed r \<Longrightarrow> listed r k \<noteq> [] \<Longrightarrow> reg_isGlobPattern (k_group k) \<Longrightarrow> \<exists>l. (k, l) \<in> set (r_wildcard r) \<and> sl_list l = listed r k"
  by (auto simp: listed_def dest!: map_of_SomeD split: option.splits)

lemma listed_iff: "reg_inv r S \<Longrightarrow> c \<in> set (listed r k) \<longleftrightarrow> (k, c) \<in> set S"
  by (metis count_list_0_iff reg_inv_def)

lemma listed_nonempty: "reg_inv r S \<Longrightarrow> listed r k \<noteq> [] \<longleftrightarrow> (\<exists>c. (k, c) \<in> set S)"
  by (metis listed_iff last_in_set empty_iff list.set(1))

lemma wildcard_served:
  assumes "reg_inv r S"
  shows "(\<exists>k l. (k, l) \<in> set (r_wildcard r) \<and> covers ns q grp k \<and> sl_list l \<noteq> [])
    \<longleftrightarrow> (\<exists>k c. (k, c) \<in> set S \<and> reg_isGlobPattern (k_group k) \<and> covers ns q grp k)"
proof -
  have k: "keyed r" using assms by (simp add: reg_inv_def)
  have "(\<exists>k l. (k, l) \<in> set (r_wildcard r) \<and> covers ns q grp k \<and> sl_list l \<noteq> [])
    \<longleftrightarrow> (\<exists>k. reg_isGlobPattern (k_group k) \<and> listed r k \<noteq> [] \<and> covers ns q grp k)"
    using wildcard_listed [OF k] listed_wildcard [OF k] by metis
  then show ?thesis using listed_nonempty [OF assms] by metis
qed

lemma exact_served:
  assumes "reg_inv r S"
  shows "(\<exists>l. gm_get (r_exact r) k = Some l \<and> sl_list l \<noteq> []) \<longleftrightarrow> \<not> reg_isGlobPattern (k_group k) \<and> (\<exists>c. (k, c) \<in> set S)"
proof -
  have k: "keyed r" using assms by (simp add: reg_inv_def)
  show ?thesis using exact_listed [OF k] listed_exact [OF k] listed_nonempty [OF assms] by metis
qed

lemma served_split:
  "(\<exists>k c. (k, c) \<in> set S \<and> serves ns q grp k) \<longleftrightarrow>
     (\<not> reg_isGlobPattern grp \<and> (\<exists>c. (\<lparr>k_ns = ns, k_queue = q, k_group = grp\<rparr>, c) \<in> set S))
     \<or> (\<exists>k c. (k, c) \<in> set S \<and> reg_isGlobPattern (k_group k) \<and> covers ns q grp k)"
  by (auto simp: serves_def split: if_splits)

lemma reg_has_served: "reg_inv r S \<Longrightarrow> reg_has ns q grp r \<longleftrightarrow> (\<exists>k c. (k, c) \<in> set S \<and> serves ns q grp k)"
  unfolding served_split using wildcard_served [of r S ns q grp] exact_served [of r S "\<lparr>k_ns = ns, k_queue = q, k_group = grp\<rparr>"]
  by (auto simp: reg_has_def list_ex_iff sl_hasAny_list split: option.splits)

lemma reg_next_served:
  assumes I: "reg_inv r S" and it: "is_range_order it" and n: "reg_next it ns q grp r = (x, r')"
  shows "reg_inv r' S" and "x = None \<longleftrightarrow> \<not> (\<exists>k c. (k, c) \<in> set S \<and> serves ns q grp k)"
    and "x = Some c \<Longrightarrow> \<exists>k. (k, c) \<in> set S \<and> serves ns q grp k
      \<and> ((\<exists>c'. (\<lparr>k_ns = ns, k_queue = q, k_group = grp\<rparr>, c') \<in> set S) \<and> \<not> reg_isGlobPattern grp
          \<longrightarrow> k = \<lparr>k_ns = ns, k_queue = q, k_group = grp\<rparr>)"
proof -
  let ?k = "\<lparr>k_ns = ns, k_queue = q, k_group = grp\<rparr>"
  have K: "keyed r" using I by (simp add: reg_inv_def)
  have "reg_inv r' S \<and> (x = None \<longleftrightarrow> \<not> (\<exists>k c. (k, c) \<in> set S \<and> serves ns q grp k)) \<and> (\<forall>c. x = Some c \<longrightarrow>
    (\<exists>k. (k, c) \<in> set S \<and> serves ns q grp k \<and> ((\<exists>c'. (?k, c') \<in> set S) \<and> \<not> reg_isGlobPattern grp \<longrightarrow> k = ?k)))"
  proof (cases "\<exists>l. gm_get (r_exact r) ?k = Some l \<and> sl_list l \<noteq> []")
    case True
    then obtain l where l: "gm_get (r_exact r) ?k = Some l" "sl_list l \<noteq> []" by blast
    obtain y l' where y: "sl_next l = (y, l')" by fastforce
    note L = sl_next_list [OF y]
    obtain c where c: "y = Some c" "c \<in> set (sl_list l)" using L(2,3) l(2) by (cases y) auto
    have x: "x = Some c" and r': "r' = r\<lparr>r_exact := gm_put ?k l' (r_exact r)\<rparr>"
      using n l y c by (auto simp: reg_next_def)
    have "listed r' k = listed r k" for k using l L(1) exact_listed [OF K l(1)] by (auto simp: listed_def r')
    moreover have "keyed r'" using l exact_listed [OF K l(1)] K
      by (auto simp: keyed_def r' gm_wf_put simp del: map_of_eq_Some_iff split: if_splits)
    moreover have "conn_entries c r' = conn_entries c r" for c by (simp add: conn_entries_def r')
    ultimately have "reg_inv r' S" using I by (simp add: reg_inv_def)
    moreover have g: "(?k, c) \<in> set S" "\<not> reg_isGlobPattern grp"
      using c listed_iff [OF I, of c ?k] exact_listed [OF K l(1)] by auto
    moreover have "serves ns q grp ?k" using g by (simp add: serves_def)
    ultimately show ?thesis using x by auto
  next
    case False
    then have s: "scan_wildcards ns q grp (it (r_wildcard r)) r = (x, r')"
      using n by (auto simp: reg_next_def Let_def split: option.splits prod.splits dest: sl_next_list(2))
    have w: "set (it (r_wildcard r)) = set (r_wildcard r)" by (rule range_order_set [OF it])
    note W = scan_wildcards_result [OF s, unfolded w, OF order_refl]
    have wf: "gm_wf (r_wildcard r)" using K by (simp add: keyed_def)
    have ne: "\<not> (\<not> reg_isGlobPattern grp \<and> (\<exists>c. (?k, c) \<in> set S))"
      using False exact_served [OF I, of ?k] by simp
    have "reg_inv r' S" using I W(2-4) [OF wf] by (simp add: reg_inv_def conn_entries_def)
    moreover have "x = None \<longleftrightarrow> \<not> (\<exists>k c. (k, c) \<in> set S \<and> serves ns q grp k)"
      unfolding served_split W(5) [OF wf] wildcard_served [OF I] using ne by blast
    moreover have "\<exists>k. (k, c) \<in> set S \<and> serves ns q grp k" if "x = Some c" for c
      using W(6) [OF wf that] wildcard_listed [OF K] listed_iff [OF I] unfolding serves_def by metis
    ultimately show ?thesis using ne by blast
  qed
  then show "reg_inv r' S" and "x = None \<longleftrightarrow> \<not> (\<exists>k c. (k, c) \<in> set S \<and> serves ns q grp k)"
    and "x = Some c \<Longrightarrow> \<exists>k. (k, c) \<in> set S \<and> serves ns q grp k
      \<and> ((\<exists>c'. (?k, c') \<in> set S) \<and> \<not> reg_isGlobPattern grp \<longrightarrow> k = ?k)" by blast+
qed

primrec range_ok :: "ract \<Rightarrow> bool" where
  "range_ok (SubAct ns q grp c) = True"
| "range_ok (GoneAct c) = True"
| "range_ok (PickAct it ns q grp) = is_range_order it"

lemma reg_run_inv:
  "list_all range_ok acts \<Longrightarrow> reg_inv r S \<Longrightarrow> reg_inv (fold reg_act acts r) (fold sub_act acts S)"
proof (induction acts arbitrary: r S)
  case (Cons a acts)
  have "reg_inv (reg_act a r) (sub_act a S)"
    using Cons.prems reg_next_served(1) [OF Cons.prems(2)] reg_add_inv [OF Cons.prems(2)] reg_remove_inv [OF Cons.prems(2)]
    by (cases a) (auto simp: prod_eq_iff)
  with Cons show ?case by simp
qed simp

lemma reg_inv_new: "reg_inv newSubRegistry []"
  by (simp add: reg_inv_def keyed_def newSubRegistry_def conn_entries_def listed_def)

text \<open>
  [C23] Subscriptions.  After any sequence of subscriptions, disconnections and deliveries, \<open>has\<close>
  answers whether some connection that is still there subscribed under a key that serves the group
  (the very key, or a pattern that matches); \<open>next\<close> returns a connection exactly in that case, it is
  one of these connections, and if one of them subscribed to the very group, then one of those.  A
  connection that left is never returned.
\<close>

theorem registry_refines:
  assumes "list_all range_ok acts" and "is_range_order it"
    and "r = fold reg_act acts newSubRegistry" and "S = fold sub_act acts []"
    and "k0 = \<lparr>k_ns = ns, k_queue = q, k_group = grp\<rparr>"
  shows "reg_has ns q grp r = (\<exists>k c. (k, c) \<in> set S \<and> serves ns q grp k)
    \<and> (fst (reg_next it ns q grp r) \<noteq> None) = reg_has ns q grp r
    \<and> (\<forall>c. fst (reg_next it ns q grp r) = Some c \<longrightarrow>
        (\<exists>k. (k, c) \<in> set S \<and> serves ns q grp k
           \<and> ((\<exists>c'. (k0, c') \<in> set S) \<and> \<not> reg_isGlobPattern grp \<longrightarrow> k = k0)))"
proof -
  have I: "reg_inv r S" using reg_run_inv [OF assms(1) reg_inv_new] assms(3,4) by simp
  obtain x r' where n: "reg_next it ns q grp r = (x, r')" by fastforce
  show ?thesis using reg_has_served [OF I] reg_next_served(2,3) [OF I assms(2) n] n assms(5) by auto
qed

definition demo_subs :: "ract list" where
  "demo_subs = [SubAct ''n'' ''q'' ''t-*'' 1, SubAct ''n'' ''q'' ''t-1'' 2, SubAct ''n'' ''q'' ''t-1'' 3, GoneAct 2]"

theorem registry_refines_witness:
  "let r = fold reg_act demo_subs newSubRegistry
   in reg_has ''n'' ''q'' ''t-1'' r \<and> fst (reg_next rev ''n'' ''q'' ''t-1'' r) = Some 3"
proof -
  let ?r = "fold reg_act demo_subs newSubRegistry" and ?S = "fold sub_act demo_subs []"
  let ?k = "\<lparr>k_ns = ''n'', k_queue = ''q'', k_group = ''t-1''\<rparr>"
  have S: "?S = [(\<lparr>k_ns = ''n'', k_queue = ''q'', k_group = ''t-*''\<rparr>, 1), (?k, 3)]"
    and g: "\<not> reg_isGlobPattern ''t-1''" and s: "serves ''n'' ''q'' ''t-1'' ?k"
    by (simp_all add: demo_subs_def reg_isGlobPattern_def serves_def)
  have "list_all range_ok demo_subs" by (simp add: demo_subs_def)
  note R = registry_refines [OF this is_range_order_rev refl refl refl, of "''n''" "''q''" "''t-1''"]
  have h: "reg_has ''n'' ''q'' ''t-1'' ?r" using R S s by (metis list.set_intros)
  then obtain c where c: "fst (reg_next rev ''n'' ''q'' ''t-1'' ?r) = Some c" using R by blast
  then have "(?k, c) \<in> set ?S" using R S g s by (metis list.set_intros)
  then have "c = 3" using S by simp
  with h c show ?thesis by (simp add: Let_def)
qed

section \<open>Round robin\<close>

primrec sl_picks :: "nat \<Rightarrow> subList \<Rightarrow> conn option list" where
  "sl_picks 0 l = []"
| "sl_picks (Suc n) l = (let (c, l) = sl_next l in c # sl_picks n l)"

lemma sl_picks_nth:
  assumes "sl_conns l = Some cs" and "cs \<noteq> []" and "unat (sl_cursor l) + n \<le> 2 ^ 64"
  shows "sl_picks n l = map (\<lambda>i. Some (cs ! ((unat (sl_cursor l) + i) mod length cs))) [0..<n]"
  using assms
proof (induction n arbitrary: l)
  case (Suc n)
  let ?l = "l\<lparr>sl_cursor := sl_cursor l + 1\<rparr>"
  have n: "sl_next l = (Some (cs ! (unat (sl_cursor l) mod length cs)), ?l)" using Suc.prems by (simp add: sl_next_def)
  show ?case
  proof (cases n)
    case 0
    with n show ?thesis by simp
  next
    case (Suc m)
    have "unat (sl_cursor l + 1) = Suc (unat (sl_cursor l))"
      using Suc.prems(3) Suc by (simp add: unat_word_ariths)
    moreover have "[0..<Suc n] = 0 # map Suc [0..<n]" by (simp add: map_Suc_upt upt_conv_Cons del: upt_Suc)
    ultimately show ?thesis using Suc.IH [of ?l] Suc.prems n by (simp del: upt_Suc)
  qed
qed simp

text \<open>
  Fair delivery.  As many consecutive deliveries as there are subscribers reach each of them
  exactly once, wherever the cursor stands, as long as its 64 bits do not wrap around meanwhile.
\<close>

lemma round_robin:
  assumes "sl_conns l = Some cs" and "unat (sl_cursor l) + length cs \<le> 2 ^ 64"
  shows "mset (sl_picks (length cs) l) = image_mset Some (mset cs)"
proof (cases "cs = []")
  case False
  have "sl_picks (length cs) l = map Some (rotate (unat (sl_cursor l)) cs)"
    by (rule nth_equalityI) (simp_all add: sl_picks_nth [OF assms(1) False assms(2)] nth_rotate)
  moreover have "mset (rotate n cs) = mset cs" for n
    by (metis add.commute append_take_drop_id mset_append rotate_drop_take)
  ultimately show ?thesis by simp
qed simp

section \<open>A race in the clean-up\<close>

text \<open>
  Connection 2 subscribes between the two steps of the clean-up of connection 1: its subscription
  disappears with the key.
\<close>

lemma cleanup_race:
  "let r = fold reg_act [SubAct ''n'' ''q'' ''g'' 1] newSubRegistry;
       k = \<lparr>k_ns = ''n'', k_queue = ''q'', k_group = ''g''\<rparr>;
       (emp, m) = drop_conn 1 k (r_exact r);
       r = reg_add ''n'' ''q'' ''g'' 2 (r\<lparr>r_exact := m\<rparr>);
       r = r\<lparr>r_exact := (if emp then gm_del k (r_exact r) else r_exact r)\<rparr>
   in conn_entries 2 r = [(k, False)] \<and> \<not> reg_has ''n'' ''q'' ''g'' r"
  by code_simp

end
