(* ===== verification/Protocol.thy ===== *)
theory Protocol
  imports Go_Binary
begin

text \<open>
  The wire protocol of the data plane (\<^verbatim>\<open>internal/protocol/frame.go\<close>, \<^verbatim>\<open>codec.go\<close>): the frames,
  the low-level writer and reader, the encoder with its buffered writer and the decoder.  A byte
  stream is a list of bytes.  The reader's buffer and position are the list of bytes not yet read.
  As in the code, the decoder ignores the errors of the low-level reader.
\<close>

section \<open>Codecs\<close>

text \<open>
  What an encoder and a decoder promise each other: decoding the encoding of an acceptable value,
  followed by anything, gives the value and leaves the rest.  \<open>emb\<close> is how the decoder reports it.
\<close>

locale codec =
  fixes enc :: "'a \<Rightarrow> byte list"
    and dec :: "byte list \<Rightarrow> 'r \<times> byte list"
    and emb :: "'a \<Rightarrow> 'r"
    and ok :: "'a \<Rightarrow> bool"
  assumes dec_enc: "ok x \<Longrightarrow> dec (enc x @ rest) = (emb x, rest)"
    and emb_inj: "emb x = emb y \<Longrightarrow> x = y"
begin

lemma prefix_free: "ok x \<Longrightarrow> ok y \<Longrightarrow> enc x @ r = enc y @ s \<Longrightarrow> x = y \<and> r = s"
  by (metis dec_enc emb_inj prod.inject)

primrec decs :: "nat \<Rightarrow> byte list \<Rightarrow> 'r list \<times> byte list" where
  "decs 0 bs = ([], bs)"
| "decs (Suc n) bs = (let (x, bs) = dec bs; (xs, bs) = decs n bs in (x # xs, bs))"

lemma decs_concat:
  "list_all ok xs \<Longrightarrow> decs (length xs) (concat (map enc xs) @ rest) = (map emb xs, rest)"
  by (induction xs) (simp_all add: dec_enc)

lemma concat_inject:
  assumes "list_all ok xs" and "list_all ok ys" and "length xs = length ys"
    and "concat (map enc xs) = concat (map enc ys)"
  shows "xs = ys"
proof -
  have "map emb xs = map emb ys"
    using decs_concat [OF assms(1), of "[]"] decs_concat [OF assms(2), of "[]"] assms(3,4) by simp
  then show ?thesis using emb_inj by (auto simp: list_eq_iff_nth_eq)
qed

end

section \<open>Frames\<close>

record ConnectFrame =
  cf_Username :: string
  cf_Password :: string
  cf_APIKey :: string
  cf_Token :: string
  cf_Namespace :: string

record ConnectOKFrame =
  cok_SessionID :: string

record ConnectErrFrame =
  cerr_Reason :: string

record PublishFrame =
  pf_Queue :: string
  pf_Group :: string
  pf_Payload :: "byte list"

record PublishOKFrame =
  pok_MsgID :: string
  pok_Offset :: "64 word"

record SubscribeFrame =
  sf_Queue :: string
  sf_Group :: string

record MessageFrame =
  mf_MsgID :: string
  mf_Queue :: string
  mf_Group :: string
  mf_Payload :: "byte list"
  mf_Attempts :: "32 word"

record ACKFrame =
  af_MsgID :: string
  af_Queue :: string
  af_Group :: string

record NACKFrame =
  nf_MsgID :: string
  nf_Queue :: string
  nf_Group :: string
  nf_Reason :: string

record ErrorFrame =
  ef_Code :: "32 word"
  ef_Message :: string

record BackpressureFrame =
  bf_Reason :: string
  bf_RetryAfter :: "32 word"

datatype frame =
    Connect ConnectFrame
  | ConnectOK ConnectOKFrame
  | ConnectErr ConnectErrFrame
  | PublishF PublishFrame
  | PublishOK PublishOKFrame
  | Subscribe SubscribeFrame
  | MessageF MessageFrame
  | ACK ACKFrame
  | NACK NACKFrame
  | ErrorF ErrorFrame
  | Backpressure BackpressureFrame
  | Heartbeat

text \<open>The wire types.\<close>

fun FrameType :: "frame \<Rightarrow> byte" where
  "FrameType (Connect _) = CHR 0x01"
| "FrameType (ConnectOK _) = CHR 0x02"
| "FrameType (ConnectErr _) = CHR 0x03"
| "FrameType (PublishF _) = CHR 0x10"
| "FrameType (PublishOK _) = CHR 0x11"
| "FrameType (Subscribe _) = CHR 0x20"
| "FrameType (MessageF _) = CHR 0x21"
| "FrameType (ACK _) = CHR 0x30"
| "FrameType (NACK _) = CHR 0x31"
| "FrameType (ErrorF _) = CHR 0xF0"
| "FrameType (Backpressure _) = CHR 0xF1"
| "FrameType Heartbeat = CHR 0xFF"

section \<open>The low-level writer and reader\<close>

definition w_str :: "string \<Rightarrow> byte list" where
  "w_str s = be_bytes 2 (length s) @ s"

definition w_blob :: "byte list \<Rightarrow> byte list" where
  "w_blob data = be_bytes 4 (length data) @ data"

definition w_u32 :: "32 word \<Rightarrow> byte list" where
  "w_u32 v = be_bytes 4 (unat v)"

definition w_u64 :: "64 word \<Rightarrow> byte list" where
  "w_u64 v = be_bytes 8 (unat v)"

definition w_i32 :: "32 word \<Rightarrow> byte list" where
  "w_i32 v = w_u32 v"

definition r_str :: "byte list \<Rightarrow> string \<times> byte list" where
  "r_str r =
     (if length r < 2 then ([], r)
      else let n = be_val (take 2 r); r = drop 2 r in
           if length r < n then ([], r) else (take n r, drop n r))"

definition r_blob :: "byte list \<Rightarrow> byte list \<times> byte list" where
  "r_blob r =
     (if length r < 4 then ([], r)
      else let n = be_val (take 4 r); r = drop 4 r in
           if length r < n then ([], r) else (take n r, drop n r))"

definition r_u32 :: "byte list \<Rightarrow> 32 word \<times> byte list" where
  "r_u32 r = (if length r < 4 then (0, r) else (word_of_nat (be_val (take 4 r)), drop 4 r))"

definition r_u64 :: "byte list \<Rightarrow> 64 word \<times> byte list" where
  "r_u64 r = (if length r < 8 then (0, r) else (word_of_nat (be_val (take 8 r)), drop 8 r))"

definition r_i32 :: "byte list \<Rightarrow> 32 word \<times> byte list" where
  "r_i32 r = r_u32 r"

definition str_ok :: "string \<Rightarrow> bool" where
  "str_ok s = (length s < 65536)"

definition blob_ok :: "byte list \<Rightarrow> bool" where
  "blob_ok s = (length s < 2 ^ 32)"

interpretation str_codec: codec w_str r_str "\<lambda>x. x" str_ok
  by unfold_locales (simp_all add: w_str_def r_str_def str_ok_def be_val_be_bytes Let_def)

interpretation blob_codec: codec w_blob r_blob "\<lambda>x. x" blob_ok
  by unfold_locales (simp_all add: w_blob_def r_blob_def blob_ok_def be_val_be_bytes Let_def)

interpretation u32_codec: codec w_u32 r_u32 "\<lambda>x. x" "\<lambda>_. True"
  by unfold_locales (simp_all add: w_u32_def r_u32_def be_word32)

interpretation u64_codec: codec w_u64 r_u64 "\<lambda>x. x" "\<lambda>_. True"
  by unfold_locales (simp_all add: w_u64_def r_u64_def be_word64)

interpretation i32_codec: codec w_i32 r_i32 "\<lambda>x. x" "\<lambda>_. True"
  by unfold_locales (simp_all add: w_i32_def r_i32_def u32_codec.dec_enc)

lemmas field_codecs =
  str_codec.dec_enc blob_codec.dec_enc u32_codec.dec_enc u64_codec.dec_enc i32_codec.dec_enc

text \<open>The last field of a frame, with nothing after it.\<close>

lemmas last_field_codecs =
  str_codec.dec_enc [where rest = "[]", simplified] blob_codec.dec_enc [where rest = "[]", simplified]
  u32_codec.dec_enc [where rest = "[]", simplified] u64_codec.dec_enc [where rest = "[]", simplified]
  i32_codec.dec_enc [where rest = "[]", simplified]

definition isValidIdent :: "string \<Rightarrow> bool" where
  "isValidIdent s =
     (if s = [] \<or> length s > 1024 then False
      else list_all (\<lambda>b. (CHR ''a'' \<le> b \<and> b \<le> CHR ''z'') \<or> (CHR ''A'' \<le> b \<and> b \<le> CHR ''Z'')
             \<or> (CHR ''0'' \<le> b \<and> b \<le> CHR ''9'') \<or> b = CHR ''_'' \<or> b = CHR ''-'' \<or> b = CHR ''.''
             \<or> b = CHR ''/'' \<or> b = CHR ''*'' \<or> b = CHR '':'') s)"

section \<open>The encoder\<close>

text \<open>The payload each \<open>Write\<close> method builds.\<close>

fun frame_payload :: "frame \<Rightarrow> byte list" where
  "frame_payload (Connect f) =
     w_str (cf_Username f) @ w_str (cf_Password f) @ w_str (cf_Namespace f) @ w_str (cf_APIKey f) @ w_str (cf_Token f)"
| "frame_payload (PublishF f) = w_str (pf_Queue f) @ w_str (pf_Group f) @ w_blob (pf_Payload f)"
| "frame_payload (Subscribe f) = w_str (sf_Queue f) @ w_str (sf_Group f)"
| "frame_payload (ACK f) = w_str (af_MsgID f) @ w_str (af_Queue f) @ w_str (af_Group f)"
| "frame_payload (NACK f) = w_str (nf_MsgID f) @ w_str (nf_Queue f) @ w_str (nf_Group f) @ w_str (nf_Reason f)"
| "frame_payload (ConnectOK f) = w_str (cok_SessionID f)"
| "frame_payload (ConnectErr f) = w_str (cerr_Reason f)"
| "frame_payload (PublishOK f) = w_str (pok_MsgID f) @ w_u64 (pok_Offset f)"
| "frame_payload (MessageF f) =
     w_str (mf_MsgID f) @ w_str (mf_Queue f) @ w_str (mf_Group f) @ w_blob (mf_Payload f) @ w_i32 (mf_Attempts f)"
| "frame_payload (ErrorF f) = w_u32 (ef_Code f) @ w_str (ef_Message f)"
| "frame_payload (Backpressure f) = w_str (bf_Reason f) @ w_u32 (bf_RetryAfter f)"
| "frame_payload Heartbeat = []"

text \<open>The frames a client writes are flushed at once, those of the broker by the writer loop.\<close>

fun flushes :: "frame \<Rightarrow> bool" where
  "flushes (Connect _) = True"
| "flushes (PublishF _) = True"
| "flushes (Subscribe _) = True"
| "flushes (ACK _) = True"
| "flushes (NACK _) = True"
| "flushes _ = False"

definition encode_frame :: "frame \<Rightarrow> byte list" where
  "encode_frame f = FrameType f # be_bytes 4 (length (frame_payload f)) @ frame_payload f"

text \<open>
  The buffered writer over its connection: bytes not yet handed on, bytes the connection has taken, how many more it
  will take before its writes fail (\<open>None\<close> when they never do), and the error of \<open>bufio.Writer\<close>, which stays.
\<close>

record Encoder =
  enc_buf :: "byte list"
  enc_wire :: "byte list"
  enc_room :: "nat option"
  enc_err :: bool

definition bufSize :: nat where
  "bufSize = 64 * 1024"

definition NewEncoder :: Encoder where
  "NewEncoder = \<lparr>enc_buf = [], enc_wire = [], enc_room = None, enc_err = False\<rparr>"

text \<open>\<open>net.Conn.Write\<close>: how many of \<open>n\<close> bytes are taken; fewer than all of them is an error.\<close>

definition taken :: "nat \<Rightarrow> Encoder \<Rightarrow> nat" where
  "taken n e = (case enc_room e of None \<Rightarrow> n | Some k \<Rightarrow> min k n)"

definition net_Write :: "byte list \<Rightarrow> Encoder \<Rightarrow> Encoder" where
  "net_Write p e =
     (let n = taken (length p) e
      in e\<lparr>enc_wire := enc_wire e @ take n p, enc_room := map_option (\<lambda>k. k - n) (enc_room e), enc_err := n < length p\<rparr>)"

text \<open>\<open>bufio.Writer.Flush\<close>: after an error it does nothing, and what was not taken stays in the buffer.\<close>

definition bw_flush :: "Encoder \<Rightarrow> Encoder" where
  "bw_flush e =
     (if enc_err e \<or> enc_buf e = [] then e
      else (net_Write (enc_buf e) e)\<lparr>enc_buf := drop (taken (length (enc_buf e)) e) (enc_buf e)\<rparr>)"

text \<open>\<open>bufio.Writer.Write\<close>: while the bytes exceed the free space and there was no error, fill the buffer and
  flush it, or write large data directly when the buffer is empty.\<close>

function bw_write :: "byte list \<Rightarrow> Encoder \<Rightarrow> Encoder" where
  "bw_write p e =
     (if enc_err e then e
      else if length p > bufSize - length (enc_buf e)
      then if enc_buf e = [] then net_Write p e
           else let n = bufSize - length (enc_buf e) in
                bw_write (drop n p) (bw_flush (e\<lparr>enc_buf := enc_buf e @ take n p\<rparr>))
      else e\<lparr>enc_buf := enc_buf e @ p\<rparr>)"
  by pat_completeness auto
termination
  by (relation "measure (\<lambda>(p, e). if enc_err e then 0 else if enc_buf e = [] then 1 else 2)")
    (auto simp: bw_flush_def net_Write_def taken_def Let_def split: option.splits)

declare bw_write.simps [simp del]

text \<open>\<open>Encoder.write\<close>: an error of the header ends it; the error is the caller's, the encoder keeps it too.\<close>

definition enc_write :: "frame \<Rightarrow> Encoder \<Rightarrow> Encoder" where
  "enc_write f e =
     (let pw = frame_payload f;
          header = FrameType f # be_bytes 4 (length pw);
          e = bw_write header e;
          e = (if \<not> enc_err e \<and> pw \<noteq> [] then bw_write pw e else e)
      in if \<not> enc_err e \<and> flushes f then bw_flush e else e)"

definition Flush :: "Encoder \<Rightarrow> Encoder" where
  "Flush e = bw_flush e"

section \<open>The decoder\<close>

datatype proto_error =
    ReadError ioerr
  | FrameTooLarge nat
  | InvalidUsername
  | InvalidQueueName
  | InvalidGroupKey
  | UnknownFrameType byte

definition maxPayloadSize :: nat where
  "maxPayloadSize = 16 * 2 ^ 20"

definition check_idents :: "string \<Rightarrow> string \<Rightarrow> frame \<Rightarrow> proto_error + frame" where
  "check_idents queue grp f =
     (if \<not> isValidIdent queue then Inl InvalidQueueName
      else if \<not> isValidIdent grp then Inl InvalidGroupKey
      else Inr f)"

text \<open>The \<open>switch\<close> of \<open>ReadFrame\<close> on a complete payload.\<close>

definition decode_payload :: "byte \<Rightarrow> byte list \<Rightarrow> proto_error + frame" where
  "decode_payload ft r =
     (if ft = CHR 0x01 then
        (let (u, r) = r_str r; (p, r) = r_str r; (n, r) = r_str r; (a, r) = r_str r; (t, r) = r_str r in
         if \<not> isValidIdent u then Inl InvalidUsername
         else Inr (Connect \<lparr>cf_Username = u, cf_Password = p, cf_APIKey = a, cf_Token = t, cf_Namespace = n\<rparr>))
      else if ft = CHR 0x10 then
        (let (q, r) = r_str r; (g, r) = r_str r; (p, r) = r_blob r in
         check_idents q g (PublishF \<lparr>pf_Queue = q, pf_Group = g, pf_Payload = p\<rparr>))
      else if ft = CHR 0x20 then
        (let (q, r) = r_str r; (g, r) = r_str r in
         check_idents q g (Subscribe \<lparr>sf_Queue = q, sf_Group = g\<rparr>))
      else if ft = CHR 0x30 then
        (let (m, r) = r_str r; (q, r) = r_str r; (g, r) = r_str r in
         check_idents q g (ACK \<lparr>af_MsgID = m, af_Queue = q, af_Group = g\<rparr>))
      else if ft = CHR 0x31 then
        (let (m, r) = r_str r; (q, r) = r_str r; (g, r) = r_str r; (x, r) = r_str r in
         check_idents q g (NACK \<lparr>nf_MsgID = m, nf_Queue = q, nf_Group = g, nf_Reason = x\<rparr>))
      else if ft = CHR 0x02 then (let (s, r) = r_str r in Inr (ConnectOK \<lparr>cok_SessionID = s\<rparr>))
      else if ft = CHR 0x03 then (let (s, r) = r_str r in Inr (ConnectErr \<lparr>cerr_Reason = s\<rparr>))
      else if ft = CHR 0x11 then
        (let (m, r) = r_str r; (off, r) = r_u64 r in Inr (PublishOK \<lparr>pok_MsgID = m, pok_Offset = off\<rparr>))
      else if ft = CHR 0x21 then
        (let (m, r) = r_str r; (q, r) = r_str r; (g, r) = r_str r; (p, r) = r_blob r; (n, r) = r_i32 r in
         Inr (MessageF \<lparr>mf_MsgID = m, mf_Queue = q, mf_Group = g, mf_Payload = p, mf_Attempts = n\<rparr>))
      else if ft = CHR 0xF0 then
        (let (c, r) = r_u32 r; (m, r) = r_str r in Inr (ErrorF \<lparr>ef_Code = c, ef_Message = m\<rparr>))
      else if ft = CHR 0xF1 then
        (let (s, r) = r_str r; (n, r) = r_u32 r in
         Inr (Backpressure \<lparr>bf_Reason = s, bf_RetryAfter = n\<rparr>))
      else if ft = CHR 0xFF then Inr Heartbeat
      else Inl (UnknownFrameType ft))"

text \<open>One frame of the stream, and what is left of it.\<close>

definition ReadFrame :: "byte list \<Rightarrow> (proto_error + frame) \<times> byte list" where
  "ReadFrame bs =
     (case readFull 5 bs of
        Inl e \<Rightarrow> (Inl (ReadError e), [])
      | Inr (header, bs) \<Rightarrow>
          let n = be_val (tl header) in
          if n > maxPayloadSize then (Inl (FrameTooLarge n), bs)
          else case readFull n bs of
                 Inl e \<Rightarrow> (Inl (ReadError e), [])
               | Inr (payload, bs) \<Rightarrow> (decode_payload (hd header) payload, bs))"

end
