(* ===== verification/Identity.thy ===== *)
theory Identity
  imports Prelude
begin

unbundle bit_operations_syntax

text \<open>
  Identities, permissions and roles (\<open>internal/auth/identity/types.go\<close>, \<open>internal/auth/rbac/rbac.go\<close>).
  A string type with constants, such as \<open>SubjectType\<close> and \<open>Role\<close>, is a string, as in the code; a map
  that may be nil is an option.
\<close>

section \<open>Permissions\<close>

type_synonym Permission = "64 word"

text \<open>The constants: \<open>1 << iota\<close>, where \<open>iota\<close> is 1 for the first one, because \<open>PermNone\<close> comes before it.\<close>

definition PermNone :: Permission where "PermNone = 0"
definition PermPublish :: Permission where "PermPublish = push_bit 1 1"
definition PermConsume :: Permission where "PermConsume = push_bit 2 1"
definition PermAck :: Permission where "PermAck = push_bit 3 1"
definition PermNack :: Permission where "PermNack = push_bit 4 1"
definition PermManageQueues :: Permission where "PermManageQueues = push_bit 5 1"
definition PermManageUsers :: Permission where "PermManageUsers = push_bit 6 1"
definition PermMetricsRead :: Permission where "PermMetricsRead = push_bit 7 1"
definition PermAuditRead :: Permission where "PermAuditRead = push_bit 8 1"
definition PermAdmin :: Permission where "PermAdmin = push_bit 9 1"

lemmas perm_defs = PermNone_def PermPublish_def PermConsume_def PermAck_def PermNack_def PermManageQueues_def
  PermManageUsers_def PermMetricsRead_def PermAuditRead_def PermAdmin_def

type_synonym PermissionSet = "(Permission, bool) gomap"

definition ps_Has :: "PermissionSet \<Rightarrow> Permission \<Rightarrow> bool" where
  "ps_Has ps p = (case gm_get ps p of Some b \<Rightarrow> b | None \<Rightarrow> False)"

definition ps_Add :: "Permission \<Rightarrow> PermissionSet \<Rightarrow> PermissionSet" where
  "ps_Add p ps = gm_put p True ps"

definition ps_Remove :: "Permission \<Rightarrow> PermissionSet \<Rightarrow> PermissionSet" where
  "ps_Remove p ps = gm_del p ps"

definition NewPermissionSet :: "Permission list \<Rightarrow> PermissionSet" where
  "NewPermissionSet perms = fold ps_Add perms []"

definition ps_Merge :: "PermissionSet \<Rightarrow> PermissionSet \<Rightarrow> PermissionSet" where
  "ps_Merge other ps = fold (\<lambda>(p, _). ps_Add p) other ps"

definition ps_List :: "(Permission, bool) range_order \<Rightarrow> PermissionSet \<Rightarrow> Permission list" where
  "ps_List it ps = map fst (it ps)"

definition perm_of_string :: "string \<Rightarrow> Permission option" where
  "perm_of_string p =
     (if p = ''publish'' then Some PermPublish
      else if p = ''consume'' then Some PermConsume
      else if p = ''ack'' then Some PermAck
      else if p = ''nack'' then Some PermNack
      else if p = ''queues:manage'' \<or> p = ''manage_queues'' then Some PermManageQueues
      else if p = ''users:manage'' \<or> p = ''manage_users'' then Some PermManageUsers
      else if p = ''metrics:read'' then Some PermMetricsRead
      else if p = ''audit:read'' then Some PermAuditRead
      else if p = ''admin'' then Some PermAdmin
      else None)"

definition PermissionSetFromStrings :: "string list \<Rightarrow> PermissionSet" where
  "PermissionSetFromStrings perms =
     fold (\<lambda>p ps. case perm_of_string p of Some q \<Rightarrow> ps_Add q ps | None \<Rightarrow> ps) perms []"

section \<open>Identities\<close>

definition SubjectUser :: string where "SubjectUser = ''USER''"
definition SubjectService :: string where "SubjectService = ''SERVICE_ACCOUNT''"
definition SubjectAdmin :: string where "SubjectAdmin = ''ADMIN''"

definition AuthMethodPassword :: string where "AuthMethodPassword = ''PASSWORD''"
definition AuthMethodAPIKey :: string where "AuthMethodAPIKey = ''API_KEY''"
definition AuthMethodMTLS :: string where "AuthMethodMTLS = ''MTLS''"

record Identity =
  id_SubjectID :: string
  id_SubjectType :: string
  id_AccountID :: string
  id_Namespace :: string
  id_Roles :: "string list"
  id_Permissions :: "PermissionSet option"
  id_Namespaces :: "(string, string list) gomap"
  id_AuthMethod :: string
  id_IssuedAt :: gtime
  id_ExpiresAt :: gtime
  id_Metadata :: "(string, string) gomap"

definition HasPermission :: "Permission \<Rightarrow> Identity \<Rightarrow> bool" where
  "HasPermission p i = (case id_Permissions i of None \<Rightarrow> False | Some ps \<Rightarrow> ps_Has ps p)"

definition HasRole :: "string \<Rightarrow> Identity \<Rightarrow> bool" where
  "HasRole role i = list_ex (\<lambda>r. r = role) (id_Roles i)"

definition IsExpired :: "gtime \<Rightarrow> Identity \<Rightarrow> bool" where
  "IsExpired now i = (if isZero (id_ExpiresAt i) then False else now > id_ExpiresAt i)"

definition CanPublish :: "Identity \<Rightarrow> bool" where "CanPublish i = HasPermission PermPublish i"
definition CanConsume :: "Identity \<Rightarrow> bool" where "CanConsume i = HasPermission PermConsume i"
definition CanManageQueues :: "Identity \<Rightarrow> bool" where "CanManageQueues i = HasPermission PermManageQueues i"
definition CanManageUsers :: "Identity \<Rightarrow> bool" where "CanManageUsers i = HasPermission PermManageUsers i"

definition IsAdmin :: "Identity \<Rightarrow> bool" where
  "IsAdmin i = (HasPermission PermAdmin i \<or> id_SubjectType i = SubjectAdmin)"

definition CanAccessNamespace :: "string \<Rightarrow> Identity \<Rightarrow> bool" where
  "CanAccessNamespace ns i =
     (if IsAdmin i then True
      else case gm_get (id_Namespaces i) ns of
             Some perms \<Rightarrow> length perms > 0
           | None \<Rightarrow> False)"

definition HasNamespacePermission :: "string \<Rightarrow> string \<Rightarrow> Identity \<Rightarrow> bool" where
  "HasNamespacePermission ns perm i =
     (if IsAdmin i then True
      else case gm_get (id_Namespaces i) ns of
             None \<Rightarrow> False
           | Some perms \<Rightarrow> list_ex (\<lambda>p. p = ''*'' \<or> p = perm) perms)"

section \<open>Roles\<close>

type_synonym Role = string

definition RoleAdmin :: Role where "RoleAdmin = ''admin''"
definition RoleProducer :: Role where "RoleProducer = ''producer''"
definition RoleConsumer :: Role where "RoleConsumer = ''consumer''"
definition RoleObserver :: Role where "RoleObserver = ''observer''"
definition RoleBilling :: Role where "RoleBilling = ''billing''"
definition RoleService :: Role where "RoleService = ''service''"

lemmas role_defs = RoleAdmin_def RoleProducer_def RoleConsumer_def RoleObserver_def RoleBilling_def RoleService_def

definition RolePermissions :: "(Role, string list) gomap" where
  "RolePermissions =
     [(RoleAdmin, [''namespaces:*'', ''queues:*'', ''groups:*'', ''users:*'', ''metrics:*'', ''audit:*'',
        ''publish'', ''consume'', ''ack'', ''nack'']),
      (RoleProducer, [''namespaces:read'', ''queues:write'', ''publish'']),
      (RoleConsumer, [''namespaces:read'', ''queues:read'', ''groups:write'', ''consume'', ''ack'', ''nack'']),
      (RoleObserver, [''namespaces:read'', ''queues:read'', ''metrics:read'']),
      (RoleBilling, [''namespaces:read'', ''metrics:read'']),
      (RoleService, [''namespaces:read'', ''publish'', ''consume''])]"

record RoleBinding =
  rb_Name :: string
  rb_Subjects :: "string list"
  rb_Roles :: "Role list"
  rb_Namespace :: string

record ResourceRule =
  rr_Allow :: "string list"
  rr_Deny :: "string list"

record Policy =
  po_Version :: string
  po_Roles :: "(string, Role) gomap"
  po_Bindings :: "RoleBinding list"
  po_Resources :: "(string, ResourceRule) gomap"

definition NewPolicy :: Policy where
  "NewPolicy = \<lparr>po_Version = ''v1'', po_Roles = [], po_Bindings = [], po_Resources = []\<rparr>"

definition AddRoleBinding :: "string \<Rightarrow> string list \<Rightarrow> Role list \<Rightarrow> string \<Rightarrow> Policy \<Rightarrow> Policy" where
  "AddRoleBinding name subjects roles namespace p =
     p\<lparr>po_Bindings := po_Bindings p @
         [\<lparr>rb_Name = name, rb_Subjects = subjects, rb_Roles = roles, rb_Namespace = namespace\<rparr>],
       po_Roles := fold (\<lambda>subject. fold (\<lambda>role. gm_put subject role) roles) subjects (po_Roles p)\<rparr>"

definition GetRoleForSubject :: "string \<Rightarrow> Policy \<Rightarrow> Role" where
  "GetRoleForSubject subject p = (case gm_get (po_Roles p) subject of Some role \<Rightarrow> role | None \<Rightarrow> [])"

definition GetPermissions :: "Role \<Rightarrow> string list" where
  "GetPermissions role = (case gm_get RolePermissions role of Some perms \<Rightarrow> perms | None \<Rightarrow> [])"

text \<open>The last loop of \<open>HasPermission\<close>: one permission of the role against the action.\<close>

definition perm_matches :: "string \<Rightarrow> string \<Rightarrow> bool" where
  "perm_matches action perm =
     (perm = action \<or> perm = ''*''
      \<or> (length perm > 2 \<and> last perm = CHR ''*''
         \<and> (let prefix = butlast perm in length action > length prefix \<and> take (length prefix) action = prefix)))"

definition po_HasPermission :: "string \<Rightarrow> string \<Rightarrow> string \<Rightarrow> Policy \<Rightarrow> bool" where
  "po_HasPermission subject resource action p =
     (let role = GetRoleForSubject subject p in
      if role = [] then False
      else
        let perms = GetPermissions role; named = (\<lambda>a. a = action \<or> a = ''*'') in
        case gm_get (po_Resources p) resource of
          None \<Rightarrow> list_ex (perm_matches action) perms
        | Some rule \<Rightarrow>
            if list_ex named (rr_Allow rule) then True
            else if list_ex named (rr_Deny rule) then False
            else list_ex (perm_matches action) perms)"

definition po_Clone :: "Policy \<Rightarrow> Policy" where
  "po_Clone p =
     \<lparr>po_Version = po_Version p, po_Roles = fold (\<lambda>(k, v). gm_put k v) (po_Roles p) [],
      po_Bindings = map (\<lambda>b. b) (po_Bindings p),
      po_Resources = fold (\<lambda>(k, v). gm_put k v) (po_Resources p) []\<rparr>"

definition RoleFromString :: "string \<Rightarrow> string + Role" where
  "RoleFromString s =
     (if s \<in> set [RoleAdmin, RoleProducer, RoleConsumer, RoleObserver, RoleBilling, RoleService] then Inr s
      else Inl (''invalid role: '' @ s))"

definition ValidRoles :: "Role list" where
  "ValidRoles = [RoleAdmin, RoleProducer, RoleConsumer, RoleObserver, RoleBilling, RoleService]"

definition RoleDescription :: "Role \<Rightarrow> string" where
  "RoleDescription role =
     (if role = RoleAdmin then ''Full access to all resources''
      else if role = RoleProducer then ''Can publish messages''
      else if role = RoleConsumer then ''Can consume and acknowledge messages''
      else if role = RoleObserver then ''Read-only access to metrics and data''
      else if role = RoleBilling then ''Read access for billing purposes''
      else if role = RoleService then ''Service account with specific access''
      else ''Unknown role'')"

end
