(* ===== verification/Go_Sha256.thy ===== *)
theory Go_Sha256
  imports Go_Binary
begin

text \<open>
  What the code uses of Go's \<open>crypto/sha256\<close> and \<open>crypto/hmac\<close>: SHA-256 (FIPS 180-4) and HMAC (FIPS 198-1)
  on byte lists.
\<close>

unbundle bit_operations_syntax

section \<open>SHA-256\<close>

text \<open>
  The constants: the first 32 bits of the fractional parts of the cube roots of the first 64 primes
  and of the square roots of the first eight.  \<open>floor_root e b n\<close> is the greatest number below
  \<open>2 ^ b\<close> whose power \<open>e\<close> is at most \<open>n\<close>, found bit by bit.
\<close>

primrec floor_root_from :: "nat \<Rightarrow> nat \<Rightarrow> nat \<Rightarrow> nat \<Rightarrow> nat" where
  "floor_root_from e n 0 r = r"
| "floor_root_from e n (Suc b) r = floor_root_from e n b (if (r + 2 ^ b) ^ e \<le> n then r + 2 ^ b else r)"

definition floor_root :: "nat \<Rightarrow> nat \<Rightarrow> nat \<Rightarrow> nat" where
  "floor_root e b n = floor_root_from e n b 0"

lemma floor_root_from_spec:
  assumes "r ^ e \<le> n" and "n < (r + 2 ^ b) ^ e"
  shows "floor_root_from e n b r ^ e \<le> n \<and> n < Suc (floor_root_from e n b r) ^ e"
  using assms by (induction b arbitrary: r) (simp_all add: mult_2 add.assoc)

lemma floor_root_spec: "n < (2 ^ b) ^ e \<Longrightarrow> 0 < e \<Longrightarrow> floor_root e b n ^ e \<le> n \<and> n < Suc (floor_root e b n) ^ e"
  using floor_root_from_spec [of 0 e n b] by (simp add: floor_root_def power_0_left)

definition primes_to :: "nat \<Rightarrow> nat list" where
  "primes_to n = filter (\<lambda>p. list_all (\<lambda>d. p mod d \<noteq> 0) [2..<p]) [2..<Suc n]"

definition sha_K :: "32 word list" where
  "sha_K = map (\<lambda>p. word_of_nat (floor_root 3 35 (p * 2 ^ 96))) (primes_to 311)"

definition sha_H0 :: "32 word list" where
  "sha_H0 = map (\<lambda>p. word_of_nat (floor_root 2 37 (p * 2 ^ 64))) (primes_to 19)"

definition sha_pad :: "byte list \<Rightarrow> byte list" where
  "sha_pad m = m @ CHR 0x80 # replicate ((119 - length m mod 64) mod 64) (CHR 0x00) @ be_bytes 8 (8 * length m)"

fun chunks :: "nat \<Rightarrow> 'a list \<Rightarrow> 'a list list" where
  "chunks n xs = (if n = 0 \<or> xs = [] then [] else take n xs # chunks n (drop n xs))"

declare chunks.simps [simp del]

definition sha_words :: "byte list \<Rightarrow> 32 word list" where
  "sha_words block = map (\<lambda>c. word_of_nat (be_val c)) (chunks 4 block)"

definition sha_s0 :: "32 word \<Rightarrow> 32 word" where
  "sha_s0 x = word_rotr 7 x XOR word_rotr 18 x XOR drop_bit 3 x"

definition sha_s1 :: "32 word \<Rightarrow> 32 word" where
  "sha_s1 x = word_rotr 17 x XOR word_rotr 19 x XOR drop_bit 10 x"

text \<open>The message schedule: \<open>n\<close> more words.\<close>

primrec sha_extend :: "nat \<Rightarrow> 32 word list \<Rightarrow> 32 word list" where
  "sha_extend 0 ws = ws"
| "sha_extend (Suc n) ws =
     (let t = length ws
      in sha_extend n (ws @ [sha_s1 (ws ! (t - 2)) + ws ! (t - 7) + sha_s0 (ws ! (t - 15)) + ws ! (t - 16)]))"

type_synonym sha_vars = "32 word \<times> 32 word \<times> 32 word \<times> 32 word \<times> 32 word \<times> 32 word \<times> 32 word \<times> 32 word"

definition sha_round :: "32 word \<times> 32 word \<Rightarrow> sha_vars \<Rightarrow> sha_vars" where
  "sha_round = (\<lambda>(k, w) (a, b, c, d, e, f, g, h).
     let t1 = h + (word_rotr 6 e XOR word_rotr 11 e XOR word_rotr 25 e) + ((e AND f) XOR (NOT e AND g)) + k + w;
         t2 = (word_rotr 2 a XOR word_rotr 13 a XOR word_rotr 22 a) + ((a AND b) XOR (a AND c) XOR (b AND c))
     in (t1 + t2, a, b, c, d + t1, e, f, g))"

definition sha_block :: "byte list \<Rightarrow> sha_vars \<Rightarrow> sha_vars" where
  "sha_block block = (\<lambda>(a, b, c, d, e, f, g, h).
     case fold sha_round (zip sha_K (sha_extend 48 (sha_words block))) (a, b, c, d, e, f, g, h) of
       (a', b', c', d', e', f', g', h') \<Rightarrow> (a + a', b + b', c + c', d + d', e + e', f + f', g + g', h + h'))"

definition sha_init :: sha_vars where
  "sha_init = (sha_H0 ! 0, sha_H0 ! 1, sha_H0 ! 2, sha_H0 ! 3, sha_H0 ! 4, sha_H0 ! 5, sha_H0 ! 6, sha_H0 ! 7)"

definition sha256 :: "byte list \<Rightarrow> byte list" where
  "sha256 m =
     (case fold sha_block (chunks 64 (sha_pad m)) sha_init of (a, b, c, d, e, f, g, h) \<Rightarrow>
        concat (map (\<lambda>w. be_bytes 4 (unat w)) [a, b, c, d, e, f, g, h]))"

lemma length_sha256 [simp]: "length (sha256 m) = 32"
  by (simp add: sha256_def split: prod.split)

section \<open>HMAC\<close>

definition xor_bytes :: "byte \<Rightarrow> byte list \<Rightarrow> byte list" where
  "xor_bytes p = map (\<lambda>c. char_of ((of_char c :: nat) XOR of_char p))"

definition hmac_sha256 :: "byte list \<Rightarrow> byte list \<Rightarrow> byte list" where
  "hmac_sha256 key msg =
     (let key = (if length key > 64 then sha256 key else key);
          key = key @ replicate (64 - length key) (CHR 0x00)
      in sha256 (xor_bytes (CHR 0x5c) key @ sha256 (xor_bytes (CHR 0x36) key @ msg)))"

end
