(* ===== verification/Auth.thy ===== *)
theory Auth
  imports Identity Go_Sha256
begin

text \<open>
  Authentication (\<open>internal/auth/authenticator\<close>, \<open>internal/auth/providers/password.go\<close> and \<open>apikey.go\<close>,
  \<open>internal/auth/service.go\<close>) and the few pure helpers of \<open>internal/auth/jwt/jwt.go\<close>.  The user
  database, that is SQLite and bcrypt, is a parameter; so are random bytes and the clock.  The
  session identifier that \<open>Authenticate\<close> returns beside the identity is used by no caller and left out.
\<close>

section \<open>Authenticators\<close>

record AuthRequest =
  ar_RemoteAddr :: string
  ar_Username :: string
  ar_Password :: string
  ar_APIKey :: string
  ar_Token :: string
  ar_Certificate :: string
  ar_Namespace :: string

definition noRequest :: AuthRequest where
  "noRequest = \<lparr>ar_RemoteAddr = [], ar_Username = [], ar_Password = [], ar_APIKey = [], ar_Token = [],
     ar_Certificate = [], ar_Namespace = []\<rparr>"

record Authenticator =
  au_Name :: string
  au_Priority :: int
  au_Authenticate :: "AuthRequest \<Rightarrow> string + Identity option"

type_synonym Registry = "(string, Authenticator) gomap"

definition NewRegistry :: Registry where
  "NewRegistry = []"

definition Register :: "Authenticator \<Rightarrow> Registry \<Rightarrow> Registry" where
  "Register a r = gm_put (au_Name a) a r"

definition reg_Get :: "string \<Rightarrow> Registry \<Rightarrow> Authenticator option" where
  "reg_Get name r = gm_get r name"

text \<open>
  The two loops of \<open>All\<close>.  The inner one compares element \<open>i\<close> with every later one and swaps: it carries
  the smaller element and leaves the other one behind.
\<close>

fun exchange :: "Authenticator \<Rightarrow> Authenticator list \<Rightarrow> Authenticator \<times> Authenticator list" where
  "exchange x [] = (x, [])"
| "exchange x (y # ys) =
     (if au_Priority x > au_Priority y
      then let (m, r) = exchange y ys in (m, x # r)
      else let (m, r) = exchange x ys in (m, y # r))"

lemma length_exchange: "exchange x ys = (m, r) \<Longrightarrow> length r = length ys"
  by (induction x ys arbitrary: m r rule: exchange.induct) (auto split: if_splits prod.splits)

function exchange_sort :: "Authenticator list \<Rightarrow> Authenticator list" where
  "exchange_sort [] = []"
| "exchange_sort (x # xs) = (let (m, r) = exchange x xs in m # exchange_sort r)"
  by pat_completeness auto
termination
  by (relation "measure length") (auto dest: length_exchange [OF sym])

definition reg_All :: "(string, Authenticator) range_order \<Rightarrow> Registry \<Rightarrow> Authenticator list" where
  "reg_All it r = exchange_sort (map snd (it r))"

section \<open>Passwords\<close>

record User =
  u_Username :: string
  u_Email :: "string option"
  u_Role :: string

record userdb =
  db_CheckPassword :: "string \<Rightarrow> string \<Rightarrow> bool"
  db_GetUser :: "string \<Rightarrow> User option"

definition resolvePermissions :: "string \<Rightarrow> PermissionSet" where
  "resolvePermissions role =
     (if role = ''admin''
      then NewPermissionSet [PermPublish, PermConsume, PermAck, PermNack, PermManageQueues, PermManageUsers,
             PermMetricsRead, PermAuditRead, PermAdmin]
      else NewPermissionSet [PermPublish, PermConsume, PermAck, PermNack])"

definition password_Authenticate :: "userdb \<Rightarrow> gtime \<Rightarrow> AuthRequest \<Rightarrow> string + Identity option" where
  "password_Authenticate db now req =
     (if ar_Username req = [] \<or> ar_Password req = [] then Inr None
      else if \<not> db_CheckPassword db (ar_Username req) (ar_Password req) then Inr None
      else case db_GetUser db (ar_Username req) of
        None \<Rightarrow> Inr None
      | Some user \<Rightarrow>
          let role = u_Role user;
              subjectType = (if role = ''admin'' then SubjectAdmin else SubjectUser)
          in Inr (Some \<lparr>id_SubjectID = u_Username user, id_SubjectType = subjectType,
               id_AccountID = u_Username user, id_Namespace = ar_Namespace req, id_Roles = [role],
               id_Permissions = Some (resolvePermissions role), id_Namespaces = [],
               id_AuthMethod = AuthMethodPassword, id_IssuedAt = now,
               id_ExpiresAt = now + 24 * 60 * 60 * 1000000000,
               id_Metadata = [(''email'', case u_Email user of Some e \<Rightarrow> e | None \<Rightarrow> [])]\<rparr>))"

definition PasswordAuthenticator :: "userdb \<Rightarrow> gtime \<Rightarrow> Authenticator" where
  "PasswordAuthenticator db now =
     \<lparr>au_Name = ''password'', au_Priority = 10, au_Authenticate = password_Authenticate db now\<rparr>"

section \<open>API keys\<close>

text \<open>\<open>strings.TrimSpace\<close>: the UTF-8 forms of the characters that \<open>unicode.IsSpace\<close> accepts.\<close>

definition space_seqs :: "byte list list" where
  "space_seqs =
     [[CHR 0x09], [CHR 0x0A], [CHR 0x0B], [CHR 0x0C], [CHR 0x0D], [CHR 0x20],
      [CHR 0xC2, CHR 0x85], [CHR 0xC2, CHR 0xA0], [CHR 0xE1, CHR 0x9A, CHR 0x80]]
     @ map (\<lambda>c. [CHR 0xE2, CHR 0x80, c])
         [CHR 0x80, CHR 0x81, CHR 0x82, CHR 0x83, CHR 0x84, CHR 0x85, CHR 0x86, CHR 0x87, CHR 0x88, CHR 0x89,
          CHR 0x8A, CHR 0xA8, CHR 0xA9, CHR 0xAF]
     @ [[CHR 0xE2, CHR 0x81, CHR 0x9F], [CHR 0xE3, CHR 0x80, CHR 0x80]]"

lemma space_seqs_nonempty: "w \<in> set space_seqs \<Longrightarrow> w \<noteq> []"
  by (auto simp: space_seqs_def)

function trim_with :: "byte list list \<Rightarrow> byte list \<Rightarrow> byte list" where
  "trim_with ws s =
     (case find (\<lambda>w. w \<noteq> [] \<and> take (length w) s = w) ws of
        None \<Rightarrow> s
      | Some w \<Rightarrow> if s = [] then s else trim_with ws (drop (length w) s))"
  by pat_completeness auto
termination
  by (relation "measure (length \<circ> snd)") (auto simp: find_Some_iff)

declare trim_with.simps [simp del]

definition TrimSpace :: "string \<Rightarrow> string" where
  "TrimSpace s = rev (trim_with (map rev space_seqs) (rev (trim_with space_seqs s)))"

record APIKeyEntry =
  ke_Hash :: string
  ke_SubjectID :: string
  ke_SubjectType :: string
  ke_Namespace :: string
  ke_Permissions :: "string list"
  ke_Prefix :: string

record APIKeyAuthenticator =
  ka_Prefix :: string
  ka_Priority :: int
  ka_hashSecret :: "byte list"
  ka_keyHash :: "(string, APIKeyEntry) gomap"

definition NewAPIKeyAuthenticator :: "string \<Rightarrow> int \<Rightarrow> string \<Rightarrow> APIKeyAuthenticator" where
  "NewAPIKeyAuthenticator prefix priority secret =
     \<lparr>ka_Prefix = prefix, ka_Priority = priority, ka_hashSecret = secret, ka_keyHash = []\<rparr>"

definition hashKey :: "string \<Rightarrow> byte list \<Rightarrow> string" where
  "hashKey key secret = hex_encode (hmac_sha256 secret key)"

definition has_prefix :: "string \<Rightarrow> string \<Rightarrow> bool" where
  "has_prefix s p = (take (length p) s = p)"

definition apikey_Authenticate :: "APIKeyAuthenticator \<Rightarrow> AuthRequest \<Rightarrow> string + Identity option" where
  "apikey_Authenticate a req =
     (if ar_APIKey req = [] then Inr None
      else
        let key = TrimSpace (ar_APIKey req); prefix = ka_Prefix a in
        if prefix \<noteq> [] \<and> \<not> has_prefix key prefix then Inr None
        else case gm_get (ka_keyHash a) (hashKey key (ka_hashSecret a)) of
          None \<Rightarrow> Inr None
        | Some entry \<Rightarrow>
            if ar_Namespace req \<noteq> [] \<and> ke_Namespace entry \<noteq> [] \<and> ar_Namespace req \<noteq> ke_Namespace entry then Inr None
            else Inr (Some \<lparr>id_SubjectID = ke_SubjectID entry, id_SubjectType = ke_SubjectType entry,
                 id_AccountID = ke_SubjectID entry, id_Namespace = ke_Namespace entry, id_Roles = [''service''],
                 id_Permissions = Some (PermissionSetFromStrings (ke_Permissions entry)),
                 id_Namespaces = [(ke_Namespace entry, ke_Permissions entry)],
                 id_AuthMethod = AuthMethodAPIKey, id_IssuedAt = zeroTime, id_ExpiresAt = zeroTime,
                 id_Metadata = []\<rparr>))"

definition apikey_authenticator :: "APIKeyAuthenticator \<Rightarrow> Authenticator" where
  "apikey_authenticator a =
     \<lparr>au_Name = ''api_key'', au_Priority = ka_Priority a, au_Authenticate = apikey_Authenticate a\<rparr>"

definition AddKey :: "string \<Rightarrow> string \<Rightarrow> string \<Rightarrow> string list \<Rightarrow> APIKeyAuthenticator \<Rightarrow> APIKeyAuthenticator" where
  "AddKey key subjectID namespace perms a =
     (let entry = \<lparr>ke_Hash = hashKey key (ka_hashSecret a), ke_SubjectID = subjectID,
            ke_SubjectType = SubjectService, ke_Namespace = namespace, ke_Permissions = perms,
            ke_Prefix = ka_Prefix a\<rparr>
      in a\<lparr>ka_keyHash := gm_put (ke_Hash entry) entry (ka_keyHash a)\<rparr>)"

definition RevokeKey :: "string \<Rightarrow> APIKeyAuthenticator \<Rightarrow> APIKeyAuthenticator" where
  "RevokeKey key a = a\<lparr>ka_keyHash := gm_del (hashKey key (ka_hashSecret a)) (ka_keyHash a)\<rparr>"

definition ListKeys :: "(string, APIKeyEntry) range_order \<Rightarrow> APIKeyAuthenticator \<Rightarrow> APIKeyEntry list" where
  "ListKeys it a = map snd (it (ka_keyHash a))"

definition generateRandomSuffix :: "byte list \<Rightarrow> string" where
  "generateRandomSuffix random =
     map (\<lambda>b. ''abcdefghijklmnopqrstuvwxyz0123456789'' ! (of_char b mod 36)) random"

text \<open>\<open>random\<close> are the 32 bytes that \<open>rand.Read\<close> returns.\<close>

definition GenerateAPIKey :: "byte list \<Rightarrow> string \<Rightarrow> string" where
  "GenerateAPIKey random prefix = prefix @ generateRandomSuffix random"

section \<open>The service\<close>

fun try_all :: "AuthRequest \<Rightarrow> Authenticator list \<Rightarrow> string + Identity option" where
  "try_all req [] = Inr None"
| "try_all req (a # as) =
     (case au_Authenticate a req of
        Inl e \<Rightarrow> Inl e
      | Inr (Some i) \<Rightarrow> Inr (Some i)
      | Inr None \<Rightarrow> try_all req as)"

definition AuthenticateTCP ::
  "(string, Authenticator) range_order \<Rightarrow> string \<Rightarrow> string \<Rightarrow> string \<Rightarrow> string \<Rightarrow> Registry \<Rightarrow> string + Identity option" where
  "AuthenticateTCP it remoteAddr username password namespace r =
     try_all (noRequest\<lparr>ar_RemoteAddr := remoteAddr, ar_Username := username, ar_Password := password,
       ar_Namespace := namespace\<rparr>) (reg_All it r)"

definition AuthenticateTCPWithKey ::
  "(string, Authenticator) range_order \<Rightarrow> string \<Rightarrow> string \<Rightarrow> string \<Rightarrow> Registry \<Rightarrow> string + Identity option" where
  "AuthenticateTCPWithKey it remoteAddr apiKey namespace r =
     try_all (noRequest\<lparr>ar_RemoteAddr := remoteAddr, ar_APIKey := apiKey, ar_Namespace := namespace\<rparr>) (reg_All it r)"

section \<open>Helpers of the token code\<close>

fun split_loop :: "byte list \<Rightarrow> string list \<Rightarrow> string option \<Rightarrow> string list" where
  "split_loop [] parts cur = (case cur of Some c \<Rightarrow> parts @ [c] | None \<Rightarrow> parts)"
| "split_loop (c # cs) parts cur =
     (if c = CHR ''.''
      then split_loop cs (parts @ [case cur of Some s \<Rightarrow> s | None \<Rightarrow> []]) None
      else split_loop cs parts (Some ((case cur of Some s \<Rightarrow> s | None \<Rightarrow> []) @ [c])))"

definition splitToken :: "string \<Rightarrow> string list" where
  "splitToken token = split_loop token [] None"

definition hmacSHA256 :: "byte list \<Rightarrow> byte list \<Rightarrow> byte list" where
  "hmacSHA256 data key = (let k1 = sha256 (key @ [CHR 0x01]) in sha256 (k1 @ data @ [CHR 0x01]))"

definition constTimeEqual :: "byte list \<Rightarrow> byte list \<Rightarrow> bool" where
  "constTimeEqual a b =
     (if length a \<noteq> length b then False
      else foldl (\<lambda>(diff :: 8 word) (x, y). or diff (xor (word_of_nat (of_char x)) (word_of_nat (of_char y)))) 0 (zip a b) = 0)"

definition permissionsFromRole :: "string \<Rightarrow> string list" where
  "permissionsFromRole role =
     (if role = ''admin'' then [''admin'', ''publish'', ''consume'', ''ack'', ''nack'', ''queues:manage'', ''users:manage'', ''metrics:read'']
      else if role = ''user'' then [''publish'', ''consume'', ''ack'', ''nack'', ''queues:manage'']
      else [])"

record Claims =
  cl_Subject :: string
  cl_SubjectTy :: string
  cl_AccountID :: string
  cl_Namespace :: string
  cl_Roles :: "string list"
  cl_Perms :: "string list"
  cl_Namespaces :: "(string, string list) gomap option"
  cl_Method :: string
  cl_IssuedAt :: int
  cl_ExpiresAt :: int

definition ToIdentity :: "Claims \<Rightarrow> Identity" where
  "ToIdentity c =
     \<lparr>id_SubjectID = cl_Subject c, id_SubjectType = cl_SubjectTy c, id_AccountID = cl_AccountID c,
      id_Namespace = cl_Namespace c, id_Roles = cl_Roles c,
      id_Permissions = Some (if length (cl_Perms c) > 0 then PermissionSetFromStrings (cl_Perms c) else NewPermissionSet []),
      id_Namespaces = (case cl_Namespaces c of Some m \<Rightarrow> m | None \<Rightarrow> []),
      id_AuthMethod = cl_Method c, id_IssuedAt = cl_IssuedAt c * 1000000000,
      id_ExpiresAt = cl_ExpiresAt c * 1000000000, id_Metadata = []\<rparr>"

end
