(* ===== verification/Server.thy ===== *)
theory Server
  imports Protocol Auth
begin

text \<open>
  The TCP server (\<^verbatim>\<open>internal/server\<close>): the credit of a connection (\<^verbatim>\<open>credit.go\<close>), the connection with
  its output channel, its writer goroutine and its authentication (\<^verbatim>\<open>connection.go\<close>), and the loop that
  accepts connections (\<^verbatim>\<open>tcp_server.go\<close>).  The bytes of the peer are the field \<open>c_in\<close>, what the socket has
  taken is the wire of the encoder; from a given point on, or once the connection is closed, its writes fail.  A send that may block gives \<open>None\<close> where it would wait.  When
  both cases of a \<open>select\<close> are ready, which one is taken is the argument \<open>pick\<close>.  Deadlines, TLS, keep-alive
  and the floating-point token bucket are left out; the verdict of the bucket is an argument.
\<close>

section \<open>Credit\<close>

text \<open>\<open>atomic.Int32\<close>: the counter is a 32-bit word read as a signed number.\<close>

record credit =
  cr_inflight :: "32 word"
  cr_maxInflight :: "32 word"

definition newCredit :: "32 word \<Rightarrow> credit" where
  "newCredit maxInflight = \<lparr>cr_inflight = 0, cr_maxInflight = maxInflight\<rparr>"

definition cr_AcquireCredit :: "credit \<Rightarrow> bool \<times> credit" where
  "cr_AcquireCredit c =
     (let cur = cr_inflight c in
      if sint cur \<ge> sint (cr_maxInflight c) then (False, c) else (True, c\<lparr>cr_inflight := cur + 1\<rparr>))"

definition cr_ReleaseCredit :: "credit \<Rightarrow> credit" where
  "cr_ReleaseCredit c = c\<lparr>cr_inflight := cr_inflight c - 1\<rparr>"

section \<open>Connections\<close>

record Session =
  ss_Username :: string
  ss_Namespace :: string
  ss_Authenticated :: bool

text \<open>
  \<open>c_drained\<close> is where the writer goroutine stands: \<open>None\<close> at its outer \<open>select\<close>, \<open>Some d\<close> in the inner loop
  after \<open>d\<close> further messages; \<open>c_writerDone\<close> says that it has returned.
\<close>

record Connection =
  c_addr :: string
  c_in :: "byte list"
  c_Session :: Session
  c_Identity :: "Identity option"
  c_enc :: Encoder
  c_outCh :: "frame list"
  c_stopped :: bool
  c_credit :: credit
  c_drained :: "nat option"
  c_writerDone :: bool

definition outCap :: nat where
  "outCap = 1024"

definition newConnection :: "string \<Rightarrow> byte list \<Rightarrow> 32 word \<Rightarrow> Connection" where
  "newConnection addr input maxInflight =
     \<lparr>c_addr = addr, c_in = input,
      c_Session = \<lparr>ss_Username = [], ss_Namespace = [], ss_Authenticated = False\<rparr>,
      c_Identity = None, c_enc = NewEncoder, c_outCh = [], c_stopped = False, c_credit = newCredit maxInflight,
      c_drained = None, c_writerDone = False\<rparr>"

definition AcquireCredit :: "Connection \<Rightarrow> bool \<times> Connection" where
  "AcquireCredit c = (let (ok, cr) = cr_AcquireCredit (c_credit c) in (ok, c\<lparr>c_credit := cr\<rparr>))"

definition ReleaseCredit :: "Connection \<Rightarrow> Connection" where
  "ReleaseCredit c = c\<lparr>c_credit := cr_ReleaseCredit (c_credit c)\<rparr>"

definition Inflight :: "Connection \<Rightarrow> int" where
  "Inflight c = sint (cr_inflight (c_credit c))"

subsection \<open>Sending\<close>

definition push_out :: "frame \<Rightarrow> Connection \<Rightarrow> Connection" where
  "push_out f c = c\<lparr>c_outCh := c_outCh c @ [f]\<rparr>"

text \<open>Whether the send case of a \<open>select\<close> with \<open>stopCh\<close> is taken.\<close>

definition sends :: "bool \<Rightarrow> Connection \<Rightarrow> bool" where
  "sends pick c = (length (c_outCh c) < outCap \<and> (c_stopped c \<longrightarrow> pick))"

datatype send_error = ErrClosed | BufferFull

definition WriteMessage :: "bool \<Rightarrow> MessageFrame \<Rightarrow> Connection \<Rightarrow> send_error option \<times> Connection" where
  "WriteMessage pick f c =
     (if sends pick c then (None, push_out (MessageF f) c)
      else if c_stopped c then (Some ErrClosed, c)
      else (Some BufferFull, c))"

text \<open>\<open>WritePublishOK\<close>, \<open>WriteError\<close> and \<open>WriteHeartbeat\<close> wait for room or for the connection to close.\<close>

definition write_waiting :: "bool \<Rightarrow> frame \<Rightarrow> Connection \<Rightarrow> Connection option" where
  "write_waiting pick f c =
     (if sends pick c then Some (push_out f c) else if c_stopped c then Some c else None)"

definition WritePublishOK :: "bool \<Rightarrow> PublishOKFrame \<Rightarrow> Connection \<Rightarrow> Connection option" where
  "WritePublishOK pick f = write_waiting pick (PublishOK f)"

definition WriteError :: "bool \<Rightarrow> ErrorFrame \<Rightarrow> Connection \<Rightarrow> Connection option" where
  "WriteError pick f = write_waiting pick (ErrorF f)"

definition WriteHeartbeat :: "bool \<Rightarrow> Connection \<Rightarrow> Connection option" where
  "WriteHeartbeat pick = write_waiting pick Heartbeat"

definition WriteBackpressure :: "bool \<Rightarrow> BackpressureFrame \<Rightarrow> Connection \<Rightarrow> Connection" where
  "WriteBackpressure pick f c = (if sends pick c then push_out (Backpressure f) c else c)"

text \<open>\<open>Close\<close> closes the channel \<open>stopCh\<close> and the socket, after which no write to it succeeds.\<close>

definition net_Close :: "Encoder \<Rightarrow> Encoder" where
  "net_Close e = e\<lparr>enc_room := Some 0\<rparr>"

text \<open>A socket that breaks takes at most \<open>k\<close> more bytes.\<close>

definition net_Fail :: "nat \<Rightarrow> Encoder \<Rightarrow> Encoder" where
  "net_Fail k e = e\<lparr>enc_room := Some (case enc_room e of None \<Rightarrow> k | Some n \<Rightarrow> min n k)\<rparr>"

definition conn_Close :: "Connection \<Rightarrow> Connection" where
  "conn_Close c = c\<lparr>c_stopped := True, c_enc := net_Close (c_enc c)\<rparr>"

subsection \<open>The writer goroutine\<close>

fun writeMsg :: "frame \<Rightarrow> Encoder \<Rightarrow> Encoder" where
  "writeMsg (MessageF m) e = enc_write (MessageF m) e"
| "writeMsg (PublishOK m) e = enc_write (PublishOK m) e"
| "writeMsg (ErrorF m) e = enc_write (ErrorF m) e"
| "writeMsg (ConnectErr m) e = enc_write (ConnectErr m) e"
| "writeMsg (ConnectOK m) e = enc_write (ConnectOK m) e"
| "writeMsg (Backpressure m) e = enc_write (Backpressure m) e"
| "writeMsg Heartbeat e = enc_write Heartbeat e"
| "writeMsg _ e = e"

text \<open>
  One step of \<open>writerLoop\<close>: at the outer \<open>select\<close> the goroutine returns or takes a message (\<open>stop\<close> decides
  when both are possible); in the inner loop it takes another message, or leaves the loop and flushes.
\<close>

definition conn_writerLoop :: "bool \<Rightarrow> Connection \<Rightarrow> Connection" where
  "conn_writerLoop stop c =
     (if c_writerDone c then c
      else case (c_drained c, c_outCh c) of
        (None, []) \<Rightarrow> (if c_stopped c then c\<lparr>c_writerDone := True\<rparr> else c)
      | (None, m # ms) \<Rightarrow>
          if c_stopped c \<and> stop then c\<lparr>c_writerDone := True\<rparr>
          else c\<lparr>c_outCh := ms, c_enc := writeMsg m (c_enc c), c_drained := Some 0\<rparr>
      | (Some d, []) \<Rightarrow> c\<lparr>c_enc := Flush (c_enc c), c_drained := None\<rparr>
      | (Some d, m # ms) \<Rightarrow>
          let c = c\<lparr>c_outCh := ms, c_enc := writeMsg m (c_enc c)\<rparr>
          in if Suc d \<ge> 100 then c\<lparr>c_enc := Flush (c_enc c), c_drained := None\<rparr>
             else c\<lparr>c_drained := Some (Suc d)\<rparr>)"

subsection \<open>Reading and authentication\<close>

definition conn_ReadFrame :: "Connection \<Rightarrow> (proto_error + frame) \<times> Connection" where
  "conn_ReadFrame c = (let (r, rest) = ReadFrame (c_in c) in (r, c\<lparr>c_in := rest\<rparr>))"

text \<open>The identity that the credentials of a connect frame give, if any.\<close>

definition connect_identity :: "(string, Authenticator) range_order \<Rightarrow> string \<Rightarrow> ConnectFrame \<Rightarrow> Registry \<Rightarrow> Identity option" where
  "connect_identity it remoteAddr f r =
     (let identity =
            (if cf_Password f \<noteq> [] \<and> cf_Username f \<noteq> []
             then case AuthenticateTCP it remoteAddr (cf_Username f) (cf_Password f) (cf_Namespace f) r of
                    Inr (Some i) \<Rightarrow> Some i | _ \<Rightarrow> None
             else None)
      in if identity = None \<and> cf_APIKey f \<noteq> []
         then case AuthenticateTCPWithKey it remoteAddr (cf_APIKey f) (cf_Namespace f) r of
                Inr (Some i) \<Rightarrow> Some i | _ \<Rightarrow> None
         else identity)"

text \<open>The output channel of a new connection is empty, so the plain sends of \<open>Authenticate\<close> do not wait.\<close>

definition Authenticate :: "(string, Authenticator) range_order \<Rightarrow> Registry \<Rightarrow> Connection \<Rightarrow> bool \<times> Connection" where
  "Authenticate it authSvc c =
     (let refuse = (\<lambda>reason c. (False, push_out (ConnectErr \<lparr>cerr_Reason = reason\<rparr>) c)) in
      case conn_ReadFrame c of
        (Inr (Connect f), c) \<Rightarrow>
          (case connect_identity it (c_addr c) f authSvc of
             None \<Rightarrow> refuse ''invalid credentials or namespace'' c
           | Some identity \<Rightarrow>
               if \<not> CanAccessNamespace (cf_Namespace f) identity then refuse ''no access to namespace'' c
               else
                 (True, push_out (ConnectOK \<lparr>cok_SessionID = c_addr c\<rparr>)
                   (c\<lparr>c_Identity := Some identity,
                      c_Session := \<lparr>ss_Username = id_SubjectID identity, ss_Namespace = cf_Namespace f, ss_Authenticated = True\<rparr>\<rparr>)))
      | (_, c) \<Rightarrow> refuse ''expected CONNECT frame'' c)"

section \<open>Accepting connections\<close>

record TCPServer =
  sv_MaxConnections :: "32 word"
  sv_rateLimited :: bool
  sv_activeConns :: "32 word"
  sv_backoff :: duration
  sv_accepting :: bool

definition NewTCPServer :: "32 word \<Rightarrow> int \<Rightarrow> TCPServer" where
  "NewTCPServer maxConns connRateLimit =
     \<lparr>sv_MaxConnections = maxConns, sv_rateLimited = (connRateLimit > 0), sv_activeConns = 0,
      sv_backoff = 1000000, sv_accepting = True\<rparr>"

datatype accept_result = AcceptTimeout | AcceptError | Accepted

datatype accept_action = SleepFor duration | LoopEnds | Rejected | Handled

definition maxBackoff :: duration where
  "maxBackoff = 5000000000"

text \<open>One iteration of \<open>acceptLoop\<close>; \<open>allowed\<close> is the verdict of the rate limiter.\<close>

definition acceptLoop :: "accept_result \<Rightarrow> bool \<Rightarrow> TCPServer \<Rightarrow> accept_action \<times> TCPServer" where
  "acceptLoop r allowed s =
     (case r of
        AcceptTimeout \<Rightarrow>
          (SleepFor (sv_backoff s),
           if sv_backoff s < maxBackoff then s\<lparr>sv_backoff := sv_backoff s + sv_backoff s\<rparr> else s)
      | AcceptError \<Rightarrow> (LoopEnds, s\<lparr>sv_accepting := False\<rparr>)
      | Accepted \<Rightarrow>
          let s = s\<lparr>sv_backoff := 1000000\<rparr> in
          if sv_rateLimited s \<and> \<not> allowed then (Rejected, s)
          else if sint (sv_MaxConnections s) > 0 then
            if sint (sv_activeConns s) \<ge> sint (sv_MaxConnections s) then (Rejected, s)
            else (Handled, s\<lparr>sv_activeConns := sv_activeConns s + 1\<rparr>)
          else (Handled, s))"

text \<open>The deferred part of \<open>handleConn\<close>.\<close>

definition handleConn_end :: "TCPServer \<Rightarrow> TCPServer" where
  "handleConn_end s =
     (if sint (sv_MaxConnections s) > 0 then s\<lparr>sv_activeConns := sv_activeConns s - 1\<rparr> else s)"

end
