(* ===== verification/Go_Crc32.thy ===== *)
theory Go_Crc32
  imports Go_Binary
begin

text \<open>
  Go's \<open>hash/crc32\<close> with the Castagnoli polynomial, which guards the records of the write-ahead log:
  the table, the update step and the streaming hash.  The lemmas show that hashing in pieces equals
  hashing at once, that the table-driven step equals eight steps of the bitwise definition, and that
  two inputs of equal length that differ in at most four consecutive bytes never have the same
  checksum.
\<close>

section \<open>The table-driven checksum\<close>

unbundle bit_operations_syntax

definition castagnoli :: "32 word" where
  "castagnoli = 0x82f63b78"

definition bit_step :: "32 word \<Rightarrow> 32 word" where
  "bit_step c = (if bit c 0 then drop_bit 1 c XOR castagnoli else drop_bit 1 c)"

definition table_entry :: "nat \<Rightarrow> 32 word" where
  "table_entry i = (bit_step ^^ 8) (word_of_nat i)"

definition crcTable :: "32 word list" where
  "crcTable = map table_entry [0..<256]"

abbreviation b32 :: "byte \<Rightarrow> 32 word" where
  "b32 v \<equiv> word_of_nat (of_char v)"

definition table_step :: "32 word \<Rightarrow> byte \<Rightarrow> 32 word" where
  "table_step c v = crcTable ! unat (take_bit 8 (c XOR b32 v)) XOR drop_bit 8 c"

definition crc_update :: "32 word \<Rightarrow> byte list \<Rightarrow> 32 word" where
  "crc_update c bs = NOT (foldl table_step (NOT c) bs)"

text \<open>\<open>crc32.New\<close> or \<open>Reset\<close> followed by one \<open>Write\<close> per piece, then \<open>Sum32\<close>.\<close>

definition crc_stream :: "byte list list \<Rightarrow> 32 word" where
  "crc_stream pieces = fold (\<lambda>p c. crc_update c p) pieces 0"

section \<open>Pieces\<close>

lemma crc_update_append: "crc_update c (xs @ ys) = crc_update (crc_update c xs) ys"
  by (simp add: crc_update_def)

lemma crc_update_Nil [simp]: "crc_update c [] = c"
  by (simp add: crc_update_def)

lemma crc_stream_concat: "crc_stream pieces = crc_update 0 (concat pieces)"
proof -
  have "fold (\<lambda>p c. crc_update c p) pieces c = crc_update c (concat pieces)" for c
    by (induction pieces arbitrary: c) (simp_all add: crc_update_append)
  then show ?thesis by (simp add: crc_stream_def)
qed

section \<open>The bitwise definition\<close>

lemma xor_cancel: "a XOR c = b XOR c \<Longrightarrow> a = b" for a b c :: "'a::len word"
  by (metis xor.assoc xor_self_eq xor.right_neutral)

lemma xor_swap:
  "(c XOR x) XOR (d XOR y) = p XOR q \<Longrightarrow> c XOR d = (x XOR p) XOR (y XOR q)"
  for c d x y p q :: "'a::len word"
proof (rule bit_eqI)
  fix n assume eq: "(c XOR x) XOR (d XOR y) = p XOR q"
  show "bit (c XOR d) n = bit ((x XOR p) XOR (y XOR q)) n"
    using arg_cong [OF eq, of "\<lambda>w. bit w n"] unfolding bit_xor_iff by argo
qed

lemma bit_step_linear: "bit_step (a XOR b) = bit_step a XOR bit_step b"
proof -
  have "drop_bit 1 (a XOR b) = drop_bit 1 a XOR drop_bit 1 b" by simp
  moreover have "bit (a XOR b) 0 = (bit a 0 \<noteq> bit b 0)" by (simp add: bit_xor_iff)
  ultimately show ?thesis by (auto simp: bit_step_def ac_simps)
qed

lemma funpow_bit_step_linear: "(bit_step ^^ n) (a XOR b) = (bit_step ^^ n) a XOR (bit_step ^^ n) b"
  by (induction n) (simp_all add: bit_step_linear)

text \<open>The top bit of the polynomial is set, so the top bit of the result tells the bit shifted out.\<close>

lemma bit_step_top: "bit (bit_step c) 31 = bit c 0"
proof -
  have "bit castagnoli 31" by (simp add: castagnoli_def)
  moreover have "\<not> bit c 32" using bit_imp_le_length [of c 32] by auto
  ultimately show ?thesis by (simp add: bit_step_def bit_xor_iff bit_drop_bit_eq)
qed

lemma inj_bit_step: "inj bit_step"
proof (rule injI)
  fix a b assume eq: "bit_step a = bit_step b"
  have lsb: "bit a 0 = bit b 0" using eq bit_step_top by metis
  have d: "drop_bit 1 a = drop_bit 1 b"
    using eq lsb by (auto simp: bit_step_def split: if_splits dest: xor_cancel)
  show "a = b"
  proof (rule bit_eqI)
    fix n
    show "bit a n = bit b n"
    proof (cases n)
      case 0
      with lsb show ?thesis by simp
    next
      case (Suc k)
      have "bit (drop_bit 1 a) k = bit (drop_bit 1 b) k" by (simp only: d)
      with Suc show ?thesis by (simp add: bit_drop_bit_eq)
    qed
  qed
qed

definition byte_step :: "32 word \<Rightarrow> 32 word" where
  "byte_step = bit_step ^^ 8"

lemma inj_byte_step: "inj byte_step"
  unfolding byte_step_def by (rule inj_fn) (rule inj_bit_step)

lemma byte_step_linear: "byte_step (a XOR b) = byte_step a XOR byte_step b"
  by (simp add: byte_step_def funpow_bit_step_linear)

lemma bit_step_push: "\<not> bit c 31 \<Longrightarrow> bit_step (push_bit 1 c) = c"
proof -
  assume "\<not> bit c 31"
  have "drop_bit 1 (push_bit 1 c) = c"
  proof (rule bit_eqI)
    fix n assume "possible_bit TYPE(32 word) n"
    then have "n < 32" by simp
    then show "bit (drop_bit 1 (push_bit 1 c)) n = bit c n"
      unfolding bit_drop_bit_eq bit_push_bit_iff comp_apply
      using \<open>\<not> bit c 31\<close> by (cases "n = 31") auto
  qed
  moreover have "\<not> bit (push_bit 1 c) 0" unfolding bit_push_bit_iff by simp
  ultimately show ?thesis unfolding bit_step_def by simp
qed

text \<open>Bits above the low byte are only shifted.\<close>

lemma funpow_bit_step_push:
  "n \<le> 32 \<Longrightarrow> (\<And>m. 32 - n \<le> m \<Longrightarrow> \<not> bit c m) \<Longrightarrow> (bit_step ^^ n) (push_bit n c) = c"
proof (induction n)
  case 0
  then show ?case by simp
next
  case (Suc n)
  have "\<not> bit (push_bit n c) 31"
    using Suc.prems(2) [of "31 - n"] Suc.prems(1) by (simp add: bit_push_bit_iff)
  then have "bit_step (push_bit 1 (push_bit n c)) = push_bit n c" by (rule bit_step_push)
  then have "bit_step (push_bit (Suc n) c) = push_bit n c" unfolding push_bit_push_bit by simp
  moreover have "(bit_step ^^ n) (push_bit n c) = c"
    by (rule Suc.IH) (use Suc.prems in auto)
  ultimately show ?case by (simp only: funpow_Suc_right comp_apply)
qed

lemma byte_step_push:
  assumes "\<And>m. 24 \<le> m \<Longrightarrow> \<not> bit c m"
  shows "byte_step (push_bit 8 c) = c"
  unfolding byte_step_def by (rule funpow_bit_step_push) (use assms in auto)

lemma byte_step_split: "byte_step c = table_entry (unat (take_bit 8 c)) XOR drop_bit 8 c"
proof -
  have c: "c = take_bit 8 c XOR push_bit 8 (drop_bit 8 c)"
    by (rule bit_eqI) (auto simp: bit_xor_iff bit_take_bit_iff bit_push_bit_iff bit_drop_bit_eq)
  have "\<not> bit (drop_bit 8 c) m" if "24 \<le> m" for m
    using that bit_imp_le_length [of c "8 + m"] by (auto simp: bit_drop_bit_eq)
  then have "byte_step (push_bit 8 (drop_bit 8 c)) = drop_bit 8 c" by (rule byte_step_push)
  moreover have "table_entry (unat (take_bit 8 c)) = byte_step (take_bit 8 c)"
    by (simp add: table_entry_def byte_step_def)
  ultimately show ?thesis using byte_step_linear [of "take_bit 8 c" "push_bit 8 (drop_bit 8 c)"] c
    by simp
qed

text \<open>One step through the table is eight bitwise steps on the checksum with the byte mixed in.\<close>

lemma of_char_high: "8 \<le> m \<Longrightarrow> \<not> bit (b32 v) m"
proof -
  assume m: "8 \<le> m"
  have "take_bit 8 (of_char v :: nat) = of_char v"
    using of_char_bound [of v] by (simp add: take_bit_eq_mod)
  then have "b32 v = take_bit 8 (b32 v)" by (metis of_nat_take_bit)
  then show ?thesis using m by (metis bit_take_bit_iff not_le)
qed

lemma table_step_eq: "table_step c v = byte_step (c XOR b32 v)"
proof -
  have "unat (take_bit 8 (c XOR b32 v)) < 256"
    unfolding unsigned_take_bit_eq using take_bit_nat_less_exp [of 8 "unat (c XOR b32 v)"] by simp
  then have "table_step c v = table_entry (unat (take_bit 8 (c XOR b32 v))) XOR drop_bit 8 c"
    by (simp add: table_step_def crcTable_def)
  moreover have "drop_bit 8 (c XOR b32 v) = drop_bit 8 c"
    using of_char_high [of _ v]
    by (intro bit_eqI) (auto simp: bit_drop_bit_eq bit_xor_iff)
  ultimately show ?thesis by (simp add: byte_step_split)
qed

lemma table_step_inj: "table_step c v = table_step d v \<Longrightarrow> c = d"
  using inj_byte_step by (auto simp: table_step_eq dest!: injD dest: xor_cancel)

lemma foldl_table_step_inj: "foldl table_step c bs = foldl table_step d bs \<Longrightarrow> c = d"
  by (induction bs arbitrary: c d) (auto dest: table_step_inj)

section \<open>Burst errors\<close>

text \<open>Up to four bytes, the first one lowest, as a 32-bit word.\<close>

fun le_word :: "byte list \<Rightarrow> 32 word" where
  "le_word [] = 0"
| "le_word (b # bs) = b32 b XOR push_bit 8 (le_word bs)"

lemma le_word_high: "8 * length bs \<le> m \<Longrightarrow> \<not> bit (le_word bs) m"
proof (induction bs arbitrary: m)
  case Nil
  then show ?case by simp
next
  case (Cons b bs)
  then have "\<not> bit (le_word bs) (m - 8)" by simp
  moreover have "\<not> bit (b32 b) m" using Cons.prems by (intro of_char_high) simp
  ultimately show ?case by (simp add: bit_xor_iff bit_push_bit_iff)
qed

lemma le_word_bit: "bit (le_word bs) m \<Longrightarrow> m < 8 * length bs"
  using le_word_high [of bs m] by (meson not_le)

lemma le_word_low: "take_bit 8 (le_word (b # bs)) = b32 b"
  by (rule bit_eqI) (use of_char_high [of _ b] not_le in
    \<open>auto simp: bit_take_bit_iff bit_xor_iff bit_push_bit_iff\<close>)

lemma b32_inject: "b32 a = b32 b \<Longrightarrow> a = b"
proof -
  assume "b32 a = b32 b"
  then have "unat (b32 a) = unat (b32 b)" by simp
  then have "(of_char a :: nat) = of_char b"
    using of_char_bound [of a] of_char_bound [of b] by (simp add: unsigned_of_nat take_bit_eq_mod)
  then show ?thesis by (metis char_of_char)
qed

lemma le_word_inject:
  "length xs = length ys \<Longrightarrow> length xs \<le> 4 \<Longrightarrow> le_word xs = le_word ys \<Longrightarrow> xs = ys"
proof (induction xs ys rule: list_induct2)
  case Nil
  then show ?case by simp
next
  case (Cons x xs y ys)
  have xy: "x = y"
    by (rule b32_inject) (metis le_word_low Cons.prems(2))
  with Cons.prems(2) have "push_bit 8 (le_word xs) = push_bit 8 (le_word ys)"
    by (metis le_word.simps(2) xor.commute xor_cancel)
  moreover have "drop_bit 8 (push_bit 8 (le_word zs)) = le_word zs" if "length zs \<le> 3" for zs
    using that by (intro bit_eqI) (auto simp: bit_drop_bit_eq bit_push_bit_iff dest: le_word_bit)
  moreover have "length xs \<le> 3" and "length ys \<le> 3" using Cons.prems(1) Cons.hyps by simp_all
  ultimately have "le_word xs = le_word ys" by metis
  with xy Cons show ?case by simp
qed

text \<open>
  Two states fed with different short inputs agree afterwards exactly when their difference is the
  difference of the inputs.
\<close>

lemma foldl_table_step_eq_iff:
  "length xs = length ys \<Longrightarrow> length xs \<le> 4 \<Longrightarrow>
   foldl table_step c xs = foldl table_step d ys \<Longrightarrow> c XOR d = le_word xs XOR le_word ys"
proof (induction xs ys arbitrary: c d rule: list_induct2)
  case Nil
  then show ?case by simp
next
  case (Cons x xs y ys)
  let ?w = "le_word xs XOR le_word ys"
  have "byte_step (c XOR b32 x) XOR byte_step (d XOR b32 y) = ?w"
    using Cons.IH [of "table_step c x" "table_step d y"] Cons.prems by (simp add: table_step_eq)
  moreover have "byte_step (push_bit 8 ?w) = ?w"
    using Cons.prems(1) Cons.hyps le_word_high [of xs] le_word_high [of ys]
    by (intro byte_step_push) (simp del: push_bit_xor add: bit_xor_iff)
  ultimately have "byte_step ((c XOR b32 x) XOR (d XOR b32 y)) = byte_step (push_bit 8 ?w)"
    by (simp only: byte_step_linear [of "c XOR b32 x"])
  then have "(c XOR b32 x) XOR (d XOR b32 y) = push_bit 8 ?w" by (rule injD [OF inj_byte_step])
  then show ?case unfolding push_bit_xor le_word.simps by (rule xor_swap)
qed

lemma crc_burst:
  assumes "length xs = length ys" and "length xs \<le> 4"
    and "crc_update c (as @ xs @ bs) = crc_update c (as @ ys @ bs)"
  shows "xs = ys"
proof -
  let ?s = "foldl table_step (NOT c) as"
  have "foldl table_step (foldl table_step ?s xs) bs = foldl table_step (foldl table_step ?s ys) bs"
    using assms(3) by (simp add: crc_update_def)
  then have "foldl table_step ?s xs = foldl table_step ?s ys" by (rule foldl_table_step_inj)
  from foldl_table_step_eq_iff [OF assms(1,2) this] have "le_word xs XOR le_word ys = le_word ys XOR le_word ys"
    by simp
  then have "le_word xs = le_word ys" by (rule xor_cancel)
  then show ?thesis by (rule le_word_inject [OF assms(1,2)])
qed

text \<open>For evaluation: the table need not be built.\<close>

lemma crc_update_code [code]: "crc_update c bs = NOT (foldl (\<lambda>c v. byte_step (c XOR b32 v)) (NOT c) bs)"
proof -
  have "table_step = (\<lambda>c v. byte_step (c XOR b32 v))" by (rule ext)+ (rule table_step_eq)
  then show ?thesis by (simp add: crc_update_def)
qed

lemma byte_step_unroll:
  "byte_step c = bit_step (bit_step (bit_step (bit_step (bit_step (bit_step (bit_step (bit_step c)))))))"
  by (simp add: byte_step_def numeral_eq_Suc)

lemma table_values: "crcTable ! 1 = 0xf26b8303" "crcTable ! 255 = 0xad7d5351"
  by (simp_all add: crcTable_def table_entry_def byte_step_unroll bit_step_def castagnoli_def
      flip: byte_step_def)

end
