(* ===== verification/Go_Stream.thy ===== *)
theory Go_Stream
  imports Go_Binary
begin

text \<open>
  Readers that stop at the first error, as the WAL and the snapshots use them: a reader takes the
  bytes that are left and returns an error, or a value and the bytes that are left then.  The
  interface \<open>stream_codec\<close> states what a writer and its reader promise each other; what is shown from
  it once, for records, snapshots and their parts, is that no truncated encoding is accepted and
  that counted sequences can be read back.
\<close>

type_synonym ('e, 'a) reader = "byte list \<Rightarrow> 'e + 'a \<times> byte list"

section \<open>Readers look only at what they consume\<close>

definition local_reader :: "('e, 'a) reader \<Rightarrow> bool" where
  "local_reader d = (\<forall>bs x rest. d bs = Inr (x, rest) \<longrightarrow>
     (\<exists>u. bs = u @ rest \<and> (\<forall>r. d (u @ r) = Inr (x, r))))"

named_theorems local_intros \<open>closure of local readers under sequencing\<close>

lemma local_readerD:
  assumes "local_reader d" and "d bs = Inr (x, rest)"
  obtains u where "bs = u @ rest" and "\<And>r. d (u @ r) = Inr (x, r)"
  using assms unfolding local_reader_def by blast

lemma local_readFull [local_intros]: "local_reader (readFull n)"
  unfolding local_reader_def
proof (intro allI impI)
  fix bs x rest assume "readFull n bs = Inr (x, rest)"
  then have "bs = x @ rest" and "length x = n" by (auto dest: readFull_Inr)
  then show "\<exists>u. bs = u @ rest \<and> (\<forall>r. readFull n (u @ r) = Inr (x, r))"
    by (auto simp: readFull_append)
qed

lemma local_return [local_intros]: "local_reader (\<lambda>bs. Inr (x, bs))"
  by (simp add: local_reader_def)

lemma local_error [local_intros]: "local_reader (\<lambda>bs. Inl e)"
  by (simp add: local_reader_def)

lemma local_if [local_intros]:
  "local_reader d \<Longrightarrow> local_reader d' \<Longrightarrow> local_reader (\<lambda>bs. if P then d bs else d' bs)"
  by (cases P) simp_all

lemma local_bind [local_intros]:
  assumes d: "local_reader d" and f: "\<And>x. local_reader (f x)"
  shows "local_reader (\<lambda>bs. rbind (d bs) (\<lambda>(x, bs). f x bs))"
  unfolding local_reader_def
proof (intro allI impI)
  fix bs y rest assume "rbind (d bs) (\<lambda>(x, bs). f x bs) = Inr (y, rest)"
  then obtain x mid where 1: "d bs = Inr (x, mid)" and 2: "f x mid = Inr (y, rest)"
    by (auto simp: rbind_Inr_iff)
  from local_readerD [OF d 1] obtain u where u: "bs = u @ mid" "\<And>r. d (u @ r) = Inr (x, r)" by blast
  from local_readerD [OF f 2] obtain v where v: "mid = v @ rest" "\<And>r. f x (v @ r) = Inr (y, r)" by blast
  have "bs = (u @ v) @ rest" using u(1) v(1) by simp
  moreover have "rbind (d ((u @ v) @ r)) (\<lambda>(x, bs). f x bs) = Inr (y, r)" for r
    by (simp add: u(2) v(2))
  ultimately show "\<exists>u. bs = u @ rest \<and> (\<forall>r. rbind (d (u @ r)) (\<lambda>(x, bs). f x bs) = Inr (y, r))"
    by blast
qed

text \<open>A reader whose errors are wrapped.\<close>

definition wrap_err :: "('e \<Rightarrow> 'f) \<Rightarrow> ('e, 'a) reader \<Rightarrow> ('f, 'a) reader" where
  "wrap_err w d bs = (case d bs of Inl e \<Rightarrow> Inl (w e) | Inr r \<Rightarrow> Inr r)"

lemma wrap_err_Inr [simp]: "wrap_err w d bs = Inr r \<longleftrightarrow> d bs = Inr r"
  by (simp add: wrap_err_def split: sum.split)

lemma wrap_err_ok [codec_simps]: "d bs = Inr r \<Longrightarrow> wrap_err w d bs = Inr r"
  by simp

lemma local_wrap [local_intros]: "local_reader d \<Longrightarrow> local_reader (wrap_err w d)"
  by (simp add: local_reader_def)

text \<open>A counted loop of reads.\<close>

primrec readN :: "('e, 'a) reader \<Rightarrow> nat \<Rightarrow> ('e, 'a list) reader" where
  "readN d 0 bs = Inr ([], bs)"
| "readN d (Suc n) bs = rbind (d bs) (\<lambda>(x, bs). rbind (readN d n bs) (\<lambda>(xs, bs). Inr (x # xs, bs)))"

lemma local_readN [local_intros]: "local_reader d \<Longrightarrow> local_reader (readN d n)"
proof (induction n)
  case 0
  then show ?case by (simp add: local_reader_def)
next
  case (Suc n)
  then show ?case
    unfolding readN.simps(2) [abs_def] by (intro local_intros)
qed

section \<open>A writer and its reader\<close>

locale stream_codec =
  fixes enc :: "'a \<Rightarrow> byte list" and dec :: "('e, 'a) reader" and ok :: "'a \<Rightarrow> bool"
  assumes read_back: "ok x \<Longrightarrow> dec (enc x @ rest) = Inr (x, rest)"
    and local_dec: "local_reader dec"
begin

lemma torn:
  assumes "ok x" and "n < length (enc x)"
  shows "\<exists>e. dec (take n (enc x)) = Inl e"
proof (cases "dec (take n (enc x))")
  case (Inr r)
  then obtain y rest where "dec (take n (enc x)) = Inr (y, rest)" by (cases r) simp
  from local_readerD [OF local_dec this] obtain u
    where u: "take n (enc x) = u @ rest" "\<And>r. dec (u @ r) = Inr (y, r)" by blast
  then have "dec (enc x @ []) = Inr (y, rest @ drop n (enc x))"
    by (metis append.assoc append_Nil2 append_take_drop_id)
  with read_back [OF assms(1), of "[]"] have "rest @ drop n (enc x) = []"
    by (metis old.prod.inject sum.inject(2))
  with assms(2) show ?thesis by simp
qed simp

lemma seq_read_back:
  "list_all ok xs \<Longrightarrow> readN dec (length xs) (concat (map enc xs) @ rest) = Inr (xs, rest)"
  by (induction xs) (simp_all add: read_back)

lemma seq_codec:
  "stream_codec (\<lambda>xs. concat (map enc xs)) (readN dec n) (\<lambda>xs. list_all ok xs \<and> length xs = n)"
  by unfold_locales (auto simp: seq_read_back intro: local_readN local_dec)

lemma dec_prefix: "dec bs = Inr (x, rest) \<Longrightarrow> \<exists>u. bs = u @ rest"
  using local_dec unfolding local_reader_def by blast

end

end
