(* ===== verification/Wal_Record.thy ===== *)
theory Wal_Record
  imports Go_Crc32 Go_Stream
begin

text \<open>
  The records of the write-ahead log (\<^verbatim>\<open>internal/storage/event.go\<close>, \<open>writeRecord\<close> of
  \<^verbatim>\<open>writer.go\<close>, \<open>ReadEvent\<close> of \<^verbatim>\<open>reader.go\<close>): an event is written as a 21-byte header, four strings
  with two-byte lengths, the payload with a four-byte length, and the checksum of all that.  What is
  shown: reading back, what the size reported to the caller is, and what a torn or damaged record
  is read as.
\<close>

section \<open>Events\<close>

text \<open>\<open>ev_Timestamp\<close> is the two's complement form of the \<open>int64\<close>; \<open>done\<close> is part of the WAL's channel.\<close>

record Event =
  ev_Type :: byte
  ev_Namespace :: string
  ev_Queue :: string
  ev_Group :: string
  ev_MsgID :: string
  ev_Payload :: "byte list"
  ev_Seq :: "64 word"
  ev_Timestamp :: "64 word"

definition EventPublish :: byte where "EventPublish = CHR 0x01"
definition EventLease :: byte where "EventLease = CHR 0x02"
definition EventACK :: byte where "EventACK = CHR 0x03"
definition EventNACK :: byte where "EventNACK = CHR 0x04"
definition EventExpire :: byte where "EventExpire = CHR 0x05"

section \<open>Writing\<close>

definition ev_header :: "Event \<Rightarrow> byte list" where
  "ev_header e = be_bytes 8 (unat (ev_Seq e)) @ [ev_Type e] @ be_bytes 8 (unat (ev_Timestamp e))
     @ replicate 4 (CHR 0x00)"

definition ev_strings :: "Event \<Rightarrow> string list" where
  "ev_strings e = [ev_Namespace e, ev_Queue e, ev_Group e, ev_MsgID e]"

text \<open>The pieces in the order in which they are written, to the hash and then to the log.\<close>

definition ev_pieces :: "Event \<Rightarrow> byte list list" where
  "ev_pieces e = ev_header e # concat (map (\<lambda>f. [be_bytes 2 (length f), f]) (ev_strings e))
     @ be_bytes 4 (length (ev_Payload e)) # (if length (ev_Payload e) > 0 then [ev_Payload e] else [])"

definition ev_body :: "Event \<Rightarrow> byte list" where
  "ev_body e = concat (ev_pieces e)"

definition ev_footer :: "Event \<Rightarrow> byte list" where
  "ev_footer e = be_bytes 4 (unat (crc_stream (ev_pieces e)))"

definition writeRecord :: "Event \<Rightarrow> byte list" where
  "writeRecord e = ev_body e @ ev_footer e"

definition fixedOverhead :: "Event \<Rightarrow> nat" where
  "fixedOverhead e = 21 + 2 + length (ev_Namespace e) + 2 + length (ev_Queue e) + 2 + length (ev_Group e)
     + 2 + length (ev_MsgID e) + 4 + length (ev_Payload e) + 4"

section \<open>Reading\<close>

datatype record_error = RecordIO ioerr | ErrCorruptedRecord "64 word"

definition readField :: "32 word \<Rightarrow> (record_error, string \<times> 32 word) reader" where
  "readField crc bs =
     rbind (wrap_err RecordIO (readFull 2) bs) (\<lambda>(fieldLen, bs).
     rbind (wrap_err RecordIO (readFull (be_val fieldLen)) bs) (\<lambda>(data, bs).
     Inr ((data, crc_update (crc_update crc fieldLen) data), bs)))"

primrec readFields :: "nat \<Rightarrow> 32 word \<Rightarrow> (record_error, string list \<times> 32 word) reader" where
  "readFields 0 crc bs = Inr (([], crc), bs)"
| "readFields (Suc n) crc bs =
     rbind (readField crc bs) (\<lambda>(fc, bs).
     rbind (readFields n (snd fc) bs) (\<lambda>(fsc, bs). Inr ((fst fc # fst fsc, snd fsc), bs)))"

definition readPayload :: "32 word \<Rightarrow> (record_error, byte list \<times> 32 word) reader" where
  "readPayload crc bs =
     rbind (wrap_err RecordIO (readFull 4) bs) (\<lambda>(payloadLen, bs).
     if be_val payloadLen > 0
     then rbind (wrap_err RecordIO (readFull (be_val payloadLen)) bs) (\<lambda>(payload, bs).
            Inr ((payload, crc_update (crc_update crc payloadLen) payload), bs))
     else Inr (([], crc_update crc payloadLen), bs))"

definition ReadEvent :: "(record_error, Event) reader" where
  "ReadEvent bs =
     rbind (wrap_err RecordIO (readFull 21) bs) (\<lambda>(header, bs).
     rbind (readFields 4 (crc_update 0 header) bs) (\<lambda>(fc, bs).
     rbind (readPayload (snd fc) bs) (\<lambda>(pc, bs).
     rbind (wrap_err RecordIO (readFull 4) bs) (\<lambda>(footer, bs).
     if word_of_nat (be_val footer) \<noteq> snd pc
     then Inl (ErrCorruptedRecord (word_of_nat (be_val (take 8 header))))
     else Inr (\<lparr>ev_Type = header ! 8, ev_Namespace = fst fc ! 0, ev_Queue = fst fc ! 1,
                ev_Group = fst fc ! 2, ev_MsgID = fst fc ! 3, ev_Payload = fst pc,
                ev_Seq = word_of_nat (be_val (take 8 header)),
                ev_Timestamp = word_of_nat (be_val (take 8 (drop 9 header)))\<rparr>, bs)))))"

section \<open>Reading back\<close>

definition event_ok :: "Event \<Rightarrow> bool" where
  "event_ok e = (list_all (\<lambda>f. length f < 2 ^ 16) (ev_strings e) \<and> length (ev_Payload e) < 2 ^ 32)"

lemma length_ev_header [simp]: "length (ev_header e) = 21"
  by (simp add: ev_header_def)

lemma writeRecord_size: "length (writeRecord e) = fixedOverhead e"
  by (simp add: writeRecord_def ev_body_def ev_footer_def ev_pieces_def ev_strings_def fixedOverhead_def)

lemma readFields_back:
  "list_all (\<lambda>f. length f < 2 ^ 16) fs \<Longrightarrow> length fs = n \<Longrightarrow>
   readFields n crc (concat (map (\<lambda>f. be_bytes 2 (length f) @ f) fs) @ rest) =
     Inr ((fs, crc_update crc (concat (map (\<lambda>f. be_bytes 2 (length f) @ f) fs))), rest)"
  by (induction fs arbitrary: n crc)
    (auto simp: readField_def codec_simps crc_update_append)

lemma readPayload_back:
  "length p < 2 ^ 32 \<Longrightarrow>
   readPayload crc (be_bytes 4 (length p) @ p @ rest) = Inr ((p, crc_update crc (be_bytes 4 (length p) @ p)), rest)"
  by (auto simp: readPayload_def codec_simps crc_update_append)

lemma ev_body_split:
  "ev_body e = ev_header e @ concat (map (\<lambda>f. be_bytes 2 (length f) @ f) (ev_strings e))
     @ be_bytes 4 (length (ev_Payload e)) @ ev_Payload e"
  by (auto simp: ev_body_def ev_pieces_def ev_strings_def)

lemma header_fields:
  "word_of_nat (be_val (take 8 (ev_header e))) = ev_Seq e"
  "ev_header e ! 8 = ev_Type e"
  "word_of_nat (be_val (take 8 (drop 9 (ev_header e)))) = ev_Timestamp e"
  by (simp_all add: ev_header_def nth_append be_word64)

text \<open>Whatever four bytes follow the body, only they decide between acceptance and rejection.\<close>

lemma ReadEvent_body:
  assumes "event_ok e" and "length f = 4"
  shows "ReadEvent (ev_body e @ f @ rest) =
    (if word_of_nat (be_val f) = crc_update 0 (ev_body e) then Inr (e, rest)
     else Inl (ErrCorruptedRecord (ev_Seq e)))"
proof -
  have l: "length (ev_strings e) = 4" by (simp add: ev_strings_def)
  have p: "length (ev_Payload e) < 2 ^ 32" using assms(1) by (simp add: event_ok_def)
  have s: "list_all (\<lambda>f. length f < 2 ^ 16) (ev_strings e)" using assms(1) by (simp add: event_ok_def)
  have nth: "ev_strings e ! 0 = ev_Namespace e" "ev_strings e ! 1 = ev_Queue e"
    "ev_strings e ! 2 = ev_Group e" "ev_strings e ! 3 = ev_MsgID e"
    by (simp_all add: ev_strings_def numeral_eq_Suc)
  show ?thesis
    unfolding ReadEvent_def ev_body_split
    using readFields_back [OF s l] readPayload_back [OF p] assms(2)
    by (simp add: codec_simps header_fields nth crc_update_append del: One_nat_def)
qed

lemma footer_value: "word_of_nat (be_val (ev_footer e)) = crc_update 0 (ev_body e)"
  by (simp add: ev_footer_def be_word32 crc_stream_concat ev_body_def)

lemma length_ev_footer [simp]: "length (ev_footer e) = 4"
  by (simp add: ev_footer_def)

lemma local_readFields: "local_reader (readFields n crc)"
proof (induction n arbitrary: crc)
  case 0
  then show ?case unfolding readFields.simps(1) [abs_def] by (intro local_intros)
next
  case (Suc n)
  have "local_reader (readField c)" for c
    unfolding readField_def [abs_def] by (intro local_intros)
  then show ?case
    unfolding readFields.simps(2) [abs_def] by (intro local_intros Suc)
qed

lemma local_ReadEvent: "local_reader ReadEvent"
proof -
  have "local_reader (readPayload c)" for c
    unfolding readPayload_def [abs_def] by (intro local_intros)
  then show ?thesis
    unfolding ReadEvent_def [abs_def] by (intro local_intros local_readFields)
qed

interpretation record_codec: stream_codec writeRecord ReadEvent event_ok
proof unfold_locales
  show "ReadEvent (writeRecord e @ rest) = Inr (e, rest)" if "event_ok e" for e rest
    using ReadEvent_body [OF that length_ev_footer] by (simp add: writeRecord_def footer_value)
qed (rule local_ReadEvent)

section \<open>Reading a whole log\<close>

lemma ReadEvent_consumes: "ReadEvent bs = Inr (e, rest) \<Longrightarrow> length rest < length bs"
proof -
  assume "ReadEvent bs = Inr (e, rest)"
  then obtain h bs1 fc bs2 pc bs3 ft
    where *: "readFull 21 bs = Inr (h, bs1)" "readFields 4 (crc_update 0 h) bs1 = Inr (fc, bs2)"
      "readPayload (snd fc) bs2 = Inr (pc, bs3)" "readFull 4 bs3 = Inr (ft, rest)"
    by (auto simp: ReadEvent_def rbind_Inr_iff split: if_splits)
  have "length bs2 \<le> length bs1" using local_readFields *(2) by (rule local_readerD) simp
  moreover have "length bs3 \<le> length bs2"
    using *(3) by (auto simp: readPayload_def rbind_Inr_iff split: if_splits dest!: readFull_Inr)
  ultimately show ?thesis using readFull_Inr [OF *(1)] readFull_Inr [OF *(4)] by auto
qed

text \<open>The events of a segment up to the first error, and that error: the loop of \<open>replayFile\<close>.\<close>

function readLog :: "byte list \<Rightarrow> Event list \<times> record_error" where
  "readLog bs = (case ReadEvent bs of
     Inl e \<Rightarrow> ([], e)
   | Inr (ev, bs) \<Rightarrow> let (evs, e) = readLog bs in (ev # evs, e))"
  by pat_completeness auto
termination
  by (relation "measure length") (auto dest: ReadEvent_consumes)

declare readLog.simps [simp del]

lemma readLog_append:
  "list_all event_ok es \<Longrightarrow>
   readLog (concat (map writeRecord es) @ bs) = (es @ fst (readLog bs), snd (readLog bs))"
proof (induction es)
  case Nil
  then show ?case by simp
next
  case (Cons e es)
  then show ?case
    by (subst readLog.simps) (simp add: record_codec.read_back split_beta)
qed

lemma readLog_torn:
  assumes "event_ok e" and "n < length (writeRecord e)"
  shows "fst (readLog (take n (writeRecord e))) = []"
proof -
  obtain err where "ReadEvent (take n (writeRecord e)) = Inl err"
    using record_codec.torn [OF assms] by blast
  then show ?thesis by (subst readLog.simps) simp
qed

text \<open>How many records of a log lie wholly within its first \<open>n\<close> bytes.\<close>

fun whole :: "nat \<Rightarrow> Event list \<Rightarrow> nat" where
  "whole n [] = 0"
| "whole n (e # es) = (if length (writeRecord e) \<le> n then Suc (whole (n - length (writeRecord e)) es) else 0)"

lemma readLog_take:
  "list_all event_ok es \<Longrightarrow> fst (readLog (take n (concat (map writeRecord es)))) = take (whole n es) es"
proof (induction es arbitrary: n)
  case Nil
  have "ReadEvent [] = Inl (RecordIO EOF)" by (simp add: ReadEvent_def readFull_def wrap_err_def)
  then show ?case by (subst readLog.simps) simp
next
  case (Cons e es)
  show ?case
  proof (cases "length (writeRecord e) \<le> n")
    case True
    with Cons show ?thesis using readLog_append [of "[e]" "take (n - length (writeRecord e)) (concat (map writeRecord es))"]
      by simp
  next
    case False
    with Cons show ?thesis using readLog_torn [of e n] by simp
  qed
qed

lemma whole_spec:
  "length (concat (map writeRecord (take (whole n es) es))) \<le> n
   \<and> (whole n es < length es \<longrightarrow> n < length (concat (map writeRecord (take (Suc (whole n es)) es))))"
  by (induction n es rule: whole.induct) auto

text \<open>
  Torn logs.  When a log is cut anywhere, as by a crash in the middle of a write, reading it
  returns exactly the events whose records lie wholly before the cut, in order: nothing that was
  written completely is lost, and nothing is made up from the torn rest.
\<close>

lemma torn_log:
  assumes "list_all event_ok es"
  shows "\<exists>k. fst (readLog (take n (concat (map writeRecord es)))) = take k es
    \<and> length (concat (map writeRecord (take k es))) \<le> n
    \<and> (k < length es \<longrightarrow> n < length (concat (map writeRecord (take (Suc k) es))))"
  using readLog_take [OF assms] whole_spec by blast

definition demo_event :: "string \<Rightarrow> Event" where
  "demo_event m = \<lparr>ev_Type = EventPublish, ev_Namespace = ''default'', ev_Queue = ''q'', ev_Group = ''g'',
     ev_MsgID = m, ev_Payload = ''hello'', ev_Seq = 1, ev_Timestamp = 7\<rparr>"

lemma demo_event_ok: "length m < 2 ^ 16 \<Longrightarrow> event_ok (demo_event m)"
  by (simp add: event_ok_def demo_event_def ev_strings_def)

lemma demo_event_size: "length (writeRecord (demo_event m)) = 51 + length m"
  by (simp add: writeRecord_size fixedOverhead_def demo_event_def)

text \<open>
  [C31] Damaged records.  Let the body of a record be damaged within four consecutive bytes, in a way
  that leaves a body of the same lengths: reading the log returns the events before it, reports the
  damaged record as corrupted, and returns no event from it or after it.
\<close>

theorem damaged_record:
  assumes "list_all event_ok es" and "event_ok e" and "event_ok e'"
    and "ev_body e = as @ xs @ bs" and "ev_body e' = as @ ys @ bs"
    and "length xs = length ys" and "length xs \<le> 4" and "xs \<noteq> ys"
  shows "readLog (concat (map writeRecord es) @ ev_body e' @ ev_footer e @ rest)
    = (es, ErrCorruptedRecord (ev_Seq e'))"
proof -
  have "crc_update 0 (ev_body e) \<noteq> crc_update 0 (ev_body e')"
    using crc_burst [OF assms(6,7), of 0 as bs] assms(4,5,8) by metis
  then have "ReadEvent (ev_body e' @ ev_footer e @ rest) = Inl (ErrCorruptedRecord (ev_Seq e'))"
    using ReadEvent_body [OF assms(3) length_ev_footer] by (simp add: footer_value)
  then have "readLog (ev_body e' @ ev_footer e @ rest) = ([], ErrCorruptedRecord (ev_Seq e'))"
    by (subst readLog.simps) simp
  then show ?thesis using readLog_append [OF assms(1)] by simp
qed

theorem damaged_record_witness:
  "readLog (concat (map writeRecord [demo_event ''a'']) @ ev_body (demo_event ''bX'') @ ev_footer (demo_event ''bY'') @ [])
    = ([demo_event ''a''], ErrCorruptedRecord 1)"
proof -
  let ?pre = "ev_header (demo_event ''bX'') @ be_bytes 2 (length ''default'') @ ''default'' @ be_bytes 2 (length ''q'') @ ''q''
    @ be_bytes 2 (length ''g'') @ ''g'' @ be_bytes 2 (length ''bX'') @ ''b''"
  have h: "ev_header (demo_event ''bX'') = ev_header (demo_event ''bY'')"
    by (simp add: ev_header_def demo_event_def)
  have "ev_body (demo_event ''bX'') = ?pre @ ''X'' @ be_bytes 4 (length ''hello'') @ ''hello''"
    by (simp add: ev_body_split ev_strings_def demo_event_def)
  moreover have "ev_body (demo_event ''bY'') = ?pre @ ''Y'' @ be_bytes 4 (length ''hello'') @ ''hello''"
    unfolding h by (simp add: ev_body_split ev_strings_def demo_event_def)
  moreover have "ev_Seq (demo_event ''bX'') = 1" by (simp add: demo_event_def)
  ultimately show ?thesis
    using damaged_record [of "[demo_event ''a'']" "demo_event ''bY''" "demo_event ''bX''" ?pre "''Y''"
        "be_bytes 4 (length ''hello'') @ ''hello''" "''X''" "[]"]
    by (simp add: demo_event_ok del: be_bytes.simps)
qed

end
