(* ===== verification/Go_Fs.thy ===== *)
theory Go_Fs
  imports Prelude
begin

text \<open>
  What the storage code uses of Go's \<open>os\<close>, \<open>path/filepath\<close> and \<open>fmt\<close>: directories as maps from
  names to files and directories, \<open>os.ReadDir\<close> in the order of the names, the lexical \<open>filepath.Join\<close>,
  file names printed with \<open>%09d\<close> and scanned with \<open>fmt.Sscanf\<close>.  The lemmas show that printed names
  are scanned back, and that up to nine digits the order of the names is the order of the numbers.
\<close>

section \<open>Directories\<close>

datatype node = File "byte list" | Dir "(string \<times> node) list"

type_synonym dirents = "(string, node) gomap"

definition isDir :: "node \<Rightarrow> bool" where
  "isDir n = (case n of Dir _ \<Rightarrow> True | File _ \<Rightarrow> False)"

lemma isDir_simps [simp]: "isDir (Dir d)" "\<not> isDir (File f)"
  by (simp_all add: isDir_def)

definition ReadDir :: "dirents \<Rightarrow> (string \<times> node) list" where
  "ReadDir d = sort_key fst d"

lemma set_ReadDir [simp]: "set (ReadDir d) = set d"
  by (simp add: ReadDir_def)

definition file_bytes :: "dirents \<Rightarrow> string \<Rightarrow> byte list option" where
  "file_bytes d name = (case gm_get d name of Some (File bs) \<Rightarrow> Some bs | _ \<Rightarrow> None)"

fun fs_get :: "node \<Rightarrow> string list \<Rightarrow> node option" where
  "fs_get n [] = Some n"
| "fs_get (File _) (_ # _) = None"
| "fs_get (Dir d) (p # ps) = (case gm_get d p of None \<Rightarrow> None | Some n \<Rightarrow> fs_get n ps)"

text \<open>\<open>os.MkdirAll\<close> followed by replacing the contents of the directory; \<open>None\<close> when a file is in the way.\<close>

fun fs_put :: "node \<Rightarrow> string list \<Rightarrow> dirents \<Rightarrow> node option" where
  "fs_put (File _) _ _ = None"
| "fs_put (Dir _) [] new = Some (Dir new)"
| "fs_put (Dir d) (p # ps) new =
     (case fs_put (case gm_get d p of None \<Rightarrow> Dir [] | Some n \<Rightarrow> n) ps new of
        None \<Rightarrow> None
      | Some n \<Rightarrow> Some (Dir (gm_put p n d)))"

lemma fs_get_put_same: "fs_put n ps new = Some n' \<Longrightarrow> fs_get n' ps = Some (Dir new)"
  by (induction n ps new arbitrary: n' rule: fs_put.induct) (auto split: option.splits)

section \<open>Paths\<close>

fun split_slash :: "string \<Rightarrow> string list" where
  "split_slash [] = [[]]"
| "split_slash (c # cs) =
     (if c = CHR ''/'' then [] # split_slash cs
      else case split_slash cs of w # ws \<Rightarrow> (c # w) # ws | [] \<Rightarrow> [[c]])"

text \<open>
  \<open>filepath.Clean\<close> on the components after the root directory: empty components and \<open>.\<close> vanish, \<open>..\<close>
  removes the component before it.  The first argument is the reversed path cleaned so far.  Where
  \<open>..\<close> leads above the start, the path is outside of it: \<open>None\<close>.
\<close>

fun clean :: "string list \<Rightarrow> string list \<Rightarrow> string list option" where
  "clean acc [] = Some (rev acc)"
| "clean acc (c # cs) =
     (if c = [] \<or> c = ''.'' then clean acc cs
      else if c = ''..'' then (case acc of [] \<Rightarrow> None | _ # acc \<Rightarrow> clean acc cs)
      else clean (c # acc) cs)"

definition join :: "string list \<Rightarrow> string list option" where
  "join parts = clean [] (concat (map split_slash parts))"

lemma split_slash_plain: "CHR ''/'' \<notin> set s \<Longrightarrow> split_slash s = [s]"
  by (induction s) auto

definition plain_name :: "string \<Rightarrow> bool" where
  "plain_name s = (CHR ''/'' \<notin> set s \<and> s \<noteq> [] \<and> s \<noteq> ''.'' \<and> s \<noteq> ''..'')"

lemma join_plain: "list_all plain_name parts \<Longrightarrow> join parts = Some parts"
proof -
  have "clean acc ps = Some (rev acc @ ps)" if "list_all plain_name ps" for acc ps
    using that by (induction ps arbitrary: acc) (auto simp: plain_name_def)
  moreover assume "list_all plain_name parts"
  moreover from this have "concat (map split_slash parts) = parts"
    by (induction parts) (auto simp: plain_name_def split_slash_plain)
  ultimately show ?thesis by (simp add: join_def)
qed

section \<open>Decimal numbers\<close>

definition dec_digit :: "nat \<Rightarrow> char" where
  "dec_digit n = char_of (48 + n)"

definition is_digit :: "char \<Rightarrow> bool" where
  "is_digit c = (CHR ''0'' \<le> c \<and> c \<le> CHR ''9'')"

definition digit_val :: "char \<Rightarrow> nat" where
  "digit_val c = of_char c - 48"

fun dec_pad :: "nat \<Rightarrow> nat \<Rightarrow> string" where
  "dec_pad 0 n = []"
| "dec_pad (Suc k) n = dec_pad k (n div 10) @ [dec_digit (n mod 10)]"

function dec :: "nat \<Rightarrow> string" where
  "dec n = (if n < 10 then [dec_digit n] else dec (n div 10) @ [dec_digit (n mod 10)])"
  by pat_completeness auto
termination
  by (relation "measure id") auto

declare dec.simps [simp del]

text \<open>\<open>fmt.Sprintf("%09d", n)\<close>: nine digits, or all of them when there are more.\<close>

definition sprintf_09d :: "nat \<Rightarrow> string" where
  "sprintf_09d n = (if n < 10 ^ 9 then dec_pad 9 n else dec n)"

definition dec_val :: "string \<Rightarrow> nat" where
  "dec_val s = foldl (\<lambda>a c. 10 * a + digit_val c) 0 s"

text \<open>White space skipped before a number (apart from multi-byte characters).\<close>

definition is_space :: "char \<Rightarrow> bool" where
  "is_space c = (c \<in> {CHR '' '', CHR 0x09, CHR 0x0B, CHR 0x0C, CHR 0x0D})"

text \<open>
  \<open>fmt.Sscanf(name, "%d" + ext, &id)\<close> with \<open>id\<close> a \<open>uint64\<close>: at least one digit, no overflow, then the
  literal text; what follows it is not looked at.
\<close>

definition sscanf_d :: "string \<Rightarrow> string \<Rightarrow> nat option" where
  "sscanf_d ext name =
     (let s = dropWhile is_space name; ds = takeWhile is_digit s; r = dropWhile is_digit s in
      if ds = [] \<or> dec_val ds \<ge> 2 ^ 64 \<or> take (length ext) r \<noteq> ext then None else Some (dec_val ds))"

lemma digit_val_dec_digit [simp]: "n < 10 \<Longrightarrow> digit_val (dec_digit n) = n"
  by (simp add: digit_val_def dec_digit_def of_char_of)

lemma is_digit_dec_digit [simp]: "n < 10 \<Longrightarrow> is_digit (dec_digit n)"
  by (simp add: is_digit_def dec_digit_def less_eq_char_def of_char_of)

lemma is_space_dec_digit [simp]: "n < 10 \<Longrightarrow> \<not> is_space (dec_digit n)"
  using is_digit_dec_digit [of n] by (auto simp: is_space_def is_digit_def)

lemma dec_val_snoc [simp]: "dec_val (s @ [c]) = 10 * dec_val s + digit_val c"
  by (simp add: dec_val_def)

lemma dec_pad_val: "n < 10 ^ k \<Longrightarrow> dec_val (dec_pad k n) = n"
proof (induction k arbitrary: n)
  case 0
  then show ?case by (simp add: dec_val_def)
next
  case (Suc k)
  then have "n div 10 < 10 ^ k" by (simp add: less_mult_imp_div_less mult.commute)
  with Suc.IH show ?case by simp
qed

lemma dec_val_dec: "dec_val (dec n) = n"
proof (induction n rule: dec.induct)
  case (1 n)
  then show ?case
    by (subst dec.simps) (auto simp: dec_val_def [of "[_]"])
qed

lemma digits_dec_pad: "\<forall>c \<in> set (dec_pad k n). is_digit c \<and> \<not> is_space c"
  by (induction k arbitrary: n) auto

lemma digits_dec: "\<forall>c \<in> set (dec n). is_digit c \<and> \<not> is_space c"
proof (induction n rule: dec.induct)
  case (1 n)
  then show ?case by (subst dec.simps) auto
qed

lemma dec_nonempty: "dec n \<noteq> []"
  by (subst dec.simps) simp

lemma length_dec_pad [simp]: "length (dec_pad k n) = k"
  by (induction k arbitrary: n) simp_all

lemma sprintf_09d_val: "dec_val (sprintf_09d n) = n"
  by (simp add: sprintf_09d_def dec_pad_val dec_val_dec)

lemma sprintf_09d_nonempty: "sprintf_09d n \<noteq> []"
proof -
  have "dec_pad 9 n \<noteq> []" using length_dec_pad [of 9 n] by (intro notI) simp
  then show ?thesis by (simp add: sprintf_09d_def dec_nonempty del: dec_pad.simps)
qed

lemma sprintf_09d_digits: "\<forall>c \<in> set (sprintf_09d n). is_digit c \<and> \<not> is_space c"
  unfolding sprintf_09d_def using digits_dec_pad [of 9 n] digits_dec [of n] by (cases "n < 10 ^ 9") simp_all

lemmas sprintf_09d_spec = sprintf_09d_val sprintf_09d_nonempty sprintf_09d_digits

text \<open>What is printed is scanned back, for every extension that does not begin with a digit.\<close>

lemma sscanf_sprintf:
  assumes "n < 2 ^ 64" and "ext \<noteq> []" and "\<not> is_digit (hd ext)"
  shows "sscanf_d ext (sprintf_09d n @ ext @ more) = Some n"
proof -
  obtain c cs where ext: "ext = c # cs" and c: "\<not> is_digit c" using assms by (cases ext) auto
  note d = sprintf_09d_spec(3) [of n]
  have "dropWhile is_space (sprintf_09d n @ ext @ more) = sprintf_09d n @ ext @ more"
    using sprintf_09d_spec(2) [of n] d by (cases "sprintf_09d n") auto
  moreover have "takeWhile is_digit (sprintf_09d n @ ext @ more) = sprintf_09d n"
    using d c ext by (simp add: takeWhile_append2)
  moreover have "dropWhile is_digit (sprintf_09d n @ ext @ more) = ext @ more"
    using d c ext by (simp add: dropWhile_append2)
  ultimately show ?thesis
    using assms(1) sprintf_09d_spec(1,2) [of n] by (simp add: sscanf_d_def Let_def)
qed

section \<open>The order of names\<close>

lemma less_list_append: "xs @ ys < xs @ zs \<longleftrightarrow> ys < zs" for xs ys zs :: "'a::linorder list"
  by (induction xs) auto

lemma less_append_same_length:
  "length xs = length ys \<Longrightarrow> xs < ys \<Longrightarrow> xs @ a < ys @ b" for xs ys :: "'a::linorder list"
  by (induction xs ys rule: list_induct2) auto

lemma dec_digit_less: "m < n \<Longrightarrow> n < 10 \<Longrightarrow> dec_digit m < dec_digit n"
  by (simp add: dec_digit_def less_char_def of_char_of)

lemma dec_pad_less: "m < n \<Longrightarrow> n < 10 ^ k \<Longrightarrow> dec_pad k m < dec_pad k n"
proof (induction k arbitrary: m n)
  case 0
  then show ?case by simp
next
  case (Suc k)
  show ?case
  proof (cases "m div 10 = n div 10")
    case True
    with Suc.prems(1) have "m mod 10 < n mod 10"
      using div_mult_mod_eq [of m 10] div_mult_mod_eq [of n 10] by linarith
    then have "dec_digit (m mod 10) < dec_digit (n mod 10)" by (intro dec_digit_less) simp_all
    with True show ?thesis by (simp add: less_list_append)
  next
    case False
    with Suc.prems(1) have "m div 10 < n div 10"
      using div_le_mono [of m n 10] by linarith
    moreover have "n div 10 < 10 ^ k" using Suc.prems(2) by (simp add: less_mult_imp_div_less mult.commute)
    ultimately have "dec_pad k (m div 10) < dec_pad k (n div 10)" by (rule Suc.IH)
    then show ?thesis by (simp add: less_append_same_length)
  qed
qed

lemma sprintf_09d_less:
  assumes "m < n" and "n < 10 ^ 9"
  shows "sprintf_09d m @ a < sprintf_09d n @ b"
  using assms dec_pad_less [OF assms]
  by (simp add: sprintf_09d_def less_append_same_length del: dec_pad.simps)

lemma dec_pad_numeral:
  "dec_pad (numeral k) n = dec_pad (pred_numeral k) (n div 10) @ [dec_digit (n mod 10)]"
  unfolding numeral_eq_Suc [of k] dec_pad.simps ..

text \<open>Beyond nine digits the order breaks.\<close>

lemma sprintf_09d_disorder: "sprintf_09d (10 ^ 9) @ ''.log'' < sprintf_09d (10 ^ 9 - 1) @ ''.log''"
  by (simp add: sprintf_09d_def dec.simps dec_pad_numeral dec_digit_less)

end
