(* ===== verification/Snapshot_File.thy ===== *)
theory Snapshot_File
  imports Go_Stream Go_Fs
begin

text \<open>
  The snapshot files (\<^verbatim>\<open>internal/storage/snapshot/snapshot.go\<close>): the three records, the writer, the
  reader with its error on every short read, and the search for the latest snapshot.  Signed fields
  are words holding the two's complement form.  What is shown: a snapshot within the limits of its
  length fields is read back, and no truncated snapshot file is accepted.
\<close>

section \<open>Snapshots\<close>

record MessageSnapshot =
  ms_ID :: string
  ms_Payload :: "byte list"
  ms_State :: "8 word"
  ms_Attempts :: "32 word"
  ms_CreatedAt :: "64 word"
  ms_ScheduledAt :: "64 word"
  ms_LastError :: string

record GroupSnapshot =
  sg_Key :: string
  sg_Parallelism :: "32 word"
  sg_Quantum :: "32 word"
  sg_Messages :: "MessageSnapshot list"

record snapshot =
  sn_SegmentID :: "64 word"
  sn_WALSeq :: "64 word"
  sn_Timestamp :: "64 word"
  sn_Groups :: "GroupSnapshot list"

definition magic :: string where "magic = ''FSNP''"
definition version :: nat where "version = 1"

section \<open>Writing\<close>

definition writeMessage :: "MessageSnapshot \<Rightarrow> byte list" where
  "writeMessage m =
     be_bytes 2 (length (ms_ID m)) @ ms_ID m @ be_bytes 4 (length (ms_Payload m)) @ ms_Payload m
     @ be_bytes 1 (unat (ms_State m)) @ be_bytes 4 (unat (ms_Attempts m))
     @ be_bytes 8 (unat (ms_CreatedAt m)) @ be_bytes 8 (unat (ms_ScheduledAt m))
     @ be_bytes 2 (length (ms_LastError m)) @ ms_LastError m"

definition writeGroup :: "GroupSnapshot \<Rightarrow> byte list" where
  "writeGroup g =
     be_bytes 2 (length (sg_Key g)) @ sg_Key g @ be_bytes 4 (unat (sg_Parallelism g))
     @ be_bytes 4 (unat (sg_Quantum g)) @ be_bytes 4 (length (sg_Messages g))
     @ concat (map writeMessage (sg_Messages g))"

definition snapshot_header :: "snapshot \<Rightarrow> byte list" where
  "snapshot_header s = magic @ be_bytes 2 version @ be_bytes 8 (unat (sn_SegmentID s))
     @ be_bytes 8 (unat (sn_WALSeq s)) @ be_bytes 8 (unat (sn_Timestamp s)) @ be_bytes 2 0"

definition SnapshotWriter_Write :: "snapshot \<Rightarrow> byte list" where
  "SnapshotWriter_Write s = snapshot_header s @ be_bytes 4 (length (sn_Groups s))
     @ concat (map writeGroup (sn_Groups s))"

section \<open>Reading\<close>

datatype snap_error = SnapIO string ioerr | InvalidMagic | UnsupportedVersion

definition rd :: "string \<Rightarrow> nat \<Rightarrow> (snap_error, byte list) reader" where
  "rd what n = wrap_err (SnapIO what) (readFull n)"

definition readMessage :: "(snap_error, MessageSnapshot) reader" where
  "readMessage bs =
     rbind (rd ''id len'' 2 bs) (\<lambda>(idLen, bs).
     rbind (rd ''id'' (be_val idLen) bs) (\<lambda>(ident, bs).
     rbind (rd ''payload len'' 4 bs) (\<lambda>(payloadLen, bs).
     rbind (rd ''payload'' (be_val payloadLen) bs) (\<lambda>(payload, bs).
     rbind (rd ''state'' 1 bs) (\<lambda>(state, bs).
     rbind (rd ''attempts'' 4 bs) (\<lambda>(attempts, bs).
     rbind (rd ''created at'' 8 bs) (\<lambda>(createdAt, bs).
     rbind (rd ''scheduled at'' 8 bs) (\<lambda>(scheduledAt, bs).
     rbind (rd ''error len'' 2 bs) (\<lambda>(errLen, bs).
     rbind (rd ''error'' (be_val errLen) bs) (\<lambda>(errMsg, bs).
     Inr (\<lparr>ms_ID = ident, ms_Payload = payload, ms_State = word_of_nat (be_val state),
           ms_Attempts = word_of_nat (be_val attempts), ms_CreatedAt = word_of_nat (be_val createdAt),
           ms_ScheduledAt = word_of_nat (be_val scheduledAt), ms_LastError = errMsg\<rparr>, bs)))))))))))"

definition readGroup :: "(snap_error, GroupSnapshot) reader" where
  "readGroup bs =
     rbind (rd ''key len'' 2 bs) (\<lambda>(keyLen, bs).
     rbind (rd ''key'' (be_val keyLen) bs) (\<lambda>(key, bs).
     rbind (rd ''parallelism'' 4 bs) (\<lambda>(par, bs).
     rbind (rd ''quantum'' 4 bs) (\<lambda>(quantum, bs).
     rbind (rd ''message count'' 4 bs) (\<lambda>(msgCount, bs).
     rbind (readN readMessage (be_val msgCount) bs) (\<lambda>(msgs, bs).
     Inr (\<lparr>sg_Key = key, sg_Parallelism = word_of_nat (be_val par),
           sg_Quantum = word_of_nat (be_val quantum), sg_Messages = msgs\<rparr>, bs)))))))"

definition SnapshotReader_Read :: "(snap_error, snapshot) reader" where
  "SnapshotReader_Read bs =
     rbind (rd ''header'' 32 bs) (\<lambda>(header, bs).
     if take 4 header \<noteq> magic then Inl InvalidMagic
     else if be_val (take 2 (drop 4 header)) \<noteq> version then Inl UnsupportedVersion
     else
       rbind (rd ''group count'' 4 bs) (\<lambda>(groupCount, bs).
       rbind (readN readGroup (be_val groupCount) bs) (\<lambda>(groups, bs).
       Inr (\<lparr>sn_SegmentID = word_of_nat (be_val (take 8 (drop 6 header))),
             sn_WALSeq = word_of_nat (be_val (take 8 (drop 14 header))),
             sn_Timestamp = word_of_nat (be_val (take 8 (drop 22 header))),
             sn_Groups = groups\<rparr>, bs))))"

text \<open>The latest snapshot of a directory: the entry with the greatest number, but never number 0.\<close>

fun better :: "string \<times> node \<Rightarrow> string \<times> nat \<Rightarrow> string \<times> nat" where
  "better (name, n) (bestPath, bestSeq) =
     (if isDir n then (bestPath, bestSeq)
      else case sscanf_d ''.snap'' name of
             None \<Rightarrow> (bestPath, bestSeq)
           | Some seq \<Rightarrow> if seq > bestSeq then (name, seq) else (bestPath, bestSeq))"

definition FindLatestSnapshot :: "dirents \<Rightarrow> string \<times> nat" where
  "FindLatestSnapshot d = fold better (ReadDir d) ([], 0)"

section \<open>Reading back\<close>

definition msnap_ok :: "MessageSnapshot \<Rightarrow> bool" where
  "msnap_ok m = (length (ms_ID m) < 2 ^ 16 \<and> length (ms_Payload m) < 2 ^ 32 \<and> length (ms_LastError m) < 2 ^ 16)"

definition gsnap_ok :: "GroupSnapshot \<Rightarrow> bool" where
  "gsnap_ok g = (length (sg_Key g) < 2 ^ 16 \<and> length (sg_Messages g) < 2 ^ 32 \<and> list_all msnap_ok (sg_Messages g))"

definition snapshot_ok :: "snapshot \<Rightarrow> bool" where
  "snapshot_ok s = (length (sn_Groups s) < 2 ^ 32 \<and> list_all gsnap_ok (sn_Groups s))"

lemma rd_append [codec_simps]: "length xs = n \<Longrightarrow> rd what n (xs @ ys) = Inr (xs, ys)"
  by (simp add: rd_def readFull_append)

lemma local_rd [local_intros]: "local_reader (rd what n)"
  unfolding rd_def by (intro local_intros)

lemma unat_mod_width [codec_simps]:
  "unat (w8 :: 8 word) mod 256 = unat w8"
  "unat (w32 :: 32 word) mod 4294967296 = unat w32"
  "unat (w64 :: 64 word) mod 18446744073709551616 = unat w64"
  using unat_bound [of w8] unat_bound [of w32] unat_bound [of w64] by simp_all

interpretation message_codec: stream_codec writeMessage readMessage msnap_ok
proof unfold_locales
  show "readMessage (writeMessage m @ rest) = Inr (m, rest)" if "msnap_ok m" for m rest
    using that by (simp add: readMessage_def writeMessage_def msnap_ok_def codec_simps del: be_bytes.simps)
  show "local_reader readMessage"
    unfolding readMessage_def [abs_def] by (intro local_intros)
qed

interpretation group_codec: stream_codec writeGroup readGroup gsnap_ok
proof unfold_locales
  show "readGroup (writeGroup g @ rest) = Inr (g, rest)" if "gsnap_ok g" for g rest
    using that by (simp add: readGroup_def writeGroup_def gsnap_ok_def codec_simps message_codec.seq_read_back)
  show "local_reader readGroup"
    unfolding readGroup_def [abs_def] by (intro local_intros message_codec.local_dec)
qed

lemma header_parts:
  "length (snapshot_header s) = 32"
  "take 4 (snapshot_header s) = magic"
  "be_val (take 2 (drop 4 (snapshot_header s))) = version"
  "word_of_nat (be_val (take 8 (drop 6 (snapshot_header s)))) = sn_SegmentID s"
  "word_of_nat (be_val (take 8 (drop 14 (snapshot_header s)))) = sn_WALSeq s"
  "word_of_nat (be_val (take 8 (drop 22 (snapshot_header s)))) = sn_Timestamp s"
  by (simp_all add: snapshot_header_def magic_def version_def codec_simps)

interpretation snapshot_codec: stream_codec SnapshotWriter_Write SnapshotReader_Read snapshot_ok
proof unfold_locales
  show "SnapshotReader_Read (SnapshotWriter_Write s @ rest) = Inr (s, rest)" if "snapshot_ok s" for s rest
    using that by (simp add: SnapshotReader_Read_def SnapshotWriter_Write_def snapshot_ok_def header_parts
        codec_simps group_codec.seq_read_back)
  show "local_reader SnapshotReader_Read"
    unfolding SnapshotReader_Read_def [abs_def] by (intro local_intros group_codec.local_dec)
qed

text \<open>
  [C32] Snapshot files.  A snapshot whose strings, payloads and counts fit their length fields is
  read back exactly, whatever follows it in the file, and a file that was cut anywhere, as by a
  crash while it was written, is rejected with an error and never taken for a snapshot.
\<close>

theorem snapshot_roundtrip:
  assumes "snapshot_ok s"
  shows "SnapshotReader_Read (SnapshotWriter_Write s @ rest) = Inr (s, rest)
    \<and> (n < length (SnapshotWriter_Write s) \<longrightarrow>
        (\<exists>e. SnapshotReader_Read (take n (SnapshotWriter_Write s)) = Inl e))"
  using snapshot_codec.read_back [OF assms] snapshot_codec.torn [OF assms] by blast

definition demo_snapshot :: "64 word \<Rightarrow> snapshot" where
  "demo_snapshot seq = \<lparr>sn_SegmentID = 1, sn_WALSeq = seq, sn_Timestamp = 7, sn_Groups =
     [\<lparr>sg_Key = ''k'', sg_Parallelism = 1, sg_Quantum = 1, sg_Messages =
        [\<lparr>ms_ID = ''a'', ms_Payload = ''hi'', ms_State = 0, ms_Attempts = 0, ms_CreatedAt = 5,
          ms_ScheduledAt = 5, ms_LastError = []\<rparr>]\<rparr>]\<rparr>"

theorem snapshot_roundtrip_witness:
  "SnapshotReader_Read (SnapshotWriter_Write (demo_snapshot 9) @ ''x'') = Inr (demo_snapshot 9, ''x'')
   \<and> (\<exists>e. SnapshotReader_Read (take 40 (SnapshotWriter_Write (demo_snapshot 9))) = Inl e)"
proof -
  have "snapshot_ok (demo_snapshot 9)"
    by (simp add: demo_snapshot_def snapshot_ok_def gsnap_ok_def msnap_ok_def)
  moreover have "40 < length (SnapshotWriter_Write (demo_snapshot 9))"
    by (simp add: demo_snapshot_def SnapshotWriter_Write_def writeGroup_def writeMessage_def header_parts)
  ultimately show ?thesis using snapshot_roundtrip [of "demo_snapshot 9" "''x''" 40] by blast
qed

section \<open>The latest snapshot\<close>

lemma fold_better:
  "fold better xs (p, b) = (p', b') \<Longrightarrow>
   b \<le> b' \<and> (\<forall>(name, n) \<in> set xs. \<not> isDir n \<longrightarrow> (\<forall>k. sscanf_d ''.snap'' name = Some k \<longrightarrow> k \<le> b'))
   \<and> ((p', b') = (p, b) \<or> b < b' \<and> (\<exists>n. (p', n) \<in> set xs \<and> \<not> isDir n \<and> sscanf_d ''.snap'' p' = Some b'))"
proof (induction xs arbitrary: p b)
  case Nil
  then show ?case by simp
next
  case (Cons x xs)
  obtain name n where x: "x = (name, n)" by (cases x)
  obtain p1 b1 where e: "better x (p, b) = (p1, b1)" by (cases "better x (p, b)")
  with Cons.prems have "fold better xs (p1, b1) = (p', b')" by simp
  note IH = Cons.IH [OF this]
  from e x have "b \<le> b1" and "\<not> isDir n \<Longrightarrow> sscanf_d ''.snap'' name = Some k \<Longrightarrow> k \<le> b1"
    and "(p1, b1) = (p, b) \<or> b < b1 \<and> p1 = name \<and> \<not> isDir n \<and> sscanf_d ''.snap'' name = Some b1" for k
    by (auto split: if_splits option.splits)
  with IH x show ?case by fastforce
qed

lemma FindLatestSnapshot_spec:
  assumes "FindLatestSnapshot d = (path, seq)"
  shows "(name, File f) \<in> set d \<Longrightarrow> sscanf_d ''.snap'' name = Some k \<Longrightarrow> k \<le> seq"
    and "(path, seq) = ([], 0) \<or> 0 < seq \<and> (\<exists>f. (path, File f) \<in> set d) \<and> sscanf_d ''.snap'' path = Some seq"
proof -
  note * = fold_better [OF assms [unfolded FindLatestSnapshot_def]]
  show "(name, File f) \<in> set d \<Longrightarrow> sscanf_d ''.snap'' name = Some k \<Longrightarrow> k \<le> seq"
    using * by fastforce
  have "\<not> isDir n \<Longrightarrow> \<exists>f. n = File f" for n by (cases n) auto
  with * show "(path, seq) = ([], 0) \<or> 0 < seq \<and> (\<exists>f. (path, File f) \<in> set d) \<and> sscanf_d ''.snap'' path = Some seq"
    by fastforce
qed

end
