(* ===== verification/Wal.thy ===== *)
theory Wal
  imports Wal_Record Snapshot_File Queue
begin

text \<open>
  The write-ahead log of one queue and of the broker (\<^verbatim>\<open>internal/storage/wal.go\<close>, \<^verbatim>\<open>segment.go\<close>,
  \<^verbatim>\<open>writer.go\<close>): configuration, segments, the batched writer and its loop, the broker-level table,
  and the saving of snapshots.  The writer goroutine is a state machine whose iterations are the
  cases of its \<open>select\<close>; which case is ready, the clock, and the outcome of every system call are
  arguments.  A buffered writer is the bytes not yet handed to the system and the sticky error of
  \<open>bufio.Writer\<close>.  \<open>AppendSync\<close> is modelled as the sending of an event with a waiter; the answer of
  the writer to a waiter is an output of the writer's steps.
\<close>

section \<open>Configuration and errors\<close>

record WALConfig =
  FlushInterval :: duration
  FlushMaxMessages :: int
  SegmentMaxBytes :: int
  Durable :: bool
  SnapshotInterval :: duration

text \<open>An error of the operating system: its message, and whether it is \<open>os.ErrClosed\<close>.\<close>

record oserr =
  err_msg :: string
  err_closed :: bool

datatype wal_error =
  WalIO oserr | ErrWALFailed oserr | ErrChannelFull string string | ErrSyncTimeout

definition containsAny :: "string \<Rightarrow> string list \<Rightarrow> bool" where
  "containsAny s substrs =
     list_ex (\<lambda>sub. length sub \<le> length s \<and>
       list_ex (\<lambda>i. take (length sub) (drop i s) = sub) [0..<Suc (length s - length sub)]) substrs"

definition isDiskFull :: "oserr option \<Rightarrow> bool" where
  "isDiskFull err =
     (case err of
        None \<Rightarrow> False
      | Some e \<Rightarrow> err_closed e \<or>
          containsAny (err_msg e) [''no space left on device'', ''disk quota exceeded'', ''not enough space''])"

section \<open>The log of one queue\<close>

text \<open>
  \<open>qw_batch\<close> is the local variable of \<open>writerLoop\<close>; \<open>qw_snapGo\<close> counts the snapshot goroutines that were
  started and have not begun; \<open>qw_provider\<close> tells whether a state provider is registered.  Not in the
  code: \<open>qw_synced\<close>, how many bytes of each file the last successful \<open>Sync\<close> covered.
\<close>

record QueueWAL =
  qw_dir :: dirents
  qw_cfg :: WALConfig
  qw_ch :: "(Event \<times> nat option) list"
  qw_batch :: "(Event \<times> nat option) list"
  qw_done :: bool
  qw_seq :: "64 word"
  qw_segmentID :: "64 word"
  qw_file :: string
  qw_logBuf :: "byte list"
  qw_logErr :: "oserr option"
  qw_idxFile :: string
  qw_idxBuf :: "byte list"
  qw_idxErr :: "oserr option"
  qw_fileSize :: int
  qw_Namespace :: string
  qw_Queue :: string
  qw_provider :: bool
  qw_lastSnapSegID :: "64 word"
  qw_snapshotSem :: bool
  qw_snapGo :: nat
  qw_errored :: "wal_error option"
  qw_synced :: "(string, nat) gomap"

text \<open>The outcomes of the system calls of one flush: \<open>None\<close> is success; a failed write has written a prefix.\<close>

record walio =
  io_flush :: "(nat \<times> oserr) option"
  io_sync :: "oserr option"
  io_idx :: "(nat \<times> oserr) option"
  io_openLog :: "oserr option"
  io_openIdx :: "oserr option"
  io_clock :: "nat \<Rightarrow> gtime"

definition log_name :: "64 word \<Rightarrow> string" where
  "log_name i = sprintf_09d (unat i) @ ''.log''"

definition idx_name :: "64 word \<Rightarrow> string" where
  "idx_name i = sprintf_09d (unat i) @ ''.idx''"

definition snap_name :: "64 word \<Rightarrow> string" where
  "snap_name i = sprintf_09d (unat i) @ ''.snap''"

text \<open>Writing to an open file; a file that was removed meanwhile keeps no name.\<close>

definition append_file :: "string \<Rightarrow> byte list \<Rightarrow> dirents \<Rightarrow> dirents" where
  "append_file name bs d =
     (case file_bytes d name of Some old \<Rightarrow> gm_put name (File (old @ bs)) d | None \<Rightarrow> d)"

definition create_file :: "string \<Rightarrow> dirents \<Rightarrow> dirents" where
  "create_file name d = (case gm_get d name of None \<Rightarrow> gm_put name (File []) d | Some _ \<Rightarrow> d)"

definition file_size :: "dirents \<Rightarrow> string \<Rightarrow> nat" where
  "file_size d name = (case file_bytes d name of Some bs \<Rightarrow> length bs | None \<Rightarrow> 0)"

subsection \<open>Segments\<close>

definition findLastSegmentID :: "dirents \<Rightarrow> nat" where
  "findLastSegmentID d =
     fold (\<lambda>(name, n) maxID.
       if isDir n then maxID
       else case sscanf_d ''.log'' name of
              None \<Rightarrow> maxID
            | Some k \<Rightarrow> if k > maxID then k else maxID) (ReadDir d) 0"

definition openSegment :: "walio \<Rightarrow> QueueWAL \<Rightarrow> oserr option \<times> QueueWAL" where
  "openSegment io q =
     (let logPath = log_name (qw_segmentID q); idxPath = idx_name (qw_segmentID q) in
      case io_openLog io of
        Some e \<Rightarrow> (Some e, q)
      | None \<Rightarrow>
          let d = create_file logPath (qw_dir q);
              q = q\<lparr>qw_dir := d, qw_file := logPath, qw_fileSize := int (file_size d logPath),
                    qw_logBuf := [], qw_logErr := None\<rparr>
          in case io_openIdx io of
               Some e \<Rightarrow> (Some e, q)
             | None \<Rightarrow>
                 (None, q\<lparr>qw_dir := create_file idxPath (qw_dir q), qw_idxFile := idxPath,
                          qw_idxBuf := [], qw_idxErr := None\<rparr>))"

text \<open>The result of \<open>rotateSegment\<close> is discarded by its caller; old buffers are flushed after the new files are open.\<close>

definition rotateSegment :: "walio \<Rightarrow> QueueWAL \<Rightarrow> QueueWAL" where
  "rotateSegment io q =
     (let oldFile = qw_file q; oldLogBuf = qw_logBuf q; oldLogErr = qw_logErr q;
          oldIdxFile = qw_idxFile q; oldIdxBuf = qw_idxBuf q; oldIdxErr = qw_idxErr q;
          q = q\<lparr>qw_segmentID := qw_segmentID q + 1, qw_fileSize := 0\<rparr>
      in case openSegment io q of
           (Some e, q) \<Rightarrow> q
         | (None, q) \<Rightarrow>
             if oldLogErr \<noteq> None then q
             else let q = q\<lparr>qw_dir := append_file oldFile oldLogBuf (qw_dir q)\<rparr>
                  in if oldIdxErr \<noteq> None then q
                     else q\<lparr>qw_dir := append_file oldIdxFile oldIdxBuf (qw_dir q)\<rparr>)"

definition removeOldSegments :: "64 word \<Rightarrow> dirents \<Rightarrow> dirents" where
  "removeOldSegments snapSegID d =
     (let keepFrom = (if unat snapSegID > 1 then unat snapSegID - 1 else 0)
      in filter (\<lambda>(name, n). isDir n \<or>
           (case sscanf_d ''.'' name of None \<Rightarrow> True | Some k \<Rightarrow> k \<ge> keepFrom)) d)"

definition newQueueWAL :: "walio \<Rightarrow> dirents \<Rightarrow> string \<Rightarrow> string \<Rightarrow> WALConfig \<Rightarrow> QueueWAL outcome" where
  "newQueueWAL io d namespace queue cfg =
     (let segmentID = word_of_nat (findLastSegmentID d);
          q = \<lparr>qw_dir = d, qw_cfg = cfg, qw_ch = [], qw_batch = [], qw_done = False, qw_seq = 0,
               qw_segmentID = segmentID, qw_file = [], qw_logBuf = [], qw_logErr = None, qw_idxFile = [],
               qw_idxBuf = [], qw_idxErr = None, qw_fileSize = 0, qw_Namespace = namespace,
               qw_Queue = queue, qw_provider = False, qw_lastSnapSegID = 0, qw_snapshotSem = False,
               qw_snapGo = 0, qw_errored = None, qw_synced = []\<rparr>
      in case openSegment io q of
           (Some e, q) \<Rightarrow> Panic (''wal: open segment: '' @ err_msg e)
         | (None, q) \<Rightarrow> Ret q)"

subsection \<open>The batch writer\<close>

text \<open>\<open>writeRecord\<close> into the buffers; \<open>bufio.Writer\<close> accepts nothing after an error.\<close>

definition qw_writeRecord :: "Event \<Rightarrow> QueueWAL \<Rightarrow> nat \<times> QueueWAL" where
  "qw_writeRecord e q =
     (let posBefore = qw_fileSize q;
          idxEntry = be_bytes 8 (unat (ev_Seq e)) @ be_bytes 8 (unat (word_of_int posBefore :: 64 word))
      in (fixedOverhead e,
          q\<lparr>qw_logBuf := (if qw_logErr q = None then qw_logBuf q @ writeRecord e else qw_logBuf q),
            qw_idxBuf := (if qw_idxErr q = None then qw_idxBuf q @ idxEntry else qw_idxBuf q)\<rparr>))"

fun writeBatch :: "(nat \<Rightarrow> gtime) \<Rightarrow> nat \<Rightarrow> (Event \<times> nat option) list \<Rightarrow> QueueWAL \<Rightarrow> QueueWAL" where
  "writeBatch clock i [] q = q"
| "writeBatch clock i ((e, d) # batch) q =
     (let q = q\<lparr>qw_seq := qw_seq q + 1\<rparr>;
          e = e\<lparr>ev_Seq := qw_seq q, ev_Timestamp := word_of_int (clock i)\<rparr>;
          (n, q) = qw_writeRecord e q
      in writeBatch clock (Suc i) batch (q\<lparr>qw_fileSize := qw_fileSize q + int n\<rparr>))"

definition log_Flush :: "walio \<Rightarrow> QueueWAL \<Rightarrow> oserr option \<times> QueueWAL" where
  "log_Flush io q =
     (if qw_logErr q \<noteq> None then (qw_logErr q, q)
      else if qw_logBuf q = [] then (None, q)
      else case io_flush io of
             None \<Rightarrow> (None, q\<lparr>qw_dir := append_file (qw_file q) (qw_logBuf q) (qw_dir q), qw_logBuf := []\<rparr>)
           | Some (k, e) \<Rightarrow>
               (Some e, q\<lparr>qw_dir := append_file (qw_file q) (take k (qw_logBuf q)) (qw_dir q),
                          qw_logBuf := drop k (qw_logBuf q), qw_logErr := Some e\<rparr>))"

definition idx_Flush :: "walio \<Rightarrow> QueueWAL \<Rightarrow> QueueWAL" where
  "idx_Flush io q =
     (if qw_idxErr q \<noteq> None \<or> qw_idxBuf q = [] then q
      else case io_idx io of
             None \<Rightarrow> q\<lparr>qw_dir := append_file (qw_idxFile q) (qw_idxBuf q) (qw_dir q), qw_idxBuf := []\<rparr>
           | Some (k, e) \<Rightarrow>
               q\<lparr>qw_dir := append_file (qw_idxFile q) (take k (qw_idxBuf q)) (qw_dir q),
                 qw_idxBuf := drop k (qw_idxBuf q), qw_idxErr := Some e\<rparr>)"

definition SetErr :: "wal_error \<Rightarrow> QueueWAL \<Rightarrow> QueueWAL" where
  "SetErr e q = q\<lparr>qw_errored := Some e\<rparr>"

definition io_failed :: "oserr \<Rightarrow> QueueWAL \<Rightarrow> QueueWAL" where
  "io_failed e q = (if isDiskFull (Some e) then SetErr (ErrWALFailed e) q else q)"

text \<open>The answers to the waiters of a batch: waiter and error.\<close>

type_synonym answers = "(nat \<times> wal_error option) list"

definition signalDone :: "wal_error option \<Rightarrow> (Event \<times> nat option) list \<Rightarrow> answers" where
  "signalDone err batch = List.map_filter (\<lambda>(e, d). map_option (\<lambda>w. (w, err)) d) batch"

definition flushBatch :: "walio \<Rightarrow> (Event \<times> nat option) list \<Rightarrow> QueueWAL \<Rightarrow> answers \<times> QueueWAL" where
  "flushBatch io batch q =
     (if batch = [] then ([], q)
      else let q = writeBatch (io_clock io) 0 batch q in
        case log_Flush io q of
          (Some e, q) \<Rightarrow> (signalDone (Some (WalIO e)) batch, io_failed e q)
        | (None, q) \<Rightarrow>
            case (if Durable (qw_cfg q) then io_sync io else None) of
              Some e \<Rightarrow> (signalDone (Some (WalIO e)) batch, io_failed e q)
            | None \<Rightarrow>
                let q = (if Durable (qw_cfg q)
                         then q\<lparr>qw_synced := gm_put (qw_file q) (file_size (qw_dir q) (qw_file q)) (qw_synced q)\<rparr>
                         else q);
                    q = idx_Flush io q;
                    q = (if qw_fileSize q \<ge> SegmentMaxBytes (qw_cfg q)
                         then rotateSegment io (q\<lparr>qw_snapGo := Suc (qw_snapGo q)\<rparr>) else q)
                in (signalDone None batch, q))"

subsection \<open>The writer loop\<close>

datatype wselect = RecvEvent | FlushTick | SnapTick | StopSignal

definition flush :: "walio \<Rightarrow> QueueWAL \<Rightarrow> answers \<times> QueueWAL" where
  "flush io q =
     (if length (qw_batch q) > 0 then flushBatch io (qw_batch q) (q\<lparr>qw_batch := []\<rparr>) else ([], q))"

text \<open>An event moves from the channel to the batch, which is flushed when it is full.\<close>

definition take_event :: "walio \<Rightarrow> QueueWAL \<Rightarrow> answers \<times> QueueWAL" where
  "take_event io q =
     (case qw_ch q of
        [] \<Rightarrow> ([], q)
      | e # rest \<Rightarrow>
          let q = q\<lparr>qw_ch := rest, qw_batch := qw_batch q @ [e]\<rparr>
          in if int (length (qw_batch q)) \<ge> FlushMaxMessages (qw_cfg q) then flush io q else ([], q))"

text \<open>\<open>drainLoop\<close> at shutdown; each flush has its own system call outcomes.\<close>

fun drain :: "(nat \<Rightarrow> walio) \<Rightarrow> nat \<Rightarrow> QueueWAL \<Rightarrow> answers \<times> QueueWAL" where
  "drain ios 0 q = ([], q)"
| "drain ios (Suc n) q =
     (let (a, q) = take_event (ios (Suc n)) q; (a', q) = drain ios n q in (a @ a', q))"

text \<open>
  One iteration of \<open>writerLoop\<close>: after a permanent failure the channel is answered and the loop ends;
  otherwise the case of the \<open>select\<close> that is ready is run.
\<close>

definition writerLoop :: "(nat \<Rightarrow> walio) \<Rightarrow> wselect \<Rightarrow> QueueWAL \<Rightarrow> answers \<times> QueueWAL" where
  "writerLoop ios c q =
     (if qw_done q then ([], q)
      else case qw_errored q of
        Some err \<Rightarrow> (signalDone (Some err) (qw_ch q), q\<lparr>qw_ch := [], qw_done := True\<rparr>)
      | None \<Rightarrow>
          (case c of
             RecvEvent \<Rightarrow> take_event (ios 0) q
           | FlushTick \<Rightarrow> flush (ios 0) q
           | SnapTick \<Rightarrow> ([], q\<lparr>qw_snapGo := Suc (qw_snapGo q)\<rparr>)
           | StopSignal \<Rightarrow>
               let (a, q) = drain ios (length (qw_ch q)) q;
                   (a', q) = flush (ios 0) q
               in (a @ a', q\<lparr>qw_done := True\<rparr>)))"

subsection \<open>Appending\<close>

definition channelCap :: nat where
  "channelCap = 8192"

definition qw_Append :: "Event \<Rightarrow> QueueWAL \<Rightarrow> wal_error option \<times> QueueWAL" where
  "qw_Append e q =
     (case qw_errored q of
        Some err \<Rightarrow> (Some err, q)
      | None \<Rightarrow>
          if length (qw_ch q) < channelCap then (None, q\<lparr>qw_ch := qw_ch q @ [(e, None)]\<rparr>)
          else (Some (ErrChannelFull (ev_Namespace e) (ev_Queue e)), q))"

text \<open>\<open>AppendSync\<close> up to the wait: refused, or queued with its waiter; a full channel ends in the timeout.\<close>

definition qw_AppendSync :: "nat \<Rightarrow> Event \<Rightarrow> QueueWAL \<Rightarrow> wal_error option \<times> QueueWAL" where
  "qw_AppendSync w e q =
     (case qw_errored q of
        Some err \<Rightarrow> (Some err, q)
      | None \<Rightarrow>
          if length (qw_ch q) < channelCap then (None, q\<lparr>qw_ch := qw_ch q @ [(e, Some w)]\<rparr>)
          else (Some ErrSyncTimeout, q))"

section \<open>Saving snapshots\<close>

definition snap_message :: "message \<Rightarrow> MessageSnapshot" where
  "snap_message m =
     \<lparr>ms_ID = m_ID m, ms_Payload = m_Payload m, ms_State = int8_of_msgstate (m_State m),
      ms_Attempts = word_of_int (m_Attempts m), ms_CreatedAt = word_of_int (m_CreatedAt m),
      ms_ScheduledAt = word_of_int (m_ScheduledAt m), ms_LastError = m_LastError m\<rparr>"

definition snap_group :: "(string, message) range_order \<Rightarrow> string \<times> GroupState \<Rightarrow> GroupSnapshot" where
  "snap_group it = (\<lambda>(key, gs).
     \<lparr>sg_Key = key, sg_Parallelism = word_of_int (gs_Parallelism gs), sg_Quantum = word_of_int (gs_Quantum gs),
      sg_Messages = map snap_message (gs_ReadyMsgs gs @ gs_UrgentMsgs gs @ gs_DelayedMsgs gs
        @ map snd (it (gs_ProcessingMsgs gs)))\<rparr>)"

definition convertQueueStateToSnapshot ::
  "(string, GroupState) range_order \<Rightarrow> (string, message) range_order \<Rightarrow> QueueState \<Rightarrow> GroupSnapshot list" where
  "convertQueueStateToSnapshot itg it state = map (snap_group it) (itg (qst_SGroups state))"

text \<open>
  \<open>saveSnapshot\<close> in two steps, because the queue's state is read without the lock: first the semaphore
  is taken and sequence number and segment are copied, then the file is written.  \<open>st\<close> is what the
  state provider returns when it is called; \<open>wr\<close> is the outcome of writing: \<open>None\<close>, or how much of the
  file was written before the error.
\<close>

definition saveSnapshot_begin :: "QueueWAL \<Rightarrow> (64 word \<times> 64 word) option \<times> QueueWAL" where
  "saveSnapshot_begin q =
     (if qw_snapshotSem q then (None, q)
      else (Some (qw_seq q, qw_segmentID q), q\<lparr>qw_snapshotSem := True\<rparr>))"

definition snapshot_of ::
  "(string, GroupState) range_order \<Rightarrow> (string, message) range_order \<Rightarrow> gtime \<Rightarrow> QueueState \<Rightarrow>
   64 word \<times> 64 word \<Rightarrow> QueueWAL \<Rightarrow> snapshot" where
  "snapshot_of itg it now st pos q =
     \<lparr>sn_SegmentID = snd pos, sn_WALSeq = fst pos, sn_Timestamp = word_of_int now,
      sn_Groups = (if qw_provider q then convertQueueStateToSnapshot itg it st else [])\<rparr>"

definition saveSnapshot_finish :: "nat option \<Rightarrow> snapshot \<Rightarrow> QueueWAL \<Rightarrow> QueueWAL" where
  "saveSnapshot_finish wr snap q =
     (let bytes = SnapshotWriter_Write snap; name = snap_name (sn_SegmentID snap);
          q = q\<lparr>qw_snapshotSem := False\<rparr>
      in case wr of
           Some k \<Rightarrow> q\<lparr>qw_dir := gm_put name (File (take k bytes)) (qw_dir q)\<rparr>
         | None \<Rightarrow>
             q\<lparr>qw_dir := removeOldSegments (sn_SegmentID snap) (gm_put name (File bytes) (qw_dir q)),
               qw_lastSnapSegID := sn_SegmentID snap\<rparr>)"

section \<open>The log of the broker\<close>

text \<open>
  \<open>w_disk\<close> is what the root directory holds of logs that are not open: the directories of the queues, by key.  The
  directory of an open log is \<open>qw_dir\<close>.
\<close>

record WAL =
  w_cfg :: WALConfig
  w_queues :: "(string, QueueWAL) gomap"
  w_queueDurable :: "(string, bool) gomap"
  w_disk :: "(string, dirents) gomap"

definition NewWAL :: "(string, dirents) gomap \<Rightarrow> WALConfig \<Rightarrow> WAL" where
  "NewWAL rootDir cfg = \<lparr>w_cfg = cfg, w_queues = [], w_queueDurable = [], w_disk = rootDir\<rparr>"

definition wal_key :: "string \<Rightarrow> string \<Rightarrow> string" where
  "wal_key namespace queue = namespace @ ''/'' @ queue"

definition DefaultDurable :: "WAL \<Rightarrow> bool" where
  "DefaultDurable w = Durable (w_cfg w)"

definition QueueDurable :: "string \<Rightarrow> string \<Rightarrow> WAL \<Rightarrow> bool" where
  "QueueDurable namespace queue w =
     (case gm_get (w_queueDurable w) (wal_key namespace queue) of Some d \<Rightarrow> d | None \<Rightarrow> Durable (w_cfg w))"

definition SetQueueDurable :: "string \<Rightarrow> string \<Rightarrow> bool \<Rightarrow> WAL \<Rightarrow> WAL" where
  "SetQueueDurable namespace queue durable w =
     (let key = wal_key namespace queue;
          w = w\<lparr>w_queueDurable := gm_put key durable (w_queueDurable w)\<rparr>
      in case gm_get (w_queues w) key of
           Some qw \<Rightarrow> w\<lparr>w_queues := gm_put key (qw\<lparr>qw_cfg := (qw_cfg qw)\<lparr>Durable := durable\<rparr>\<rparr>) (w_queues w)\<rparr>
         | None \<Rightarrow> w)"

text \<open>The directory that a newly opened log finds; it is created where there is none.\<close>

definition disk_dir :: "string \<Rightarrow> WAL \<Rightarrow> dirents" where
  "disk_dir key w = (case gm_get (w_disk w) key of None \<Rightarrow> [] | Some d \<Rightarrow> d)"

definition getQueueWAL ::
  "walio \<Rightarrow> string \<Rightarrow> string \<Rightarrow> WAL \<Rightarrow> QueueWAL outcome \<times> WAL" where
  "getQueueWAL io namespace queue w =
     (let key = wal_key namespace queue in
      case gm_get (w_queues w) key of
        Some q \<Rightarrow> (Ret q, w)
      | None \<Rightarrow>
          let cfg = (case gm_get (w_queueDurable w) key of
                       Some dur \<Rightarrow> (w_cfg w)\<lparr>Durable := dur\<rparr> | None \<Rightarrow> w_cfg w)
          in case newQueueWAL io (disk_dir key w) namespace queue cfg of
               Panic e \<Rightarrow> (Panic e, w)
             | Ret q \<Rightarrow> (Ret q, w\<lparr>w_queues := gm_put key q (w_queues w), w_disk := gm_del key (w_disk w)\<rparr>))"

definition with_queue ::
  "walio \<Rightarrow> Event \<Rightarrow> (QueueWAL \<Rightarrow> wal_error option \<times> QueueWAL) \<Rightarrow> WAL \<Rightarrow>
   wal_error option outcome \<times> WAL" where
  "with_queue io e f w =
     (case getQueueWAL io (ev_Namespace e) (ev_Queue e) w of
        (Panic p, w) \<Rightarrow> (Panic p, w)
      | (Ret q, w) \<Rightarrow>
          let (r, q) = f q
          in (Ret r, w\<lparr>w_queues := gm_put (wal_key (ev_Namespace e) (ev_Queue e)) q (w_queues w)\<rparr>))"

definition Append :: "walio \<Rightarrow> Event \<Rightarrow> WAL \<Rightarrow> wal_error option outcome \<times> WAL" where
  "Append io e w = with_queue io e (qw_Append e) w"

definition AppendSync :: "walio \<Rightarrow> nat \<Rightarrow> Event \<Rightarrow> WAL \<Rightarrow> wal_error option outcome \<times> WAL" where
  "AppendSync io waiter e w = with_queue io e (qw_AppendSync waiter e) w"

definition Healthy :: "WAL \<Rightarrow> bool" where
  "Healthy w = list_all (\<lambda>(key, q). qw_errored q = None) (w_queues w)"

fun first_error :: "(string \<times> QueueWAL) list \<Rightarrow> wal_error option" where
  "first_error [] = None"
| "first_error ((key, q) # qs) = (case qw_errored q of Some e \<Rightarrow> Some e | None \<Rightarrow> first_error qs)"

definition WAL_Err :: "(string, QueueWAL) range_order \<Rightarrow> WAL \<Rightarrow> wal_error option" where
  "WAL_Err it w = first_error (it (w_queues w))"

definition RegisterQueueState :: "string \<Rightarrow> string \<Rightarrow> WAL \<Rightarrow> WAL" where
  "RegisterQueueState namespace queue w =
     (let key = wal_key namespace queue in
      case gm_get (w_queues w) key of
        Some q \<Rightarrow> w\<lparr>w_queues := gm_put key (q\<lparr>qw_provider := True\<rparr>) (w_queues w)\<rparr>
      | None \<Rightarrow> w)"

text \<open>Closing stops the writer, which drains and flushes, and then flushes the index.\<close>

definition closeQueueWAL :: "(nat \<Rightarrow> walio) \<Rightarrow> QueueWAL \<Rightarrow> answers \<times> QueueWAL" where
  "closeQueueWAL ios q = (let (a, q) = writerLoop ios StopSignal q in (a, idx_Flush (ios 0) q))"

definition Close :: "(nat \<Rightarrow> walio) \<Rightarrow> WAL \<Rightarrow> answers \<times> WAL" where
  "Close ios w =
     (concat (map (\<lambda>(key, q). fst (closeQueueWAL ios q)) (w_queues w)),
      w\<lparr>w_queues := map (\<lambda>(key, q). (key, snd (closeQueueWAL ios q))) (w_queues w)\<rparr>)"

text \<open>
  \<open>os.RemoveAll\<close> takes the directory away, or fails and leaves something of it (\<open>rm\<close>).  Where no log is open, nothing
  is removed, whatever the disk holds.
\<close>

definition DestroyQueue ::
  "(nat \<Rightarrow> walio) \<Rightarrow> (oserr \<times> dirents) option \<Rightarrow> string \<Rightarrow> string \<Rightarrow> WAL \<Rightarrow> oserr option \<times> answers \<times> WAL" where
  "DestroyQueue ios rm namespace queue w =
     (let key = wal_key namespace queue in
      case gm_get (w_queues w) key of
        None \<Rightarrow> (None, [], w)
      | Some q \<Rightarrow>
          let w = w\<lparr>w_queues := gm_del key (w_queues w)\<rparr>;
              a = fst (closeQueueWAL ios q)
          in case rm of
               None \<Rightarrow> (None, a, w\<lparr>w_disk := gm_del key (w_disk w)\<rparr>)
             | Some (e, left) \<Rightarrow> (Some e, a, w\<lparr>w_disk := gm_put key left (w_disk w)\<rparr>))"

definition WAL_GetQueue :: "string \<Rightarrow> string \<Rightarrow> WAL \<Rightarrow> QueueWAL option" where
  "WAL_GetQueue namespace queue w = gm_get (w_queues w) (wal_key namespace queue)"

end
