(* ===== verification/Recovery.thy ===== *)
theory Recovery
  imports Wal
begin

text \<open>
  Recovery at start-up: finding the queues on disk (\<^verbatim>\<open>internal/storage/recovery/bootstrap.go\<close>),
  replaying a snapshot and the segments after it (\<^verbatim>\<open>replay.go\<close>), and the handler of the broker that
  rebuilds a queue from them (\<^verbatim>\<open>internal/broker/recovery.go\<close>).  A directory path is represented by the
  entries of the directory.
\<close>

section \<open>Discovery\<close>

record QueueRecoveryInfo =
  ri_Namespace :: string
  ri_Queue :: string
  ri_Dir :: dirents
  ri_SnapshotPath :: string
  ri_SnapshotSeq :: "64 word"
  ri_SnapshotSegID :: "64 word"

datatype load_error = OpenFailed | ReadFailed snap_error

definition loadSnapshot :: "dirents \<Rightarrow> string \<Rightarrow> load_error + snapshot" where
  "loadSnapshot d path =
     (case file_bytes d path of
        None \<Rightarrow> Inl OpenFailed
      | Some bs \<Rightarrow> (case SnapshotReader_Read bs of Inl e \<Rightarrow> Inl (ReadFailed e) | Inr (snap, _) \<Rightarrow> Inr snap))"

text \<open>\<open>QueueWAL.LoadSnapshot\<close> of \<^verbatim>\<open>internal/storage/reader.go\<close>: segment and sequence number of the latest snapshot.\<close>

definition LoadSnapshot :: "dirents \<Rightarrow> load_error + 64 word \<times> 64 word" where
  "LoadSnapshot d =
     (let (snapPath, _) = FindLatestSnapshot d in
      if snapPath = [] then Inr (0, 0)
      else case loadSnapshot d snapPath of
             Inl e \<Rightarrow> Inl e
           | Inr snap \<Rightarrow> Inr (sn_SegmentID snap, sn_WALSeq snap))"

definition discover_queue :: "string \<Rightarrow> string \<Rightarrow> dirents \<Rightarrow> QueueRecoveryInfo" where
  "discover_queue ns q qDir =
     (let (snapPath, _) = FindLatestSnapshot qDir;
          none = \<lparr>ri_Namespace = ns, ri_Queue = q, ri_Dir = qDir, ri_SnapshotPath = [],
                  ri_SnapshotSeq = 0, ri_SnapshotSegID = 0\<rparr>
      in if snapPath = [] then none
         else case loadSnapshot qDir snapPath of
                Inl _ \<Rightarrow> none
              | Inr snap \<Rightarrow>
                  none\<lparr>ri_SnapshotPath := snapPath, ri_SnapshotSeq := sn_WALSeq snap,
                       ri_SnapshotSegID := sn_SegmentID snap\<rparr>)"

definition DiscoverQueues :: "dirents \<Rightarrow> QueueRecoveryInfo list" where
  "DiscoverQueues root =
     concat (map (\<lambda>(ns, n). case n of
         File _ \<Rightarrow> []
       | Dir nsDir \<Rightarrow> List.map_filter (\<lambda>(q, n). case n of
             File _ \<Rightarrow> None
           | Dir qDir \<Rightarrow> Some (discover_queue ns q qDir)) (ReadDir nsDir)) (ReadDir root))"

section \<open>Replay\<close>

text \<open>A handler turns events into changes of a state of type \<open>'s\<close>.\<close>

record 's SnapshotHandler =
  OnPublish :: "Event \<Rightarrow> 's \<Rightarrow> 's"
  OnLease :: "Event \<Rightarrow> 's \<Rightarrow> 's"
  OnACK :: "Event \<Rightarrow> 's \<Rightarrow> 's"
  OnNACK :: "Event \<Rightarrow> 's \<Rightarrow> 's"
  OnExpire :: "Event \<Rightarrow> 's \<Rightarrow> 's"
  OnSnapshot :: "snapshot \<Rightarrow> 's \<Rightarrow> 's"

definition dispatch :: "'s SnapshotHandler \<Rightarrow> Event \<Rightarrow> 's \<Rightarrow> 's" where
  "dispatch h e s =
     (if ev_Type e = EventPublish then OnPublish h e s
      else if ev_Type e = EventLease then OnLease h e s
      else if ev_Type e = EventACK then OnACK h e s
      else if ev_Type e = EventNACK then OnNACK h e s
      else if ev_Type e = EventExpire then OnExpire h e s
      else s)"

function replayFile :: "64 word \<Rightarrow> 's SnapshotHandler \<Rightarrow> byte list \<Rightarrow> 's \<Rightarrow> 's" where
  "replayFile startSeq h reader s =
     (case ReadEvent reader of
        Inl err \<Rightarrow> s
      | Inr (event, reader) \<Rightarrow>
          if ev_Seq event < startSeq then replayFile startSeq h reader s
          else replayFile startSeq h reader (dispatch h event s))"
  by pat_completeness auto
termination
  by (relation "measure (\<lambda>(startSeq, h, reader, s). length reader)") (auto dest: ReadEvent_consumes)

declare replayFile.simps [simp del]

definition replay_entry :: "(nat \<Rightarrow> bool) \<Rightarrow> 64 word \<Rightarrow> 's SnapshotHandler \<Rightarrow> string \<times> node \<Rightarrow> 's \<Rightarrow> 's" where
  "replay_entry skip startSeq h = (\<lambda>(name, n) s.
     (case n of
        Dir _ \<Rightarrow> s
      | File bs \<Rightarrow>
          (case sscanf_d ''.log'' name of
             None \<Rightarrow> s
           | Some segID \<Rightarrow> if skip segID then s else replayFile startSeq h bs s)))"

definition ReplaySegment :: "dirents \<Rightarrow> 64 word \<Rightarrow> 's SnapshotHandler \<Rightarrow> 's \<Rightarrow> 's" where
  "ReplaySegment d startSeq h s = fold (replay_entry (\<lambda>_. False) startSeq h) (ReadDir d) s"

definition tryLoadSnapshot :: "dirents \<Rightarrow> string \<Rightarrow> snapshot option" where
  "tryLoadSnapshot d path =
     (case loadSnapshot d path of
        Inr snap \<Rightarrow> Some snap
      | Inl _ \<Rightarrow>
          (case sscanf_d ''.snap'' path of
             None \<Rightarrow> None
           | Some snapID \<Rightarrow>
               if snapID = 0 then None
               else case loadSnapshot d (sprintf_09d (snapID - 1) @ ''.snap'') of
                      Inr fallback \<Rightarrow> Some fallback
                    | Inl _ \<Rightarrow> None))"

definition ReplayFromSnapshot :: "QueueRecoveryInfo \<Rightarrow> 's SnapshotHandler \<Rightarrow> 's \<Rightarrow> 's" where
  "ReplayFromSnapshot info h s =
     (let s = (if ri_SnapshotPath info \<noteq> []
               then case tryLoadSnapshot (ri_Dir info) (ri_SnapshotPath info) of
                      Some snap \<Rightarrow> OnSnapshot h snap s
                    | None \<Rightarrow> s
               else s);
          startSeq = ri_SnapshotSeq info + 1;
          skip = (\<lambda>segID. ri_SnapshotPath info \<noteq> [] \<and> segID < unat (ri_SnapshotSegID info))
      in fold (replay_entry skip startSeq h) (ReadDir (ri_Dir info)) s)"

section \<open>The handler of the broker\<close>

text \<open>
  The state is the queue with the identifier generator, and the panic that ended the replay, if any.
  \<open>clock\<close> gives the time at which an event is handled, \<open>its\<close> the order in which a map is ranged over.
\<close>

record recovering =
  rs_panic :: "string option"
  rs_gen :: idgen
  rs_queue :: Queue

definition snapshot_message :: "string \<Rightarrow> string \<Rightarrow> string \<Rightarrow> MessageSnapshot \<Rightarrow> message" where
  "snapshot_message queueName namespace key ms =
     (NewMessageForRecovery queueName namespace key (ms_Payload ms) (sint (ms_CreatedAt ms)) (ms_ID ms))
       \<lparr>m_State := msgstate_of_int8 (ms_State ms), m_Attempts := sint (ms_Attempts ms),
        m_ScheduledAt := sint (ms_ScheduledAt ms), m_LastError := ms_LastError ms\<rparr>"

text \<open>A message of a snapshot enters the state of its group by its own state: other states are dropped.\<close>

definition place_message :: "gtime \<Rightarrow> message \<Rightarrow> GroupState \<Rightarrow> GroupState" where
  "place_message now msg gs =
     (if m_State msg = StateProcessing
      then gs\<lparr>gs_ProcessingMsgs := gm_put (m_ID msg) msg (gs_ProcessingMsgs gs), gs_nilProcessing := False\<rparr>
      else if m_State msg = StatePending
      then if m_ScheduledAt msg > now then gs\<lparr>gs_DelayedMsgs := gs_DelayedMsgs gs @ [msg]\<rparr>
           else gs\<lparr>gs_ReadyMsgs := gs_ReadyMsgs gs @ [msg]\<rparr>
      else gs)"

definition snapshot_group :: "gtime \<Rightarrow> string \<Rightarrow> string \<Rightarrow> GroupSnapshot \<Rightarrow> GroupState" where
  "snapshot_group now queueName namespace sg =
     fold (\<lambda>ms. place_message now (snapshot_message queueName namespace (sg_Key sg) ms)) (sg_Messages sg)
       \<lparr>gs_Key = sg_Key sg, gs_Parallelism = sint (sg_Parallelism sg), gs_Quantum = sint (sg_Quantum sg),
        gs_ReadyMsgs = [], gs_UrgentMsgs = [], gs_DelayedMsgs = [], gs_ProcessingMsgs = [], gs_nilProcessing = True\<rparr>"

definition qrh_OnSnapshot ::
  "(string, GroupState) range_order \<Rightarrow> gtime \<Rightarrow> string \<Rightarrow> string \<Rightarrow> snapshot \<Rightarrow> recovering \<Rightarrow> recovering" where
  "qrh_OnSnapshot its now queueName namespace snap rs =
     (if rs_panic rs \<noteq> None then rs
      else let groups = fold (\<lambda>sg. gm_put (sg_Key sg) (snapshot_group now queueName namespace sg)) (sn_Groups snap) [];
               state = \<lparr>qst_SName = [], qst_SNamespace = [], qst_SGroups = groups\<rparr>
           in case Queue_ImportState its state (rs_queue rs) of
                (Panic e, q) \<Rightarrow> rs\<lparr>rs_panic := Some e, rs_queue := q\<rparr>
              | (Ret _, q) \<Rightarrow> rs\<lparr>rs_queue := q\<rparr>)"

definition qrh_OnPublish :: "(Event \<Rightarrow> gtime) \<Rightarrow> Event \<Rightarrow> recovering \<Rightarrow> recovering" where
  "qrh_OnPublish clock e rs =
     (if rs_panic rs \<noteq> None then rs
      else case PublishWithID (ev_Group e) (ev_MsgID e) (ev_Payload e) (clock e) (rs_gen rs) (rs_queue rs) of
             (Panic p, gen, q) \<Rightarrow> rs\<lparr>rs_panic := Some p, rs_gen := gen, rs_queue := q\<rparr>
           | (Ret _, gen, q) \<Rightarrow> rs\<lparr>rs_gen := gen, rs_queue := q\<rparr>)"

definition qrh_OnLease :: "(Event \<Rightarrow> gtime) \<Rightarrow> Event \<Rightarrow> recovering \<Rightarrow> recovering" where
  "qrh_OnLease clock e rs =
     (if rs_panic rs \<noteq> None then rs
      else case ReplayLease (ev_Group e) (ev_MsgID e) (clock e) (rs_queue rs) of
             (Panic p, q) \<Rightarrow> rs\<lparr>rs_panic := Some p, rs_queue := q\<rparr>
           | (Ret _, q) \<Rightarrow> rs\<lparr>rs_queue := q\<rparr>)"

definition qrh_OnACK :: "Event \<Rightarrow> recovering \<Rightarrow> recovering" where
  "qrh_OnACK e rs =
     (if rs_panic rs \<noteq> None then rs
      else case Complete (ev_Group e) (ev_MsgID e) (rs_queue rs) of
             (Inr _, q) \<Rightarrow> rs\<lparr>rs_queue := q\<rparr>
           | (Inl _, q) \<Rightarrow> rs\<lparr>rs_queue := snd (RemoveMessage (ev_Group e) (ev_MsgID e) q)\<rparr>)"

definition qrh_OnNACK :: "(Event \<Rightarrow> gtime) \<Rightarrow> Event \<Rightarrow> recovering \<Rightarrow> recovering" where
  "qrh_OnNACK clock e rs =
     (if rs_panic rs \<noteq> None then rs
      else case Fail (ev_Group e) (ev_MsgID e) ''replayed NACK'' (clock e) (rs_queue rs) of
             (Inr _, q) \<Rightarrow> rs\<lparr>rs_queue := q\<rparr>
           | (Inl _, q) \<Rightarrow> rs\<lparr>rs_queue := snd (RemoveMessage (ev_Group e) (ev_MsgID e) q)\<rparr>)"

definition qrh_OnExpire :: "Event \<Rightarrow> recovering \<Rightarrow> recovering" where
  "qrh_OnExpire e rs =
     (if rs_panic rs \<noteq> None then rs
      else rs\<lparr>rs_queue := snd (Complete (ev_Group e) (ev_MsgID e) (rs_queue rs))\<rparr>)"

definition queueRecoveryHandler ::
  "(string, GroupState) range_order \<Rightarrow> gtime \<Rightarrow> (Event \<Rightarrow> gtime) \<Rightarrow> string \<Rightarrow> string \<Rightarrow> recovering SnapshotHandler" where
  "queueRecoveryHandler its now clock queueName namespace =
     \<lparr>OnPublish = qrh_OnPublish clock, OnLease = qrh_OnLease clock, OnACK = qrh_OnACK,
      OnNACK = qrh_OnNACK clock, OnExpire = qrh_OnExpire,
      OnSnapshot = qrh_OnSnapshot its now queueName namespace\<rparr>"

end
