(* ===== verification/Broker.thy ===== *)
theory Broker
  imports Scheduler Registry Server Recovery
begin

text \<open>
  The broker (\<^verbatim>\<open>internal/broker/broker.go\<close>, \<^verbatim>\<open>handlers.go\<close>, \<^verbatim>\<open>dispatch.go\<close>, \<^verbatim>\<open>quota.go\<close> and the replay of
  \<^verbatim>\<open>recovery.go\<close>): it composes the scheduler with its queues, the write-ahead log, the subscription
  registry, the connections and the dispatch channels.  Connections are pointers, so a connection is a
  number and \<open>b_conns\<close> holds the objects.  A handler runs as one step, with one reading of the coarse
  clock, except \<open>onPublish\<close>, which is split where its goroutine waits: for the log to confirm the event
  and for room in the output channel.  Where a goroutine stands is an \<open>hstate\<close>.
\<close>

section \<open>State\<close>

record brokerQuota =
  qt_inflight :: int
  qt_max :: int

definition newBrokerQuota :: "int \<Rightarrow> brokerQuota" where
  "newBrokerQuota m = \<lparr>qt_inflight = 0, qt_max = m\<rparr>"

definition qt_TryAcquire :: "brokerQuota \<Rightarrow> bool \<times> brokerQuota" where
  "qt_TryAcquire q =
     (if qt_max q \<le> 0 then (True, q)
      else let cur = qt_inflight q in
        if cur \<ge> qt_max q then (False, q) else (True, q\<lparr>qt_inflight := cur + 1\<rparr>))"

definition qt_Release :: "brokerQuota \<Rightarrow> brokerQuota" where
  "qt_Release q = (if qt_max q > 0 then q\<lparr>qt_inflight := to_i64 (qt_inflight q - 1)\<rparr> else q)"

record Broker =
  b_GlobalMaxMsgs :: int
  b_Scheduler :: Scheduler
  b_WAL :: WAL
  b_registry :: subRegistry
  b_quota :: brokerQuota
  b_dispatchChs :: "message list list"
  b_stopped :: bool
  b_globalMsgs :: int
  b_conns :: "conn \<Rightarrow> Connection"
  b_gen :: idgen

definition dispatchCap :: nat where
  "dispatchCap = 1024"

text \<open>\<open>New\<close>: \<open>rootDir\<close> is what the directory of the logs holds, \<open>procs\<close> is \<open>GOMAXPROCS\<close>; the queues to come live in \<open>heap\<close>.\<close>

definition NewBroker :: "int \<Rightarrow> int \<Rightarrow> (string, dirents) gomap \<Rightarrow> WALConfig \<Rightarrow> int \<Rightarrow> (qref \<Rightarrow> Queue) \<Rightarrow> (conn \<Rightarrow> Connection) \<Rightarrow> idgen \<Rightarrow> Broker" where
  "NewBroker globalMaxMsgs globalMax rootDir walCfg procs heap conns gen =
     (let workers = (if procs < 1 then 1 else procs)
      in \<lparr>b_GlobalMaxMsgs = globalMaxMsgs, b_Scheduler = NewScheduler heap, b_WAL = NewWAL rootDir walCfg,
          b_registry = newSubRegistry, b_quota = newBrokerQuota globalMax,
          b_dispatchChs = replicate (nat workers) [], b_stopped = False, b_globalMsgs = 0,
          b_conns = conns, b_gen = gen\<rparr>)"

text \<open>What a step meets of the outside: clock, choices, system calls, and the orders of map ranges.\<close>

record outside =
  o_now :: gtime
  o_pick :: bool
  o_io :: walio
  o_itm :: "(string, message) range_order"
  o_itg :: "(string, group) range_order"
  o_itq :: "(string, qref) range_order"
  o_its :: "(subKey, subList) range_order"

section \<open>Counters and access\<close>

definition IncGlobalMsgs :: "Broker \<Rightarrow> bool \<times> Broker" where
  "IncGlobalMsgs b =
     (let maxMsgs = b_GlobalMaxMsgs b; cur = b_globalMsgs b in
      if maxMsgs \<le> 0 then (True, b\<lparr>b_globalMsgs := to_i64 (cur + 1)\<rparr>)
      else if cur \<ge> maxMsgs then (False, b)
      else (True, b\<lparr>b_globalMsgs := cur + 1\<rparr>))"

definition DecGlobalMsgs :: "Broker \<Rightarrow> Broker" where
  "DecGlobalMsgs b = b\<lparr>b_globalMsgs := to_i64 (b_globalMsgs b - 1)\<rparr>"

definition on_conn :: "conn \<Rightarrow> (Connection \<Rightarrow> Connection) \<Rightarrow> Broker \<Rightarrow> Broker" where
  "on_conn c f b = b\<lparr>b_conns := (b_conns b)(c := f (b_conns b c))\<rparr>"

definition quota_Release :: "Broker \<Rightarrow> Broker" where
  "quota_Release b = b\<lparr>b_quota := qt_Release (b_quota b)\<rparr>"

definition conn_ns :: "conn \<Rightarrow> Broker \<Rightarrow> string" where
  "conn_ns c b = ss_Namespace (c_Session (b_conns b c))"

definition b_queue :: "qref \<Rightarrow> Broker \<Rightarrow> Queue" where
  "b_queue r b = s_heap (b_Scheduler b) r"

definition set_queue :: "qref \<Rightarrow> Queue \<Rightarrow> Broker \<Rightarrow> Broker" where
  "set_queue r q b = b\<lparr>b_Scheduler := put_queue r q (b_Scheduler b)\<rparr>"

definition activate :: "outside \<Rightarrow> qref \<Rightarrow> string \<Rightarrow> Broker \<Rightarrow> Broker" where
  "activate x r key b = b\<lparr>b_Scheduler := Activate (o_now x) r key (b_Scheduler b)\<rparr>"

definition log_event :: "byte \<Rightarrow> string \<Rightarrow> string \<Rightarrow> string \<Rightarrow> string \<Rightarrow> byte list \<Rightarrow> Event" where
  "log_event ty ns queue key msgID payload =
     \<lparr>ev_Type = ty, ev_Namespace = ns, ev_Queue = queue, ev_Group = key, ev_MsgID = msgID, ev_Payload = payload,
      ev_Seq = 0, ev_Timestamp = 0\<rparr>"

definition wal_Append :: "outside \<Rightarrow> Event \<Rightarrow> Broker \<Rightarrow> wal_error option outcome \<times> Broker" where
  "wal_Append x e b = (let (r, w) = Append (o_io x) e (b_WAL b) in (r, b\<lparr>b_WAL := w\<rparr>))"

section \<open>Dispatch\<close>

text \<open>The send to the channel of a group; a full channel or a stopped broker refuses.\<close>

definition send_dispatch :: "bool \<Rightarrow> bool \<Rightarrow> message \<Rightarrow> message list list \<Rightarrow> bool \<times> message list list" where
  "send_dispatch pick stopped msg chs =
     (let idx = unat (HashKey (m_GroupKey msg) mod word_of_nat (length chs)); ch = chs ! idx
      in if length ch < dispatchCap \<and> (stopped \<longrightarrow> pick) then (True, chs[idx := ch @ [msg]]) else (False, chs))"

definition enqueueDispatch :: "outside \<Rightarrow> message \<Rightarrow> Broker \<Rightarrow> bool \<times> Broker" where
  "enqueueDispatch x msg b =
     (let (ok, chs) = send_dispatch (o_pick x) (b_stopped b) msg (b_dispatchChs b) in (ok, b\<lparr>b_dispatchChs := chs\<rparr>))"

definition return_pending :: "message \<Rightarrow> Broker \<Rightarrow> Broker" where
  "return_pending msg b =
     (case sch_GetQueue (m_Namespace msg) (m_QueueName msg) (b_Scheduler b) of
        None \<Rightarrow> b
      | Some r \<Rightarrow> set_queue r (ReturnToPending (m_GroupKey msg) (m_ID msg) (b_queue r b)) b)"

text \<open>
  \<open>dispatch\<close>, after the choice of the connection.  The message is shared with its queue; the value of its
  field \<open>Attempts\<close> when it is read is the argument \<open>attempts\<close>.
\<close>

definition dispatch_to :: "outside \<Rightarrow> int \<Rightarrow> message \<Rightarrow> conn \<Rightarrow> Broker \<Rightarrow> bool outcome \<times> Broker" where
  "dispatch_to x attempts msg c b =
     (case qt_TryAcquire (b_quota b) of
        (False, _) \<Rightarrow>
          (Ret False, return_pending msg (on_conn c (WriteBackpressure (o_pick x)
             \<lparr>bf_Reason = ''broker global inflight quota exceeded'', bf_RetryAfter = 1000\<rparr>) b))
      | (True, qt) \<Rightarrow>
          let b = b\<lparr>b_quota := qt\<rparr> in
          case AcquireCredit (b_conns b c) of
            (False, _) \<Rightarrow>
              (Ret False, return_pending msg (on_conn c (WriteBackpressure (o_pick x)
                 \<lparr>bf_Reason = ''per-connection inflight limit reached'', bf_RetryAfter = 500\<rparr>) (quota_Release b)))
          | (True, cn) \<Rightarrow>
              (case WriteMessage (o_pick x)
                   \<lparr>mf_MsgID = m_ID msg, mf_Queue = m_QueueName msg, mf_Group = m_GroupKey msg,
                    mf_Payload = m_Payload msg, mf_Attempts = word_of_int (attempts + 1)\<rparr> cn of
                 (Some err, cn) \<Rightarrow>
                   (Ret False, return_pending msg (quota_Release (on_conn c (\<lambda>_. ReleaseCredit cn) b)))
               | (None, cn) \<Rightarrow>
                   (case wal_Append x (log_event EventLease (m_Namespace msg) (m_QueueName msg) (m_GroupKey msg) (m_ID msg) [])
                          (on_conn c (\<lambda>_. cn) b) of
                      (Panic p, b) \<Rightarrow> (Panic p, b)
                    | (Ret _, b) \<Rightarrow> (Ret True, b))))"

definition broker_dispatch :: "outside \<Rightarrow> int \<Rightarrow> message \<Rightarrow> Broker \<Rightarrow> bool outcome \<times> Broker" where
  "broker_dispatch x attempts msg b =
     (case reg_next (o_its x) (m_Namespace msg) (m_QueueName msg) (m_GroupKey msg) (b_registry b) of
        (None, reg) \<Rightarrow> (Ret False, return_pending msg (b\<lparr>b_registry := reg\<rparr>))
      | (Some c, reg) \<Rightarrow> dispatch_to x attempts msg c (b\<lparr>b_registry := reg\<rparr>))"

text \<open>One message of a dispatch worker, for channel \<open>i\<close>.\<close>

definition dispatch_worker :: "outside \<Rightarrow> int \<Rightarrow> nat \<Rightarrow> Broker \<Rightarrow> bool outcome \<times> Broker" where
  "dispatch_worker x attempts i b =
     (if i < length (b_dispatchChs b)
      then case b_dispatchChs b ! i of
             [] \<Rightarrow> (Ret False, b)
           | msg # rest \<Rightarrow> broker_dispatch x attempts msg (b\<lparr>b_dispatchChs := (b_dispatchChs b)[i := rest]\<rparr>)
      else (Ret False, b))"

text \<open>The scheduler runs with \<open>enqueueDispatch\<close> as its dispatch function.\<close>

definition sched_worker :: "outside \<Rightarrow> gtime \<Rightarrow> Broker \<Rightarrow> Broker" where
  "sched_worker x rnow b =
     (let (s, chs) = worker (send_dispatch (o_pick x) (b_stopped b)) (o_itm x) rnow (o_now x) (b_Scheduler b, b_dispatchChs b)
      in b\<lparr>b_Scheduler := s, b_dispatchChs := chs\<rparr>)"

section \<open>Handlers\<close>

text \<open>
  Where the goroutine of a connection stands: reading the next frame; in \<open>AppendSync\<close>, waiting for the
  answer to waiter \<open>w\<close>; sending a frame, after which the handler returns, returns and gives the global
  message back, or goes on to deliver; or ended.
\<close>

datatype hafter = Return | ReturnDec | Deliver qref PublishFrame

datatype hstate = HRead | HWait qref PublishFrame string nat | HSend frame hafter | HClosed

text \<open>The text of an error; the keys of groups contain nothing that the format \<open>%q\<close> would escape.\<close>

definition quoted :: "string \<Rightarrow> string" where
  "quoted s = [CHR 0x22] @ s @ [CHR 0x22]"

fun error_text :: "queue_error \<Rightarrow> string" where
  "error_text (DepthLimitExceeded key n) = ''group '' @ quoted key @ '' depth limit exceeded ('' @ dec (nat n) @ '')''"
| "error_text (GroupNotFound key) = ''group '' @ quoted key @ '' not found''"
| "error_text (MessageNotFound msgID) = ''message '' @ quoted msgID @ '' not found in processing''"

subsection \<open>Publishing\<close>

text \<open>\<open>onPublish\<close> up to the wait in \<open>AppendSync\<close>.\<close>

definition pub_start :: "outside \<Rightarrow> nat \<Rightarrow> conn \<Rightarrow> PublishFrame \<Rightarrow> Broker \<Rightarrow> hstate outcome \<times> Broker" where
  "pub_start x waiter c f b =
     (case sch_GetQueue (conn_ns c b) (pf_Queue f) (b_Scheduler b) of
        None \<Rightarrow> (Ret (HSend (ErrorF \<lparr>ef_Code = 404, ef_Message = ''queue not found: '' @ pf_Queue f\<rparr>) Return), b)
      | Some r \<Rightarrow>
          (case IncGlobalMsgs b of
             (False, b) \<Rightarrow>
               (Ret HRead, on_conn c (WriteBackpressure (o_pick x)
                  \<lparr>bf_Reason = ''global message limit reached'', bf_RetryAfter = 5\<rparr>) b)
           | (True, b) \<Rightarrow>
               let (msgID, gen) = GenerateID (b_gen b);
                   (res, w) = AppendSync (o_io x) waiter
                     (log_event EventPublish (conn_ns c b) (pf_Queue f) (pf_Group f) msgID (pf_Payload f)) (b_WAL b);
                   b = b\<lparr>b_gen := gen, b_WAL := w\<rparr>
               in case res of
                    Panic p \<Rightarrow> (Panic p, DecGlobalMsgs b)
                  | Ret (Some err) \<Rightarrow>
                      (Ret (HSend (ErrorF \<lparr>ef_Code = 500, ef_Message = ''internal durability error''\<rparr>) ReturnDec), b)
                  | Ret None \<Rightarrow> (Ret (HWait r f msgID waiter), b)))"

text \<open>\<open>onPublish\<close> after \<open>AppendSync\<close> has returned \<open>err\<close>, up to the sending of the reply.\<close>

definition pub_logged ::
  "outside \<Rightarrow> wal_error option \<Rightarrow> qref \<Rightarrow> PublishFrame \<Rightarrow> string \<Rightarrow> Broker \<Rightarrow> hstate outcome \<times> Broker" where
  "pub_logged x err r f msgID b =
     (if err \<noteq> None
      then (Ret (HSend (ErrorF \<lparr>ef_Code = 500, ef_Message = ''internal durability error''\<rparr>) ReturnDec), b)
      else case PublishWithID (pf_Group f) msgID (pf_Payload f) (o_now x) (b_gen b) (b_queue r b) of
        (Panic p, gen, q) \<Rightarrow> (Panic p, DecGlobalMsgs (set_queue r q (b\<lparr>b_gen := gen\<rparr>)))
      | (Ret (Inl e), gen, q) \<Rightarrow>
          (Ret (HSend (ErrorF \<lparr>ef_Code = 500, ef_Message = error_text e\<rparr>) ReturnDec), set_queue r q (b\<lparr>b_gen := gen\<rparr>))
      | (Ret (Inr msg), gen, q) \<Rightarrow>
          (Ret (HSend (PublishOK \<lparr>pok_MsgID = m_ID msg, pok_Offset = 0\<rparr>) (Deliver r f)),
           set_queue r q (b\<lparr>b_gen := gen\<rparr>)))"

text \<open>The rest of \<open>onPublish\<close>: immediate dispatch and activation.\<close>

definition pub_deliver :: "outside \<Rightarrow> conn \<Rightarrow> qref \<Rightarrow> PublishFrame \<Rightarrow> Broker \<Rightarrow> hstate outcome \<times> Broker" where
  "pub_deliver x c r f b =
     (let key = pf_Group f in
      case TryDispatchOne (o_itm x) key (o_now x) (b_queue r b) of
        (Panic p, q) \<Rightarrow> (Panic p, set_queue r q b)
      | (Ret nxt, q) \<Rightarrow>
          let b = set_queue r q b;
              b = (case nxt of
                     None \<Rightarrow> b
                   | Some m \<Rightarrow>
                       (case enqueueDispatch x m b of
                          (True, b) \<Rightarrow> b
                        | (False, b) \<Rightarrow> set_queue r (ReturnToPending key (m_ID m) (b_queue r b)) b));
              b = (if reg_has (conn_ns c b) (pf_Queue f) key (b_registry b) then activate x r key b else b)
          in (Ret HRead, b))"

text \<open>A goroutine that sends: it goes on when the frame is in the channel or the connection is closed.\<close>

definition after_send :: "outside \<Rightarrow> conn \<Rightarrow> frame \<Rightarrow> hafter \<Rightarrow> Broker \<Rightarrow> hstate outcome \<times> Broker" where
  "after_send x c f k b =
     (case write_waiting (o_pick x) f (b_conns b c) of
        None \<Rightarrow> (Ret (HSend f k), b)
      | Some cn \<Rightarrow>
          let b = on_conn c (\<lambda>_. cn) b in
          case k of
            Return \<Rightarrow> (Ret HRead, b)
          | ReturnDec \<Rightarrow> (Ret HRead, DecGlobalMsgs b)
          | Deliver r f \<Rightarrow> pub_deliver x c r f b)"

subsection \<open>Subscribing\<close>

text \<open>
  The loop over the pages of groups.  Activation does not change the keys of the queue, so that the
  cursor grows with each page; \<open>n\<close> bounds the number of pages.
\<close>

fun activate_pages :: "nat \<Rightarrow> outside \<Rightarrow> qref \<Rightarrow> string \<Rightarrow> Broker \<Rightarrow> Broker option" where
  "activate_pages 0 x r cursor b = None"
| "activate_pages (Suc n) x r cursor b =
     (let (stats, nxt) = PageGroupStats (b_queue r b) cursor 1000;
          b = fold (\<lambda>gs. activate x r (st_Key gs)) stats b
      in if nxt = [] then Some b else activate_pages n x r nxt b)"

definition onSubscribe :: "outside \<Rightarrow> conn \<Rightarrow> SubscribeFrame \<Rightarrow> Broker \<Rightarrow> Broker" where
  "onSubscribe x c f b =
     (let b = b\<lparr>b_registry := reg_add (conn_ns c b) (sf_Queue f) (sf_Group f) c (b_registry b)\<rparr> in
      case sch_GetQueue (conn_ns c b) (sf_Queue f) (b_Scheduler b) of
        None \<Rightarrow> b
      | Some r \<Rightarrow>
          if reg_isGlobPattern (sf_Group f)
          then case activate_pages (Suc (length (idx_keys (q_keyIdx (b_queue r b))))) x r [] b of Some b' \<Rightarrow> b' | None \<Rightarrow> b
          else activate x r (sf_Group f) b)"

subsection \<open>Acknowledgements\<close>

text \<open>The hand-over of the next message; whether the channel takes it is not looked at.\<close>

definition hand_on :: "outside \<Rightarrow> message option \<Rightarrow> Broker \<Rightarrow> Broker" where
  "hand_on x nxt b = (case nxt of None \<Rightarrow> b | Some m \<Rightarrow> snd (enqueueDispatch x m b))"

definition onACK :: "outside \<Rightarrow> conn \<Rightarrow> ACKFrame \<Rightarrow> Broker \<Rightarrow> unit outcome \<times> Broker" where
  "onACK x c f b =
     (let b = quota_Release (on_conn c ReleaseCredit b) in
      case sch_GetQueue (conn_ns c b) (af_Queue f) (b_Scheduler b) of
        None \<Rightarrow> (Ret (), b)
      | Some r \<Rightarrow>
          (case wal_Append x (log_event EventACK (conn_ns c b) (af_Queue f) (af_Group f) (af_MsgID f) []) b of
             (Panic p, b) \<Rightarrow> (Panic p, b)
           | (Ret (Some err), b) \<Rightarrow> (Ret (), b)
           | (Ret None, b) \<Rightarrow>
               let b = DecGlobalMsgs b in
               case CompleteAndNext (o_itm x) (af_Group f) (af_MsgID f) (o_now x) (b_queue r b) of
                 (Panic p, q) \<Rightarrow> (Panic p, set_queue r q b)
               | (Ret nxt, q) \<Rightarrow> (Ret (), activate x r (af_Group f) (hand_on x nxt (set_queue r q b)))))"

text \<open>The dead-letter part of \<open>onNACK\<close>.\<close>

definition dead_letter :: "outside \<Rightarrow> conn \<Rightarrow> string \<times> message option \<Rightarrow> Broker \<Rightarrow> unit outcome \<times> Broker" where
  "dead_letter x c target b =
     (case target of
        (dlqName, Some m) \<Rightarrow>
          if dlqName = [] then (Ret (), b)
          else (case sch_GetQueue (conn_ns c b) dlqName (b_Scheduler b) of
            None \<Rightarrow> (Ret (), b)
          | Some r \<Rightarrow>
              (case Publish (m_GroupKey m) (m_Payload m) (o_now x) (b_gen b) (b_queue r b) of
                 (Panic p, gen, q) \<Rightarrow> (Panic p, set_queue r q (b\<lparr>b_gen := gen\<rparr>))
               | (Ret res, gen, q) \<Rightarrow>
                   let b = set_queue r q (b\<lparr>b_gen := gen\<rparr>)
                   in (Ret (), if \<not> isl res \<and> reg_has (conn_ns c b) dlqName (m_GroupKey m) (b_registry b)
                               then activate x r (m_GroupKey m) b else b)))
      | (_, None) \<Rightarrow> (Ret (), b))"

definition onNACK :: "outside \<Rightarrow> conn \<Rightarrow> NACKFrame \<Rightarrow> Broker \<Rightarrow> unit outcome \<times> Broker" where
  "onNACK x c f b =
     (let b = quota_Release (on_conn c ReleaseCredit b) in
      case sch_GetQueue (conn_ns c b) (nf_Queue f) (b_Scheduler b) of
        None \<Rightarrow> (Ret (), b)
      | Some r \<Rightarrow>
          (case wal_Append x (log_event EventNACK (conn_ns c b) (nf_Queue f) (nf_Group f) (nf_MsgID f) []) b of
             (Panic p, b) \<Rightarrow> (Panic p, b)
           | (Ret (Some err), b) \<Rightarrow> (Ret (), b)
           | (Ret None, b) \<Rightarrow>
               (case FailAndNext (o_itm x) (nf_Group f) (nf_MsgID f) (nf_Reason f) (o_now x) (b_queue r b) of
                  (Panic p, q) \<Rightarrow> (Panic p, set_queue r q b)
                | (Ret (target, nxt), q) \<Rightarrow>
                    let b = set_queue r q b;
                        b = (if snd target \<noteq> None then DecGlobalMsgs b else b);
                        b = activate x r (nf_Group f) (hand_on x nxt b)
                    in dead_letter x c target b)))"

subsection \<open>A connection\<close>

text \<open>One frame of \<open>handleConnection\<close>: where the goroutine stands afterwards.\<close>

definition on_frame :: "outside \<Rightarrow> nat \<Rightarrow> conn \<Rightarrow> frame \<Rightarrow> Broker \<Rightarrow> hstate outcome \<times> Broker" where
  "on_frame x waiter c f b =
     (let done = (\<lambda>(r, b). (map_outcome (\<lambda>_. HRead) r, b)) in
      case f of
        PublishF f \<Rightarrow> pub_start x waiter c f b
      | Subscribe f \<Rightarrow> (Ret HRead, onSubscribe x c f b)
      | ACK f \<Rightarrow> done (onACK x c f b)
      | NACK f \<Rightarrow> done (onNACK x c f b)
      | Heartbeat \<Rightarrow> (Ret (HSend Heartbeat Return), b)
      | _ \<Rightarrow> (Ret HRead, b))"

text \<open>The deferred function of \<open>handleConnection\<close> and the closing of the connection by the server.\<close>

definition conn_end :: "conn \<Rightarrow> Broker \<Rightarrow> Broker" where
  "conn_end c b =
     (let b = (quota_Release ^^ nat (Inflight (b_conns b c))) b
      in on_conn c conn_Close (b\<lparr>b_registry := reg_remove c (b_registry b)\<rparr>))"

section \<open>The lease sweeper\<close>

fun sweep_leases :: "outside \<Rightarrow> ExpiredLease list \<Rightarrow> Broker \<Rightarrow> unit outcome \<times> Broker" where
  "sweep_leases x [] b = (Ret (), b)"
| "sweep_leases x (l # ls) b =
     (case wal_Append x (log_event EventExpire (el_Namespace l) (el_QueueName l) (el_GroupKey l) (el_MsgID l) []) b of
        (Panic p, b) \<Rightarrow> (Panic p, b)
      | (Ret _, b) \<Rightarrow>
          sweep_leases x ls
            (case sch_GetQueue (el_Namespace l) (el_QueueName l) (b_Scheduler b) of
               None \<Rightarrow> b | Some r \<Rightarrow> activate x r (el_GroupKey l) b))"

fun sweep_queues :: "outside \<Rightarrow> qref list \<Rightarrow> Broker \<Rightarrow> unit outcome \<times> Broker" where
  "sweep_queues x [] b = (Ret (), b)"
| "sweep_queues x (r # rs) b =
     (let (expired, q) = SweepExpiredLeases (o_itg x) (o_itm x) (o_now x) (b_queue r b) in
      case sweep_leases x expired (set_queue r q b) of
        (Panic p, b) \<Rightarrow> (Panic p, b)
      | (Ret _, b) \<Rightarrow> sweep_queues x rs b)"

definition sweepLeases :: "outside \<Rightarrow> Broker \<Rightarrow> unit outcome \<times> Broker" where
  "sweepLeases x b = sweep_queues x (ListQueues (o_itq x) (b_Scheduler b)) b"

section \<open>Recovery at start-up\<close>

definition registerQueueWithWAL :: "qref \<Rightarrow> Broker \<Rightarrow> Broker" where
  "registerQueueWithWAL r b =
     (let q = b_queue r b
      in b\<lparr>b_Scheduler := RegisterQueue r (b_Scheduler b),
           b_WAL := RegisterQueueState (q_Namespace q) (q_Name q) (b_WAL b)\<rparr>)"

text \<open>
  One round of \<open>replayWAL\<close>; \<open>fresh\<close> is where a new queue object is allocated.  \<open>h\<close> is the recovery handler
  for this queue.  A panic ends the start of the broker.
\<close>

definition replay_queue ::
  "(string \<Rightarrow> string \<Rightarrow> recovering SnapshotHandler) \<Rightarrow> qref \<Rightarrow> QueueRecoveryInfo \<Rightarrow> Broker \<Rightarrow> unit outcome \<times> Broker" where
  "replay_queue h fresh info b =
     (let (r, b) =
            (case sch_GetQueue (ri_Namespace info) (ri_Queue info) (b_Scheduler b) of
               Some r \<Rightarrow> (r, b)
             | None \<Rightarrow> (fresh, registerQueueWithWAL fresh (set_queue fresh (NewQueue (ri_Queue info) (ri_Namespace info)) b)));
          rs = ReplayFromSnapshot info (h (ri_Queue info) (ri_Namespace info))
                 \<lparr>rs_panic = None, rs_gen = b_gen b, rs_queue = b_queue r b\<rparr>;
          b = set_queue r (rs_queue rs) (b\<lparr>b_gen := rs_gen rs\<rparr>)
      in (case rs_panic rs of None \<Rightarrow> (Ret (), b) | Some p \<Rightarrow> (Panic p, b)))"

fun replayWAL ::
  "(string \<Rightarrow> string \<Rightarrow> recovering SnapshotHandler) \<Rightarrow> (qref \<times> QueueRecoveryInfo) list \<Rightarrow> Broker \<Rightarrow> unit outcome \<times> Broker" where
  "replayWAL h [] b = (Ret (), b)"
| "replayWAL h ((fresh, info) # infos) b =
     (case replay_queue h fresh info b of
        (Panic p, b) \<Rightarrow> (Panic p, b)
      | (Ret _, b) \<Rightarrow> replayWAL h infos b)"

text \<open>
  \<open>restoreFromDB\<close>.  The answers of the database are arguments: of each listing \<open>None\<close> for an error, of each group
  its key and its configuration as decoded from JSON, \<open>None\<close> where that fails.  New queue objects are
  allocated from \<open>fresh\<close> on.
\<close>

type_synonym db_groups = "(string \<times> GroupConfig option) list option"
type_synonym db_queues = "(string \<times> db_groups) list option"
type_synonym db_answer = "(string \<times> db_queues) list option"

fun restore_groups :: "(string \<times> GroupConfig option) list \<Rightarrow> Queue \<Rightarrow> Queue" where
  "restore_groups [] q = q"
| "restore_groups ((key, None) # gs) q = restore_groups gs q"
| "restore_groups ((key, Some cfg) # gs) q = restore_groups gs (SetGroupConfig (cfg\<lparr>c_Key := key\<rparr>) q)"

fun restore_queues :: "string \<Rightarrow> (string \<times> db_groups) list \<Rightarrow> qref \<times> Broker \<Rightarrow> qref \<times> Broker" where
  "restore_queues ns [] s = s"
| "restore_queues ns ((name, groups) # qs) (fresh, b) =
     (let q = NewQueue name ns;
          q = (case groups of None \<Rightarrow> q | Some gs \<Rightarrow> restore_groups gs q)
      in restore_queues ns qs (Suc fresh, registerQueueWithWAL fresh (set_queue fresh q b)))"

fun restore_namespaces :: "(string \<times> db_queues) list \<Rightarrow> qref \<times> Broker \<Rightarrow> qref \<times> Broker" where
  "restore_namespaces [] s = s"
| "restore_namespaces ((ns, None) # nss) s = restore_namespaces nss s"
| "restore_namespaces ((ns, Some qs) # nss) s = restore_namespaces nss (restore_queues ns qs s)"

definition restoreFromDB :: "db_answer \<Rightarrow> qref \<Rightarrow> Broker \<Rightarrow> bool \<times> Broker" where
  "restoreFromDB db fresh b =
     (case db of None \<Rightarrow> (False, b) | Some nss \<Rightarrow> (True, snd (restore_namespaces nss (fresh, b))))"

text \<open>An error of the database is logged and the replay goes on.\<close>

definition recoverQueues ::
  "(string \<Rightarrow> string \<Rightarrow> recovering SnapshotHandler) \<Rightarrow> db_answer \<Rightarrow> qref \<Rightarrow> (qref \<times> QueueRecoveryInfo) list \<Rightarrow> Broker \<Rightarrow>
   unit outcome \<times> Broker" where
  "recoverQueues h db fresh infos b = replayWAL h infos (snd (restoreFromDB db fresh b))"

section \<open>Shutdown\<close>

text \<open>
  \<open>Stop\<close>: the dispatch workers and the sweeper are stopped, then the scheduler and the listener, and the logs
  are closed; the answers go to the publishers that still wait.
\<close>

definition broker_Stop :: "(nat \<Rightarrow> walio) \<Rightarrow> Broker \<Rightarrow> answers \<times> Broker" where
  "broker_Stop ios b = (let (a, w) = Close ios (b_WAL b) in (a, b\<lparr>b_stopped := True, b_WAL := w\<rparr>))"

text \<open>\<open>CheckDiskSpace\<close>: the free space of the data directory, or the text of the error of the system call, is an argument.\<close>

definition CheckDiskSpace :: "string + 64 word \<Rightarrow> bool \<times> string" where
  "CheckDiskSpace free =
     (let minFree = push_bit 20 500 in
      case free of
        Inl err \<Rightarrow> (False, ''disk check error: '' @ err)
      | Inr freeSpace \<Rightarrow>
          if freeSpace < minFree
          then (False, ''low disk space: '' @ dec (unat freeSpace) @ '' bytes free (min '' @ dec (unat minFree) @ '')'')
          else (True, []))"

end
