(* ===== verification/Broker_System.thy ===== *)
theory Broker_System
  imports Broker
begin

text \<open>
  The goroutines of a running broker over their shared state: one per connection that handles its
  frames and one that writes to it, the dispatch workers, the workers and the timing wheel of the
  scheduler, the lease sweeper, the writers of the logs, the goroutines that save snapshots and the
  management requests that change queues and logs.  An action is one step of one of them; a run is any sequence of
  actions.  A goroutine that panicked is stopped the way the code stops it: the handler of a
  connection cleans up and closes it, a dispatch worker or the sweeper is not started again.
\<close>

record System =
  y_b :: Broker
  y_h :: "conn \<Rightarrow> hstate"
  y_answers :: answers
  y_waiter :: nat
  y_deadWorkers :: "nat list"
  y_sweeperDead :: bool
  y_snaps :: "(string \<times> 64 word \<times> 64 word) list"

datatype bact =
    OpenAct conn string "byte list" "32 word" "(string, Authenticator) range_order" Registry
  | FrameAct outside conn
  | LoggedAct outside conn bool
  | SendAct outside conn
  | ConnWriterAct conn bool
  | DispatchAct outside int nat
  | SchedAct outside gtime
  | TickAct gtime
  | SweepAct outside
  | LogAct string "nat \<Rightarrow> walio" wselect
  | DeclareAct qref
  | UndeclareAct string string
  | ConfigAct qref GroupConfig
  | SetDurableAct string string bool
  | DestroyAct string string "nat \<Rightarrow> walio" "(oserr \<times> dirents) option"
  | SnapStartAct string
  | SnapSaveAct outside string qref "(string, GroupState) range_order" "nat option"
  | BreakAct conn nat

text \<open>What a run shows: a publication was confirmed, or a message was acknowledged positively or negatively.\<close>

datatype obs = Confirmed qref PublishFrame string | Settled qref string string

text \<open>The goroutine of a connection after a step of its handler.\<close>

definition resume :: "conn \<Rightarrow> hstate outcome \<times> Broker \<Rightarrow> System \<Rightarrow> System" where
  "resume c res s =
     (case res of
        (Ret h, b) \<Rightarrow> s\<lparr>y_b := b, y_h := (y_h s)(c := h)\<rparr>
      | (Panic p, b) \<Rightarrow> s\<lparr>y_b := conn_end c b, y_h := (y_h s)(c := HClosed)\<rparr>)"

fun settles :: "conn \<Rightarrow> frame \<Rightarrow> Broker \<Rightarrow> obs list" where
  "settles c (ACK f) b =
     (case sch_GetQueue (conn_ns c b) (af_Queue f) (b_Scheduler b) of
        None \<Rightarrow> [] | Some r \<Rightarrow> [Settled r (af_Group f) (af_MsgID f)])"
| "settles c (NACK f) b =
     (case sch_GetQueue (conn_ns c b) (nf_Queue f) (b_Scheduler b) of
        None \<Rightarrow> [] | Some r \<Rightarrow> [Settled r (nf_Group f) (nf_MsgID f)])"
| "settles c _ b = []"

definition handle_frame :: "outside \<Rightarrow> conn \<Rightarrow> System \<Rightarrow> obs list \<times> System" where
  "handle_frame x c s =
     (case conn_ReadFrame (b_conns (y_b s) c) of
        (Inl err, cn) \<Rightarrow>
          ([], s\<lparr>y_b := conn_end c (on_conn c (\<lambda>_. cn) (y_b s)), y_h := (y_h s)(c := HClosed)\<rparr>)
      | (Inr f, cn) \<Rightarrow>
          let b = on_conn c (\<lambda>_. cn) (y_b s)
          in (settles c f b,
              resume c (on_frame x (y_waiter s) c f b) (s\<lparr>y_waiter := Suc (y_waiter s)\<rparr>)))"

text \<open>
  The return of \<open>AppendSync\<close>: with the writer's answer to this waiter, or after the timeout.
\<close>

definition handle_logged :: "outside \<Rightarrow> conn \<Rightarrow> bool \<Rightarrow> System \<Rightarrow> obs list \<times> System" where
  "handle_logged x c timeout s =
     (case y_h s c of
        HWait r f msgID w \<Rightarrow>
          (case (if timeout then Some (Some ErrSyncTimeout) else map_of (y_answers s) w) of
             None \<Rightarrow> ([], s)
           | Some err \<Rightarrow>
               let res = pub_logged x err r f msgID (y_b s)
               in (case fst res of
                     Ret (HSend (PublishOK ok) k) \<Rightarrow> [Confirmed r f (pok_MsgID ok)]
                   | _ \<Rightarrow> [],
                   resume c res s))
      | _ \<Rightarrow> ([], s))"

definition open_conn ::
  "conn \<Rightarrow> string \<Rightarrow> byte list \<Rightarrow> 32 word \<Rightarrow> (string, Authenticator) range_order \<Rightarrow> Registry \<Rightarrow> System \<Rightarrow> System" where
  "open_conn c addr input m it authSvc s =
     (let (ok, cn) = Authenticate it authSvc (newConnection addr input m)
      in s\<lparr>y_b := on_conn c (\<lambda>_. if ok then cn else conn_Close cn) (y_b s),
           y_h := (y_h s)(c := if ok then HRead else HClosed)\<rparr>)"

definition log_turn :: "string \<Rightarrow> (nat \<Rightarrow> walio) \<Rightarrow> wselect \<Rightarrow> System \<Rightarrow> System" where
  "log_turn key ios sel s =
     (let b = y_b s in
      case gm_get (w_queues (b_WAL b)) key of
        None \<Rightarrow> s
      | Some q \<Rightarrow>
          let (a, q) = writerLoop ios sel q
          in s\<lparr>y_b := b\<lparr>b_WAL := (b_WAL b)\<lparr>w_queues := gm_put key q (w_queues (b_WAL b))\<rparr>\<rparr>,
               y_answers := y_answers s @ a\<rparr>)"

text \<open>
  The end of a queue's log: publishers that wait are answered.  \<open>rm\<close> is what \<open>os.RemoveAll\<close> does.
\<close>

definition destroy_log :: "string \<Rightarrow> string \<Rightarrow> (nat \<Rightarrow> walio) \<Rightarrow> (oserr \<times> dirents) option \<Rightarrow> System \<Rightarrow> System" where
  "destroy_log ns name ios rm s =
     (let (err, a, w) = DestroyQueue ios rm ns name (b_WAL (y_b s))
      in s\<lparr>y_b := (y_b s)\<lparr>b_WAL := w\<rparr>, y_answers := y_answers s @ a\<rparr>)"

text \<open>
  A goroutine that saves a snapshot: it may start at any time, because the writer starts one at ticks and rotations and
  a request may ask for one.  It copies the position of the log; later it reads the state of the queue \<open>r\<close> of the
  state provider and writes the file.
\<close>

definition snap_start :: "string \<Rightarrow> System \<Rightarrow> System" where
  "snap_start key s =
     (let b = y_b s in
      case gm_get (w_queues (b_WAL b)) key of
        None \<Rightarrow> s
      | Some q \<Rightarrow>
          let (pos, q) = saveSnapshot_begin q
          in s\<lparr>y_b := b\<lparr>b_WAL := (b_WAL b)\<lparr>w_queues := gm_put key q (w_queues (b_WAL b))\<rparr>\<rparr>,
               y_snaps := (case pos of None \<Rightarrow> y_snaps s | Some p \<Rightarrow> (key, p) # y_snaps s)\<rparr>)"

definition snap_save :: "outside \<Rightarrow> string \<Rightarrow> qref \<Rightarrow> (string, GroupState) range_order \<Rightarrow> nat option \<Rightarrow> System \<Rightarrow> System" where
  "snap_save x key r itg wr s =
     (let b = y_b s in
      case (map_of (y_snaps s) key, gm_get (w_queues (b_WAL b)) key) of
        (Some pos, Some q) \<Rightarrow>
          let st = Queue_ExportState (o_itg x) (b_queue r b);
              snap = snapshot_of itg (o_itm x) (o_now x) st pos q
          in s\<lparr>y_b := b\<lparr>b_WAL := (b_WAL b)\<lparr>w_queues := gm_put key (saveSnapshot_finish wr snap q) (w_queues (b_WAL b))\<rparr>\<rparr>,
               y_snaps := gm_del key (y_snaps s)\<rparr>
      | _ \<Rightarrow> s)"

fun sys_act :: "bact \<Rightarrow> System \<Rightarrow> obs list \<times> System" where
  "sys_act (OpenAct c addr input m it authSvc) s =
     ([], if y_h s c = HClosed then open_conn c addr input m it authSvc s else s)"
| "sys_act (FrameAct x c) s = (if y_h s c = HRead then handle_frame x c s else ([], s))"
| "sys_act (LoggedAct x c timeout) s = handle_logged x c timeout s"
| "sys_act (SendAct x c) s =
     ([], case y_h s c of HSend f k \<Rightarrow> resume c (after_send x c f k (y_b s)) s | _ \<Rightarrow> s)"
| "sys_act (ConnWriterAct c stop) s = ([], s\<lparr>y_b := on_conn c (conn_writerLoop stop) (y_b s)\<rparr>)"
| "sys_act (DispatchAct x attempts i) s =
     (if i \<in> set (y_deadWorkers s) then ([], s)
      else case dispatch_worker x attempts i (y_b s) of
        (Ret _, b) \<Rightarrow> ([], s\<lparr>y_b := b\<rparr>)
      | (Panic p, b) \<Rightarrow> ([], s\<lparr>y_b := b, y_deadWorkers := i # y_deadWorkers s\<rparr>))"
| "sys_act (SchedAct x rnow) s = ([], s\<lparr>y_b := sched_worker x rnow (y_b s)\<rparr>)"
| "sys_act (TickAct now) s = ([], s\<lparr>y_b := (y_b s)\<lparr>b_Scheduler := wheel_turn now (b_Scheduler (y_b s))\<rparr>\<rparr>)"
| "sys_act (SweepAct x) s =
     (if y_sweeperDead s then ([], s)
      else case sweepLeases x (y_b s) of
        (Ret _, b) \<Rightarrow> ([], s\<lparr>y_b := b\<rparr>)
      | (Panic p, b) \<Rightarrow> ([], s\<lparr>y_b := b, y_sweeperDead := True\<rparr>))"
| "sys_act (LogAct key ios sel) s = ([], log_turn key ios sel s)"
| "sys_act (DeclareAct r) s = ([], s\<lparr>y_b := registerQueueWithWAL r (y_b s)\<rparr>)"
| "sys_act (UndeclareAct ns name) s =
     ([], s\<lparr>y_b := (y_b s)\<lparr>b_Scheduler := UnregisterQueue ns name (b_Scheduler (y_b s))\<rparr>\<rparr>)"
| "sys_act (ConfigAct r cfg) s = ([], s\<lparr>y_b := set_queue r (SetGroupConfig cfg (b_queue r (y_b s))) (y_b s)\<rparr>)"
| "sys_act (SetDurableAct ns name dur) s =
     ([], s\<lparr>y_b := (y_b s)\<lparr>b_WAL := SetQueueDurable ns name dur (b_WAL (y_b s))\<rparr>\<rparr>)"
| "sys_act (DestroyAct ns name ios rm) s = ([], destroy_log ns name ios rm s)"
| "sys_act (SnapStartAct key) s = ([], snap_start key s)"
| "sys_act (SnapSaveAct x key r itg wr) s = ([], snap_save x key r itg wr s)"
| "sys_act (BreakAct c k) s =
     ([], s\<lparr>y_b := on_conn c (\<lambda>cn. cn\<lparr>c_enc := net_Fail k (c_enc cn)\<rparr>) (y_b s)\<rparr>)"

fun sys_run :: "bact list \<Rightarrow> System \<Rightarrow> obs list \<times> System" where
  "sys_run [] s = ([], s)"
| "sys_run (a # as) s = (let (os, s) = sys_act a s; (os', s) = sys_run as s in (os @ os', s))"

definition NewSystem :: "Broker \<Rightarrow> System" where
  "NewSystem b =
     \<lparr>y_b = b, y_h = (\<lambda>_. HClosed), y_answers = [], y_waiter = 0, y_deadWorkers = [], y_sweeperDead = False, y_snaps = []\<rparr>"

end
