(* ===== verification/Queue_Replay.thy ===== *)
theory Queue_Replay
  imports Queue_Safety
begin

text \<open>
  The operations that only the replay of a log calls, \<open>ReplayLease\<close> and \<open>RemoveMessage\<close>.  They clear the slot of a
  message, which the dispatch of urgent messages does not expect, so they are safe on groups without urgent messages;
  and a queue that is being rebuilt has none.
\<close>

section \<open>Slots\<close>

lemma findSlot_Some:
  "findSlot i h ss = Some (j, m) \<Longrightarrow> h \<le> j \<and> j - h < length ss \<and> ss ! (j - h) = Some m \<and> m_ID m = i"
proof (induction ss arbitrary: h)
  case (Cons s ss)
  show ?case
  proof (cases "\<exists>x. s = Some x \<and> m_ID x = i")
    case True
    with Cons.prems show ?thesis by auto
  next
    case False
    with Cons.prems have "findSlot i (h + 1) ss = Some (j, m)" by (auto split: option.splits if_splits)
    from Cons.IH [OF this] show ?thesis by (auto simp: nth_Cons' Suc_diff_le)
  qed
qed simp

lemma findSlot_None: "findSlot i h ss = None \<Longrightarrow> Some m \<in> set ss \<Longrightarrow> m_ID m \<noteq> i"
  by (induction i h ss rule: findSlot.induct) (auto split: option.splits if_splits)

lemma map_filter_clear:
  "j < length xs \<Longrightarrow> xs ! j = Some m \<Longrightarrow>
   mset (List.map_filter (\<lambda>s. s) xs) = add_mset m (mset (List.map_filter (\<lambda>s. s) (xs[j := None])))"
proof (induction xs arbitrary: j)
  case (Cons x xs)
  then show ?case by (cases j) (auto simp: map_filter_simps split: option.splits)
qed simp

lemma live_slots_remove:
  assumes "h \<le> j" and "j - h < length (drop h s)" and "drop h s ! (j - h) = Some m"
  shows "mset (live_slots h s) = add_mset m (mset (live_slots h (s[j := None])))"
proof -
  have "drop h (s[j := None]) = (drop h s)[j - h := None]" using assms(1) by (simp add: drop_update_swap)
  with map_filter_clear [OF assms(2,3)] show ?thesis by (simp add: live_slots_def)
qed

lemma in_live_slots: "m \<in> set (live_slots h s) \<longleftrightarrow> Some m \<in> set (drop h s)"
  by (auto simp: live_slots_def List.map_filter_def image_iff)

section \<open>Groups without urgent messages\<close>

lemma ready_found:
  assumes "grp_inv k g" and "findSlot i (g_readyHead g) (drop (g_readyHead g) (g_ready g)) = Some (j, m)"
  shows "m_ID m = i" and "mset (readyQ g) = add_mset m (mset (live_slots (g_readyHead g) ((g_ready g)[j := None])))"
    and "gm_get (g_processing g) i = None"
proof -
  note f = findSlot_Some [OF assms(2)]
  show id: "m_ID m = i" using f by simp
  show r: "mset (readyQ g) = add_mset m (mset (live_slots (g_readyHead g) ((g_ready g)[j := None])))"
    unfolding readyQ_def using f by (intro live_slots_remove) simp_all
  then have "m \<in># mset (readyQ g)" by simp
  then have "i \<in> m_ID ` set (urgentQ g @ readyQ g @ g_delayed g)" using id by auto
  then show "gm_get (g_processing g) i = None"
    using assms(1) by (intro fresh_processing) (auto simp: grp_inv_def group_wf_def)
qed

lemma live_ids_ready_remove:
  assumes "mset (readyQ g) = add_mset m (mset (live_slots (g_readyHead g) s))" and "m_ID m = i"
  shows "live_ids g = add_mset i (live_ids (g\<lparr>g_ready := s\<rparr>))"
  using assms by (simp add: live_ids_def readyQ_def urgentQ_def)

lemma replayLease_calm:
  assumes g: "grp_inv k g" and u: "g_urgent g = []"
  obtains b g' where "group_replayLease i now g = (Ret b, g')" and "grp_inv k g'" and "g_urgent g' = []"
    and "live_ids g' = live_ids g" and "g_delayed g' = g_delayed g" and "pendingCount g' = pendingCount g" and "g_cfg g' = g_cfg g"
proof (cases "findSlot i (g_readyHead g) (drop (g_readyHead g) (g_ready g))")
  case None
  with g u show thesis using that [of False g] by (simp add: group_replayLease_def)
next
  case (Some jm)
  obtain j m where jm: "findSlot i (g_readyHead g) (drop (g_readyHead g) (g_ready g)) = Some (j, m)"
    using Some by (cases jm) simp
  note F = ready_found [OF g jm]
  have rep: "group_rep g" using g by (rule grp_inv_rep)
  have uh: "g_urgentHead g = 0" using rep u by (simp add: group_rep_def)
  let ?m = "lease g now m"
  have lid: "m_ID ?m = i" using F(1) by (simp add: lease_def)
  define g' where "g' = g\<lparr>g_ready := (g_ready g)[j := None], g_processing := g_processing g @ [(i, ?m)]\<rparr>"
  have r: "group_replayLease i now g = (Ret True, g')"
    using jm u uh rep lid gm_put_fresh [OF F(3)]
    by (simp add: group_replayLease_def replay_start_def start_processing_def Let_def lease_def g'_def group_rep_def)
  have ids: "live_ids g' = live_ids g"
    unfolding live_ids_def g'_def readyQ_def urgentQ_def using F(1,2) by (simp add: readyQ_def)
  have "group_rep g'"
    using rep F(3) lid unfolding g'_def by (auto simp: group_rep_def map_of_eq_None_iff)
  then have "grp_inv k g'" using g ids by (simp add: group_wf_def grp_inv_def g'_def)
  with that [OF r] u ids show thesis by (simp add: g'_def pendingCount_def)
qed

lemma removeMessage_calm:
  assumes g: "grp_inv k g" and u: "g_urgent g = []"
  shows "grp_inv k (snd (group_removeMessage i g))" and "g_urgent (snd (group_removeMessage i g)) = []"
    and "set_mset (live_ids (snd (group_removeMessage i g))) \<subseteq> set_mset (live_ids g)"
proof -
  let ?g' = "snd (group_removeMessage i g)"
  have "grp_inv k ?g' \<and> g_urgent ?g' = [] \<and> set_mset (live_ids ?g') \<subseteq> set_mset (live_ids g)"
  proof (cases "findSlot i (g_readyHead g) (drop (g_readyHead g) (g_ready g))")
    case None
    then have "?g' = snd (complete i g)"
      using u by (auto simp: group_removeMessage_def complete_def split: option.splits)
    moreover have "g_urgent (snd (complete i g)) = []" using u by (simp add: complete_def split: option.splits)
    ultimately show ?thesis using shrinks_complete [of i] g unfolding shrinks_def by simp
  next
    case (Some jm)
    obtain j m where jm: "findSlot i (g_readyHead g) (drop (g_readyHead g) (g_ready g)) = Some (j, m)"
      using Some by (cases jm) simp
    note F = ready_found [OF g jm]
    have g': "?g' = g\<lparr>g_ready := (g_ready g)[j := None]\<rparr>" using jm u by (simp add: group_removeMessage_def)
    have ids: "live_ids g = add_mset i (live_ids ?g')" unfolding g' by (rule live_ids_ready_remove [OF F(2,1)])
    have "group_rep ?g'" using grp_inv_rep [OF g] unfolding g' by (auto simp: group_rep_def)
    then have "group_wf ?g'" using group_wf_sub [of g ?g' i] g ids by (simp add: grp_inv_def)
    then show ?thesis using g ids u by (auto simp: grp_inv_def g')
  qed
  then show "grp_inv k ?g'" "g_urgent ?g' = []" "set_mset (live_ids ?g') \<subseteq> set_mset (live_ids g)" by simp_all
qed

section \<open>Queues without urgent messages\<close>

definition calm :: "Queue \<Rightarrow> bool" where
  "calm q = (\<forall>k g. GetGroup q k = Some g \<longrightarrow> g_urgent g = [])"

lemma calm_new: "calm (NewQueue name ns)"
  using shardIdx_less by (simp add: calm_def GetGroup_def NewQueue_def)

lemma calm_put: "shards_wf q \<Longrightarrow> calm q \<Longrightarrow> g_urgent g = [] \<Longrightarrow> calm (put_group k g q)"
  by (simp add: calm_def groups.look_upd)

lemma calm_keyIdx [simp]: "calm (q\<lparr>q_keyIdx := x\<rparr>) = calm q"
  by (simp add: calm_def)

lemma calm_modify:
  "shards_wf q \<Longrightarrow> calm q \<Longrightarrow> (\<And>g. g_urgent g = [] \<Longrightarrow> g_urgent (f g) = []) \<Longrightarrow> calm (groups.modify k f q)"
  by (auto simp: calm_def groups.look_modify split: if_splits)

lemma calm_SetConfig:
  assumes "queue_wf q" and "calm q"
  shows "calm (SetGroupConfig cfg q)"
proof -
  have sh: "shards_wf (q\<lparr>q_cfgIdx := ci\<rparr>)" for ci using assms(1) by (simp add: queue_wf_def)
  show ?thesis using assms(2) unfolding calm_def
    by (auto simp: SetGroupConfig_eq Let_def groups.look_modify [OF sh] map_groups_look [OF sh] split: if_splits)
qed

lemma calm_ensure:
  assumes "shards_wf q" and "calm q" and "ensure_group k q = (Ret (g, ok), q1)"
  shows "g_urgent g = [] \<and> shards_wf q1 \<and> calm q1"
proof (cases "GetGroup q k")
  case None
  then have "newGroup (resolveConfig q k) = Ret g" "q1 = put_group k g q"
    using assms(3) by (auto simp: ensure_group_def split: outcome.splits)
  moreover from this(1) have "g_urgent g = []" by (auto simp: newGroup_def Let_def split: outcome.splits)
  ultimately show ?thesis using assms(1,2) by (simp add: calm_put groups.inv_upd)
next
  case (Some g0)
  then show ?thesis using assms by (auto simp: ensure_group_def calm_def)
qed

lemma calm_add:
  assumes "shards_wf q" and "calm q" and "g_urgent g = []"
  shows "calm (put_group k (enqueue m g) q)"
  using assms by (intro calm_put) (simp_all add: enqueue_def)

lemma calm_publish:
  assumes "queue_wf q" and "calm q"
  shows "calm (snd (snd (Publish k p now gen q)))" and "calm (snd (snd (PublishWithID k i p now gen q)))"
proof -
  have sh: "shards_wf q" using assms(1) by (simp add: queue_wf_def)
  obtain g ok q1 where e: "ensure_group k q = (Ret (g, ok), q1)"
    using assms(1) by (cases rule: ensure_group_total [where k = k]) blast+
  note c = calm_ensure [OF sh assms(2) e]
  show "calm (snd (snd (Publish k p now gen q)))" "calm (snd (snd (PublishWithID k i p now gen q)))"
    using c calm_add [of q1 g k] by (auto simp: Publish_def PublishWithID_def e Let_def split: prod.split)
qed

lemma replay_urgent:
  "g_urgent g = [] \<Longrightarrow> g_urgent (snd (group_replayLease i now g)) = []"
  "g_urgent g = [] \<Longrightarrow> g_urgent (snd (group_removeMessage i g)) = []"
  by (auto simp: group_replayLease_def replay_start_def start_processing_def group_removeMessage_def Let_def split: option.split)

lemma complete_urgent: "g_urgent g = [] \<Longrightarrow> g_urgent (snd (complete i g)) = []"
  by (simp add: complete_def split: option.split)

lemma fail_urgent: "g_urgent g = [] \<Longrightarrow> g_urgent (snd (fail i err now g)) = []"
  by (simp add: fail_def Let_def split: option.split)

text \<open>The two operations as modifications of one group.\<close>

definition when_calm :: "(group \<Rightarrow> group) \<Rightarrow> group \<Rightarrow> group" where
  "when_calm f g = (if g_urgent g = [] then f g else g)"

lemma shrinks_replayLease: "shrinks (when_calm (\<lambda>g. snd (group_replayLease i now g)))"
  unfolding shrinks_def
proof (intro allI impI)
  fix k g assume g: "grp_inv k g"
  show "grp_inv k (when_calm (\<lambda>g. snd (group_replayLease i now g)) g)
    \<and> set_mset (live_ids (when_calm (\<lambda>g. snd (group_replayLease i now g)) g)) \<subseteq> set_mset (live_ids g)"
  proof (cases "g_urgent g = []")
    case True
    from replayLease_calm [OF g True] show ?thesis using True by (metis order_refl snd_conv when_calm_def)
  qed (use g in \<open>simp add: when_calm_def\<close>)
qed

lemma shrinks_removeMessage: "shrinks (when_calm (\<lambda>g. snd (group_removeMessage i g)))"
  using removeMessage_calm(1,3) by (auto simp: shrinks_def when_calm_def)

lemma ReplayLease_eq:
  assumes "queue_wf q" and "calm q"
  obtains b where "ReplayLease k i now q = (Ret b, groups.modify k (when_calm (\<lambda>g. snd (group_replayLease i now g))) q)"
proof (cases "GetGroup q k")
  case None
  then show ?thesis using that [of False] by (simp add: ReplayLease_def groups.modify_def)
next
  case (Some g)
  then have g: "grp_inv k g" "g_urgent g = []" using assms by (simp_all add: queue_wf_def calm_def)
  then obtain b g' where "group_replayLease i now g = (Ret b, g')" using replayLease_calm [of k g i now] by metis
  then show ?thesis using that Some g(2) by (simp add: ReplayLease_def groups.modify_def when_calm_def)
qed

lemma RemoveMessage_eq:
  assumes "calm q"
  shows "snd (RemoveMessage k i q) = groups.modify k (when_calm (\<lambda>g. snd (group_removeMessage i g))) q"
  using assms by (auto simp: RemoveMessage_def groups.modify_def when_calm_def calm_def split_beta split: option.split)

section \<open>Replay\<close>

text \<open>What a recovering broker does to a queue: the calls of the recovery handler and declarations of groups.\<close>

fun replay_op :: "qop \<Rightarrow> bool" where
  "replay_op (OpPublish _ _ _) = True"
| "replay_op (OpPublishWithID _ _ _) = True"
| "replay_op (OpComplete _ _) = True"
| "replay_op (OpFail _ _ _ _) = True"
| "replay_op (OpReplayLease _ _ _) = True"
| "replay_op (OpRemoveMessage _ _) = True"
| "replay_op (OpSetConfig cfg) = config_ok cfg"
| "replay_op (OpDeleteConfig _) = True"
| "replay_op _ = False"

lemma replay_op_ok:
  assumes wf: "queue_wf q" and calm: "calm q" and gen: "gen_inv n gen q" and n: "n + 2 < 2 ^ 64"
    and it: "is_range_order it" and op: "replay_op op"
  shows "op_result n (exec_op itg it op (gen, q)) \<and> calm (snd (snd (exec_op itg it op (gen, q))))"
proof -
  have sh: "shards_wf q" using wf by (simp add: queue_wf_def)
  show ?thesis
  proof (cases op)
    case (OpReplayLease k i now)
    obtain b where r: "ReplayLease k i now q = (Ret b, groups.modify k (when_calm (\<lambda>g. snd (group_replayLease i now g))) q)"
      using wf calm by (rule ReplayLease_eq)
    have "calm (groups.modify k (when_calm (\<lambda>g. snd (group_replayLease i now g))) q)"
      by (rule calm_modify [OF sh calm]) (simp add: when_calm_def replay_urgent)
    then show ?thesis using OpReplayLease r modify_result [OF wf gen shrinks_replayLease] by (simp add: forget_def)
  next
    case (OpRemoveMessage k i)
    have "calm (groups.modify k (when_calm (\<lambda>g. snd (group_removeMessage i g))) q)"
      by (rule calm_modify [OF sh calm]) (simp add: when_calm_def replay_urgent)
    then show ?thesis
      using OpRemoveMessage modify_result [OF wf gen shrinks_removeMessage] by (simp add: RemoveMessage_eq [OF calm])
  next
    case (OpSetConfig cfg)
    then show ?thesis using op SetConfig_result [OF wf gen] calm_SetConfig [OF wf calm] by simp
  next
    case (OpDeleteConfig k)
    then show ?thesis using DeleteConfig_result [OF wf gen] calm by (simp add: calm_def DeleteGroupConfig_def split_beta)
  next
    case (OpFail k i err now)
    then show ?thesis using modify_result [OF wf gen shrinks_ops(2)] calm_modify [OF sh calm fail_urgent] by (simp add: Fail_eq)
  next
    case (OpComplete k i)
    then show ?thesis using modify_result [OF wf gen shrinks_ops(1)] calm_modify [OF sh calm complete_urgent] by (simp add: Complete_eq)
  next
    case (OpPublish k p now)
    then show ?thesis using Publish_ok [OF wf gen n] calm_publish(1) [OF wf calm] by (simp add: split_beta)
  next
    case (OpPublishWithID k p now)
    then show ?thesis using PublishWithID_ok [OF wf gen n] calm_publish(2) [OF wf calm] by (simp add: split_beta Let_def)
  qed (use op in simp_all)
qed

end
