(* ===== verification/Queue_Props.thy ===== *)
theory Queue_Props
  imports Queue_Replay
begin

text \<open>
  The properties of a queue: no operation in service panics or breaks the invariant, operations
  on one group leave the others alone, publishing appends exactly one message or refuses, the lease
  sweep is exact, and exporting and importing the queue preserves every group.
\<close>

section \<open>Runs\<close>

lemma exec_ops_ok:
  assumes "queue_wf q" and "gen_inv n gen q" and "n + 2 * length ops < 2 ^ 64"
    and "is_range_order it" and "list_all op_ok ops"
  shows "\<exists>gen' q'. exec_ops itg it ops (gen, q) = (Ret (), gen', q') \<and> queue_wf q'"
  using assms(1-3,5)
proof (induction ops arbitrary: n gen q)
  case Nil
  then show ?case by simp
next
  case (Cons op ops)
  have "op_result n (exec_op itg it op (gen, q))"
    using exec_op_ok [OF Cons.prems(1,2) _ assms(4), of op itg] Cons.prems(3,4) by simp
  then obtain gen1 q1 n1 where s: "exec_op itg it op (gen, q) = (Ret (), gen1, q1)" "n1 \<le> n + 2"
    "queue_wf q1" "gen_inv n1 gen1 q1"
    by (auto simp: op_result_def)
  have "n1 + 2 * length ops < 2 ^ 64" using s(2) Cons.prems(3) by simp
  from Cons.IH [OF s(3,4) this] Cons.prems(4) s(1) show ?case by simp
qed

lemma replay_ops_ok:
  assumes "queue_wf q" and "calm q" and "gen_inv n gen q" and "n + 2 * length rs < 2 ^ 64"
    and "is_range_order it" and "list_all replay_op rs"
  shows "\<exists>gen' q' n'. exec_ops itg it rs (gen, q) = (Ret (), gen', q') \<and> n' \<le> n + 2 * length rs \<and> queue_wf q' \<and> gen_inv n' gen' q'"
  using assms(1-4,6)
proof (induction rs arbitrary: n gen q)
  case Nil
  then show ?case by auto
next
  case (Cons op rs)
  have "op_result n (exec_op itg it op (gen, q)) \<and> calm (snd (snd (exec_op itg it op (gen, q))))"
    using Cons.prems(4,5) by (intro replay_op_ok [OF Cons.prems(1-3) _ assms(5)]) simp_all
  then obtain gen1 q1 n1 where s: "exec_op itg it op (gen, q) = (Ret (), gen1, q1)" "n1 \<le> n + 2"
    "queue_wf q1" "gen_inv n1 gen1 q1" "calm q1"
    by (auto simp: op_result_def)
  have "n1 + 2 * length rs < 2 ^ 64" using s(2) Cons.prems(4) by simp
  from Cons.IH [OF s(3,5,4) this] Cons.prems(5) obtain gen' q' n' where
    "exec_ops itg it rs (gen1, q1) = (Ret (), gen', q')" "n' \<le> n1 + 2 * length rs" "queue_wf q'" "gen_inv n' gen' q'" by auto
  then show ?case using s(1,2) by (intro exI [of _ gen'] exI [of _ q'] exI [of _ n']) simp
qed

lemma exec_ops_append:
  "exec_ops itg it (rs @ ops) s =
     (case exec_ops itg it rs s of (Panic e, s) \<Rightarrow> (Panic e, s) | (Ret _, s) \<Rightarrow> exec_ops itg it ops s)"
  by (induction rs arbitrary: s) (simp_all split: prod.splits outcome.splits)



section \<open>Isolation\<close>

fun op_key :: "qop \<Rightarrow> string option" where
  "op_key (OpPublish k _ _) = Some k"
| "op_key (OpPublishWithID k _ _) = Some k"
| "op_key (OpComplete k _) = Some k"
| "op_key (OpCompleteAndNext k _ _) = Some k"
| "op_key (OpTryDispatchOne k _) = Some k"
| "op_key (OpFail k _ _ _) = Some k"
| "op_key (OpFailAndNext k _ _ _) = Some k"
| "op_key (OpDrainGroup k _) = Some k"
| "op_key (OpReturnToPending k _) = Some k"
| "op_key _ = None"

lemma put_group_other:
  assumes "length (q_shards q) = queueShardCount" and "k' \<noteq> k"
  shows "GetGroup (put_group k g q) k' = GetGroup q k'
    \<and> length (q_shards (put_group k g q)) = queueShardCount"
  using assms shardIdx_less [of k] by (simp add: GetGroup_def put_group_def nth_list_update)

lemma ensure_group_other:
  assumes "length (q_shards q) = queueShardCount" and "k' \<noteq> k" and "ensure_group k q = (r, q')"
  shows "GetGroup q' k' = GetGroup q k' \<and> length (q_shards q') = queueShardCount"
  using assms put_group_other
  by (auto simp: ensure_group_def split: option.splits outcome.splits)

lemma publish_other:
  assumes "length (q_shards q) = queueShardCount" and "k' \<noteq> k"
  shows "GetGroup (snd (snd (Publish k p now gen q))) k' = GetGroup q k'"
    and "GetGroup (snd (snd (PublishWithID k i p now gen q))) k' = GetGroup q k'"
proof -
  obtain r q1 where e: "ensure_group k q = (r, q1)" by fastforce
  have q1: "GetGroup q1 k' = GetGroup q k'" "length (q_shards q1) = queueShardCount"
    using ensure_group_other [OF assms e] by simp_all
  have put: "GetGroup (put_group k g q1) k' = GetGroup q k'" for g
    using put_group_other [OF q1(2) assms(2)] q1(1) by simp
  show "GetGroup (snd (snd (Publish k p now gen q))) k' = GetGroup q k'"
    by (cases r) (auto simp: Publish_def e put q1 Let_def split: prod.split)
  show "GetGroup (snd (snd (PublishWithID k i p now gen q))) k' = GetGroup q k'"
    by (cases r) (auto simp: PublishWithID_def e put q1 Let_def split: prod.split)
qed

text \<open>
  Isolation.  An operation addressed to one group changes no other group of the queue: not its
  messages, not its leases, not its configuration and not its scheduling state.
\<close>

lemma group_isolation:
  assumes "length (q_shards q) = queueShardCount" and "op_key op = Some k" and "k' \<noteq> k"
    and "exec_op itg it op (gen, q) = (r, gen', q')"
  shows "GetGroup q' k' = GetGroup q k'"
proof -
  note put = put_group_other [OF assms(1,3), THEN conjunct1]
  note unf = Complete_def CompleteAndNext_def TryDispatchOne_def Fail_def FailAndNext_def DrainGroup_def
    ReturnToPending_def Let_def
  show ?thesis
  proof (cases op)
    case (OpPublish k0 p now)
    then show ?thesis using assms publish_other(1) [OF assms(1,3), of p now gen] by (auto simp: split_beta)
  next
    case (OpPublishWithID k0 p now)
    then show ?thesis
      using assms publish_other(2) [OF assms(1,3), of "fst (GenerateID gen)" p now "snd (GenerateID gen)"]
      by (auto simp: split_beta Let_def)
  qed (use assms put in \<open>auto simp: unf split_beta split: option.splits outcome.splits prod.splits\<close>)
qed

section \<open>Publishing\<close>

definition at_limit :: "group \<Rightarrow> bool" where
  "at_limit g = (c_MaxPending (g_cfg g) > 0 \<and> pendingCount g \<ge> c_MaxPending (g_cfg g))"

definition queued :: "Queue \<Rightarrow> string \<Rightarrow> message list" where
  "queued q k = (case GetGroup q k of None \<Rightarrow> [] | Some g \<Rightarrow> readyQ g)"

text \<open>
  Publishing.  In a well-formed queue, publishing to a group that has reached its depth limit
  is refused with the limit and changes nothing; otherwise it returns a message with the given
  payload, key and names, in state pending and with no attempts, appends exactly that message to
  the ready queue of the group, which is created if need be, and changes no other group.
\<close>

lemma Publish_outcome:
  assumes wf: "queue_wf q" and p: "Publish k payload now gen q = (r, gen', q')"
    and fresh: "\<forall>g. GetGroup q k = Some g \<longrightarrow> fst (newID gen) \<notin># live_ids g"
  shows "if (\<exists>g. GetGroup q k = Some g \<and> at_limit g)
    then (\<exists>mx. r = Ret (Inl (DepthLimitExceeded k mx)) \<and> 0 < mx) \<and> gen' = gen \<and> q' = q
    else \<exists>m. r = Ret (Inr m) \<and> m_ID m = fst (newID gen) \<and> m_Payload m = payload \<and> m_GroupKey m = k
      \<and> m_QueueName m = q_Name q \<and> m_Namespace m = q_Namespace q \<and> m_State m = StatePending
      \<and> m_Attempts m = 0 \<and> queued q' k = queued q k @ [m] \<and> queue_wf q'
      \<and> (\<forall>k'. k' \<noteq> k \<longrightarrow> GetGroup q' k' = GetGroup q k')"
proof -
  obtain g ok q1 where e: "ensure_group k q = (Ret (g, ok), q1)"
    using wf by (cases rule: ensure_group_total [where k = k]) blast+
  have g: "grp_inv k g" "q_Name q1 = q_Name q" "q_Namespace q1 = q_Namespace q" "fst (newID gen) \<notin># live_ids g"
    "at_limit g \<Longrightarrow> GetGroup q k = Some g \<and> q1 = q" "(\<exists>g. GetGroup q k = Some g \<and> at_limit g) = at_limit g"
    using wf by (cases rule: ensure_group_total [where k = k]; use e fresh in \<open>auto simp: at_limit_def\<close>)+
  have rq: "queued q k = readyQ g"
    using wf
  proof (cases rule: ensure_group_total [where k = k])
    case (old g0)
    then show ?thesis using e by (simp add: queued_def)
  next
    case (new g0)
    have "mset (map m_ID (readyQ g)) = {#}" using new e by (simp add: live_ids_def)
    then show ?thesis using new e by (simp add: queued_def)
  qed
  show ?thesis
  proof (cases "at_limit g")
    case True
    then show ?thesis using p g by (auto simp: Publish_def e at_limit_def)
  next
    case False
    define m where "m = fst (newMessageAt (q_Name q1) (q_Namespace q1) k payload now gen)"
    have m: "newMessageAt (q_Name q1) (q_Namespace q1) k payload now gen = (m, snd (newID gen))"
      "m_ID m = fst (newID gen)" "m_Payload m = payload" "m_GroupKey m = k" "m_QueueName m = q_Name q"
      "m_Namespace m = q_Namespace q" "m_State m = StatePending" "m_Attempts m = 0"
      by (simp_all add: m_def newMessageAt_def split_beta g)
    have res: "r = Ret (Inr m)" "q' = add_message k m g ok q1"
      using p False by (auto simp: Publish_def e m at_limit_def add_message_def Let_def split: if_splits)
    have "m_ID m \<notin># live_ids g" using g(4) m(2) by simp
    note a = add_message_wf [OF wf e this]
    have "queued q' k = queued q k @ [m]"
      using a res enqueue_pres [OF grp_inv_rep [OF g(1)], of m] rq by (simp add: queued_def)
    then show ?thesis using a res m(2-) False g(6) by simp
  qed
qed

section \<open>The lease sweep\<close>

lemma return_fold:
  assumes "group_rep g" and "distinct ids" and "\<forall>i \<in> set ids. gm_get (g_processing g) i \<noteq> None"
  shows "let g' = fold (\<lambda>i g. snd (returnToPending i g)) ids g in
    group_rep g' \<and> live_ids g' = live_ids g \<and> readyQ g' = readyQ g
    \<and> map m_ID (urgentQ g') = map m_ID (urgentQ g) @ ids
    \<and> (\<forall>i. gm_get (g_processing g') i = (if i \<in> set ids then None else gm_get (g_processing g) i))"
  using assms
proof (induction ids arbitrary: g)
  case Nil
  then show ?case by (simp add: Let_def)
next
  case (Cons i ids)
  obtain m where m: "gm_get (g_processing g) i = Some m" using Cons.prems(3) by auto
  note p = to_urgent_pres [OF Cons.prems(1) m]
  have id: "m_ID m = i" using Cons.prems(1) map_of_SomeD [OF m] by (auto simp: group_rep_def)
  have r: "snd (returnToPending i g) = to_urgent i m g" by (simp add: returnToPending_eq m)
  have "\<forall>j \<in> set ids. gm_get (g_processing (to_urgent i m g)) j \<noteq> None"
    using Cons.prems(2,3) by auto
  then show ?case using Cons.IH [of "to_urgent i m g"] p Cons.prems(2) id by (simp add: Let_def r)
qed

lemma expiredIDs_set:
  assumes "group_rep g" and "is_range_order it"
  shows "distinct (expiredIDs it now g)"
    and "set (expiredIDs it now g) = {i. \<exists>m. gm_get (g_processing g) i = Some m \<and> m_ScheduledAt m < now}"
proof -
  have wf: "gm_wf (g_processing g)" using assms(1) by (simp add: group_rep_def)
  have wf': "gm_wf (it (g_processing g))" by (rule range_order_wf [OF assms(2) wf])
  then show "distinct (expiredIDs it now g)" by (simp add: expiredIDs_def distinct_map_filter)
  show "set (expiredIDs it now g) = {i. \<exists>m. gm_get (g_processing g) i = Some m \<and> m_ScheduledAt m < now}"
    using wf by (force simp: expiredIDs_def range_order_set [OF assms(2)] map_of_eq_Some_iff)
qed

lemma sweepGroup_spec:
  assumes "group_rep g" and "is_range_order it"
  shows "live_ids (sweepGroup it now g) = live_ids g \<and> readyQ (sweepGroup it now g) = readyQ g
    \<and> map m_ID (urgentQ (sweepGroup it now g)) = map m_ID (urgentQ g) @ expiredIDs it now g
    \<and> (\<forall>i. gm_get (g_processing (sweepGroup it now g)) i =
         (case gm_get (g_processing g) i of
            Some m \<Rightarrow> if m_ScheduledAt m < now then None else Some m
          | None \<Rightarrow> None))"
proof -
  note ex = expiredIDs_set [OF assms, of now]
  have "\<forall>i \<in> set (expiredIDs it now g). gm_get (g_processing g) i \<noteq> None" using ex(2) by auto
  from return_fold [OF assms(1) ex(1) this] ex(2) show ?thesis
    by (auto simp: sweepGroup_def Let_def split: option.split)
qed

text \<open>
  [C26] Lease sweep.  The sweep reports exactly the leases, over all groups, whose deadline has
  passed, under the group's own key; afterwards every group has kept all its messages, holds exactly
  the leases that have not expired, and has the expired ones at the end of its urgent queue, while its ready queue,
  to which the comment of the function says they go, is as it was.
\<close>

theorem sweep_exact:
  assumes wf: "queue_wf q" and it: "is_range_order it" and itg: "is_range_order itg"
    and s: "SweepExpiredLeases itg it now q = (expired, q')"
  shows "(\<lambda>e. (el_GroupKey e, el_MsgID e)) ` set expired =
      {(k, i). \<exists>g m. GetGroup q k = Some g \<and> gm_get (g_processing g) i = Some m \<and> m_ScheduledAt m < now}
    \<and> (\<forall>k g. GetGroup q k = Some g \<longrightarrow> (\<exists>g'. GetGroup q' k = Some g' \<and> live_ids g' = live_ids g
         \<and> readyQ g' = readyQ g \<and> map m_ID (urgentQ g') = map m_ID (urgentQ g) @ expiredIDs it now g
         \<and> (\<forall>i. gm_get (g_processing g') i = (case gm_get (g_processing g) i of
              Some m \<Rightarrow> if m_ScheduledAt m < now then None else Some m | None \<Rightarrow> None))))"
proof
  have sh: "shards_wf q" and inv: "\<And>k g. GetGroup q k = Some g \<Longrightarrow> grp_inv k g"
    using wf by (simp_all add: queue_wf_def)
  have ents: "(\<Union>shard \<in> set (q_shards q). set (itg shard)) = {(k, g). GetGroup q k = Some g}"
    using all_groups [OF sh] by (simp add: range_order_set [OF itg])
  let ?rec = "\<lambda>g i. \<lparr>el_Namespace = q_Namespace q, el_QueueName = q_Name q, el_GroupKey = c_Key (g_cfg g), el_MsgID = i\<rparr>"
  have mem: "e \<in> set expired \<longleftrightarrow>
      (\<exists>(k, g) \<in> (\<Union>shard \<in> set (q_shards q). set (itg shard)). e \<in> ?rec g ` set (expiredIDs it now g))" for e
  proof -
    have "expired = concat (map (\<lambda>shard. concat (map (\<lambda>e. map (?rec (snd e)) (expiredIDs it now (snd e)))
        (itg shard))) (q_shards q))" using s by (auto simp: SweepExpiredLeases_def case_prod_unfold)
    then show ?thesis by (simp add: split_beta)
  qed
  have iff: "(k, i) \<in> (\<lambda>e. (el_GroupKey e, el_MsgID e)) ` set expired \<longleftrightarrow>
      (\<exists>g. GetGroup q k = Some g \<and> i \<in> set (expiredIDs it now g))" for k i
  proof
    assume "(k, i) \<in> (\<lambda>e. (el_GroupKey e, el_MsgID e)) ` set expired"
    then obtain k0 g where "GetGroup q k0 = Some g" "i \<in> set (expiredIDs it now g)" "k = c_Key (g_cfg g)"
      by (auto simp: mem ents)
    then show "\<exists>g. GetGroup q k = Some g \<and> i \<in> set (expiredIDs it now g)" using inv by (auto simp: grp_inv_def)
  next
    assume "\<exists>g. GetGroup q k = Some g \<and> i \<in> set (expiredIDs it now g)"
    then obtain g where g: "GetGroup q k = Some g" "i \<in> set (expiredIDs it now g)" by blast
    then have "?rec g i \<in> set expired" unfolding mem ents by blast
    moreover have "c_Key (g_cfg g) = k" using inv [OF g(1)] by (simp add: grp_inv_def)
    ultimately show "(k, i) \<in> (\<lambda>e. (el_GroupKey e, el_MsgID e)) ` set expired" by force
  qed
  have ex: "i \<in> set (expiredIDs it now g) \<longleftrightarrow> (\<exists>m. gm_get (g_processing g) i = Some m \<and> m_ScheduledAt m < now)"
    if "GetGroup q k = Some g" for i g k
    unfolding expiredIDs_set(2) [OF grp_inv_rep [OF inv [OF that]] it] by simp
  show "(\<lambda>e. (el_GroupKey e, el_MsgID e)) ` set expired =
      {(k, i). \<exists>g m. GetGroup q k = Some g \<and> gm_get (g_processing g) i = Some m \<and> m_ScheduledAt m < now}"
    (is "?L = ?R")
  proof (rule set_eqI)
    fix x :: "string \<times> string"
    obtain k i where x: "x = (k, i)" by (cases x)
    show "x \<in> ?L \<longleftrightarrow> x \<in> ?R" unfolding x iff using ex by blast
  qed
  have "q' = map_groups (\<lambda>_. sweepGroup it now) q" using Sweep_eq [of itg it now q] s by simp
  then show "\<forall>k g. GetGroup q k = Some g \<longrightarrow> (\<exists>g'. GetGroup q' k = Some g' \<and> live_ids g' = live_ids g
         \<and> readyQ g' = readyQ g \<and> map m_ID (urgentQ g') = map m_ID (urgentQ g) @ expiredIDs it now g
         \<and> (\<forall>i. gm_get (g_processing g') i = (case gm_get (g_processing g) i of
              Some m \<Rightarrow> if m_ScheduledAt m < now then None else Some m | None \<Rightarrow> None)))"
    using sweepGroup_spec [OF grp_inv_rep [OF inv] it] map_groups_look [OF sh] by simp
qed

text \<open>A queue with one group, for the concrete instances.\<close>

definition single :: "string \<Rightarrow> group \<Rightarrow> Queue" where
  "single k g = (put_group k g (NewQueue ''q'' ''ns''))\<lparr>q_keyIdx := \<lparr>idx_keys = [k]\<rparr>\<rparr>"

lemma single_get: "GetGroup (single k g) k' = (if k' = k then Some g else None)"
proof -
  have sh: "shards_wf (NewQueue ''q'' ''ns'')" using NewQueue_wf by (simp add: queue_wf_def)
  have "GetGroup (NewQueue ''q'' ''ns'') k' = None"
    using shardIdx_less [of k'] by (simp add: GetGroup_def NewQueue_def)
  then show ?thesis by (simp add: single_def groups.look_upd [OF sh])
qed

lemma single_wf: "grp_inv k g \<Longrightarrow> queue_wf (single k g)"
proof -
  assume g: "grp_inv k g"
  have "queue_wf (NewQueue ''q'' ''ns'')" by (rule NewQueue_wf)
  then have "shards_wf (single k g)" "ci_wf (q_cfgIdx (single k g))" "cfgs_ok (q_cfgIdx (single k g))"
    by (simp_all add: single_def queue_wf_def shards_put)
  then show ?thesis using g single_get [of k g]
    by (auto simp: queue_wf_def) (simp_all add: single_def idx_wf_def split: if_splits)
qed

lemma demo_waiting_inv: "grp_inv ''k'' demo_waiting"
proof -
  have "live_ids demo_waiting = mset [''c'', ''d'', ''a'', ''b'']"
    by (simp add: live_ids_def urgentQ_def readyQ_def demo_waiting_def demo_group_def demo_msg_def
        live_slots_def map_filter_simps)
  moreover have "distinct [''c'', ''d'', ''a'', ''b'']" by simp
  ultimately have "\<forall>i. count (live_ids demo_waiting) i \<le> 1"
    unfolding distinct_count_atmost_1 by (metis le_numeral_extra(4) zero_le_one)
  then show ?thesis using demo_waiting_rep
    by (simp add: grp_inv_def group_wf_def) (simp add: demo_waiting_def demo_group_def defaultGroupConfig_def)
qed

theorem sweep_exact_witness:
  "\<exists>expired q'. SweepExpiredLeases rev rev 7 (single ''k'' demo_waiting) = (expired, q')
     \<and> (\<lambda>e. (el_GroupKey e, el_MsgID e)) ` set expired = {(''k'', ''a'')}"
proof -
  obtain expired q' where s: "SweepExpiredLeases rev rev 7 (single ''k'' demo_waiting) = (expired, q')"
    by fastforce
  have "{(k, i). \<exists>g m. GetGroup (single ''k'' demo_waiting) k = Some g \<and> gm_get (g_processing g) i = Some m
      \<and> m_ScheduledAt m < 7} = {(''k'', ''a'')}"
    by (auto simp: single_get demo_waiting_def split: if_splits)
  then show ?thesis
    using sweep_exact [OF single_wf [OF demo_waiting_inv] is_range_order_rev is_range_order_rev s] s by simp
qed

section \<open>Export and import\<close>

lemma export_groups:
  assumes "queue_wf q" and "is_range_order it"
  shows "gm_wf (qst_SGroups (Queue_ExportState it q)) \<and>
    gm_get (qst_SGroups (Queue_ExportState it q)) k = map_option Group_ExportState (GetGroup q k)"
proof -
  have sh: "shards_wf q" using assms(1) by (simp add: queue_wf_def)
  let ?es = "concat (map it (q_shards q))"
  have fold: "gm_wf acc \<Longrightarrow> gm_wf (fold (\<lambda>(key, g) acc. gm_put key (Group_ExportState g) acc) es acc) \<and>
      ((\<forall>g g'. (k, g) \<in> set es \<longrightarrow> (k, g') \<in> set es \<longrightarrow> g = g') \<longrightarrow>
       gm_get (fold (\<lambda>(key, g) acc. gm_put key (Group_ExportState g) acc) es acc) k =
         (if \<exists>g. (k, g) \<in> set es then Some (Group_ExportState (SOME g. (k, g) \<in> set es)) else gm_get acc k))"
    for es acc
  proof (induction es arbitrary: acc rule: rev_induct)
    case Nil
    then show ?case by simp
  next
    case (snoc e es)
    obtain k0 g0 where e: "e = (k0, g0)" by (cases e)
    show ?case
    proof (cases "k0 = k")
      case True
      then have "(\<forall>g g'. (k, g) \<in> set (es @ [e]) \<longrightarrow> (k, g') \<in> set (es @ [e]) \<longrightarrow> g = g') \<longrightarrow>
          (SOME g. (k, g) \<in> set (es @ [e])) = g0" using e by (auto intro!: some_equality)
      then show ?thesis using snoc True by (auto simp: e gm_wf_put)
    qed (use snoc in \<open>auto simp: e gm_wf_put\<close>)
  qed
  have set: "set ?es = {(k, g). GetGroup q k = Some g}"
    using all_groups [OF sh] by (simp add: range_order_set [OF assms(2)])
  have "gm_get (fold (\<lambda>(key, g) acc. gm_put key (Group_ExportState g) acc) ?es []) k
      = map_option Group_ExportState (GetGroup q k)"
    using fold [of "[]" ?es] by (cases "GetGroup q k") (auto simp: set simp del: set_concat)
  then show ?thesis using fold [of "[]" ?es] by (simp add: Queue_ExportState_def)
qed

lemma import_group_ok:
  assumes sh: "shards_wf q" and cfg: "ci_wf (q_cfgIdx q)" "cfgs_ok (q_cfgIdx q)" and rep: "group_rep g"
  obtains g' where "import_group (Group_ExportState g) q = (Ret (), put_group (c_Key (g_cfg g)) g' q)"
    and "abs_group g' = abs_group g" and "group_rep g'"
proof -
  let ?k = "c_Key (g_cfg g)"
  let ?cfg = "(resolveConfig q ?k)\<lparr>c_Parallelism := c_Parallelism (g_cfg g), c_Key := ?k\<rparr>"
  have "queue_wf (NewQueue [] []\<lparr>q_cfgIdx := q_cfgIdx q\<rparr>)"
    using queue_wf_cfgIdx [OF NewQueue_wf cfg] .
  from resolveConfig_ok [OF this, of ?k] have "config_ok ?cfg"
    by (simp add: config_ok_def resolveConfig_def)
  then obtain g0 where g0: "newGroup ?cfg = Ret g0" "grp_inv (c_Key ?cfg) g0"
    using newGroup_total by metis
  have "\<forall>l. g_limiter g0 = Some l \<longrightarrow> lim_wf l"
    using g0(2) grp_inv_rep by (auto simp: group_rep_def)
  note ie = import_export_abs [OF rep this]
  define g' where "g' = (Group_ImportState (Group_ExportState g) g0)\<lparr>g_quantum := g_quantum g\<rparr>"
  have "import_group (Group_ExportState g) q = (Ret (), put_group ?k g' q)"
    using g0(1) by (simp add: import_group_def Let_def Group_ExportState_def g'_def)
  moreover have "abs_group g' = abs_group g" "group_rep g'"
    using ie by (simp_all add: g'_def abs_group_def urgentQ_def readyQ_def)
  ultimately show ?thesis by (rule that)
qed

lemma import_groups_ok:
  assumes "shards_wf q" and "ci_wf (q_cfgIdx q)" and "cfgs_ok (q_cfgIdx q)"
    and "\<forall>g \<in> set gs. group_rep g" and "distinct (map (c_Key \<circ> g_cfg) gs)"
  shows "\<exists>q'. import_groups (map Group_ExportState gs) q = (Ret (), q') \<and>
    (\<forall>k. map_option abs_group (GetGroup q' k) =
       (case find (\<lambda>g. c_Key (g_cfg g) = k) gs of
          Some g \<Rightarrow> Some (abs_group g) | None \<Rightarrow> map_option abs_group (GetGroup q k)))"
  using assms
proof (induction gs arbitrary: q)
  case Nil
  then show ?case by simp
next
  case (Cons g gs)
  obtain g' where g': "import_group (Group_ExportState g) q = (Ret (), put_group (c_Key (g_cfg g)) g' q)"
    "abs_group g' = abs_group g"
    using import_group_ok [OF Cons.prems(1-3), of g] Cons.prems(4) by auto
  let ?q = "put_group (c_Key (g_cfg g)) g' q"
  have "shards_wf ?q" using Cons.prems(1) by (rule shards_put)
  from Cons.IH [OF this] Cons.prems obtain q' where
    q': "import_groups (map Group_ExportState gs) ?q = (Ret (), q')"
    "\<forall>k. map_option abs_group (GetGroup q' k) = (case find (\<lambda>g. c_Key (g_cfg g) = k) gs of
          Some g \<Rightarrow> Some (abs_group g) | None \<Rightarrow> map_option abs_group (GetGroup ?q k))"
    by auto
  have "find (\<lambda>h. c_Key (g_cfg h) = c_Key (g_cfg g)) gs = None"
    using Cons.prems(5) by (simp add: find_None_iff image_iff) metis
  then show ?case using q' g' by (auto simp: groups.look_upd [OF Cons.prems(1)] split: option.splits)
qed

lemma find_by_key:
  assumes "\<And>g. g \<in> set gs \<longleftrightarrow> look (c_Key (g_cfg g)) = Some g" and "\<And>k g. look k = Some g \<Longrightarrow> c_Key (g_cfg g) = k"
  shows "find (\<lambda>g. c_Key (g_cfg g) = k) gs = look k"
proof (cases "look k")
  case None
  then show ?thesis using assms(1) by (auto simp: find_None_iff)
next
  case (Some g)
  then have "g \<in> set gs" "c_Key (g_cfg g) = k" using assms by auto
  then obtain g1 where g1: "find (\<lambda>g. c_Key (g_cfg g) = k) gs = Some g1"
    by (cases "find (\<lambda>g. c_Key (g_cfg g) = k) gs") (auto simp: find_None_iff)
  then have "g1 \<in> set gs" "c_Key (g_cfg g1) = k" by (auto simp: find_Some_iff)
  then show ?thesis using g1 assms(1) Some by simp
qed

text \<open>The exported states, in the order in which they are imported, come from the queue's groups.\<close>

lemma export_list:
  assumes wf: "queue_wf q" and it: "is_range_order it" "is_range_order it2"
  obtains gs where "map snd (it2 (qst_SGroups (Queue_ExportState it q))) = map Group_ExportState gs"
    and "distinct (map (c_Key \<circ> g_cfg) gs)" and "\<forall>g \<in> set gs. group_rep g"
    and "\<And>k. find (\<lambda>g. c_Key (g_cfg g) = k) gs = GetGroup q k"
    and "sort (map (c_Key \<circ> g_cfg) gs) = idx_keys (q_keyIdx q)"
proof -
  let ?m = "qst_SGroups (Queue_ExportState it q)"
  have inv: "\<And>k g. GetGroup q k = Some g \<Longrightarrow> grp_inv k g"
    and idx: "idx_wf (q_keyIdx q)" "set (idx_keys (q_keyIdx q)) = {k. GetGroup q k \<noteq> None}"
    using wf by (simp_all add: queue_wf_def)
  have gm: "gm_wf ?m" and get: "gm_get ?m k = map_option Group_ExportState (GetGroup q k)" for k
    using export_groups [OF wf it(1), of k] by simp_all
  have m: "gm_wf (it2 ?m)" "set (it2 ?m) = {(k, st). map_option Group_ExportState (GetGroup q k) = Some st}"
    unfolding range_order_set [OF it(2)] gm_set_eq [OF gm] get using range_order_wf [OF it(2) gm] by simp_all
  define gs where "gs = map (\<lambda>e. the (GetGroup q (fst e))) (it2 ?m)"
  have grp: "GetGroup q k = Some (the (GetGroup q k)) \<and> c_Key (g_cfg (the (GetGroup q k))) = k
      \<and> st = Group_ExportState (the (GetGroup q k))" if "(k, st) \<in> set (it2 ?m)" for k st
    using that inv by (auto simp: m grp_inv_def)
  have states: "map snd (it2 ?m) = map Group_ExportState gs" using grp by (auto simp: gs_def)
  have keys: "map (c_Key \<circ> g_cfg) gs = map fst (it2 ?m)" using grp by (auto simp: gs_def)
  have sets: "g \<in> set gs \<longleftrightarrow> GetGroup q (c_Key (g_cfg g)) = Some g" for g
  proof
    assume "g \<in> set gs"
    then obtain k st where "(k, st) \<in> set (it2 ?m)" "g = the (GetGroup q k)" by (auto simp: gs_def)
    then show "GetGroup q (c_Key (g_cfg g)) = Some g" using grp by simp
  next
    assume g: "GetGroup q (c_Key (g_cfg g)) = Some g"
    then have "(c_Key (g_cfg g), Group_ExportState g) \<in> set (it2 ?m)" by (simp add: m)
    then show "g \<in> set gs" unfolding gs_def set_map by (rule image_eqI [rotated]) (simp add: g)
  qed
  have fnd: "find (\<lambda>g. c_Key (g_cfg g) = k) gs = GetGroup q k" for k
    by (rule find_by_key [OF sets]) (use inv in \<open>simp add: grp_inv_def\<close>)
  have "sort (map fst (it2 ?m)) = idx_keys (q_keyIdx q)"
    using m idx_wf_sorted [OF idx(1)] idx(2) by (intro sorted_distinct_set_unique) (force simp: image_iff)+
  moreover have "\<forall>g \<in> set gs. group_rep g" using sets inv grp_inv_rep by blast
  ultimately show ?thesis using that states keys m(1) fnd by metis
qed

text \<open>
  [C27] Queue round trip.  Exporting a well-formed queue and importing the result into a new queue
  with the same declared configurations restores every group: the same queues in the same order,
  the same delayed messages and the same leases, no further group, and the same key index.  Neither
  order of visiting the maps matters.
\<close>

theorem queue_export_import:
  assumes wf: "queue_wf q" and it: "is_range_order it" "is_range_order it2"
  shows "\<exists>q'. Queue_ImportState it2 (Queue_ExportState it q) ((NewQueue n ns)\<lparr>q_cfgIdx := q_cfgIdx q\<rparr>) = (Ret (), q')
    \<and> (\<forall>k. map_option abs_group (GetGroup q' k) = map_option abs_group (GetGroup q k))
    \<and> idx_keys (q_keyIdx q') = idx_keys (q_keyIdx q)"
proof -
  let ?q0 = "(NewQueue n ns)\<lparr>q_cfgIdx := q_cfgIdx q\<rparr>"
  obtain gs where gs: "map snd (it2 (qst_SGroups (Queue_ExportState it q))) = map Group_ExportState gs"
    "distinct (map (c_Key \<circ> g_cfg) gs)" "\<forall>g \<in> set gs. group_rep g"
    "\<And>k. find (\<lambda>g. c_Key (g_cfg g) = k) gs = GetGroup q k"
    "sort (map (c_Key \<circ> g_cfg) gs) = idx_keys (q_keyIdx q)"
    using export_list [OF assms] by metis
  have "queue_wf ?q0" by (intro queue_wf_cfgIdx NewQueue_wf) (use wf in \<open>simp_all add: queue_wf_def\<close>)
  then have q0: "shards_wf ?q0" "ci_wf (q_cfgIdx ?q0)" "cfgs_ok (q_cfgIdx ?q0)" by (simp_all add: queue_wf_def)
  obtain q1 where q1: "import_groups (map Group_ExportState gs) ?q0 = (Ret (), q1)"
    "\<And>k. map_option abs_group (GetGroup q1 k) = (case find (\<lambda>g. c_Key (g_cfg g) = k) gs of
          Some g \<Rightarrow> Some (abs_group g) | None \<Rightarrow> map_option abs_group (GetGroup ?q0 k))"
    using import_groups_ok [OF q0 gs(3,2)] by blast
  have "GetGroup ?q0 k = None" for k using shardIdx_less [of k] by (simp add: GetGroup_def NewQueue_def)
  then have "map_option abs_group (GetGroup q1 k) = map_option abs_group (GetGroup q k)" for k
    using q1(2) [of k] by (simp add: gs(4) split: option.splits)
  moreover have "gs_Key \<circ> Group_ExportState = c_Key \<circ> g_cfg"
    by (simp add: Group_ExportState_def comp_def)
  ultimately show ?thesis using q1(1) gs(1,5) by (simp add: Queue_ImportState_def Let_def)
qed

theorem queue_export_import_witness:
  "\<exists>q'. Queue_ImportState rev (Queue_ExportState rev (single ''k'' demo_waiting))
        ((NewQueue ''q'' ''ns'')\<lparr>q_cfgIdx := q_cfgIdx (single ''k'' demo_waiting)\<rparr>) = (Ret (), q')
     \<and> map_option abs_group (GetGroup q' ''k'') = Some (abs_group demo_waiting)"
  using queue_export_import [OF single_wf [OF demo_waiting_inv] is_range_order_rev is_range_order_rev, of "''q''" "''ns''"]
    single_get [of "''k''" demo_waiting "''k''"] by (metis option.map(2))

section \<open>Corner cases\<close>

text \<open>
  The recovery operations clear slots of the urgent queue in place, so the next dispatch of that
  group dereferences \<open>nil\<close>; and a cleared slot still counts as pending.
\<close>

lemma RemoveMessage_then_dispatch_panics:
  "let q = single ''k'' (demo_group\<lparr>g_urgent := [Some (demo_msg ''a''), Some (demo_msg ''b'')]\<rparr>);
       q = snd (RemoveMessage ''k'' ''a'' q)
   in map_option pendingCount (GetGroup q ''k'') = Some 2
      \<and> fst (TryDispatchOne rev ''k'' 7 q) = Panic ''nil pointer dereference''"
  by code_simp

text \<open>
  Declaring a configuration without a parallelism for a group that is already active stores the
  zero, which \<open>newGroup\<close> would have replaced: nothing of the group is ever dispatched again.
\<close>

lemma zero_parallelism_blocks:
  "let q = SetGroupConfig ((defaultGroupConfig ''k'')\<lparr>c_Parallelism := 0\<rparr>)
         (single ''k'' (demo_group\<lparr>g_ready := [Some (demo_msg ''a'')]\<rparr>))
   in fst (TryDispatchOne rev ''k'' 7 q) = Ret None"
  by code_simp

end
