(* ===== verification/Scheduler_Props.thy ===== *)
theory Scheduler_Props
  imports Scheduler Queue_Props
begin

text \<open>
  What the scheduler promises: a group is queued for a worker at most once, exactly while its flag is
  set; every wake time stored in a group has its timer in the wheel; an activation loses no message;
  and after a round whose messages were all accepted the group is queued again or has a timer unless
  it has nothing to hand out or is at its parallelism.
\<close>

section \<open>Operations that leave the scheduling fields alone\<close>

definition tok :: "group \<Rightarrow> 32 word \<times> int" where
  "tok g = (g_isScheduled g, g_wakeScheduledAt g)"

lemma promoteLoop_tok: "promoteLoop now g wake = (g', w) \<Longrightarrow> tok g' = tok g"
proof (induction now g wake rule: promoteLoop.induct)
  case (1 now g wake)
  from "1.prems" "1.IH" show ?case
    unfolding promoteLoop.simps [of now g wake]
    by (auto simp: tok_def split: list.splits if_splits option.splits prod.splits)
qed

lemma expire_fold_tok: "fold (expireLease now) es (g, w) = (g', w') \<Longrightarrow> tok g' = tok g"
proof (induction es arbitrary: g w)
  case (Cons e es)
  obtain i m where e: "e = (i, m)" by fastforce
  show ?case
  proof (cases "now > m_ScheduledAt m")
    case True
    with Cons e show ?thesis by (fastforce simp: tok_def)
  next
    case False
    with Cons e show ?thesis by auto
  qed
qed simp

lemma promoteDelayed_tok: "promoteDelayed it now g = (g', w) \<Longrightarrow> tok g' = tok g"
  by (auto simp: promoteDelayed_def split: prod.splits dest!: promoteLoop_tok expire_fold_tok)

lemma nextDispatchable_tok: "nextDispatchable now g = (r, g') \<Longrightarrow> tok g' = tok g"
  by (auto simp: nextDispatchable_def takeNext_def start_processing_def Let_def tok_def
      split: if_splits option.splits prod.splits outcome.splits)

lemma drainLoop_tok: "drainLoop now g batch = (r, g') \<Longrightarrow> tok g' = tok g"
proof (induction now g batch rule: drainLoop.induct)
  case (1 now g batch)
  obtain x g1 where n: "nextDispatchable now g = (x, g1)" by fastforce
  have t: "tok (g1\<lparr>g_deficit := d\<rparr>) = tok g" for d using nextDispatchable_tok [OF n] by (simp add: tok_def)
  show ?case
  proof (cases "g_deficit g > 0 \<and> (\<exists>m y. x = Ret (Some m, y))")
    case True
    then obtain m y where "x = Ret (Some m, y)" "g_deficit g > 0" by blast
    with 1 n t show ?thesis by (cases y) (simp add: drainLoop.simps [of now g])
  next
    case False
    with 1(2) n nextDispatchable_tok [OF n] show ?thesis
      by (subst (asm) drainLoop.simps) (auto split: if_splits outcome.splits option.splits prod.splits)
  qed
qed

lemma drainRound_tok: "drainRound it now g = (r, g') \<Longrightarrow> tok g' = tok g"
proof -
  assume d: "drainRound it now g = (r, g')"
  obtain g1 w where p: "promoteDelayed it now g = (g1, w)" by fastforce
  let ?g = "if g_quantum g1 \<le> 0 then g1\<lparr>g_quantum := 1\<rparr> else g1"
  obtain x g2 where l: "drainLoop now (?g\<lparr>g_deficit := g_deficit ?g + g_quantum ?g\<rparr>) [] = (x, g2)" by fastforce
  have "tok (?g\<lparr>g_deficit := g_deficit ?g + g_quantum ?g\<rparr>) = tok g1" by (simp add: tok_def)
  with drainLoop_tok [OF l] have t: "tok g2 = tok g1" by simp
  have "g' = g1 \<or> g' = g2" using d p l
    by (auto simp: drainRound_def Let_def split: if_splits outcome.splits prod.splits drain_end.splits)
  then show ?thesis using t promoteDelayed_tok [OF p] by auto
qed

lemma return_tok: "tok (snd (returnToPending i g)) = tok g"
  by (simp add: returnToPending_def tok_def split: option.splits)

section \<open>What a round leaves behind\<close>

lemma pendingCount_empty: "group_rep g \<Longrightarrow> pendingCount g = 0 \<Longrightarrow> urgentQ g = [] \<and> readyQ g = []"
  by (simp add: pendingCount_def group_rep_def urgentQ_def readyQ_def live_slots_def map_filter_simps)

definition idle :: "group \<Rightarrow> bool" where
  "idle g = (urgentQ g = [] \<and> readyQ g = [] \<or> int (length (g_processing g)) \<ge> c_Parallelism (g_cfg g))"

lemma nextDispatchable_stop:
  assumes "nextDispatchable now g = (Ret (None, stop, w), g')"
  shows "stop = dispatchStopEmpty \<Longrightarrow> g_urgent g' = [] \<and> g_ready g' = []"
    and "stop = dispatchStopCapacity \<Longrightarrow> idle g'"
  using assms by (auto simp: nextDispatchable_def takeNext_def start_processing_def Let_def idle_def
      split: if_splits option.splits prod.splits outcome.splits)

lemma drainLoop_stop:
  assumes "drainLoop now g batch = (Ret (b, stop), g')"
  shows "(\<exists>w. stop = DrainEmpty w) \<or> stop = DrainCapacity \<Longrightarrow> idle g'"
  using assms
proof (induction now g batch rule: drainLoop.induct)
  case (1 now g batch)
  obtain x g1 where n: "nextDispatchable now g = (x, g1)" by fastforce
  have pos: "g_deficit g > 0" using "1.prems" by (auto simp: drainLoop.simps [of now g] split: if_splits)
  show ?case
  proof (cases "\<exists>m y. x = Ret (Some m, y)")
    case True
    then obtain m y where "x = Ret (Some m, y)" by blast
    with 1 n pos show ?thesis by (cases y) (simp add: drainLoop.simps [of now g])
  next
    case False
    then obtain st w where x: "x = Ret (None, st, w)"
      using "1.prems"(2) n pos by (auto simp: drainLoop.simps [of now g] split: outcome.splits)
    have "idle g1" if "st = dispatchStopEmpty"
      using nextDispatchable_stop(1) [of now g st w g1] n x that
      by (simp add: idle_def urgentQ_def readyQ_def live_slots_def map_filter_simps)
    then show ?thesis using 1(2,3) n x pos nextDispatchable_stop(2) [of now g st w g1]
      by (auto simp: drainLoop.simps [of now g] split: dispatchStopReason.splits)
  qed
qed

lemma drainRound_idle:
  assumes wf: "group_wf g" "0 \<le> g_deficit g" "is_range_order it"
    and d: "drainRound it now g = (Ret (b, w, False, False), g')"
  shows "idle g'"
proof -
  have rep: "group_rep g'" using drainRound_pres [OF wf d] by (simp add: group_wf_def)
  obtain g1 w1 where p: "promoteDelayed it now g = (g1, w1)" by fastforce
  let ?g = "if g_quantum g1 \<le> 0 then g1\<lparr>g_quantum := 1\<rparr> else g1"
  obtain x g2 where l: "drainLoop now (?g\<lparr>g_deficit := g_deficit ?g + g_quantum ?g\<rparr>) [] = (x, g2)" by fastforce
  show ?thesis
  proof (cases "pendingCount g1 = 0")
    case True
    then have "g' = g1" using d p by (simp add: drainRound_def)
    with True rep show ?thesis using pendingCount_empty by (simp add: idle_def)
  next
    case False
    obtain y where x: "x = Ret y" using d p l False by (cases x) (auto simp: drainRound_def Let_def)
    obtain ready stop where y: "y = (ready, stop)" by fastforce
    have g': "g' = g2" using d p l x y False
      by (auto simp: drainRound_def Let_def split: if_splits drain_end.splits)
    show ?thesis
    proof (cases "(\<exists>w. stop = DrainEmpty w) \<or> stop = DrainCapacity")
      case True
      with drainLoop_stop l x y g' show ?thesis by blast
    next
      case False
      then have "\<not> pendingCount g2 > 0" using d p l x y \<open>pendingCount g1 \<noteq> 0\<close>
        by (auto simp: drainRound_def Let_def split: if_splits drain_end.splits)
      moreover have "0 \<le> pendingCount g2" using rep by (simp add: g' group_rep_def pendingCount_def)
      ultimately show ?thesis using pendingCount_empty [OF rep] by (simp add: g' idle_def)
    qed
  qed
qed

section \<open>Queues seen through their groups\<close>

text \<open>Operations that keep all messages and the scheduling fields of every group.\<close>

definition steady :: "Queue \<Rightarrow> Queue \<Rightarrow> bool" where
  "steady q q' = (queue_wf q' \<and> q_Name q' = q_Name q \<and> q_Namespace q' = q_Namespace q
     \<and> (\<forall>k. map_option (\<lambda>g. (tok g, live_ids g)) (GetGroup q' k) = map_option (\<lambda>g. (tok g, live_ids g)) (GetGroup q k)))"

lemma steady_refl: "queue_wf q \<Longrightarrow> steady q q"
  by (simp add: steady_def)

lemma steady_trans: "steady q q' \<Longrightarrow> steady q' q'' \<Longrightarrow> steady q q''"
  by (simp add: steady_def)

lemma modify_names [simp]:
  "q_Name (groups.modify k f q) = q_Name q" "q_Namespace (groups.modify k f q) = q_Namespace q"
  by (simp_all add: groups.modify_def split: option.split)

lemma steady_modify:
  assumes "queue_wf q" and "shrinks f"
    and "\<And>g. grp_inv k g \<Longrightarrow> tok (f g) = tok g \<and> live_ids (f g) = live_ids g"
  shows "steady q (groups.modify k f q)"
proof -
  have sh: "shards_wf q" using assms(1) by (simp add: queue_wf_def)
  have "\<And>g. GetGroup q k = Some g \<Longrightarrow> grp_inv k g" using assms(1) by (simp add: queue_wf_def)
  then show ?thesis using modify_wf [OF assms(1,2)] assms(3) groups.look_modify [OF sh]
    by (auto simp: steady_def option.map_comp comp_def intro!: option.map_cong)
qed

lemma ReturnToPending_steady: "queue_wf q \<Longrightarrow> steady q (ReturnToPending k i q)"
  unfolding ReturnToPending_eq
proof (rule steady_modify [OF _ shrinks_return])
  fix g assume "grp_inv k g"
  then have r: "group_rep g" by (rule grp_inv_rep)
  show "tok (snd (returnToPending i g)) = tok g \<and> live_ids (snd (returnToPending i g)) = live_ids g"
    using to_urgent_pres [OF r] return_tok by (simp add: returnToPending_eq split: option.split)
qed

lemma returns_steady: "queue_wf q \<Longrightarrow> steady q (fold (\<lambda>m. ReturnToPending key (m_ID m)) ms q)"
proof (induction ms arbitrary: q)
  case (Cons m ms)
  note s = ReturnToPending_steady [OF Cons.prems, of key "m_ID m"]
  then show ?case using Cons.IH steady_trans [OF s] by (simp add: steady_def)
qed (simp add: steady_refl)

lemma deliver_steady:
  assumes "queue_wf q" and "deliver dispatch k ms q b = (d, q', b')"
  shows "steady q q'"
  using assms
proof (induction dispatch k ms q b rule: deliver.induct)
  case (1 dispatch key q b)
  then show ?case by (simp add: steady_refl)
next
  case (2 dispatch key msg ms q b)
  then show ?case using returns_steady [OF 2(2), of key "msg # ms"] by (auto split: prod.splits bool.splits)
qed

lemma DrainGroup_steady:
  assumes "queue_wf q" and "is_range_order it"
  obtains r q' where "DrainGroup it k now q = (Ret r, q')" and "steady q q'"
proof -
  obtain r where r: "DrainGroup it k now q = (Ret r, groups.modify k (\<lambda>g. snd (drainRound it now g)) q)"
    by (rule DrainGroup_eq [OF assms])
  moreover have "steady q (groups.modify k (\<lambda>g. snd (drainRound it now g)) q)"
  proof (rule steady_modify [OF assms(1) shrinks_drain [OF assms(2)]])
    fix g assume g: "grp_inv k g"
    obtain x g' where d: "drainRound it now g = (x, g')" by fastforce
    then show "tok (snd (drainRound it now g)) = tok g \<and> live_ids (snd (drainRound it now g)) = live_ids g"
      using drainRound_pres [OF _ _ assms(2) d] drainRound_tok [OF d] g by (simp add: grp_inv_def)
  qed
  ultimately show thesis using that by blast
qed

section \<open>The invariant\<close>

definition aid :: "groupActivation \<Rightarrow> qref \<times> string" where
  "aid a = (a_q a, a_groupKey a)"

text \<open>The flag and the wake time of a group, zero where there is no group.\<close>

definition flag :: "Scheduler \<Rightarrow> qref \<Rightarrow> string \<Rightarrow> bool" where
  "flag s r k = (case GetGroup (s_heap s r) k of None \<Rightarrow> False | Some g \<Rightarrow> g_isScheduled g \<noteq> 0)"

definition wake_of :: "Scheduler \<Rightarrow> qref \<Rightarrow> string \<Rightarrow> int" where
  "wake_of s r k = (case GetGroup (s_heap s r) k of None \<Rightarrow> 0 | Some g \<Rightarrow> g_wakeScheduledAt g)"

abbreviation wakeup_of :: "Scheduler \<Rightarrow> qref \<Rightarrow> string \<Rightarrow> wakeup" where
  "wakeup_of s r k \<equiv> \<lparr>wk_q = r, wk_groupKey = k, wk_wakeNs = wake_of s r k\<rparr>"

definition timers :: "Scheduler \<Rightarrow> wakeup multiset" where
  "timers s = image_mset callback (tasks (s_wheel s))"

text \<open>\<open>T\<close>: the timers that will still run.\<close>

definition sched_inv :: "wakeup multiset \<Rightarrow> Scheduler \<Rightarrow> bool" where
  "sched_inv T s = ((\<forall>r. queue_wf (s_heap s r)) \<and> wheel_wf 10000000 65536 (s_wheel s)
     \<and> (\<forall>r k. count_list (map aid (s_active s)) (r, k) = (if flag s r k then 1 else 0))
     \<and> (\<forall>r k. wake_of s r k \<noteq> 0 \<longrightarrow> wakeup_of s r k \<in># T))"

lemma on_token_frame [simp]:
  "s_active (on_token r k f s) = s_active s" "s_wheel (on_token r k f s) = s_wheel s"
  by (simp_all add: on_token_def put_queue_def split: option.split)

lemma on_token_heap: "s_heap (on_token r k f s) = (s_heap s)(r := groups.modify k f (s_heap s r))"
  by (auto simp: on_token_def put_queue_def groups.modify_def fun_eq_iff split: option.split)

lemma flag_on_token:
  assumes "queue_wf (s_heap s r)"
  shows "flag (on_token r k f s) r' k' =
    (if r' = r \<and> k' = k then (case GetGroup (s_heap s r) k of None \<Rightarrow> False | Some g \<Rightarrow> g_isScheduled (f g) \<noteq> 0) else flag s r' k')"
  and "wake_of (on_token r k f s) r' k' =
    (if r' = r \<and> k' = k then (case GetGroup (s_heap s r) k of None \<Rightarrow> 0 | Some g \<Rightarrow> g_wakeScheduledAt (f g)) else wake_of s r' k')"
  using groups.look_modify [of "s_heap s r" k f k'] assms
  by (auto simp: flag_def wake_of_def on_token_heap queue_wf_def split: option.split)

lemma flag_Some:
  "GetGroup (s_heap s r) k = Some g \<Longrightarrow> flag s r k = (g_isScheduled g \<noteq> 0)"
  "GetGroup (s_heap s r) k = Some g \<Longrightarrow> wake_of s r k = g_wakeScheduledAt g"
  by (simp_all add: flag_def wake_of_def)

lemma flag_None:
  "GetGroup (s_heap s r) k = None \<Longrightarrow> flag s r k = False" "GetGroup (s_heap s r) k = None \<Longrightarrow> wake_of s r k = 0"
  by (simp_all add: flag_def wake_of_def)

text \<open>How a change of the token shows, when it changes the flag and the wake time by \<open>u\<close> and \<open>v\<close>.\<close>

lemma on_token_view:
  assumes "queue_wf (s_heap s r)" and "\<And>g. g_isScheduled (f g) \<noteq> 0 \<longleftrightarrow> u (g_isScheduled g \<noteq> 0)"
    and "\<And>g. g_wakeScheduledAt (f g) = v (g_wakeScheduledAt g)"
  shows "flag (on_token r k f s) r' k' =
      (if r' = r \<and> k' = k \<and> GetGroup (s_heap s r) k \<noteq> None then u (flag s r k) else flag s r' k')"
    and "wake_of (on_token r k f s) r' k' =
      (if r' = r \<and> k' = k \<and> GetGroup (s_heap s r) k \<noteq> None then v (wake_of s r k) else wake_of s r' k')"
  using flag_on_token [OF assms(1), of k f r' k'] assms(2,3) flag_Some [of s r k] flag_None [of s r k]
  by (cases "GetGroup (s_heap s r) k"; simp)+

lemma on_token_exists:
  "queue_wf (s_heap s r) \<Longrightarrow> (GetGroup (s_heap (on_token r k f s) r') k' = None) = (GetGroup (s_heap s r') k' = None)"
  using groups.look_modify [of "s_heap s r" k f k'] by (simp add: on_token_heap queue_wf_def)

lemma view_try:
  assumes "queue_wf (s_heap s r)"
  shows "flag (on_token r k (\<lambda>g. snd (TrySchedule g)) s) r' k' =
      (if r' = r \<and> k' = k \<and> GetGroup (s_heap s r) k \<noteq> None then True else flag s r' k')"
    and "wake_of (on_token r k (\<lambda>g. snd (TrySchedule g)) s) r' k' = wake_of s r' k'"
  using on_token_view [OF assms, of "\<lambda>g. snd (TrySchedule g)" "\<lambda>_. True" "\<lambda>w. w" k r' k']
  by (simp_all add: TrySchedule_def)

lemma view_un:
  assumes "queue_wf (s_heap s r)"
  shows "flag (on_token r k Unschedule s) r' k' = (if r' = r \<and> k' = k then False else flag s r' k')"
    and "wake_of (on_token r k Unschedule s) r' k' = wake_of s r' k'"
  using on_token_view [OF assms, of Unschedule "\<lambda>_. False" "\<lambda>w. w" k r' k']
  by (auto simp: Unschedule_def flag_None)

lemma view_clear:
  assumes "queue_wf (s_heap s r)"
  shows "flag (on_token r k (ClearWake n) s) r' k' = flag s r' k'"
    and "wake_of (on_token r k (ClearWake n) s) r' k' =
      (if r' = r \<and> k' = k \<and> wake_of s r k = n then 0 else wake_of s r' k')"
  using on_token_view [OF assms, of "ClearWake n" "\<lambda>x. x" "\<lambda>w. if w = n then 0 else w" k r' k']
  by (auto simp: ClearWake_def flag_None)

lemma view_set:
  assumes "queue_wf (s_heap s r)" and "GetGroup (s_heap s r) k \<noteq> None"
  shows "flag (on_token r k (\<lambda>g. snd (TrySetWake (wake_of s r k) n g)) s) r' k' = flag s r' k'"
    and "wake_of (on_token r k (\<lambda>g. snd (TrySetWake (wake_of s r k) n g)) s) r' k' =
      (if r' = r \<and> k' = k then n else wake_of s r' k')"
  using on_token_view [OF assms(1), of "\<lambda>g. snd (TrySetWake (wake_of s r k) n g)" "\<lambda>x. x"
      "\<lambda>w. if w = wake_of s r k then n else w" k r' k'] assms(2)
  by (auto simp: TrySetWake_def)

lemma tok_fields:
  "group_wf (g\<lparr>g_isScheduled := x\<rparr>) = group_wf g" "group_wf (g\<lparr>g_wakeScheduledAt := y\<rparr>) = group_wf g"
  "live_ids (g\<lparr>g_isScheduled := x\<rparr>) = live_ids g" "live_ids (g\<lparr>g_wakeScheduledAt := y\<rparr>) = live_ids g"
  by (simp_all add: group_wf_def group_rep_def live_ids_def urgentQ_def readyQ_def)

lemma shrinks_tokens:
  "shrinks Unschedule" "shrinks (\<lambda>g. snd (TrySchedule g))" "shrinks (\<lambda>g. snd (TrySetWake c n g))" "shrinks (ClearWake n)"
  by (simp_all add: shrinks_def Unschedule_def TrySchedule_def TrySetWake_def ClearWake_def grp_inv_def tok_fields)

lemma on_token_wf: "\<forall>r. queue_wf (s_heap s r) \<Longrightarrow> shrinks f \<Longrightarrow> \<forall>r. queue_wf (s_heap (on_token r' k f s) r)"
  by (simp add: on_token_heap modify_wf)

lemma flag_active [simp]:
  "flag (s\<lparr>s_active := x\<rparr>) = flag s" "flag (s\<lparr>s_activationsTotal := n\<rparr>) = flag s" "flag (s\<lparr>s_wheel := tw\<rparr>) = flag s"
  "wake_of (s\<lparr>s_active := x\<rparr>) = wake_of s" "wake_of (s\<lparr>s_activationsTotal := n\<rparr>) = wake_of s"
  "wake_of (s\<lparr>s_wheel := tw\<rparr>) = wake_of s"
  by (simp_all add: fun_eq_iff flag_def wake_of_def)

lemma Activate_cases:
  assumes "queue_wf (s_heap s r)"
  obtains (same) "Activate now r k s = s" "k = [] \<or> flag s r k \<or> GetGroup (s_heap s r) k = None"
  | (push) "Activate now r k s = (on_token r k (\<lambda>g. snd (TrySchedule g)) s)\<lparr>s_activationsTotal := s_activationsTotal s + 1,
        s_active := s_active s @ [\<lparr>a_q = r, a_groupKey = k, a_enqueuedAt = now\<rparr>]\<rparr>"
      "\<not> flag s r k" "GetGroup (s_heap s r) k \<noteq> None" "k \<noteq> []"
  | (full) "Activate now r k s = on_token r k Unschedule ((on_token r k (\<lambda>g. snd (TrySchedule g)) s)\<lparr>s_activationsTotal := s_activationsTotal s + 1\<rparr>)"
      "\<not> flag s r k" "activeCap \<le> length (s_active s)"
proof (cases "k = [] \<or> flag s r k \<or> GetGroup (s_heap s r) k = None")
  case True
  then show thesis using same by (auto simp: Activate_def flag_def TrySchedule_def split: option.splits if_splits)
next
  case False
  then obtain g where g: "GetGroup (s_heap s r) k = Some g" "g_isScheduled g = 0" "k \<noteq> []" "\<not> flag s r k"
    by (auto simp: flag_def)
  have t: "s_activationsTotal (on_token r k f s) = s_activationsTotal s" for f
    by (simp add: on_token_def put_queue_def split: option.split)
  show thesis
  proof (cases "length (s_active s) < activeCap")
    case True
    then show thesis using push g t by (simp add: Activate_def TrySchedule_def Let_def)
  next
    case False
    then show thesis using full g t by (simp add: Activate_def TrySchedule_def Let_def)
  qed
qed

lemma Activate_inv:
  assumes I: "sched_inv T s"
  shows "sched_inv T (Activate now r k s)"
proof -
  have wf: "\<forall>r. queue_wf (s_heap s r)" using I by (simp add: sched_inv_def)
  note F = view_try [OF wf [THEN spec, of r]]
  from wf [THEN spec, of r] show ?thesis
  proof (cases rule: Activate_cases [where now = now and k = k])
    case same
    with I show ?thesis by simp
  next
    case push
    let ?s = "on_token r k (\<lambda>g. snd (TrySchedule g)) s"
    have "flag ?s r' k' = (if r' = r \<and> k' = k then True else flag s r' k')" for r' k'
      using push(3) by (auto simp: F)
    moreover have "wake_of ?s r' k' = wake_of s r' k'" for r' k' by (simp add: F)
    moreover have "\<forall>r. queue_wf (s_heap ?s r)" using on_token_wf [OF wf shrinks_tokens(2)] .
    ultimately show ?thesis using I push(2) by (auto simp: sched_inv_def push(1) aid_def)
  next
    case full
    let ?s1 = "on_token r k (\<lambda>g. snd (TrySchedule g)) s"
    let ?s2 = "?s1\<lparr>s_activationsTotal := s_activationsTotal s + 1\<rparr>"
    have wf1: "\<forall>r. queue_wf (s_heap ?s1 r)" using on_token_wf [OF wf shrinks_tokens(2)] .
    then have wf2: "\<forall>r. queue_wf (s_heap ?s2 r)" by simp
    note F2 = view_un [OF wf2 [THEN spec, of r]]
    have "flag (on_token r k Unschedule ?s2) r' k' = flag s r' k'" for r' k'
      using full(2) by (auto simp: F2 F)
    moreover have "wake_of (on_token r k Unschedule ?s2) r' k' = wake_of s r' k'" for r' k'
      by (simp add: F2 F)
    moreover have "\<forall>r. queue_wf (s_heap (on_token r' k Unschedule ?s2) r)" for r' using on_token_wf [OF wf2 shrinks_tokens(1)] .
    ultimately show ?thesis using I by (simp add: sched_inv_def full(1))
  qed
qed

lemma Activate_wheel [simp]: "s_wheel (Activate now r k s) = s_wheel s"
  by (simp add: Activate_def Let_def split: option.split)

lemma Activate_live:
  "map_option live_ids (GetGroup (s_heap (Activate now r k s) r') k') = map_option live_ids (GetGroup (s_heap s r') k')"
  if "queue_wf (s_heap s r)"
proof -
  have u: "live_ids (Unschedule g) = live_ids g" "live_ids (snd (TrySchedule g)) = live_ids g" for g
    by (simp_all add: Unschedule_def TrySchedule_def tok_fields)
  have m: "map_option live_ids (GetGroup (s_heap (on_token r k f s) r') k') = map_option live_ids (GetGroup (s_heap s r') k')"
    if "queue_wf (s_heap s r)" "\<And>g. live_ids (f g) = live_ids g" for f s
    using groups.look_modify [of "s_heap s r" k f k'] that by (auto simp: on_token_heap queue_wf_def option.map_comp comp_def)
  have w: "queue_wf (s_heap (on_token r k (\<lambda>g. snd (TrySchedule g)) s) r)"
    using modify_wf [OF that shrinks_tokens(2)] by (simp add: on_token_heap)
  from that show ?thesis
    by (cases rule: Activate_cases [where now = now and k = k]) (simp_all add: m [OF that] m u w)
qed

lemma wake_group_inv:
  assumes I: "sched_inv (add_mset w T) s"
  shows "sched_inv T (wake_group now w s)"
proof -
  let ?s = "on_token (wk_q w) (wk_groupKey w) (ClearWake (wk_wakeNs w)) s"
  have wf: "\<forall>r. queue_wf (s_heap s r)" using I by (simp add: sched_inv_def)
  note F = view_clear [OF wf [THEN spec, of "wk_q w"]]
  have "wakeup_of ?s r k \<in># T" if "wake_of ?s r k \<noteq> 0" for r k
  proof -
    have e: "wake_of ?s r k = wake_of s r k" and n: "\<not> (r = wk_q w \<and> k = wk_groupKey w \<and> wake_of s r k = wk_wakeNs w)"
      using that by (auto simp: F split: if_splits)
    from n have "wakeup_of s r k \<noteq> w" by auto
    moreover have "wakeup_of s r k \<in># add_mset w T" using I that e by (simp add: sched_inv_def)
    ultimately show ?thesis using e by simp
  qed
  then have "sched_inv T ?s"
    using I on_token_wf [OF wf shrinks_tokens(4)] by (simp add: sched_inv_def F(1))
  then show ?thesis unfolding wake_group_def by (rule Activate_inv)
qed

lemma wakes_inv: "sched_inv (mset ws + T) s \<Longrightarrow> sched_inv T (fold (wake_group now) ws s)"
  by (induction ws arbitrary: s) (auto intro: wake_group_inv)

lemma wakes_wheel: "s_wheel (fold (wake_group now) ws s) = s_wheel s"
  by (induction ws arbitrary: s) (auto simp: wake_group_def)

lemma sched_inv_wheel:
  "sched_inv T s \<Longrightarrow> wheel_wf 10000000 65536 tw \<Longrightarrow> T \<subseteq># T' \<Longrightarrow> sched_inv T' (s\<lparr>s_wheel := tw\<rparr>)"
  unfolding sched_inv_def by (simp, metis mset_subset_eqD)

lemma wheel_turn_inv:
  assumes I: "sched_inv (timers s) s"
  shows "sched_inv (timers (wheel_turn now s)) (wheel_turn now s)"
proof -
  obtain cbs tw where t: "tick now (s_wheel s) = (cbs, tw)" by fastforce
  note C = tick_contents [OF t, of 10000000 65536]
  have w: "wheel_wf 10000000 65536 (s_wheel s)" using I by (simp add: sched_inv_def)
  have "timers s = mset cbs + image_mset callback (tasks tw)" using C(2,3) [OF w] by (simp add: timers_def)
  with I have "sched_inv (mset cbs + image_mset callback (tasks tw)) (s\<lparr>s_wheel := tw\<rparr>)"
    using C(1) [OF w] by (auto intro: sched_inv_wheel)
  from wakes_inv [OF this, of now] show ?thesis using t by (simp add: wheel_turn_def timers_def wakes_wheel)
qed

lemma scheduleWake_inv:
  assumes I: "sched_inv (timers s) s"
    and s'_def: "s' = scheduleWake rnow now r k wakeAt s"
  shows "sched_inv (timers s') s'"
    and "GetGroup (s_heap s r) k \<noteq> None \<Longrightarrow> \<exists>w \<le> to_i64 wakeAt. \<lparr>wk_q = r, wk_groupKey = k, wk_wakeNs = w\<rparr> \<in># timers s'"
    and "map_option live_ids (GetGroup (s_heap s' r') k') = map_option live_ids (GetGroup (s_heap s r') k')"
    and "s_active s' = s_active s"
proof -
  have wf: "\<forall>r. queue_wf (s_heap s r)" and ww: "wheel_wf 10000000 65536 (s_wheel s)" using I by (simp_all add: sched_inv_def)
  let ?n = "to_i64 wakeAt"
  have R: "sched_inv (timers s') s' \<and> (GetGroup (s_heap s r) k \<noteq> None \<longrightarrow>
      (\<exists>w \<le> ?n. \<lparr>wk_q = r, wk_groupKey = k, wk_wakeNs = w\<rparr> \<in># timers s'))
    \<and> map_option live_ids (GetGroup (s_heap s' r') k') = map_option live_ids (GetGroup (s_heap s r') k')
    \<and> s_active s' = s_active s"
  proof (cases "GetGroup (s_heap s r) k")
    case None
    then show ?thesis using I by (simp add: s'_def scheduleWake_def)
  next
    case (Some g)
    have c: "LoadWake g = wake_of s r k" using flag_Some(2) [of s r k, OF Some] by (simp add: LoadWake_def)
    show ?thesis
    proof (cases "wake_of s r k \<noteq> 0 \<and> wake_of s r k \<le> ?n")
      case True
      then have "s' = s" using Some c by (simp add: s'_def scheduleWake_def Let_def)
      moreover have "wakeup_of s r k \<in># timers s" using I True by (simp add: sched_inv_def)
      ultimately show ?thesis using I True by auto
    next
      case False
      let ?f = "\<lambda>g. snd (TrySetWake (wake_of s r k) ?n g)" and ?w = "\<lparr>wk_q = r, wk_groupKey = k, wk_wakeNs = ?n\<rparr>"
      let ?tw = "tw_Add now (if wakeAt - rnow < 0 then 0 else wakeAt - rnow) ?w (s_wheel s)"
      have s': "s' = (on_token r k ?f s)\<lparr>s_wheel := ?tw\<rparr>"
        using Some c False by (auto simp: s'_def scheduleWake_def Let_def)
      have F: "flag (on_token r k ?f s) r' k' = flag s r' k'"
        "wake_of (on_token r k ?f s) r' k' = (if r' = r \<and> k' = k then ?n else wake_of s r' k')" for r' k'
        using view_set [OF wf [THEN spec, of r]] Some by simp_all
      have T: "timers s' = add_mset ?w (timers s)" "wheel_wf 10000000 65536 ?tw"
        using tw_Add_contents [OF ww] by (simp_all add: s' timers_def)
      have "sched_inv (add_mset ?w (timers s)) ((on_token r k ?f s)\<lparr>s_wheel := ?tw\<rparr>)"
        using I on_token_wf [OF wf shrinks_tokens(3)] T(2) by (auto simp: sched_inv_def F)
      then have "sched_inv (timers s') s'" unfolding T(1) by (simp only: s')
      moreover have "?w \<in># timers s'" by (simp add: T(1))
      moreover have "live_ids (?f g) = live_ids g" for g by (simp add: TrySetWake_def tok_fields)
      then have "map_option live_ids (GetGroup (s_heap s' r') k') = map_option live_ids (GetGroup (s_heap s r') k')"
        using groups.look_modify [of "s_heap s r" k ?f k'] wf
        by (auto simp: s' on_token_heap queue_wf_def option.map_comp comp_def)
      moreover have "s_active s' = s_active s" by (simp add: s')
      ultimately show ?thesis by blast
    qed
  qed
  from R show "sched_inv (timers s') s'" and "s_active s' = s_active s"
    and "map_option live_ids (GetGroup (s_heap s' r') k') = map_option live_ids (GetGroup (s_heap s r') k')"
    and "GetGroup (s_heap s r) k \<noteq> None \<Longrightarrow> \<exists>w \<le> ?n. \<lparr>wk_q = r, wk_groupKey = k, wk_wakeNs = w\<rparr> \<in># timers s'" by blast+
qed

section \<open>One activation\<close>

lemma steady_tok:
  assumes "steady q q'"
  shows "map_option tok (GetGroup q' k) = map_option tok (GetGroup q k)"
    and "map_option live_ids (GetGroup q' k) = map_option live_ids (GetGroup q k)"
proof -
  have "map_option fst (map_option (\<lambda>g. (tok g, live_ids g)) (GetGroup q' k)) =
      map_option fst (map_option (\<lambda>g. (tok g, live_ids g)) (GetGroup q k))"
    "map_option snd (map_option (\<lambda>g. (tok g, live_ids g)) (GetGroup q' k)) =
      map_option snd (map_option (\<lambda>g. (tok g, live_ids g)) (GetGroup q k))"
    using assms by (simp_all add: steady_def)
  then show "map_option tok (GetGroup q' k) = map_option tok (GetGroup q k)"
    and "map_option live_ids (GetGroup q' k) = map_option live_ids (GetGroup q k)"
    by (simp_all add: option.map_comp comp_def)
qed

lemma flag_tok:
  "flag s r k = (case map_option tok (GetGroup (s_heap s r) k) of None \<Rightarrow> False | Some (f, w) \<Rightarrow> f \<noteq> 0)"
  "wake_of s r k = (case map_option tok (GetGroup (s_heap s r) k) of None \<Rightarrow> 0 | Some (f, w) \<Rightarrow> w)"
  by (simp_all add: flag_def wake_of_def tok_def split: option.split)

lemma put_queue_view:
  assumes "map_option tok (GetGroup q k) = map_option tok (GetGroup (s_heap s r) k)"
  shows "flag (put_queue r q s) r' k = flag s r' k" "wake_of (put_queue r q s) r' k = wake_of s r' k"
proof -
  have "map_option tok (GetGroup (s_heap (put_queue r q s) r') k) = map_option tok (GetGroup (s_heap s r') k)"
    using assms by (simp add: put_queue_def)
  then show "flag (put_queue r q s) r' k = flag s r' k" "wake_of (put_queue r q s) r' k = wake_of s r' k"
    unfolding flag_tok by simp_all
qed

lemma put_queue_inv:
  assumes "sched_inv T s" and "steady (s_heap s r) q"
  shows "sched_inv T (put_queue r q s)"
proof -
  have "flag (put_queue r q s) r' k = flag s r' k" "wake_of (put_queue r q s) r' k = wake_of s r' k" for r' k
    using put_queue_view [OF steady_tok(1) [OF assms(2)]] by simp_all
  moreover have "queue_wf q" using assms(2) by (simp add: steady_def)
  ultimately show ?thesis using assms(1) by (simp add: sched_inv_def) (simp add: put_queue_def)
qed

lemma deliver_accepted: "(\<And>m b. fst (dispatch m b)) \<Longrightarrow> \<exists>b'. deliver dispatch k ms q b = (True, q, b')"
proof (induction ms arbitrary: b)
  case (Cons m ms)
  obtain b1 where "dispatch m b = (True, b1)" using Cons.prems [of m b] by (cases "dispatch m b") auto
  then show ?case using Cons.IH [OF Cons.prems] by simp
qed simp

text \<open>After a round that was delivered the group is idle, queued again, or has a timer.\<close>

definition tended :: "qref \<Rightarrow> string \<Rightarrow> Scheduler \<Rightarrow> bool" where
  "tended r k s = ((\<forall>g. GetGroup (s_heap s r) k = Some g \<longrightarrow> idle g) \<or> (r, k) \<in> aid ` set (s_active s)
     \<or> (\<exists>w. \<lparr>wk_q = r, wk_groupKey = k, wk_wakeNs = w\<rparr> \<in># timers s) \<or> activeCap \<le> length (s_active s))"

definition same_messages :: "Scheduler \<Rightarrow> Scheduler \<Rightarrow> bool" where
  "same_messages s s' = (\<forall>r k. map_option live_ids (GetGroup (s_heap s' r) k) = map_option live_ids (GetGroup (s_heap s r) k))"

lemma Activate_tended:
  assumes "sched_inv T s" and "k \<noteq> []"
  shows "tended r k (Activate now r k s)"
proof -
  have wf: "queue_wf (s_heap s r)" using assms(1) by (simp add: sched_inv_def)
  then show ?thesis
  proof (cases rule: Activate_cases [where now = now and k = k])
    case same
    moreover have "(r, k) \<in> aid ` set (s_active s)" if "flag s r k"
    proof -
      have "count_list (map aid (s_active s)) (r, k) = 1" using assms(1) that by (simp add: sched_inv_def)
      then have "(r, k) \<in> set (map aid (s_active s))" by (metis count_list_0_iff zero_neq_one)
      then show ?thesis by simp
    qed
    ultimately show ?thesis using assms(2) by (auto simp: tended_def)
  next
    case push
    then show ?thesis by (simp add: tended_def aid_def)
  next
    case full
    then show ?thesis by (simp add: tended_def)
  qed
qed

lemma DrainGroup_idle:
  assumes "queue_wf q" and "is_range_order it" and "DrainGroup it k now q = (Ret (b, w, False, False), q')"
    and "GetGroup q' k = Some g"
  shows "idle g"
proof (cases "GetGroup q k")
  case None
  with assms(3,4) show ?thesis by (auto simp: DrainGroup_def)
next
  case (Some g0)
  obtain x g1 where d: "drainRound it now g0 = (x, g1)" by fastforce
  have "x = Ret (b, w, False, False)" "q' = put_group k g1 q" using assms(3) Some d by (auto simp: DrainGroup_def)
  moreover have "GetGroup (put_group k g1 q) k = Some g1" using groups.look_upd assms(1) by (simp add: queue_wf_def)
  moreover have "grp_inv k g0" using assms(1) Some by (simp add: queue_wf_def)
  ultimately show ?thesis using drainRound_idle [OF _ _ assms(2), of g0 now b w g1] d assms(4) by (simp add: grp_inv_def)
qed

lemma processActivation_ok:
  assumes wf: "\<forall>r. queue_wf (s_heap s r)" and it: "is_range_order it"
    and I: "sched_inv (timers s) (on_token (a_q a) (a_groupKey a) Unschedule s)"
    and p: "processActivation dispatch it rnow now a (s, b) = (res, s', b')"
  shows "res = Ret () \<and> sched_inv (timers s') s' \<and> same_messages s s'
    \<and> ((\<forall>m b. fst (dispatch m b)) \<and> a_groupKey a \<noteq> [] \<longrightarrow> tended (a_q a) (a_groupKey a) s')"
proof -
  let ?r = "a_q a" and ?k = "a_groupKey a"
  define s1 where "s1 = on_token ?r ?k Unschedule (record_latency now a s)"
  have l: "s_heap (record_latency now a s) = s_heap s" "s_active (record_latency now a s) = s_active s"
    "s_wheel (record_latency now a s) = s_wheel s" by (simp_all add: record_latency_def Let_def)
  have e: "s_heap s1 = s_heap (on_token ?r ?k Unschedule s)" by (simp add: s1_def on_token_heap l)
  have I1: "sched_inv (timers s1) s1" using I
    by (simp add: sched_inv_def flag_def wake_of_def timers_def e) (simp add: s1_def l)
  have m1: "same_messages s s1"
    using groups.look_modify [of "s_heap s ?r" ?k Unschedule] wf
    by (auto simp: same_messages_def e on_token_heap queue_wf_def option.map_comp comp_def Unschedule_def tok_fields)
  have wf1: "queue_wf (s_heap s1 ?r)" using I1 by (simp add: sched_inv_def)
  obtain x q1 where d: "DrainGroup it ?k now (s_heap s1 ?r) = (Ret x, q1)" and st: "steady (s_heap s1 ?r) q1"
    by (rule DrainGroup_steady [OF wf1 it])
  obtain ready wakeAt hasWake still where x: "x = (ready, wakeAt, hasWake, still)" by (cases x) auto
  have wq1: "queue_wf q1" using st by (simp add: steady_def)
  obtain del q2 b2 where dl: "(case ready of None \<Rightarrow> (True, q1, b) | Some ms \<Rightarrow> deliver dispatch ?k ms q1 b) = (del, q2, b2)"
    using prod_cases3 by blast
  have st2: "steady (s_heap s1 ?r) q2"
  proof (cases ready)
    case (Some ms)
    then have "steady q1 q2" using dl deliver_steady [OF wq1, of dispatch ?k ms b del q2 b2] by simp
    then show ?thesis by (rule steady_trans [OF st])
  qed (use dl st in simp)
  define s2 where "s2 = put_queue ?r q2 s1"
  have I2: "sched_inv (timers s2) s2"
    using put_queue_inv [OF I1 st2] by (simp add: s2_def timers_def put_queue_def)
  have m2: "same_messages s s2"
    using m1 steady_tok(2) [OF st2] by (simp add: same_messages_def s2_def put_queue_def)
  let ?s = "if \<not> del then s2 else if hasWake then scheduleWake rnow now ?r ?k wakeAt s2
    else if still then Activate now ?r ?k s2 else s2"
  have res: "res = Ret ()" and s': "s' = ?s"
    using p d x dl by (auto simp: processActivation_def Let_def s1_def [symmetric] s2_def split: prod.splits)
  note W = scheduleWake_inv [OF I2 refl, where rnow = rnow and now = now and r = ?r and k = ?k and wakeAt = wakeAt]
  have "sched_inv (timers ?s) ?s" using W(1) I2 Activate_inv [OF I2] by (simp add: timers_def)
  moreover have "queue_wf (s_heap s2 ?r)" using I2 by (simp add: sched_inv_def)
  then have "same_messages s ?s"
    using m2 W(3) Activate_live by (auto simp: same_messages_def)
  moreover have "tended ?r ?k ?s" if acc: "\<forall>m b. fst (dispatch m b)" and k: "?k \<noteq> []"
  proof -
    have del: "del" "q2 = q1" using dl deliver_accepted [of dispatch] acc by (auto split: option.splits) (metis prod.inject)+
    consider "hasWake" | "\<not> hasWake" "still" | "\<not> hasWake" "\<not> still" by blast
    then show ?thesis
    proof cases
      case 1
      then show ?thesis using W(2) del W(4)
        by (cases "GetGroup (s_heap s2 ?r) ?k") (auto simp: tended_def scheduleWake_def)
    next
      case 2
      then show ?thesis using Activate_tended [OF I2 k] del by simp
    next
      case 3
      then have "idle g" if "GetGroup q1 ?k = Some g" for g
        using DrainGroup_idle [OF wf1 it, of ?k now ready wakeAt q1 g] d x that by simp
      then show ?thesis using 3 del by (simp add: tended_def s2_def put_queue_def)
    qed
  qed
  ultimately show ?thesis using res s' by blast
qed

section \<open>The scheduler over time\<close>

text \<open>
  What the operations of publishers, consumers and the sweeper do to a queue, as far as the scheduler
  is concerned: they keep it well-formed, do not touch the scheduling fields, and create groups with
  these fields zero.
\<close>

definition client :: "Queue \<Rightarrow> Queue \<Rightarrow> bool" where
  "client q q' = (queue_wf q' \<and> (\<forall>k.
     case GetGroup q' k of
       None \<Rightarrow> GetGroup q k = None
     | Some g' \<Rightarrow> tok g' = (case GetGroup q k of None \<Rightarrow> (0, 0) | Some g \<Rightarrow> tok g)))"

inductive sched_reach :: "'b DispatchFunc \<Rightarrow> Scheduler \<Rightarrow> 'b \<Rightarrow> bool" for dispatch :: "'b DispatchFunc" where
  reach_new: "(\<And>r. queue_wf (heap r)) \<Longrightarrow> (\<And>r k g. GetGroup (heap r) k = Some g \<Longrightarrow> tok g = (0, 0)) \<Longrightarrow>
    sched_reach dispatch (NewScheduler heap) b"
| reach_register: "sched_reach dispatch s b \<Longrightarrow> sched_reach dispatch (RegisterQueue r s) b"
| reach_unregister: "sched_reach dispatch s b \<Longrightarrow> sched_reach dispatch (UnregisterQueue ns n s) b"
| reach_activate: "sched_reach dispatch s b \<Longrightarrow> sched_reach dispatch (Activate now r k s) b"
| reach_turn: "sched_reach dispatch s b \<Longrightarrow> sched_reach dispatch (wheel_turn now s) b"
| reach_work: "sched_reach dispatch s b \<Longrightarrow> is_range_order it \<Longrightarrow> worker dispatch it rnow now (s, b) = (s', b') \<Longrightarrow>
    sched_reach dispatch s' b'"
| reach_client: "sched_reach dispatch s b \<Longrightarrow> client (s_heap s r) q \<Longrightarrow> sched_reach dispatch (put_queue r q s) b'"

lemma client_view:
  assumes "client (s_heap s r) q"
  shows "flag (put_queue r q s) r' k = flag s r' k" "wake_of (put_queue r q s) r' k = wake_of s r' k"
  using assms unfolding client_def flag_def wake_of_def
  by (auto simp: put_queue_def tok_def split: option.splits dest!: spec [of _ k])

lemma popped:
  assumes I: "sched_inv T s" and a: "s_active s = a # as"
  shows "sched_inv T (on_token (a_q a) (a_groupKey a) Unschedule (s\<lparr>s_active := as\<rparr>))"
proof -
  let ?s = "s\<lparr>s_active := as\<rparr>"
  have wf: "\<forall>r. queue_wf (s_heap ?s r)" using I by (simp add: sched_inv_def)
  note F = view_un [OF wf [THEN spec, of "a_q a"]]
  have c: "count_list (map aid (a # as)) (r, k) = (if flag s r k then 1 else 0)" for r k
    using I a by (simp add: sched_inv_def)
  have "count_list (map aid as) (r, k) = (if flag s r k \<and> \<not> (r = a_q a \<and> k = a_groupKey a) then 1 else 0)" for r k
    using c [of r k] by (auto simp: aid_def split: if_splits)
  then show ?thesis using I on_token_wf [OF wf shrinks_tokens(1)] by (simp add: sched_inv_def F)
qed

lemma reach_inv: "sched_reach dispatch s b \<Longrightarrow> sched_inv (timers s) s"
proof (induction rule: sched_reach.induct)
  case (reach_new heap b)
  then have "\<not> flag (NewScheduler heap) r k" "wake_of (NewScheduler heap) r k = 0" for r k
    by (auto simp: flag_def wake_of_def NewScheduler_def tok_def split: option.splits)
  then show ?case using reach_new(1) by (simp add: sched_inv_def) (simp add: NewScheduler_def NewTimingWheel_def wheel_wf_def)
next
  case (reach_register s b r)
  then show ?case by (simp add: sched_inv_def flag_def wake_of_def timers_def RegisterQueue_def)
next
  case (reach_unregister s b ns n)
  then show ?case by (simp add: sched_inv_def flag_def wake_of_def timers_def UnregisterQueue_def)
next
  case (reach_activate s b now r k)
  then show ?case using Activate_inv [of "timers s" s] by (simp add: timers_def)
next
  case (reach_turn s b now)
  then show ?case by (simp add: wheel_turn_inv)
next
  case (reach_work s b it rnow now s' b')
  show ?case
  proof (cases "s_active s")
    case Nil
    then show ?thesis using reach_work by (simp add: worker_def)
  next
    case (Cons a as)
    let ?s = "s\<lparr>s_active := as\<rparr>"
    obtain res where p: "processActivation dispatch it rnow now a (?s, b) = (res, s', b')"
      using reach_work(3) Cons by (cases "processActivation dispatch it rnow now a (?s, b)") (simp add: worker_def)
    have "\<forall>r. queue_wf (s_heap ?s r)" using reach_work(4) by (simp add: sched_inv_def)
    moreover have "timers ?s = timers s" by (simp add: timers_def)
    ultimately show ?thesis using processActivation_ok [OF _ reach_work(2) _ p] popped [OF reach_work(4) Cons] by simp
  qed
next
  case (reach_client s b r q b')
  then show ?case
    by (simp add: sched_inv_def client_view) (simp add: timers_def client_def put_queue_def)
qed

lemma distinct_count_list: "(\<And>x. count_list xs x \<le> 1) \<Longrightarrow> distinct xs"
proof (induction xs)
  case (Cons y xs)
  have "count_list xs x \<le> 1" for x using Cons.prems [of x] by (simp split: if_splits)
  moreover have "y \<notin> set xs" using Cons.prems [of y] by (simp add: count_list_0_iff)
  ultimately show ?case using Cons.IH by simp
qed simp

text \<open>
  Activations.  Whatever happens, a group waits at most once in the queue of the workers, it
  waits there exactly while its flag is set, so that no publisher can be refused by a flag without
  an activation behind it, and the wake time of a group always has its timer in the wheel.
\<close>

lemma activation_unique:
  assumes "sched_reach dispatch s b"
  shows "distinct (map aid (s_active s)) \<and> (\<forall>r k. flag s r k \<longleftrightarrow> (r, k) \<in> aid ` set (s_active s))
    \<and> (\<forall>r k. wake_of s r k \<noteq> 0 \<longrightarrow> wakeup_of s r k \<in># timers s)"
proof -
  note I = reach_inv [OF assms]
  have c: "count_list (map aid (s_active s)) (r, k) = (if flag s r k then 1 else 0)" for r k
    using I by (simp add: sched_inv_def)
  have "count_list (map aid (s_active s)) x \<le> 1" for x using c by (cases x) simp
  then have "distinct (map aid (s_active s))" by (rule distinct_count_list)
  moreover have "flag s r k \<longleftrightarrow> (r, k) \<in> aid ` set (s_active s)" for r k
    using c [of r k] count_list_0_iff [of "map aid (s_active s)" "(r, k)"] by (auto split: if_splits)
  ultimately show ?thesis using I by (simp add: sched_inv_def)
qed

definition demo_sched :: Scheduler where
  "demo_sched = Activate 5 0 ''k'' (NewScheduler (\<lambda>_. single ''k'' demo_waiting))"

lemma demo_sched_reach: "sched_reach dispatch demo_sched b"
  unfolding demo_sched_def
proof (rule reach_activate, rule reach_new)
  show "queue_wf (single ''k'' demo_waiting)" by (rule single_wf [OF demo_waiting_inv])
  show "tok g = (0, 0)" if "GetGroup (single ''k'' demo_waiting) k = Some g" for k g
    using that by (auto simp: single_get tok_def demo_waiting_def demo_group_def split: if_splits)
qed

lemma demo_sched_active: "s_active demo_sched = [\<lparr>a_q = 0, a_groupKey = ''k'', a_enqueuedAt = 5\<rparr>]"
  by (simp add: demo_sched_def Activate_def NewScheduler_def single_get TrySchedule_def activeCap_def Let_def
      demo_waiting_def demo_group_def)

text \<open>
  [C20] No stalled group.  An activation that a worker takes up does not panic and loses no message of
  any group; and if the dispatch function accepts what it is given, then afterwards the group has
  nothing to hand out or is at its parallelism, or it waits for a worker again, or it has a timer,
  unless the queue of the workers is full.
\<close>

theorem worker_no_stall:
  assumes "sched_reach dispatch s b" and "is_range_order it" and "s_active s = a # as"
    and "worker dispatch it rnow now (s, b) = (s', b')"
  shows "same_messages s s'
    \<and> ((\<forall>m b. fst (dispatch m b)) \<and> a_groupKey a \<noteq> [] \<longrightarrow> tended (a_q a) (a_groupKey a) s')"
proof -
  let ?s = "s\<lparr>s_active := as\<rparr>"
  obtain res where p: "processActivation dispatch it rnow now a (?s, b) = (res, s', b')"
    using assms(3,4) by (cases "processActivation dispatch it rnow now a (?s, b)") (simp add: worker_def)
  have "\<forall>r. queue_wf (s_heap ?s r)" using reach_inv [OF assms(1)] by (simp add: sched_inv_def)
  moreover have "timers ?s = timers s" "same_messages s s' = same_messages ?s s'" by (simp_all add: timers_def same_messages_def)
  ultimately show ?thesis using processActivation_ok [OF _ assms(2) _ p] popped [OF reach_inv [OF assms(1)] assms(3)] by simp
qed

theorem worker_no_stall_witness:
  "\<exists>s' b'. worker (\<lambda>m b. (True, b)) rev 7 7 (demo_sched, ()) = (s', b') \<and> tended 0 ''k'' s'"
proof -
  obtain s' b' where w: "worker (\<lambda>m b. (True, b)) rev 7 7 (demo_sched, ()) = (s', b')"
    by (cases "worker (\<lambda>m b. (True, b)) rev 7 7 (demo_sched, ())")
  from worker_no_stall [OF demo_sched_reach is_range_order_rev demo_sched_active w] show ?thesis using w by auto
qed

end
