(* ===== verification/Queue_Client.thy ===== *)
theory Queue_Client
  imports Scheduler_Props
begin

text \<open>
  What the users of a queue may rely on, operation by operation: which messages an operation can take
  out of a queue, which it can add, that it keeps the queue well-formed and leaves the scheduling
  fields to the scheduler.
\<close>

section \<open>Group operations\<close>

text \<open>\<open>loses X f\<close>: \<open>f\<close> takes out at most the messages in \<open>X\<close>.\<close>

definition loses :: "string set \<Rightarrow> (group \<Rightarrow> group) \<Rightarrow> bool" where
  "loses X f = (shrinks f \<and> (\<forall>k g. grp_inv k g \<longrightarrow>
     tok (f g) = tok g \<and> set_mset (live_ids g) \<subseteq> set_mset (live_ids (f g)) \<union> X))"

lemma losesI:
  assumes "shrinks f" and "\<And>k g. grp_inv k g \<Longrightarrow> tok (f g) = tok g"
    and "\<And>k g. grp_inv k g \<Longrightarrow> set_mset (live_ids g) \<subseteq> set_mset (live_ids (f g)) \<union> X"
  shows "loses X f"
  using assms unfolding loses_def by blast

lemma loses_comp:
  assumes "loses X f" and "loses Y h"
  shows "loses (X \<union> Y) (\<lambda>g. f (h g))"
proof (rule losesI)
  show "shrinks (\<lambda>g. f (h g))" using assms shrinks_comp by (simp add: loses_def)
  fix k g assume g: "grp_inv k g"
  then have h: "grp_inv k (h g)" using assms(2) unfolding loses_def shrinks_def by blast
  show "tok (f (h g)) = tok g" using g h assms unfolding loses_def by metis
  have "set_mset (live_ids g) \<subseteq> set_mset (live_ids (h g)) \<union> Y" "set_mset (live_ids (h g)) \<subseteq> set_mset (live_ids (f (h g))) \<union> X"
    using g h assms unfolding loses_def by blast+
  then show "set_mset (live_ids g) \<subseteq> set_mset (live_ids (f (h g))) \<union> (X \<union> Y)" by blast
qed

lemma loses_complete: "loses {i} (\<lambda>g. snd (complete i g))"
proof (rule losesI [OF shrinks_complete])
  fix k g assume g: "grp_inv k g"
  show "tok (snd (complete i g)) = tok g" by (simp add: complete_def tok_def split: option.split)
  obtain r g' where c: "complete i g = (r, g')" by fastforce
  from complete_pres [OF grp_inv_rep [OF g] c] c
  show "set_mset (live_ids g) \<subseteq> set_mset (live_ids (snd (complete i g))) \<union> {i}"
    by (auto split: option.splits)
qed

lemma loses_fail: "loses {i} (\<lambda>g. snd (fail i err now g))"
proof (rule losesI [OF shrinks_fail])
  fix k g assume g: "grp_inv k g"
  show "tok (snd (fail i err now g)) = tok g" by (simp add: fail_def tok_def Let_def split: option.split)
  obtain r g' where f: "fail i err now g = (r, g')" by fastforce
  show "set_mset (live_ids g) \<subseteq> set_mset (live_ids (snd (fail i err now g))) \<union> {i}"
  proof (cases "gm_get (g_processing g) i")
    case None
    then show ?thesis by (auto simp: fail_def)
  next
    case (Some m)
    from fail_pres [OF grp_inv_rep [OF g] Some f] f show ?thesis by (auto split: if_splits)
  qed
qed

lemma loses_promote:
  assumes it: "is_range_order it"
  shows "loses {} (\<lambda>g. fst (promoteDelayed it now g))"
proof (rule losesI [OF shrinks_promote [OF it]])
  fix k g assume g: "grp_inv k g"
  obtain g' w where p: "promoteDelayed it now g = (g', w)" by fastforce
  show "tok (fst (promoteDelayed it now g)) = tok g" using promoteDelayed_tok [OF p] p by simp
  show "set_mset (live_ids g) \<subseteq> set_mset (live_ids (fst (promoteDelayed it now g))) \<union> {}"
    using promoteDelayed_wf [OF _ it p] g p by (simp add: grp_inv_def)
qed

lemma loses_next: "loses {} (\<lambda>g. snd (next_msg now g))"
proof (rule losesI [OF shrinks_next])
  fix k g assume g: "grp_inv k g"
  then obtain mo g' where n: "next_msg now g = (Ret mo, g')" using next_msg_total by (metis grp_inv_def)
  obtain x where "nextDispatchable now g = (Ret x, g')"
    using n by (auto simp: next_msg_def split: prod.splits outcome.splits)
  then show "tok (snd (next_msg now g)) = tok g" using nextDispatchable_tok n by simp
  show "set_mset (live_ids g) \<subseteq> set_mset (live_ids (snd (next_msg now g))) \<union> {}"
    using next_msg_pres [OF _ n] n g by (simp add: grp_inv_def)
qed

lemma loses_return: "loses {} (\<lambda>g. snd (returnToPending i g))"
proof (rule losesI [OF shrinks_return])
  fix k g assume "grp_inv k g"
  then have r: "group_rep g" by (rule grp_inv_rep)
  show "tok (snd (returnToPending i g)) = tok g" by (rule return_tok)
  show "set_mset (live_ids g) \<subseteq> set_mset (live_ids (snd (returnToPending i g))) \<union> {}"
    using to_urgent_pres [OF r] by (simp add: returnToPending_eq split: option.split)
qed

lemma loses_sweep: "loses {} (sweepGroup it now)"
proof -
  have "loses {} (fold (\<lambda>ident g. snd (returnToPending ident g)) ids)" for ids
  proof (induction ids)
    case Nil
    then show ?case by (simp add: loses_def shrinks_def)
  next
    case (Cons i ids)
    from loses_comp [OF Cons loses_return [of i]] show ?case by (simp add: comp_def)
  qed
  then show ?thesis by (intro losesI [OF shrinks_sweep]) (simp_all add: sweepGroup_def loses_def)
qed

section \<open>Queue operations\<close>

definition ids :: "Queue \<Rightarrow> string \<Rightarrow> string set" where
  "ids q k = (case GetGroup q k of None \<Rightarrow> {} | Some g \<Rightarrow> set_mset (live_ids g))"

text \<open>\<open>qstep D A q q'\<close>: a step that takes out at most the messages in \<open>D\<close> and adds at most those in \<open>A\<close>, by group.\<close>

definition qstep :: "(string \<times> string) set \<Rightarrow> (string \<times> string) set \<Rightarrow> Queue \<Rightarrow> Queue \<Rightarrow> bool" where
  "qstep D A q q' = (client q q'
     \<and> (\<forall>k i. i \<in> ids q k \<longrightarrow> i \<in> ids q' k \<or> (k, i) \<in> D) \<and> (\<forall>k i. i \<in> ids q' k \<longrightarrow> i \<in> ids q k \<or> (k, i) \<in> A))"

lemma qstep_wf: "qstep D A q q' \<Longrightarrow> queue_wf q'"
  by (simp add: qstep_def client_def)

lemma client_refl: "queue_wf q \<Longrightarrow> client q q"
  by (simp add: client_def split: option.split)

lemma qstep_refl: "queue_wf q \<Longrightarrow> qstep {} {} q q"
  by (simp add: qstep_def client_refl)

lemma modify_qstep:
  assumes wf: "queue_wf q" and f: "loses X f"
  shows "qstep ({k} \<times> X) {} q (groups.modify k f q)"
proof -
  have sh: "shards_wf q" and inv: "\<And>k g. GetGroup q k = Some g \<Longrightarrow> grp_inv k g" using wf by (simp_all add: queue_wf_def)
  have s: "shrinks f" using f by (simp add: loses_def)
  have g: "tok (f g) = tok g" "set_mset (live_ids g) \<subseteq> set_mset (live_ids (f g)) \<union> X"
    "set_mset (live_ids (f g)) \<subseteq> set_mset (live_ids g)" if "GetGroup q k = Some g" for g
    using inv [OF that] f unfolding loses_def shrinks_def by blast+
  have "client q (groups.modify k f q)"
    using modify_wf [OF wf s] g(1) by (simp add: client_def groups.look_modify [OF sh] split: option.split)
  then show ?thesis using g(2,3)
    by (auto simp: qstep_def ids_def groups.look_modify [OF sh] split: option.splits if_splits)
qed

lemma map_qstep:
  assumes wf: "queue_wf q" and f: "loses {} f"
  shows "qstep {} {} q (map_groups (\<lambda>_. f) q)"
proof -
  have sh: "shards_wf q" and inv: "\<And>k g. GetGroup q k = Some g \<Longrightarrow> grp_inv k g" using wf by (simp_all add: queue_wf_def)
  have w: "queue_wf (map_groups (\<lambda>_. f) q)"
    by (rule map_groups_wf [OF wf]) (use f in \<open>simp add: loses_def shrinks_def\<close>)
  have g: "tok (f g) = tok g" "set_mset (live_ids (f g)) = set_mset (live_ids g)" if "GetGroup q k = Some g" for k g
    using inv [OF that] f unfolding loses_def shrinks_def by blast+
  have "GetGroup (map_groups (\<lambda>_. f) q) k = map_option f (GetGroup q k)" for k
    using map_groups_look [OF sh] by simp
  then show ?thesis using g w by (auto simp: qstep_def ids_def client_def split: option.splits)
qed

lemma steady_qstep:
  assumes "steady q q'"
  shows "qstep {} {} q q'"
proof -
  have "(case GetGroup q' k of None \<Rightarrow> GetGroup q k = None
      | Some g' \<Rightarrow> tok g' = (case GetGroup q k of None \<Rightarrow> (0, 0) | Some g \<Rightarrow> tok g)) \<and> ids q' k = ids q k" for k
    using steady_tok [OF assms, of k] by (cases "GetGroup q' k"; cases "GetGroup q k") (simp_all add: ids_def)
  then show ?thesis using assms by (simp add: qstep_def client_def steady_def)
qed

lemma TryDispatchOne_qstep:
  assumes "queue_wf q" and "is_range_order it"
  obtains r q' where "TryDispatchOne it k now q = (Ret r, q')" and "qstep {} {} q q'"
proof -
  obtain r where "TryDispatchOne it k now q = (Ret r, groups.modify k (\<lambda>g. snd (next_msg now (fst (promoteDelayed it now g)))) q)"
    by (rule TryDispatchOne_eq [OF assms])
  with modify_qstep [OF assms(1) loses_comp [OF loses_next loses_promote [OF assms(2)]]] show thesis using that by simp
qed

lemma CompleteAndNext_qstep:
  assumes "queue_wf q" and "is_range_order it"
  obtains r q' where "CompleteAndNext it k i now q = (Ret r, q')" and "qstep {(k, i)} {} q q'"
proof -
  obtain r where "CompleteAndNext it k i now q = (Ret r, groups.modify k (\<lambda>g. snd (next_msg now (fst (promoteDelayed it now (snd (complete i g)))))) q)"
    by (rule CompleteAndNext_eq [OF assms])
  with modify_qstep [OF assms(1) loses_comp [OF loses_comp [OF loses_next loses_promote [OF assms(2)]] loses_complete]]
  show thesis using that by simp
qed

lemma FailAndNext_qstep:
  assumes "queue_wf q" and "is_range_order it"
  obtains r q' where "FailAndNext it k i err now q = (Ret r, q')" and "qstep {(k, i)} {} q q'"
proof -
  obtain r where "FailAndNext it k i err now q = (Ret r, groups.modify k (\<lambda>g. snd (next_msg now (fst (promoteDelayed it now (snd (fail i err now g)))))) q)"
    by (rule FailAndNext_eq [OF assms])
  with modify_qstep [OF assms(1) loses_comp [OF loses_comp [OF loses_next loses_promote [OF assms(2)]] loses_fail]]
  show thesis using that by simp
qed

lemma ReturnToPending_qstep: "queue_wf q \<Longrightarrow> qstep {} {} q (ReturnToPending k i q)"
  using modify_qstep [OF _ loses_return] by (simp add: ReturnToPending_eq)

lemma Sweep_qstep: "queue_wf q \<Longrightarrow> qstep {} {} q (snd (SweepExpiredLeases itg it now q))"
  using map_qstep [OF _ loses_sweep] by (simp add: Sweep_eq)

lemma SetGroupConfig_qstep:
  assumes wf: "queue_wf q" and ok: "config_ok cfg"
  shows "qstep {} {} q (SetGroupConfig cfg q)"
proof -
  have sh: "shards_wf (q\<lparr>q_cfgIdx := ci\<rparr>)" for ci using wf by (simp add: queue_wf_def)
  have t: "tok (g\<lparr>g_cfg := c, g_quantum := n\<rparr>) = tok g" for g c n by (simp add: tok_def)
  have "map_option (\<lambda>g. (tok g, live_ids g)) (GetGroup (SetGroupConfig cfg q) k) = map_option (\<lambda>g. (tok g, live_ids g)) (GetGroup q k)" for k
    by (auto simp: SetGroupConfig_eq Let_def groups.look_modify [OF sh] map_groups_look [OF sh] t option.map_comp comp_def
        intro!: option.map_cong)
  moreover have "q_Name (SetGroupConfig cfg q) = q_Name q" "q_Namespace (SetGroupConfig cfg q) = q_Namespace q"
    by (simp_all add: SetGroupConfig_eq Let_def map_groups_def)
  ultimately show ?thesis using SetGroupConfig_wf [OF wf ok] by (intro steady_qstep) (simp add: steady_def)
qed

text \<open>Adding a message whose identifier is not yet in its group.\<close>

lemma add_message_qstep:
  assumes wf: "queue_wf q" and e: "ensure_group k q = (Ret (g, ok), q1)" and fresh: "m_ID m \<notin> ids q k"
  shows "qstep {} {(k, m_ID m)} q (add_message k m g ok q1) \<and> m_ID m \<in> ids (add_message k m g ok q1) k"
proof -
  have g: "grp_inv k g \<and> set_mset (live_ids g) = ids q k \<and> tok g = (case GetGroup q k of None \<Rightarrow> (0, 0) | Some g \<Rightarrow> tok g)"
    using wf
  proof (cases rule: ensure_group_total [where k = k])
    case (old g0)
    then show ?thesis using e by (simp add: ids_def)
  next
    case (new g0)
    then have "newGroup (resolveConfig q k) = Ret g" using e by (auto simp: ensure_group_def split: outcome.splits)
    then have "tok g = (0, 0)" by (auto simp: newGroup_def tok_def Let_def split: option.splits outcome.splits if_splits)
    then show ?thesis using new e by (simp add: ids_def)
  qed
  then have f: "m_ID m \<notin># live_ids g" using fresh by auto
  note a = add_message_wf [OF wf e f]
  note p = enqueue_pres [OF grp_inv_rep [of k g], of m]
  have "tok (enqueue m g) = tok g" by (simp add: enqueue_def tok_def)
  then show ?thesis using a p g by (auto simp: qstep_def client_def ids_def split: option.splits)
qed

lemma newMessageAt_gen:
  "newMessageAt n ns k p now gen = (m, gen') \<Longrightarrow> gen' = snd (newID gen) \<and> m_ID m = fst (newID gen)"
  by (auto simp: newMessageAt_def split: prod.splits)

lemma PublishWithID_qstep:
  assumes wf: "queue_wf q" and fresh: "i \<notin> ids q k"
  obtains r gen' q' where "PublishWithID k i p now gen q = (Ret r, gen', q')" and "qstep {} {(k, i)} q q'"
    and "\<And>m. r = Inr m \<Longrightarrow> m_ID m = i \<and> i \<in> ids q' k" and "gen' = gen \<or> gen' = snd (newID gen)"
    and "isl r \<Longrightarrow> q' = q"
proof -
  obtain g ok q1 where e: "ensure_group k q = (Ret (g, ok), q1)"
    using wf by (cases rule: ensure_group_total [where k = k]) blast+
  show thesis
  proof (cases "c_MaxPending (g_cfg g) > 0 \<and> pendingCount g \<ge> c_MaxPending (g_cfg g)")
    case True
    have "q1 = q" using wf by (cases rule: ensure_group_total [where k = k]) (use e True in auto)
    moreover have "qstep {} {(k, i)} q q" using qstep_refl [OF wf] by (simp add: qstep_def)
    ultimately show thesis using True that by (auto simp: PublishWithID_def e)
  next
    case False
    obtain m gen' where m: "newMessageAt (q_Name q1) (q_Namespace q1) k p now gen = (m, gen')" by fastforce
    have "qstep {} {(k, i)} q (add_message k (m\<lparr>m_ID := i\<rparr>) g ok q1) \<and> i \<in> ids (add_message k (m\<lparr>m_ID := i\<rparr>) g ok q1) k"
      using add_message_qstep [OF wf e, of "m\<lparr>m_ID := i\<rparr>"] fresh by simp
    moreover have "PublishWithID k i p now gen q = (Ret (Inr (m\<lparr>m_ID := i\<rparr>)), gen', add_message k (m\<lparr>m_ID := i\<rparr>) g ok q1)"
      using False by (auto simp: PublishWithID_def e m add_message_def Let_def)
    ultimately show thesis using that newMessageAt_gen [OF m] by auto
  qed
qed

lemma Publish_qstep:
  assumes wf: "queue_wf q" and fresh: "fst (newID gen) \<notin> ids q k"
  obtains r gen' q' where "Publish k p now gen q = (Ret r, gen', q')" and "qstep {} {(k, fst (newID gen))} q q'"
    and "gen' = gen \<and> q' = q \<or> gen' = snd (newID gen)"
proof -
  obtain g ok q1 where e: "ensure_group k q = (Ret (g, ok), q1)"
    using wf by (cases rule: ensure_group_total [where k = k]) blast+
  show thesis
  proof (cases "c_MaxPending (g_cfg g) > 0 \<and> pendingCount g \<ge> c_MaxPending (g_cfg g)")
    case True
    have "q1 = q" using wf by (cases rule: ensure_group_total [where k = k]) (use e True in auto)
    moreover have "qstep {} {(k, fst (newID gen))} q q" using qstep_refl [OF wf] by (simp add: qstep_def)
    ultimately show thesis using True that by (auto simp: Publish_def e)
  next
    case False
    obtain m gen' where m: "newMessageAt (q_Name q1) (q_Namespace q1) k p now gen = (m, gen')" by fastforce
    note i = newMessageAt_gen [OF m]
    have "Publish k p now gen q = (Ret (Inr m), gen', add_message k m g ok q1)"
      using False by (auto simp: Publish_def e m add_message_def Let_def)
    then show thesis using that i add_message_qstep [OF wf e, of m] fresh by auto
  qed
qed

end
