(* ===== verification/Broker_Props.thy ===== *)
theory Broker_Props
  imports Broker_System Queue_Client
begin

text \<open>
  What one step of the broker does to its queues, whatever goroutine takes it: the invariant of the
  scheduler is kept, only what the step names leaves a queue, and only what it names enters.  The
  invariant of the whole system follows, and from it, for every run, that a confirmed message stays in
  its queue until somebody acknowledges it.
\<close>

section \<open>Steps of the scheduler's queues\<close>

definition sids :: "Scheduler \<Rightarrow> qref \<Rightarrow> string \<Rightarrow> string set" where
  "sids s r k = ids (s_heap s r) k"

text \<open>\<open>sstep D A s s'\<close>: the invariant is kept, at most \<open>D\<close> is taken out of the queues and at most \<open>A\<close> added.\<close>

definition sstep :: "(qref \<times> string \<times> string) set \<Rightarrow> (qref \<times> string \<times> string) set \<Rightarrow> Scheduler \<Rightarrow> Scheduler \<Rightarrow> bool" where
  "sstep D A s s' = (sched_inv (timers s) s \<longrightarrow> sched_inv (timers s') s'
     \<and> (\<forall>r k i. i \<in> sids s r k \<longrightarrow> i \<in> sids s' r k \<or> (r, k, i) \<in> D)
     \<and> (\<forall>r k i. i \<in> sids s' r k \<longrightarrow> i \<in> sids s r k \<or> (r, k, i) \<in> A))"

lemma sstep_refl [simp]: "sstep {} {} s s"
  by (simp add: sstep_def)

lemma sstep_trans: "sstep D A s s' \<Longrightarrow> sstep D' A' s' s'' \<Longrightarrow> sstep (D \<union> D') (A \<union> A') s s''"
  unfolding sstep_def by blast

lemma sstep_mono: "sstep D A s s' \<Longrightarrow> D \<subseteq> D' \<Longrightarrow> A \<subseteq> A' \<Longrightarrow> sstep D' A' s s'"
  unfolding sstep_def by blast

lemma sstep_quiet: "sstep {} {} s s' \<Longrightarrow> sstep D A s' s'' \<Longrightarrow> sstep D A s s''"
  using sstep_trans [of "{}" "{}" s s' D A s''] by simp

lemma sstep_then: "sstep D A s s' \<Longrightarrow> sstep {} {} s' s'' \<Longrightarrow> sstep D A s s''"
  using sstep_trans [of D A s s' "{}" "{}" s''] by simp

lemma sched_inv_wf: "sched_inv T s \<Longrightarrow> queue_wf (s_heap s r)"
  by (simp add: sched_inv_def)

lemma client_inv: "sched_inv (timers s) s \<Longrightarrow> client (s_heap s r) q \<Longrightarrow> sched_inv (timers (put_queue r q s)) (put_queue r q s)"
  by (simp add: sched_inv_def client_view) (simp add: timers_def client_def put_queue_def)

lemma sids_put: "sids (put_queue r q s) r' k = (if r' = r then ids q k else sids s r' k)"
  by (simp add: sids_def put_queue_def)

lemma sstep_put:
  assumes "queue_wf (s_heap s r) \<Longrightarrow> qstep D A (s_heap s r) q"
  shows "sstep ({r} \<times> D) ({r} \<times> A) s (put_queue r q s)"
  unfolding sstep_def
proof (intro impI)
  assume I: "sched_inv (timers s) s"
  then have q: "qstep D A (s_heap s r) q" using assms by (simp add: sched_inv_def)
  then show "sched_inv (timers (put_queue r q s)) (put_queue r q s)
    \<and> (\<forall>r' k i. i \<in> sids s r' k \<longrightarrow> i \<in> sids (put_queue r q s) r' k \<or> (r', k, i) \<in> {r} \<times> D)
    \<and> (\<forall>r' k i. i \<in> sids (put_queue r q s) r' k \<longrightarrow> i \<in> sids s r' k \<or> (r', k, i) \<in> {r} \<times> A)"
    using client_inv [OF I] by (auto simp: qstep_def sids_put) (auto simp: sids_def)
qed

lemma sstep_put_quiet: "(queue_wf (s_heap s r) \<Longrightarrow> qstep {} {} (s_heap s r) q) \<Longrightarrow> sstep {} {} s (put_queue r q s)"
  using sstep_put [of s r "{}" "{}" q] by simp

lemma sids_live:
  "map_option live_ids (GetGroup (s_heap s' r) k) = map_option live_ids (GetGroup (s_heap s r) k) \<Longrightarrow> sids s' r k = sids s r k"
  by (cases "GetGroup (s_heap s' r) k"; cases "GetGroup (s_heap s r) k") (simp_all add: sids_def ids_def)

lemma sstepI:
  assumes "sched_inv (timers s) s \<Longrightarrow> sched_inv (timers s') s' \<and> (\<forall>r k. sids s' r k = sids s r k)"
  shows "sstep {} {} s s'"
  using assms unfolding sstep_def by blast

lemma sstep_Activate: "sstep {} {} s (Activate now r k s)"
proof (rule sstepI)
  assume I: "sched_inv (timers s) s"
  then show "sched_inv (timers (Activate now r k s)) (Activate now r k s) \<and> (\<forall>r' k'. sids (Activate now r k s) r' k' = sids s r' k')"
    using Activate_inv [OF I] sids_live [OF Activate_live [OF sched_inv_wf [OF I]]] by (simp add: timers_def)
qed

lemma worker_keeps:
  assumes I: "sched_inv (timers s) s" and it: "is_range_order it" and w: "worker disp it rnow now (s, b) = (s', b')"
  shows "sched_inv (timers s') s' \<and> same_messages s s'"
proof (cases "s_active s")
  case Nil
  then show ?thesis using I w by (simp add: worker_def same_messages_def)
next
  case (Cons a as)
  let ?s = "s\<lparr>s_active := as\<rparr>"
  obtain res where p: "processActivation disp it rnow now a (?s, b) = (res, s', b')"
    using w Cons by (cases "processActivation disp it rnow now a (?s, b)") (simp add: worker_def)
  have "\<forall>r. queue_wf (s_heap ?s r)" using I by (simp add: sched_inv_def)
  moreover have "timers ?s = timers s" by (simp add: timers_def)
  ultimately show ?thesis using processActivation_ok [OF _ it _ p] popped [OF I Cons] by (simp add: same_messages_def)
qed

lemma sstep_worker:
  assumes "is_range_order it" and "worker disp it rnow now (s, b) = (s', b')"
  shows "sstep {} {} s s'"
proof (rule sstepI)
  assume "sched_inv (timers s) s"
  from worker_keeps [OF this assms] show "sched_inv (timers s') s' \<and> (\<forall>r k. sids s' r k = sids s r k)"
    unfolding same_messages_def using sids_live by blast
qed

lemma Activate_wf:
  assumes wf: "\<forall>r. queue_wf (s_heap s r)"
  shows "\<forall>r'. queue_wf (s_heap (Activate now r k s) r')"
  using wf [THEN spec, of r]
  by (cases rule: Activate_cases [where now = now and k = k]) (simp_all add: wf on_token_heap modify_wf shrinks_tokens)

lemma wake_group_live:
  assumes wf: "\<forall>r. queue_wf (s_heap s r)"
  shows "(\<forall>r. queue_wf (s_heap (wake_group now w s) r)) \<and> sids (wake_group now w s) r' k' = sids s r' k'"
proof -
  let ?s = "on_token (wk_q w) (wk_groupKey w) (ClearWake (wk_wakeNs w)) s"
  have wf': "\<forall>r. queue_wf (s_heap ?s r)" using on_token_wf [OF wf shrinks_tokens(4)] .
  have "live_ids (ClearWake n g) = live_ids g" for n g by (simp add: ClearWake_def tok_fields)
  then have "sids ?s r' k' = sids s r' k'"
    using groups.look_modify [of "s_heap s (wk_q w)" "wk_groupKey w" "ClearWake (wk_wakeNs w)" k'] wf
    by (intro sids_live) (auto simp: on_token_heap queue_wf_def option.map_comp comp_def)
  moreover have "sids (wake_group now w s) r' k' = sids ?s r' k'"
    unfolding wake_group_def using wf' by (intro sids_live Activate_live) simp
  ultimately show ?thesis using Activate_wf [OF wf'] by (simp add: wake_group_def)
qed

lemma sstep_wheel: "sstep {} {} s (wheel_turn now s)"
proof (rule sstepI)
  assume I: "sched_inv (timers s) s"
  have "sids (fold (wake_group now) ws t) r k = sids t r k" if "\<forall>r. queue_wf (s_heap t r)" for ws t r k
    using that by (induction ws arbitrary: t) (simp_all add: wake_group_live)
  then have "sids (wheel_turn now s) r k = sids s r k" for r k
    using I by (simp add: wheel_turn_def sched_inv_def split: prod.split) (simp add: sids_def)
  then show "sched_inv (timers (wheel_turn now s)) (wheel_turn now s) \<and> (\<forall>r k. sids (wheel_turn now s) r k = sids s r k)"
    using wheel_turn_inv [OF I] by blast
qed

lemma sstep_register: "sstep {} {} s (RegisterQueue r s)" "sstep {} {} s (UnregisterQueue ns n s)"
  by (rule sstepI, simp add: sched_inv_def flag_def wake_of_def timers_def RegisterQueue_def UnregisterQueue_def sids_def)+

section \<open>Steps of the broker\<close>

text \<open>A step that adds no message and issues no identifier.\<close>

definition bquiet :: "(qref \<times> string \<times> string) set \<Rightarrow> Broker \<Rightarrow> Broker \<Rightarrow> bool" where
  "bquiet D b b' = (sstep D {} (b_Scheduler b) (b_Scheduler b') \<and> b_gen b' = b_gen b)"

lemma bq_same: "b_Scheduler b' = b_Scheduler b \<Longrightarrow> b_gen b' = b_gen b \<Longrightarrow> bquiet {} b b'"
  by (simp add: bquiet_def)

lemma bq_trans: "bquiet D b b' \<Longrightarrow> bquiet D' b' b'' \<Longrightarrow> bquiet (D \<union> D') b b''"
  using sstep_trans [of D "{}" "b_Scheduler b" "b_Scheduler b'" D' "{}"] by (simp add: bquiet_def)

lemma bq_then: "bquiet D b b' \<Longrightarrow> bquiet {} b' b'' \<Longrightarrow> bquiet D b b''"
  using bq_trans [of D b b' "{}" b''] by simp

lemma bq_first: "bquiet {} b b' \<Longrightarrow> bquiet D b' b'' \<Longrightarrow> bquiet D b b''"
  using bq_trans [of "{}" b b' D b''] by simp

lemma bq_mono: "bquiet D b b' \<Longrightarrow> D \<subseteq> D' \<Longrightarrow> bquiet D' b b'"
  using sstep_mono by (auto simp: bquiet_def)

lemma broker_frame [simp]:
  "b_Scheduler (on_conn c f b) = b_Scheduler b" "b_gen (on_conn c f b) = b_gen b"
  "b_Scheduler (quota_Release b) = b_Scheduler b" "b_gen (quota_Release b) = b_gen b"
  "b_Scheduler (DecGlobalMsgs b) = b_Scheduler b" "b_gen (DecGlobalMsgs b) = b_gen b"
  "b_Scheduler (snd (enqueueDispatch x m b)) = b_Scheduler b" "b_gen (snd (enqueueDispatch x m b)) = b_gen b"
  "b_gen (set_queue r q b) = b_gen b" "b_Scheduler (set_queue r q b) = put_queue r q (b_Scheduler b)"
  "b_gen (activate x r k b) = b_gen b" "b_Scheduler (activate x r k b) = Activate (o_now x) r k (b_Scheduler b)"
  "b_Scheduler (hand_on x nxt b) = b_Scheduler b" "b_gen (hand_on x nxt b) = b_gen b"
  by (simp_all add: on_conn_def quota_Release_def DecGlobalMsgs_def enqueueDispatch_def set_queue_def activate_def hand_on_def
      split: prod.split option.split)

lemma wal_Append_frame: "wal_Append x e b = (r, b') \<Longrightarrow> b_Scheduler b' = b_Scheduler b \<and> b_gen b' = b_gen b"
  by (auto simp: wal_Append_def split: prod.splits)

lemma enqueueDispatch_frame: "enqueueDispatch x m b = (ok, b') \<Longrightarrow> b_Scheduler b' = b_Scheduler b \<and> b_gen b' = b_gen b"
  using broker_frame(7,8) [of x m b] by simp

lemma bq_set: "(queue_wf (b_queue r b) \<Longrightarrow> qstep D {} (b_queue r b) q) \<Longrightarrow> bquiet ({r} \<times> D) b (set_queue r q b)"
  using sstep_put [of "b_Scheduler b" r D "{}" q] by (simp add: bquiet_def b_queue_def)

lemma bq_set_quiet: "(queue_wf (b_queue r b) \<Longrightarrow> qstep {} {} (b_queue r b) q) \<Longrightarrow> bquiet {} b (set_queue r q b)"
  using bq_set [of r b "{}" q] by simp

lemma bq_activate: "bquiet {} b (activate x r k b)"
  by (simp add: bquiet_def sstep_Activate)

lemma bq_return: "bquiet {} b (return_pending m b)"
  by (auto simp: return_pending_def bq_same split: option.split intro: bq_set_quiet ReturnToPending_qstep)

lemma bq_after:
  "b_Scheduler b = b_Scheduler b0 \<Longrightarrow> b_gen b = b_gen b0 \<Longrightarrow> bquiet {} b0 (return_pending m b)"
  by (rule bq_first [OF bq_same bq_return]) simp_all

lemma bq_dispatch_to: "dispatch_to x attempts m c b = (r, b') \<Longrightarrow> bquiet {} b b'"
  by (auto simp: dispatch_to_def Let_def split: prod.splits bool.splits option.splits outcome.splits
      intro!: bq_after intro: bq_same dest!: wal_Append_frame)

lemma bq_dispatch: "broker_dispatch x attempts m b = (r, b') \<Longrightarrow> bquiet {} b b'"
  by (auto simp: broker_dispatch_def split: prod.splits option.splits intro!: bq_after dest!: bq_dispatch_to)
    (simp_all add: bquiet_def)

lemma bq_dispatch_worker: "dispatch_worker x attempts i b = (r, b') \<Longrightarrow> bquiet {} b b'"
  by (auto simp: dispatch_worker_def bq_same split: if_splits list.splits dest!: bq_dispatch) (simp add: bquiet_def)

lemma bq_sched: "is_range_order (o_itm x) \<Longrightarrow> bquiet {} b (sched_worker x rnow b)"
  by (auto simp: sched_worker_def bquiet_def split: prod.split intro: sstep_worker)

lemma bq_sweep_leases: "sweep_leases x ls b = (r, b') \<Longrightarrow> bquiet {} b b'"
proof (induction x ls b rule: sweep_leases.induct)
  case (2 x l ls b)
  obtain res b1 where w: "wal_Append x (log_event EventExpire (el_Namespace l) (el_QueueName l) (el_GroupKey l) (el_MsgID l) []) b = (res, b1)"
    by fastforce
  then have f: "bquiet {} b b1" using wal_Append_frame bq_same by blast
  show ?case
  proof (cases res)
    case (Ret y)
    let ?b = "case sch_GetQueue (el_Namespace l) (el_QueueName l) (b_Scheduler b1) of None \<Rightarrow> b1 | Some r \<Rightarrow> activate x r (el_GroupKey l) b1"
    have "bquiet {} b1 ?b" by (simp add: bq_same bq_activate split: option.split)
    moreover have "bquiet {} ?b b'" using 2 w Ret by simp
    ultimately show ?thesis using f bq_first by blast
  next
    case (Panic p)
    then show ?thesis using 2(2) w f by simp
  qed
qed (simp add: bq_same)

lemma bq_sweep_queues: "sweep_queues x rs b = (r, b') \<Longrightarrow> bquiet {} b b'"
proof (induction x rs b rule: sweep_queues.induct)
  case (2 x r0 rs b)
  obtain ex q where s: "SweepExpiredLeases (o_itg x) (o_itm x) (o_now x) (b_queue r0 b) = (ex, q)" by fastforce
  obtain res b1 where l: "sweep_leases x ex (set_queue r0 q b) = (res, b1)" by fastforce
  have "bquiet {} b (set_queue r0 q b)" using Sweep_qstep [of "b_queue r0 b" "o_itg x" "o_itm x" "o_now x"] s by (intro bq_set_quiet) simp
  with bq_sweep_leases [OF l] have f: "bquiet {} b b1" using bq_first by blast
  show ?case
  proof (cases res)
    case (Ret y)
    then have "bquiet {} b1 b'" using 2(1) [OF s [symmetric] refl l [symmetric]] 2(2) s l by simp
    then show ?thesis using f bq_first by blast
  next
    case (Panic p)
    then show ?thesis using 2(2) s l f by simp
  qed
qed (simp add: bq_same)

lemma bq_activates: "bquiet {} b (fold (\<lambda>gs. activate x r (st_Key gs)) stats b)"
  by (induction stats arbitrary: b) (auto simp: bq_same intro: bq_first [OF bq_activate])

text \<open>Activation leaves the index of keys alone, so the pages end: the bound on their number is enough.\<close>

lemma activates_keyIdx: "q_keyIdx (b_queue r (fold (\<lambda>gs. activate x r (st_Key gs)) stats b)) = q_keyIdx (b_queue r b)"
proof -
  have t: "q_keyIdx (s_heap (on_token r k f s) r) = q_keyIdx (s_heap s r)" for k f s
    by (auto simp: on_token_def put_queue_def split: option.split)
  have "q_keyIdx (b_queue r (activate x r k b)) = q_keyIdx (b_queue r b)" for k b
    by (auto simp: activate_def b_queue_def Activate_def Let_def t split: option.split)
  then show ?thesis by (induction stats arbitrary: b) auto
qed

lemma activate_pages_ends:
  assumes "idx_wf (q_keyIdx (b_queue r b))" "length (remaining (q_keyIdx (b_queue r b)) cursor) < n"
  shows "activate_pages n x r cursor b \<noteq> None"
  using assms
proof (induction n x r cursor b rule: activate_pages.induct)
  case (2 n x r cursor b)
  let ?idx = "q_keyIdx (b_queue r b)"
  let ?r = "remaining ?idx cursor"
  obtain stats nxt where p: "PageGroupStats (b_queue r b) cursor 1000 = (stats, nxt)" by fastforce
  have nxt: "nxt = [] \<or> 1000 < length ?r \<and> nxt = ?r ! (1000 - 1)"
    using p by (auto simp: PageGroupStats_def pageLimit_def idx_page_eq [OF 2(2)] Let_def split: if_splits)
  show ?case
  proof (cases "nxt = []")
    case True
    then show ?thesis using p by (simp add: Let_def)
  next
    case False
    then have l: "1000 < length ?r" "nxt = ?r ! (1000 - 1)" using nxt by auto
    then have "remaining ?idx nxt = drop 1000 ?r" using remaining_drop [OF 2(2), of cursor 1000] False by simp
    then have "length (remaining ?idx nxt) < n" using 2(3) l(1) by simp
    then show ?thesis using 2(1) [OF p [symmetric] refl refl False] 2(2) p False by (simp add: Let_def activates_keyIdx)
  qed
qed simp

lemma activate_pages_enough:
  "idx_wf (q_keyIdx (b_queue r b)) \<Longrightarrow> \<exists>b'. activate_pages (Suc (length (idx_keys (q_keyIdx (b_queue r b))))) x r [] b = Some b'"
  using activate_pages_ends [of r b "[]"] by (simp add: remaining_def del: activate_pages.simps)

lemma bq_pages: "activate_pages n x r cursor b = Some b' \<Longrightarrow> bquiet {} b b'"
proof (induction n x r cursor b rule: activate_pages.induct)
  case (2 n x r cursor b)
  obtain stats nxt where p: "PageGroupStats (b_queue r b) cursor 1000 = (stats, nxt)" by fastforce
  let ?b = "fold (\<lambda>gs. activate x r (st_Key gs)) stats b"
  have "bquiet {} ?b b'" using 2(1) [OF p [symmetric] refl refl] 2(2) p by (auto simp: bq_same Let_def split: if_splits)
  with bq_activates show ?case using bq_first by blast
qed simp

lemma bq_subscribe: "bquiet {} b (onSubscribe x c f b)"
proof -
  let ?b = "b\<lparr>b_registry := reg_add (conn_ns c b) (sf_Queue f) (sf_Group f) c (b_registry b)\<rparr>"
  have s: "bquiet {} b ?b" by (rule bq_same) simp_all
  have "bquiet {} ?b (onSubscribe x c f b)"
    using bq_pages [of _ x _ "[]" ?b] bq_activate [of ?b]
    by (auto simp: onSubscribe_def Let_def bq_same simp del: activate_pages.simps split: option.split)
  with s show ?thesis using bq_first by blast
qed

lemma bq_deliver:
  assumes "pub_deliver x c r f b = (res, b')" and it: "is_range_order (o_itm x)"
  shows "bquiet {} b b'"
proof -
  let ?k = "pf_Group f"
  obtain t q where t: "TryDispatchOne (o_itm x) ?k (o_now x) (b_queue r b) = (t, q)" by fastforce
  have b1: "bquiet {} b (set_queue r q b)"
  proof (rule bq_set_quiet)
    assume "queue_wf (b_queue r b)"
    then show "qstep {} {} (b_queue r b) q" by (rule TryDispatchOne_qstep [OF _ it, of _ ?k "o_now x"]) (use t in simp)
  qed
  show ?thesis
  proof (cases t)
    case (Ret nxt)
    define b2 where "b2 = (case nxt of None \<Rightarrow> set_queue r q b
      | Some m \<Rightarrow> (case enqueueDispatch x m (set_queue r q b) of (True, b) \<Rightarrow> b
          | (False, b) \<Rightarrow> set_queue r (ReturnToPending ?k (m_ID m) (b_queue r b)) b))"
    have "bquiet {} (set_queue r q b) b2"
      unfolding b2_def
      by (auto simp: bq_same split: option.split prod.split bool.split dest!: enqueueDispatch_frame
          intro!: bq_first [OF bq_same bq_set_quiet] ReturnToPending_qstep)
    moreover have "bquiet {} b2 b'" using assms(1) t Ret bq_activate [of b2]
      by (auto simp: pub_deliver_def Let_def b2_def [symmetric] bq_same)
    ultimately show ?thesis using b1 bq_first by blast
  next
    case (Panic p)
    then show ?thesis using assms(1) t b1 by (simp add: pub_deliver_def)
  qed
qed

lemma bq_after_send:
  assumes "after_send x c f k b = (res, b')" and it: "is_range_order (o_itm x)"
  shows "bquiet {} b b'"
proof (cases "write_waiting (o_pick x) f (b_conns b c)")
  case None
  then show ?thesis using assms(1) by (simp add: after_send_def bq_same)
next
  case (Some cn)
  have "bquiet {} b (on_conn c (\<lambda>_. cn) b)" by (rule bq_same) simp_all
  moreover have "bquiet {} (on_conn c (\<lambda>_. cn) b) b'"
    using assms(1) Some bq_deliver [OF _ it] by (cases k) (auto simp: after_send_def bq_same)
  ultimately show ?thesis using bq_first by blast
qed

lemma bq_ack:
  assumes "onACK x c f b = (res, b')" and it: "is_range_order (o_itm x)"
  shows "bquiet (case sch_GetQueue (conn_ns c b) (af_Queue f) (b_Scheduler b) of None \<Rightarrow> {} | Some r \<Rightarrow> {(r, af_Group f, af_MsgID f)}) b b'"
proof -
  let ?b = "quota_Release (on_conn c ReleaseCredit b)"
  have ns: "conn_ns c ?b = conn_ns c b" by (simp add: conn_ns_def quota_Release_def on_conn_def ReleaseCredit_def)
  show ?thesis
  proof (cases "sch_GetQueue (conn_ns c b) (af_Queue f) (b_Scheduler b)")
    case None
    then show ?thesis using assms(1) ns by (auto simp: onACK_def Let_def intro: bq_same)
  next
    case (Some r)
    obtain w b1 where w: "wal_Append x (log_event EventACK (conn_ns c b) (af_Queue f) (af_Group f) (af_MsgID f) []) ?b = (w, b1)" by fastforce
    have b1: "bquiet {} b b1" using wal_Append_frame [OF w] by (intro bq_same) simp_all
    show ?thesis
    proof (cases "w = Ret None")
      case True
      let ?b2 = "DecGlobalMsgs b1"
      obtain nxt q where q: "CompleteAndNext (o_itm x) (af_Group f) (af_MsgID f) (o_now x) (b_queue r ?b2) = (nxt, q)" by fastforce
      have "bquiet ({r} \<times> {(af_Group f, af_MsgID f)}) ?b2 (set_queue r q ?b2)"
      proof (rule bq_set)
        assume "queue_wf (b_queue r ?b2)"
        then show "qstep {(af_Group f, af_MsgID f)} {} (b_queue r ?b2) q"
          by (rule CompleteAndNext_qstep [OF _ it, of _ "af_Group f" "af_MsgID f" "o_now x"]) (use q in simp)
      qed
      moreover have "bquiet {} (set_queue r q ?b2) b'"
        using assms(1) Some ns w True q by (auto simp: onACK_def Let_def bq_same bquiet_def sstep_Activate split: outcome.splits)
      moreover have "bquiet {} b1 ?b2" by (rule bq_same) simp_all
      ultimately have "bquiet {(r, af_Group f, af_MsgID f)} ?b2 b'" and "bquiet {} b ?b2"
        using bq_then [of _ ?b2 "set_queue r q ?b2" b'] bq_then [OF b1] by auto
      then show ?thesis using Some bq_first by auto
    next
      case False
      then have "b' = b1" using assms(1) Some ns w by (auto simp: onACK_def Let_def split: outcome.splits option.splits)
      then show ?thesis using bq_mono [OF b1] Some by simp
    qed
  qed
qed

lemma conn_end_frame [simp]: "b_Scheduler (conn_end c b) = b_Scheduler b" "b_gen (conn_end c b) = b_gen b"
proof -
  have "b_Scheduler ((quota_Release ^^ n) b) = b_Scheduler b \<and> b_gen ((quota_Release ^^ n) b) = b_gen b" for n
    by (induction n) simp_all
  then show "b_Scheduler (conn_end c b) = b_Scheduler b" "b_gen (conn_end c b) = b_gen b"
    by (simp_all add: conn_end_def Let_def)
qed

section \<open>Steps that issue identifiers\<close>

text \<open>A step that may add messages under the next identifier of the generator, and then uses it up.\<close>

definition next_id :: "Broker \<Rightarrow> string" where
  "next_id b = fst (newID (b_gen b))"

definition bnew :: "(qref \<times> string \<times> string) set \<Rightarrow> Broker \<Rightarrow> Broker \<Rightarrow> bool" where
  "bnew D b b' = (bquiet D b b'
     \<or> b_gen b' = snd (newID (b_gen b)) \<and> sstep D (UNIV \<times> UNIV \<times> {next_id b}) (b_Scheduler b) (b_Scheduler b'))"

definition fresh_next :: "Broker \<Rightarrow> bool" where
  "fresh_next b = (sched_inv (timers (b_Scheduler b)) (b_Scheduler b) \<and> (\<forall>r k. next_id b \<notin> sids (b_Scheduler b) r k))"

lemma fresh_quiet: "bquiet D b b' \<Longrightarrow> fresh_next b \<Longrightarrow> fresh_next b'"
  unfolding bquiet_def fresh_next_def sstep_def next_id_def by fastforce

lemma bnew_after: "bquiet D b b' \<Longrightarrow> bnew {} b' b'' \<Longrightarrow> bnew D b b''"
  using bq_then [of D b b' b''] sstep_trans [of D "{}" "b_Scheduler b" "b_Scheduler b'" "{}" _ "b_Scheduler b''"]
  by (auto simp: bnew_def bquiet_def next_id_def)

lemma dead_letter_new:
  assumes d: "dead_letter x c target b = (res, b')" and F: "fresh_next b"
  shows "bnew {} b b'"
proof (cases "\<exists>m r. snd target = Some m \<and> fst target \<noteq> [] \<and> sch_GetQueue (conn_ns c b) (fst target) (b_Scheduler b) = Some r")
  case True
  then obtain m r where m: "snd target = Some m" "fst target \<noteq> []" "sch_GetQueue (conn_ns c b) (fst target) (b_Scheduler b) = Some r" by blast
  obtain name where t: "target = (name, Some m)" using m(1) by (cases target) simp
  have "queue_wf (b_queue r b)" "fst (newID (b_gen b)) \<notin> ids (b_queue r b) (m_GroupKey m)"
    using F sched_inv_wf by (auto simp: fresh_next_def b_queue_def next_id_def sids_def)
  then obtain pr gen' q where p: "Publish (m_GroupKey m) (m_Payload m) (o_now x) (b_gen b) (b_queue r b) = (Ret pr, gen', q)"
    and q: "qstep {} {(m_GroupKey m, fst (newID (b_gen b)))} (b_queue r b) q" "gen' = b_gen b \<and> q = b_queue r b \<or> gen' = snd (newID (b_gen b))"
    by (rule Publish_qstep [where p = "m_Payload m" and now = "o_now x"])
  let ?b = "set_queue r q (b\<lparr>b_gen := gen'\<rparr>)"
  have "sstep {} {(r, m_GroupKey m, next_id b)} (b_Scheduler b) (b_Scheduler ?b)"
    using sstep_put [of "b_Scheduler b" r "{}" "{(m_GroupKey m, next_id b)}" q] q(1) by (simp add: b_queue_def next_id_def)
  moreover have "sstep {} {} (b_Scheduler b) (b_Scheduler ?b)" if "q = b_queue r b"
    using sstep_put_quiet [of "b_Scheduler b" r q] that qstep_refl by (simp add: b_queue_def)
  ultimately have "bnew {} b ?b" using q(2) sstep_mono [of "{}" _ "b_Scheduler b" "b_Scheduler ?b"]
    by (auto simp: bnew_def bquiet_def next_id_def)
  moreover have "b' = ?b \<or> b' = activate x r (m_GroupKey m) ?b"
    using d t m p by (auto simp: dead_letter_def Let_def)
  ultimately show ?thesis
    using sstep_then [OF _ sstep_Activate] by (auto simp: bnew_def bquiet_def)
next
  case False
  then have "b' = b" using d by (cases target) (auto simp: dead_letter_def split: option.splits if_splits)
  then show ?thesis by (simp add: bnew_def bq_same)
qed

lemma nack_new:
  assumes d: "onNACK x c f b = (res, b')" and F: "fresh_next b" and it: "is_range_order (o_itm x)"
  shows "bnew (case sch_GetQueue (conn_ns c b) (nf_Queue f) (b_Scheduler b) of None \<Rightarrow> {} | Some r \<Rightarrow> {(r, nf_Group f, nf_MsgID f)}) b b'"
proof -
  let ?b = "quota_Release (on_conn c ReleaseCredit b)"
  have ns: "conn_ns c ?b = conn_ns c b" by (simp add: conn_ns_def quota_Release_def on_conn_def ReleaseCredit_def)
  show ?thesis
  proof (cases "sch_GetQueue (conn_ns c b) (nf_Queue f) (b_Scheduler b)")
    case None
    then show ?thesis using d ns by (auto simp: onNACK_def Let_def bnew_def intro: bq_same)
  next
    case (Some r)
    obtain w b1 where w: "wal_Append x (log_event EventNACK (conn_ns c b) (nf_Queue f) (nf_Group f) (nf_MsgID f) []) ?b = (w, b1)" by fastforce
    have b1: "bquiet {} b b1" using wal_Append_frame [OF w] by (intro bq_same) simp_all
    show ?thesis
    proof (cases "w = Ret None")
      case True
      obtain nxt q where q: "FailAndNext (o_itm x) (nf_Group f) (nf_MsgID f) (nf_Reason f) (o_now x) (b_queue r b1) = (nxt, q)" by fastforce
      have "bquiet ({r} \<times> {(nf_Group f, nf_MsgID f)}) b1 (set_queue r q b1)"
      proof (rule bq_set)
        assume "queue_wf (b_queue r b1)"
        then show "qstep {(nf_Group f, nf_MsgID f)} {} (b_queue r b1) q"
          by (rule FailAndNext_qstep [OF _ it, of _ "nf_Group f" "nf_MsgID f" "nf_Reason f" "o_now x"]) (use q in simp)
      qed
      then have b2: "bquiet {(r, nf_Group f, nf_MsgID f)} b (set_queue r q b1)" using bq_first [OF b1] by simp
      show ?thesis
      proof (cases nxt)
        case (Panic p)
        then show ?thesis using d Some ns w True q b2 by (auto simp: onNACK_def Let_def bnew_def)
      next
        case (Ret y)
        obtain target n where y: "y = (target, n)" by fastforce
        define b3 where "b3 = activate x r (nf_Group f) (hand_on x n (if snd target \<noteq> None then DecGlobalMsgs (set_queue r q b1) else set_queue r q b1))"
        have "bquiet {} (set_queue r q b1) b3" by (simp add: b3_def bquiet_def sstep_Activate)
        then have b3: "bquiet {(r, nf_Group f, nf_MsgID f)} b b3" using bq_then [OF b2] by blast
        have "dead_letter x c target b3 = (res, b')" using d Some ns w True q Ret y by (simp add: onNACK_def Let_def b3_def)
        from dead_letter_new [OF this fresh_quiet [OF b3 F]] show ?thesis using bnew_after [OF b3] Some by simp
      qed
    next
      case False
      then have "b' = b1" using d Some ns w by (auto simp: onNACK_def Let_def split: outcome.splits option.splits)
      then show ?thesis using bq_mono [OF b1] Some by (simp add: bnew_def)
    qed
  qed
qed

lemma pub_start_step:
  assumes "pub_start x w c f b = (res, b')"
  shows "b_Scheduler b' = b_Scheduler b \<and> (b_gen b' = b_gen b \<or> b_gen b' = snd (newID (b_gen b)))
    \<and> (\<forall>r f' i w'. res = Ret (HWait r f' i w') \<longrightarrow> f' = f \<and> w' = w \<and> i = next_id b \<and> b_gen b' = snd (newID (b_gen b)))"
  using assms
  by (auto simp: pub_start_def IncGlobalMsgs_def GenerateID_def next_id_def Let_def
      split: option.splits prod.splits if_splits outcome.splits)

lemma pub_logged_step:
  assumes p: "pub_logged x err r f i b = (res, b')" and I: "sched_inv (timers (b_Scheduler b)) (b_Scheduler b)"
    and fresh: "i \<notin> sids (b_Scheduler b) r (pf_Group f)"
  shows "sstep {} {(r, pf_Group f, i)} (b_Scheduler b) (b_Scheduler b') \<and> (b_gen b' = b_gen b \<or> b_gen b' = snd (newID (b_gen b)))
    \<and> (\<exists>fr k. res = Ret (HSend fr k)) \<and> (\<forall>ok k. res = Ret (HSend (PublishOK ok) k) \<longrightarrow> err = None \<and> pok_MsgID ok = i \<and> i \<in> sids (b_Scheduler b') r (pf_Group f))"
proof (cases "err = None")
  case True
  have "queue_wf (b_queue r b)" "i \<notin> ids (b_queue r b) (pf_Group f)"
    using I fresh sched_inv_wf by (auto simp: b_queue_def sids_def)
  then obtain pr gen' q where pw: "PublishWithID (pf_Group f) i (pf_Payload f) (o_now x) (b_gen b) (b_queue r b) = (Ret pr, gen', q)"
    and q: "qstep {} {(pf_Group f, i)} (b_queue r b) q" "\<And>m. pr = Inr m \<Longrightarrow> m_ID m = i \<and> i \<in> ids q (pf_Group f)"
      "gen' = b_gen b \<or> gen' = snd (newID (b_gen b))"
    using PublishWithID_qstep [where p = "pf_Payload f" and now = "o_now x" and gen = "b_gen b" and thesis = thesis] by blast
  have b': "b' = set_queue r q (b\<lparr>b_gen := gen'\<rparr>)" using p pw True by (auto simp: pub_logged_def split: sum.splits)
  have "sstep {} {(r, pf_Group f, i)} (b_Scheduler b) (b_Scheduler b')"
    using sstep_put [of "b_Scheduler b" r "{}" "{(pf_Group f, i)}" q] q(1) by (simp add: b' b_queue_def)
  then show ?thesis using p pw True q(2,3)
    by (auto simp: pub_logged_def b' sids_put split: sum.splits)
next
  case False
  then show ?thesis using p sstep_mono [OF sstep_refl] by (auto simp: pub_logged_def)
qed

section \<open>Identifiers of a running broker\<close>

text \<open>An identifier that the generator will not issue again once it has issued \<open>n\<close> of them.\<close>

definition avoid :: "64 word \<Rightarrow> nat \<Rightarrow> string \<Rightarrow> bool" where
  "avoid p n i = (\<forall>j. n \<le> j \<and> Suc j < 2 ^ 64 \<longrightarrow> i \<noteq> nth_id p (of_nat (Suc j)))"

lemma avoid_Suc: "avoid p n i \<Longrightarrow> avoid p (Suc n) i"
  by (simp add: avoid_def del: of_nat_Suc)

lemma avoid_next: "avoid p (Suc n) (nth_id p (of_nat (Suc n)))"
  using nth_id_fresh [of n] by (auto simp: avoid_def simp del: of_nat_Suc)

text \<open>\<open>W\<close> gives the identifier each connection's handler holds while it waits for the log.\<close>

definition ids_ok :: "nat \<Rightarrow> idgen \<Rightarrow> Scheduler \<Rightarrow> (conn \<Rightarrow> string option) \<Rightarrow> bool" where
  "ids_ok n gen s W =
     (sched_inv (timers s) s \<and> msgIDCounter gen = of_nat n
      \<and> (\<forall>r k. \<forall>i \<in> sids s r k. avoid (initMsgIDPrefix gen) n i)
      \<and> (\<forall>c i. W c = Some i \<longrightarrow> avoid (initMsgIDPrefix gen) n i \<and> (\<forall>r k. i \<notin> sids s r k))
      \<and> (\<forall>c c' i. W c = Some i \<and> W c' = Some i \<longrightarrow> c = c'))"

lemma ids_quiet:
  assumes "ids_ok n gen s W" and "sstep D {} s s'" and "\<And>c i. W' c = Some i \<Longrightarrow> W c = Some i"
  shows "ids_ok n gen s' W'"
  using assms unfolding ids_ok_def sstep_def by (metis empty_iff)

lemma ids_next:
  assumes "ids_ok n gen s W" and "Suc n < 2 ^ 64"
  shows "(\<forall>r k. fst (newID gen) \<notin> sids s r k) \<and> (\<forall>c. W c \<noteq> Some (fst (newID gen)))"
proof -
  have i: "fst (newID gen) = nth_id (initMsgIDPrefix gen) (of_nat (Suc n))"
    using assms newID_step [of gen n] by (simp add: ids_ok_def del: of_nat_Suc)
  have "\<not> avoid (initMsgIDPrefix gen) n (fst (newID gen))" unfolding avoid_def i using assms(2) by blast
  then show ?thesis using assms(1) unfolding ids_ok_def by blast
qed

lemma ids_new:
  assumes ok: "ids_ok n gen s W" and n: "Suc n < 2 ^ 64" and st: "sstep D (UNIV \<times> UNIV \<times> {fst (newID gen)}) s s'"
  shows "ids_ok (Suc n) (snd (newID gen)) s' W"
proof -
  note nx = newID_step [of gen n] and fr = ids_next [OF ok n]
  have "avoid (initMsgIDPrefix gen) (Suc n) i" if "i \<in> sids s' r k" for r k i
  proof (cases "i \<in> sids s r k")
    case True
    then show ?thesis using ok avoid_Suc by (auto simp: ids_ok_def)
  next
    case False
    then have "i = fst (newID gen)" using ok st that unfolding ids_ok_def sstep_def by blast
    then show ?thesis using nx ok avoid_next by (simp add: ids_ok_def del: of_nat_Suc)
  qed
  moreover have "i \<notin> sids s' r k" if "W c = Some i" for c i r k
    using ok st that fr unfolding ids_ok_def sstep_def by blast
  ultimately show ?thesis using ok st nx avoid_Suc unfolding ids_ok_def sstep_def by auto
qed

lemma ids_advance:
  assumes ok: "ids_ok n gen s W" and n: "Suc n < 2 ^ 64"
  shows "ids_ok (Suc n) (snd (newID gen)) s W" "ids_ok (Suc n) (snd (newID gen)) s (W(c := Some (fst (newID gen))))"
proof -
  show a: "ids_ok (Suc n) (snd (newID gen)) s W" using ids_new [OF ok n] sstep_mono [OF sstep_refl] by blast
  have "avoid (initMsgIDPrefix (snd (newID gen))) (Suc n) (fst (newID gen))"
    using ok newID_step [of gen n] avoid_next by (simp add: ids_ok_def del: of_nat_Suc)
  then show "ids_ok (Suc n) (snd (newID gen)) s (W(c := Some (fst (newID gen))))"
    using a ids_next [OF ok n] unfolding ids_ok_def by (auto split: if_splits)
qed

lemma ids_take:
  assumes ok: "ids_ok n gen s W" and c: "W c = Some i" and st: "sstep D {(r, k, i)} s s'"
  shows "ids_ok n gen s' (W(c := None))"
proof -
  have "i' \<notin> sids s' r' k'" if "W c' = Some i'" "c' \<noteq> c" for c' i' r' k'
    using ok st that c unfolding ids_ok_def sstep_def by blast
  moreover have "avoid (initMsgIDPrefix gen) n i'" if "i' \<in> sids s' r' k'" for i' r' k'
    using ok st that c unfolding ids_ok_def sstep_def by blast
  ultimately show ?thesis using ok st unfolding ids_ok_def sstep_def by auto
qed

section \<open>Steps of the system\<close>

definition waits_for :: "System \<Rightarrow> conn \<Rightarrow> string option" where
  "waits_for s c = (case y_h s c of HWait r f i w \<Rightarrow> Some i | _ \<Rightarrow> None)"

definition sys_inv :: "nat \<Rightarrow> System \<Rightarrow> bool" where
  "sys_inv n s = ids_ok n (b_gen (y_b s)) (b_Scheduler (y_b s)) (waits_for s)"

definition held :: "System \<Rightarrow> qref \<Rightarrow> string \<Rightarrow> string set" where
  "held s r k = ids (b_queue r (y_b s)) k"

lemma held_sids: "held s r k = sids (b_Scheduler (y_b s)) r k"
  by (simp add: held_def sids_def b_queue_def)

definition keeps :: "obs list \<Rightarrow> System \<Rightarrow> System \<Rightarrow> bool" where
  "keeps os s s' = ((\<forall>r k. \<forall>i \<in> held s r k. i \<in> held s' r k \<or> Settled r k i \<in> set os)
     \<and> (\<forall>r f i. Confirmed r f i \<in> set os \<longrightarrow> os = [Confirmed r f i] \<and> i \<in> held s' r (pf_Group f)))"

definition good :: "nat \<Rightarrow> obs list \<Rightarrow> System \<Rightarrow> System \<Rightarrow> bool" where
  "good n os s s' = ((sys_inv n s' \<or> sys_inv (Suc n) s') \<and> keeps os s s')"

text \<open>What the environment of a step must respect: ranges over maps visit each key once, and rate limits are positive.\<close>

fun act_ok :: "bact \<Rightarrow> bool" where
  "act_ok (FrameAct x c) = is_range_order (o_itm x)"
| "act_ok (LoggedAct x c t) = is_range_order (o_itm x)"
| "act_ok (SendAct x c) = is_range_order (o_itm x)"
| "act_ok (DispatchAct x n i) = is_range_order (o_itm x)"
| "act_ok (SchedAct x t) = is_range_order (o_itm x)"
| "act_ok (SweepAct x) = is_range_order (o_itm x)"
| "act_ok (ConfigAct r cfg) = config_ok cfg"
| "act_ok _ = True"

lemma keeps_sstep:
  assumes I: "sys_inv n s" and st: "sstep D A (b_Scheduler (y_b s)) (b_Scheduler (y_b s'))"
    and D: "\<And>r k i. (r, k, i) \<in> D \<Longrightarrow> Settled r k i \<in> set os" and C: "\<And>r f i. Confirmed r f i \<notin> set os"
  shows "keeps os s s'"
proof -
  have "i \<in> held s' r k \<or> (r, k, i) \<in> D" if "i \<in> held s r k" for r k i
    using I st that unfolding held_sids sys_inv_def ids_ok_def sstep_def by blast
  then show ?thesis using D C unfolding keeps_def by blast
qed

lemma good_quiet:
  assumes I: "sys_inv n s" and q: "bquiet D (y_b s) (y_b s')" and W: "\<And>c i. waits_for s' c = Some i \<Longrightarrow> waits_for s c = Some i"
    and D: "\<And>r k i. (r, k, i) \<in> D \<Longrightarrow> Settled r k i \<in> set os" and C: "\<And>r f i. Confirmed r f i \<notin> set os"
  shows "good n os s s'"
  using keeps_sstep [OF I _ D C] ids_quiet [OF _ _ W] I q by (auto simp: good_def sys_inv_def bquiet_def)

lemma good_idle: "sys_inv n s \<Longrightarrow> bquiet {} (y_b s) (y_b s') \<Longrightarrow> y_h s' = y_h s \<Longrightarrow> good n [] s s'"
  by (rule good_quiet) (auto simp: waits_for_def)

lemma good_new:
  assumes I: "sys_inv n s" and n: "Suc n < 2 ^ 64" and q: "bnew D (y_b s) (y_b s')" and W: "\<And>c i. waits_for s' c = Some i \<Longrightarrow> waits_for s c = Some i"
    and D: "\<And>r k i. (r, k, i) \<in> D \<Longrightarrow> Settled r k i \<in> set os" and C: "\<And>r f i. Confirmed r f i \<notin> set os"
  shows "good n os s s'"
proof (cases "bquiet D (y_b s) (y_b s')")
  case True
  then show ?thesis using good_quiet [OF I _ W D C] by blast
next
  case False
  then have g: "b_gen (y_b s') = snd (newID (b_gen (y_b s)))"
    and st: "sstep D (UNIV \<times> UNIV \<times> {fst (newID (b_gen (y_b s)))}) (b_Scheduler (y_b s)) (b_Scheduler (y_b s'))"
    using q by (simp_all add: bnew_def next_id_def)
  have "ids_ok (Suc n) (b_gen (y_b s')) (b_Scheduler (y_b s')) (waits_for s)"
    using ids_new [OF _ n st] I by (simp add: sys_inv_def g)
  then have "sys_inv (Suc n) s'" unfolding sys_inv_def using ids_quiet sstep_refl W by blast
  then show ?thesis using keeps_sstep [OF I st D C] by (simp add: good_def)
qed

lemma good_resume_quiet:
  assumes I: "sys_inv n s" and r: "resume c (res, b) s0 = s'" and s0: "y_h s0 = y_h s"
    and q: "bquiet D (y_b s) b" and h: "\<And>r f i w. res \<noteq> Ret (HWait r f i w)"
    and D: "\<And>r k i. (r, k, i) \<in> D \<Longrightarrow> Settled r k i \<in> set os" and C: "\<And>r f i. Confirmed r f i \<notin> set os"
  shows "good n os s s'"
proof (rule good_quiet [OF I _ _ D C])
  show "bquiet D (y_b s) (y_b s')" using r q by (cases res) (auto simp: resume_def bquiet_def)
  show "waits_for s' c' = Some i \<Longrightarrow> waits_for s c' = Some i" for c' i
    using r s0 by (cases res) (auto simp: resume_def waits_for_def h split: hstate.splits if_splits)
qed

lemma good_resume_new:
  assumes I: "sys_inv n s" and n: "Suc n < 2 ^ 64" and r: "resume c (res, b) s0 = s'" and s0: "y_h s0 = y_h s"
    and q: "bnew D (y_b s) b" and h: "\<And>r f i w. res \<noteq> Ret (HWait r f i w)"
    and D: "\<And>r k i. (r, k, i) \<in> D \<Longrightarrow> Settled r k i \<in> set os" and C: "\<And>r f i. Confirmed r f i \<notin> set os"
  shows "good n os s s'"
proof (rule good_new [OF I n _ _ D C])
  show "bnew D (y_b s) (y_b s')" using r q by (cases res) (auto simp: resume_def bquiet_def bnew_def)
  show "waits_for s' c' = Some i \<Longrightarrow> waits_for s c' = Some i" for c' i
    using r s0 by (cases res) (auto simp: resume_def waits_for_def h split: hstate.splits if_splits)
qed

lemma publish_good:
  assumes I: "sys_inv n s" and n: "Suc n < 2 ^ 64" and r: "resume c (pub_start x w c f b) s0 = s'" and s0: "y_h s0 = y_h s"
    and b: "b_Scheduler b = b_Scheduler (y_b s)" "b_gen b = b_gen (y_b s)"
  shows "good n [] s s'"
proof -
  obtain res b' where p: "pub_start x w c f b = (res, b')" by fastforce
  note st = pub_start_step [OF p]
  show ?thesis
  proof (cases "\<exists>r f i w. res = Ret (HWait r f i w)")
    case True
    then obtain r f' i w' where res: "res = Ret (HWait r f' i w')" by blast
    then have s': "s' = s0\<lparr>y_b := b', y_h := (y_h s)(c := HWait r f' i w')\<rparr>" using assms(3) p s0 by (simp add: resume_def)
    have "waits_for s' = (waits_for s)(c := Some i)" by (rule ext) (simp add: s' waits_for_def)
    then have "sys_inv (Suc n) s'"
      using ids_advance(2) [OF I [unfolded sys_inv_def] n, of c] st res b by (simp add: sys_inv_def s' next_id_def)
    moreover have "keeps [] s s'" by (rule keeps_sstep [OF I, of "{}" "{}"]) (use st b in \<open>simp_all add: s'\<close>)
    ultimately show ?thesis by (simp add: good_def)
  next
    case False
    have "bnew {} (y_b s) b'"
      using st b sstep_mono [OF sstep_refl] by (auto simp: bnew_def bquiet_def next_id_def)
    then show ?thesis using good_resume_new [OF I n r [unfolded p] s0, of "{}" "[]"] False by simp
  qed
qed

lemma frame_good:
  assumes I: "sys_inv n s" and n: "Suc n < 2 ^ 64" and it: "is_range_order (o_itm x)" and r: "handle_frame x c s = (os, s')"
  shows "good n os s s'"
proof -
  obtain rd cn where rd: "conn_ReadFrame (b_conns (y_b s) c) = (rd, cn)" by fastforce
  let ?b = "on_conn c (\<lambda>_. cn) (y_b s)" and ?s = "s\<lparr>y_waiter := Suc (y_waiter s)\<rparr>"
  have b: "bquiet {} (y_b s) ?b" by (rule bq_same) simp_all
  have F: "fresh_next ?b" using I ids_next [OF I [unfolded sys_inv_def] n]
    by (simp add: fresh_next_def next_id_def sys_inv_def ids_ok_def)
  show ?thesis
  proof (cases rd)
    case (Inl err)
    have "good n [] s (s\<lparr>y_b := conn_end c ?b, y_h := (y_h s)(c := HClosed)\<rparr>)"
      by (rule good_quiet [OF I, of "{}"]) (simp_all add: bq_same waits_for_def split: hstate.splits if_splits)
    then show ?thesis using r rd Inl by (simp add: handle_frame_def)
  next
    case (Inr f)
    have os: "os = settles c f ?b" and s': "resume c (on_frame x (y_waiter s) c f ?b) ?s = s'"
      using r rd Inr by (simp_all add: handle_frame_def Let_def)
    have quiet: "good n [] s (resume c (Ret h, b') ?s)" if "\<And>r f i w. h \<noteq> HWait r f i w" "bquiet {} ?b b'" for h b'
      by (rule good_resume_quiet [OF I refl _ bq_first [OF b that(2)]]) (use that(1) in simp_all)
    show ?thesis
    proof (cases f)
      case (PublishF pf)
      then show ?thesis using publish_good [OF I n, of c x "y_waiter s" pf ?b ?s s'] s' os by (simp add: on_frame_def)
    next
      case (ACK af)
      obtain res b' where a: "onACK x c af ?b = (res, b')" by fastforce
      note q = bq_first [OF b bq_ack [OF a it]]
      have r': "resume c (map_outcome (\<lambda>_. HRead) res, b') ?s = s'" using s' ACK a by (simp add: on_frame_def)
      have "map_outcome (\<lambda>_. HRead) res \<noteq> Ret (HWait r f i w)" for r f i w by (cases res) simp_all
      moreover have "Settled r k i \<in> set os" if "(r, k, i) \<in> (case sch_GetQueue (conn_ns c ?b) (af_Queue af) (b_Scheduler ?b) of None \<Rightarrow> {} | Some r \<Rightarrow> {(r, af_Group af, af_MsgID af)})" for r k i
        using that by (cases "sch_GetQueue (conn_ns c ?b) (af_Queue af) (b_Scheduler ?b)") (simp_all add: os ACK)
      moreover have "Confirmed r k i \<notin> set os" for r k i by (simp add: os ACK split: option.split)
      ultimately show ?thesis using good_resume_quiet [OF I r' _ q] by simp
    next
      case (NACK nf)
      obtain res b' where a: "onNACK x c nf ?b = (res, b')" by fastforce
      have q: "bnew (case sch_GetQueue (conn_ns c ?b) (nf_Queue nf) (b_Scheduler ?b) of None \<Rightarrow> {} | Some r \<Rightarrow> {(r, nf_Group nf, nf_MsgID nf)}) (y_b s) b'"
        using nack_new [OF a F it] by (simp add: bnew_def bquiet_def next_id_def)
      have r': "resume c (map_outcome (\<lambda>_. HRead) res, b') ?s = s'" using s' NACK a by (simp add: on_frame_def)
      have "map_outcome (\<lambda>_. HRead) res \<noteq> Ret (HWait r f i w)" for r f i w by (cases res) simp_all
      moreover have "Settled r k i \<in> set os" if "(r, k, i) \<in> (case sch_GetQueue (conn_ns c ?b) (nf_Queue nf) (b_Scheduler ?b) of None \<Rightarrow> {} | Some r \<Rightarrow> {(r, nf_Group nf, nf_MsgID nf)})" for r k i
        using that by (cases "sch_GetQueue (conn_ns c ?b) (nf_Queue nf) (b_Scheduler ?b)") (simp_all add: os NACK)
      moreover have "Confirmed r k i \<notin> set os" for r k i by (simp add: os NACK split: option.split)
      ultimately show ?thesis using good_resume_new [OF I n r' _ q] by simp
    qed (use os s' quiet bq_same bq_subscribe in \<open>auto simp: on_frame_def\<close>)
  qed
qed

lemma logged_good:
  assumes I: "sys_inv n s" and n: "Suc n < 2 ^ 64" and r: "handle_logged x c t s = (os, s')"
  shows "good n os s s'"
proof (cases "\<exists>r f i w err. y_h s c = HWait r f i w \<and> (if t then Some (Some ErrSyncTimeout) else map_of (y_answers s) w) = Some err")
  case True
  then obtain q f i w err where h: "y_h s c = HWait q f i w"
    and a: "(if t then Some (Some ErrSyncTimeout) else map_of (y_answers s) w) = Some err" by blast
  have W: "waits_for s c = Some i" by (simp add: waits_for_def h)
  obtain res b' where p: "pub_logged x err q f i (y_b s) = (res, b')" by fastforce
  have fresh: "i \<notin> sids (b_Scheduler (y_b s)) q (pf_Group f)" and "sched_inv (timers (b_Scheduler (y_b s))) (b_Scheduler (y_b s))"
    using I W unfolding sys_inv_def ids_ok_def by blast+
  note st = pub_logged_step [OF p this(2,1)]
  then obtain fr k where res: "res = Ret (HSend fr k)" by blast
  have s': "s' = s\<lparr>y_b := b', y_h := (y_h s)(c := HSend fr k)\<rparr>"
    and os: "os = (case fr of PublishOK ok \<Rightarrow> [Confirmed q f (pok_MsgID ok)] | _ \<Rightarrow> [])"
    using r h a p res by (simp_all add: handle_logged_def resume_def Let_def split: frame.splits)
  have sW: "waits_for s' = (waits_for s)(c := None)" by (rule ext) (simp add: s' waits_for_def)
  have i: "ids_ok n (b_gen (y_b s)) (b_Scheduler b') (waits_for s')"
    unfolding sW using ids_take [OF I [unfolded sys_inv_def] W] st by blast
  then have "sys_inv n s' \<or> sys_inv (Suc n) s'"
    using st ids_advance(1) [OF i n] by (auto simp: sys_inv_def s')
  moreover have "keeps os s s'"
  proof -
    have "keeps [] s s'" by (rule keeps_sstep [OF I, of "{}"]) (use st in \<open>auto simp: s'\<close>)
    moreover have "\<forall>ok. fr = PublishOK ok \<longrightarrow> pok_MsgID ok = i \<and> i \<in> held s' q (pf_Group f)"
      using st res by (simp add: held_sids s')
    ultimately show ?thesis by (auto simp: keeps_def os split: frame.splits)
  qed
  ultimately show ?thesis by (simp add: good_def)
next
  case False
  then have "os = []" "s' = s" using r by (auto simp: handle_logged_def split: hstate.splits option.splits if_splits)
  then show ?thesis using good_idle [OF I] bq_same by simp
qed

lemma send_good:
  assumes I: "sys_inv n s" and it: "is_range_order (o_itm x)"
  shows "good n [] s (resume c (after_send x c f k (y_b s)) s)"
proof -
  obtain res b' where a: "after_send x c f k (y_b s) = (res, b')" by fastforce
  have "res \<noteq> Ret (HWait r f' i w)" for r f' i w
    using a by (auto simp: after_send_def pub_deliver_def Let_def split: option.splits hafter.splits prod.splits outcome.splits)
  from good_resume_quiet [OF I refl refl bq_after_send [OF a it] this] show ?thesis using a by simp
qed

lemma act_good:
  assumes I: "sys_inv n s" and n: "Suc n < 2 ^ 64" and ok: "act_ok a" and r: "sys_act a s = (os, s')"
  shows "good n os s s'"
proof (cases a)
  case (OpenAct c addr input m it authSvc)
  have "good n [] s (open_conn c addr input m it authSvc s)"
    by (rule good_quiet [OF I, of "{}"]) (auto simp: open_conn_def bq_same waits_for_def split: prod.splits hstate.splits if_splits)
  then show ?thesis using r OpenAct good_idle [OF I, of s] bq_same by (auto split: if_splits)
next
  case (FrameAct x c)
  then show ?thesis using r ok frame_good [OF I n] good_idle [OF I, of s] bq_same by (auto split: if_splits)
next
  case (LoggedAct x c t)
  then show ?thesis using r logged_good [OF I n] by simp
next
  case (SendAct x c)
  then show ?thesis using r ok send_good [OF I] good_idle [OF I, of s] bq_same by (auto split: hstate.splits)
next
  case (DispatchAct x m i)
  then show ?thesis using r good_idle [OF I] bq_same bq_dispatch_worker
    by (auto split: if_splits prod.splits outcome.splits)
next
  case (SchedAct x t)
  then show ?thesis using r ok good_idle [OF I] bq_sched by auto
next
  case (TickAct t)
  then show ?thesis using r good_idle [OF I] by (auto simp: bquiet_def sstep_wheel)
next
  case (SweepAct x)
  then show ?thesis using r good_idle [OF I] bq_same bq_sweep_queues
    by (auto simp: sweepLeases_def split: if_splits prod.splits outcome.splits)
next
  case (LogAct key ios sel)
  then show ?thesis using r good_idle [OF I, of s'] bq_same
    by (auto simp: log_turn_def Let_def split: option.splits prod.splits)
next
  case (DeclareAct q)
  then show ?thesis using r good_idle [OF I, of s'] by (auto simp: registerQueueWithWAL_def bquiet_def sstep_register Let_def)
next
  case (UndeclareAct ns name)
  then show ?thesis using r good_idle [OF I, of s'] by (auto simp: bquiet_def sstep_register)
next
  case (ConfigAct q cfg)
  then have "bquiet {} (y_b s) (set_queue q (SetGroupConfig cfg (b_queue q (y_b s))) (y_b s))"
    using ok by (intro bq_set_quiet SetGroupConfig_qstep) simp_all
  then show ?thesis using r ConfigAct good_idle [OF I, of s'] by auto
next
  case (ConnWriterAct c stop)
  then show ?thesis using r good_idle [OF I, of s'] by (auto simp: bq_same)
next
  case (DestroyAct ns name ios rm)
  then show ?thesis using r good_idle [OF I, of s'] bq_same by (auto simp: destroy_log_def split: prod.splits)
next
  case (SnapStartAct key)
  then show ?thesis using r good_idle [OF I, of s'] bq_same by (auto simp: snap_start_def Let_def split: option.splits prod.splits)
next
  case (SnapSaveAct x key q itg wr)
  then show ?thesis using r good_idle [OF I, of s'] bq_same by (auto simp: snap_save_def Let_def split: option.splits)
next
  case (SetDurableAct ns name dur)
  then show ?thesis using r good_idle [OF I, of s'] bq_same by auto
next
  case (BreakAct c k)
  then show ?thesis using r good_idle [OF I, of s'] by (auto simp: bq_same)
qed

lemma run_good:
  assumes "sys_run as s = (os, s')" "sys_inv n s" "n + length as < 2 ^ 64" "list_all act_ok as"
  shows "(\<forall>r k. \<forall>i \<in> held s r k. i \<in> held s' r k \<or> Settled r k i \<in> set os)
    \<and> (\<forall>r f i xs ys. os = xs @ Confirmed r f i # ys \<longrightarrow> i \<in> held s' r (pf_Group f) \<or> Settled r (pf_Group f) i \<in> set ys)"
  using assms
proof (induction as arbitrary: s os n)
  case (Cons a as)
  obtain o1 s1 where a: "sys_act a s = (o1, s1)" by fastforce
  obtain o2 where rest: "sys_run as s1 = (o2, s')" and os: "os = o1 @ o2"
    using Cons.prems(1) a by (auto split: prod.splits)
  have g: "good n o1 s s1" using act_good [OF Cons.prems(2) _ _ a] Cons.prems(3,4) by simp
  then have "sys_inv n s1 \<or> sys_inv (Suc n) s1" by (simp add: good_def)
  then obtain n' where "sys_inv n' s1" "n' \<le> Suc n" by (elim disjE) (rule that, assumption, simp)+
  then have "sys_inv n' s1" "n' + length as < 2 ^ 64" "list_all act_ok as" using Cons.prems(3,4) by simp_all
  then have IH: "(\<forall>r k. \<forall>i \<in> held s1 r k. i \<in> held s' r k \<or> Settled r k i \<in> set o2)
    \<and> (\<forall>r f i xs ys. o2 = xs @ Confirmed r f i # ys \<longrightarrow> i \<in> held s' r (pf_Group f) \<or> Settled r (pf_Group f) i \<in> set ys)"
    by (rule Cons.IH [OF rest])
  have "i \<in> held s' r (pf_Group f) \<or> Settled r (pf_Group f) i \<in> set ys" if e: "os = xs @ Confirmed r f i # ys" for r f i xs ys
  proof (cases "\<exists>zs. o2 = zs @ Confirmed r f i # ys")
    case False
    then obtain u where "o1 = xs @ u" "u @ o2 = Confirmed r f i # ys" using e by (auto simp: os append_eq_append_conv2)
    moreover from this have "u \<noteq> []" using False append_Nil by metis
    ultimately obtain us where "o1 = xs @ Confirmed r f i # us" "ys = us @ o2" by (cases u) auto
    moreover have "Confirmed r f i \<in> set o1 \<longrightarrow> o1 = [Confirmed r f i] \<and> i \<in> held s1 r (pf_Group f)"
      using g unfolding good_def keeps_def by blast
    ultimately show ?thesis using IH by auto
  qed (use IH in blast)
  moreover have "i \<in> held s' r k \<or> Settled r k i \<in> set os" if "i \<in> held s r k" for r k i
    using g IH that unfolding good_def keeps_def os by fastforce
  ultimately show ?case by blast
qed simp

end
