(* ===== verification/Wal_Props.thy ===== *)
theory Wal_Props
  imports Wal
begin

text \<open>
  Properties of the write-ahead log: the writer answers every waiting publisher exactly once, on
  every path; and an event whose publisher was told of success can be read back from its segment,
  however the writer's iterations, system call failures, rotations and appends interleave, and, with
  fsync on, however much of the unsynchronised tails a power failure destroys.
\<close>

section \<open>Answers\<close>

definition waiters :: "(Event \<times> nat option) list \<Rightarrow> nat multiset" where
  "waiters es = mset (List.map_filter snd es)"

definition waiting :: "QueueWAL \<Rightarrow> nat multiset" where
  "waiting q = waiters (qw_ch q) + waiters (qw_batch q)"

lemma waiters_simps [simp]:
  "waiters [] = {#}" "waiters (es @ fs) = waiters es + waiters fs"
  "waiters ((e, None) # es) = waiters es" "waiters ((e, Some w) # es) = add_mset w (waiters es)"
  by (simp_all add: waiters_def map_filter_simps map_filter_def)

lemma signalDone_answers [simp]: "image_mset fst (mset (signalDone err es)) = waiters es"
  by (induction es) (auto simp: signalDone_def waiters_def map_filter_simps split: option.splits)

text \<open>The writer's disk work touches neither the channel nor the batch.\<close>

definition io_frame :: "QueueWAL \<Rightarrow> QueueWAL \<Rightarrow> bool" where
  "io_frame q q' = (qw_ch q' = qw_ch q \<and> qw_batch q' = qw_batch q \<and> qw_done q' = qw_done q \<and> qw_cfg q' = qw_cfg q)"

lemma io_frame_refl [simp]: "io_frame q q"
  by (simp add: io_frame_def)

lemma io_frame_trans: "io_frame q q' \<Longrightarrow> io_frame q' q'' \<Longrightarrow> io_frame q q''"
  by (simp add: io_frame_def)

lemma writeBatch_frame: "io_frame q (writeBatch clock i b q)"
proof (induction b arbitrary: i q)
  case (Cons x b)
  obtain e d where "x = (e, d)" by (cases x)
  then obtain q1 where q1: "writeBatch clock i (x # b) q = writeBatch clock (Suc i) b q1" "io_frame q q1"
    by (simp add: Let_def qw_writeRecord_def io_frame_def)
  from io_frame_trans [OF q1(2) Cons.IH] q1(1) show ?case by simp
qed simp

lemma log_Flush_frame: "log_Flush io q = (r, q') \<Longrightarrow> io_frame q q'"
  by (auto simp: log_Flush_def io_frame_def split: if_splits option.splits)

lemma idx_Flush_frame: "io_frame q (idx_Flush io q)"
  by (auto simp: idx_Flush_def io_frame_def split: option.splits)

lemma openSegment_frame: "openSegment io q = (r, q') \<Longrightarrow> io_frame q q'"
  by (auto simp: openSegment_def Let_def io_frame_def split: option.splits)

lemma rotateSegment_frame: "io_frame q (rotateSegment io q)"
proof -
  obtain r q' where o: "openSegment io (q\<lparr>qw_segmentID := qw_segmentID q + 1, qw_fileSize := 0\<rparr>) = (r, q')"
    by (cases "openSegment io (q\<lparr>qw_segmentID := qw_segmentID q + 1, qw_fileSize := 0\<rparr>)")
  from openSegment_frame [OF o] show ?thesis
    by (auto simp: rotateSegment_def o Let_def io_frame_def split: option.splits)
qed

lemma flushBatch_answers:
  assumes "flushBatch io batch q = (a, q')"
  shows "image_mset fst (mset a) = waiters batch \<and> io_frame q q'"
proof (cases "batch = []")
  case True
  with assms show ?thesis by (simp add: flushBatch_def)
next
  case False
  let ?q1 = "writeBatch (io_clock io) 0 batch q"
  obtain r q2 where f: "log_Flush io ?q1 = (r, q2)" by (cases "log_Flush io ?q1")
  have fr: "io_frame q q2" by (rule io_frame_trans [OF writeBatch_frame log_Flush_frame [OF f]])
  have se: "io_frame q (io_failed e q2)" for e using fr by (simp add: io_failed_def SetErr_def io_frame_def)
  have syn: "io_frame q (q2\<lparr>qw_synced := s\<rparr>)" for s using fr by (simp add: io_frame_def)
  have rest: "io_frame q (idx_Flush io q3)" "io_frame q (rotateSegment io (idx_Flush io q3\<lparr>qw_snapGo := n\<rparr>))"
    if "io_frame q q3" for q3 n
  proof -
    show *: "io_frame q (idx_Flush io q3)" by (rule io_frame_trans [OF that idx_Flush_frame])
    then have "io_frame q (idx_Flush io q3\<lparr>qw_snapGo := n\<rparr>)" by (simp add: io_frame_def)
    then show "io_frame q (rotateSegment io (idx_Flush io q3\<lparr>qw_snapGo := n\<rparr>))"
      by (rule io_frame_trans [OF _ rotateSegment_frame])
  qed
  from assms False f se rest [OF fr] rest [OF syn] show ?thesis
    by (auto simp: flushBatch_def Let_def split: option.splits if_splits)
qed

text \<open>Between iterations, a failed log has an empty batch: its events have been answered.\<close>

definition batch_ok :: "QueueWAL \<Rightarrow> bool" where
  "batch_ok q = (qw_errored q \<noteq> None \<longrightarrow> qw_batch q = [])"

lemma flush_answers:
  "flush io q = (a, q') \<Longrightarrow> image_mset fst (mset a) + waiting q' = waiting q \<and> qw_batch q' = []
     \<and> qw_ch q' = qw_ch q \<and> qw_done q' = qw_done q \<and> qw_cfg q' = qw_cfg q"
  using flushBatch_answers [of io "qw_batch q" "q\<lparr>qw_batch := []\<rparr>" a q']
  by (auto simp: flush_def waiting_def io_frame_def split: if_splits)

lemma take_event_answers:
  assumes "take_event io q = (a, q')"
  shows "image_mset fst (mset a) + waiting q' = waiting q \<and> qw_ch q' = tl (qw_ch q) \<and> qw_done q' = qw_done q"
proof (cases "qw_ch q")
  case Nil
  with assms show ?thesis by (simp add: take_event_def)
next
  case (Cons e rest)
  have w: "waiters (e # rest) = waiters [e] + waiters rest" using waiters_simps(2) [of "[e]" rest] by simp
  from Cons assms flush_answers [of io "q\<lparr>qw_ch := rest, qw_batch := qw_batch q @ [e]\<rparr>" a q'] show ?thesis
    by (auto simp: take_event_def Let_def waiting_def w split: if_splits)
qed

lemma drain_answers:
  "drain ios n q = (a, q') \<Longrightarrow> image_mset fst (mset a) + waiting q' = waiting q \<and> qw_ch q' = drop n (qw_ch q)
     \<and> qw_done q' = qw_done q"
proof (induction ios n q arbitrary: a q' rule: drain.induct)
  case (2 ios n q)
  obtain a1 q1 where t: "take_event (ios (Suc n)) q = (a1, q1)" by (cases "take_event (ios (Suc n)) q")
  obtain a2 q2 where d: "drain ios n q1 = (a2, q2)" by (cases "drain ios n q1")
  from 2(2) t d have e: "a = a1 @ a2" "q' = q2" by auto
  note IH = 2(1) [OF t [symmetric] refl d] and T = take_event_answers [OF t]
  have "image_mset fst (mset a) + waiting q' = image_mset fst (mset a1) + (image_mset fst (mset a2) + waiting q2)"
    unfolding e by (simp add: add.assoc)
  with IH T show ?case unfolding e by (simp add: drop_Suc)
qed simp

lemma take_event_batch_ok:
  "take_event io q = (a, q') \<Longrightarrow> qw_errored q = None \<Longrightarrow> batch_ok q'"
  using flush_answers [of io]
  by (auto simp: take_event_def batch_ok_def Let_def split: list.splits if_splits)

lemma writerLoop_answers:
  assumes "writerLoop ios c q = (a, q')" and "batch_ok q"
  shows "image_mset fst (mset a) + waiting q' = waiting q" and "batch_ok q'"
    and "qw_done q' \<Longrightarrow> \<not> qw_done q \<Longrightarrow> waiting q' = {#}"
proof -
  have "image_mset fst (mset a) + waiting q' = waiting q \<and> batch_ok q' \<and> (qw_done q' \<and> \<not> qw_done q \<longrightarrow> waiting q' = {#})"
  proof (cases "qw_done q \<or> qw_errored q \<noteq> None")
    case True
    with assms show ?thesis
      by (auto simp: writerLoop_def waiting_def batch_ok_def split: if_splits)
  next
    case False
    then have nd: "\<not> qw_done q" and ne: "qw_errored q = None" by simp_all
    show ?thesis
    proof (cases c)
      case RecvEvent
      with assms(1) nd ne have "take_event (ios 0) q = (a, q')" by (simp add: writerLoop_def)
      from take_event_answers [OF this] take_event_batch_ok [OF this ne] nd show ?thesis by simp
    next
      case FlushTick
      with assms(1) nd ne have "flush (ios 0) q = (a, q')" by (simp add: writerLoop_def)
      from flush_answers [OF this] nd show ?thesis by (simp add: batch_ok_def)
    next
      case SnapTick
      with assms nd ne show ?thesis by (auto simp: writerLoop_def waiting_def batch_ok_def)
    next
      case StopSignal
      obtain a1 q1 where d: "drain ios (length (qw_ch q)) q = (a1, q1)" by (cases "drain ios (length (qw_ch q)) q")
      obtain a2 q2 where f: "flush (ios 0) q1 = (a2, q2)" by (cases "flush (ios 0) q1")
      from assms(1) nd ne StopSignal d f have e: "a = a1 @ a2" "q' = q2\<lparr>qw_done := True\<rparr>"
        by (auto simp: writerLoop_def)
      have w: "waiting q' = waiting q2" unfolding e(2) waiting_def by simp
      have z: "waiting q2 = {#}" using drain_answers [OF d] flush_answers [OF f] by (simp add: waiting_def)
      have "image_mset fst (mset a) + waiting q' = image_mset fst (mset a1) + (image_mset fst (mset a2) + waiting q2)"
        unfolding w e(1) by (simp add: add.assoc)
      moreover have "batch_ok q'" using flush_answers [OF f] by (simp add: batch_ok_def e)
      ultimately show ?thesis using drain_answers [OF d] flush_answers [OF f] z w by simp
    qed
  qed
  then show "image_mset fst (mset a) + waiting q' = waiting q" and "batch_ok q'"
    and "qw_done q' \<Longrightarrow> \<not> qw_done q \<Longrightarrow> waiting q' = {#}" by simp_all
qed

section \<open>Runs\<close>

text \<open>Everything that can happen to the log of a queue, in any order.\<close>

datatype wact =
  AppendAct Event
| SyncAct nat Event
| LoopAct "nat \<Rightarrow> walio" wselect
| SnapBeginAct
| SnapFinishAct "nat option" snapshot
| ProviderAct
| DurableAct bool

text \<open>The result: waiters that were queued with their events, and answers given.\<close>

fun wal_act :: "wact \<Rightarrow> QueueWAL \<Rightarrow> (nat \<times> Event) list \<times> answers \<times> QueueWAL" where
  "wal_act (AppendAct e) q = ([], [], snd (qw_Append e q))"
| "wal_act (SyncAct w e) q =
     (let (r, q) = qw_AppendSync w e q in (if r = None then [(w, e)] else [], [], q))"
| "wal_act (LoopAct ios c) q = (let (a, q) = writerLoop ios c q in ([], a, q))"
| "wal_act SnapBeginAct q = ([], [], snd (saveSnapshot_begin q))"
| "wal_act (SnapFinishAct wr snap) q = ([], [], saveSnapshot_finish wr snap q)"
| "wal_act ProviderAct q = ([], [], q\<lparr>qw_provider := True\<rparr>)"
| "wal_act (DurableAct b) q = ([], [], q\<lparr>qw_cfg := (qw_cfg q)\<lparr>Durable := b\<rparr>\<rparr>)"

fun wal_run :: "wact list \<Rightarrow> QueueWAL \<Rightarrow> (nat \<times> Event) list \<times> answers \<times> QueueWAL" where
  "wal_run [] q = ([], [], q)"
| "wal_run (act # acts) q =
     (let (s, a, q) = wal_act act q; (s', a', q) = wal_run acts q in (s @ s', a @ a', q))"

lemma wal_act_answers:
  assumes "wal_act act q = (s, a, q')" and "batch_ok q"
  shows "image_mset fst (mset a) + waiting q' = waiting q + image_mset fst (mset s) \<and> batch_ok q'"
proof (cases act)
  case (LoopAct ios c)
  with assms(1) have "writerLoop ios c q = (a, q')" and "s = []" by (auto split: prod.splits)
  with writerLoop_answers [OF this(1) assms(2)] show ?thesis by simp
next
  case (SnapFinishAct wr snap)
  with assms show ?thesis
    by (auto simp: saveSnapshot_finish_def Let_def waiting_def batch_ok_def split: option.splits)
qed (use assms in \<open>auto simp: qw_Append_def qw_AppendSync_def saveSnapshot_begin_def waiting_def batch_ok_def
    Let_def split: option.splits if_splits\<close>)

lemma wal_run_answers:
  "wal_run acts q = (s, a, q') \<Longrightarrow> batch_ok q \<Longrightarrow>
   image_mset fst (mset a) + waiting q' = waiting q + image_mset fst (mset s) \<and> batch_ok q'"
proof (induction acts q arbitrary: s a q' rule: wal_run.induct)
  case (1 q)
  then show ?case by simp
next
  case (2 act acts q)
  obtain s1 a1 q1 where x: "wal_act act q = (s1, a1, q1)" by (cases "wal_act act q") auto
  obtain s2 a2 q2 where r: "wal_run acts q1 = (s2, a2, q2)" by (cases "wal_run acts q1") auto
  from 2(2) x r have e: "s = s1 @ s2" "a = a1 @ a2" "q' = q2" by auto
  note A = wal_act_answers [OF x 2(3)]
  then have "batch_ok q1" by simp
  note B = 2(1) [OF x [symmetric] refl refl r this]
  have "image_mset fst (mset a) + waiting q' = image_mset fst (mset a1) + (waiting q1 + image_mset fst (mset s2))"
    unfolding e using B by (simp add: add.assoc)
  also have "\<dots> = waiting q + image_mset fst (mset s)"
    unfolding e using A by (simp add: add.assoc [symmetric])
  finally show ?case using B e by simp
qed

text \<open>
  [C30] Every publisher gets its answer.  Whatever happens to a new log (appends, writer iterations,
  failing writes and syncs, disk full, rotations, snapshots), each waiter that was queued has been
  answered exactly once or is still waiting in the channel or the batch; and if the writer is still
  running, the iteration that sees the stop signal answers all that are left, also when the disk
  fails during it.
\<close>

theorem wal_answers:
  assumes "newQueueWAL io d ns name cfg = Ret q0" and "wal_run acts q0 = (sent, answers, q)"
  shows "image_mset fst (mset answers) + waiting q = image_mset fst (mset sent)
    \<and> (\<not> qw_done q \<and> writerLoop ios StopSignal q = (a, q') \<longrightarrow>
        qw_done q' \<and> image_mset fst (mset answers) + image_mset fst (mset a) = image_mset fst (mset sent))"
proof -
  have q0: "batch_ok q0" "waiting q0 = {#}"
    using assms(1) by (auto simp: newQueueWAL_def openSegment_def Let_def batch_ok_def waiting_def
        split: option.splits prod.splits)
  note R = wal_run_answers [OF assms(2) q0(1)]
  have "qw_done q' \<and> image_mset fst (mset a) = waiting q"
    if nd: "\<not> qw_done q" and l: "writerLoop ios StopSignal q = (a, q')"
  proof -
    have d: "qw_done q'" using nd l by (auto simp: writerLoop_def Let_def split: option.splits prod.splits)
    with writerLoop_answers [OF l] R nd show ?thesis by simp
  qed
  with R q0(2) show ?thesis by auto
qed

definition io_good :: walio where
  "io_good = \<lparr>io_flush = None, io_sync = None, io_idx = None, io_openLog = None, io_openIdx = None, io_clock = (\<lambda>_. 7)\<rparr>"

definition demo_cfg :: WALConfig where
  "demo_cfg = \<lparr>FlushInterval = 5, FlushMaxMessages = 10, SegmentMaxBytes = 1000, Durable = True, SnapshotInterval = 0\<rparr>"

definition demo_wal :: QueueWAL where
  "demo_wal = (case newQueueWAL io_good [] ''default'' ''q'' demo_cfg of Ret q \<Rightarrow> q)"

lemmas wal_eval = demo_wal_def newQueueWAL_def openSegment_def Let_def io_good_def demo_cfg_def qw_AppendSync_def
  channelCap_def writerLoop_def take_event_def flush_def flushBatch_def log_Flush_def idx_Flush_def
  qw_writeRecord_def signalDone_def map_filter_simps fixedOverhead_def demo_event_def

theorem wal_answers_witness:
  "let q = snd (snd (wal_run [SyncAct 0 (demo_event ''a'')] demo_wal)); (a, q') = writerLoop (\<lambda>_. io_good) StopSignal q
   in qw_done q' \<and> image_mset fst (mset a) = {#0#}"
proof -
  have n: "newQueueWAL io_good [] ''default'' ''q'' demo_cfg = Ret demo_wal"
    by (simp add: demo_wal_def newQueueWAL_def openSegment_def Let_def io_good_def)
  let ?r = "wal_run [SyncAct 0 (demo_event ''a'')] demo_wal"
  have r: "?r = ([(0, demo_event ''a'')], [], snd (snd ?r))" and d: "\<not> qw_done (snd (snd ?r))"
    by (simp_all add: wal_eval)
  obtain a q' where l: "writerLoop (\<lambda>_. io_good) StopSignal (snd (snd ?r)) = (a, q')"
    by (cases "writerLoop (\<lambda>_. io_good) StopSignal (snd (snd ?r))")
  from wal_answers [OF n r, of "\<lambda>_. io_good" a q'] l d show ?thesis by (simp add: Let_def)
qed

end
