(* ===== verification/Wal_Durable.thy ===== *)
theory Wal_Durable
  imports Wal_Props
begin

text \<open>
  Durability of the write-ahead log: the invariant that every segment is a sequence of complete
  records unless a write to it has failed, that no step of the writer ever takes back what a segment
  holds, and the theorem that an event whose publisher was told of success can be read back.
\<close>

section \<open>Files\<close>

lemma file_bytes_append [simp]:
  "file_bytes (append_file n bs d) m =
     (if m = n then map_option (\<lambda>old. old @ bs) (file_bytes d n) else file_bytes d m)"
  by (auto simp: append_file_def file_bytes_def split: option.splits node.splits)

lemma file_bytes_create [simp]:
  "file_bytes (create_file n d) m = (if m = n \<and> gm_get d n = None then Some [] else file_bytes d m)"
  by (auto simp: create_file_def file_bytes_def split: option.splits)

lemma append_file_Dir [simp]: "gm_get (append_file n bs d) m = Some (Dir x) \<longleftrightarrow> gm_get d m = Some (Dir x)"
  by (auto simp: append_file_def file_bytes_def split: option.splits node.splits)

lemma create_file_Dir [simp]: "gm_get (create_file n d) m = Some (Dir x) \<longleftrightarrow> gm_get d m = Some (Dir x)"
  by (auto simp: create_file_def split: option.splits)

lemma file_bytes_None: "file_bytes d n = None \<longleftrightarrow> gm_get d n = None \<or> (\<exists>x. gm_get d n = Some (Dir x))"
  by (auto simp: file_bytes_def split: option.splits node.splits)

lemma file_names_differ [simp]:
  "log_name i \<noteq> idx_name j" "idx_name j \<noteq> log_name i" "log_name i \<noteq> snap_name j" "snap_name j \<noteq> log_name i"
  by (auto simp: log_name_def idx_name_def snap_name_def dest!: arg_cong [where f = last])

section \<open>What is read stays read\<close>

lemma readLog_mono: "\<exists>more. fst (readLog (bs @ xs)) = fst (readLog bs) @ more"
proof (induction bs rule: readLog.induct)
  case (1 bs)
  show ?case
  proof (cases "ReadEvent bs")
    case (Inl e)
    then have "fst (readLog bs) = []" by (subst readLog.simps) simp
    then show ?thesis by simp
  next
    case (Inr r)
    obtain e rest where r: "r = (e, rest)" by (cases r)
    with Inr have R: "ReadEvent bs = Inr (e, rest)" by simp
    from local_readerD [OF local_ReadEvent R] obtain u
      where u: "bs = u @ rest" "\<And>r. ReadEvent (u @ r) = Inr (e, r)" by blast
    have 1: "fst (readLog bs) = e # fst (readLog rest)"
      by (subst readLog.simps) (simp add: R split_beta)
    have "fst (readLog (bs @ xs)) = e # fst (readLog (rest @ xs))"
      using u by (subst readLog.simps) (simp add: split_beta)
    with 1 "1.IH" [OF Inr r [symmetric]] show ?thesis by auto
  qed
qed

lemma readLog_take_mono:
  "m \<le> n \<Longrightarrow> set (fst (readLog (take m bs))) \<subseteq> set (fst (readLog (take n bs)))"
proof -
  assume "m \<le> n"
  then have "take n bs = take m bs @ take (n - m) (drop m bs)" by (metis le_add_diff_inverse take_add)
  with readLog_mono [of "take m bs" "take (n - m) (drop m bs)"] show ?thesis by auto
qed

definition same_event :: "Event \<Rightarrow> Event \<Rightarrow> bool" where
  "same_event ev e = (ev\<lparr>ev_Seq := ev_Seq e, ev_Timestamp := ev_Timestamp e\<rparr> = e)"

text \<open>
  An event is stored when it can be read from a segment, with \<open>dur\<close> from the part of it that was
  synchronised.
\<close>

definition stored :: "bool \<Rightarrow> QueueWAL \<Rightarrow> Event \<Rightarrow> bool" where
  "stored dur q e = (\<exists>i bs n. file_bytes (qw_dir q) (log_name i) = Some bs
     \<and> (if dur then gm_get (qw_synced q) (log_name i) = Some n \<and> n \<le> length bs else n = length bs)
     \<and> (\<exists>ev \<in> set (fst (readLog (take n bs))). same_event ev e))"

definition advances :: "QueueWAL \<Rightarrow> QueueWAL \<Rightarrow> bool" where
  "advances q q' = (qw_cfg q' = qw_cfg q
     \<and> (\<forall>i bs. file_bytes (qw_dir q) (log_name i) = Some bs \<longrightarrow>
          (\<exists>more. file_bytes (qw_dir q') (log_name i) = Some (bs @ more)))
     \<and> (\<forall>i n bs. gm_get (qw_synced q) (log_name i) = Some n \<longrightarrow> file_bytes (qw_dir q) (log_name i) = Some bs \<longrightarrow>
          n \<le> length bs \<longrightarrow>
          (\<exists>n' bs'. n \<le> n' \<and> gm_get (qw_synced q') (log_name i) = Some n'
             \<and> file_bytes (qw_dir q') (log_name i) = Some bs' \<and> n' \<le> length bs')))"

lemma stored_advances: "stored dur q e \<Longrightarrow> advances q q' \<Longrightarrow> stored dur q' e"
proof -
  assume "stored dur q e" and adv: "advances q q'"
  then obtain i bs n ev where f: "file_bytes (qw_dir q) (log_name i) = Some bs"
    and n: "if dur then gm_get (qw_synced q) (log_name i) = Some n \<and> n \<le> length bs else n = length bs"
    and ev: "ev \<in> set (fst (readLog (take n bs)))" "same_event ev e"
    by (auto simp: stored_def)
  from adv f obtain more where f': "file_bytes (qw_dir q') (log_name i) = Some (bs @ more)"
    unfolding advances_def by blast
  show ?thesis
  proof (cases dur)
    case True
    with n adv f obtain n' bs' where "n \<le> n'" "gm_get (qw_synced q') (log_name i) = Some n'"
      "file_bytes (qw_dir q') (log_name i) = Some bs'" "n' \<le> length bs'"
      unfolding advances_def by (metis (full_types))
    moreover from this f' have "bs' = bs @ more" by simp
    moreover have "take n bs = take n (bs @ more)" using n True by simp
    ultimately show ?thesis
      using True f' ev readLog_take_mono [of n n' "bs @ more"] unfolding stored_def by fastforce
  next
    case False
    with n have "take n bs = take n (bs @ more)" and "n \<le> length (bs @ more)" by simp_all
    then show ?thesis
      using False f' ev readLog_take_mono [of n "length (bs @ more)" "bs @ more"] unfolding stored_def by fastforce
  qed
qed

lemma advances_refl [simp]: "advances q q"
  by (auto simp: advances_def)

lemma advances_trans: "advances q q' \<Longrightarrow> advances q' q'' \<Longrightarrow> advances q q''"
  unfolding advances_def
proof (intro conjI allI impI; elim conjE)
  fix i bs
  assume "\<forall>i bs. file_bytes (qw_dir q) (log_name i) = Some bs \<longrightarrow> (\<exists>more. file_bytes (qw_dir q') (log_name i) = Some (bs @ more))"
    "\<forall>i bs. file_bytes (qw_dir q') (log_name i) = Some bs \<longrightarrow> (\<exists>more. file_bytes (qw_dir q'') (log_name i) = Some (bs @ more))"
    "file_bytes (qw_dir q) (log_name i) = Some bs"
  then show "\<exists>more. file_bytes (qw_dir q'') (log_name i) = Some (bs @ more)" by (metis append.assoc)
qed (simp, meson order_trans)

text \<open>Steps that touch no segment and no synchronisation mark.\<close>

lemma advances_same:
  "qw_cfg q' = qw_cfg q \<Longrightarrow> qw_synced q' = qw_synced q \<Longrightarrow>
   (\<And>i. file_bytes (qw_dir q') (log_name i) = file_bytes (qw_dir q) (log_name i)) \<Longrightarrow> advances q q'"
  by (auto simp: advances_def)

section \<open>The invariant\<close>

definition clean_log :: "byte list \<Rightarrow> bool" where
  "clean_log bs = (\<exists>evs. list_all event_ok evs \<and> bs = concat (map writeRecord evs))"

lemma clean_log_Nil [simp]: "clean_log []"
  unfolding clean_log_def by (rule exI [of _ "[]"]) simp

lemma clean_log_append:
  "clean_log bs \<Longrightarrow> list_all event_ok evs \<Longrightarrow> clean_log (bs @ concat (map writeRecord evs))"
  unfolding clean_log_def by (metis concat_append list_all_append map_append)

lemma clean_log_read: "clean_log bs \<Longrightarrow> list_all event_ok evs \<Longrightarrow>
   set evs \<subseteq> set (fst (readLog (bs @ concat (map writeRecord evs))))"
proof -
  assume "clean_log bs" and ok: "list_all event_ok evs"
  then obtain pre where "list_all event_ok pre" "bs = concat (map writeRecord pre)" by (auto simp: clean_log_def)
  with ok have "readLog (bs @ concat (map writeRecord evs) @ []) = (pre @ evs @ fst (readLog []), snd (readLog []))"
    by (simp add: readLog_append del: append_Nil2)
  then show ?thesis by auto
qed

text \<open>Segments and open files; as long as no write has failed, all segments are sequences of records.\<close>

definition wal_inv :: "QueueWAL \<Rightarrow> bool" where
  "wal_inv q = ((\<exists>i. qw_file q = log_name i) \<and> (\<exists>j. qw_idxFile q = idx_name j)
     \<and> file_bytes (qw_dir q) (qw_file q) \<noteq> None
     \<and> (\<forall>i x. gm_get (qw_dir q) (log_name i) \<noteq> Some (Dir x))
     \<and> (qw_logErr q = None \<longrightarrow> qw_logBuf q = [] \<and> (\<forall>i bs. file_bytes (qw_dir q) (log_name i) = Some bs \<longrightarrow> clean_log bs)))"

lemma wal_inv_file: "wal_inv q \<Longrightarrow> \<exists>i bs. qw_file q = log_name i \<and> file_bytes (qw_dir q) (log_name i) = Some bs"
  by (auto simp: wal_inv_def)

text \<open>The records of a batch with their sequence numbers and times.\<close>

fun stamps :: "(nat \<Rightarrow> gtime) \<Rightarrow> nat \<Rightarrow> 64 word \<Rightarrow> (Event \<times> nat option) list \<Rightarrow> Event list" where
  "stamps clock i seq [] = []"
| "stamps clock i seq ((e, d) # b) =
     e\<lparr>ev_Seq := seq + 1, ev_Timestamp := word_of_int (clock i)\<rparr> # stamps clock (Suc i) (seq + 1) b"

lemma stamps_ok: "list_all (\<lambda>(e, d). event_ok e) b \<Longrightarrow> list_all event_ok (stamps clock i seq b)"
  by (induction clock i seq b rule: stamps.induct) (auto simp: event_ok_def ev_strings_def)

lemma stamps_same: "(e, d) \<in> set b \<Longrightarrow> \<exists>ev \<in> set (stamps clock i seq b). same_event ev e"
proof (induction clock i seq b rule: stamps.induct)
  case (2 clock i seq e' d' b)
  then show ?case by (auto simp: same_event_def)
qed simp

lemma writeRecord_nonempty [simp]: "writeRecord e \<noteq> []"
proof -
  have "length (writeRecord e) > 0" by (simp add: writeRecord_size fixedOverhead_def)
  then show ?thesis by blast
qed

lemma writeBatch_log:
  "qw_logErr q = None \<Longrightarrow>
   qw_logBuf (writeBatch clock i b q) = qw_logBuf q @ concat (map writeRecord (stamps clock i (qw_seq q) b))"
proof (induction b arbitrary: i q)
  case (Cons x b)
  obtain e d where x: "x = (e, d)" by (cases x)
  then show ?case using Cons.prems by (simp add: Let_def qw_writeRecord_def Cons.IH)
qed simp

lemma writeBatch_rest:
  "qw_dir (writeBatch clock i b q) = qw_dir q \<and> qw_file (writeBatch clock i b q) = qw_file q
   \<and> qw_idxFile (writeBatch clock i b q) = qw_idxFile q \<and> qw_logErr (writeBatch clock i b q) = qw_logErr q
   \<and> qw_synced (writeBatch clock i b q) = qw_synced q \<and> qw_cfg (writeBatch clock i b q) = qw_cfg q"
proof (induction b arbitrary: i q)
  case (Cons x b)
  then show ?case by (cases x) (simp add: Let_def qw_writeRecord_def)
qed simp

section \<open>One flush\<close>

text \<open>The index file and the rotation leave every segment as it is, or add an empty one.\<close>

lemma idx_Flush_inv:
  assumes "wal_inv q"
  shows "wal_inv (idx_Flush io q) \<and> advances q (idx_Flush io q)
    \<and> qw_logErr (idx_Flush io q) = qw_logErr q \<and> qw_cfg (idx_Flush io q) = qw_cfg q"
  using assms
  by (auto simp: wal_inv_def idx_Flush_def advances_same split: option.splits)

lemma create_log:
  assumes "\<forall>i x. gm_get d (log_name i) \<noteq> Some (Dir x)"
    and "\<forall>i bs. file_bytes d (log_name i) = Some bs \<longrightarrow> clean_log bs"
  shows "file_bytes (create_file (log_name k) d) (log_name k) \<noteq> None"
    and "\<forall>i bs. file_bytes (create_file (log_name k) d) (log_name i) = Some bs \<longrightarrow> clean_log bs"
    and "\<forall>i. file_bytes (create_file (log_name k) d) (log_name i) = file_bytes d (log_name i)
           \<or> file_bytes d (log_name i) = None"
proof -
  show "file_bytes (create_file (log_name k) d) (log_name k) \<noteq> None"
    using assms(1) by (cases "gm_get d (log_name k)") (simp, metis file_bytes_None file_bytes_create option.distinct(1))
qed (use assms in \<open>auto simp: file_bytes_None\<close>)

lemma openSegment_inv:
  assumes inv: "wal_inv q" and ok: "qw_logErr q = None" and o: "openSegment io q = (r, q')"
  shows "wal_inv q' \<and> qw_logErr q' = None \<and> qw_synced q' = qw_synced q \<and> qw_cfg q' = qw_cfg q
    \<and> (\<forall>i. file_bytes (qw_dir q') (log_name i) = file_bytes (qw_dir q) (log_name i)
         \<or> file_bytes (qw_dir q) (log_name i) = None)"
proof (cases "io_openLog io")
  case None
  from inv ok have "\<forall>i x. gm_get (qw_dir q) (log_name i) \<noteq> Some (Dir x)"
    and "\<forall>i bs. file_bytes (qw_dir q) (log_name i) = Some bs \<longrightarrow> clean_log bs"
    by (simp_all add: wal_inv_def)
  note c = create_log [OF this, of "qw_segmentID q"]
  have j: "\<exists>j. qw_idxFile q = idx_name j" using inv by (simp add: wal_inv_def)
  show ?thesis
  proof (cases "io_openIdx io")
    case (Some e)
    with o None have "q' = q\<lparr>qw_dir := create_file (log_name (qw_segmentID q)) (qw_dir q), qw_file := log_name (qw_segmentID q),
        qw_fileSize := int (file_size (create_file (log_name (qw_segmentID q)) (qw_dir q)) (log_name (qw_segmentID q))),
        qw_logBuf := [], qw_logErr := None\<rparr>"
      by (simp add: openSegment_def Let_def)
    with c j inv show ?thesis by (auto simp: wal_inv_def simp del: file_bytes_create)
  next
    case None': None
    with o None obtain n where "q' = q\<lparr>qw_dir := create_file (log_name (qw_segmentID q)) (qw_dir q),
        qw_file := log_name (qw_segmentID q), qw_fileSize := n, qw_logBuf := [], qw_logErr := None,
        qw_dir := create_file (idx_name (qw_segmentID q)) (create_file (log_name (qw_segmentID q)) (qw_dir q)),
        qw_idxFile := idx_name (qw_segmentID q), qw_idxBuf := [], qw_idxErr := None\<rparr>"
      by (auto simp: openSegment_def Let_def)
    moreover have "file_bytes (create_file (idx_name k) d) (log_name i) = file_bytes d (log_name i)" for i k d
      by simp
    ultimately show ?thesis using c inv by (auto simp: wal_inv_def simp del: file_bytes_create)
  qed
qed (use o inv ok in \<open>simp add: openSegment_def Let_def\<close>)

lemma wal_inv_dir:
  assumes "wal_inv q" and "\<And>i. file_bytes d (log_name i) = file_bytes (qw_dir q) (log_name i)"
    and "\<And>i x. gm_get d (log_name i) = Some (Dir x) \<longleftrightarrow> gm_get (qw_dir q) (log_name i) = Some (Dir x)"
  shows "wal_inv (q\<lparr>qw_dir := d\<rparr>) \<and> advances q (q\<lparr>qw_dir := d\<rparr>)"
proof -
  obtain i where "qw_file q = log_name i" using assms(1) by (auto simp: wal_inv_def)
  with assms show ?thesis by (simp add: wal_inv_def advances_same)
qed

lemma rotateSegment_inv:
  assumes inv: "wal_inv q" and ok: "qw_logErr q = None"
  shows "wal_inv (rotateSegment io q) \<and> advances q (rotateSegment io q)"
proof -
  let ?q1 = "q\<lparr>qw_segmentID := qw_segmentID q + 1, qw_fileSize := 0\<rparr>"
  obtain r q2 where o: "openSegment io ?q1 = (r, q2)" by (cases "openSegment io ?q1")
  have buf: "qw_logBuf q = []" using inv ok by (simp add: wal_inv_def)
  have inv1: "wal_inv ?q1" and ok1: "qw_logErr ?q1 = None" using inv ok by (simp_all add: wal_inv_def)
  note d = openSegment_inv [OF inv1 ok1 o, simplified]
  have "advances q q2" unfolding advances_def
  proof (intro conjI allI impI)
    fix i n bs assume "gm_get (qw_synced q) (log_name i) = Some n" "file_bytes (qw_dir q) (log_name i) = Some bs"
      "n \<le> length bs"
    moreover from this d have "file_bytes (qw_dir q2) (log_name i) = Some bs" by (metis option.distinct(1))
    ultimately show "\<exists>n' bs'. n \<le> n' \<and> gm_get (qw_synced q2) (log_name i) = Some n'
        \<and> file_bytes (qw_dir q2) (log_name i) = Some bs' \<and> n' \<le> length bs'" using d by auto
  qed (use d in \<open>simp, metis append_Nil2 option.distinct(1)\<close>)
  moreover obtain i j where ij: "qw_file q = log_name i" "qw_idxFile q = idx_name j"
    using inv by (auto simp: wal_inv_def)
  let ?q3 = "q2\<lparr>qw_dir := append_file (log_name i) [] (qw_dir q2)\<rparr>"
  have q3: "wal_inv ?q3 \<and> advances q2 ?q3"
    using d by (intro wal_inv_dir) (auto simp: option.map_ident)
  moreover have "wal_inv (?q3\<lparr>qw_dir := append_file (idx_name j) bs (qw_dir ?q3)\<rparr>)
      \<and> advances ?q3 (?q3\<lparr>qw_dir := append_file (idx_name j) bs (qw_dir ?q3)\<rparr>)" for bs
    using q3 by (intro wal_inv_dir) auto
  ultimately show ?thesis
    using d by (auto simp: rotateSegment_def Let_def o buf ij ok split: option.splits intro: advances_trans)
qed

lemma log_Flush_inv:
  assumes inv: "wal_inv q" and ok: "list_all (\<lambda>(e, d). event_ok e) batch" and ne: "batch \<noteq> []"
    and f: "log_Flush io (writeBatch clock 0 batch q) = (r, q')"
  shows "wal_inv q' \<and> advances q q' \<and> qw_file q' = qw_file q \<and> (r = None \<longrightarrow> qw_logErr q' = None
    \<and> (\<exists>bs. file_bytes (qw_dir q') (qw_file q') = Some bs
         \<and> (\<forall>(e, d) \<in> set batch. \<exists>ev \<in> set (fst (readLog bs)). same_event ev e)))"
proof -
  let ?q1 = "writeBatch clock 0 batch q"
  note w = writeBatch_rest [of clock 0 batch q]
  obtain i bs where i: "qw_file q = log_name i" and bs: "file_bytes (qw_dir q) (log_name i) = Some bs"
    using wal_inv_file [OF inv] by blast
  let ?st = "stamps clock 0 (qw_seq q) batch"
  show ?thesis
  proof (cases "qw_logErr q")
    case (Some e)
    with f w have "q' = ?q1" and "r = Some e" by (simp_all add: log_Flush_def)
    then show ?thesis using inv w Some
      by (auto simp: wal_inv_def intro!: advances_same)
  next
    case None
    then have cl: "clean_log bs" and buf: "qw_logBuf q = []" using inv bs by (auto simp: wal_inv_def)
    have b1: "qw_logBuf ?q1 = concat (map writeRecord ?st)" using writeBatch_log [OF None] buf by simp
    obtain x batch' where "batch = x # batch'" using ne by (cases batch) auto
    then have ne1: "qw_logBuf ?q1 \<noteq> []" unfolding b1 by (cases x) simp
    note cl' = clean_log_append [OF cl stamps_ok [OF ok, of clock 0 "qw_seq q"]]
    show ?thesis
    proof (cases "io_flush io")
      case None': None
      with f ne1 w None have q': "r = None" "q' = ?q1\<lparr>qw_dir := append_file (log_name i) (concat (map writeRecord ?st)) (qw_dir q), qw_logBuf := []\<rparr>"
        by (simp_all add: log_Flush_def i b1)
      have "wal_inv q'" using inv w None i bs cl' unfolding q'(2) by (auto simp: wal_inv_def)
      moreover have "advances q q'" using w bs unfolding q'(2) advances_def by (auto simp: q'(2))
      moreover have "\<exists>ev \<in> set (fst (readLog (bs @ concat (map writeRecord ?st)))). same_event ev e" if "(e, d) \<in> set batch" for e d
        using stamps_same [OF that, of clock 0 "qw_seq q"] clean_log_read [OF cl stamps_ok [OF ok, of clock 0 "qw_seq q"]] by blast
      ultimately show ?thesis using w i bs None unfolding q' by (auto simp: q'(2))
    next
      case (Some ke)
      obtain k e where ke: "ke = (k, e)" by (cases ke)
      with f ne1 w None Some have q': "r = Some e" "q' = ?q1\<lparr>qw_dir := append_file (log_name i) (take k (qw_logBuf ?q1)) (qw_dir q),
          qw_logBuf := drop k (qw_logBuf ?q1), qw_logErr := Some e\<rparr>"
        by (auto simp: log_Flush_def i)
      have "wal_inv q'" using inv w i bs unfolding q'(2) by (auto simp: wal_inv_def)
      moreover have "advances q q'" using w bs unfolding q'(2) advances_def by (auto simp: q'(2))
      ultimately show ?thesis using w unfolding q' by simp
    qed
  qed
qed

lemma signalDone_mem: "(w, r) \<in> set (signalDone err b) \<longleftrightarrow> r = err \<and> (\<exists>e. (e, Some w) \<in> set b)"
  by (induction b) (auto simp: signalDone_def map_filter_simps split: option.splits)

definition queued :: "QueueWAL \<Rightarrow> (Event \<times> nat option) set" where
  "queued q = set (qw_ch q) \<union> set (qw_batch q)"

definition events_ok :: "QueueWAL \<Rightarrow> bool" where
  "events_ok q = (\<forall>(e, d) \<in> queued q. event_ok e)"

text \<open>What a step of the writer guarantees: nothing stored is lost, and what it confirms is stored.\<close>

definition confirms :: "(Event \<times> nat option) set \<Rightarrow> QueueWAL \<Rightarrow> answers \<Rightarrow> QueueWAL \<Rightarrow> bool" where
  "confirms evs q a q' = (wal_inv q' \<and> advances q q' \<and>
     (\<forall>w. (w, None) \<in> set a \<longrightarrow> (\<exists>e. (e, Some w) \<in> evs \<and> stored (Durable (qw_cfg q)) q' e)))"

lemma confirms_trans:
  assumes "confirms evs q a q'" and "confirms evs' q' a' q''" and "evs' \<subseteq> evs"
  shows "confirms evs q (a @ a') q''"
proof -
  have c: "qw_cfg q' = qw_cfg q" using assms(1) by (simp add: confirms_def advances_def)
  have adv: "advances q' q''" using assms(2) by (simp add: confirms_def)
  from assms c show ?thesis
    unfolding confirms_def using stored_advances [OF _ adv] by (auto intro: advances_trans) (meson subsetD)+
qed

lemma sync_mark:
  assumes inv: "wal_inv q" and bs: "file_bytes (qw_dir q) (qw_file q) = Some bs"
  shows "advances q (q\<lparr>qw_synced := gm_put (qw_file q) (file_size (qw_dir q) (qw_file q)) (qw_synced q)\<rparr>)"
  using bs unfolding advances_def by (auto simp: file_size_def)

lemma wal_inv_upd [simp]:
  "wal_inv (q\<lparr>qw_synced := s\<rparr>) = wal_inv q" "wal_inv (q\<lparr>qw_snapGo := n\<rparr>) = wal_inv q"
  "wal_inv (q\<lparr>qw_errored := x\<rparr>) = wal_inv q" "wal_inv (q\<lparr>qw_ch := c\<rparr>) = wal_inv q"
  "wal_inv (q\<lparr>qw_batch := c\<rparr>) = wal_inv q" "wal_inv (q\<lparr>qw_done := b\<rparr>) = wal_inv q"
  by (simp_all add: wal_inv_def)

lemma advances_upd [simp]:
  "advances q (q\<lparr>qw_snapGo := n\<rparr>)" "advances q (q\<lparr>qw_errored := x\<rparr>)" "advances q (q\<lparr>qw_ch := c\<rparr>)"
  "advances q (q\<lparr>qw_batch := c\<rparr>)" "advances q (q\<lparr>qw_done := b\<rparr>)"
  by (simp_all add: advances_same)

lemma io_failed_inv: "wal_inv q \<Longrightarrow> wal_inv (io_failed e q) \<and> advances q (io_failed e q)"
  by (simp add: io_failed_def SetErr_def)

lemma flushBatch_confirms:
  assumes inv: "wal_inv q" and ok: "list_all (\<lambda>(e, d). event_ok e) batch"
    and fb: "flushBatch io batch q = (a, q')"
  shows "confirms (set batch) q a q'"
proof (cases "batch = []")
  case True
  with fb inv show ?thesis by (simp add: flushBatch_def confirms_def)
next
  case False
  let ?dur = "Durable (qw_cfg q)"
  obtain r q2 where f: "log_Flush io (writeBatch (io_clock io) 0 batch q) = (r, q2)"
    by (cases "log_Flush io (writeBatch (io_clock io) 0 batch q)")
  note L = log_Flush_inv [OF inv ok False f]
  have cfg: "qw_cfg q2 = qw_cfg q" using L by (simp add: advances_def)
  have failed: "confirms (set batch) q (signalDone (Some (WalIO e)) batch) (io_failed e q2)" for e
    using L io_failed_inv [of q2 e] by (auto simp: confirms_def signalDone_mem intro: advances_trans)
  show ?thesis
  proof (cases "r = None \<and> (?dur \<longrightarrow> io_sync io = None)")
    case False
    with fb \<open>batch \<noteq> []\<close> f cfg failed show ?thesis by (auto simp: flushBatch_def split: option.splits if_splits)
  next
    case True
    then obtain bs where bs: "file_bytes (qw_dir q2) (qw_file q2) = Some bs" and le: "qw_logErr q2 = None"
      and rd: "\<forall>(e, d) \<in> set batch. \<exists>ev \<in> set (fst (readLog bs)). same_event ev e" using L by blast
    obtain i where i: "qw_file q2 = log_name i" using L by (auto simp: wal_inv_def)
    define q3 where "q3 = (if ?dur then q2\<lparr>qw_synced := gm_put (qw_file q2) (file_size (qw_dir q2) (qw_file q2)) (qw_synced q2)\<rparr> else q2)"
    have q3: "wal_inv q3" "advances q q3" "qw_logErr q3 = None"
      using L le sync_mark [OF _ bs] by (auto simp: q3_def intro: advances_trans)
    have st: "stored ?dur q3 e" if "(e, d) \<in> set batch" for e d
      unfolding stored_def using rd that bs i by (intro exI [of _ i] exI [of _ bs] exI [of _ "length bs"]) (auto simp: q3_def file_size_def)
    note I = idx_Flush_inv [OF q3(1), of io]
    define q5 where "q5 = (if qw_fileSize (idx_Flush io q3) \<ge> SegmentMaxBytes (qw_cfg (idx_Flush io q3))
      then rotateSegment io ((idx_Flush io q3)\<lparr>qw_snapGo := Suc (qw_snapGo (idx_Flush io q3))\<rparr>) else idx_Flush io q3)"
    have R: "wal_inv (rotateSegment io (q4\<lparr>qw_snapGo := n\<rparr>)) \<and> advances q4 (rotateSegment io (q4\<lparr>qw_snapGo := n\<rparr>))"
      if "wal_inv q4" "qw_logErr q4 = None" for q4 n
      using rotateSegment_inv [of "q4\<lparr>qw_snapGo := n\<rparr>" io] that by (auto intro: advances_trans [OF advances_upd(1)])
    have q5: "wal_inv q5" "advances q3 q5"
      using R [of "idx_Flush io q3"] I q3(3) unfolding q5_def by (auto intro: advances_trans)
    from fb \<open>batch \<noteq> []\<close> f True cfg have "a = signalDone None batch" "q' = q5"
      by (auto simp: flushBatch_def Let_def q5_def q3_def split: option.splits if_splits)
    then show ?thesis using q5 q3(2) st stored_advances [OF _ q5(2)]
      by (auto simp: confirms_def signalDone_mem intro: advances_trans)
  qed
qed

section \<open>The writer loop\<close>

lemma flush_confirms:
  assumes "wal_inv q" and "events_ok q" and "flush io q = (a, q')"
  shows "confirms (queued q) q a q' \<and> queued q' \<subseteq> queued q"
proof (cases "qw_batch q = []")
  case True
  with assms show ?thesis by (simp add: flush_def confirms_def)
next
  case False
  let ?q = "q\<lparr>qw_batch := []\<rparr>"
  from False assms(3) have fb: "flushBatch io (qw_batch q) ?q = (a, q')" by (simp add: flush_def)
  have ok: "list_all (\<lambda>(e, d). event_ok e) (qw_batch q)"
    using assms(2) by (auto simp: events_ok_def queued_def list_all_iff)
  have "confirms (set (qw_batch q)) ?q a q'"
    using flushBatch_confirms [OF _ ok fb] assms(1) by simp
  then have "confirms (queued q) q a q'"
    by (auto simp: confirms_def queued_def intro: advances_trans [OF advances_upd(4)])
  moreover have "queued q' \<subseteq> queued q"
    using flush_answers [OF assms(3)] by (auto simp: queued_def)
  ultimately show ?thesis by simp
qed

lemma take_event_confirms:
  assumes "wal_inv q" and "events_ok q" and "take_event io q = (a, q')"
  shows "confirms (queued q) q a q' \<and> queued q' \<subseteq> queued q"
proof (cases "qw_ch q")
  case Nil
  with assms show ?thesis by (simp add: take_event_def confirms_def)
next
  case (Cons e rest)
  let ?q = "q\<lparr>qw_ch := rest, qw_batch := qw_batch q @ [e]\<rparr>"
  have adv: "advances q ?q" by (simp add: advances_same)
  have q: "queued ?q = queued q" using Cons by (auto simp: queued_def)
  then have "events_ok ?q" using assms(2) by (simp add: events_ok_def)
  moreover have "wal_inv ?q" using assms(1) by simp
  ultimately have fl: "confirms (queued ?q) ?q a' q'' \<and> queued q'' \<subseteq> queued ?q" if "flush io ?q = (a', q'')" for a' q''
    using flush_confirms that by blast
  have "flush io ?q = (a, q') \<or> (a = [] \<and> q' = ?q)"
    using assms(3) Cons unfolding take_event_def Let_def by (simp split: if_splits)
  then show ?thesis
  proof
    assume 1: "flush io ?q = (a, q')"
    have "confirms (queued q) q [] ?q" using assms(1) adv by (simp add: confirms_def)
    from confirms_trans [OF this, of "queued q" a q'] fl [OF 1] q show ?thesis by simp
  next
    assume "a = [] \<and> q' = ?q"
    with q adv assms(1) show ?thesis by (simp add: confirms_def)
  qed
qed

lemma events_ok_subset: "events_ok q \<Longrightarrow> queued q' \<subseteq> queued q \<Longrightarrow> events_ok q'"
  by (auto simp: events_ok_def)

lemma drain_confirms:
  "wal_inv q \<Longrightarrow> events_ok q \<Longrightarrow> drain ios n q = (a, q') \<Longrightarrow>
   confirms (queued q) q a q' \<and> queued q' \<subseteq> queued q"
proof (induction ios n q arbitrary: a q' rule: drain.induct)
  case (1 ios q)
  then show ?case by (simp add: confirms_def)
next
  case (2 ios n q)
  obtain a1 q1 where t: "take_event (ios (Suc n)) q = (a1, q1)" by (cases "take_event (ios (Suc n)) q")
  obtain a2 q2 where d: "drain ios n q1 = (a2, q2)" by (cases "drain ios n q1")
  from 2(4) t d have e: "a = a1 @ a2" "q' = q2" by auto
  have T: "confirms (queued q) q a1 q1" "queued q1 \<subseteq> queued q"
    using take_event_confirms [OF 2(2,3) t] by simp_all
  have "wal_inv q1" using T(1) by (simp add: confirms_def)
  from 2(1) [OF t [symmetric] refl this events_ok_subset [OF 2(3) T(2)] d]
  have "confirms (queued q1) q1 a2 q2" "queued q2 \<subseteq> queued q1" by simp_all
  with T confirms_trans [OF T(1)] e show ?case by auto
qed

lemma writerLoop_confirms:
  assumes "wal_inv q" and "events_ok q" and "writerLoop ios c q = (a, q')"
  shows "confirms (queued q) q a q' \<and> queued q' \<subseteq> queued q"
proof -
  have stop: "confirms (queued q) q (a1 @ a2) (q2\<lparr>qw_done := True\<rparr>) \<and> queued (q2\<lparr>qw_done := True\<rparr>) \<subseteq> queued q"
    if d: "drain ios n q = (a1, q1)" and f: "flush (ios 0) q1 = (a2, q2)" for n a1 q1 a2 q2
  proof -
    have D: "confirms (queued q) q a1 q1" "queued q1 \<subseteq> queued q" using drain_confirms [OF assms(1,2) d] by simp_all
    then have "wal_inv q1" by (simp add: confirms_def)
    from flush_confirms [OF this events_ok_subset [OF assms(2) D(2)] f]
    have F: "confirms (queued q1) q1 a2 q2" "queued q2 \<subseteq> queued q1" by simp_all
    have "confirms (queued q) q (a1 @ a2) q2" by (rule confirms_trans [OF D(1) F(1) D(2)])
    moreover have "confirms {} q2 [] (q2\<lparr>qw_done := True\<rparr>)" using F(1) by (simp add: confirms_def)
    ultimately have "confirms (queued q) q (a1 @ a2) (q2\<lparr>qw_done := True\<rparr>)"
      using confirms_trans [of "queued q" q "a1 @ a2" q2 "{}" "[]"] by simp
    moreover have "queued (q2\<lparr>qw_done := True\<rparr>) = queued q2" by (simp add: queued_def)
    ultimately show ?thesis using F(2) D(2) by simp
  qed
  have fail: "confirms (queued q) q (signalDone (Some err) (qw_ch q)) (q\<lparr>qw_ch := [], qw_done := True\<rparr>)
      \<and> queued (q\<lparr>qw_ch := [], qw_done := True\<rparr>) \<subseteq> queued q" for err
    using assms(1) by (auto simp: confirms_def signalDone_mem queued_def advances_same)
  have snap: "confirms (queued q) q [] (q\<lparr>qw_snapGo := n\<rparr>) \<and> queued (q\<lparr>qw_snapGo := n\<rparr>) \<subseteq> queued q" for n
    using assms(1) by (simp add: confirms_def queued_def)
  have same: "confirms (queued q) q [] q" using assms(1) by (simp add: confirms_def)
  show ?thesis
  proof (cases "qw_done q \<or> qw_errored q \<noteq> None")
    case True
    with assms(3) same fail show ?thesis by (auto simp: writerLoop_def queued_def split: if_splits)
  next
    case False
    show ?thesis
    proof (cases c)
      case StopSignal
      with False assms(3) stop show ?thesis by (simp add: writerLoop_def Let_def split: prod.splits) blast
    qed (use False assms snap take_event_confirms [OF assms(1,2)] flush_confirms [OF assms(1,2)] in
      \<open>auto simp: writerLoop_def\<close>)
  qed
qed

section \<open>Runs\<close>

text \<open>
  The steps durability is shown for: events that fit a record, and no completed snapshot, because
  that removes segments, and no change of the durability setting.
\<close>

fun plain_act :: "wact \<Rightarrow> bool" where
  "plain_act (AppendAct e) = event_ok e"
| "plain_act (SyncAct w e) = event_ok e"
| "plain_act (SnapFinishAct wr snap) = (wr \<noteq> None)"
| "plain_act (DurableAct b) = False"
| "plain_act _ = True"

lemma wal_act_confirms:
  assumes "wal_inv q" and "events_ok q" and "plain_act act" and "wal_act act q = (s, a, q')"
  shows "confirms (queued q) q a q'" and "events_ok q'"
    and "(e, Some w) \<in> queued q' \<Longrightarrow> (e, Some w) \<in> queued q \<or> (w, e) \<in> set s"
proof -
  have same: "confirms (queued q) q [] (q\<lparr>qw_ch := c\<rparr>)" for c using assms(1) by (simp add: confirms_def)
  have "confirms (queued q) q a q' \<and> events_ok q'
    \<and> (\<forall>e w. (e, Some w) \<in> queued q' \<longrightarrow> (e, Some w) \<in> queued q \<or> (w, e) \<in> set s)"
  proof (cases act)
    case (AppendAct e)
    with assms same [of "qw_ch q @ [(e, None)]"] same [of "qw_ch q"] show ?thesis
      by (auto simp: qw_Append_def events_ok_def queued_def split: option.splits if_splits)
  next
    case (SyncAct w e)
    with assms same [of "qw_ch q @ [(e, Some w)]"] same [of "qw_ch q"] show ?thesis
      by (auto simp: qw_AppendSync_def Let_def events_ok_def queued_def split: option.splits if_splits)
  next
    case (LoopAct ios c)
    with assms(4) have "writerLoop ios c q = (a, q')" by (auto split: prod.splits)
    with writerLoop_confirms [OF assms(1,2) this] events_ok_subset [OF assms(2)] show ?thesis by auto
  next
    case (SnapFinishAct wr snap)
    then obtain k where k: "wr = Some k" using assms(3) by auto
    let ?d = "gm_put (snap_name (sn_SegmentID snap)) (File (take k (SnapshotWriter_Write snap))) (qw_dir q)"
    have q': "a = []" "q' = q\<lparr>qw_snapshotSem := False, qw_dir := ?d\<rparr>"
      using assms(4) SnapFinishAct k by (auto simp: saveSnapshot_finish_def Let_def)
    have "file_bytes ?d (log_name i) = file_bytes (qw_dir q) (log_name i)" for i by (simp add: file_bytes_def)
    then have "wal_inv q' \<and> advances q q'"
      using assms(1) unfolding q'(2) by (auto simp: wal_inv_def intro!: advances_same)
    then show ?thesis using assms(2) by (simp add: confirms_def q' events_ok_def queued_def)
  qed (use assms in \<open>auto simp: saveSnapshot_begin_def confirms_def wal_inv_def events_ok_def queued_def
      intro!: advances_same split: if_splits\<close>)
  then show "confirms (queued q) q a q'" and "events_ok q'"
    and "(e, Some w) \<in> queued q' \<Longrightarrow> (e, Some w) \<in> queued q \<or> (w, e) \<in> set s" by blast+
qed

lemma wal_run_confirms:
  "wal_run acts q = (s, a, q') \<Longrightarrow> wal_inv q \<Longrightarrow> events_ok q \<Longrightarrow> list_all plain_act acts \<Longrightarrow>
   wal_inv q' \<and> advances q q' \<and> (\<forall>w. (w, None) \<in> set a \<longrightarrow>
     (\<exists>e. ((w, e) \<in> set s \<or> (e, Some w) \<in> queued q) \<and> stored (Durable (qw_cfg q)) q' e))"
proof (induction acts q arbitrary: s a q' rule: wal_run.induct)
  case (1 q)
  then show ?case by simp
next
  case (2 act acts q)
  obtain s1 a1 q1 where x: "wal_act act q = (s1, a1, q1)" by (cases "wal_act act q") auto
  obtain s2 a2 q2 where r: "wal_run acts q1 = (s2, a2, q2)" by (cases "wal_run acts q1") auto
  from 2(2) x r have e: "s = s1 @ s2" "a = a1 @ a2" "q' = q2" by auto
  have pl: "plain_act act" "list_all plain_act acts" using 2(5) by simp_all
  note A = wal_act_confirms [OF 2(3,4) pl(1) x]
  have A1: "wal_inv q1" "advances q q1" using A(1) by (simp_all add: confirms_def)
  have cfg: "qw_cfg q1 = qw_cfg q" using A1(2) by (simp add: advances_def)
  note B = 2(1) [OF x [symmetric] refl refl r A1(1) A(2) pl(2)]
  then have adv: "advances q1 q2" by simp
  have "\<exists>e. ((w, e) \<in> set s \<or> (e, Some w) \<in> queued q) \<and> stored (Durable (qw_cfg q)) q' e" if w: "(w, None) \<in> set a" for w
  proof (cases "(w, None) \<in> set a1")
    case True
    with A(1) obtain ev where "(ev, Some w) \<in> queued q" "stored (Durable (qw_cfg q)) q1 ev"
      by (auto simp: confirms_def)
    with stored_advances [OF _ adv] show ?thesis unfolding e by blast
  next
    case False
    with w have "(w, None) \<in> set a2" by (simp add: e)
    with B cfg obtain ev where "(w, ev) \<in> set s2 \<or> (ev, Some w) \<in> queued q1" "stored (Durable (qw_cfg q)) q2 ev" by auto
    with A(3) show ?thesis unfolding e by auto
  qed
  with B A1(2) adv show ?case unfolding e by (auto intro: advances_trans)
qed

lemma newQueueWAL_inv:
  assumes "newQueueWAL io d ns name cfg = Ret q" and "\<forall>i x. gm_get d (log_name i) \<noteq> Some (Dir x)"
    and "\<forall>i bs. file_bytes d (log_name i) = Some bs \<longrightarrow> clean_log bs"
  shows "wal_inv q \<and> queued q = {} \<and> qw_cfg q = cfg"
proof -
  let ?s = "word_of_nat (findLastSegmentID d) :: 64 word"
  note c = create_log [OF assms(2,3), of ?s]
  have "io_openLog io = None" "io_openIdx io = None"
    and q: "qw_file q = log_name ?s" "qw_idxFile q = idx_name ?s" "qw_logBuf q = []"
      "qw_dir q = create_file (idx_name ?s) (create_file (log_name ?s) d)"
      "qw_ch q = []" "qw_batch q = []" "qw_cfg q = cfg"
    using assms(1) by (auto simp: newQueueWAL_def openSegment_def Let_def split: option.splits)
  moreover have "file_bytes (create_file (idx_name k) d') (log_name i) = file_bytes d' (log_name i)" for i k d' by simp
  ultimately show ?thesis using c assms(2)
    unfolding wal_inv_def queued_def q by (auto simp del: file_bytes_create)
qed

text \<open>
  [C6] Durability.  Start the log on a directory whose segments are sequences of whole records, without a
  torn one, and let appends of events that fit into records, writer iterations, failing and partial writes,
  failing syncs, rotations and aborted snapshots happen in any order; no snapshot is completed and the durability is not changed.  If a publisher that handed over event \<open>e\<close> was answered without error, then \<open>e\<close>
  is read back from one of the segments; and with fsync on, also after a power failure that leaves of
  that segment only the part known to be synchronised, or any more of it.
\<close>

theorem wal_durable:
  assumes "newQueueWAL io d ns name cfg = Ret q0" and "\<forall>i x. gm_get d (log_name i) \<noteq> Some (Dir x)"
    and "\<forall>i bs. file_bytes d (log_name i) = Some bs \<longrightarrow> clean_log bs"
    and "wal_run acts q0 = (sent, answers, q)" and "list_all plain_act acts"
    and "distinct (map fst sent)" and "(w, e) \<in> set sent" and "(w, None) \<in> set answers"
  shows "\<exists>i bs n. file_bytes (qw_dir q) (log_name i) = Some bs \<and> n \<le> length bs
    \<and> (if Durable cfg then gm_get (qw_synced q) (log_name i) = Some n else n = length bs)
    \<and> (\<forall>m \<ge> n. \<exists>ev \<in> set (fst (readLog (take m bs))). same_event ev e)"
proof -
  have q0: "wal_inv q0" "queued q0 = {}" "qw_cfg q0 = cfg" using newQueueWAL_inv [OF assms(1-3)] by simp_all
  then have "events_ok q0" by (simp add: events_ok_def)
  with wal_run_confirms [OF assms(4) q0(1) _ assms(5)] q0 assms(8)
  obtain e' where "(w, e') \<in> set sent" and st: "stored (Durable cfg) q e'" by auto
  then have "e' = e" using assms(6,7) by (meson eq_key_imp_eq_value)
  with st obtain i bs n ev where 1: "file_bytes (qw_dir q) (log_name i) = Some bs" "n \<le> length bs"
    "if Durable cfg then gm_get (qw_synced q) (log_name i) = Some n else n = length bs"
    and ev: "ev \<in> set (fst (readLog (take n bs)))" "same_event ev e"
    unfolding stored_def by (metis order_refl)
  have "\<forall>m \<ge> n. \<exists>ev \<in> set (fst (readLog (take m bs))). same_event ev e"
    using ev readLog_take_mono [of n _ bs] by blast
  with 1 show ?thesis by blast
qed

definition demo_acts :: "wact list" where
  "demo_acts = [SyncAct 0 (demo_event ''a''), LoopAct (\<lambda>_. io_good) RecvEvent, LoopAct (\<lambda>_. io_good) FlushTick]"

lemma demo_run: "\<exists>q. wal_run demo_acts demo_wal = ([(0, demo_event ''a'')], [(0, None)], q)"
  by (simp add: demo_acts_def wal_eval file_size_def findLastSegmentID_def ReadDir_def)

theorem wal_durable_witness:
  "\<exists>q. wal_run demo_acts demo_wal = ([(0, demo_event ''a'')], [(0, None)], q)
    \<and> (\<exists>i bs n. file_bytes (qw_dir q) (log_name i) = Some bs \<and> gm_get (qw_synced q) (log_name i) = Some n
         \<and> (\<forall>m \<ge> n. \<exists>ev \<in> set (fst (readLog (take m bs))). same_event ev (demo_event ''a'')))"
proof -
  obtain q where r: "wal_run demo_acts demo_wal = ([(0, demo_event ''a'')], [(0, None)], q)" using demo_run by blast
  have n: "newQueueWAL io_good [] ''default'' ''q'' demo_cfg = Ret demo_wal"
    by (simp add: demo_wal_def newQueueWAL_def openSegment_def Let_def io_good_def)
  have d: "Durable demo_cfg" by (simp add: demo_cfg_def)
  have p: "list_all plain_act demo_acts" by (simp add: demo_acts_def demo_event_ok)
  have "\<exists>i bs n. file_bytes (qw_dir q) (log_name i) = Some bs \<and> n \<le> length bs
    \<and> (if Durable demo_cfg then gm_get (qw_synced q) (log_name i) = Some n else n = length bs)
    \<and> (\<forall>m \<ge> n. \<exists>ev \<in> set (fst (readLog (take m bs))). same_event ev (demo_event ''a''))"
    by (rule wal_durable [OF n _ _ r p]) (simp_all add: file_bytes_def)
  with r d show ?thesis by auto
qed

text \<open>
  The condition on the directory matters.  After a crash that tore a record, the segment is opened
  for appending as it is: the next event is written behind the torn bytes and confirmed to its
  publisher, but cannot be read back.
\<close>

definition torn_dir :: dirents where
  "torn_dir = [(log_name 0, File ''tor'')]"

lemma findLast_torn: "findLastSegmentID torn_dir = 0"
  using sscanf_sprintf [of 0 "''.log''" "[]"]
  by (simp add: findLastSegmentID_def torn_dir_def ReadDir_def log_name_def is_digit_def)

lemma torn_unreadable: "readLog (''tor'' @ writeRecord (demo_event ''a'')) = ([], RecordIO UnexpectedEOF)"
proof -
  let ?e = "demo_event ''a''" and ?z = "CHR 0x00"
  let ?h = "''tor'' @ be_bytes 8 (unat (ev_Seq ?e)) @ [ev_Type ?e] @ be_bytes 8 (unat (ev_Timestamp ?e)) @ [?z]"
  obtain more where m: "''tor'' @ writeRecord ?e = ?h @ [?z, ?z] @ [?z, ?z] @ [CHR 0x07, CHR ''d''] @ more"
    and l: "length more < 100" "more \<noteq> []"
  proof -
    have "be_bytes 2 (length ''default'') = [?z, CHR 0x07]" by code_simp
    then have "concat (map (\<lambda>f. be_bytes 2 (length f) @ f) (ev_strings ?e)) = [?z, CHR 0x07, CHR ''d''] @ ''efault''
        @ concat (map (\<lambda>f. be_bytes 2 (length f) @ f) [''q'', ''g'', ''a''])"
      by (simp add: ev_strings_def demo_event_def)
    moreover have "replicate 4 ?z = [?z, ?z, ?z, ?z]" by (simp add: numeral_eq_Suc)
    ultimately have "''tor'' @ writeRecord ?e = ?h @ [?z, ?z] @ [?z, ?z] @ [CHR 0x07, CHR ''d''] @ (''efault''
        @ concat (map (\<lambda>f. be_bytes 2 (length f) @ f) [''q'', ''g'', ''a''])
        @ be_bytes 4 (length (ev_Payload ?e)) @ ev_Payload ?e @ ev_footer ?e)"
      by (simp add: writeRecord_def ev_body_split ev_header_def)
    moreover have "length (''efault'' @ concat (map (\<lambda>f. be_bytes 2 (length f) @ f) [''q'', ''g'', ''a''])
        @ be_bytes 4 (length (ev_Payload ?e)) @ ev_Payload ?e @ ev_footer ?e) < 100"
      by (simp add: demo_event_def)
    ultimately show thesis by (rule that) simp
  qed
  have "readFields 4 c ([?z, ?z] @ [?z, ?z] @ [CHR 0x07, CHR ''d''] @ more) = Inl (RecordIO UnexpectedEOF)" for c
  proof -
    have v: "be_val [?z, ?z] = 0" "be_val [CHR 0x07, CHR ''d''] = 1892" by code_simp+
    have f: "\<exists>c'. readField c (?z # ?z # r) = Inr (([], c'), r)" for c r
      by (simp add: readField_def readFull_def wrap_err_def v)
    have g: "readField c (CHR 0x07 # CHR ''d'' # more) = Inl (RecordIO UnexpectedEOF)" for c
      using l by (simp add: readField_def readFull_def wrap_err_def v)
    obtain c1 where c1: "readField c (?z # ?z # ?z # ?z # CHR 0x07 # CHR ''d'' # more)
        = Inr (([], c1), ?z # ?z # CHR 0x07 # CHR ''d'' # more)" using f by blast
    obtain c2 where "readField c1 (?z # ?z # CHR 0x07 # CHR ''d'' # more)
        = Inr (([], c2), CHR 0x07 # CHR ''d'' # more)" using f by blast
    moreover have "readFields 4 c = readFields (Suc (Suc (Suc (Suc 0)))) c" by (simp add: numeral_eq_Suc)
    ultimately show ?thesis using c1 g by simp
  qed
  then show ?thesis
    using m by (subst readLog.simps) (simp add: ReadEvent_def readFull_append wrap_err_ok del: append.simps append_assoc)
qed

lemma torn_tail_hides_events:
  assumes "newQueueWAL io_good torn_dir ''default'' ''q'' demo_cfg = Ret q0"
    and "wal_run demo_acts q0 = (sent, answers, q)"
  shows "(0, None) \<in> set answers"
    and "file_bytes (qw_dir q) (log_name 0) = Some (''tor'' @ writeRecord (demo_event ''a''))"
proof -
  have t: "file_bytes torn_dir (log_name 0) = Some ''tor''" "gm_get torn_dir (log_name 0) = Some (File ''tor'')"
    by (simp_all add: torn_dir_def file_bytes_def)
  show "(0, None) \<in> set answers"
    using assms by (auto simp: demo_acts_def wal_eval file_size_def findLast_torn t)
  show "file_bytes (qw_dir q) (log_name 0) = Some (''tor'' @ writeRecord (demo_event ''a''))"
    using assms by (auto simp: demo_acts_def wal_eval file_size_def findLast_torn t)
qed

end
