(* ===== verification/Broker_Log.thy ===== *)
theory Broker_Log
  imports Broker_System Wal_Durable
begin

text \<open>
  The logs of a running broker: every step only appends to them, and a publication is confirmed only
  after the writer of its queue has put the event on disk.
\<close>

section \<open>Steps of the logs\<close>

definition clean_dir :: "dirents \<Rightarrow> bool" where
  "clean_dir d = ((\<forall>i x. gm_get d (log_name i) \<noteq> Some (Dir x)) \<and> (\<forall>i bs. file_bytes d (log_name i) = Some bs \<longrightarrow> clean_log bs))"

lemma clean_dir_empty: "clean_dir []"
  by (simp add: clean_dir_def file_bytes_def)

text \<open>The open logs satisfy their invariant, and the directories of the others hold whole records.\<close>

definition wsound :: "WAL \<Rightarrow> bool" where
  "wsound w = ((\<forall>key q. gm_get (w_queues w) key = Some q \<longrightarrow> wal_inv q)
     \<and> (\<forall>key d. gm_get (w_disk w) key = Some d \<longrightarrow> clean_dir d))"

text \<open>The events whose publishers wait, with the log that has them in its channel or batch.\<close>

definition awaited :: "WAL \<Rightarrow> (string \<times> Event \<times> nat) set" where
  "awaited w = {(key, e, n). \<exists>q. gm_get (w_queues w) key = Some q \<and> (e, Some n) \<in> queued q}"

definition wadv :: "WAL \<Rightarrow> WAL \<Rightarrow> bool" where
  "wadv w w' = (\<forall>key q. gm_get (w_queues w) key = Some q \<longrightarrow> (\<exists>q'. gm_get (w_queues w') key = Some q' \<and> advances q q'))"

definition wstep :: "(string \<times> Event \<times> nat) set \<Rightarrow> WAL \<Rightarrow> WAL \<Rightarrow> bool" where
  "wstep J w w' = (wsound w \<longrightarrow> wsound w' \<and> wadv w w' \<and> awaited w' \<subseteq> awaited w \<union> J)"

lemma wstep_refl [simp]: "wstep {} w w"
  by (auto simp: wstep_def wadv_def)

lemma wadv_trans: "wadv w w' \<Longrightarrow> wadv w' w'' \<Longrightarrow> wadv w w''"
  unfolding wadv_def using advances_trans by blast

lemma wstep_trans: "wstep J w w' \<Longrightarrow> wstep J' w' w'' \<Longrightarrow> wstep (J \<union> J') w w''"
  unfolding wstep_def using wadv_trans by blast

lemma wstep_first: "wstep {} w w' \<Longrightarrow> wstep J w' w'' \<Longrightarrow> wstep J w w''"
  using wstep_trans [of "{}" w w' J w''] by simp

lemma wstep_put:
  assumes "gm_get (w_queues w) key = Some q \<or> gm_get (w_queues w) key = None \<and> queued q = {} \<and> wal_inv q"
    and "wal_inv q \<Longrightarrow> wal_inv q' \<and> advances q q' \<and> (\<forall>e n. (e, Some n) \<in> queued q' \<longrightarrow> (e, Some n) \<in> queued q \<or> (key, e, n) \<in> J)"
  shows "wstep J w (w\<lparr>w_queues := gm_put key q' (w_queues w)\<rparr>)"
  using assms unfolding wstep_def wsound_def wadv_def awaited_def by (auto split: if_splits) blast+

lemma wstep_open:
  assumes "gm_get (w_queues w) key = None" and "wsound w \<Longrightarrow> queued q = {} \<and> wal_inv q"
  shows "wstep {} w (w\<lparr>w_queues := gm_put key q (w_queues w), w_disk := gm_del key (w_disk w)\<rparr>)"
  using assms unfolding wstep_def wadv_def awaited_def by (auto simp: wsound_def split: if_splits)

lemma getQueueWAL_cases:
  assumes "getQueueWAL io ns name w = (res, w')"
  obtains (found) q where "res = Ret q" "w' = w" "gm_get (w_queues w) (wal_key ns name) = Some q"
  | (made) q where "res = Ret q" "wstep {} w w'" "gm_get (w_queues w') (wal_key ns name) = Some q"
  | (panicked) p where "res = Panic p" "w' = w"
proof (cases "gm_get (w_queues w) (wal_key ns name)")
  case None
  let ?key = "wal_key ns name"
  define cfg where "cfg = (case gm_get (w_queueDurable w) ?key of Some dur \<Rightarrow> (w_cfg w)\<lparr>Durable := dur\<rparr> | None \<Rightarrow> w_cfg w)"
  show thesis
  proof (cases "newQueueWAL io (disk_dir ?key w) ns name cfg")
    case (Ret q)
    have "clean_dir (disk_dir ?key w)" if "wsound w"
      using that clean_dir_empty by (auto simp: disk_dir_def wsound_def split: option.split)
    then have "queued q = {} \<and> wal_inv q" if "wsound w"
      using that newQueueWAL_inv [OF Ret] by (simp add: clean_dir_def)
    from wstep_open [OF None this] Ret show thesis using made [of q] assms None
      by (auto simp: getQueueWAL_def Let_def cfg_def [symmetric])
  next
    case (Panic p)
    then show thesis using panicked [of p] assms None by (simp add: getQueueWAL_def Let_def cfg_def [symmetric])
  qed
next
  case (Some q)
  then show thesis using found [of q] assms by (simp add: getQueueWAL_def Let_def)
qed

lemma with_queue_step:
  assumes r: "with_queue io e f w = (res, w')"
    and f: "\<And>q r q'. f q = (r, q') \<Longrightarrow> wal_inv q \<Longrightarrow> wal_inv q' \<and> advances q q'
      \<and> (\<forall>e' n. (e', Some n) \<in> queued q' \<longrightarrow> (e', Some n) \<in> queued q \<or> (wal_key (ev_Namespace e) (ev_Queue e), e', n) \<in> J)"
  shows "wstep J w w'"
proof -
  obtain got w1 where g: "getQueueWAL io (ev_Namespace e) (ev_Queue e) w = (got, w1)" by fastforce
  let ?key = "wal_key (ev_Namespace e) (ev_Queue e)"
  have upd: "wstep J w1 w'" if q: "got = Ret q" "gm_get (w_queues w1) ?key = Some q" for q
  proof -
    obtain r q' where q': "f q = (r, q')" by fastforce
    have "wstep J w1 (w1\<lparr>w_queues := gm_put ?key q' (w_queues w1)\<rparr>)" by (rule wstep_put [OF _ f [OF q']]) (simp add: q)
    then show ?thesis using r g q q' by (simp add: with_queue_def)
  qed
  from g show ?thesis
  proof (cases rule: getQueueWAL_cases)
    case (found q)
    then show ?thesis using upd by simp
  next
    case (made q)
    then show ?thesis using upd wstep_first by blast
  next
    case (panicked p)
    then show ?thesis using r g by (auto simp: with_queue_def wstep_def wadv_def)
  qed
qed

lemma Append_step: "Append io e w = (res, w') \<Longrightarrow> wstep {} w w'"
  unfolding Append_def
  by (rule with_queue_step) (auto simp: qw_Append_def queued_def split: option.splits if_splits)

lemma AppendSync_step:
  "AppendSync io n e w = (res, w') \<Longrightarrow> wstep {(wal_key (ev_Namespace e) (ev_Queue e), e, n)} w w'"
  unfolding AppendSync_def
  by (rule with_queue_step) (auto simp: qw_AppendSync_def queued_def Let_def split: option.splits if_splits)

lemma RegisterQueueState_step: "wstep {} w (RegisterQueueState ns name w)"
proof (cases "gm_get (w_queues w) (wal_key ns name)")
  case (Some q)
  have "wstep {} w (w\<lparr>w_queues := gm_put (wal_key ns name) (q\<lparr>qw_provider := True\<rparr>) (w_queues w)\<rparr>)"
    by (rule wstep_put [where q = q]) (auto simp: Some queued_def wal_inv_def intro!: advances_same)
  then show ?thesis using Some by (simp add: RegisterQueueState_def Let_def)
qed (simp add: RegisterQueueState_def Let_def)

text \<open>A snapshot that fails leaves a file that is no segment.\<close>

lemma snap_failed_step:
  assumes "gm_get (w_queues w) key = Some q"
  shows "wstep {} w (w\<lparr>w_queues := gm_put key (saveSnapshot_finish (Some k) snap q) (w_queues w)\<rparr>)"
proof (rule wstep_put [where q = q])
  let ?d = "gm_put (snap_name (sn_SegmentID snap)) (File (take k (SnapshotWriter_Write snap))) (qw_dir q)"
  have "file_bytes ?d (log_name i) = file_bytes (qw_dir q) (log_name i)" for i by (simp add: file_bytes_def)
  then show "wal_inv (saveSnapshot_finish (Some k) snap q) \<and> advances q (saveSnapshot_finish (Some k) snap q)
      \<and> (\<forall>e n. (e, Some n) \<in> queued (saveSnapshot_finish (Some k) snap q) \<longrightarrow> (e, Some n) \<in> queued q \<or> (key, e, n) \<in> {})"
    if "wal_inv q" using that by (auto simp: saveSnapshot_finish_def wal_inv_def queued_def intro!: advances_same)
qed (simp add: assms)

section \<open>Steps of the broker\<close>

lemma wal_frame [simp]:
  "b_WAL (on_conn c f b) = b_WAL b" "b_WAL (quota_Release b) = b_WAL b" "b_WAL (DecGlobalMsgs b) = b_WAL b"
  "b_WAL (snd (enqueueDispatch x m b)) = b_WAL b" "b_WAL (set_queue r q b) = b_WAL b" "b_WAL (activate x r k b) = b_WAL b"
  "b_WAL (hand_on x nxt b) = b_WAL b" "b_WAL (return_pending m b) = b_WAL b" "b_WAL (sched_worker x t b) = b_WAL b"
  by (simp_all add: on_conn_def quota_Release_def DecGlobalMsgs_def enqueueDispatch_def set_queue_def activate_def
      hand_on_def return_pending_def sched_worker_def split: prod.split option.split)

lemma enqueue_wal: "enqueueDispatch x m b = (ok, b') \<Longrightarrow> b_WAL b' = b_WAL b"
  using wal_frame(4) [of x m b] by simp

lemma conn_end_wal [simp]: "b_WAL (conn_end c b) = b_WAL b"
proof -
  have "b_WAL ((quota_Release ^^ n) b) = b_WAL b" for n by (induction n) simp_all
  then show ?thesis by (simp add: conn_end_def Let_def)
qed

lemma fold_activate_wal: "b_WAL (fold (\<lambda>gs. activate x r (st_Key gs)) stats b) = b_WAL b"
  by (induction stats arbitrary: b) simp_all

lemma pages_wal: "activate_pages n x r cursor b = Some b' \<Longrightarrow> b_WAL b' = b_WAL b"
  by (induction n x r cursor b rule: activate_pages.induct) (auto simp: Let_def fold_activate_wal split: prod.splits if_splits)

lemma onSubscribe_wal [simp]: "b_WAL (onSubscribe x c f b) = b_WAL b"
  by (auto simp: onSubscribe_def Let_def simp del: activate_pages.simps split: option.split dest!: pages_wal)

lemma pub_deliver_wal: "pub_deliver x c r f b = (res, b') \<Longrightarrow> b_WAL b' = b_WAL b"
  by (auto simp: pub_deliver_def Let_def split: prod.splits outcome.splits option.splits bool.splits if_splits dest!: enqueue_wal)

lemma after_send_wal: "after_send x c f k b = (res, b') \<Longrightarrow> b_WAL b' = b_WAL b"
  by (auto simp: after_send_def Let_def split: option.splits hafter.splits dest!: pub_deliver_wal)

lemma pub_logged_wal: "pub_logged x err r f i b = (res, b') \<Longrightarrow> b_WAL b' = b_WAL b"
  by (auto simp: pub_logged_def split: if_splits prod.splits outcome.splits sum.splits)

lemma wal_Append_step: "wal_Append x e b = (res, b') \<Longrightarrow> wstep {} (b_WAL b) (b_WAL b')"
  by (auto simp: wal_Append_def split: prod.splits intro: Append_step)

lemma dispatch_wal:
  assumes "dispatch_worker x attempts i b = (res, b')"
  shows "wstep {} (b_WAL b) (b_WAL b')"
proof -
  have to: "wstep {} (b_WAL b0) (b_WAL b1)" if "dispatch_to x attempts m c b0 = (r, b1)" for m c b0 b1 r
    using that by (auto simp: dispatch_to_def Let_def split: prod.splits bool.splits option.splits outcome.splits
        dest!: wal_Append_step)
  have "wstep {} (b_WAL b0) (b_WAL b1)" if "broker_dispatch x attempts m b0 = (r, b1)" for m b0 b1 r
    using that to by (fastforce simp: broker_dispatch_def split: prod.splits option.splits)
  then show ?thesis using assms(1) by (fastforce simp: dispatch_worker_def split: if_splits list.splits)
qed

lemma sweep_leases_wal: "sweep_leases x ls b = (res, b') \<Longrightarrow> wstep {} (b_WAL b) (b_WAL b')"
proof (induction x ls b rule: sweep_leases.induct)
  case (2 x l ls b)
  obtain r b1 where w: "wal_Append x (log_event EventExpire (el_Namespace l) (el_QueueName l) (el_GroupKey l) (el_MsgID l) []) b = (r, b1)"
    by fastforce
  note st = wal_Append_step [OF w]
  show ?case
  proof (cases r)
    case (Ret y)
    let ?b = "case sch_GetQueue (el_Namespace l) (el_QueueName l) (b_Scheduler b1) of None \<Rightarrow> b1 | Some r \<Rightarrow> activate x r (el_GroupKey l) b1"
    have "wstep {} (b_WAL ?b) (b_WAL b')" using 2 w Ret by simp
    moreover have "b_WAL ?b = b_WAL b1" by (simp split: option.split)
    ultimately show ?thesis using wstep_first [OF st] by simp
  qed (use 2(2) w st in simp)
qed simp

lemma sweep_queues_wal: "sweep_queues x rs b = (res, b') \<Longrightarrow> wstep {} (b_WAL b) (b_WAL b')"
proof (induction x rs b rule: sweep_queues.induct)
  case (2 x r0 rs b)
  obtain ex q where s: "SweepExpiredLeases (o_itg x) (o_itm x) (o_now x) (b_queue r0 b) = (ex, q)" by fastforce
  obtain r b1 where l: "sweep_leases x ex (set_queue r0 q b) = (r, b1)" by fastforce
  have st: "wstep {} (b_WAL b) (b_WAL b1)" using sweep_leases_wal [OF l] by simp
  show ?case
  proof (cases r)
    case (Ret y)
    then have "wstep {} (b_WAL b1) (b_WAL b')" using 2(1) [OF s [symmetric] refl l [symmetric]] 2(2) s l by simp
    then show ?thesis using wstep_first [OF st] by blast
  qed (use 2(2) s l st in simp)
qed simp

lemma onACK_wal:
  assumes "onACK x c f b = (res, b')"
  shows "wstep {} (b_WAL b) (b_WAL b')"
proof -
  let ?b = "quota_Release (on_conn c ReleaseCredit b)"
  obtain w b1 where w: "wal_Append x (log_event EventACK (conn_ns c ?b) (af_Queue f) (af_Group f) (af_MsgID f) []) ?b = (w, b1)" by fastforce
  have "b_WAL b' = b_WAL b \<or> b_WAL b' = b_WAL b1"
    using assms(1) w by (auto simp: onACK_def Let_def split: option.splits outcome.splits prod.splits)
  then show ?thesis using wal_Append_step [OF w] by auto
qed

lemma dead_letter_wal: "dead_letter x c target b = (res, b') \<Longrightarrow> b_WAL b' = b_WAL b"
  by (auto simp: dead_letter_def Let_def split: prod.splits option.splits outcome.splits if_splits)

lemma onNACK_wal:
  assumes "onNACK x c f b = (res, b')"
  shows "wstep {} (b_WAL b) (b_WAL b')"
proof -
  let ?b = "quota_Release (on_conn c ReleaseCredit b)"
  obtain w b1 where w: "wal_Append x (log_event EventNACK (conn_ns c ?b) (nf_Queue f) (nf_Group f) (nf_MsgID f) []) ?b = (w, b1)" by fastforce
  have "b_WAL b' = b_WAL b \<or> b_WAL b' = b_WAL b1"
    using assms(1) w by (auto simp: onNACK_def Let_def split: option.splits outcome.splits prod.splits if_splits dest!: dead_letter_wal)
  then show ?thesis using wal_Append_step [OF w] by auto
qed

section \<open>Waiting publishers\<close>

definition pub_event :: "Event \<Rightarrow> PublishFrame \<Rightarrow> string \<Rightarrow> bool" where
  "pub_event e f i = (ev_Type e = EventPublish \<and> ev_Queue e = pf_Queue f \<and> ev_Group e = pf_Group f
     \<and> ev_Payload e = pf_Payload f \<and> ev_MsgID e = i)"

text \<open>The event of a publication can be read from the log of its queue, from the synchronised part if the log is durable.\<close>

definition on_disk :: "WAL \<Rightarrow> PublishFrame \<Rightarrow> string \<Rightarrow> bool" where
  "on_disk w f i = (\<exists>e q. gm_get (w_queues w) (wal_key (ev_Namespace e) (ev_Queue e)) = Some q
     \<and> stored (Durable (qw_cfg q)) q e \<and> pub_event e f i)"

lemma on_disk_adv: "on_disk w f i \<Longrightarrow> wadv w w' \<Longrightarrow> on_disk w' f i"
proof -
  assume "on_disk w f i" and adv: "wadv w w'"
  then obtain e q where q: "gm_get (w_queues w) (wal_key (ev_Namespace e) (ev_Queue e)) = Some q"
    and s: "stored (Durable (qw_cfg q)) q e" "pub_event e f i" unfolding on_disk_def by blast
  then obtain q' where "gm_get (w_queues w') (wal_key (ev_Namespace e) (ev_Queue e)) = Some q'" "advances q q'"
    using adv unfolding wadv_def by blast
  moreover from this have "stored (Durable (qw_cfg q')) q' e" using stored_advances [OF s(1)] by (simp add: advances_def)
  ultimately show ?thesis using s(2) unfolding on_disk_def by blast
qed

abbreviation logs :: "System \<Rightarrow> WAL" where
  "logs s \<equiv> b_WAL (y_b s)"

definition log_inv :: "System \<Rightarrow> bool" where
  "log_inv s = (wsound (logs s) \<and> (\<forall>key e n. (key, e, n) \<in> awaited (logs s) \<longrightarrow> n < y_waiter s)
     \<and> (\<forall>n. (n, None) \<in> set (y_answers s) \<longrightarrow> n < y_waiter s)
     \<and> (\<forall>c r f i n. y_h s c = HWait r f i n \<longrightarrow> n < y_waiter s
          \<and> (\<forall>key e. (key, e, n) \<in> awaited (logs s) \<longrightarrow> key = wal_key (ev_Namespace e) (ev_Queue e) \<and> pub_event e f i)
          \<and> ((n, None) \<in> set (y_answers s) \<longrightarrow> on_disk (logs s) f i)))"

lemma log_step:
  assumes I: "log_inv s" and st: "wstep J (logs s) (logs s')" and a: "y_answers s' = y_answers s" and w: "y_waiter s \<le> y_waiter s'"
    and J: "\<And>key e n. (key, e, n) \<in> J \<Longrightarrow> y_waiter s \<le> n \<and> n < y_waiter s'"
    and h: "\<And>c r f i n. y_h s' c = HWait r f i n \<Longrightarrow> y_h s c = HWait r f i n
      \<or> y_waiter s \<le> n \<and> n < y_waiter s' \<and> (\<forall>key e. (key, e, n) \<in> J \<longrightarrow> key = wal_key (ev_Namespace e) (ev_Queue e) \<and> pub_event e f i)"
  shows "log_inv s' \<and> wadv (logs s) (logs s')"
proof -
  have w': "wsound (logs s')" "wadv (logs s) (logs s')" "awaited (logs s') \<subseteq> awaited (logs s) \<union> J"
    using I st unfolding wstep_def log_inv_def by blast+
  have aw: "n < y_waiter s" if "(key, e, n) \<in> awaited (logs s)" for key e n using I that unfolding log_inv_def by blast
  have an: "n < y_waiter s" if "(n, None) \<in> set (y_answers s)" for n using I that unfolding log_inv_def by blast
  have "n < y_waiter s'" if "(key, e, n) \<in> awaited (logs s')" for key e n
    using that w'(3) aw J w by (meson Un_iff less_le_trans subsetD)
  moreover have "n < y_waiter s'
      \<and> (\<forall>key e. (key, e, n) \<in> awaited (logs s') \<longrightarrow> key = wal_key (ev_Namespace e) (ev_Queue e) \<and> pub_event e f i)
      \<and> ((n, None) \<in> set (y_answers s') \<longrightarrow> on_disk (logs s') f i)" if hw: "y_h s' c = HWait r f i n" for c r f i n
  proof (cases "y_h s c = HWait r f i n")
    case True
    then have n: "n < y_waiter s" and e: "\<forall>key e. (key, e, n) \<in> awaited (logs s) \<longrightarrow> key = wal_key (ev_Namespace e) (ev_Queue e) \<and> pub_event e f i"
      and d: "(n, None) \<in> set (y_answers s) \<longrightarrow> on_disk (logs s) f i" using I unfolding log_inv_def by blast+
    have "(key, e, n) \<notin> J" for key e using J n by fastforce
    then show ?thesis using n w e w'(3) d on_disk_adv [OF _ w'(2)] a by (auto dest: subsetD)
  next
    case False
    then have n: "y_waiter s \<le> n" "n < y_waiter s'"
      and e: "\<forall>key e. (key, e, n) \<in> J \<longrightarrow> key = wal_key (ev_Namespace e) (ev_Queue e) \<and> pub_event e f i" using h [OF hw] by blast+
    have "(key, e, n) \<notin> awaited (logs s)" "(n, None) \<notin> set (y_answers s)" for key e using aw an n(1) leD by blast+
    then show ?thesis using n(2) e w'(3) a by (auto dest: subsetD)
  qed
  moreover have "n < y_waiter s'" if "(n, None) \<in> set (y_answers s')" for n using an that a w by fastforce
  ultimately show ?thesis using w'(1,2) unfolding log_inv_def by blast
qed

lemma log_quiet:
  assumes "log_inv s" and "wstep {} (logs s) (logs s')" and "y_answers s' = y_answers s" and "y_waiter s \<le> y_waiter s'"
    and "\<And>c r f i n. y_h s' c = HWait r f i n \<Longrightarrow> y_h s c = HWait r f i n"
  shows "log_inv s' \<and> wadv (logs s) (logs s')"
  by (rule log_step [OF assms(1-4)]) (use assms(5) in auto)

lemma log_resume:
  assumes "log_inv s" and "wstep {} (logs s) (b_WAL b)" and "y_h s0 = y_h s" "y_answers s0 = y_answers s" "y_waiter s \<le> y_waiter s0"
    and "\<And>r f i n. res \<noteq> Ret (HWait r f i n)"
  shows "log_inv (resume c (res, b) s0) \<and> wadv (logs s) (logs (resume c (res, b) s0))"
  by (rule log_quiet [OF assms(1)]) (use assms(2-) in \<open>auto simp: resume_def split: outcome.splits if_splits\<close>)

lemma pub_start_log:
  assumes p: "pub_start x n c f b = (res, b')"
  shows "\<exists>e. wstep {(wal_key (ev_Namespace e) (ev_Queue e), e, n)} (b_WAL b) (b_WAL b')
    \<and> (\<forall>r f' i n'. res = Ret (HWait r f' i n') \<longrightarrow> n' = n \<and> f' = f \<and> pub_event e f i)"
proof (cases "sch_GetQueue (conn_ns c b) (pf_Queue f) (b_Scheduler b) = None \<or> \<not> fst (IncGlobalMsgs b)")
  case True
  have "b_WAL (snd (IncGlobalMsgs b)) = b_WAL b" by (simp add: IncGlobalMsgs_def Let_def)
  then have "b_WAL b' = b_WAL b \<and> (\<forall>r f i n. res \<noteq> Ret (HWait r f i n))"
    using p True by (auto simp: pub_start_def Let_def split: option.splits prod.splits bool.splits outcome.splits)
  then show ?thesis by (auto simp: wstep_def wadv_def)
next
  case False
  then obtain r b1 where r: "sch_GetQueue (conn_ns c b) (pf_Queue f) (b_Scheduler b) = Some r" and b1: "IncGlobalMsgs b = (True, b1)"
    by (cases "IncGlobalMsgs b") auto
  have w1: "b_WAL b1 = b_WAL b" using b1 by (auto simp: IncGlobalMsgs_def Let_def split: if_splits)
  obtain i gen where g: "GenerateID (b_gen b1) = (i, gen)" by fastforce
  let ?e = "log_event EventPublish (conn_ns c b1) (pf_Queue f) (pf_Group f) i (pf_Payload f)"
  obtain res0 w where a: "AppendSync (o_io x) n ?e (b_WAL b1) = (res0, w)" by fastforce
  have "b_WAL b' = w" "\<forall>r f' i' n'. res = Ret (HWait r f' i' n') \<longrightarrow> n' = n \<and> f' = f \<and> i' = i"
    using p r b1 g a by (auto simp: pub_start_def Let_def DecGlobalMsgs_def split: outcome.splits option.splits)
  moreover have "pub_event ?e f i" by (simp add: pub_event_def log_event_def)
  ultimately show ?thesis using AppendSync_step [OF a] w1 by (intro exI [of _ ?e]) auto
qed

lemma publish_log:
  assumes I: "log_inv s" and b: "b_WAL b = logs s"
    and r: "resume c (pub_start x (y_waiter s) c f b) (s\<lparr>y_waiter := Suc (y_waiter s)\<rparr>) = s'"
  shows "log_inv s' \<and> wadv (logs s) (logs s')"
proof -
  obtain res b' where p: "pub_start x (y_waiter s) c f b = (res, b')" by fastforce
  obtain e where st: "wstep {(wal_key (ev_Namespace e) (ev_Queue e), e, y_waiter s)} (logs s) (b_WAL b')"
    and hw: "\<forall>r f' i n. res = Ret (HWait r f' i n) \<longrightarrow> n = y_waiter s \<and> f' = f \<and> pub_event e f i"
    using pub_start_log [OF p] b by auto
  have s': "y_answers s' = y_answers s" "y_waiter s' = Suc (y_waiter s)" "b_WAL (y_b s') = b_WAL b'"
    and h: "y_h s' c' = (if c' = c then (case res of Ret h \<Rightarrow> h | Panic p \<Rightarrow> HClosed) else y_h s c')" for c'
    using r p by (auto simp: resume_def split: outcome.splits)
  show ?thesis
    by (rule log_step [OF I]) (use st hw s' h in \<open>auto split: if_splits outcome.splits\<close>)
qed

lemma frame_log:
  assumes I: "log_inv s" and r: "handle_frame x c s = (os, s')"
  shows "log_inv s' \<and> wadv (logs s) (logs s')"
proof -
  obtain rd cn where rd: "conn_ReadFrame (b_conns (y_b s) c) = (rd, cn)" by fastforce
  let ?b = "on_conn c (\<lambda>_. cn) (y_b s)" and ?s = "s\<lparr>y_waiter := Suc (y_waiter s)\<rparr>"
  show ?thesis
  proof (cases rd)
    case (Inl err)
    then have "s' = s\<lparr>y_b := conn_end c ?b, y_h := (y_h s)(c := HClosed)\<rparr>" using r rd by (simp add: handle_frame_def)
    then show ?thesis by (intro log_quiet [OF I]) (auto split: if_splits)
  next
    case (Inr f)
    then have s': "resume c (on_frame x (y_waiter s) c f ?b) ?s = s'" using r rd by (simp add: handle_frame_def Let_def)
    have quiet: "log_inv (resume c (res, b) ?s) \<and> wadv (logs s) (logs (resume c (res, b) ?s))"
      if "wstep {} (logs s) (b_WAL b)" "\<And>r f i n. res \<noteq> Ret (HWait r f i n)" for res b
      by (rule log_resume [OF I]) (use that in simp_all)
    have read: "map_outcome (\<lambda>_. HRead) (y :: unit outcome) \<noteq> Ret (HWait r f i n)" for y r f i n by (cases y) simp_all
    show ?thesis
    proof (cases f)
      case (PublishF pf)
      then show ?thesis using publish_log [OF I, where b = ?b and x = x and c = c and f = pf] s' by (simp add: on_frame_def)
    next
      case (ACK af)
      obtain res b' where a: "onACK x c af ?b = (res, b')" by fastforce
      have "wstep {} (logs s) (b_WAL b')" using onACK_wal [OF a] by simp
      then show ?thesis using quiet [OF _ read] s' ACK a by (auto simp: on_frame_def)
    next
      case (NACK nf)
      obtain res b' where a: "onNACK x c nf ?b = (res, b')" by fastforce
      have "wstep {} (logs s) (b_WAL b')" using onNACK_wal [OF a] by simp
      then show ?thesis using quiet [OF _ read] s' NACK a by (auto simp: on_frame_def)
    qed (use s' quiet in \<open>auto simp: on_frame_def\<close>)
  qed
qed

lemma logged_log:
  assumes I: "log_inv s" and r: "handle_logged x c t s = (os, s')"
  shows "log_inv s' \<and> wadv (logs s) (logs s') \<and> (\<forall>q f i. Confirmed q f i \<in> set os \<longrightarrow> on_disk (logs s') f i)"
proof (cases "\<exists>r f i w err. y_h s c = HWait r f i w \<and> (if t then Some (Some ErrSyncTimeout) else map_of (y_answers s) w) = Some err")
  case True
  then obtain q f i w err where h: "y_h s c = HWait q f i w"
    and a: "(if t then Some (Some ErrSyncTimeout) else map_of (y_answers s) w) = Some err" by blast
  obtain res b' where p: "pub_logged x err q f i (y_b s) = (res, b')" by fastforce
  have os: "os = (case res of Ret (HSend (PublishOK ok) k) \<Rightarrow> [Confirmed q f (pok_MsgID ok)] | _ \<Rightarrow> [])" and s': "s' = resume c (res, b') s"
    using r h a p by (simp_all add: handle_logged_def Let_def)
  have "res \<noteq> Ret (HWait r f' i n)" for r f' i n
    using p by (auto simp: pub_logged_def split: if_splits prod.splits outcome.splits sum.splits)
  then have L: "log_inv s' \<and> wadv (logs s) (logs s')"
    unfolding s' using log_resume [OF I] pub_logged_wal [OF p] by simp
  have "on_disk (logs s) f i \<and> i' = i" if c: "Confirmed q' f' i' \<in> set os" for q' f' i'
  proof -
    have "err = None" "i' = i" using c p os
      by (auto simp: pub_logged_def PublishWithID_def Let_def split: outcome.splits hstate.splits frame.splits if_splits prod.splits sum.splits)
    then have "(w, None) \<in> set (y_answers s)" using a map_of_SomeD by (fastforce split: if_splits)
    then show ?thesis using I h \<open>i' = i\<close> unfolding log_inv_def by blast
  qed
  moreover have "f' = f" if "Confirmed q' f' i' \<in> set os" for q' f' i'
    using that os by (auto split: outcome.splits hstate.splits frame.splits)
  ultimately show ?thesis using L on_disk_adv by blast
next
  case False
  then have "os = []" "s' = s" using r by (auto simp: handle_logged_def split: hstate.splits option.splits if_splits)
  then show ?thesis using log_quiet [OF I, of s] I by simp
qed

lemma turn_log:
  assumes I: "log_inv s" and ok: "\<forall>q. gm_get (w_queues (logs s)) key = Some q \<longrightarrow> events_ok q"
  shows "log_inv (log_turn key ios sel s) \<and> wadv (logs s) (logs (log_turn key ios sel s))"
proof (cases "gm_get (w_queues (logs s)) key")
  case None
  then show ?thesis using I by (simp add: log_turn_def Let_def wadv_def)
next
  case (Some q)
  obtain a q' where w: "writerLoop ios sel q = (a, q')" by fastforce
  let ?w = "(logs s)\<lparr>w_queues := gm_put key q' (w_queues (logs s))\<rparr>"
  let ?s = "s\<lparr>y_b := (y_b s)\<lparr>b_WAL := ?w\<rparr>, y_answers := y_answers s @ a\<rparr>"
  have e: "log_turn key ios sel s = ?s" using Some w by (simp add: log_turn_def Let_def)
  have "wal_inv q" "events_ok q" using I Some ok by (auto simp: log_inv_def wsound_def)
  from writerLoop_confirms [OF this w] have C: "wal_inv q'" "advances q q'" "queued q' \<subseteq> queued q"
    and D: "\<And>n. (n, None) \<in> set a \<Longrightarrow> \<exists>e. (e, Some n) \<in> queued q \<and> stored (Durable (qw_cfg q)) q' e" by (auto simp: confirms_def)
  have st: "wstep {} (logs s) ?w" by (rule wstep_put [OF disjI1 [OF Some]]) (use C in auto)
  have "log_inv (?s\<lparr>y_answers := y_answers s\<rparr>) \<and> wadv (logs s) (logs (?s\<lparr>y_answers := y_answers s\<rparr>))"
    by (rule log_quiet [OF I]) (use st in simp_all)
  then have L: "log_inv (?s\<lparr>y_answers := y_answers s\<rparr>)" and adv: "wadv (logs s) ?w" by simp_all
  have "on_disk ?w f i" if h: "y_h s c = HWait r f i n" and n: "(n, None) \<in> set a" for c r f i n
  proof -
    obtain e where e: "(e, Some n) \<in> queued q" "stored (Durable (qw_cfg q)) q' e" using D [OF n] by blast
    then have "(key, e, n) \<in> awaited (logs s)" using Some by (auto simp: awaited_def)
    then have "key = wal_key (ev_Namespace e) (ev_Queue e)" "pub_event e f i" using I h unfolding log_inv_def by blast+
    moreover have "qw_cfg q' = qw_cfg q" using C(2) by (simp add: advances_def)
    ultimately show ?thesis using e(2) unfolding on_disk_def by (intro exI [of _ e] exI [of _ q']) simp
  qed
  moreover have "n < y_waiter s" if "(n, None) \<in> set a" for n
    using D [OF that] Some I unfolding log_inv_def awaited_def by blast
  ultimately have "log_inv ?s" using L unfolding log_inv_def by simp
  then show ?thesis using adv e by simp
qed

section \<open>Runs\<close>

text \<open>
  The actions that leave the logs to their writers: no snapshot is completed, which would remove segments, and the log of
  a queue is not destroyed and its durability not changed while it is open.
\<close>

fun keeps_logs :: "bact \<Rightarrow> System \<Rightarrow> bool" where
  "keeps_logs (SnapSaveAct x key r itg wr) s = (wr \<noteq> None)"
| "keeps_logs (DestroyAct ns name ios rm) s = (WAL_GetQueue ns name (logs s) = None)"
| "keeps_logs (SetDurableAct ns name dur) s = (WAL_GetQueue ns name (logs s) = None)"
| "keeps_logs _ s = True"

text \<open>The events handed over fit into records.\<close>

definition events_fit :: "System \<Rightarrow> bool" where
  "events_fit s = list_all (\<lambda>(key, q). list_all (\<lambda>(e, d). event_ok e) (qw_ch q @ qw_batch q)) (w_queues (logs s))"

fun logs_ok :: "bact list \<Rightarrow> System \<Rightarrow> bool" where
  "logs_ok [] s = True"
| "logs_ok (a # as) s = (keeps_logs a s \<and> events_fit s \<and> logs_ok as (snd (sys_act a s)))"

lemma act_log:
  assumes I: "log_inv s" and c: "keeps_logs a s" and fit: "events_fit s" and r: "sys_act a s = (os, s')"
  shows "log_inv s' \<and> wadv (logs s) (logs s') \<and> (\<forall>q f i. Confirmed q f i \<in> set os \<longrightarrow> on_disk (logs s') f i)"
proof -
  have idle: "log_inv s'' \<and> wadv (logs s) (logs s'')"
    if "wstep {} (logs s) (logs s'')" "y_h s'' = y_h s" "y_answers s'' = y_answers s" "y_waiter s'' = y_waiter s" for s''
    by (rule log_quiet [OF I]) (use that in simp_all)
  show ?thesis
  proof (cases a)
    case (OpenAct c addr input m it authSvc)
    have "log_inv (open_conn c addr input m it authSvc s) \<and> wadv (logs s) (logs (open_conn c addr input m it authSvc s))"
      by (rule log_quiet [OF I]) (auto simp: open_conn_def Let_def split: prod.splits if_splits)
    then show ?thesis using r OpenAct idle [of s] by (auto split: if_splits)
  next
    case (FrameAct x c)
    have "Confirmed q f i \<notin> set (settles c fr b)" for q f i fr b by (cases fr) (auto split: option.splits)
    then have "handle_frame x c s = (os, s') \<Longrightarrow> Confirmed q f i \<notin> set os" for q f i
      by (auto simp: handle_frame_def Let_def split: prod.splits sum.splits)
    then show ?thesis using r FrameAct frame_log [OF I] idle [of s] by (auto split: if_splits)
  next
    case (LoggedAct x c t)
    then show ?thesis using r logged_log [OF I] by simp
  next
    case (SendAct x c)
    have "log_inv (resume c (after_send x c f k (y_b s)) s) \<and> wadv (logs s) (logs (resume c (after_send x c f k (y_b s)) s))" for f k
    proof -
      obtain res b' where p: "after_send x c f k (y_b s) = (res, b')" by fastforce
      have "res \<noteq> Ret (HWait r f' i w)" for r f' i w
        using p by (auto simp: after_send_def pub_deliver_def Let_def split: option.splits hafter.splits prod.splits outcome.splits)
      then show ?thesis unfolding p using log_resume [OF I] after_send_wal [OF p] by simp
    qed
    then show ?thesis using r SendAct idle [of s] by (auto split: hstate.splits)
  next
    case (DispatchAct x m i)
    then have "wstep {} (logs s) (logs s') \<and> y_h s' = y_h s \<and> y_answers s' = y_answers s \<and> y_waiter s' = y_waiter s \<and> os = []"
      using r by (auto split: if_splits prod.splits outcome.splits dest!: dispatch_wal)
    then show ?thesis using idle [of s'] by simp
  next
    case (SweepAct x)
    then have "wstep {} (logs s) (logs s') \<and> y_h s' = y_h s \<and> y_answers s' = y_answers s \<and> y_waiter s' = y_waiter s \<and> os = []"
      using r by (auto simp: sweepLeases_def split: if_splits prod.splits outcome.splits dest!: sweep_queues_wal)
    then show ?thesis using idle [of s'] by simp
  next
    case (LogAct key ios sel)
    have "\<forall>q. gm_get (w_queues (logs s)) key = Some q \<longrightarrow> events_ok q"
      using fit map_of_SomeD by (fastforce simp: events_fit_def events_ok_def queued_def list_all_iff)
    then show ?thesis using r LogAct turn_log [OF I] by auto
  next
    case (DeclareAct q)
    then show ?thesis using r idle [of s'] RegisterQueueState_step by (auto simp: registerQueueWithWAL_def Let_def)
  next
    case (SnapStartAct key)
    show ?thesis
    proof (cases "gm_get (w_queues (logs s)) key")
      case (Some q)
      have "wstep {} (logs s) ((logs s)\<lparr>w_queues := gm_put key (snd (saveSnapshot_begin q)) (w_queues (logs s))\<rparr>)"
        by (rule wstep_put [where q = q])
          (auto simp: Some saveSnapshot_begin_def wal_inv_def queued_def intro!: advances_same)
      then show ?thesis using r SnapStartAct Some idle [of s'] by (auto simp: snap_start_def Let_def split: prod.splits)
    qed (use r SnapStartAct idle [of s'] in \<open>simp add: snap_start_def\<close>)
  next
    case (SnapSaveAct x key qr itg wr)
    then obtain k where k: "wr = Some k" using c by auto
    have "wstep {} (logs s) (logs s') \<and> y_h s' = y_h s \<and> y_answers s' = y_answers s \<and> y_waiter s' = y_waiter s \<and> os = []"
      using r SnapSaveAct k snap_failed_step by (auto simp: snap_save_def Let_def split: option.splits)
    then show ?thesis using idle [of s'] by simp
  next
    case (DestroyAct ns name ios rm)
    then have "s' = s" "os = []" using r c by (auto simp: destroy_log_def DestroyQueue_def WAL_GetQueue_def Let_def)
    then show ?thesis using idle [of s] by simp
  next
    case (SetDurableAct ns name dur)
    then have "logs s' = (logs s)\<lparr>w_queueDurable := gm_put (wal_key ns name) dur (w_queueDurable (logs s))\<rparr>"
      using r c by (auto simp: SetQueueDurable_def WAL_GetQueue_def Let_def)
    then have "wstep {} (logs s) (logs s')" by (simp add: wstep_def wsound_def wadv_def awaited_def)
    then show ?thesis using r SetDurableAct idle [of s'] by auto
  qed (use r idle [of s'] in \<open>auto split: if_splits\<close>)
qed

lemma run_log:
  "sys_run as s = (os, s') \<Longrightarrow> log_inv s \<Longrightarrow> logs_ok as s \<Longrightarrow>
   wadv (logs s) (logs s') \<and> (\<forall>q f i. Confirmed q f i \<in> set os \<longrightarrow> on_disk (logs s') f i)"
proof (induction as arbitrary: s os)
  case Nil
  then show ?case by (simp add: wadv_def)
next
  case (Cons a as)
  obtain o1 s1 where a: "sys_act a s = (o1, s1)" by fastforce
  obtain o2 where rest: "sys_run as s1 = (o2, s')" and os: "os = o1 @ o2"
    using Cons.prems(1) a by (auto split: prod.splits)
  have L: "log_inv s1 \<and> wadv (logs s) (logs s1) \<and> (\<forall>q f i. Confirmed q f i \<in> set o1 \<longrightarrow> on_disk (logs s1) f i)"
    by (rule act_log [OF Cons.prems(2) _ _ a]) (use Cons.prems(3) in simp_all)
  moreover from this have "wadv (logs s1) (logs s') \<and> (\<forall>q f i. Confirmed q f i \<in> set o2 \<longrightarrow> on_disk (logs s') f i)"
    using Cons.IH [OF rest] Cons.prems(3) a by simp
  ultimately show ?case using wadv_trans on_disk_adv [of "logs s1" _ _ "logs s'"] unfolding os by auto
qed

end
