(* ===== verification/Protocol_Props.thy ===== *)
theory Protocol_Props
  imports Protocol
begin

text \<open>
  Properties of the wire protocol: every frame within the limits of its fields survives encoding
  and decoding, a stream of frames is cut at exactly the frame boundaries, whatever the buffering,
  and what the decoder accepts satisfies the identifier rules.
\<close>

section \<open>Frames within the limits\<close>

fun fields_ok :: "frame \<Rightarrow> bool" where
  "fields_ok (Connect f) = (isValidIdent (cf_Username f) \<and> str_ok (cf_Password f) \<and> str_ok (cf_Namespace f)
     \<and> str_ok (cf_APIKey f) \<and> str_ok (cf_Token f))"
| "fields_ok (ConnectOK f) = str_ok (cok_SessionID f)"
| "fields_ok (ConnectErr f) = str_ok (cerr_Reason f)"
| "fields_ok (PublishF f) = (isValidIdent (pf_Queue f) \<and> isValidIdent (pf_Group f) \<and> blob_ok (pf_Payload f))"
| "fields_ok (PublishOK f) = str_ok (pok_MsgID f)"
| "fields_ok (Subscribe f) = (isValidIdent (sf_Queue f) \<and> isValidIdent (sf_Group f))"
| "fields_ok (MessageF f) = (str_ok (mf_MsgID f) \<and> str_ok (mf_Queue f) \<and> str_ok (mf_Group f) \<and> blob_ok (mf_Payload f))"
| "fields_ok (ACK f) = (str_ok (af_MsgID f) \<and> isValidIdent (af_Queue f) \<and> isValidIdent (af_Group f))"
| "fields_ok (NACK f) = (str_ok (nf_MsgID f) \<and> isValidIdent (nf_Queue f) \<and> isValidIdent (nf_Group f)
     \<and> str_ok (nf_Reason f))"
| "fields_ok (ErrorF f) = str_ok (ef_Message f)"
| "fields_ok (Backpressure f) = str_ok (bf_Reason f)"
| "fields_ok Heartbeat = True"

definition frame_ok :: "frame \<Rightarrow> bool" where
  "frame_ok f = (fields_ok f \<and> length (frame_payload f) \<le> maxPayloadSize)"

lemma ident_str_ok: "isValidIdent s \<Longrightarrow> str_ok s"
  by (simp add: isValidIdent_def str_ok_def split: if_splits)

lemma decode_frame_payload: "fields_ok f \<Longrightarrow> decode_payload (FrameType f) (frame_payload f) = Inr f"
  by (cases f) (simp_all add: decode_payload_def check_idents_def field_codecs last_field_codecs ident_str_ok)

lemma ReadFrame_encode:
  assumes "frame_ok f"
  shows "ReadFrame (encode_frame f @ rest) = (Inr f, rest)"
proof -
  let ?p = "frame_payload f" and ?h = "FrameType f # be_bytes 4 (length (frame_payload f))"
  have ok: "fields_ok f" "length ?p \<le> maxPayloadSize" using assms by (simp_all add: frame_ok_def)
  have header: "readFull 5 (encode_frame f @ rest) = Inr (?h, ?p @ rest)"
    using readFull_append [of ?h 5 "?p @ rest"] by (simp add: encode_frame_def)
  have "be_val (be_bytes 4 (length ?p)) = length ?p"
    using ok(2) by (simp add: be_val_be_bytes maxPayloadSize_def)
  then show ?thesis
    using ok by (simp add: ReadFrame_def header readFull_append decode_frame_payload)
qed

interpretation frame_codec: codec encode_frame ReadFrame Inr frame_ok
  by unfold_locales (simp_all add: ReadFrame_encode)

section \<open>The buffered writer\<close>

text \<open>
  \<open>carries e bs\<close>: the bytes \<open>bs\<close> were given to the writer.  Without an error they are what the connection has taken
  followed by the buffer; after an error, when the connection takes no more, a beginning of them has been taken.
\<close>

definition carries :: "Encoder \<Rightarrow> byte list \<Rightarrow> bool" where
  "carries e bs = ((\<not> enc_err e \<longrightarrow> bs = enc_wire e @ enc_buf e) \<and> (\<exists>left. bs = enc_wire e @ left)
     \<and> (enc_err e \<longrightarrow> enc_room e = Some 0))"

lemma carries_err: "carries e bs \<Longrightarrow> enc_err e \<Longrightarrow> carries e (bs @ p)"
  by (auto simp: carries_def)

lemma take_split: "\<exists>left. xs = take n xs @ left"
  by (metis append_take_drop_id)

lemma net_Write_carries:
  "carries e bs \<Longrightarrow> \<not> enc_err e \<Longrightarrow> enc_buf e = [] \<Longrightarrow> carries (net_Write p e) (bs @ p)"
  by (auto simp: carries_def net_Write_def taken_def Let_def min_def take_split split: option.splits)

lemma bw_flush_carries: "carries e bs \<Longrightarrow> carries (bw_flush e) bs"
  by (auto simp: carries_def bw_flush_def net_Write_def taken_def Let_def min_def take_split split: option.splits)

lemma bw_flush_empty: "enc_err (bw_flush e) \<or> enc_buf (bw_flush e) = []"
  by (auto simp: bw_flush_def net_Write_def taken_def Let_def split: option.splits)

lemma bw_write_carries: "carries e bs \<Longrightarrow> carries (bw_write p e) (bs @ p)"
proof (induction p e arbitrary: bs rule: bw_write.induct)
  case (1 p e)
  let ?n = "bufSize - length (enc_buf e)"
  consider "enc_err e" | "\<not> enc_err e" "length p > ?n" "enc_buf e = []" | "\<not> enc_err e" "length p > ?n" "enc_buf e \<noteq> []"
    | "\<not> enc_err e" "length p \<le> ?n" by linarith
  then show ?case
  proof cases
    case 3
    have "carries (e\<lparr>enc_buf := enc_buf e @ take ?n p\<rparr>) (bs @ take ?n p)"
      using "1.prems" 3 by (auto simp: carries_def)
    from "1.IH" [OF 3 refl bw_flush_carries [OF this]] show ?thesis
      using 3 by (simp add: bw_write.simps [of p e] Let_def)
  qed (use "1.prems" in \<open>auto simp: bw_write.simps [of p e] carries_err net_Write_carries, auto simp: carries_def\<close>)
qed

lemma enc_write_carries:
  assumes "carries e bs"
  shows "carries (enc_write f e) (bs @ encode_frame f)"
proof -
  let ?h = "FrameType f # be_bytes 4 (length (frame_payload f))" and ?p = "frame_payload f"
  let ?e1 = "bw_write ?h e"
  let ?e2 = "if \<not> enc_err ?e1 \<and> ?p \<noteq> [] then bw_write ?p ?e1 else ?e1"
  have "carries ?e1 (bs @ ?h)" using assms by (rule bw_write_carries)
  then have "carries ?e2 ((bs @ ?h) @ ?p)"
    using bw_write_carries [of ?e1 "bs @ ?h" ?p] carries_err [of ?e1 "bs @ ?h" ?p] by (auto split: if_splits)
  then have c: "carries ?e2 (bs @ encode_frame f)" by (simp add: encode_frame_def)
  have "enc_write f e = (if \<not> enc_err ?e2 \<and> flushes f then bw_flush ?e2 else ?e2)"
    by (simp add: enc_write_def Let_def)
  then show ?thesis using c bw_flush_carries [OF c] by (simp split: if_splits)
qed

lemma enc_writes_carry: "carries e bs \<Longrightarrow> carries (fold enc_write fs e) (bs @ concat (map encode_frame fs))"
proof (induction fs arbitrary: e bs)
  case (Cons f fs)
  from Cons.IH [OF enc_write_carries [OF Cons.prems]] show ?case by simp
qed simp

lemma carries_new: "carries NewEncoder []"
  by (simp add: carries_def NewEncoder_def)

text \<open>A connection whose writes do not fail.\<close>

lemma bw_flush_room: "(enc_room (bw_flush e) = None) = (enc_room e = None)"
  by (simp add: bw_flush_def net_Write_def Let_def)

lemma bw_write_room: "(enc_room (bw_write p e) = None) = (enc_room e = None)"
proof (induction p e rule: bw_write.induct)
  case (1 p e)
  then show ?case
    by (cases "enc_err e \<or> length p \<le> bufSize - length (enc_buf e) \<or> enc_buf e = []")
      (auto simp: bw_write.simps [of p e] Let_def net_Write_def bw_flush_room)
qed

lemma enc_write_room: "(enc_room (enc_write f e) = None) = (enc_room e = None)"
  by (simp add: enc_write_def Let_def bw_write_room bw_flush_room)

lemma enc_writes_room: "(enc_room (fold enc_write fs e) = None) = (enc_room e = None)"
  by (induction fs arbitrary: e) (simp_all add: enc_write_room)

lemma carries_flushed: "carries e bs \<Longrightarrow> enc_room e = None \<Longrightarrow> enc_wire (bw_flush e) = bs"
  using bw_flush_carries [of e bs] bw_flush_empty [of e] bw_flush_room [of e] by (auto simp: carries_def)

text \<open>Reading frames one after the other, as the connection loop does.\<close>

primrec readFrames :: "nat \<Rightarrow> byte list \<Rightarrow> (proto_error + frame) list \<times> byte list" where
  "readFrames 0 bs = ([], bs)"
| "readFrames (Suc n) bs = (let (f, bs) = ReadFrame bs; (fs, bs) = readFrames n bs in (f # fs, bs))"

lemma readFrames_decs: "readFrames n bs = frame_codec.decs n bs"
  by (induction n arbitrary: bs) simp_all

section \<open>Streams that break off\<close>

text \<open>A frame that breaks off is an error of the reader.\<close>

lemma ReadFrame_cut:
  assumes "frame_ok f" and "encode_frame f = bs @ left" and "left \<noteq> []"
  shows "\<exists>e rest. ReadFrame bs = (Inl (ReadError e), rest)"
proof -
  let ?p = "frame_payload f" and ?h = "FrameType f # be_bytes 4 (length (frame_payload f))"
  have len: "be_val (be_bytes 4 (length ?p)) = length ?p" "length ?p \<le> maxPayloadSize"
    using assms(1) by (simp_all add: frame_ok_def be_val_be_bytes maxPayloadSize_def)
  show ?thesis
  proof (cases "length bs < 5")
    case True
    then show ?thesis using readFull_short [of bs 5] by (auto simp: ReadFrame_def)
  next
    case False
    have e: "bs @ left = ?h @ ?p" using assms(2) by (simp add: encode_frame_def)
    have "take 5 (bs @ left) = ?h" unfolding e by simp
    then have "bs = ?h @ drop 5 bs" using False append_take_drop_id [of 5 bs] by simp
    then obtain p where p: "bs = ?h @ p" by blast
    with e have "?p = p @ left" by simp
    then have "length p < length ?p" using assms(3) by simp
    then obtain err where "readFull (length ?p) p = Inl err" using readFull_short by blast
    moreover have "readFull 5 bs = Inr (?h, p)" unfolding p by (intro readFull_append) simp
    ultimately show ?thesis using len by (simp add: ReadFrame_def)
  qed
qed

text \<open>
  From a beginning of a stream of frames the reader gets the first of them, and then an error unless it has all.
\<close>

definition reads_first :: "frame list \<Rightarrow> byte list \<Rightarrow> bool" where
  "reads_first fs bs = (\<exists>k rest. k \<le> length fs \<and> readFrames k bs = (map Inr (take k fs), rest)
     \<and> (if k = length fs then rest = [] else \<exists>e r. ReadFrame rest = (Inl (ReadError e), r)))"

lemma frames_cut:
  assumes "list_all frame_ok fs" and "concat (map encode_frame fs) = bs @ left"
  shows "reads_first fs bs"
  using assms
proof (induction fs arbitrary: bs)
  case Nil
  then show ?case by (simp add: reads_first_def)
next
  case (Cons f fs)
  show ?case
  proof (cases "length (encode_frame f) \<le> length bs")
    case True
    then obtain bs' where bs: "bs = encode_frame f @ bs'" "concat (map encode_frame fs) = bs' @ left"
      using Cons.prems(2) by (auto simp: append_eq_append_conv2)
    with Cons obtain k rest where k: "k \<le> length fs" "readFrames k bs' = (map Inr (take k fs), rest)"
      "if k = length fs then rest = [] else \<exists>e r. ReadFrame rest = (Inl (ReadError e), r)"
      by (auto simp: reads_first_def)
    have "readFrames (Suc k) bs = (map Inr (take (Suc k) (f # fs)), rest)"
      using k(2) Cons.prems(1) by (simp add: bs ReadFrame_encode)
    with k show ?thesis unfolding reads_first_def by (intro exI [of _ "Suc k"] exI [of _ rest]) (simp del: readFrames.simps)
  next
    case False
    then obtain us where "encode_frame f = bs @ us" "us \<noteq> []"
      using Cons.prems(2) by (auto simp: append_eq_append_conv2)
    then have "\<exists>e r. ReadFrame bs = (Inl (ReadError e), r)" using ReadFrame_cut [of f bs us] Cons.prems(1) by simp
    then show ?thesis unfolding reads_first_def by (intro exI [of _ 0] exI [of _ bs]) simp
  qed
qed

section \<open>Properties\<close>

text \<open>
  [C28] Protocol round trip.  Any sequence of frames within the limits (strings shorter than
  \<open>2 ^ 16\<close>, payloads of at most 16 MiB, valid identifiers), written through the buffered encoder
  and flushed, is read back by the decoder as exactly those frames, in order and with nothing left
  over, whatever the sizes of the frames relative to the 64 KiB buffer.
\<close>

theorem protocol_roundtrip:
  assumes "list_all frame_ok fs"
  shows "readFrames (length fs) (enc_wire (Flush (fold enc_write fs NewEncoder))) = (map Inr fs, [])"
proof -
  have "enc_wire (Flush (fold enc_write fs NewEncoder)) = concat (map encode_frame fs)"
    using carries_flushed [OF enc_writes_carry [OF carries_new, of fs]] by (simp add: Flush_def enc_writes_room NewEncoder_def)
  then show ?thesis using frame_codec.decs_concat [OF assms, of "[]"] by (simp add: readFrames_decs)
qed

theorem protocol_roundtrip_witness:
  "readFrames 2 (enc_wire (Flush (fold enc_write
      [PublishF \<lparr>pf_Queue = ''q'', pf_Group = ''g'', pf_Payload = ''hello''\<rparr>, Heartbeat] NewEncoder)))
   = ([Inr (PublishF \<lparr>pf_Queue = ''q'', pf_Group = ''g'', pf_Payload = ''hello''\<rparr>), Inr Heartbeat], [])"
proof -
  have "list_all frame_ok [PublishF \<lparr>pf_Queue = ''q'', pf_Group = ''g'', pf_Payload = ''hello''\<rparr>, Heartbeat]"
    by (simp add: frame_ok_def isValidIdent_def blob_ok_def maxPayloadSize_def w_str_def w_blob_def
        less_eq_char_def)
  from protocol_roundtrip [OF this] show ?thesis by (simp add: numeral_2_eq_2 del: readFrames.simps)
qed

fun idents_valid :: "frame \<Rightarrow> bool" where
  "idents_valid (Connect f) = isValidIdent (cf_Username f)"
| "idents_valid (PublishF f) = (isValidIdent (pf_Queue f) \<and> isValidIdent (pf_Group f))"
| "idents_valid (Subscribe f) = (isValidIdent (sf_Queue f) \<and> isValidIdent (sf_Group f))"
| "idents_valid (ACK f) = (isValidIdent (af_Queue f) \<and> isValidIdent (af_Group f))"
| "idents_valid (NACK f) = (isValidIdent (nf_Queue f) \<and> isValidIdent (nf_Group f))"
| "idents_valid _ = True"

lemma decode_payload_valid: "decode_payload ft r = Inr f \<Longrightarrow> idents_valid f \<and> FrameType f = ft"
  by (auto simp: decode_payload_def check_idents_def split: if_splits prod.splits)

lemma decode_payload_err: "decode_payload ft r = Inl e \<Longrightarrow>
    e \<in> {InvalidUsername, InvalidQueueName, InvalidGroupKey, UnknownFrameType ft}"
  by (auto simp: decode_payload_def check_idents_def split: if_splits prod.splits)

text \<open>
  [C29] What the decoder lets through.  On any byte stream: a frame that is accepted has a payload of
  at most 16 MiB and is of the type its first byte says; published, subscribed, acknowledged and negatively acknowledged
  frames name a queue and a group that are non-empty, at most 1024 bytes long and made of the allowed
  characters, and a connect frame has such a user name.  The other fields, among them the namespace of a connect
  frame and the message identifiers, are not validated.
\<close>

theorem ReadFrame_accepts:
  assumes "ReadFrame bs = (Inr f, rest)"
  shows "\<exists>len payload. bs = FrameType f # len @ payload @ rest \<and> length len = 4
    \<and> length payload = be_val len \<and> length payload \<le> maxPayloadSize \<and> idents_valid f"
proof -
  obtain header b1 where h: "readFull 5 bs = Inr (header, b1)"
    using assms by (auto simp: ReadFrame_def split: sum.splits prod.splits)
  let ?n = "be_val (tl header)"
  have n: "?n \<le> maxPayloadSize" using assms by (auto simp: ReadFrame_def h Let_def split: if_splits)
  obtain payload b2 where p: "readFull ?n b1 = Inr (payload, b2)"
    using assms by (auto simp: ReadFrame_def h Let_def split: if_splits sum.splits prod.splits)
  have d: "decode_payload (hd header) payload = Inr f" "b2 = rest"
    using assms n by (auto simp: ReadFrame_def h p Let_def)
  have l: "bs = header @ payload @ rest" "length header = 5" "length payload = ?n"
    using readFull_Inr [OF h] readFull_Inr [OF p] d(2) by auto
  have "header = FrameType f # tl header" "length (tl header) = 4"
    using l(2) decode_payload_valid [OF d(1)] by (cases header; simp)+
  then show ?thesis using l n decode_payload_valid [OF d(1)] by (metis append_Cons)
qed

theorem ReadFrame_accepts_witness:
  "\<exists>len payload. encode_frame (PublishF \<lparr>pf_Queue = ''q'', pf_Group = ''g'', pf_Payload = ''hello''\<rparr>) = CHR 0x10 # len @ payload
     \<and> length payload = be_val len \<and> isValidIdent ''q'' \<and> isValidIdent ''g''"
proof -
  let ?f = "PublishF \<lparr>pf_Queue = ''q'', pf_Group = ''g'', pf_Payload = ''hello''\<rparr>"
  have "frame_ok ?f"
    by (simp add: frame_ok_def isValidIdent_def blob_ok_def maxPayloadSize_def w_str_def w_blob_def less_eq_char_def)
  then have "ReadFrame (encode_frame ?f @ []) = (Inr ?f, [])" by (rule ReadFrame_encode)
  from ReadFrame_accepts [OF this] show ?thesis by (auto simp: frame_ok_def)
qed

section \<open>Beyond the limits\<close>

text \<open>
  A string of \<open>2 ^ 16\<close> bytes or more is written with a wrapped length: what is read back is not
  what was written.
\<close>

lemma long_string_truncated:
  assumes "length s = 65536"
  shows "r_str (w_str s) = ([], s)"
  using assms by (simp add: w_str_def r_str_def be_val_be_bytes Let_def)

text \<open>
  A publish frame whose payload is cut short is not rejected: the reader's error is dropped and the
  message is accepted with an empty payload.
\<close>

lemma truncated_publish_accepted:
  assumes "isValidIdent q" and "isValidIdent g" and "length data < n" and "n < 2 ^ 32"
  shows "decode_payload (CHR 0x10) (w_str q @ w_str g @ be_bytes 4 n @ data)
    = Inr (PublishF \<lparr>pf_Queue = q, pf_Group = g, pf_Payload = []\<rparr>)"
proof -
  have "r_blob (be_bytes 4 n @ data) = ([], data)"
    using assms(3,4) by (simp add: r_blob_def be_val_be_bytes Let_def)
  then show ?thesis
    using assms(1,2) by (simp add: decode_payload_def field_codecs ident_str_ok check_idents_def)
qed

text \<open>
  A connect frame that carries an API key or a token but no user name is rejected by the decoder.
\<close>

lemma connect_without_username_rejected:
  "decode_payload (CHR 0x01) (w_str [] @ w_str p @ w_str n @ w_str a @ w_str t) = Inl InvalidUsername"
  by (simp add: decode_payload_def w_str_def r_str_def be_val_be_bytes isValidIdent_def Let_def split: prod.split)

end
