(* ===== verification/Auth_Props.thy ===== *)
theory Auth_Props
  imports Auth
begin

text \<open>
  What authentication and authorisation promise: the order in which authenticators are tried, which
  namespaces an API key opens, the comparison of signatures, and who may perform privileged actions.
\<close>

section \<open>The order of the authenticators\<close>

lemma exchange_least:
  assumes "exchange x ys = (m, r)"
  shows "add_mset m (mset r) = add_mset x (mset ys) \<and> au_Priority m \<le> au_Priority x \<and> (\<forall>z \<in> set r. au_Priority m \<le> au_Priority z)"
  using assms
proof (induction x ys arbitrary: m r rule: exchange.induct)
  case (2 x y ys)
  show ?case
  proof (cases "au_Priority x > au_Priority y")
    case True
    with 2(3) obtain r' where "exchange y ys = (m, r')" "r = x # r'" by (auto split: prod.splits)
    with 2(1) [OF True] True show ?thesis by force
  next
    case False
    with 2(3) obtain r' where "exchange x ys = (m, r')" "r = y # r'" by (auto split: prod.splits)
    with 2(2) [OF False] False show ?thesis by force
  qed
qed simp

lemma exchange_sort_ok: "mset (exchange_sort xs) = mset xs \<and> sorted (map au_Priority (exchange_sort xs))"
proof (induction xs rule: exchange_sort.induct)
  case (2 x xs)
  obtain m r where e: "exchange x xs = (m, r)" by fastforce
  note L = exchange_least [OF e]
  note I = 2 [OF e [symmetric] refl]
  have "set (exchange_sort r) = set r" using I by (metis set_mset_mset)
  with L I e show ?case by auto
qed simp

lemma reg_All_set: "is_range_order it \<Longrightarrow> set (reg_All it r) = snd ` set r"
  using exchange_sort_ok [of "map snd (it r)"] range_order_mset [of it r]
  by (metis reg_All_def set_map set_mset_mset)

text \<open>
  Order of authentication.  Whatever order the map of the registered authenticators is visited
  in, they are all tried, each once, in ascending order of their priorities.
\<close>

lemma authenticators_sorted:
  assumes "is_range_order it"
  shows "mset (reg_All it r) = mset (map snd r) \<and> sorted (map au_Priority (reg_All it r))"
proof -
  have "mset (map snd (it r)) = image_mset snd (mset r)" using range_order_mset [OF assms, of r] by simp
  then show ?thesis using exchange_sort_ok [of "map snd (it r)"] by (simp add: reg_All_def)
qed

definition demo_auth :: "string \<Rightarrow> int \<Rightarrow> Authenticator" where
  "demo_auth n p = \<lparr>au_Name = n, au_Priority = p, au_Authenticate = (\<lambda>_. Inr None)\<rparr>"

section \<open>Permissions\<close>

lemma ps_Has_Add [simp]: "ps_Has (ps_Add p ps) q = (p = q \<or> ps_Has ps q)"
  by (simp add: ps_Has_def ps_Add_def)

lemma ps_Has_fold: "ps_Has (fold ps_Add perms ps) q = (q \<in> set perms \<or> ps_Has ps q)"
  by (induction perms arbitrary: ps) auto

lemma ps_Has_new [simp]: "ps_Has (NewPermissionSet perms) q = (q \<in> set perms)"
  by (simp add: NewPermissionSet_def ps_Has_fold) (simp add: ps_Has_def)

lemma ps_Has_strings: "ps_Has (PermissionSetFromStrings perms) q = (\<exists>s \<in> set perms. perm_of_string s = Some q)"
proof -
  have "ps_Has (fold (\<lambda>p ps. case perm_of_string p of Some q \<Rightarrow> ps_Add q ps | None \<Rightarrow> ps) perms ps) q
      = ((\<exists>s \<in> set perms. perm_of_string s = Some q) \<or> ps_Has ps q)" for ps
    by (induction perms arbitrary: ps) (auto split: option.splits)
  then show ?thesis by (simp add: PermissionSetFromStrings_def) (simp add: ps_Has_def)
qed

lemma perm_distinct: "distinct [PermNone, PermPublish, PermConsume, PermAck, PermNack, PermManageQueues,
    PermManageUsers, PermMetricsRead, PermAuditRead, PermAdmin]"
  by (simp add: perm_defs)

lemma perm_admin: "perm_of_string s = Some PermAdmin \<longleftrightarrow> s = ''admin''"
  using perm_distinct by (auto simp: perm_of_string_def)

section \<open>API keys\<close>

datatype kact = AddAct string string string "string list" | RevokeAct string

fun key_act :: "kact \<Rightarrow> APIKeyAuthenticator \<Rightarrow> APIKeyAuthenticator" where
  "key_act (AddAct key subj ns perms) a = AddKey key subj ns perms a"
| "key_act (RevokeAct key) a = RevokeKey key a"

text \<open>The grant in force for a hash: that of the last key added with it, unless it was revoked since.\<close>

fun grant :: "byte list \<Rightarrow> kact list \<Rightarrow> string \<Rightarrow> (string \<times> string \<times> string list) option \<Rightarrow> (string \<times> string \<times> string list) option" where
  "grant sec [] h g = g"
| "grant sec (AddAct key subj ns perms # as) h g = grant sec as h (if hashKey key sec = h then Some (subj, ns, perms) else g)"
| "grant sec (RevokeAct key # as) h g = grant sec as h (if hashKey key sec = h then None else g)"

definition granted :: "APIKeyAuthenticator \<Rightarrow> string \<Rightarrow> (string \<times> string \<times> string list) option" where
  "granted a h = map_option (\<lambda>e. (ke_SubjectID e, ke_Namespace e, ke_Permissions e)) (gm_get (ka_keyHash a) h)"

lemma granted_new [simp]: "granted (NewAPIKeyAuthenticator prefix priority secret) h = None"
  by (simp add: granted_def NewAPIKeyAuthenticator_def)

lemma granted_act:
  "granted (AddKey key subj ns perms a) h = (if hashKey key (ka_hashSecret a) = h then Some (subj, ns, perms) else granted a h)"
  "granted (RevokeKey key a) h = (if hashKey key (ka_hashSecret a) = h then None else granted a h)"
  by (simp_all add: granted_def AddKey_def RevokeKey_def Let_def)

lemma key_act_keeps: "ka_hashSecret (key_act x a) = ka_hashSecret a" "ka_Prefix (key_act x a) = ka_Prefix a"
  by (cases x; simp add: AddKey_def RevokeKey_def Let_def)+

lemma key_run: "granted (fold key_act acts a) h = grant (ka_hashSecret a) acts h (granted a h)"
proof (induction acts arbitrary: a)
  case (Cons x acts)
  show ?case using Cons.IH [of "key_act x a"] key_act_keeps [of x a] by (cases x) (simp_all add: granted_act)
qed simp

lemma key_run_keeps: "ka_hashSecret (fold key_act acts a) = ka_hashSecret a" "ka_Prefix (fold key_act acts a) = ka_Prefix a"
  by (induction acts arbitrary: a) (simp_all add: key_act_keeps)

lemma key_run_service:
  assumes "\<And>h e. gm_get (ka_keyHash a) h = Some e \<Longrightarrow> ke_SubjectType e = SubjectService"
    and "gm_get (ka_keyHash (fold key_act acts a)) h = Some e"
  shows "ke_SubjectType e = SubjectService"
  using assms
proof (induction acts arbitrary: a)
  case (Cons x acts)
  have "ke_SubjectType e = SubjectService" if "gm_get (ka_keyHash (key_act x a)) h = Some e" for h e
    using that Cons.prems(1) [of h e]
    by (cases x) (simp_all add: AddKey_def RevokeKey_def Let_def split: if_splits, auto)
  with Cons.IH [of "key_act x a"] Cons.prems(2) show ?case by simp
qed simp

text \<open>
  API keys.  Whatever keys were added and revoked, a request is accepted only with a key whose
  hash belongs to a key that was added and not revoked since; the identity carries the subject of that
  grant, and it opens exactly the namespace of the grant, if the grant has any permission, unless it
  has the permission admin, which opens all.
\<close>

lemma api_key_access:
  assumes "a = fold key_act acts (NewAPIKeyAuthenticator prefix priority secret)"
    and "apikey_Authenticate a req = Inr (Some i)"
  shows "\<exists>subj ns perms. grant secret acts (hashKey (TrimSpace (ar_APIKey req)) secret) None = Some (subj, ns, perms)
    \<and> has_prefix (TrimSpace (ar_APIKey req)) prefix \<and> id_SubjectID i = subj
    \<and> (ar_Namespace req = [] \<or> ns = [] \<or> ar_Namespace req = ns)
    \<and> (\<forall>n. CanAccessNamespace n i \<longleftrightarrow> ''admin'' \<in> set perms \<or> n = ns \<and> perms \<noteq> [])"
proof -
  let ?a = "NewAPIKeyAuthenticator prefix priority secret" and ?h = "hashKey (TrimSpace (ar_APIKey req)) secret"
  have a: "ka_hashSecret a = secret" "ka_Prefix a = prefix"
    using key_run_keeps [of acts ?a] assms(1) by (simp_all add: NewAPIKeyAuthenticator_def)
  obtain e where e: "gm_get (ka_keyHash a) ?h = Some e" and i: "id_SubjectID i = ke_SubjectID e"
    "id_SubjectType i = ke_SubjectType e" "id_Permissions i = Some (PermissionSetFromStrings (ke_Permissions e))"
    "id_Namespaces i = [(ke_Namespace e, ke_Permissions e)]"
    and ns: "ar_Namespace req = [] \<or> ke_Namespace e = [] \<or> ar_Namespace req = ke_Namespace e"
    and pre: "has_prefix (TrimSpace (ar_APIKey req)) prefix"
    using assms(2) a by (auto simp: apikey_Authenticate_def Let_def has_prefix_def split: if_splits option.splits)
  have "grant secret acts ?h None = granted a ?h"
    using key_run [of acts ?a ?h] assms(1) by (simp add: NewAPIKeyAuthenticator_def granted_def)
  with e have g: "grant secret acts ?h None = Some (ke_SubjectID e, ke_Namespace e, ke_Permissions e)"
    by (simp add: granted_def)
  have "ke_SubjectType e = SubjectService"
    by (rule key_run_service [of ?a acts ?h]) (use e assms(1) in \<open>simp_all add: NewAPIKeyAuthenticator_def\<close>)
  then have "IsAdmin i \<longleftrightarrow> ''admin'' \<in> set (ke_Permissions e)"
    using i by (simp add: IsAdmin_def HasPermission_def ps_Has_strings perm_admin SubjectService_def SubjectAdmin_def)
  then have "CanAccessNamespace n i \<longleftrightarrow> ''admin'' \<in> set (ke_Permissions e) \<or> n = ke_Namespace e \<and> ke_Permissions e \<noteq> []" for n
    using i by (simp add: CanAccessNamespace_def)
  with g i ns pre show ?thesis by blast
qed

definition demo_keys :: "kact list" where
  "demo_keys = [AddAct ''ok_old'' ''svc'' ''prod'' [''publish''], RevokeAct ''ok_old'', AddAct ''ok_new'' ''svc'' ''prod'' [''publish'']]"

definition demo_request :: AuthRequest where
  "demo_request = noRequest\<lparr>ar_APIKey := '' ok_new '', ar_Namespace := ''prod''\<rparr>"

lemma demo_request_key: "ar_APIKey demo_request \<noteq> []" "TrimSpace (ar_APIKey demo_request) = ''ok_new''"
  "ar_Namespace demo_request = ''prod''" "has_prefix ''ok_new'' ''ok_''"
  by code_simp+

lemma demo_request_accepted:
  "\<exists>i. apikey_Authenticate (fold key_act demo_keys (NewAPIKeyAuthenticator ''ok_'' 20 ''secret'')) demo_request = Inr (Some i)"
  unfolding apikey_Authenticate_def demo_request_key Let_def
  by (simp add: demo_keys_def demo_request_key AddKey_def RevokeKey_def NewAPIKeyAuthenticator_def Let_def)

lemma demo_grant: "grant ''secret'' demo_keys (hashKey ''ok_new'' ''secret'') None = Some (''svc'', ''prod'', [''publish''])"
  by (simp add: demo_keys_def)

section \<open>Passwords\<close>

text \<open>
  The identity of a password user names no namespaces at all, so that the namespace check of the
  connection refuses everybody but administrators.
\<close>

lemma password_user_rejected:
  assumes "password_Authenticate db now req = Inr (Some i)" and "db_GetUser db (ar_Username req) = Some u" and "u_Role u \<noteq> ''admin''"
  shows "\<not> CanAccessNamespace ns i"
proof -
  have "id_Namespaces i = []" "id_SubjectType i = SubjectUser" "id_Permissions i = Some (resolvePermissions (u_Role u))"
    using assms by (auto simp: password_Authenticate_def Let_def split: if_splits)
  with assms(3) show ?thesis
    by (simp add: CanAccessNamespace_def IsAdmin_def HasPermission_def resolvePermissions_def perm_defs SubjectUser_def SubjectAdmin_def)
qed

section \<open>Comparing signatures\<close>

lemma or_foldl_zero:
  "foldl (\<lambda>(d :: 'w::len word) p. or d (f p)) d0 ps = 0 \<longleftrightarrow> d0 = 0 \<and> (\<forall>p \<in> set ps. f p = 0)"
  by (induction ps arbitrary: d0) (auto simp: or_eq_0_iff)

lemma xor_zero_eq: "xor a b = 0 \<longleftrightarrow> a = (b :: 'w::len word)"
  by (metis xor.assoc xor.right_neutral xor_self_eq xor.left_neutral)

lemma byte_word_inj: "(word_of_nat (of_char x) :: 8 word) = word_of_nat (of_char y) \<longleftrightarrow> x = y"
proof -
  have "of_char x < (256 :: nat)" "of_char y < (256 :: nat)" by simp_all
  then have "(word_of_nat (of_char x) :: 8 word) = word_of_nat (of_char y) \<longleftrightarrow> of_char x = (of_char y :: nat)"
    by (simp add: word_of_nat_eq_iff take_bit_eq_mod)
  then show ?thesis by simp
qed

text \<open>
  Comparing signatures.  The comparison that always reads the whole of both byte strings, by
  accumulating the exclusive or of the bytes, accepts exactly the equal ones.
\<close>

lemma constTimeEqual_correct: "constTimeEqual a b \<longleftrightarrow> a = b"
proof -
  have "constTimeEqual a b \<longleftrightarrow> length a = length b \<and> (\<forall>(x, y) \<in> set (zip a b). x = y)"
    by (auto simp: constTimeEqual_def case_prod_unfold or_foldl_zero byte_word_inj xor_zero_eq)
  also have "\<dots> \<longleftrightarrow> a = b"
    by (auto simp: list_eq_iff_zip_eq)
  finally show ?thesis .
qed

section \<open>Roles\<close>

lemma put_all_roles:
  "gm_get (fold (\<lambda>subject. fold (\<lambda>role. gm_put subject role) roles) subjects m) s = Some r \<Longrightarrow>
   s \<in> set subjects \<and> r \<in> set roles \<or> gm_get m s = Some r"
proof (induction subjects arbitrary: m)
  case (Cons x xs)
  have "gm_get (fold (\<lambda>role. gm_put x role) roles m) s = Some r \<Longrightarrow> s = x \<and> r \<in> set roles \<or> gm_get m s = Some r" for m
    by (induction roles arbitrary: m) (fastforce split: if_splits)+
  with Cons show ?case by fastforce
qed simp

definition bind_all :: "RoleBinding list \<Rightarrow> Policy" where
  "bind_all bs = fold (\<lambda>b. AddRoleBinding (rb_Name b) (rb_Subjects b) (rb_Roles b) (rb_Namespace b)) bs NewPolicy"

lemma bind_all_role:
  assumes "gm_get (po_Roles (bind_all bs)) s = Some r"
  shows "\<exists>b \<in> set bs. s \<in> set (rb_Subjects b) \<and> r \<in> set (rb_Roles b)"
proof -
  have "gm_get (po_Roles (fold (\<lambda>b. AddRoleBinding (rb_Name b) (rb_Subjects b) (rb_Roles b) (rb_Namespace b)) bs p)) s = Some r \<Longrightarrow>
    (\<exists>b \<in> set bs. s \<in> set (rb_Subjects b) \<and> r \<in> set (rb_Roles b)) \<or> gm_get (po_Roles p) s = Some r" for p
  proof (induction bs arbitrary: p)
    case (Cons b bs)
    let ?p = "AddRoleBinding (rb_Name b) (rb_Subjects b) (rb_Roles b) (rb_Namespace b) p"
    have "gm_get (po_Roles ?p) s = Some r \<Longrightarrow> s \<in> set (rb_Subjects b) \<and> r \<in> set (rb_Roles b) \<or> gm_get (po_Roles p) s = Some r"
      using put_all_roles [of "rb_Roles b" "rb_Subjects b" "po_Roles p" s r] by (simp add: AddRoleBinding_def)
    with Cons.IH [of ?p] Cons.prems show ?case by auto
  qed simp
  from this [of NewPolicy] assms show ?thesis by (auto simp: bind_all_def NewPolicy_def)
qed

lemma bind_all_resources: "po_Resources (bind_all bs) = []"
proof -
  have "po_Resources (fold (\<lambda>b. AddRoleBinding (rb_Name b) (rb_Subjects b) (rb_Roles b) (rb_Namespace b)) bs p) = po_Resources p" for p
    by (induction bs arbitrary: p) (simp_all add: AddRoleBinding_def)
  then show ?thesis by (simp add: bind_all_def NewPolicy_def)
qed

lemma privileged_perm:
  assumes "list_ex (perm_matches (pre @ action)) (GetPermissions role)" and "pre = ''users:'' \<or> pre = ''audit:''"
  shows "role = RoleAdmin"
  using assms by (auto simp: GetPermissions_def RolePermissions_def perm_matches_def role_defs split: if_splits)

text \<open>
  No escalation.  Under a policy made of role bindings, whatever their order and their overlaps, a
  subject may act on users or read the audit log only if some binding that names it gives it the
  administrator role.
\<close>

lemma privileged_actions:
  assumes "po_HasPermission subject resource (pre @ action) (bind_all bs)" and "pre = ''users:'' \<or> pre = ''audit:''"
  shows "\<exists>b \<in> set bs. subject \<in> set (rb_Subjects b) \<and> RoleAdmin \<in> set (rb_Roles b)"
proof -
  from assms(1) obtain r where r: "gm_get (po_Roles (bind_all bs)) subject = Some r"
    and "list_ex (perm_matches (pre @ action)) (GetPermissions r)"
    by (auto simp: po_HasPermission_def GetRoleForSubject_def bind_all_resources Let_def split: option.splits if_splits)
  with privileged_perm assms(2) have "r = RoleAdmin" by blast
  with bind_all_role [OF r] show ?thesis by blast
qed

definition demo_bindings :: "RoleBinding list" where
  "demo_bindings =
     [\<lparr>rb_Name = ''ops'', rb_Subjects = [''ann'', ''bob''], rb_Roles = [RoleAdmin], rb_Namespace = ''*''\<rparr>,
      \<lparr>rb_Name = ''dev'', rb_Subjects = [''bob''], rb_Roles = [RoleProducer], rb_Namespace = ''prod''\<rparr>]"

lemma demo_bindings_eval: "po_HasPermission ''ann'' ''users'' (''users:'' @ ''delete'') (bind_all demo_bindings)"
  by code_simp

text \<open>
  The role that a subject has is the last one that any binding gave it: a later binding in one
  namespace takes the administrator role of an earlier one away everywhere.
\<close>

lemma last_binding_wins: "GetRoleForSubject ''bob'' (bind_all demo_bindings) = RoleProducer"
  by code_simp

text \<open>The rules of a resource are read with the allowed actions first: a denied action that is also allowed is allowed.\<close>

lemma allow_beats_deny:
  "po_HasPermission ''eve'' ''queue'' ''publish''
     (AddRoleBinding ''b'' [''eve''] [RoleObserver] ''*''
        (NewPolicy\<lparr>po_Resources := [(''queue'', \<lparr>rr_Allow = [''*''], rr_Deny = [''publish'']\<rparr>)]\<rparr>))"
  by code_simp

text \<open>A token whose signature is empty loses its last part.\<close>

lemma splitToken_drops_empty: "splitToken ''head.body.'' = [''head'', ''body'']"
  by code_simp

end
