(* ===== verification/Server_Props.thy ===== *)
theory Server_Props
  imports Server Protocol_Props Auth_Props
begin

text \<open>
  What the server promises: a connection delivers the frames it accepted in order, and all of them while its socket works, only
  credentials that some authenticator accepts open a session, and the number of open connections
  stays within the limit.
\<close>

section \<open>Delivery\<close>

datatype cact =
    MessageAct bool MessageFrame
  | PublishOKAct bool PublishOKFrame
  | ErrorAct bool ErrorFrame
  | HeartbeatAct bool
  | BackpressureAct bool BackpressureFrame
  | WriterAct bool
  | CloseAct
  | FailAct nat

text \<open>
  A step of a connection with the frame it accepted, if any; a send that has to wait does nothing.  With \<open>FailAct\<close>
  the socket breaks.
\<close>

definition waited :: "Connection option \<Rightarrow> Connection \<Rightarrow> Connection" where
  "waited r c = (case r of Some c' \<Rightarrow> c' | None \<Rightarrow> c)"

fun conn_act :: "cact \<Rightarrow> Connection \<Rightarrow> frame list \<times> Connection" where
  "conn_act (MessageAct pick f) c =
     (case WriteMessage pick f c of (None, c) \<Rightarrow> ([MessageF f], c) | (Some _, c) \<Rightarrow> ([], c))"
| "conn_act (PublishOKAct pick f) c =
     (if sends pick c then [PublishOK f] else [], waited (WritePublishOK pick f c) c)"
| "conn_act (ErrorAct pick f) c = (if sends pick c then [ErrorF f] else [], waited (WriteError pick f c) c)"
| "conn_act (HeartbeatAct pick) c = (if sends pick c then [Heartbeat] else [], waited (WriteHeartbeat pick c) c)"
| "conn_act (BackpressureAct pick f) c = (if sends pick c then [Backpressure f] else [], WriteBackpressure pick f c)"
| "conn_act (WriterAct stop) c = ([], conn_writerLoop stop c)"
| "conn_act CloseAct c = ([], conn_Close c)"
| "conn_act (FailAct k) c = ([], c\<lparr>c_enc := net_Fail k (c_enc c)\<rparr>)"

fun conn_acts :: "cact list \<Rightarrow> Connection \<Rightarrow> frame list \<times> Connection" where
  "conn_acts [] c = ([], c)"
| "conn_acts (a # as) c = (let (fs, c) = conn_act a c; (fs', c) = conn_acts as c in (fs @ fs', c))"

text \<open>The frames that the writer knows how to write, and the state of a connection in between.\<close>

fun server_frame :: "frame \<Rightarrow> bool" where
  "server_frame (Connect _) = False"
| "server_frame (PublishF _) = False"
| "server_frame (Subscribe _) = False"
| "server_frame (ACK _) = False"
| "server_frame (NACK _) = False"
| "server_frame _ = True"

lemma writeMsg_frame: "server_frame f \<Longrightarrow> writeMsg f e = enc_write f e"
  by (cases f) simp_all

definition conn_inv :: "frame list \<Rightarrow> Connection \<Rightarrow> bool" where
  "conn_inv accepted c = (\<exists>written. accepted = written @ c_outCh c \<and> list_all server_frame (c_outCh c)
     \<and> carries (c_enc c) (concat (map encode_frame written)) \<and> length (c_outCh c) \<le> outCap
     \<and> (c_drained c = None \<longrightarrow> enc_err (c_enc c) \<or> enc_buf (c_enc c) = []))"

lemma conn_inv_push: "conn_inv acc c \<Longrightarrow> sends pick c \<Longrightarrow> server_frame f \<Longrightarrow> conn_inv (acc @ [f]) (push_out f c)"
  by (auto simp: conn_inv_def push_out_def sends_def)

lemma conn_inv_write:
  assumes "conn_inv acc c" and "c_outCh c = m # ms"
  shows "conn_inv acc (c\<lparr>c_outCh := ms, c_enc := writeMsg m (c_enc c), c_drained := Some d\<rparr>)"
    and "conn_inv acc (c\<lparr>c_outCh := ms, c_enc := Flush (writeMsg m (c_enc c)), c_drained := None\<rparr>)"
proof -
  obtain written where w: "acc = written @ m # ms" "list_all server_frame (m # ms)"
    "carries (c_enc c) (concat (map encode_frame written))" "length (m # ms) \<le> outCap"
    using assms unfolding conn_inv_def by auto
  have s: "carries (writeMsg m (c_enc c)) (concat (map encode_frame (written @ [m])))"
    using w enc_write_carries [of "c_enc c" _ m] by (simp add: writeMsg_frame)
  show "conn_inv acc (c\<lparr>c_outCh := ms, c_enc := writeMsg m (c_enc c), c_drained := Some d\<rparr>)"
    unfolding conn_inv_def using w s by (intro exI [of _ "written @ [m]"]) simp
  show "conn_inv acc (c\<lparr>c_outCh := ms, c_enc := Flush (writeMsg m (c_enc c)), c_drained := None\<rparr>)"
    unfolding conn_inv_def using w bw_flush_carries [OF s] bw_flush_empty [of "writeMsg m (c_enc c)"]
    by (intro exI [of _ "written @ [m]"]) (simp add: Flush_def)
qed

lemma conn_inv_flush: "conn_inv acc c \<Longrightarrow> conn_inv acc (c\<lparr>c_enc := Flush (c_enc c), c_drained := None\<rparr>)"
  using bw_flush_empty [of "c_enc c"] by (auto simp: conn_inv_def Flush_def intro: bw_flush_carries)

lemma conn_inv_flags [simp]:
  "conn_inv acc (c\<lparr>c_stopped := x\<rparr>) = conn_inv acc c" "conn_inv acc (c\<lparr>c_writerDone := y\<rparr>) = conn_inv acc c"
  by (simp_all add: conn_inv_def)

lemma conn_inv_broken: "conn_inv acc c \<Longrightarrow> conn_inv acc (c\<lparr>c_enc := net_Fail k (c_enc c)\<rparr>)"
  by (auto simp: conn_inv_def carries_def net_Fail_def split: option.splits)

lemma conn_inv_closed: "conn_inv acc c \<Longrightarrow> conn_inv acc (conn_Close c)"
  by (auto simp: conn_inv_def carries_def conn_Close_def net_Close_def)

lemma conn_inv_writer: "conn_inv acc c \<Longrightarrow> conn_inv acc (conn_writerLoop stop c)"
  using conn_inv_write [of acc c] conn_inv_flush [of acc c]
  by (auto simp: conn_writerLoop_def Let_def split: option.split list.split)

lemma conn_act_inv: "conn_inv acc c \<Longrightarrow> conn_act a c = (fs, c') \<Longrightarrow> conn_inv (acc @ fs) c'"
  by (cases a)
    (auto simp: WriteMessage_def WritePublishOK_def WriteError_def WriteHeartbeat_def WriteBackpressure_def
      write_waiting_def waited_def conn_inv_writer conn_inv_broken conn_inv_closed intro: conn_inv_push split: if_splits)

lemma conn_acts_inv: "conn_inv acc c \<Longrightarrow> conn_acts as c = (fs, c') \<Longrightarrow> conn_inv (acc @ fs) c'"
proof (induction as arbitrary: acc c fs)
  case (Cons a as)
  obtain fs1 c1 fs2 where "conn_act a c = (fs1, c1)" "conn_acts as c1 = (fs2, c')" "fs = fs1 @ fs2"
    using Cons.prems(2) by (auto split: prod.splits)
  then show ?case using Cons.IH [of "acc @ fs1" c1 fs2] conn_act_inv [OF Cons.prems(1), of a] by simp
qed simp

lemma new_conn_inv: "conn_inv [] (newConnection addr input m)"
  using carries_new by (simp add: conn_inv_def newConnection_def NewEncoder_def outCap_def)

text \<open>The socket of a connection that is neither closed nor broken takes everything.\<close>

definition unbroken :: "cact list \<Rightarrow> bool" where
  "unbroken acts = list_all (\<lambda>a. case a of CloseAct \<Rightarrow> False | FailAct _ \<Rightarrow> False | _ \<Rightarrow> True) acts"

lemma writeMsg_room: "(enc_room (writeMsg m e) = None) = (enc_room e = None)"
  by (cases m) (simp_all add: enc_write_room)

lemma conn_act_room:
  "unbroken [a] \<Longrightarrow> conn_act a c = (fs, c') \<Longrightarrow> enc_room (c_enc c) = None \<Longrightarrow> enc_room (c_enc c') = None"
  by (cases a)
    (auto simp: unbroken_def WriteMessage_def WritePublishOK_def WriteError_def WriteHeartbeat_def WriteBackpressure_def
      write_waiting_def waited_def push_out_def conn_writerLoop_def Let_def Flush_def bw_flush_room writeMsg_room
      split: if_splits option.splits list.splits)

lemma conn_acts_room:
  "unbroken acts \<Longrightarrow> conn_acts acts c = (fs, c') \<Longrightarrow> enc_room (c_enc c) = None \<Longrightarrow> enc_room (c_enc c') = None"
proof (induction acts arbitrary: c fs)
  case (Cons a acts)
  obtain fs1 c1 fs2 where "conn_act a c = (fs1, c1)" "conn_acts acts c1 = (fs2, c')"
    using Cons.prems(2) by (auto split: prod.splits)
  then show ?case using Cons.IH [of c1 fs2] conn_act_room [of a c fs1 c1] Cons.prems(1,3) by (simp add: unbroken_def)
qed simp

text \<open>
  [C8] Delivery in order.  However the senders and the writer goroutine of a connection interleave,
  whatever is refused or has to wait, when the socket breaks in the middle of a write or the connection is closed: the
  frames accepted are the frames the writer took followed by those still in the channel, which never exceeds its
  capacity.  If the accepted frames are within the limits of the protocol, the client decodes from the bytes that the
  socket took a beginning of the frames the writer took, in order, with nothing in between, and then an error of the
  reader unless it has all of them; and it has all of them whenever the writer is back at its outer \<open>select\<close> of a
  connection that was neither closed nor broken.
\<close>

theorem conn_in_order:
  assumes "conn_acts acts (newConnection addr input m) = (accepted, c)" and "list_all frame_ok accepted"
  shows "\<exists>written. accepted = written @ c_outCh c \<and> length (c_outCh c) \<le> outCap
    \<and> reads_first written (enc_wire (c_enc c))
    \<and> (unbroken acts \<and> c_drained c = None \<longrightarrow>
        readFrames (length written) (enc_wire (c_enc c)) = (map Inr written, []))"
proof -
  obtain written where w: "accepted = written @ c_outCh c" "length (c_outCh c) \<le> outCap"
    "carries (c_enc c) (concat (map encode_frame written))" "c_drained c = None \<longrightarrow> enc_err (c_enc c) \<or> enc_buf (c_enc c) = []"
    using conn_acts_inv [OF new_conn_inv assms(1)] unfolding conn_inv_def by auto
  have ok: "list_all frame_ok written" using assms(2) w(1) by simp
  have all: "readFrames (length written) (concat (map encode_frame written)) = (map Inr written, [])"
    using frame_codec.decs_concat [of written "[]"] ok by (simp add: readFrames_decs)
  have "unbroken acts \<Longrightarrow> \<not> enc_err (c_enc c)"
    using conn_acts_room [OF _ assms(1)] w(3) by (auto simp: carries_def newConnection_def NewEncoder_def)
  with w(3,4) all have "unbroken acts \<and> c_drained c = None \<longrightarrow>
      readFrames (length written) (enc_wire (c_enc c)) = (map Inr written, [])" by (auto simp: carries_def)
  moreover have "reads_first written (enc_wire (c_enc c))"
    using w(3) frames_cut [OF ok] by (auto simp: carries_def)
  ultimately show ?thesis using w(1,2) by blast
qed

definition demo_conn_acts :: "cact list" where
  "demo_conn_acts = [HeartbeatAct True, PublishOKAct True \<lparr>pok_MsgID = ''m'', pok_Offset = 0\<rparr>, WriterAct False, WriterAct False,
     WriterAct False, HeartbeatAct True]"

definition demo_sent :: "frame list" where
  "demo_sent = [Heartbeat, PublishOK \<lparr>pok_MsgID = ''m'', pok_Offset = 0\<rparr>, Heartbeat]"

lemma demo_conn_run:
  "\<exists>c. conn_acts demo_conn_acts (newConnection ''a'' [] 8) = (demo_sent, c) \<and> c_drained c = None \<and> c_outCh c = [Heartbeat]"
  by (simp add: demo_conn_acts_def demo_sent_def newConnection_def sends_def outCap_def WritePublishOK_def WriteHeartbeat_def
      write_waiting_def waited_def push_out_def conn_writerLoop_def)

theorem conn_in_order_witness:
  "\<exists>c. conn_acts demo_conn_acts (newConnection ''a'' [] 8) = (demo_sent, c)
     \<and> readFrames 2 (enc_wire (c_enc c)) = (map Inr (take 2 demo_sent), [])"
proof -
  obtain c where c: "conn_acts demo_conn_acts (newConnection ''a'' [] 8) = (demo_sent, c)" "c_drained c = None" "c_outCh c = [Heartbeat]"
    using demo_conn_run by blast
  have "list_all frame_ok demo_sent"
    by (simp add: demo_sent_def frame_ok_def maxPayloadSize_def w_str_def w_u64_def str_ok_def)
  moreover have "unbroken demo_conn_acts" by (simp add: unbroken_def demo_conn_acts_def)
  ultimately obtain written where "demo_sent = written @ [Heartbeat]"
    "readFrames (length written) (enc_wire (c_enc c)) = (map Inr written, [])" using conn_in_order [OF c(1)] c(2,3) by auto
  moreover from this(1) have "written = take 2 demo_sent" "length written = 2"
    by (auto simp: demo_sent_def append_eq_Cons_conv)
  ultimately show ?thesis using c(1) by metis
qed

section \<open>Authentication\<close>

lemma try_all_from: "try_all req as = Inr (Some i) \<Longrightarrow> \<exists>a \<in> set as. au_Authenticate a req = Inr (Some i)"
  by (induction req as rule: try_all.induct) (auto split: sum.splits option.splits)

text \<open>One of the registered authenticators accepted the password or the key of the frame for its namespace.\<close>

definition vouched :: "Registry \<Rightarrow> ConnectFrame \<Rightarrow> Identity \<Rightarrow> bool" where
  "vouched r f i = (\<exists>a \<in> snd ` set r. \<exists>req. au_Authenticate a req = Inr (Some i) \<and> ar_Namespace req = cf_Namespace f
    \<and> (ar_Username req = cf_Username f \<and> ar_Password req = cf_Password f \<and> ar_Password req \<noteq> []
       \<or> ar_APIKey req = cf_APIKey f \<and> ar_APIKey req \<noteq> []))"

lemma connect_identity_from:
  assumes "connect_identity it addr f r = Some i" and "is_range_order it"
  shows "vouched r f i"
proof -
  let ?p = "noRequest\<lparr>ar_RemoteAddr := addr, ar_Username := cf_Username f, ar_Password := cf_Password f, ar_Namespace := cf_Namespace f\<rparr>"
  let ?k = "noRequest\<lparr>ar_RemoteAddr := addr, ar_APIKey := cf_APIKey f, ar_Namespace := cf_Namespace f\<rparr>"
  have "try_all ?p (reg_All it r) = Inr (Some i) \<and> cf_Password f \<noteq> [] \<or> try_all ?k (reg_All it r) = Inr (Some i) \<and> cf_APIKey f \<noteq> []"
    using assms(1)
    by (auto simp: connect_identity_def AuthenticateTCP_def AuthenticateTCPWithKey_def Let_def
        split: if_splits sum.splits option.splits)
  then have "\<exists>a \<in> snd ` set r. au_Authenticate a ?p = Inr (Some i) \<and> cf_Password f \<noteq> [] \<or> au_Authenticate a ?k = Inr (Some i) \<and> cf_APIKey f \<noteq> []"
    using try_all_from [of ?p "reg_All it r" i] try_all_from [of ?k "reg_All it r" i] reg_All_set [OF assms(2), of r] by metis
  moreover have "ar_RemoteAddr ?p = addr" "ar_Namespace ?p = cf_Namespace f" "ar_Username ?p = cf_Username f" "ar_Password ?p = cf_Password f"
    "ar_RemoteAddr ?k = addr" "ar_Namespace ?k = cf_Namespace f" "ar_APIKey ?k = cf_APIKey f"
    by simp_all
  ultimately show ?thesis unfolding vouched_def by metis
qed

text \<open>
  [C9] Opening a session.  Whatever bytes a new connection sends, exactly one frame is queued in
  answer.  If the session is opened, the first frame was a connect frame, one of the registered
  authenticators accepted its credentials, and the identity may use the namespace of the session.
  Otherwise the answer is a refusal with its reason, and the session and the identity stay empty.
\<close>

theorem Authenticate_outcome:
  assumes "is_range_order it" and "Authenticate it r (newConnection addr input m) = (ok, c)"
  shows "case fst (ReadFrame input) of
      Inr (Connect f) \<Rightarrow>
        (if ok then c_outCh c = [ConnectOK \<lparr>cok_SessionID = addr\<rparr>]
           \<and> (\<exists>i. c_Identity c = Some i \<and> CanAccessNamespace (cf_Namespace f) i
                \<and> c_Session c = \<lparr>ss_Username = id_SubjectID i, ss_Namespace = cf_Namespace f, ss_Authenticated = True\<rparr>
                \<and> vouched r f i)
         else c_Identity c = None \<and> \<not> ss_Authenticated (c_Session c)
           \<and> c_outCh c \<in> {[ConnectErr \<lparr>cerr_Reason = ''invalid credentials or namespace''\<rparr>],
                           [ConnectErr \<lparr>cerr_Reason = ''no access to namespace''\<rparr>]})
    | _ \<Rightarrow> \<not> ok \<and> c_Identity c = None \<and> \<not> ss_Authenticated (c_Session c)
           \<and> c_outCh c = [ConnectErr \<lparr>cerr_Reason = ''expected CONNECT frame''\<rparr>]"
proof -
  obtain res rest where rf: "ReadFrame input = (res, rest)" by fastforce
  let ?c = "(newConnection addr input m)\<lparr>c_in := rest\<rparr>"
  have rd: "conn_ReadFrame (newConnection addr input m) = (res, ?c)"
    using rf by (simp add: conn_ReadFrame_def newConnection_def)
  have ad: "c_addr (newConnection addr input m) = addr" by (simp add: newConnection_def)
  show ?thesis
  proof (cases "\<exists>f. res = Inr (Connect f)")
    case True
    then obtain f where f: "res = Inr (Connect f)" by blast
    show ?thesis
    proof (cases "connect_identity it addr f r")
      case None
      then show ?thesis using assms(2) rf f rd ad
        by (auto simp: Authenticate_def push_out_def Let_def) (simp_all add: newConnection_def)
    next
      case (Some i)
      then show ?thesis using assms(2) rf f rd ad connect_identity_from [OF Some assms(1)]
        by (auto simp: Authenticate_def push_out_def Let_def split: if_splits) (simp_all add: newConnection_def)
    qed
  next
    case False
    have "Authenticate it r (newConnection addr input m) = (False, push_out (ConnectErr \<lparr>cerr_Reason = ''expected CONNECT frame''\<rparr>) ?c)"
      using False by (auto simp: Authenticate_def Let_def rd split: sum.split frame.split)
    then have "\<not> ok \<and> c_Identity c = None \<and> \<not> ss_Authenticated (c_Session c) \<and> c_outCh c = [ConnectErr \<lparr>cerr_Reason = ''expected CONNECT frame''\<rparr>]"
      using assms(2) by (auto simp: push_out_def newConnection_def)
    then show ?thesis using rf False by (simp split: sum.split frame.split)
  qed
qed

definition demo_connect :: ConnectFrame where
  "demo_connect = \<lparr>cf_Username = ''svc'', cf_Password = [], cf_APIKey = '' ok_new '', cf_Token = [], cf_Namespace = ''prod''\<rparr>"

definition demo_registry :: Registry where
  "demo_registry = Register (apikey_authenticator (fold key_act demo_keys (NewAPIKeyAuthenticator ''ok_'' 20 ''secret''))) NewRegistry"

lemma demo_identity: "\<exists>i. connect_identity rev [] demo_connect demo_registry = Some i \<and> CanAccessNamespace ''prod'' i"
proof -
  let ?a = "fold key_act demo_keys (NewAPIKeyAuthenticator ''ok_'' 20 ''secret'')"
  have r: "noRequest\<lparr>ar_RemoteAddr := [], ar_APIKey := '' ok_new '', ar_Namespace := ''prod''\<rparr> = demo_request"
    by (simp add: demo_request_def noRequest_def)
  have "\<exists>i. apikey_Authenticate ?a demo_request = Inr (Some i) \<and> CanAccessNamespace ''prod'' i"
    unfolding apikey_Authenticate_def demo_request_key Let_def
    by (simp add: demo_keys_def demo_request_key AddKey_def RevokeKey_def NewAPIKeyAuthenticator_def Let_def CanAccessNamespace_def)
  then obtain i where i: "apikey_Authenticate ?a demo_request = Inr (Some i)" "CanAccessNamespace ''prod'' i" by blast
  have "AuthenticateTCPWithKey rev [] '' ok_new '' ''prod'' demo_registry = Inr (Some i)"
    using i(1) by (simp add: AuthenticateTCPWithKey_def r demo_registry_def Register_def NewRegistry_def reg_All_def apikey_authenticator_def)
  then show ?thesis using i(2) by (simp add: connect_identity_def demo_connect_def)
qed

lemma demo_connect_read: "ReadFrame (encode_frame (Connect demo_connect)) = (Inr (Connect demo_connect), [])"
proof -
  have "frame_ok (Connect demo_connect)"
    by (simp add: demo_connect_def frame_ok_def isValidIdent_def maxPayloadSize_def w_str_def str_ok_def less_eq_char_def)
  from ReadFrame_encode [OF this, of "[]"] show ?thesis by simp
qed

theorem Authenticate_outcome_witness:
  "\<exists>c i. Authenticate rev demo_registry (newConnection [] (encode_frame (Connect demo_connect)) 8) = (True, c)
     \<and> c_outCh c = [ConnectOK \<lparr>cok_SessionID = []\<rparr>] \<and> vouched demo_registry demo_connect i
     \<and> c_Session c = \<lparr>ss_Username = id_SubjectID i, ss_Namespace = ''prod'', ss_Authenticated = True\<rparr>"
proof -
  have n: "cf_Namespace demo_connect = ''prod''" by (simp add: demo_connect_def)
  obtain i where "connect_identity rev [] demo_connect demo_registry = Some i" "CanAccessNamespace ''prod'' i"
    using demo_identity by blast
  then have "\<exists>c. Authenticate rev demo_registry (newConnection [] (encode_frame (Connect demo_connect)) 8) = (True, c)"
    by (simp add: Authenticate_def conn_ReadFrame_def newConnection_def demo_connect_read n Let_def)
  then obtain c where c: "Authenticate rev demo_registry (newConnection [] (encode_frame (Connect demo_connect)) 8) = (True, c)" by blast
  from Authenticate_outcome [OF is_range_order_rev c] c show ?thesis by (auto simp: demo_connect_read n)
qed

section \<open>The number of connections\<close>

datatype sact = AcceptAct accept_result bool | HandlerEnds

text \<open>A server with its open connections: a handler can only end if there is one.\<close>

fun server_act :: "sact \<Rightarrow> nat \<times> TCPServer \<Rightarrow> nat \<times> TCPServer" where
  "server_act (AcceptAct r allowed) (n, s) =
     (if sv_accepting s
      then case acceptLoop r allowed s of (a, s) \<Rightarrow> (if a = Handled then Suc n else n, s)
      else (n, s))"
| "server_act HandlerEnds (n, s) = (if n = 0 then (n, s) else (n - 1, handleConn_end s))"

lemma server_act_inv:
  assumes "server_act a (n, s) = (n', s')" and "0 < sint (sv_MaxConnections s)"
    and "sint (sv_activeConns s) = int n \<and> int n \<le> sint (sv_MaxConnections s)"
  shows "sv_MaxConnections s' = sv_MaxConnections s
    \<and> sint (sv_activeConns s') = int n' \<and> int n' \<le> sint (sv_MaxConnections s)"
proof -
  have up: "sint (w + 1) = sint w + 1" if "sint w < sint v" for w v :: "32 word"
    using that sint_lt [of v] sint_ge [of w] by (simp add: sint_word_ariths signed_take_bit_int_eq_self)
  have down: "sint (w - 1) = sint w - 1" if "0 < sint w" for w :: "32 word"
    using that sint_lt [of w] by (simp add: sint_word_ariths signed_take_bit_int_eq_self)
  show ?thesis
    using assms up [of "sv_activeConns s" "sv_MaxConnections s"] down [of "sv_activeConns s"]
    by (cases a) (auto simp: acceptLoop_def handleConn_end_def Let_def of_nat_diff split: accept_result.splits if_splits)
qed

text \<open>
  Connection limit.  With a positive limit, whatever connections arrive and end in whatever
  order, whatever the rate limiter says and however accepting fails, the counter is the number of open
  connections, and that number never exceeds the limit.
\<close>

lemma connections_bounded:
  assumes "0 < sint maxConns" and "fold server_act acts (0, NewTCPServer maxConns rate) = (n, s)"
  shows "sint (sv_activeConns s) = int n \<and> int n \<le> sint maxConns"
proof -
  have "sv_MaxConnections (snd (fold server_act acts (n0, s0))) = maxConns
    \<and> sint (sv_activeConns (snd (fold server_act acts (n0, s0)))) = int (fst (fold server_act acts (n0, s0)))
    \<and> int (fst (fold server_act acts (n0, s0))) \<le> sint maxConns"
    if "sv_MaxConnections s0 = maxConns" "sint (sv_activeConns s0) = int n0 \<and> int n0 \<le> sint maxConns" for n0 s0
    using that
  proof (induction acts arbitrary: n0 s0)
    case (Cons a acts)
    obtain n1 s1 where "server_act a (n0, s0) = (n1, s1)" by fastforce
    with server_act_inv [OF this] Cons.prems assms(1) Cons.IH [of s1 n1] show ?case by simp
  qed simp
  from this [of "NewTCPServer maxConns rate" 0] assms show ?thesis by (simp add: NewTCPServer_def)
qed

text \<open>The pause after a failed accept doubles while it is below the bound, so that it ends above it.\<close>

lemma backoff_exceeds_max:
  "fst (acceptLoop AcceptTimeout True (snd (fold (\<lambda>_ (_, s). acceptLoop AcceptTimeout True s) [0..<13 :: nat] (Handled, NewTCPServer 2 0))))
     = SleepFor 8192000000"
  by (simp add: NewTCPServer_def acceptLoop_def maxBackoff_def upt_rec)

end
