(* ===== verification/Recovery_Props.thy ===== *)
theory Recovery_Props
  imports Recovery Wal_Durable Queue_Replay
begin

text \<open>
  Correctness of recovery: what replaying a log does to a queue.  For histories of publications,
  leases and acknowledgements, the rebuilt queue holds exactly the messages that were published and
  not acknowledged.
\<close>

section \<open>Replay is a fold over the readable events\<close>

lemma replayFile_eq:
  "replayFile startSeq h bs s = fold (dispatch h) (filter (\<lambda>e. startSeq \<le> ev_Seq e) (fst (readLog bs))) s"
proof (induction bs arbitrary: s rule: readLog.induct)
  case (1 bs)
  show ?case
  proof (cases "ReadEvent bs")
    case (Inl e)
    then show ?thesis by (subst replayFile.simps, subst readLog.simps) simp
  next
    case (Inr r)
    obtain e rest where r: "r = (e, rest)" by (cases r)
    note IH = "1.IH" [OF Inr r [symmetric]]
    have "fst (readLog bs) = e # fst (readLog rest)" by (subst readLog.simps) (simp add: Inr r split_beta)
    moreover have "replayFile startSeq h bs s = (if ev_Seq e < startSeq then replayFile startSeq h rest s
        else replayFile startSeq h rest (dispatch h e s))" by (subst replayFile.simps) (simp add: Inr r)
    ultimately show ?thesis unfolding not_le [symmetric] IH by simp
  qed
qed

definition entry_events :: "(nat \<Rightarrow> bool) \<Rightarrow> string \<times> node \<Rightarrow> Event list" where
  "entry_events skip = (\<lambda>(name, n). case n of
       Dir _ \<Rightarrow> []
     | File bs \<Rightarrow> (case sscanf_d ''.log'' name of None \<Rightarrow> [] | Some i \<Rightarrow> if skip i then [] else fst (readLog bs)))"

text \<open>All events of the segments of a directory, in the order in which they are replayed.\<close>

definition segment_events :: "(nat \<Rightarrow> bool) \<Rightarrow> dirents \<Rightarrow> Event list" where
  "segment_events skip d = concat (map (entry_events skip) (ReadDir d))"

lemma replay_entries:
  "fold (replay_entry skip st h) es s =
   fold (dispatch h) (filter (\<lambda>e. st \<le> ev_Seq e) (concat (map (entry_events skip) es))) s"
proof (induction es arbitrary: s)
  case (Cons x es)
  have "replay_entry skip st h x s = fold (dispatch h) (filter (\<lambda>e. st \<le> ev_Seq e) (entry_events skip x)) s" for s
    by (auto simp: replay_entry_def entry_events_def replayFile_eq split: prod.splits node.splits option.splits)
  with Cons show ?case by simp
qed simp

lemma ReplayFromSnapshot_events:
  assumes "ri_SnapshotPath info = []"
  shows "ReplayFromSnapshot info h s =
    fold (dispatch h) (filter (\<lambda>e. ri_SnapshotSeq info + 1 \<le> ev_Seq e) (segment_events (\<lambda>_. False) (ri_Dir info))) s"
  using assms by (simp add: ReplayFromSnapshot_def Let_def replay_entries segment_events_def)

section \<open>Operations of the handler on a group\<close>

text \<open>
  During such a replay no message is ever urgent or delayed; \<open>N\<close> is the number of messages the depth
  limits still have room for.  Slots that were cleared count against the limit.
\<close>

definition roomc :: "nat \<Rightarrow> GroupConfig \<Rightarrow> bool" where
  "roomc N c = (c_MaxPending c \<le> 0 \<or> int N \<le> c_MaxPending c)"

definition room :: "nat \<Rightarrow> group \<Rightarrow> bool" where
  "room N g = (c_MaxPending (g_cfg g) \<le> 0 \<or> pendingCount g + int N \<le> c_MaxPending (g_cfg g))"

definition rgrp :: "nat \<Rightarrow> string \<Rightarrow> group \<Rightarrow> bool" where
  "rgrp N k g = (grp_inv k g \<and> g_urgent g = [] \<and> g_delayed g = [] \<and> room N g)"

lemma replayLease_pres:
  assumes g: "rgrp N k g"
  obtains b g' where "group_replayLease i now g = (Ret b, g')" and "rgrp N k g'" and "live_ids g' = live_ids g"
proof -
  have "grp_inv k g" "g_urgent g = []" using g by (simp_all add: rgrp_def)
  then obtain b g' where r: "group_replayLease i now g = (Ret b, g')" "grp_inv k g'" "g_urgent g' = []"
    "live_ids g' = live_ids g" "g_delayed g' = g_delayed g" "pendingCount g' = pendingCount g" "g_cfg g' = g_cfg g"
    by (rule replayLease_calm [of k g i now])
  then have "rgrp N k g'" using g by (simp add: rgrp_def room_def)
  with that r show thesis by blast
qed

lemma removeMessage_pres:
  assumes g: "rgrp N k g" and np: "gm_get (g_processing g) i = None"
    and r: "group_removeMessage i g = (b, g')"
  shows "rgrp N k g' \<and> live_ids g' = live_ids g - {#i#}"
proof (cases "findSlot i (g_readyHead g) (drop (g_readyHead g) (g_ready g))")
  case None
  have u: "urgentQ g = []" using g by (auto simp: rgrp_def urgentQ_def grp_inv_def group_wf_def group_rep_def live_slots_def map_filter_simps)
  have "g' = g" using r None np g by (simp add: group_removeMessage_def rgrp_def)
  moreover have "i \<notin># live_ids g"
    using np u g by (auto simp: rgrp_def live_ids_def readyQ_def in_live_slots map_of_eq_None_iff dest: findSlot_None [OF None])
  ultimately show ?thesis using g by (simp add: diff_single_trivial)
next
  case (Some jm)
  obtain j m where jm: "findSlot i (g_readyHead g) (drop (g_readyHead g) (g_ready g)) = Some (j, m)"
    using Some by (cases jm) simp
  have gi: "grp_inv k g" using g by (simp add: rgrp_def)
  note F = ready_found [OF gi jm]
  have g': "g' = g\<lparr>g_ready := (g_ready g)[j := None]\<rparr>"
    using r jm g by (simp add: group_removeMessage_def rgrp_def)
  have ids: "live_ids g = add_mset i (live_ids g')" unfolding g' by (rule live_ids_ready_remove [OF F(2,1)])
  have "group_rep g'" using g unfolding g' by (auto simp: rgrp_def grp_inv_def group_wf_def group_rep_def)
  then have "group_wf g'" using group_wf_sub [of g g' i] g ids by (simp add: rgrp_def grp_inv_def)
  moreover have "pendingCount g' = pendingCount g" by (simp add: g' pendingCount_def)
  ultimately show ?thesis using g ids by (simp add: rgrp_def grp_inv_def room_def g')
qed

section \<open>Operations of the handler on a queue\<close>

definition live :: "Queue \<Rightarrow> string \<Rightarrow> string multiset" where
  "live q k = (case GetGroup q k of None \<Rightarrow> {#} | Some g \<Rightarrow> live_ids g)"

definition rqueue :: "nat \<Rightarrow> Queue \<Rightarrow> bool" where
  "rqueue N q = (queue_wf q \<and> (\<forall>k. roomc N (resolveConfig q k))
     \<and> (\<forall>k g. GetGroup q k = Some g \<longrightarrow> rgrp N k g))"

lemma rqueue_mono: "rqueue (Suc N) q \<Longrightarrow> rqueue N q"
  by (force simp: rqueue_def rgrp_def room_def roomc_def)

lemma resolveConfig_frame: "q_cfgIdx q' = q_cfgIdx q \<Longrightarrow> resolveConfig q' k = resolveConfig q k"
  by (simp add: resolveConfig_def)

lemma rqueue_shards: "rqueue N q \<Longrightarrow> shards_wf q"
  by (simp add: rqueue_def queue_wf_def)

lemma put_group_rqueue:
  assumes q: "rqueue N q" and g: "GetGroup q k = Some g" and g': "rgrp N k g'"
  shows "rqueue N (put_group k g' q) \<and> (\<forall>k'. live (put_group k g' q) k' = (if k' = k then live_ids g' else live q k'))"
proof -
  note sh = rqueue_shards [OF q]
  have get: "GetGroup (put_group k g' q) k' = (if k' = k then Some g' else GetGroup q k')" for k'
    by (rule groups.look_upd [OF sh])
  have "queue_wf (put_group k g' q)"
    using q g g' groups.inv_upd [OF sh] unfolding rqueue_def queue_wf_def by (auto simp: get rgrp_def)
  moreover have "resolveConfig (put_group k g' q) k' = resolveConfig q k'" for k'
    by (rule resolveConfig_frame) simp
  ultimately show ?thesis using q g' by (auto simp: rqueue_def get live_def)
qed

lemma fresh_group:
  assumes "newGroup cfg = Ret g"
  shows "g_urgent g = [] \<and> g_delayed g = [] \<and> c_MaxPending (g_cfg g) = c_MaxPending cfg"
proof -
  have "c_MaxPending (fill_defaults cfg) = c_MaxPending cfg" by (simp add: fill_defaults_def Let_def)
  moreover have "mset (heap_init delayed_Less []) = mset []" by (rule heap_init_contents)
  ultimately show ?thesis using assms by (auto simp: newGroup_def Let_def split: option.splits outcome.splits)
qed

lemma publish_replay:
  assumes q: "rqueue (Suc N) q" and fresh: "i \<notin># live q k"
  shows "\<exists>m gen' q'. PublishWithID k i p now gen q = (Ret (Inr m), gen', q') \<and> rqueue N q'
    \<and> (\<forall>k'. live q' k' = (if k' = k then add_mset i (live q k) else live q k'))"
proof -
  have wf: "queue_wf q" using q by (simp add: rqueue_def)
  obtain g ok q1 where e: "ensure_group k q = (Ret (g, ok), q1)" and g: "rgrp (Suc N) k g"
    and l: "live_ids g = live q k"
    and fr: "q_Name q1 = q_Name q" "q_Namespace q1 = q_Namespace q" "q_cfgIdx q1 = q_cfgIdx q"
    using wf
  proof (cases rule: ensure_group_total [where k = k])
    case (old g)
    then show ?thesis using that q by (simp add: live_def rqueue_def)
  next
    case (new g)
    then have "newGroup (resolveConfig q k) = Ret g" by (auto simp: ensure_group_def split: outcome.splits)
    from fresh_group [OF this] show ?thesis
      using new q by (intro that [of g False "put_group k g q"]) (simp_all add: live_def rqueue_def rgrp_def room_def roomc_def)
  qed
  obtain m gen' where m: "newMessageAt (q_Name q1) (q_Namespace q1) k p now gen = (m, gen')"
    by (cases "newMessageAt (q_Name q1) (q_Namespace q1) k p now gen")
  let ?m = "m\<lparr>m_ID := i\<rparr>"
  have P: "PublishWithID k i p now gen q = (Ret (Inr ?m), gen', add_message k ?m g ok q1)"
    using e g m by (auto simp: PublishWithID_def rgrp_def room_def add_message_def Let_def)
  note A = add_message_wf [OF wf e, of ?m]
  have get: "queue_wf (add_message k ?m g ok q1)"
    "GetGroup (add_message k ?m g ok q1) k' = (if k' = k then Some (enqueue ?m g) else GetGroup q k')" for k'
    using A fresh l by simp_all
  have gi: "grp_inv k g" using g by (simp add: rgrp_def)
  have en: "rgrp N k (enqueue ?m g)"
    using enqueue_inv [OF gi, of ?m] fresh l g by (auto simp: rgrp_def room_def enqueue_def pendingCount_def)
  have "resolveConfig (add_message k ?m g ok q1) k' = resolveConfig q k'" for k'
    by (rule resolveConfig_frame) (simp add: add_message_def Let_def fr)
  then have "rqueue N (add_message k ?m g ok q1)"
    using rqueue_mono [OF q] get en by (auto simp: rqueue_def)
  moreover have "live (add_message k ?m g ok q1) k' = (if k' = k then add_mset i (live q k) else live q k')" for k'
    using get(2) l enqueue_pres [OF grp_inv_rep [OF gi], of ?m] by (simp add: live_def)
  ultimately show ?thesis using P by blast
qed

lemma lease_replay:
  assumes "rqueue N q"
  obtains b q' where "ReplayLease k i now q = (Ret b, q')" and "rqueue N q'" and "\<forall>k'. live q' k' = live q k'"
proof (cases "GetGroup q k")
  case None
  with assms show ?thesis using that [of False q] by (simp add: ReplayLease_def)
next
  case (Some g)
  have g: "rgrp N k g" using assms Some by (simp add: rqueue_def)
  then obtain b g' where r: "group_replayLease i now g = (Ret b, g')" "rgrp N k g'" "live_ids g' = live_ids g"
    by (rule replayLease_pres [where i = i and now = now])
  from put_group_rqueue [OF assms Some r(2)] Some r show ?thesis
    by (intro that [of b "put_group k g' q"]) (simp_all add: ReplayLease_def live_def)
qed

lemma ack_replay:
  assumes q: "rqueue N q" and c: "Complete k i q = (r, q')"
  shows "r = Inr () \<Longrightarrow> rqueue N q' \<and> (\<forall>k'. live q' k' = (if k' = k then live q k - {#i#} else live q k'))"
    and "r \<noteq> Inr () \<Longrightarrow> rqueue N (snd (RemoveMessage k i q'))
      \<and> (\<forall>k'. live (snd (RemoveMessage k i q')) k' = (if k' = k then live q k - {#i#} else live q k'))"
proof -
  show "r = Inr () \<Longrightarrow> rqueue N q' \<and> (\<forall>k'. live q' k' = (if k' = k then live q k - {#i#} else live q k'))"
  proof -
    assume ok: "r = Inr ()"
    with c obtain g m g' where g: "GetGroup q k = Some g" "complete i g = (Some m, g')" "q' = put_group k g' q"
      by (auto simp: Complete_def split: option.splits prod.splits)
    have gi: "rgrp N k g" using q g by (simp add: rqueue_def)
    then have "group_rep g" by (simp add: rgrp_def grp_inv_def group_wf_def)
    note C = complete_pres [OF this g(2)]
    then have ids: "live_ids g = add_mset i (live_ids g')" by simp
    have "group_wf g'" using group_wf_sub [of g g' i] C gi by (simp add: rgrp_def grp_inv_def)
    moreover have "g_urgent g' = g_urgent g" using g(2) by (auto simp: complete_def split: option.splits)
    moreover have "pendingCount g' = pendingCount g" using g(2) by (auto simp: complete_def pendingCount_def split: option.splits)
    ultimately have "rgrp N k g'" using C gi by (simp add: rgrp_def grp_inv_def room_def)
    from put_group_rqueue [OF q g(1) this] C gi g ids show ?thesis by (simp add: live_def)
  qed
  assume "r \<noteq> Inr ()"
  then have nok: "\<exists>e. r = Inl e" by (cases r) auto
  show "rqueue N (snd (RemoveMessage k i q'))
      \<and> (\<forall>k'. live (snd (RemoveMessage k i q')) k' = (if k' = k then live q k - {#i#} else live q k'))"
  proof (cases "GetGroup q k")
    case None
    with c q show ?thesis by (simp add: Complete_def RemoveMessage_def live_def)
  next
    case (Some g)
    have gi: "rgrp N k g" using q Some by (simp add: rqueue_def)
    have np: "gm_get (g_processing g) i = None" and q': "q' = put_group k g q"
      using c Some nok by (auto simp: Complete_def complete_def split: option.splits)
    obtain b g' where rm: "group_removeMessage i g = (b, g')" by fastforce
    note R = removeMessage_pres [OF gi np rm]
    have q1: "rqueue N q'" "\<forall>k'. live q' k' = (if k' = k then live_ids g else live q k')" "GetGroup q' k = Some g"
      using put_group_rqueue [OF q Some gi] groups.look_upd [OF rqueue_shards [OF q]] by (simp_all add: q')
    from put_group_rqueue [OF q1(1,3)] R q1 rm Some show ?thesis
      by (simp add: RemoveMessage_def live_def)
  qed
qed

section \<open>Replaying a history\<close>

text \<open>What a history of publications, leases and acknowledgements leaves alive in group \<open>k\<close>.\<close>

fun alive :: "string \<Rightarrow> Event list \<Rightarrow> string multiset \<Rightarrow> string multiset" where
  "alive k [] M = M"
| "alive k (e # es) M = alive k es
     (if ev_Group e \<noteq> k then M
      else if ev_Type e = EventPublish then add_mset (ev_MsgID e) M
      else if ev_Type e = EventACK then M - {#ev_MsgID e#}
      else M)"

text \<open>Histories: only these events, and no identifier is published twice or, at first, alive.\<close>

definition history :: "Event list \<Rightarrow> bool" where
  "history es = (list_all (\<lambda>e. ev_Type e \<in> {EventPublish, EventLease, EventACK}) es
     \<and> distinct (map ev_MsgID (filter (\<lambda>e. ev_Type e = EventPublish) es)))"

definition publications :: "Event list \<Rightarrow> nat" where
  "publications es = length (filter (\<lambda>e. ev_Type e = EventPublish) es)"

lemma event_types [simp]:
  "EventLease \<noteq> EventPublish" "EventACK \<noteq> EventPublish" "EventACK \<noteq> EventLease"
  "EventPublish \<noteq> EventLease" "EventPublish \<noteq> EventACK" "EventLease \<noteq> EventACK"
  by (simp_all add: EventPublish_def EventLease_def EventACK_def)

lemma replay_history:
  assumes "rs_panic rs = None" and "rqueue (publications es) (rs_queue rs)" and "history es"
    and "\<And>e k. e \<in> set es \<Longrightarrow> ev_Type e = EventPublish \<Longrightarrow> ev_MsgID e \<notin># live (rs_queue rs) k"
  shows "let rs' = fold (dispatch (queueRecoveryHandler its now clock n ns)) es rs
    in rs_panic rs' = None \<and> rqueue 0 (rs_queue rs')
      \<and> (\<forall>k. live (rs_queue rs') k = alive k es (live (rs_queue rs) k))"
  using assms
proof (induction es arbitrary: rs)
  case Nil
  then show ?case by (simp add: Let_def publications_def)
next
  case (Cons e es)
  let ?h = "queueRecoveryHandler its now clock n ns" and ?q = "rs_queue rs"
  let ?k = "ev_Group e" and ?i = "ev_MsgID e"
  have r: "rqueue (publications es) ?q" if "ev_Type e \<noteq> EventPublish"
    using Cons.prems(2) that by (simp add: publications_def)
  have h: "history es" using Cons.prems(3) by (auto simp: history_def)
  have ty: "ev_Type e \<in> {EventPublish, EventLease, EventACK}" using Cons.prems(3) by (simp add: history_def)
  have "ev_Type e = EventPublish \<Longrightarrow> ?i \<notin> ev_MsgID ` {x \<in> set es. ev_Type x = EventPublish}"
    using Cons.prems(3) by (simp add: history_def)
  then have dist: "ev_MsgID e' \<noteq> ?i"
    if "ev_Type e = EventPublish" "e' \<in> set es" "ev_Type e' = EventPublish" for e'
    using that by (auto simp: image_iff)
  obtain q' gen' where d: "dispatch ?h e rs = rs\<lparr>rs_gen := gen', rs_queue := q'\<rparr>"
    and q': "rqueue (publications es) q'"
    and l: "\<And>k. live q' k = (if ?k \<noteq> k then live ?q k else if ev_Type e = EventPublish then add_mset ?i (live ?q k)
      else if ev_Type e = EventACK then live ?q k - {#?i#} else live ?q k)"
  proof -
    consider "ev_Type e = EventPublish" | "ev_Type e = EventLease" | "ev_Type e = EventACK" using ty by blast
    then show thesis
    proof cases
      case 1
      with Cons.prems(4) have "?i \<notin># live ?q ?k" by simp
      have "rqueue (Suc (publications es)) ?q" using Cons.prems(2) 1
        by (simp add: publications_def)
      from publish_replay [OF this \<open>?i \<notin># live ?q ?k\<close>, of "ev_Payload e" "clock e" "rs_gen rs"] obtain m gen' q'
        where "PublishWithID ?k ?i (ev_Payload e) (clock e) (rs_gen rs) ?q = (Ret (Inr m), gen', q')"
          "rqueue (publications es) q'"
          "\<forall>k'. live q' k' = (if k' = ?k then add_mset ?i (live ?q ?k) else live ?q k')" by blast
      then show thesis using 1 Cons.prems(1)
        by (intro that [of q' gen']) (auto simp: dispatch_def queueRecoveryHandler_def qrh_OnPublish_def)
    next
      case 2
      then have "rqueue (publications es) ?q" by (intro r) simp
      then obtain b q' where "ReplayLease ?k ?i (clock e) ?q = (Ret b, q')" "rqueue (publications es) q'"
        "\<forall>k'. live q' k' = live ?q k'" by (rule lease_replay [where k = ?k and i = ?i and now = "clock e"])
      then show thesis using 2 Cons.prems(1)
        by (intro that [of q' "rs_gen rs"]) (simp_all add: dispatch_def queueRecoveryHandler_def qrh_OnLease_def)
    next
      case 3
      obtain r q1 where c: "Complete ?k ?i ?q = (r, q1)" by fastforce
      show thesis
      proof (cases r)
        case (Inl x)
        then show thesis using 3 ack_replay(2) [OF r c] Cons.prems(1) c
          by (intro that [of "snd (RemoveMessage ?k ?i q1)" "rs_gen rs"])
            (auto simp: dispatch_def queueRecoveryHandler_def qrh_OnACK_def)
      next
        case (Inr x)
        then show thesis using 3 ack_replay(1) [OF r c] Cons.prems(1) c
          by (intro that [of q1 "rs_gen rs"]) (auto simp: dispatch_def queueRecoveryHandler_def qrh_OnACK_def)
      qed
    qed
  qed
  let ?rs = "rs\<lparr>rs_gen := gen', rs_queue := q'\<rparr>"
  have fr: "ev_MsgID e' \<notin># live (rs_queue ?rs) k" if "e' \<in> set es" "ev_Type e' = EventPublish" for e' k
    using that Cons.prems(4) [of e'] dist l [of k] by (auto split: if_splits dest: in_diffD)
  have "rs_panic ?rs = None" and "rqueue (publications es) (rs_queue ?rs)" using Cons.prems(1) q' by simp_all
  from Cons.IH [OF this h fr] show ?case using d l by (simp add: Let_def eq_commute [of "ev_Group e"])
qed

lemma no_groups_rqueue:
  assumes "queue_wf q" and "\<And>k. GetGroup q k = None" and "\<And>k. roomc N (resolveConfig q k)"
  shows "rqueue N q" and "live q k = {#}"
  using assms by (simp_all add: rqueue_def live_def)


definition demo_history :: "Event list" where
  "demo_history =
     [demo_event ''a'', (demo_event ''a'')\<lparr>ev_Type := EventLease, ev_Seq := 2\<rparr>, (demo_event ''b'')\<lparr>ev_Seq := 3\<rparr>,
      (demo_event ''a'')\<lparr>ev_Type := EventACK, ev_Seq := 4\<rparr>]"

definition demo_info :: "Event list \<Rightarrow> QueueRecoveryInfo" where
  "demo_info es = \<lparr>ri_Namespace = ''default'', ri_Queue = ''q'',
     ri_Dir = [(log_name 0, File (concat (map writeRecord es)))], ri_SnapshotPath = [],
     ri_SnapshotSeq = 0, ri_SnapshotSegID = 0\<rparr>"

lemma readLog_Nil: "readLog [] = ([], RecordIO EOF)"
  by (subst readLog.simps) (simp add: ReadEvent_def readFull_def wrap_err_def)

lemma demo_segment:
  assumes "list_all event_ok es"
  shows "segment_events (\<lambda>_. False) (ri_Dir (demo_info es)) = es"
proof -
  have "sscanf_d ''.log'' (log_name 0) = Some 0"
    using sscanf_sprintf [of 0 "''.log''" "[]"] by (simp add: log_name_def is_digit_def)
  then show ?thesis using readLog_append [OF assms, of "[]"]
    by (simp add: segment_events_def demo_info_def ReadDir_def entry_events_def readLog_Nil)
qed

lemma demo_history_ok: "list_all event_ok demo_history" "history demo_history"
  "filter (\<lambda>e. 1 \<le> ev_Seq e) demo_history = demo_history"
  by (simp_all add: demo_history_def event_ok_def ev_strings_def demo_event_def history_def)

lemma new_queue_ready: "queue_wf (NewQueue n ns)" "GetGroup (NewQueue n ns) k = None"
  "N \<le> 10000000 \<Longrightarrow> roomc N (resolveConfig (NewQueue n ns) k)"
  using NewQueue_wf shardIdx_less [of k]
  by (simp_all add: GetGroup_def NewQueue_def resolveConfig_def ci_resolve_def newConfigIdx_def
      defaultGroupConfig_def roomc_def)


end
