(* ===== verification/Broker_Safety.thy ===== *)
theory Broker_Safety
  imports Broker_Props Broker_Log Server_Props Recovery_Props
begin

text \<open>
  What a publisher can rely on once it has received \<open>PublishOK\<close>, in every run of the broker: the
  message is in its queue until it is acknowledged, and its event is on disk.
\<close>

section \<open>A fresh broker\<close>

text \<open>A broker that starts with the logs of \<open>rootDir\<close> on its disk, none of them replayed.\<close>

definition fresh_broker :: "int \<Rightarrow> int \<Rightarrow> (string, dirents) gomap \<Rightarrow> WALConfig \<Rightarrow> int \<Rightarrow> (qref \<Rightarrow> string \<times> string) \<Rightarrow> (conn \<Rightarrow> Connection) \<Rightarrow> 64 word \<Rightarrow> Broker" where
  "fresh_broker maxMsgs maxInflight rootDir walCfg procs names conns pre =
     NewBroker maxMsgs maxInflight rootDir walCfg procs (\<lambda>r. NewQueue (fst (names r)) (snd (names r))) conns
       \<lparr>initMsgIDPrefix = pre, msgIDCounter = 0\<rparr>"

lemma fresh_inv: "sys_inv 0 (NewSystem (fresh_broker mm mi root wc pr names conns p))"
proof -
  let ?h = "\<lambda>r. NewQueue (fst (names r)) (snd (names r))"
  have "sched_reach (\<lambda>m b. (True, b)) (NewScheduler ?h) ()"
    by (rule reach_new) (simp_all add: new_queue_ready)
  from reach_inv [OF this] have "sched_inv (timers (NewScheduler ?h)) (NewScheduler ?h)" .
  moreover have "sids (NewScheduler ?h) r k = {}" for r k by (simp add: sids_def ids_def NewScheduler_def new_queue_ready)
  ultimately show ?thesis by (simp add: sys_inv_def ids_ok_def NewSystem_def fresh_broker_def NewBroker_def waits_for_def)
qed

definition clean_root :: "(string, dirents) gomap \<Rightarrow> bool" where
  "clean_root rootDir = (\<forall>(key, d) \<in> set rootDir. clean_dir d)"

lemma fresh_log: "clean_root root \<Longrightarrow> log_inv (NewSystem (fresh_broker mm mi root wc pr names conns p))"
  by (simp add: log_inv_def NewSystem_def fresh_broker_def NewBroker_def NewWAL_def wsound_def awaited_def clean_root_def)
    (auto dest!: map_of_SomeD)

text \<open>A run with one publication.\<close>

definition demo_pub :: PublishFrame where
  "demo_pub = \<lparr>pf_Queue = ''q'', pf_Group = ''k'', pf_Payload = ''a''\<rparr>"

definition demo_input :: "byte list" where
  "demo_input = encode_frame (Connect demo_connect) @ encode_frame (PublishF demo_pub)"

definition demo_env :: outside where
  "demo_env = \<lparr>o_now = 5, o_pick = True, o_io = io_good, o_itm = rev, o_itg = rev, o_itq = rev, o_its = rev\<rparr>"

definition demo_start :: System where
  "demo_start = NewSystem (fresh_broker 10 10 [] demo_cfg 1 (\<lambda>r. (''q'', ''prod'')) (\<lambda>c. newConnection [] [] 0) 9)"

definition demo_id :: string where
  "demo_id = fst (newID \<lparr>initMsgIDPrefix = 9, msgIDCounter = 0\<rparr>)"

lemma demo_open:
  "\<exists>cn. Authenticate rev demo_registry (newConnection [] demo_input 8) = (True, cn)
     \<and> c_in cn = encode_frame (PublishF demo_pub) \<and> ss_Namespace (c_Session cn) = ''prod'' \<and> c_credit cn = newCredit 8"
proof -
  have "frame_ok (Connect demo_connect)"
    by (simp add: demo_connect_def frame_ok_def isValidIdent_def maxPayloadSize_def w_str_def str_ok_def less_eq_char_def)
  from ReadFrame_encode [OF this, of "encode_frame (PublishF demo_pub)"]
  have r: "ReadFrame demo_input = (Inr (Connect demo_connect), encode_frame (PublishF demo_pub))" by (simp add: demo_input_def)
  obtain i where "connect_identity rev [] demo_connect demo_registry = Some i" "CanAccessNamespace ''prod'' i"
    using demo_identity by blast
  then show ?thesis
    by (simp add: Authenticate_def conn_ReadFrame_def newConnection_def r demo_connect_def Let_def push_out_def)
qed

text \<open>The states of the run, as far as the next steps look at them.\<close>

definition demo_state :: "hstate \<Rightarrow> answers \<Rightarrow> (string \<times> QueueWAL) list \<Rightarrow> System \<Rightarrow> bool" where
  "demo_state h ans ws s = (y_h s 0 = h \<and> y_answers s = ans \<and> w_queues (logs s) = ws
     \<and> b_queue 0 (y_b s) = NewQueue ''q'' ''prod'')"

definition demo_key :: string where
  "demo_key = wal_key ''prod'' ''q''"

definition demo_logged :: Event where
  "demo_logged = log_event EventPublish ''prod'' ''q'' ''k'' demo_id ''a''"

definition demo_log :: QueueWAL where
  "demo_log = (case newQueueWAL io_good [] ''prod'' ''q'' demo_cfg of Ret q \<Rightarrow> q)"

abbreviation demo_opening :: bact where
  "demo_opening \<equiv> OpenAct 0 [] demo_input 8 rev demo_registry"

lemma demo_opened:
  "\<exists>s. sys_run [DeclareAct 0, demo_opening] demo_start = ([], s)
     \<and> demo_state HRead [] [] s \<and> y_waiter s = 0 \<and> w_cfg (logs s) = demo_cfg \<and> w_queueDurable (logs s) = [] \<and> w_disk (logs s) = []
     \<and> c_in (b_conns (y_b s) 0) = encode_frame (PublishF demo_pub) \<and> conn_ns 0 (y_b s) = ''prod''
     \<and> sch_GetQueue ''prod'' ''q'' (b_Scheduler (y_b s)) = Some 0 \<and> b_globalMsgs (y_b s) = 0 \<and> b_GlobalMaxMsgs (y_b s) = 10
     \<and> b_gen (y_b s) = \<lparr>initMsgIDPrefix = 9, msgIDCounter = 0\<rparr>"
proof -
  obtain cn where cn: "Authenticate rev demo_registry (newConnection [] demo_input 8) = (True, cn)"
    and "c_in cn = encode_frame (PublishF demo_pub)" "ss_Namespace (c_Session cn) = ''prod''" using demo_open by blast
  then show ?thesis
    by (simp add: demo_start_def NewSystem_def fresh_broker_def NewBroker_def registerQueueWithWAL_def open_conn_def cn
        RegisterQueueState_def RegisterQueue_def NewScheduler_def NewWAL_def demo_state_def on_conn_def conn_ns_def b_queue_def
        sch_GetQueue_def NewQueue_def Let_def)
qed

lemma demo_framed:
  assumes "demo_state HRead [] [] s" "y_waiter s = 0" "w_cfg (logs s) = demo_cfg" "w_queueDurable (logs s) = []" "w_disk (logs s) = []"
    "c_in (b_conns (y_b s) 0) = encode_frame (PublishF demo_pub)" "conn_ns 0 (y_b s) = ''prod''"
    "sch_GetQueue ''prod'' ''q'' (b_Scheduler (y_b s)) = Some 0" "b_globalMsgs (y_b s) = 0" "b_GlobalMaxMsgs (y_b s) = 10"
    "b_gen (y_b s) = \<lparr>initMsgIDPrefix = 9, msgIDCounter = 0\<rparr>"
  shows "\<exists>s'. sys_act (FrameAct demo_env 0) s = ([], s')
    \<and> demo_state (HWait 0 demo_pub demo_id 0) [] [(demo_key, snd (qw_AppendSync 0 demo_logged demo_log))] s'"
proof -
  have "frame_ok (PublishF demo_pub)"
    by (simp add: demo_pub_def frame_ok_def isValidIdent_def maxPayloadSize_def w_str_def str_ok_def w_blob_def blob_ok_def less_eq_char_def)
  from ReadFrame_encode [OF this, of "[]"]
  have r: "ReadFrame (encode_frame (PublishF demo_pub)) = (Inr (PublishF demo_pub), [])" by simp
  have n: "newQueueWAL io_good [] ''prod'' ''q'' demo_cfg = Ret demo_log"
    by (simp add: demo_log_def newQueueWAL_def openSegment_def Let_def io_good_def)
  obtain q where a: "qw_AppendSync 0 demo_logged demo_log = (None, q)"
    by (simp add: demo_log_def newQueueWAL_def openSegment_def Let_def io_good_def qw_AppendSync_def channelCap_def)
  obtain gen where g: "newID \<lparr>initMsgIDPrefix = 9, msgIDCounter = 0\<rparr> = (demo_id, gen)"
    by (cases "newID \<lparr>initMsgIDPrefix = 9, msgIDCounter = 0\<rparr>") (simp add: demo_id_def)
  have A: "AppendSync io_good 0 demo_logged (logs s) = (Ret None, (logs s)\<lparr>w_queues := [(demo_key, snd (qw_AppendSync 0 demo_logged demo_log))]\<rparr>)"
  proof -
    have "w_queues (logs s) = []" "ev_Namespace demo_logged = ''prod''" "ev_Queue demo_logged = ''q''"
      using assms(1) by (simp_all add: demo_state_def demo_logged_def log_event_def)
    then show ?thesis using n assms(3-5) by (simp add: AppendSync_def with_queue_def getQueueWAL_def disk_dir_def demo_key_def a)
  qed
  define cn where "cn = (b_conns (y_b s) 0)\<lparr>c_in := []\<rparr>"
  define b where "b = on_conn 0 (\<lambda>_. cn) (y_b s)"
  define w where "w = (logs s)\<lparr>w_queues := [(demo_key, snd (qw_AppendSync 0 demo_logged demo_log))]\<rparr>"
  have rd: "conn_ReadFrame (b_conns (y_b s) 0) = (Inr (PublishF demo_pub), cn)"
    using assms(6) r by (simp add: conn_ReadFrame_def cn_def)
  have b: "b_WAL b = logs s" "b_Scheduler b = b_Scheduler (y_b s)" "b_gen b = b_gen (y_b s)" "conn_ns 0 b = ''prod''"
    "b_globalMsgs b = 0" "b_GlobalMaxMsgs b = 10" "conn_ns 0 (b\<lparr>b_globalMsgs := 1\<rparr>) = ''prod''"
    using assms(7,9,10) by (simp_all add: b_def on_conn_def conn_ns_def cn_def)
  have p: "pub_start demo_env 0 0 demo_pub b = (Ret (HWait 0 demo_pub demo_id 0), b\<lparr>b_globalMsgs := 1, b_gen := gen, b_WAL := w\<rparr>)"
    using A [unfolded demo_logged_def] assms(8,11) g b
    by (simp add: pub_start_def IncGlobalMsgs_def demo_pub_def GenerateID_def demo_env_def w_def demo_logged_def)
  have "handle_frame demo_env 0 s = ([], s\<lparr>y_waiter := Suc 0, y_b := b\<lparr>b_globalMsgs := 1, b_gen := gen, b_WAL := w\<rparr>,
      y_h := (y_h s)(0 := HWait 0 demo_pub demo_id 0)\<rparr>)"
    by (simp add: handle_frame_def rd b_def [symmetric] on_frame_def assms(2) p resume_def Let_def)
  then show ?thesis using assms(1) b(2) by (simp add: demo_state_def w_def b_queue_def)
qed

lemma demo_logged_size: "fixedOverhead (demo_logged\<lparr>ev_Seq := 1, ev_Timestamp := 7\<rparr>) < 1000"
  by (simp add: fixedOverhead_def demo_logged_def log_event_def demo_id_def newID_unfold)

definition demo_dir :: dirents where
  "demo_dir = append_file (idx_name 0) (be_bytes 8 1 @ be_bytes 8 0)
     (append_file (log_name 0) (writeRecord (demo_logged\<lparr>ev_Seq := 1, ev_Timestamp := 7\<rparr>))
       (create_file (idx_name 0) (create_file (log_name 0) [])))"

lemma demo_index: "be_bytes 8 0 \<noteq> []"
  using length_be_bytes [of 8 0] by force

lemma demo_batched:
  assumes "demo_state h [] [(demo_key, snd (qw_AppendSync 0 demo_logged demo_log))] s"
  shows "\<exists>s' q. sys_act (LogAct demo_key (\<lambda>_. io_good) RecvEvent) s = ([], s') \<and> demo_state h [] [(demo_key, q)] s'
    \<and> qw_ch q = [] \<and> qw_batch q = [(demo_logged, Some 0)]
    \<and> (\<exists>s'' q'. sys_act (LogAct demo_key (\<lambda>_. io_good) FlushTick) s' = ([], s'') \<and> demo_state h [(0, None)] [(demo_key, q')] s''
          \<and> qw_ch q' = [] \<and> qw_batch q' = [] \<and> qw_dir q' = demo_dir)"
  using assms demo_logged_size demo_index
  by (simp add: demo_state_def log_turn_def b_queue_def demo_log_def newQueueWAL_def openSegment_def Let_def io_good_def qw_AppendSync_def
      channelCap_def writerLoop_def take_event_def demo_cfg_def flush_def flushBatch_def log_Flush_def idx_Flush_def
      qw_writeRecord_def signalDone_def map_filter_simps file_size_def findLastSegmentID_def ReadDir_def
      demo_dir_def split: prod.split)

lemma demo_confirmed:
  assumes "demo_state (HWait 0 demo_pub demo_id 0) [(0, None)] ws s"
  shows "fst (sys_act (LoggedAct demo_env 0 False) s) = [Confirmed 0 demo_pub demo_id]"
proof -
  have wf: "queue_wf (NewQueue ''q'' ''prod'')" and none: "GetGroup (NewQueue ''q'' ''prod'') ''k'' = None" by (simp_all add: new_queue_ready)
  from wf obtain g q1 where "ensure_group ''k'' (NewQueue ''q'' ''prod'') = (Ret (g, False), q1)" "pendingCount g = 0"
    by (cases rule: ensure_group_total [where k = "''k''"]) (use none in auto)
  moreover obtain m gen where "newMessageAt (q_Name q1) (q_Namespace q1) ''k'' ''a'' 5 (b_gen (y_b s)) = (m, gen)" by fastforce
  ultimately show ?thesis using assms
    by (simp add: demo_state_def handle_logged_def pub_logged_def PublishWithID_def demo_pub_def demo_env_def Let_def)
qed

abbreviation demo_steps :: "bact list" where
  "demo_steps \<equiv> [DeclareAct 0, demo_opening, FrameAct demo_env 0, LogAct demo_key (\<lambda>_. io_good) RecvEvent,
     LogAct demo_key (\<lambda>_. io_good) FlushTick, LoggedAct demo_env 0 False]"

lemma sys_run_Cons: "sys_act a s = (o1, s1) \<Longrightarrow> sys_run (a # as) s = (o1 @ fst (sys_run as s1), snd (sys_run as s1))"
  by (simp add: split: prod.split)

lemma demo_steps_run:
  "\<exists>s q. sys_run demo_steps demo_start = ([Confirmed 0 demo_pub demo_id], s) \<and> logs_ok demo_steps demo_start
     \<and> w_queues (logs s) = [(demo_key, q)] \<and> qw_dir q = demo_dir"
proof -
  obtain s1 where s1: "sys_act (DeclareAct 0) demo_start = ([], s1)" "w_queues (logs s1) = []"
    by (simp add: registerQueueWithWAL_def Let_def demo_start_def NewSystem_def fresh_broker_def NewBroker_def NewWAL_def
        RegisterQueueState_def)
  obtain s2 where "sys_run [DeclareAct 0, demo_opening] demo_start = ([], s2)" "demo_state HRead [] [] s2"
    and s3: "\<exists>s'. sys_act (FrameAct demo_env 0) s2 = ([], s')
      \<and> demo_state (HWait 0 demo_pub demo_id 0) [] [(demo_key, snd (qw_AppendSync 0 demo_logged demo_log))] s'"
    using demo_opened demo_framed by blast
  then have s2: "sys_act demo_opening s1 = ([], s2)" "w_queues (logs s2) = []" using s1 by (auto simp: demo_state_def split: prod.splits)
  from s3 obtain s3 where s3: "sys_act (FrameAct demo_env 0) s2 = ([], s3)"
    "demo_state (HWait 0 demo_pub demo_id 0) [] [(demo_key, snd (qw_AppendSync 0 demo_logged demo_log))] s3" by blast
  from demo_batched [OF this(2)] obtain s4 q s5 q' where
    s4: "sys_act (LogAct demo_key (\<lambda>_. io_good) RecvEvent) s3 = ([], s4)" "demo_state (HWait 0 demo_pub demo_id 0) [] [(demo_key, q)] s4"
      "qw_ch q = []" "qw_batch q = [(demo_logged, Some 0)]"
    and s5: "sys_act (LogAct demo_key (\<lambda>_. io_good) FlushTick) s4 = ([], s5)"
      "demo_state (HWait 0 demo_pub demo_id 0) [(0, None)] [(demo_key, q')] s5" "qw_ch q' = []" "qw_batch q' = []" "qw_dir q' = demo_dir" by blast
  obtain s6 where s6: "sys_act (LoggedAct demo_env 0 False) s5 = ([Confirmed 0 demo_pub demo_id], s6)"
    using demo_confirmed [OF s5(2)] by (cases "sys_act (LoggedAct demo_env 0 False) s5") simp
  have "logs s6 = logs s5" using s6 pub_logged_wal s5(2)
    by (auto simp: handle_logged_def demo_state_def resume_def Let_def split: prod.splits outcome.splits)
  then have w: "w_queues (logs s6) = [(demo_key, q')]" using s5(2) by (simp add: demo_state_def)
  have "event_ok demo_logged" by (simp add: event_ok_def demo_logged_def log_event_def ev_strings_def demo_id_def newID_unfold)
  moreover have "qw_ch (snd (qw_AppendSync 0 demo_logged demo_log)) = [(demo_logged, Some 0)]" "qw_batch (snd (qw_AppendSync 0 demo_logged demo_log)) = []"
    by (simp_all add: demo_log_def newQueueWAL_def openSegment_def Let_def io_good_def qw_AppendSync_def channelCap_def)
  moreover have "w_queues (logs demo_start) = []" by (simp add: demo_start_def NewSystem_def fresh_broker_def NewBroker_def NewWAL_def)
  ultimately have "logs_ok demo_steps demo_start"
    using s1 s2 s3 s4 s5 s6 by (simp add: events_fit_def demo_state_def demo_env_def del: sys_act.simps)
  moreover have "sys_run demo_steps demo_start = ([Confirmed 0 demo_pub demo_id], s6)"
    by (simp add: sys_run_Cons [OF s1(1)] sys_run_Cons [OF s2(1)] sys_run_Cons [OF s3(1)] sys_run_Cons [OF s4(1)]
        sys_run_Cons [OF s5(1)] sys_run_Cons [OF s6] del: sys_run.simps(2))
  ultimately show ?thesis using w s5(5) by blast
qed

section \<open>After PublishOK\<close>

text \<open>
  [C2] Nothing confirmed is lost while the broker runs.  Take any run of a fresh broker: connections
  open and break off, publications, subscriptions, positive and negative acknowledgements, failing and
  timed-out log writes, full dispatch channels, expired leases, panics of handlers and workers, sockets that
  break, queues declared, undeclared and reconfigured, their logs destroyed, made durable or not, and
  snapshots of them saved, in any interleaving of the goroutines' steps.  A message that
  was confirmed to its publisher is still in its queue and group at the end, unless an acknowledgement
  of it was handled after the confirmation.
\<close>

theorem confirmed_kept:
  assumes "sys_run acts (NewSystem (fresh_broker maxMsgs maxInflight rootDir walCfg procs names conns pre)) = (os, s')"
    and "list_all act_ok acts" and "length acts < 2 ^ 64" and "os = xs @ Confirmed r f i # ys"
  shows "i \<in> held s' r (pf_Group f) \<or> Settled r (pf_Group f) i \<in> set ys"
  using run_good [OF assms(1) fresh_inv] assms(2-4) by simp

theorem confirmed_kept_witness:
  "\<exists>s'. sys_run demo_steps demo_start = ([Confirmed 0 demo_pub demo_id], s') \<and> demo_id \<in> held s' 0 ''k''"
proof -
  obtain s' where r: "sys_run demo_steps demo_start = ([Confirmed 0 demo_pub demo_id], s')" using demo_steps_run by blast
  have "list_all act_ok demo_steps" "pf_Group demo_pub = ''k''"
    by (simp_all add: demo_env_def is_range_order_rev demo_pub_def)
  then have "demo_id \<in> held s' 0 ''k''"
    using confirmed_kept [OF r [unfolded demo_start_def], of "[]" 0 demo_pub demo_id "[]"] by simp
  with r show ?thesis by blast
qed



end
