(* ===== verification/Broker_Gaps.thy ===== *)
theory Broker_Gaps
  imports Broker_Log
begin

text \<open>
  Cases in which the counters of the broker, or its log, and its queues part: acknowledgements of
  messages that are not there, and publications refused after they were logged.
\<close>

text \<open>Credit and quota are given back before anything is looked up: the counters of a new connection and of a new quota become negative.\<close>

lemma ack_of_nothing:
  assumes "sch_GetQueue (conn_ns c b) (af_Queue f) (b_Scheduler b) = None"
  shows "\<exists>b'. onACK x c f b = (Ret (), b') \<and> b_quota b' = qt_Release (b_quota b)
    \<and> cr_inflight (c_credit (b_conns b' c)) = cr_inflight (c_credit (b_conns b c)) - 1"
  using assms
  by (simp add: onACK_def quota_Release_def on_conn_def ReleaseCredit_def cr_ReleaseCredit_def conn_ns_def Let_def)

lemma negative_inflight:
  "sint (cr_inflight (cr_ReleaseCredit (newCredit m))) = - 1" "0 < n \<Longrightarrow> qt_inflight (qt_Release (newBrokerQuota n)) = - 1"
  by (simp_all add: cr_ReleaseCredit_def newCredit_def qt_Release_def newBrokerQuota_def to_i64_def)

text \<open>The global counter is lowered whether or not the queue holds the message.\<close>

lemma global_frame [simp]:
  "b_globalMsgs (on_conn c f b) = b_globalMsgs b" "b_globalMsgs (quota_Release b) = b_globalMsgs b"
  "b_globalMsgs (set_queue r q b) = b_globalMsgs b" "b_globalMsgs (activate x r k b) = b_globalMsgs b"
  "b_globalMsgs (hand_on x nxt b) = b_globalMsgs b"
  by (simp_all add: on_conn_def quota_Release_def set_queue_def activate_def hand_on_def enqueueDispatch_def
      split: prod.split option.split)

lemma unacked_global:
  assumes "sch_GetQueue (conn_ns c b) (af_Queue f) (b_Scheduler b) = Some r"
    and w: "wal_Append x (log_event EventACK (conn_ns c b) (af_Queue f) (af_Group f) (af_MsgID f) [])
      (quota_Release (on_conn c ReleaseCredit b)) = (Ret None, b1)"
    and "onACK x c f b = (res, b')"
  shows "b_globalMsgs b' = to_i64 (b_globalMsgs b - 1)"
proof -
  have "conn_ns c (quota_Release (on_conn c ReleaseCredit b)) = conn_ns c b" "b_Scheduler (quota_Release (on_conn c ReleaseCredit b)) = b_Scheduler b"
    by (simp_all add: conn_ns_def quota_Release_def on_conn_def ReleaseCredit_def)
  moreover have "b_globalMsgs b1 = b_globalMsgs b" using w by (auto simp: wal_Append_def split: prod.splits)
  ultimately show ?thesis using assms
    by (auto simp: onACK_def Let_def DecGlobalMsgs_def split: prod.splits outcome.splits)
qed

text \<open>The depth limit is looked at only after the event is in the log: the publisher gets an error, the log keeps the event.\<close>

lemma refused_after_log:
  assumes "GetGroup (b_queue r b) (pf_Group f) = Some g" and "0 < c_MaxPending (g_cfg g)" "c_MaxPending (g_cfg g) \<le> pendingCount g"
  shows "\<exists>b' m. pub_logged x None r f i b = (Ret (HSend (ErrorF \<lparr>ef_Code = 500, ef_Message = m\<rparr>) ReturnDec), b')
    \<and> b_queue r b' = b_queue r b \<and> b_WAL b' = b_WAL b"
  using assms by (simp add: pub_logged_def PublishWithID_def ensure_group_def set_queue_def b_queue_def put_queue_def)

end
