(* ===== verification/Recovery_Gaps.thy ===== *)
theory Recovery_Gaps
  imports Recovery_Props
begin

text \<open>
  Cases outside the hypotheses of \<open>recovery_exact\<close>, evaluated on small logs: an expired lease, a depth
  limit and a restarted sequence counter each make recovery drop a message that the log holds, a
  state provider registered before the first append is not kept, and a group restored from a snapshot without
  leased messages panics when it is dispatched.
\<close>

definition demo_replay :: "Queue \<Rightarrow> Event list \<Rightarrow> string multiset" where
  "demo_replay q es =
     live (rs_queue (fold (dispatch (queueRecoveryHandler rev 9 (\<lambda>_. 9) ''q'' ''default'')) es
       \<lparr>rs_panic = None, rs_gen = \<lparr>initMsgIDPrefix = 5, msgIDCounter = 0\<rparr>, rs_queue = q\<rparr>)) ''g''"

text \<open>
  The lease sweep of the broker returns a message to its group and logs \<open>EventExpire\<close>; the replay of
  that event completes the message.
\<close>

lemma expired_message_lost:
  "demo_replay (NewQueue ''q'' ''default'')
     [demo_event ''a'', (demo_event ''a'')\<lparr>ev_Type := EventLease\<rparr>, (demo_event ''a'')\<lparr>ev_Type := EventExpire\<rparr>] = {#}"
  by code_simp

text \<open>
  A replayed acknowledgement clears the slot of its message and leaves it in the ready queue, where it
  counts against the depth limit: with limit one, \<open>b\<close> is refused although no message is pending.
\<close>

lemma depth_limit_drops_replayed:
  "demo_replay (SetGroupConfig ((defaultGroupConfig ''g'')\<lparr>c_MaxPending := 1\<rparr>) (NewQueue ''q'' ''default''))
     [demo_event ''a'', (demo_event ''a'')\<lparr>ev_Type := EventACK\<rparr>, demo_event ''b''] = {#}"
  by code_simp

text \<open>
  A group of a snapshot none of whose messages is leased is imported with a \<open>nil\<close> map, and the next dispatch of one
  of its messages panics; its slot has been cleared by then.
\<close>

lemma place_message_nil:
  "m_State msg \<noteq> StateProcessing \<Longrightarrow> gs_nilProcessing (place_message now msg gs) = gs_nilProcessing gs
     \<and> gs_ProcessingMsgs (place_message now msg gs) = gs_ProcessingMsgs gs \<and> gs_UrgentMsgs (place_message now msg gs) = gs_UrgentMsgs gs"
  by (simp add: place_message_def)

lemma snapshot_group_nil:
  assumes "\<forall>ms \<in> set (sg_Messages sg). m_State (snapshot_message queueName ns (sg_Key sg) ms) \<noteq> StateProcessing"
  shows "gs_nilProcessing (snapshot_group now queueName ns sg)" and "gs_ProcessingMsgs (snapshot_group now queueName ns sg) = []"
    and "gs_UrgentMsgs (snapshot_group now queueName ns sg) = []"
proof -
  have "gs_nilProcessing (fold (\<lambda>ms. place_message now (f ms)) xs gs) = gs_nilProcessing gs
      \<and> gs_ProcessingMsgs (fold (\<lambda>ms. place_message now (f ms)) xs gs) = gs_ProcessingMsgs gs
      \<and> gs_UrgentMsgs (fold (\<lambda>ms. place_message now (f ms)) xs gs) = gs_UrgentMsgs gs"
    if "\<forall>x \<in> set xs. m_State (f x) \<noteq> StateProcessing" for f :: "MessageSnapshot \<Rightarrow> message" and xs gs
    using that by (induction xs arbitrary: gs) (simp_all add: place_message_nil)
  from this [OF assms] show "gs_nilProcessing (snapshot_group now queueName ns sg)"
    "gs_ProcessingMsgs (snapshot_group now queueName ns sg) = []" "gs_UrgentMsgs (snapshot_group now queueName ns sg) = []"
    by (simp_all add: snapshot_group_def)
qed

lemma restored_group_panics:
  assumes "\<forall>ms \<in> set (sg_Messages sg). m_State (snapshot_message queueName ns (sg_Key sg) ms) \<noteq> StateProcessing"
    and "gs_ReadyMsgs (snapshot_group now queueName ns sg) = m # rest"
    and "0 < c_Parallelism (g_cfg g)" and "g_limiter g = None"
  shows "\<exists>g'. nextDispatchable t (Group_ImportState (snapshot_group now queueName ns sg) g)
      = (Panic ''assignment to entry in nil map'', g') \<and> readyQ g' = rest \<and> g_processing g' = []"
  using assms(2-4) snapshot_group_nil [OF assms(1), of now]
  by (simp add: nextDispatchable_def takeNext_def Group_ImportState_def scanReady.simps start_processing_def readyQ_def
      live_slots_def List.map_filter_def comp_def Let_def)

text \<open>
  Whatever its directory holds, a log that is opened numbers its events from one again, while the
  replay skips the events whose numbers a snapshot covers.
\<close>

lemma openSegment_seq: "openSegment io q = (r, q') \<Longrightarrow> qw_seq q' = qw_seq q \<and> qw_provider q' = qw_provider q"
  by (auto simp: openSegment_def Let_def split: option.splits if_splits)

lemma newQueueWAL_seq: "newQueueWAL io d n k cfg = Ret q \<Longrightarrow> qw_seq q = 0 \<and> \<not> qw_provider q"
  by (auto simp: newQueueWAL_def Let_def split: prod.splits option.splits dest!: openSegment_seq)

text \<open>Registering the state provider of a queue that has not appended yet leaves no trace.\<close>

lemma provider_not_kept:
  assumes "gm_get (w_queues w) (wal_key n k) = None"
  shows "RegisterQueueState n k w = w"
    and "getQueueWAL io n k (RegisterQueueState n k w) = (Ret q, w') \<Longrightarrow> \<not> qw_provider q"
  using assms newQueueWAL_seq
  by (auto simp: RegisterQueueState_def getQueueWAL_def Let_def split: outcome.splits)

end
