(* ===== verification/Crash_Recovery.thy ===== *)
theory Crash_Recovery
  imports Broker_Safety Broker_Gaps Recovery_Gaps
begin

text \<open>
  What a crash leaves of a log, and what the next start of the broker makes of it: the lemmas that
  connect the logs of a running broker with the replay.
\<close>

text \<open>
  A directory that is left of a log: of every segment some prefix, and of a durable log at least what was
  synchronised; without \<open>fsync\<close> only a crash of the process is survived, which loses nothing that was written.
\<close>

definition survives :: "QueueWAL \<Rightarrow> dirents \<Rightarrow> bool" where
  "survives q d = (\<forall>seg bs. file_bytes (qw_dir q) (log_name seg) = Some bs \<longrightarrow>
     (\<exists>m. file_bytes d (log_name seg) = Some (take m bs)
        \<and> (case (if Durable (qw_cfg q) then gm_get (qw_synced q) (log_name seg) else Some (length bs)) of
             None \<Rightarrow> True | Some n \<Rightarrow> n \<le> m)))"

definition readable :: "dirents \<Rightarrow> Event list" where
  "readable d = segment_events (\<lambda>_. False) d"

lemma segment_readable:
  assumes "file_bytes d (log_name seg) = Some bs"
  shows "set (fst (readLog bs)) \<subseteq> set (readable d)"
proof -
  have "(log_name seg, File bs) \<in> set d"
    using assms map_of_SomeD by (fastforce simp: file_bytes_def split: option.splits node.splits)
  moreover have "sscanf_d ''.log'' (log_name seg) = Some (unat seg)"
    using sscanf_sprintf [of "unat seg" "''.log''" "[]"] unsigned_less [where w = seg and 'a = nat] by (simp add: log_name_def is_digit_def)
  ultimately show ?thesis unfolding readable_def segment_events_def
    by (auto simp: entry_events_def intro!: bexI [of _ "(log_name seg, File bs)"])
qed

lemma stored_survives:
  assumes "stored (Durable (qw_cfg q)) q e" and "survives q d"
  shows "\<exists>ev \<in> set (readable d). same_event ev e"
proof -
  from assms(1) obtain seg bs n ev where f: "file_bytes (qw_dir q) (log_name seg) = Some bs"
    and n: "if Durable (qw_cfg q) then gm_get (qw_synced q) (log_name seg) = Some n \<and> n \<le> length bs else n = length bs"
    and ev: "ev \<in> set (fst (readLog (take n bs)))" "same_event ev e" unfolding stored_def by blast
  from assms(2) f obtain m where m: "file_bytes d (log_name seg) = Some (take m bs)"
    "case (if Durable (qw_cfg q) then gm_get (qw_synced q) (log_name seg) else Some (length bs)) of None \<Rightarrow> True | Some n \<Rightarrow> n \<le> m"
    unfolding survives_def by blast
  then have "n \<le> m" using n by (simp split: if_splits)
  then have "ev \<in> set (fst (readLog (take m bs)))" using ev(1) readLog_take_mono [of n m bs] by blast
  then show ?thesis using segment_readable [OF m(1)] ev(2) by blast
qed

lemma same_event_fields: "same_event ev e \<Longrightarrow> ev_Type ev = ev_Type e \<and> ev_Group ev = ev_Group e \<and> ev_MsgID ev = ev_MsgID e"
  by (cases ev; cases e) (simp add: same_event_def)

lemma alive_keeps:
  "i \<in># M \<Longrightarrow> (\<And>e. e \<in> set es \<Longrightarrow> ev_Group e = k \<Longrightarrow> ev_MsgID e = i \<Longrightarrow> ev_Type e \<noteq> EventACK) \<Longrightarrow> i \<in># alive k es M"
proof (induction es arbitrary: M)
  case (Cons e es)
  let ?M = "if ev_Group e \<noteq> k then M else if ev_Type e = EventPublish then add_mset (ev_MsgID e) M
    else if ev_Type e = EventACK then M - {#ev_MsgID e#} else M"
  have "i \<in># ?M" using Cons.prems(1) Cons.prems(2) [of e] by (auto simp: in_diff_count)
  then show ?case using Cons.IH [of ?M] Cons.prems(2) by simp
qed simp

lemma alive_published:
  assumes "e \<in> set es" and "ev_Type e = EventPublish" and "ev_Group e = k" and "ev_MsgID e = i"
    and "\<And>e. e \<in> set es \<Longrightarrow> ev_Group e = k \<Longrightarrow> ev_MsgID e = i \<Longrightarrow> ev_Type e \<noteq> EventACK"
  shows "i \<in># alive k es M"
  using assms
proof (induction es arbitrary: M)
  case (Cons x es)
  show ?case
  proof (cases "e \<in> set es")
    case True
    then show ?thesis using Cons.IH [OF True Cons.prems(2-4)] Cons.prems(5) by simp
  next
    case False
    then show ?thesis using Cons.prems alive_keeps [of i _ es k] by simp
  qed
qed simp

text \<open>A queue that a recovery starts from: no groups yet, and depth limits that leave room for \<open>n\<close> publications.\<close>

definition blank :: "nat \<Rightarrow> Queue \<Rightarrow> bool" where
  "blank n q = (queue_wf q \<and> (\<forall>k. GetGroup q k = None) \<and> (\<forall>k. roomc n (resolveConfig q k)))"

lemma blank_new: "n \<le> 10000000 \<Longrightarrow> blank n (NewQueue name ns)"
  by (simp add: blank_def new_queue_ready)

lemma replay_of_log:
  assumes "fst (FindLatestSnapshot d) = []" and h: "history (readable d)" and b: "blank (publications (readable d)) q"
    and s: "\<forall>e \<in> set (readable d). 1 \<le> ev_Seq e"
  shows "let rs = ReplayFromSnapshot (discover_queue ns name d) (queueRecoveryHandler its now clock name ns)
      \<lparr>rs_panic = None, rs_gen = gen, rs_queue = q\<rparr>
    in rs_panic rs = None \<and> (\<forall>k. live (rs_queue rs) k = alive k (readable d) {#})"
proof -
  let ?rs = "\<lparr>rs_panic = None, rs_gen = gen, rs_queue = q\<rparr>" and ?h = "queueRecoveryHandler its now clock name ns"
  have i: "ri_SnapshotPath (discover_queue ns name d) = []" "ri_SnapshotSeq (discover_queue ns name d) = 0" "ri_Dir (discover_queue ns name d) = d"
    using assms(1) by (simp_all add: discover_queue_def split_beta Let_def)
  have "filter (\<lambda>e. 1 \<le> ev_Seq e) (readable d) = readable d" using s by (simp add: filter_id_conv)
  then have e: "ReplayFromSnapshot (discover_queue ns name d) ?h ?rs = fold (dispatch ?h) (readable d) ?rs"
    using ReplayFromSnapshot_events [OF i(1)] i(2,3) by (simp add: readable_def)
  have q: "rqueue (publications (readable d)) (rs_queue ?rs)" "\<And>k. live (rs_queue ?rs) k = {#}"
    using b by (simp_all add: blank_def rqueue_def live_def)
  from replay_history [OF _ this(1) h, of its now clock name ns] q(2) show ?thesis by (simp add: e Let_def)
qed

text \<open>The queue that \<open>replay_queue\<close> fills: the one the scheduler knows, or a new one.\<close>

definition target :: "qref \<Rightarrow> string \<Rightarrow> string \<Rightarrow> Broker \<Rightarrow> qref \<times> Queue" where
  "target r ns name b =
     (case sch_GetQueue ns name (b_Scheduler b) of None \<Rightarrow> (r, NewQueue name ns) | Some r0 \<Rightarrow> (r0, b_queue r0 b))"

lemma replay_queue_target:
  assumes "ri_Namespace info = ns" "ri_Queue info = name" and t: "target r ns name b = (r0, q0)"
    and rs: "rs = ReplayFromSnapshot info (h name ns) \<lparr>rs_panic = None, rs_gen = b_gen b, rs_queue = q0\<rparr>" "rs_panic rs = None"
  shows "\<exists>b'. replay_queue h r info b = (Ret (), b') \<and> sch_GetQueue ns name (b_Scheduler b') = Some r0 \<and> b_queue r0 b' = rs_queue rs"
proof (cases "sch_GetQueue ns name (b_Scheduler b)")
  case None
  then have "r0 = r" "q0 = NewQueue name ns" using t by (simp_all add: target_def)
  then show ?thesis using None assms(1,2) rs
    by (simp add: replay_queue_def registerQueueWithWAL_def set_queue_def b_queue_def put_queue_def RegisterQueue_def
        sch_GetQueue_def NewQueue_def Let_def)
next
  case (Some r1)
  then have "r0 = r1" "q0 = b_queue r1 b" using t by (auto simp: target_def)
  then show ?thesis using Some assms(1,2) rs
    by (simp add: replay_queue_def set_queue_def b_queue_def put_queue_def sch_GetQueue_def Let_def)
qed

section \<open>What the database restores\<close>

text \<open>
  \<open>restoreFromDB\<close>, which runs before the replay, only registers queues without groups, well-formed where the rate
  limits that were stored are positive.
\<close>

definition groups_ok :: "db_groups \<Rightarrow> bool" where
  "groups_ok gs = (\<forall>xs. gs = Some xs \<longrightarrow> (\<forall>key cfg. (key, Some cfg) \<in> set xs \<longrightarrow> config_ok cfg))"

definition empty_queue :: "Queue \<Rightarrow> bool" where
  "empty_queue q = (queue_wf q \<and> (\<forall>k. GetGroup q k = None))"

lemma SetGroupConfig_empty:
  assumes "empty_queue q" and "config_ok cfg"
  shows "empty_queue (SetGroupConfig cfg q)"
proof -
  have "queue_wf (SetGroupConfig cfg q)" using assms SetGroupConfig_wf by (simp add: empty_queue_def)
  moreover have "GetGroup (SetGroupConfig cfg q) k = None" for k
    using SetGroupConfig_ids [of q cfg k] assms(1) by (cases "GetGroup (SetGroupConfig cfg q) k") (auto simp: empty_queue_def)
  ultimately show ?thesis by (simp add: empty_queue_def)
qed

lemma restore_groups_empty:
  "empty_queue q \<Longrightarrow> (\<forall>key cfg. (key, Some cfg) \<in> set gs \<longrightarrow> config_ok cfg) \<Longrightarrow> empty_queue (restore_groups gs q)"
proof (induction gs q rule: restore_groups.induct)
  case (3 key cfg gs q)
  have "config_ok (cfg\<lparr>c_Key := key\<rparr>)" using 3(3) by (force simp: config_ok_def)
  from 3(1) [OF SetGroupConfig_empty [OF 3(2) this]] 3(3) show ?case by auto
qed auto

definition restored :: "qref \<times> Broker \<Rightarrow> bool" where
  "restored s = (\<forall>ns name r. sch_GetQueue ns name (b_Scheduler (snd s)) = Some r \<longrightarrow> r < fst s \<and> empty_queue (b_queue r (snd s)))"

lemma restored_register:
  assumes "restored (n, b)" and "empty_queue q"
  shows "restored (Suc n, registerQueueWithWAL n (set_queue n q b))"
  using assms unfolding restored_def
  by (auto simp: registerQueueWithWAL_def set_queue_def b_queue_def put_queue_def RegisterQueue_def sch_GetQueue_def Let_def
      less_Suc_eq split: if_splits)

lemma restore_queues_restored:
  "restored s \<Longrightarrow> (\<forall>(name, gs) \<in> set qs. groups_ok gs) \<Longrightarrow> restored (restore_queues ns qs s)"
proof (induction ns qs s rule: restore_queues.induct)
  case (2 ns name groups qs n b)
  have "empty_queue (case groups of None \<Rightarrow> NewQueue name ns | Some gs \<Rightarrow> restore_groups gs (NewQueue name ns))"
    using 2(3) restore_groups_empty [of "NewQueue name ns"]
    by (auto simp: groups_ok_def empty_queue_def new_queue_ready split: option.split)
  from 2(1) [OF refl refl restored_register [OF 2(2) this]] 2(3) show ?case by (simp add: Let_def)
qed simp

lemma restore_namespaces_restored:
  "restored s \<Longrightarrow> (\<forall>ns qs. (ns, Some qs) \<in> set nss \<longrightarrow> (\<forall>(name, gs) \<in> set qs. groups_ok gs)) \<Longrightarrow> restored (restore_namespaces nss s)"
proof (induction nss s rule: restore_namespaces.induct)
  case (3 ns qs nss s)
  have "restored (restore_queues ns qs s)" using 3(2,3) by (intro restore_queues_restored) auto
  then show ?case using 3(1,3) by simp
qed auto

lemma restoreFromDB_empty:
  assumes "restoreFromDB db n b = (ok, b')" and "\<And>ns name. sch_GetQueue ns name (b_Scheduler b) = None"
    and "\<And>nss ns qs name gs. db = Some nss \<Longrightarrow> (ns, Some qs) \<in> set nss \<Longrightarrow> (name, gs) \<in> set qs \<Longrightarrow> groups_ok gs"
    and "sch_GetQueue ns name (b_Scheduler b') = Some r"
  shows "empty_queue (b_queue r b')"
proof (cases db)
  case None
  then show ?thesis using assms(1,2,4) by (simp add: restoreFromDB_def)
next
  case (Some nss)
  have "restored (n, b)" using assms(2) by (simp add: restored_def)
  moreover have "\<forall>ns qs. (ns, Some qs) \<in> set nss \<longrightarrow> (\<forall>(name, gs) \<in> set qs. groups_ok gs)" using assms(3) [OF Some] by blast
  ultimately have "restored (restore_namespaces nss (n, b))" by (rule restore_namespaces_restored)
  then show ?thesis using assms(1,4) Some by (auto simp: restoreFromDB_def restored_def)
qed

section \<open>The directory of the demonstration run\<close>

lemma survives_self: "survives q (qw_dir q)"
  unfolding survives_def
proof (intro allI impI)
  fix seg bs
  assume f: "file_bytes (qw_dir q) (log_name seg) = Some bs"
  let ?n = "if Durable (qw_cfg q) then gm_get (qw_synced q) (log_name seg) else Some (length bs)"
  show "\<exists>m. file_bytes (qw_dir q) (log_name seg) = Some (take m bs) \<and> (case ?n of None \<Rightarrow> True | Some n \<Rightarrow> n \<le> m)"
    by (rule exI [of _ "case ?n of None \<Rightarrow> length bs | Some n \<Rightarrow> max n (length bs)"]) (auto simp: f split: option.splits)
qed

lemma sscanf_other:
  assumes "ext' \<noteq> []" and "\<not> is_digit (hd ext')" and "take (length ext) ext' \<noteq> ext"
  shows "sscanf_d ext (sprintf_09d n @ ext') = None"
proof -
  obtain c cs where ext: "ext' = c # cs" and c: "\<not> is_digit c" using assms by (cases ext') auto
  note d = sprintf_09d_spec(3) [of n]
  have "dropWhile is_space (sprintf_09d n @ ext') = sprintf_09d n @ ext'"
    using sprintf_09d_spec(2) [of n] d by (cases "sprintf_09d n") auto
  moreover have "dropWhile is_digit (sprintf_09d n @ ext') = ext'"
    using d c ext by (simp add: dropWhile_append2)
  ultimately show ?thesis using assms(3) by (simp add: sscanf_d_def Let_def)
qed

lemma demo_scan:
  "sscanf_d ''.log'' (log_name 0) = Some 0" "sscanf_d ''.log'' (idx_name 0) = None"
  "sscanf_d ''.snap'' (log_name 0) = None" "sscanf_d ''.snap'' (idx_name 0) = None"
  using sscanf_sprintf [of 0 "''.log''" "[]"] by (simp_all add: log_name_def idx_name_def is_digit_def sscanf_other)

lemma demo_dir_entries:
  "demo_dir = [(log_name 0, File (writeRecord (demo_logged\<lparr>ev_Seq := 1, ev_Timestamp := 7\<rparr>))),
    (idx_name 0, File (be_bytes 8 1 @ be_bytes 8 0))]"
  by (simp add: demo_dir_def append_file_def create_file_def file_bytes_def)

lemma demo_dir_ok:
  "readable demo_dir = [demo_logged\<lparr>ev_Seq := 1, ev_Timestamp := 7\<rparr>]" "fst (FindLatestSnapshot demo_dir) = []"
proof -
  have "list_all event_ok [demo_logged\<lparr>ev_Seq := 1, ev_Timestamp := 7\<rparr>]"
    by (simp add: event_ok_def demo_logged_def log_event_def ev_strings_def demo_id_def newID_unfold)
  from readLog_append [OF this, of "[]"] show "readable demo_dir = [demo_logged\<lparr>ev_Seq := 1, ev_Timestamp := 7\<rparr>]"
    by (simp add: readable_def segment_events_def ReadDir_def demo_dir_entries entry_events_def demo_scan readLog_Nil)
  show "fst (FindLatestSnapshot demo_dir) = []"
    by (simp add: FindLatestSnapshot_def ReadDir_def demo_dir_entries demo_scan)
qed

end
