(* ===== verification/Scheduler_Steps.thy ===== *)
theory Scheduler_Steps
  imports Scheduler_Props
begin

text \<open>
  The goroutines of the scheduler instruction by instruction.  \<open>Activate\<close>, \<open>processActivation\<close>, \<open>scheduleWake\<close> and the
  callback of a timer hold no lock: each is here a goroutine with a program counter, one step of which is one
  atomic instruction on the shared state (a compare-and-swap or store on a token, a channel operation, a
  call that locks its queue or the wheel).  Any number of them run interleaved with each other and with the
  clients of the queues.  Run alone, they are the functions of \<open>Scheduler\<close>.
\<close>

section \<open>Program counters\<close>

text \<open>What follows the delivery of a round.\<close>

datatype sequel = Wakes gtime | Again | Finished

datatype goroutine =
    Claim qref string
  | Send qref string
  | Reset qref string
  | Took groupActivation
  | Drain groupActivation gtime
  | Deliver groupActivation "message list" sequel
  | Return groupActivation "message list"
  | LoadW qref string gtime
  | SetW qref string int gtime
  | AddT qref string gtime
  | Clear wakeup

fun sequel_pc :: "qref \<Rightarrow> string \<Rightarrow> sequel \<Rightarrow> goroutine option" where
  "sequel_pc r k (Wakes w) = Some (LoadW r k w)"
| "sequel_pc r k Again = Some (Claim r k)"
| "sequel_pc r k Finished = None"

text \<open>
  One instruction: the goroutine that is left and the new state.  The worker reads the coarse clock once,
  before it resets the flag.
\<close>

fun go_step ::
  "'b DispatchFunc \<Rightarrow> (string, message) range_order \<Rightarrow> gtime \<Rightarrow> gtime \<Rightarrow> goroutine \<Rightarrow> Scheduler \<times> 'b \<Rightarrow>
   goroutine option \<times> Scheduler \<times> 'b" where
  "go_step dispatch it rnow now (Claim r k) (s, b) =
     (if k = [] then (None, s, b)
      else case GetGroup (s_heap s r) k of
        None \<Rightarrow> (None, s, b)
      | Some g \<Rightarrow>
          if fst (TrySchedule g)
          then (Some (Send r k), (on_token r k (\<lambda>g. snd (TrySchedule g)) s)\<lparr>s_activationsTotal := s_activationsTotal s + 1\<rparr>, b)
          else (None, s, b))"
| "go_step dispatch it rnow now (Send r k) (s, b) =
     (if length (s_active s) < activeCap
      then (None, s\<lparr>s_active := s_active s @ [\<lparr>a_q = r, a_groupKey = k, a_enqueuedAt = now\<rparr>]\<rparr>, b)
      else (Some (Reset r k), s, b))"
| "go_step dispatch it rnow now (Reset r k) (s, b) = (None, on_token r k Unschedule s, b)"
| "go_step dispatch it rnow now (Took a) (s, b) =
     (Some (Drain a now), on_token (a_q a) (a_groupKey a) Unschedule (record_latency now a s), b)"
| "go_step dispatch it rnow now (Drain a t) (s, b) =
     (case DrainGroup it (a_groupKey a) t (s_heap s (a_q a)) of
        (Panic e, q) \<Rightarrow> (None, put_queue (a_q a) q s, b)
      | (Ret (ready, wakeAt, hasWake, stillPending), q) \<Rightarrow>
          (Some (Deliver a (case ready of None \<Rightarrow> [] | Some ms \<Rightarrow> ms)
             (if hasWake then Wakes wakeAt else if stillPending then Again else Finished)), put_queue (a_q a) q s, b))"
| "go_step dispatch it rnow now (Deliver a [] nx) (s, b) = (sequel_pc (a_q a) (a_groupKey a) nx, s, b)"
| "go_step dispatch it rnow now (Deliver a (m # ms) nx) (s, b) =
     (case dispatch m b of
        (True, b) \<Rightarrow> (Some (Deliver a ms nx), s, b)
      | (False, b) \<Rightarrow> (Some (Return a (m # ms)), s, b))"
| "go_step dispatch it rnow now (Return a []) (s, b) = (None, s, b)"
| "go_step dispatch it rnow now (Return a (m # ms)) (s, b) =
     (Some (Return a ms), put_queue (a_q a) (ReturnToPending (a_groupKey a) (m_ID m) (s_heap s (a_q a))) s, b)"
| "go_step dispatch it rnow now (LoadW r k w) (s, b) =
     (case GetGroup (s_heap s r) k of
        None \<Rightarrow> (None, s, b)
      | Some g \<Rightarrow> (if LoadWake g \<noteq> 0 \<and> LoadWake g \<le> to_i64 w then None else Some (SetW r k (LoadWake g) w), s, b))"
| "go_step dispatch it rnow now (SetW r k cur w) (s, b) =
     (case GetGroup (s_heap s r) k of
        None \<Rightarrow> (None, s, b)
      | Some g \<Rightarrow>
          if fst (TrySetWake cur (to_i64 w) g)
          then (Some (AddT r k w), on_token r k (\<lambda>g. snd (TrySetWake cur (to_i64 w) g)) s, b)
          else (Some (LoadW r k w), s, b))"
| "go_step dispatch it rnow now (AddT r k w) (s, b) =
     (None, s\<lparr>s_wheel := tw_Add now (if w - rnow < 0 then 0 else w - rnow) \<lparr>wk_q = r, wk_groupKey = k, wk_wakeNs = to_i64 w\<rparr> (s_wheel s)\<rparr>, b)"
| "go_step dispatch it rnow now (Clear w) (s, b) =
     (Some (Claim (wk_q w) (wk_groupKey w)), on_token (wk_q w) (wk_groupKey w) (ClearWake (wk_wakeNs w)) s, b)"

section \<open>Interleaving\<close>

text \<open>
  \<open>th_owed\<close> remembers for which groups an activation was asked for and no drain has begun since; a group whose
  activation is dropped because the channel is full is forgotten.
\<close>

record 'b threads =
  th_sched :: Scheduler
  th_env :: 'b
  th_pcs :: "goroutine list"
  th_owed :: "(qref \<times> string) set"

definition owed_after :: "Scheduler \<Rightarrow> goroutine \<Rightarrow> (qref \<times> string) set \<Rightarrow> (qref \<times> string) set" where
  "owed_after s pc owed =
     (case pc of
        Claim r k \<Rightarrow> if k \<noteq> [] \<and> GetGroup (s_heap s r) k \<noteq> None then insert (r, k) owed else owed
      | Reset r k \<Rightarrow> owed - {(r, k)}
      | Drain a t \<Rightarrow> owed - {aid a}
      | _ \<Rightarrow> owed)"

inductive go_reach :: "'b DispatchFunc \<Rightarrow> 'b threads \<Rightarrow> bool" for dispatch :: "'b DispatchFunc" where
  go_new: "(\<And>r. queue_wf (heap r)) \<Longrightarrow> (\<And>r k g. GetGroup (heap r) k = Some g \<Longrightarrow> tok g = (0, 0)) \<Longrightarrow>
    go_reach dispatch \<lparr>th_sched = NewScheduler heap, th_env = b, th_pcs = [], th_owed = {}\<rparr>"
| go_register: "go_reach dispatch st \<Longrightarrow> go_reach dispatch (st\<lparr>th_sched := RegisterQueue r (th_sched st)\<rparr>)"
| go_unregister: "go_reach dispatch st \<Longrightarrow> go_reach dispatch (st\<lparr>th_sched := UnregisterQueue ns n (th_sched st)\<rparr>)"
| go_client: "go_reach dispatch st \<Longrightarrow> client (s_heap (th_sched st) r) q \<Longrightarrow>
    go_reach dispatch (st\<lparr>th_sched := put_queue r q (th_sched st), th_env := b\<rparr>)"
| go_call: "go_reach dispatch st \<Longrightarrow> go_reach dispatch (st\<lparr>th_pcs := th_pcs st @ [Claim r k]\<rparr>)"
| go_take: "go_reach dispatch st \<Longrightarrow> s_active (th_sched st) = a # as \<Longrightarrow>
    go_reach dispatch (st\<lparr>th_sched := (th_sched st)\<lparr>s_active := as\<rparr>, th_pcs := th_pcs st @ [Took a]\<rparr>)"
| go_tick: "go_reach dispatch st \<Longrightarrow> tick now (s_wheel (th_sched st)) = (cbs, tw) \<Longrightarrow>
    go_reach dispatch (st\<lparr>th_sched := (th_sched st)\<lparr>s_wheel := tw\<rparr>, th_pcs := th_pcs st @ map Clear cbs\<rparr>)"
| go_run: "go_reach dispatch st \<Longrightarrow> th_pcs st = xs @ pc # ys \<Longrightarrow> is_range_order it \<Longrightarrow>
    go_step dispatch it rnow now pc (th_sched st, th_env st) = (pc', s', b') \<Longrightarrow>
    go_reach dispatch \<lparr>th_sched = s', th_env = b', th_pcs = xs @ (case pc' of None \<Rightarrow> [] | Some p \<Rightarrow> [p]) @ ys,
      th_owed = owed_after (th_sched st) pc (th_owed st)\<rparr>"

section \<open>The invariant\<close>

text \<open>The group whose flag a goroutine has set or taken over and not yet reset.\<close>

fun holds :: "goroutine \<Rightarrow> (qref \<times> string) option" where
  "holds (Send r k) = Some (r, k)"
| "holds (Reset r k) = Some (r, k)"
| "holds (Took a) = Some (aid a)"
| "holds _ = None"

fun drains :: "goroutine \<Rightarrow> (qref \<times> string) option" where
  "drains (Drain a t) = Some (aid a)"
| "drains _ = None"

text \<open>The wake time that a goroutine has stored without a timer in the wheel, or whose timer it runs.\<close>

fun wakes :: "goroutine \<Rightarrow> wakeup option" where
  "wakes (AddT r k w) = Some \<lparr>wk_q = r, wk_groupKey = k, wk_wakeNs = to_i64 w\<rparr>"
| "wakes (Clear w) = Some w"
| "wakes _ = None"

definition tokens :: "'b threads \<Rightarrow> qref \<times> string \<Rightarrow> nat" where
  "tokens st x = count_list (map aid (s_active (th_sched st))) x + length (filter (\<lambda>p. holds p = Some x) (th_pcs st))"

definition pending_wakes :: "'b threads \<Rightarrow> wakeup set" where
  "pending_wakes st = set_mset (timers (th_sched st)) \<union> {w. \<exists>p \<in> set (th_pcs st). wakes p = Some w}"

definition go_inv :: "'b threads \<Rightarrow> bool" where
  "go_inv st = ((\<forall>r. queue_wf (s_heap (th_sched st) r)) \<and> wheel_wf 10000000 65536 (s_wheel (th_sched st))
     \<and> (\<forall>r k. tokens st (r, k) = (if flag (th_sched st) r k then 1 else 0))
     \<and> (\<forall>x \<in> th_owed st. 0 < tokens st x \<or> (\<exists>p \<in> set (th_pcs st). drains p = Some x))
     \<and> (\<forall>r k. wake_of (th_sched st) r k \<noteq> 0 \<longrightarrow> wakeup_of (th_sched st) r k \<in> pending_wakes st))"

text \<open>A step that replaces one goroutine: what it has to keep of the counts, of the requests and of the wake times.\<close>

definition held :: "goroutine option \<Rightarrow> qref \<times> string \<Rightarrow> nat" where
  "held p x = (case p of None \<Rightarrow> 0 | Some p \<Rightarrow> if holds p = Some x then 1 else 0)"

lemma held_simps [simp]: "held None x = 0" "held (Some p) x = (if holds p = Some x then 1 else 0)"
  by (simp_all add: held_def)

lemma replace_inv:
  assumes I: "go_inv st" and p: "th_pcs st = xs @ pc # ys" and st': "st' = \<lparr>th_sched = s', th_env = b', th_pcs = xs @ (case pc' of None \<Rightarrow> [] | Some p \<Rightarrow> [p]) @ ys, th_owed = owed\<rparr>"
    and wf: "\<forall>r. queue_wf (s_heap s' r)" "wheel_wf 10000000 65536 (s_wheel s')"
    and t: "\<And>r k. count_list (map aid (s_active s')) (r, k) + held pc' (r, k) + (if flag (th_sched st) r k then 1 else 0) =
      count_list (map aid (s_active (th_sched st))) (r, k) + held (Some pc) (r, k) + (if flag s' r k then 1 else 0)"
    and o: "\<And>x. x \<in> owed \<Longrightarrow> 0 < tokens st' x \<or> (\<exists>p. pc' = Some p \<and> drains p = Some x) \<or> x \<in> th_owed st \<and> tokens st' x = tokens st x \<and> drains pc \<noteq> Some x"
    and w: "\<And>r k. wake_of s' r k \<noteq> 0 \<Longrightarrow> wakeup_of s' r k \<in># timers s' \<or> (\<exists>p. pc' = Some p \<and> wakes p = Some (wakeup_of s' r k))
      \<or> wake_of s' r k = wake_of (th_sched st) r k \<and> set_mset (timers (th_sched st)) \<subseteq> set_mset (timers s') \<and> wakes pc \<noteq> Some (wakeup_of s' r k)"
  shows "go_inv st'"
proof -
  have T: "tokens st (r, k) = (if flag (th_sched st) r k then 1 else 0)" for r k using I by (simp add: go_inv_def)
  define n where "n x = length (filter (\<lambda>p. holds p = Some x) xs) + length (filter (\<lambda>p. holds p = Some x) ys)" for x
  have "tokens st x = count_list (map aid (s_active (th_sched st))) x + held (Some pc) x + n x"
    "tokens st' x = count_list (map aid (s_active s')) x + held pc' x + n x" for x
    by (simp_all add: tokens_def p st' n_def split: option.split)
  note c = this
  have "tokens st' (r, k) = (if flag s' r k then 1 else 0)" for r k
    using T [of r k] t [of r k] c(1) [of "(r, k)"] c(2) [of "(r, k)"] by linarith
  moreover have "0 < tokens st' x \<or> (\<exists>p \<in> set (th_pcs st'). drains p = Some x)" if "x \<in> owed" for x
  proof -
    have "x \<in> th_owed st \<Longrightarrow> 0 < tokens st x \<or> (\<exists>p \<in> set (xs @ pc # ys). drains p = Some x)" using I p by (simp add: go_inv_def)
    then show ?thesis using o [OF that] by (auto simp: st' split: option.split)
  qed
  moreover have "wakeup_of s' r k \<in> pending_wakes st'" if n: "wake_of s' r k \<noteq> 0" for r k
  proof -
    have "wake_of (th_sched st) r k \<noteq> 0 \<Longrightarrow> wakeup_of (th_sched st) r k \<in># timers (th_sched st) \<or> (\<exists>p \<in> set (xs @ pc # ys). wakes p = Some (wakeup_of (th_sched st) r k))"
      using I p by (auto simp: go_inv_def pending_wakes_def)
    then show ?thesis using w [OF n] n by (auto simp: pending_wakes_def st' split: option.split)
  qed
  ultimately show ?thesis using wf by (simp add: go_inv_def st')
qed


section \<open>Every instruction keeps the invariant\<close>

lemma go_inv_wf: "go_inv st \<Longrightarrow> queue_wf (s_heap (th_sched st) r)"
  by (simp add: go_inv_def)

lemma go_token:
  assumes "go_inv st" "flag (th_sched st) r k"
  shows "0 < tokens st (r, k)"
  using assms by (simp add: go_inv_def)

text \<open>Steps that change at most one token: the claim, the two resets and the changes of wake times.\<close>

lemma claim_inv:
  assumes I: "go_inv st" and p: "th_pcs st = xs @ Claim r k # ys"
    and g: "go_step dispatch it rnow now (Claim r k) (th_sched st, th_env st) = (pc', s', b')"
    and st': "st' = \<lparr>th_sched = s', th_env = b', th_pcs = xs @ (case pc' of None \<Rightarrow> [] | Some p \<Rightarrow> [p]) @ ys,
      th_owed = owed_after (th_sched st) (Claim r k) (th_owed st)\<rparr>"
  shows "go_inv st'"
proof -
  let ?s = "th_sched st"
  note wf = go_inv_wf [OF I]
  have ww: "wheel_wf 10000000 65536 (s_wheel ?s)" using I by (simp add: go_inv_def)
  show ?thesis
  proof (cases "k \<noteq> [] \<and> GetGroup (s_heap ?s r) k \<noteq> None \<and> \<not> flag ?s r k")
    case True
    then obtain x where x: "GetGroup (s_heap ?s r) k = Some x" "g_isScheduled x = 0" by (auto simp: flag_def)
    let ?t = "on_token r k (\<lambda>g. snd (TrySchedule g)) ?s"
    have g': "pc' = Some (Send r k)" "s' = ?t\<lparr>s_activationsTotal := s_activationsTotal ?s + 1\<rparr>"
      using g True x by (auto simp: TrySchedule_def)
    have F: "flag ?t r' k' = (if r' = r \<and> k' = k then True else flag ?s r' k')" "wake_of ?t r' k' = wake_of ?s r' k'" for r' k'
      using view_try [OF wf, of r k r' k'] True by auto
    have t: "tokens st' x = tokens st x + (if x = (r, k) then 1 else 0)" for x by (auto simp: tokens_def st' p g')
    show ?thesis
    proof (rule replace_inv [OF I p st'])
      show "\<forall>r. queue_wf (s_heap s' r)" using on_token_wf [OF _ shrinks_tokens(2)] wf by (simp add: g')
      show "wheel_wf 10000000 65536 (s_wheel s')" using ww by (simp add: g')
    qed (use True in \<open>auto simp: F g' timers_def t owed_after_def split: if_splits\<close>)
  next
    case False
    then have g': "pc' = None" "s' = ?s"
      using g by (auto simp: TrySchedule_def flag_def split: if_splits option.splits)
    have t: "tokens st' x = tokens st x" for x by (auto simp: tokens_def st' p g')
    show ?thesis
    proof (rule replace_inv [OF I p st'])
      show "\<forall>r. queue_wf (s_heap s' r)" "wheel_wf 10000000 65536 (s_wheel s')" using wf ww by (simp_all add: g')
    qed (use False go_token [OF I] in \<open>auto simp: g' t owed_after_def split: if_splits\<close>)
  qed
qed

lemma send_inv:
  assumes I: "go_inv st" and p: "th_pcs st = xs @ Send r k # ys"
    and g: "go_step dispatch it rnow now (Send r k) (th_sched st, th_env st) = (pc', s', b')"
    and st': "st' = \<lparr>th_sched = s', th_env = b', th_pcs = xs @ (case pc' of None \<Rightarrow> [] | Some p \<Rightarrow> [p]) @ ys, th_owed = th_owed st\<rparr>"
  shows "go_inv st'"
proof -
  let ?s = "th_sched st"
  note wf = go_inv_wf [OF I]
  have ww: "wheel_wf 10000000 65536 (s_wheel ?s)" using I by (simp add: go_inv_def)
  have c: "pc' = None \<and> s' = ?s\<lparr>s_active := s_active ?s @ [\<lparr>a_q = r, a_groupKey = k, a_enqueuedAt = now\<rparr>]\<rparr> \<or> pc' = Some (Reset r k) \<and> s' = ?s"
    using g by (simp split: if_splits)
  then have t: "tokens st' x = tokens st x" for x by (auto simp: tokens_def st' p aid_def)
  show ?thesis
  proof (rule replace_inv [OF I p st'])
    show "\<forall>r. queue_wf (s_heap s' r)" "wheel_wf 10000000 65536 (s_wheel s')" using c wf ww by auto
  qed (use c in \<open>auto simp: t timers_def aid_def\<close>)
qed

text \<open>The flag is reset by the one goroutine that holds it.\<close>

lemma unschedule_inv:
  assumes I: "go_inv st" and p: "th_pcs st = xs @ pc # ys" and h: "holds pc = Some (r, k)"
    and s': "s_heap s' = s_heap (on_token r k Unschedule (th_sched st))" "s_active s' = s_active (th_sched st)" "s_wheel s' = s_wheel (th_sched st)"
    and pc': "held pc' = (\<lambda>x. 0)" "wakes pc = None"
    and o: "\<And>x. x \<in> owed \<Longrightarrow> x \<in> th_owed st \<and> (x = (r, k) \<longrightarrow> (\<exists>p. pc' = Some p \<and> drains p = Some x))"
    and st': "st' = \<lparr>th_sched = s', th_env = b', th_pcs = xs @ (case pc' of None \<Rightarrow> [] | Some p \<Rightarrow> [p]) @ ys, th_owed = owed\<rparr>"
  shows "go_inv st'"
proof -
  let ?s = "th_sched st" and ?t = "on_token r k Unschedule (th_sched st)"
  note wf = go_inv_wf [OF I]
  have ww: "wheel_wf 10000000 65536 (s_wheel ?s)" using I by (simp add: go_inv_def)
  have f: "flag s' r' k' = flag ?t r' k'" "wake_of s' r' k' = wake_of ?t r' k'" for r' k' by (simp_all add: flag_def wake_of_def s'(1))
  note F = view_un [OF wf, of r k]
  have T: "timers s' = timers ?s" by (simp add: timers_def s'(3))
  have "0 < tokens st (r, k)" by (simp add: tokens_def p h)
  then have fl: "flag ?s r k" using I by (simp add: go_inv_def split: if_splits)
  have n: "held pc' x = 0" for x using pc'(1) by simp
  have t: "tokens st' x = tokens st x" if "x \<noteq> (r, k)" for x
    using that h n [of x] by (auto simp: tokens_def st' p s'(2) split: option.split)
  have d: "drains pc = None" using h by (cases pc) auto
  show ?thesis
  proof (rule replace_inv [OF I p st'])
    show "\<forall>r. queue_wf (s_heap s' r)" using on_token_wf [OF _ shrinks_tokens(1)] wf by (simp add: s'(1))
    show "wheel_wf 10000000 65536 (s_wheel s')" using ww by (simp add: s'(3))
    show "count_list (map aid (s_active s')) (r', k') + held pc' (r', k') + (if flag ?s r' k' then 1 else 0) =
      count_list (map aid (s_active ?s)) (r', k') + held (Some pc) (r', k') + (if flag s' r' k' then 1 else 0)" for r' k'
      using fl n [of "(r', k')"] by (auto simp: f F s'(2) h)
    show "0 < tokens st' x \<or> (\<exists>p. pc' = Some p \<and> drains p = Some x) \<or> x \<in> th_owed st \<and> tokens st' x = tokens st x \<and> drains pc \<noteq> Some x"
      if "x \<in> owed" for x using o [OF that] t [of x] d by auto
    show "wakeup_of s' r' k' \<in># timers s' \<or> (\<exists>p. pc' = Some p \<and> wakes p = Some (wakeup_of s' r' k'))
      \<or> wake_of s' r' k' = wake_of ?s r' k' \<and> set_mset (timers ?s) \<subseteq> set_mset (timers s') \<and> wakes pc \<noteq> Some (wakeup_of s' r' k')" for r' k'
      by (simp add: f F T pc'(2))
  qed
qed

text \<open>Steps that leave the tokens alone.\<close>

lemma quiet_inv:
  assumes I: "go_inv st" and p: "th_pcs st = xs @ pc # ys"
    and s': "\<forall>r. queue_wf (s_heap s' r)" "\<And>r k. flag s' r k = flag (th_sched st) r k" "\<And>r k. wake_of s' r k = wake_of (th_sched st) r k"
      "s_active s' = s_active (th_sched st)" "s_wheel s' = s_wheel (th_sched st)"
    and pc: "holds pc = None" "held pc' = (\<lambda>x. 0)" "wakes pc = None"
    and o: "owed \<subseteq> th_owed st" "\<And>x. x \<in> owed \<Longrightarrow> drains pc \<noteq> Some x"
    and st': "st' = \<lparr>th_sched = s', th_env = b', th_pcs = xs @ (case pc' of None \<Rightarrow> [] | Some p \<Rightarrow> [p]) @ ys, th_owed = owed\<rparr>"
  shows "go_inv st'"
proof -
  have n: "held pc' x = 0" for x using pc(2) by simp
  have T: "timers s' = timers (th_sched st)" by (simp add: timers_def s'(5))
  have t: "tokens st' x = tokens st x" for x
    using pc(1) n [of x] by (auto simp: tokens_def st' p s'(4) split: option.split)
  show ?thesis
    by (rule replace_inv [OF I p st' s'(1)]) (use I o in \<open>auto simp: go_inv_def s' pc n t T\<close>)
qed

text \<open>The three instructions on wake times.\<close>

lemma wake_inv:
  assumes I: "go_inv st" and p: "th_pcs st = xs @ pc # ys" and pc: "pc = SetW r k cur w \<or> pc = AddT r k w \<or> pc = Clear v"
    and g: "go_step dispatch it rnow now pc (th_sched st, th_env st) = (pc', s', b')"
    and st': "st' = \<lparr>th_sched = s', th_env = b', th_pcs = xs @ (case pc' of None \<Rightarrow> [] | Some p \<Rightarrow> [p]) @ ys, th_owed = th_owed st\<rparr>"
  shows "go_inv st'"
proof -
  let ?s = "th_sched st"
  note wf = go_inv_wf [OF I]
  have ww: "wheel_wf 10000000 65536 (s_wheel ?s)" using I by (simp add: go_inv_def)
  from pc consider (set) x where "pc = SetW r k cur w" "GetGroup (s_heap ?s r) k = Some x" "g_wakeScheduledAt x = cur"
    | (retry) "pc = SetW r k cur w" "s' = ?s" "pc' = None \<or> pc' = Some (LoadW r k w)"
    | (add) "pc = AddT r k w" | (clear) "pc = Clear v"
    using g by (auto simp: TrySetWake_def split: option.splits if_splits)
  then show ?thesis
  proof cases
    case set
    have cur: "cur = wake_of ?s r k" using flag_Some(2) [OF set(2)] set(3) by simp
    let ?t = "on_token r k (\<lambda>g. snd (TrySetWake (wake_of ?s r k) (to_i64 w) g)) ?s"
    have g': "pc' = Some (AddT r k w)" "s' = ?t" using g set cur by (auto simp: TrySetWake_def)
    have F: "flag ?t r' k' = flag ?s r' k'" "wake_of ?t r' k' = (if r' = r \<and> k' = k then to_i64 w else wake_of ?s r' k')" for r' k'
      using view_set [OF wf, of r k "to_i64 w"] set(2) by simp_all
    have t: "tokens st' x = tokens st x" for x by (auto simp: tokens_def st' p g' set(1))
    show ?thesis
    proof (rule replace_inv [OF I p st'])
      show "\<forall>r. queue_wf (s_heap s' r)" using on_token_wf [OF _ shrinks_tokens(3)] wf by (simp add: g')
      show "wheel_wf 10000000 65536 (s_wheel s')" using ww by (simp add: g')
    qed (auto simp: F g' set(1) t timers_def)
  next
    case retry
    then show ?thesis using quiet_inv [OF I p _ _ _ _ _ _ _ _ _ _ st'] wf by (auto simp: held_def fun_eq_iff)
  next
    case add
    let ?w = "\<lparr>wk_q = r, wk_groupKey = k, wk_wakeNs = to_i64 w\<rparr>"
    have g': "pc' = None" "s' = ?s\<lparr>s_wheel := tw_Add now (if w - rnow < 0 then 0 else w - rnow) ?w (s_wheel ?s)\<rparr>" using g add by auto
    have T: "timers s' = add_mset ?w (timers ?s)" "wheel_wf 10000000 65536 (s_wheel s')"
      using tw_Add_contents [OF ww] by (simp_all add: g' timers_def)
    have t: "tokens st' x = tokens st x" for x by (auto simp: tokens_def st' p g' add)
    have e: "flag s' = flag ?s" "wake_of s' = wake_of ?s" "s_active s' = s_active ?s" "s_heap s' = s_heap ?s" by (simp_all add: g')
    show ?thesis
      by (rule replace_inv [OF I p st' _ T(2)]) (use wf in \<open>auto simp: g'(1) T(1) add t e\<close>)
  next
    case clear
    let ?t = "on_token (wk_q v) (wk_groupKey v) (ClearWake (wk_wakeNs v)) ?s"
    have g': "pc' = Some (Claim (wk_q v) (wk_groupKey v))" "s' = ?t" using g clear by auto
    note F = view_clear [OF wf, of "wk_q v" "wk_groupKey v" "wk_wakeNs v"]
    have t: "tokens st' x = tokens st x" for x by (auto simp: tokens_def st' p g' clear)
    show ?thesis
    proof (rule replace_inv [OF I p st'])
      show "\<forall>r. queue_wf (s_heap s' r)" using on_token_wf [OF _ shrinks_tokens(4)] wf by (simp add: g')
      show "wheel_wf 10000000 65536 (s_wheel s')" using ww by (simp add: g')
    qed (auto simp: F g' clear t timers_def split: if_splits)
  qed
qed

lemma heap_inv:
  assumes I: "go_inv st" and p: "th_pcs st = xs @ pc # ys" and q: "steady (s_heap (th_sched st) r) q"
    and pc: "holds pc = None" "held pc' = (\<lambda>x. 0)" "wakes pc = None"
    and o: "owed \<subseteq> th_owed st" "\<And>x. x \<in> owed \<Longrightarrow> drains pc \<noteq> Some x"
    and st': "st' = \<lparr>th_sched = put_queue r q (th_sched st), th_env = b', th_pcs = xs @ (case pc' of None \<Rightarrow> [] | Some p \<Rightarrow> [p]) @ ys, th_owed = owed\<rparr>"
  shows "go_inv st'"
proof (rule quiet_inv [OF I p _ _ _ _ _ pc o st'])
  have "queue_wf q" using q by (simp add: steady_def)
  then show "\<forall>r'. queue_wf (s_heap (put_queue r q (th_sched st)) r')" using go_inv_wf [OF I] by (simp add: put_queue_def)
  show "flag (put_queue r q (th_sched st)) r' k = flag (th_sched st) r' k" "wake_of (put_queue r q (th_sched st)) r' k = wake_of (th_sched st) r' k" for r' k
    using put_queue_view [OF steady_tok(1) [OF q]] by simp_all
qed (simp_all add: put_queue_def)

lemma run_inv:
  assumes I: "go_inv st" and p: "th_pcs st = xs @ pc # ys" and it: "is_range_order it"
    and g: "go_step dispatch it rnow now pc (th_sched st, th_env st) = (pc', s', b')"
    and st': "st' = \<lparr>th_sched = s', th_env = b', th_pcs = xs @ (case pc' of None \<Rightarrow> [] | Some p \<Rightarrow> [p]) @ ys,
      th_owed = owed_after (th_sched st) pc (th_owed st)\<rparr>"
  shows "go_inv st'"
proof (cases pc)
  case (Claim r k)
  show ?thesis by (rule claim_inv [OF I p [unfolded Claim] g [unfolded Claim] st' [unfolded Claim]])
next
  case (Send r k)
  then show ?thesis using send_inv [OF I, of xs r k ys dispatch it rnow now pc' s' b' st'] p g st' by (simp add: owed_after_def)
next
  case (Reset r k)
  then have g': "pc' = None" "s' = on_token r k Unschedule (th_sched st)" using g by auto
  from Reset show ?thesis
    using g' unschedule_inv [OF I p, of r k s' pc' "th_owed st - {(r, k)}" st' b'] st' by (simp add: owed_after_def held_def fun_eq_iff)
next
  case (Took a)
  then have g': "pc' = Some (Drain a now)" "s' = on_token (a_q a) (a_groupKey a) Unschedule (record_latency now a (th_sched st))"
    using g by auto
  have l: "s_heap (record_latency now a s) = s_heap s" "s_active (record_latency now a s) = s_active s"
    "s_wheel (record_latency now a s) = s_wheel s" for s by (simp_all add: record_latency_def Let_def)
  show ?thesis
    using unschedule_inv [OF I p, of "a_q a" "a_groupKey a" s' pc' "th_owed st" st' b'] Took g' st'
    by (simp add: owed_after_def held_def fun_eq_iff aid_def on_token_heap l)
next
  case (Drain a t)
  obtain x q where d: "DrainGroup it (a_groupKey a) t (s_heap (th_sched st) (a_q a)) = (Ret x, q)"
    and st: "steady (s_heap (th_sched st) (a_q a)) q"
    by (rule DrainGroup_steady [OF go_inv_wf [OF I] it])
  obtain ready wakeAt hasWake still where x: "x = (ready, wakeAt, hasWake, still)" by (cases x) auto
  have g': "s' = put_queue (a_q a) q (th_sched st)" "held pc' = (\<lambda>x. 0)" using g Drain d x by (auto simp: held_def)
  show ?thesis by (rule heap_inv [OF I p st, of pc' "th_owed st - {aid a}" st' b']) (use g' Drain st' in \<open>auto simp: owed_after_def\<close>)
next
  case (Deliver a ms nx)
  then have "s' = th_sched st" "held pc' = (\<lambda>x. 0)"
    using g by (cases ms; cases nx; auto simp: held_def split: prod.splits bool.splits)+
  then show ?thesis using quiet_inv [OF I p _ _ _ _ _ _ _ _ _ _ st'] go_inv_wf [OF I] Deliver by (simp add: owed_after_def)
next
  case (Return a ms)
  show ?thesis
  proof (cases ms)
    case Nil
    then have "s' = th_sched st" "held pc' = (\<lambda>x. 0)" using g Return by (auto simp: held_def)
    then show ?thesis using quiet_inv [OF I p _ _ _ _ _ _ _ _ _ _ st'] go_inv_wf [OF I] Return by (simp add: owed_after_def)
  next
    case (Cons m ms')
    have "steady (s_heap (th_sched st) (a_q a)) (ReturnToPending (a_groupKey a) (m_ID m) (s_heap (th_sched st) (a_q a)))"
      by (rule ReturnToPending_steady [OF go_inv_wf [OF I]])
    from heap_inv [OF I p this, of pc' "th_owed st" st' b'] show ?thesis
      using g Return Cons st' by (auto simp: owed_after_def held_def fun_eq_iff)
  qed
next
  case (LoadW r k w)
  then have "s' = th_sched st" "held pc' = (\<lambda>x. 0)" using g by (auto simp: held_def split: option.splits if_splits)
  then show ?thesis using quiet_inv [OF I p _ _ _ _ _ _ _ _ _ _ st'] go_inv_wf [OF I] LoadW by (simp add: owed_after_def)
qed (use wake_inv [OF I p _ g, of _ _ _ _ _ st'] st' in \<open>auto simp: owed_after_def\<close>)

lemma go_reach_inv: "go_reach dispatch st \<Longrightarrow> go_inv st"
proof (induction rule: go_reach.induct)
  case (go_new heap b)
  then have "\<not> flag (NewScheduler heap) r k" "wake_of (NewScheduler heap) r k = 0" for r k
    by (auto simp: flag_def wake_of_def NewScheduler_def tok_def split: option.splits)
  then show ?case using go_new(1)
    by (simp add: go_inv_def tokens_def) (simp add: NewScheduler_def NewTimingWheel_def wheel_wf_def)
next
  case (go_register st r)
  then show ?case by (simp add: go_inv_def tokens_def pending_wakes_def flag_def wake_of_def timers_def RegisterQueue_def)
next
  case (go_unregister st ns n)
  then show ?case by (simp add: go_inv_def tokens_def pending_wakes_def flag_def wake_of_def timers_def UnregisterQueue_def)
next
  case (go_client st r q b)
  let ?st = "st\<lparr>th_sched := put_queue r q (th_sched st), th_env := b\<rparr>"
  have "tokens ?st x = tokens st x" "pending_wakes ?st = pending_wakes st" for x
    by (simp_all add: tokens_def pending_wakes_def timers_def put_queue_def)
  moreover have "queue_wf (s_heap (put_queue r q (th_sched st)) r')" for r'
    using go_client(2) go_inv_wf [OF go_client(3)] by (simp add: put_queue_def client_def)
  moreover have "s_wheel (put_queue r q (th_sched st)) = s_wheel (th_sched st)" by (simp add: put_queue_def)
  ultimately show ?case using go_client(3) by (simp add: go_inv_def client_view [OF go_client(2)])
next
  case (go_call st r k)
  then show ?case by (auto simp: go_inv_def tokens_def pending_wakes_def)
next
  case (go_take st a as)
  then have "tokens (st\<lparr>th_sched := (th_sched st)\<lparr>s_active := as\<rparr>, th_pcs := th_pcs st @ [Took a]\<rparr>) x = tokens st x" for x
    by (simp add: tokens_def)
  then show ?case using go_take by (auto simp: go_inv_def pending_wakes_def timers_def)
next
  case (go_tick st now cbs tw)
  let ?s = "th_sched st"
  let ?st = "st\<lparr>th_sched := ?s\<lparr>s_wheel := tw\<rparr>, th_pcs := th_pcs st @ map Clear cbs\<rparr>"
  note C = tick_contents [OF go_tick(2), of 10000000 65536]
  have w: "wheel_wf 10000000 65536 (s_wheel ?s)" using go_tick by (simp add: go_inv_def)
  have T: "timers ?s = mset cbs + image_mset callback (tasks tw)" using C(2,3) [OF w] by (simp add: timers_def)
  have "tokens ?st x = tokens st x" for x by (simp add: tokens_def filter_empty_conv)
  moreover have "\<exists>p \<in> set (th_pcs ?st). wakes p = Some w" if "w \<in> set cbs" for w
    using that by (intro bexI [of _ "Clear w"]) auto
  then have "pending_wakes st \<subseteq> pending_wakes ?st" unfolding pending_wakes_def T by (auto simp: timers_def)
  ultimately show ?case using go_tick(3) C(1) [OF w] unfolding go_inv_def by auto
next
  case (go_run st xs pc ys it rnow now pc' s' b')
  show ?case by (rule run_inv [OF go_run(5,2,3,4) refl])
qed

text \<open>
  [C21] Activation under interleaving.  Let any number of goroutines of the scheduler and clients of the queues
  run interleaved, instruction by instruction.  Then the flag of a group stands for exactly one token: the group
  waits once in the channel of the workers, or one goroutine is between setting the flag and the send, or
  between the receive and the reset.  A group for which an activation was asked for since its last drain
  began has such a token or a worker about to drain it, so no request is lost, unless the channel was full
  and it was dropped.  And a stored wake time has a timer in the wheel, or a goroutine about to add it or
  running its callback.
\<close>

theorem activation_owed:
  assumes "go_reach dispatch st"
  shows "(\<forall>r k. tokens st (r, k) = (if flag (th_sched st) r k then 1 else 0))
    \<and> (\<forall>x. x \<in> th_owed st \<longrightarrow> 0 < tokens st x \<or> (\<exists>p. p \<in> set (th_pcs st) \<and> drains p = Some x))
    \<and> (\<forall>r k. wake_of (th_sched st) r k \<noteq> 0 \<longrightarrow> wakeup_of (th_sched st) r k \<in> pending_wakes st)"
  using go_reach_inv [OF assms] by (auto simp: go_inv_def)

text \<open>A publisher asks for an activation while a worker is about to drain: its request finds the flag reset.\<close>

definition demo_threads :: "unit threads" where
  "demo_threads = \<lparr>th_sched = NewScheduler (\<lambda>_. single ''k'' demo_waiting), th_env = (), th_pcs = [], th_owed = {}\<rparr>"

lemma demo_threads_reach: "go_reach dispatch demo_threads"
  unfolding demo_threads_def
proof (rule go_new)
  show "queue_wf (single ''k'' demo_waiting)" by (rule single_wf [OF demo_waiting_inv])
  show "tok g = (0, 0)" if "GetGroup (single ''k'' demo_waiting) k = Some g" for k g
    using that by (auto simp: single_get tok_def demo_waiting_def demo_group_def split: if_splits)
qed

lemma demo_claim:
  "\<exists>st. go_reach (dispatch :: unit DispatchFunc) st \<and> (0, ''k'') \<in> th_owed st \<and> th_pcs st = [Send 0 ''k''] \<and> flag (th_sched st) 0 ''k''"
proof -
  let ?h = "\<lambda>_. single ''k'' demo_waiting"
  let ?st = "demo_threads\<lparr>th_pcs := [] @ [Claim 0 ''k'']\<rparr>"
  have r: "go_reach dispatch ?st" using go_call [OF demo_threads_reach, of dispatch 0 "''k''"] by (simp add: demo_threads_def)
  have g: "GetGroup (s_heap (NewScheduler ?h) 0) ''k'' = Some demo_waiting" "g_isScheduled demo_waiting = 0"
    by (simp_all add: NewScheduler_def single_get demo_waiting_def demo_group_def)
  let ?s = "(on_token 0 ''k'' (\<lambda>g. snd (TrySchedule g)) (NewScheduler ?h))\<lparr>s_activationsTotal := s_activationsTotal (NewScheduler ?h) + 1\<rparr>"
  have st: "go_step dispatch rev 0 0 (Claim 0 ''k'') (th_sched ?st, th_env ?st) = (Some (Send 0 ''k''), ?s, ())"
    by (simp add: demo_threads_def g TrySchedule_def)
  have wf: "queue_wf (s_heap (NewScheduler ?h) 0)" using single_wf [OF demo_waiting_inv] by (simp add: NewScheduler_def)
  from go_run [OF r _ is_range_order_rev st, of "[]" "[]"]
  have "go_reach dispatch \<lparr>th_sched = ?s, th_env = (), th_pcs = [Send 0 ''k''], th_owed = {(0, ''k'')}\<rparr>"
    by (simp add: demo_threads_def owed_after_def g)
  moreover have "flag ?s 0 ''k''" using view_try(1) [OF wf, of "''k''" 0 "''k''"] g by simp
  ultimately show ?thesis by force
qed

theorem activation_owed_witness:
  "\<exists>st :: unit threads. go_reach (\<lambda>m b. (True, b)) st \<and> th_pcs st = [Send 0 ''k''] \<and> (0, ''k'') \<in> th_owed st \<and> tokens st (0, ''k'') = 1"
proof -
  obtain st :: "unit threads" where st: "go_reach (\<lambda>m b. (True, b)) st" "(0, ''k'') \<in> th_owed st" "th_pcs st = [Send 0 ''k'']" "flag (th_sched st) 0 ''k''"
    using demo_claim by blast
  then show ?thesis using activation_owed [OF st(1)] by auto
qed

section \<open>Goroutines that run alone\<close>

text \<open>Without interference the instructions of a goroutine, taken to the end, are the functions of \<open>Scheduler\<close>.\<close>

inductive alone :: "'b DispatchFunc \<Rightarrow> (string, message) range_order \<Rightarrow> gtime \<Rightarrow> gtime \<Rightarrow> goroutine option \<Rightarrow> Scheduler \<times> 'b \<Rightarrow> Scheduler \<times> 'b \<Rightarrow> bool"
  for dispatch it rnow now where
  alone_end: "alone dispatch it rnow now None sb sb"
| alone_step: "go_step dispatch it rnow now pc sb = (pc', sb') \<Longrightarrow> alone dispatch it rnow now pc' sb' sb'' \<Longrightarrow>
    alone dispatch it rnow now (Some pc) sb sb''"

lemma Activate_alone: "alone dispatch it rnow now (Some (Claim r k)) (s, b) (Activate now r k s, b)"
proof (cases "k = [] \<or> GetGroup (s_heap s r) k = None \<or> (\<exists>g. GetGroup (s_heap s r) k = Some g \<and> g_isScheduled g \<noteq> 0)")
  case True
  then have "go_step dispatch it rnow now (Claim r k) (s, b) = (None, s, b)" "Activate now r k s = s"
    by (auto simp: TrySchedule_def Activate_def)
  then show ?thesis by (metis alone_end alone_step)
next
  case False
  then obtain g where g: "k \<noteq> []" "GetGroup (s_heap s r) k = Some g" "g_isScheduled g = 0" by auto
  have t: "s_activationsTotal (on_token r k f s) = s_activationsTotal s" for f
    by (simp add: on_token_def put_queue_def split: option.split)
  show ?thesis
    using g by (cases "length (s_active s) < activeCap")
      (auto intro!: alone_step alone_end simp: TrySchedule_def Activate_def Let_def t)
qed

lemma returns_alone:
  "alone dispatch it rnow now (Some (Return a ms)) (s, b)
     (put_queue (a_q a) (fold (\<lambda>m. ReturnToPending (a_groupKey a) (m_ID m)) ms (s_heap s (a_q a))) s, b)"
proof (induction ms arbitrary: s)
  case Nil
  have "put_queue (a_q a) (s_heap s (a_q a)) s = s" by (simp add: put_queue_def)
  then show ?case by (auto intro!: alone_step alone_end)
next
  case (Cons m ms)
  let ?s = "put_queue (a_q a) (ReturnToPending (a_groupKey a) (m_ID m) (s_heap s (a_q a))) s"
  have "alone dispatch it rnow now (Some (Return a ms)) (?s, b)
     (put_queue (a_q a) (fold (\<lambda>m. ReturnToPending (a_groupKey a) (m_ID m)) (m # ms) (s_heap s (a_q a))) s, b)"
    using Cons [of ?s] by (simp add: put_queue_def)
  then show ?case by (auto intro: alone_step)
qed

lemma wake_alone: "alone dispatch it rnow now (Some (LoadW r k w)) (s, b) (scheduleWake rnow now r k w s, b)"
proof (cases "GetGroup (s_heap s r) k")
  case None
  then show ?thesis by (auto intro!: alone_step alone_end simp: scheduleWake_def)
next
  case (Some g)
  show ?thesis
  proof (cases "LoadWake g \<noteq> 0 \<and> LoadWake g \<le> to_i64 w")
    case True
    then show ?thesis using Some by (auto intro!: alone_step alone_end simp: scheduleWake_def Let_def)
  next
    case False
    have "fst (TrySetWake (LoadWake g) (to_i64 w) g)" by (simp add: TrySetWake_def LoadWake_def)
    then have 2: "go_step dispatch it rnow now (SetW r k (LoadWake g) w) (s, b) =
      (Some (AddT r k w), on_token r k (\<lambda>x. snd (TrySetWake (LoadWake g) (to_i64 w) x)) s, b)" using Some by simp
    have 1: "go_step dispatch it rnow now (LoadW r k w) (s, b) = (Some (SetW r k (LoadWake g) w), s, b)" using Some False by auto
    have 3: "go_step dispatch it rnow now (AddT r k w) (on_token r k (\<lambda>x. snd (TrySetWake (LoadWake g) (to_i64 w) x)) s, b) =
      (None, scheduleWake rnow now r k w s, b)" using Some False by (auto simp: scheduleWake_def Let_def)
    show ?thesis by (rule alone_step [OF 1], rule alone_step [OF 2], rule alone_step [OF 3], rule alone_end)
  qed
qed

lemma deliver_alone:
  assumes "deliver dispatch (a_groupKey a) ms (s_heap s (a_q a)) b = (d, q, b')"
  shows "alone dispatch it rnow now (Some (Deliver a ms nx)) (s, b)
    ((if \<not> d then put_queue (a_q a) q s
      else case nx of Wakes w \<Rightarrow> scheduleWake rnow now (a_q a) (a_groupKey a) w s | Again \<Rightarrow> Activate now (a_q a) (a_groupKey a) s | Finished \<Rightarrow> s), b')"
  using assms
proof (induction ms arbitrary: b)
  case Nil
  then have e: "b' = b" and d: d by auto
  have "go_step dispatch it rnow now (Deliver a [] nx) (s, b) = (sequel_pc (a_q a) (a_groupKey a) nx, s, b)" by simp
  moreover have "alone dispatch it rnow now (sequel_pc (a_q a) (a_groupKey a) nx) (s, b)
    (case nx of Wakes w \<Rightarrow> scheduleWake rnow now (a_q a) (a_groupKey a) w s | Again \<Rightarrow> Activate now (a_q a) (a_groupKey a) s | Finished \<Rightarrow> s, b)"
    by (cases nx) (auto intro: wake_alone Activate_alone alone_end)
  ultimately show ?case using d unfolding e by (auto intro: alone_step)
next
  case (Cons m ms)
  obtain ok b1 where m: "dispatch m b = (ok, b1)" by fastforce
  show ?case
  proof (cases ok)
    case True
    then have "deliver dispatch (a_groupKey a) ms (s_heap s (a_q a)) b1 = (d, q, b')" using Cons.prems m by simp
    from Cons.IH [OF this] show ?thesis using m True by (auto intro: alone_step)
  next
    case False
    have "go_step dispatch it rnow now (Deliver a (m # ms) nx) (s, b) = (Some (Return a (m # ms)), s, b1)" using m False by simp
    moreover have "\<not> d" "q = fold (\<lambda>m. ReturnToPending (a_groupKey a) (m_ID m)) (m # ms) (s_heap s (a_q a))" "b' = b1"
      using Cons.prems m False by auto
    ultimately show ?thesis using returns_alone [of dispatch it rnow now a "m # ms" s b1] by (auto intro: alone_step)
  qed
qed

lemma deliver_same: "deliver dispatch k ms q b = (True, q', b') \<Longrightarrow> q' = q"
  by (induction ms arbitrary: b) (auto split: prod.splits bool.splits)

lemma processActivation_alone:
  assumes "processActivation dispatch it rnow now a (s, b) = (res, s', b')"
  shows "alone dispatch it rnow now (Some (Took a)) (s, b) (s', b')"
proof -
  let ?r = "a_q a" and ?k = "a_groupKey a"
  define s1 where "s1 = on_token ?r ?k Unschedule (record_latency now a s)"
  have 1: "go_step dispatch it rnow now (Took a) (s, b) = (Some (Drain a now), s1, b)" by (simp add: s1_def)
  obtain x q where d: "DrainGroup it ?k now (s_heap s1 ?r) = (x, q)" by fastforce
  have "alone dispatch it rnow now (Some (Drain a now)) (s1, b) (s', b')"
  proof (cases x)
    case (Panic e)
    then have "go_step dispatch it rnow now (Drain a now) (s1, b) = (None, s', b')"
      using assms d by (simp add: processActivation_def s1_def [symmetric] Let_def)
    then show ?thesis by (auto intro: alone_step alone_end)
  next
    case (Ret y)
    obtain ready wakeAt hasWake still where y: "y = (ready, wakeAt, hasWake, still)" by (cases y) auto
    let ?ms = "case ready of None \<Rightarrow> [] | Some ms \<Rightarrow> ms" and ?nx = "if hasWake then Wakes wakeAt else if still then Again else Finished"
    let ?s = "put_queue ?r q s1"
    obtain del q2 b2 where dl: "deliver dispatch ?k ?ms q b = (del, q2, b2)" using prod_cases3 by blast
    have h: "s_heap ?s ?r = q" "put_queue ?r q2 ?s = put_queue ?r q2 s1" by (simp_all add: put_queue_def)
    have "(case ready of None \<Rightarrow> (True, q, b) | Some ms \<Rightarrow> deliver dispatch ?k ms q b) = (del, q2, b2)" using dl by (cases ready) auto
    then have s': "s' = (if \<not> del then put_queue ?r q2 s1 else if hasWake then scheduleWake rnow now ?r ?k wakeAt (put_queue ?r q2 s1)
        else if still then Activate now ?r ?k (put_queue ?r q2 s1) else put_queue ?r q2 s1)" "b' = b2"
      using assms d Ret y by (auto simp: processActivation_def s1_def [symmetric] Let_def split: prod.splits)
    have q2: "del \<Longrightarrow> q2 = q" using deliver_same [of dispatch ?k ?ms q b q2 b2] dl by simp
    have "go_step dispatch it rnow now (Drain a now) (s1, b) = (Some (Deliver a ?ms ?nx), ?s, b)" using d Ret y by simp
    moreover have "alone dispatch it rnow now (Some (Deliver a ?ms ?nx)) (?s, b) (s', b')"
      using deliver_alone [of dispatch a ?ms ?s b del q2 b2 it rnow now ?nx] dl q2 unfolding s' by (auto simp: h split: if_splits)
    ultimately show ?thesis by (auto intro: alone_step)
  qed
  with 1 show ?thesis by (auto intro: alone_step)
qed

end
