(* ===== verification/Go_Duration.thy ===== *)
theory Go_Duration
  imports Go_Fs
begin

text \<open>
  \<open>time.ParseDuration\<close> of the standard library, as the management interface uses it for the durations in
  group configurations.  Only the floating-point product for a decimal fraction is an argument:
  \<open>fmul f unit k\<close> is \<open>uint64(float64(f) * (float64(unit) / 10^k))\<close>.
\<close>

text \<open>Leading digits as a number; \<open>None\<close> when it does not fit.\<close>

fun leadingInt :: "nat \<Rightarrow> string \<Rightarrow> (nat \<times> string) option" where
  "leadingInt x [] = Some (x, [])"
| "leadingInt x (c # s) =
     (if \<not> is_digit c then Some (x, c # s)
      else if x > 2 ^ 63 div 10 then None
      else let x = x * 10 + digit_val c in if x > 2 ^ 63 then None else leadingInt x s)"

text \<open>Leading digits of a fraction, with the number of digits used; digits that do not fit are skipped.\<close>

fun leadingFraction :: "bool \<Rightarrow> nat \<Rightarrow> nat \<Rightarrow> string \<Rightarrow> nat \<times> nat \<times> string" where
  "leadingFraction overflow x k [] = (x, k, [])"
| "leadingFraction overflow x k (c # s) =
     (if \<not> is_digit c then (x, k, c # s)
      else if overflow \<or> x > (2 ^ 63 - 1) div 10 then leadingFraction True x k s
      else let y = x * 10 + digit_val c
           in if y > 2 ^ 63 then leadingFraction True x k s else leadingFraction False y (Suc k) s)"

definition unitMap :: "(string \<times> nat) list" where
  "unitMap = [(''ns'', 1), (''us'', 1000), ([CHR 0xC2, CHR 0xB5, CHR ''s''], 1000), ([CHR 0xCE, CHR 0xBC, CHR ''s''], 1000),
     (''ms'', 1000000), (''s'', 1000000000), (''m'', 60000000000), (''h'', 3600000000000)]"

definition in_unit :: "char \<Rightarrow> bool" where
  "in_unit c = (c \<noteq> CHR ''.'' \<and> \<not> is_digit c)"

text \<open>One number with its unit: the amount in nanoseconds and the rest of the text.\<close>

definition parse_unit :: "(nat \<Rightarrow> nat \<Rightarrow> nat \<Rightarrow> nat) \<Rightarrow> string \<Rightarrow> (nat \<times> string) option" where
  "parse_unit fmul s =
     (if s = [] \<or> in_unit (hd s) then None
      else case leadingInt 0 s of
        None \<Rightarrow> None
      | Some (v, s1) \<Rightarrow>
          let (f, k, s2) = (if s1 \<noteq> [] \<and> hd s1 = CHR ''.'' then leadingFraction False 0 0 (tl s1) else (0, 0, s1));
              pre = (length s1 \<noteq> length s);
              post = (s1 \<noteq> [] \<and> hd s1 = CHR ''.'' \<and> length s2 \<noteq> length (tl s1));
              u = takeWhile in_unit s2
          in if \<not> pre \<and> \<not> post then None
             else if u = [] then None
             else case map_of unitMap u of
                    None \<Rightarrow> None
                  | Some unit \<Rightarrow>
                      if v > 2 ^ 63 div unit then None
                      else let v = v * unit;
                               v = (if f > 0 then (v + fmul f unit k) mod 2 ^ 64 else v)
                           in if f > 0 \<and> v > 2 ^ 63 then None else Some (v, dropWhile in_unit s2))"

lemma leadingInt_length: "leadingInt x s = Some (v, s') \<Longrightarrow> length s' \<le> length s"
  by (induction x s rule: leadingInt.induct) (auto simp: Let_def split: if_splits)

lemma leadingFraction_length: "leadingFraction b x k s = (f, j, s') \<Longrightarrow> length s' \<le> length s"
  by (induction b x k s rule: leadingFraction.induct) (auto simp: Let_def split: if_splits)

lemma dropWhile_shorter: "takeWhile P xs \<noteq> [] \<Longrightarrow> length (dropWhile P xs) < length xs"
proof -
  assume "takeWhile P xs \<noteq> []"
  moreover have "length (takeWhile P xs) + length (dropWhile P xs) = length xs"
    by (metis length_append takeWhile_dropWhile_id)
  ultimately show ?thesis by (metis add_less_cancel_right add_0 length_greater_0_conv)
qed

lemma parse_unit_shorter:
  assumes "parse_unit fmul s = Some (v, s')"
  shows "length s' < length s"
proof -
  obtain w s1 where i: "leadingInt 0 s = Some (w, s1)" using assms by (auto simp: parse_unit_def split: if_splits option.splits)
  let ?r = "if s1 \<noteq> [] \<and> hd s1 = CHR ''.'' then leadingFraction False 0 0 (tl s1) else (0, 0, s1)"
  obtain f k s2 where f: "?r = (f, k, s2)" by (metis prod_cases3)
  have "length s2 \<le> length s1" using f leadingFraction_length [of False 0 0 "tl s1" f k s2] by (cases s1) (auto split: if_splits)
  moreover have "length s1 \<le> length s" using leadingInt_length [OF i] .
  moreover have "takeWhile in_unit s2 \<noteq> []" "s' = dropWhile in_unit s2"
    using assms i f by (auto simp: parse_unit_def Let_def split: if_splits option.splits)
  ultimately show ?thesis using dropWhile_shorter [of in_unit s2] by simp
qed

function parse_units :: "(nat \<Rightarrow> nat \<Rightarrow> nat \<Rightarrow> nat) \<Rightarrow> nat \<Rightarrow> string \<Rightarrow> nat option" where
  "parse_units fmul d s =
     (if s = [] then Some d
      else case parse_unit fmul s of
        None \<Rightarrow> None
      | Some (v, s) \<Rightarrow> let d = (d + v) mod 2 ^ 64 in if d > 2 ^ 63 then None else parse_units fmul d s)"
  by pat_completeness auto

termination by (relation "measure (\<lambda>(fmul, d, s). length s)") (auto dest: parse_unit_shorter)

declare parse_units.simps [simp del]

definition ParseDuration :: "(nat \<Rightarrow> nat \<Rightarrow> nat \<Rightarrow> nat) \<Rightarrow> string \<Rightarrow> int option" where
  "ParseDuration fmul s =
     (let neg = (s \<noteq> [] \<and> hd s = CHR ''-'');
          s = (if s \<noteq> [] \<and> (hd s = CHR ''-'' \<or> hd s = CHR ''+'') then tl s else s)
      in if s = ''0'' then Some 0
         else if s = [] then None
         else case parse_units fmul 0 s of
                None \<Rightarrow> None
              | Some d \<Rightarrow> if neg then Some (- int d) else if d > 2 ^ 63 - 1 then None else Some (int d))"

lemma parse_units_bound: "d \<le> 2 ^ 63 \<Longrightarrow> parse_units fmul d s = Some r \<Longrightarrow> r \<le> 2 ^ 63"
proof (induction fmul d s rule: parse_units.induct)
  case (1 fmul d s)
  show ?case
  proof (cases "s = [] \<or> parse_unit fmul s = None")
    case True
    then show ?thesis using 1(2,3) by (auto simp: parse_units.simps [of fmul d s] split: if_splits)
  next
    case False
    then obtain v s' where p: "s \<noteq> []" "parse_unit fmul s = Some (v, s')" by auto
    have le: "\<not> (d + v) mod 2 ^ 64 > 2 ^ 63" and r: "parse_units fmul ((d + v) mod 2 ^ 64) s' = Some r"
      using 1(3) p by (simp_all add: parse_units.simps [of fmul d s] Let_def split: if_splits)
    from 1(1) [OF p refl refl le _ r] le show ?thesis by simp
  qed
qed

lemma ParseDuration_bound: "ParseDuration fmul s = Some d \<Longrightarrow> - (2 ^ 63) \<le> d \<and> d < 2 ^ 63"
  using parse_units_bound [of 0 fmul]
  by (fastforce simp: ParseDuration_def Let_def split: if_splits option.splits)

end
