(* ===== verification/Db_Store.thy ===== *)
theory Db_Store
  imports Auth
begin

text \<open>
  The metadata store (\<^verbatim>\<open>internal/db\<close>: \<^verbatim>\<open>db.go\<close>, \<^verbatim>\<open>errors.go\<close>, \<^verbatim>\<open>users.go\<close>, \<^verbatim>\<open>namespaces.go\<close>, \<^verbatim>\<open>queues.go\<close>).
  A table is the list of its rows; the SQL statements of the code are read as operations on these
  lists, with the \<open>UNIQUE\<close> and \<open>FOREIGN KEY\<close> constraints of the schema.  The engine is not part of
  the repository.  What it decides is an argument: \<open>flt k\<close> is the error of the \<open>k\<close>-th statement of an
  operation, if it fails; \<open>rows\<close> gives the rows that a query delivers, in the engine's order; \<open>now\<close> is
  \<open>CURRENT_TIMESTAMP\<close>; and the store knows whether the engine enforces foreign keys.  Answers of bcrypt
  are arguments too.  A column that holds a JSON list of permissions is represented by the list: these come
  from decoded requests and so are valid UTF-8, which \<open>encoding/json\<close> writes and reads back unchanged.
\<close>

section \<open>Errors\<close>

text \<open>The sentinel errors, each with its text, and any other error.  The quoted argument in a text is left out.\<close>

datatype db_error = DbNotFound string | DbConflict string | DbValidation string | DbForbidden string | DbOther string

fun err_text :: "db_error \<Rightarrow> string" where
  "err_text (DbNotFound t) = t"
| "err_text (DbConflict t) = t"
| "err_text (DbValidation t) = t"
| "err_text (DbForbidden t) = t"
| "err_text (DbOther t) = t"

fun contains :: "string \<Rightarrow> string \<Rightarrow> bool" where
  "contains [] p = (p = [])"
| "contains (c # s) p = (has_prefix (c # s) p \<or> contains s p)"

definition isUniqueViolation :: "string \<Rightarrow> bool" where
  "isUniqueViolation e = contains e ''UNIQUE constraint failed''"

definition isFKViolation :: "string \<Rightarrow> bool" where
  "isFKViolation e = contains e ''FOREIGN KEY constraint failed''"

definition unique_failed :: "string \<Rightarrow> string" where
  "unique_failed column = ''UNIQUE constraint failed: '' @ column"

definition fk_failed :: string where
  "fk_failed = ''FOREIGN KEY constraint failed''"

section \<open>Tables\<close>

record UserRow = User +
  u_ID :: int
  u_PasswordHash :: string
  u_CreatedAt :: string
  u_UpdatedAt :: string

record Namespace =
  ns_ID :: int
  ns_Name :: string
  ns_Config :: string
  ns_CreatedAt :: string
  ns_UpdatedAt :: string

record permRow =
  pr_ID :: int
  pr_User :: int
  pr_Namespace :: int
  pr_Permissions :: "string list"
  pr_CreatedAt :: string

record queueRow =
  qr_ID :: int
  qr_NamespaceID :: int
  qr_Name :: string
  qr_Config :: string
  qr_CreatedAt :: string

record groupRow =
  gr_ID :: int
  gr_QueueID :: int
  gr_Key :: string
  gr_Config :: string
  gr_CreatedAt :: string

text \<open>\<open>tb_seq\<close> is the last identifier that \<open>AUTOINCREMENT\<close> gave out, for every table.\<close>

record Store =
  tb_users :: "UserRow list"
  tb_namespaces :: "Namespace list"
  tb_perms :: "permRow list"
  tb_queues :: "queueRow list"
  tb_groups :: "groupRow list"
  tb_seq :: "string \<Rightarrow> int"
  tb_fk :: bool

definition next_row :: "string \<Rightarrow> Store \<Rightarrow> int" where
  "next_row tab s = tb_seq s tab + 1"

definition bump :: "string \<Rightarrow> Store \<Rightarrow> Store" where
  "bump tab s = s\<lparr>tb_seq := (tb_seq s)(tab := next_row tab s)\<rparr>"

type_synonym faults = "nat \<Rightarrow> string option"

definition no_faults :: faults where
  "no_faults = (\<lambda>_. None)"

section \<open>Namespaces\<close>

definition name_char :: "byte \<Rightarrow> bool" where
  "name_char c = (CHR ''a'' \<le> c \<and> c \<le> CHR ''z'' \<or> CHR ''0'' \<le> c \<and> c \<le> CHR ''9'' \<or> c = CHR ''_'' \<or> c = CHR ''-'')"

definition namePattern :: "string \<Rightarrow> bool" where
  "namePattern s = (s \<noteq> [] \<and> list_all name_char s)"

definition ListNamespaces :: "faults \<Rightarrow> (Namespace list \<Rightarrow> Namespace list) \<Rightarrow> Store \<Rightarrow> db_error + Namespace list" where
  "ListNamespaces flt rows s =
     (case flt 0 of Some e \<Rightarrow> Inl (DbOther e) | None \<Rightarrow> Inr (rows (sort_key ns_Name (tb_namespaces s))))"

definition GetNamespace :: "faults \<Rightarrow> string \<Rightarrow> Store \<Rightarrow> db_error + Namespace" where
  "GetNamespace flt name s =
     (case flt 0 of
        Some e \<Rightarrow> Inl (DbOther e)
      | None \<Rightarrow>
          (case find (\<lambda>n. ns_Name n = name) (tb_namespaces s) of None \<Rightarrow> Inl (DbNotFound ''not found'') | Some n \<Rightarrow> Inr n))"

definition insert_namespace :: "faults \<Rightarrow> string \<Rightarrow> string \<Rightarrow> string \<Rightarrow> Store \<Rightarrow> string + Store" where
  "insert_namespace flt now name config s =
     (case flt 0 of
        Some e \<Rightarrow> Inl e
      | None \<Rightarrow>
          if list_ex (\<lambda>n. ns_Name n = name) (tb_namespaces s) then Inl (unique_failed ''namespaces.name'')
          else Inr ((bump ''namespaces'' s)\<lparr>tb_namespaces := tb_namespaces s @
            [\<lparr>ns_ID = next_row ''namespaces'' s, ns_Name = name, ns_Config = config, ns_CreatedAt = now, ns_UpdatedAt = now\<rparr>]\<rparr>))"

definition CreateNamespace :: "faults \<Rightarrow> string \<Rightarrow> string \<Rightarrow> string \<Rightarrow> Store \<Rightarrow> (db_error + Namespace) \<times> Store" where
  "CreateNamespace flt now name config s =
     (if \<not> namePattern name then (Inl (DbValidation ''validation error: namespace name must match ^[a-z0-9_-]+$''), s)
      else if length name > 64 then (Inl (DbValidation ''validation error: namespace name must be at most 64 characters''), s)
      else case insert_namespace flt now name config s of
        Inl e \<Rightarrow> (Inl (if isUniqueViolation e then DbConflict ''already exists: namespace'' else DbOther e), s)
      | Inr s \<Rightarrow> (GetNamespace (\<lambda>k. flt (Suc k)) name s, s))"

definition UpdateNamespace :: "faults \<Rightarrow> string \<Rightarrow> string \<Rightarrow> string \<Rightarrow> Store \<Rightarrow> (db_error + Namespace) \<times> Store" where
  "UpdateNamespace flt now name config s =
     (case flt 0 of
        Some e \<Rightarrow> (Inl (DbOther e), s)
      | None \<Rightarrow>
          if \<not> list_ex (\<lambda>n. ns_Name n = name) (tb_namespaces s) then (Inl (DbNotFound ''not found''), s)
          else let s = s\<lparr>tb_namespaces := map (\<lambda>n. if ns_Name n = name then n\<lparr>ns_Config := config, ns_UpdatedAt := now\<rparr> else n)
                 (tb_namespaces s)\<rparr>
               in (GetNamespace (\<lambda>k. flt (Suc k)) name s, s))"

text \<open>The rows that \<open>ON DELETE CASCADE\<close> removes with those of another table, where foreign keys are enforced.\<close>

definition cascade :: "Store \<Rightarrow> Store" where
  "cascade s =
     (if \<not> tb_fk s then s
      else let nss = map ns_ID (tb_namespaces s); us = map u_ID (tb_users s);
               qs = filter (\<lambda>q. qr_NamespaceID q \<in> set nss) (tb_queues s)
           in s\<lparr>tb_perms := filter (\<lambda>p. pr_User p \<in> set us \<and> pr_Namespace p \<in> set nss) (tb_perms s), tb_queues := qs,
                tb_groups := filter (\<lambda>g. gr_QueueID g \<in> set (map qr_ID qs)) (tb_groups s)\<rparr>)"

definition DeleteNamespace :: "faults \<Rightarrow> string \<Rightarrow> Store \<Rightarrow> db_error option \<times> Store" where
  "DeleteNamespace flt name s =
     (case flt 0 of
        Some e \<Rightarrow> (Some (DbOther e), s)
      | None \<Rightarrow>
          if \<not> list_ex (\<lambda>n. ns_Name n = name) (tb_namespaces s) then (Some (DbNotFound ''not found''), s)
          else (None, cascade (s\<lparr>tb_namespaces := filter (\<lambda>n. ns_Name n \<noteq> name) (tb_namespaces s)\<rparr>)))"

section \<open>Users\<close>

definition validRoles :: "string list" where
  "validRoles = [''admin'', ''producer'', ''consumer'', ''observer'', ''billing'', ''service'']"

definition invalid_role :: db_error where
  "invalid_role = DbValidation ''validation error: invalid role; must be one of admin, producer, consumer, observer, billing, service''"

definition GetUser :: "faults \<Rightarrow> string \<Rightarrow> Store \<Rightarrow> db_error + UserRow" where
  "GetUser flt username s =
     (case flt 0 of
        Some e \<Rightarrow> Inl (DbOther e)
      | None \<Rightarrow>
          (case find (\<lambda>u. u_Username u = username) (tb_users s) of None \<Rightarrow> Inl (DbNotFound ''not found'') | Some u \<Rightarrow> Inr u))"

text \<open>\<open>matches\<close> is bcrypt's comparison of a stored hash with a password.\<close>

definition CheckPassword :: "faults \<Rightarrow> (string \<Rightarrow> string \<Rightarrow> bool) \<Rightarrow> string \<Rightarrow> string \<Rightarrow> Store \<Rightarrow> bool" where
  "CheckPassword flt matches username password s =
     (case GetUser flt username s of Inl _ \<Rightarrow> False | Inr u \<Rightarrow> matches (u_PasswordHash u) password)"

definition ListUsers :: "faults \<Rightarrow> (UserRow list \<Rightarrow> UserRow list) \<Rightarrow> Store \<Rightarrow> db_error + UserRow list" where
  "ListUsers flt rows s =
     (case flt 0 of
        Some e \<Rightarrow> Inl (DbOther e)
      | None \<Rightarrow> Inr (map (\<lambda>u. u\<lparr>u_PasswordHash := [], u_UpdatedAt := []\<rparr>) (rows (tb_users s))))"

definition insert_user :: "faults \<Rightarrow> string \<Rightarrow> string \<Rightarrow> string \<Rightarrow> string option \<Rightarrow> string \<Rightarrow> Store \<Rightarrow> string + Store" where
  "insert_user flt now username hash email role s =
     (case flt 0 of
        Some e \<Rightarrow> Inl e
      | None \<Rightarrow>
          if list_ex (\<lambda>u. u_Username u = username) (tb_users s) then Inl (unique_failed ''users.username'')
          else Inr ((bump ''users'' s)\<lparr>tb_users := tb_users s @
            [\<lparr>u_Username = username, u_Email = email, u_Role = role, u_ID = next_row ''users'' s, u_PasswordHash = hash,
              u_CreatedAt = now, u_UpdatedAt = now\<rparr>]\<rparr>))"

text \<open>\<open>hashed\<close> is the answer of bcrypt for the new password.\<close>

definition CreateUser ::
  "faults \<Rightarrow> string + string \<Rightarrow> string \<Rightarrow> string \<Rightarrow> string \<Rightarrow> string \<Rightarrow> Store \<Rightarrow> db_error option \<times> Store" where
  "CreateUser flt hashed now username email role s =
     (if role \<notin> set validRoles then (Some invalid_role, s)
      else case hashed of
        Inl e \<Rightarrow> (Some (DbOther e), s)
      | Inr hash \<Rightarrow>
          (case insert_user flt now username hash (Some email) role s of
             Inl e \<Rightarrow> (Some (if isUniqueViolation e then DbConflict ''already exists: username'' else DbOther e), s)
           | Inr s \<Rightarrow> (None, s)))"

text \<open>Deleting a user is two steps, the check and the statement that deletes; other requests may come between them.\<close>

definition admins :: "Store \<Rightarrow> UserRow list" where
  "admins s = filter (\<lambda>u. u_Role u = ''admin'') (tb_users s)"

definition DeleteUser_check :: "faults \<Rightarrow> string \<Rightarrow> Store \<Rightarrow> db_error option" where
  "DeleteUser_check flt username s =
     (case GetUser flt username s of
        Inl _ \<Rightarrow> Some (DbNotFound ''not found'')
      | Inr user \<Rightarrow>
          if u_Role user = ''admin'' then
            (case flt 1 of
               Some e \<Rightarrow> Some (DbOther e)
             | None \<Rightarrow>
                 if length (admins s) \<le> 1 then Some (DbForbidden ''forbidden: cannot delete the last admin user'') else None)
          else None)"

definition DeleteUser_exec :: "faults \<Rightarrow> string \<Rightarrow> Store \<Rightarrow> db_error option \<times> Store" where
  "DeleteUser_exec flt username s =
     (case flt 2 of
        Some e \<Rightarrow> (Some (DbOther e), s)
      | None \<Rightarrow>
          if \<not> list_ex (\<lambda>u. u_Username u = username) (tb_users s) then (Some (DbNotFound ''not found''), s)
          else (None, cascade (s\<lparr>tb_users := filter (\<lambda>u. u_Username u \<noteq> username) (tb_users s)\<rparr>)))"

definition DeleteUser :: "faults \<Rightarrow> string \<Rightarrow> Store \<Rightarrow> db_error option \<times> Store" where
  "DeleteUser flt username s =
     (case DeleteUser_check flt username s of Some e \<Rightarrow> (Some e, s) | None \<Rightarrow> DeleteUser_exec flt username s)"

definition set_user :: "string \<Rightarrow> string \<Rightarrow> (UserRow \<Rightarrow> UserRow) \<Rightarrow> Store \<Rightarrow> Store" where
  "set_user now username f s =
     s\<lparr>tb_users := map (\<lambda>u. if u_Username u = username then (f u)\<lparr>u_UpdatedAt := now\<rparr> else u) (tb_users s)\<rparr>"

text \<open>The statements of the transaction; an error rolls all of them back.\<close>

definition UpdateUser_tx ::
  "faults \<Rightarrow> string + string \<Rightarrow> string \<Rightarrow> string \<Rightarrow> string option \<Rightarrow> string option \<Rightarrow> string option \<Rightarrow> Store \<Rightarrow> db_error + Store" where
  "UpdateUser_tx flt hashed now username email role password s =
     (let stmt = (\<lambda>k v f r. case r of Inl e \<Rightarrow> Inl e
            | Inr s \<Rightarrow> (case v of None \<Rightarrow> Inr s | Some x \<Rightarrow>
                (case flt k of Some e \<Rightarrow> Inl (DbOther e) | None \<Rightarrow> Inr (set_user now username (f x) s)))) in
      let r = stmt 2 email (\<lambda>x u. u\<lparr>u_Email := Some x\<rparr>) (Inr s);
          r = stmt 3 role (\<lambda>x u. u\<lparr>u_Role := x\<rparr>) r
      in case (r, password) of
           (Inl e, _) \<Rightarrow> Inl e
         | (Inr s, None) \<Rightarrow> Inr s
         | (Inr s, Some _) \<Rightarrow>
             (case hashed of Inl e \<Rightarrow> Inl (DbOther e) | Inr h \<Rightarrow> stmt 4 (Some h) (\<lambda>x u. u\<lparr>u_PasswordHash := x\<rparr>) (Inr s)))"

definition UpdateUser ::
  "faults \<Rightarrow> string + string \<Rightarrow> string \<Rightarrow> string \<Rightarrow> string option \<Rightarrow> string option \<Rightarrow> string option \<Rightarrow> Store \<Rightarrow> db_error option \<times> Store" where
  "UpdateUser flt hashed now username email role password s =
     (if (case role of Some r \<Rightarrow> r \<notin> set validRoles | None \<Rightarrow> False) then (Some invalid_role, s)
      else case flt 0 of
        Some e \<Rightarrow> (Some (DbOther e), s)
      | None \<Rightarrow>
          (case flt 1 of
             Some e \<Rightarrow> (Some (DbOther e), s)
           | None \<Rightarrow>
               if \<not> list_ex (\<lambda>u. u_Username u = username) (tb_users s) then (Some (DbNotFound ''not found''), s)
               else case UpdateUser_tx flt hashed now username email role password s of
                 Inl e \<Rightarrow> (Some e, s)
               | Inr s' \<Rightarrow> (case flt 5 of Some e \<Rightarrow> (Some (DbOther e), s) | None \<Rightarrow> (None, s'))))"

section \<open>Permissions of users in namespaces\<close>

text \<open>The join delivers the name of the namespace and the permissions for every row of the user.\<close>

definition perm_join :: "int \<Rightarrow> Store \<Rightarrow> (string \<times> string list) list" where
  "perm_join uid s =
     concat (map (\<lambda>p. if pr_User p = uid
       then map (\<lambda>n. (ns_Name n, pr_Permissions p)) (filter (\<lambda>n. ns_ID n = pr_Namespace p) (tb_namespaces s)) else []) (tb_perms s))"

definition GetUserNamespacePermissionsByUsername ::
  "faults \<Rightarrow> ((string \<times> string list) list \<Rightarrow> (string \<times> string list) list) \<Rightarrow> string \<Rightarrow> Store \<Rightarrow> db_error + (string, string list) gomap" where
  "GetUserNamespacePermissionsByUsername flt rows username s =
     (case GetUser flt username s of
        Inl e \<Rightarrow> Inl e
      | Inr user \<Rightarrow>
          (case flt 1 of
             Some e \<Rightarrow> Inl (DbOther e)
           | None \<Rightarrow> Inr (fold (\<lambda>(n, perms). gm_put n perms) (rows (perm_join (u_ID user) s)) [])))"

definition GetUserNamespacePermissions ::
  "faults \<Rightarrow> (permRow list \<Rightarrow> permRow list) \<Rightarrow> int \<Rightarrow> Store \<Rightarrow> db_error + (int, string list) gomap" where
  "GetUserNamespacePermissions flt rows uid s =
     (case flt 0 of
        Some e \<Rightarrow> Inl (DbOther e)
      | None \<Rightarrow> Inr (fold (\<lambda>p. gm_put (pr_Namespace p) (pr_Permissions p)) (rows (filter (\<lambda>p. pr_User p = uid) (tb_perms s))) []))"

definition SetUserNamespacePermissions :: "faults \<Rightarrow> string \<Rightarrow> int \<Rightarrow> int \<Rightarrow> string list \<Rightarrow> Store \<Rightarrow> db_error option \<times> Store" where
  "SetUserNamespacePermissions flt now uid nid perms s =
     (case flt 0 of
        Some e \<Rightarrow> (Some (DbOther e), s)
      | None \<Rightarrow>
          if tb_fk s \<and> (uid \<notin> u_ID ` set (tb_users s) \<or> nid \<notin> ns_ID ` set (tb_namespaces s)) then (Some (DbOther fk_failed), s)
          else (None, (bump ''user_namespace_permissions'' s)\<lparr>tb_perms :=
            filter (\<lambda>p. \<not> (pr_User p = uid \<and> pr_Namespace p = nid)) (tb_perms s) @
            [\<lparr>pr_ID = next_row ''user_namespace_permissions'' s, pr_User = uid, pr_Namespace = nid, pr_Permissions = perms,
              pr_CreatedAt = now\<rparr>]\<rparr>))"

definition SetUserNamespacePermissionsByName ::
  "faults \<Rightarrow> string \<Rightarrow> string \<Rightarrow> string \<Rightarrow> string list \<Rightarrow> Store \<Rightarrow> db_error option \<times> Store" where
  "SetUserNamespacePermissionsByName flt now username namespaceName perms s =
     (case GetUser flt username s of
        Inl e \<Rightarrow> (Some e, s)
      | Inr user \<Rightarrow>
          (case GetNamespace (\<lambda>k. flt (k + 1)) namespaceName s of
             Inl e \<Rightarrow> (Some e, s)
           | Inr n \<Rightarrow> SetUserNamespacePermissions (\<lambda>k. flt (k + 2)) now (u_ID user) (ns_ID n) perms s))"

section \<open>Queues and group configurations\<close>

definition queueNamePattern :: "string \<Rightarrow> bool" where
  "queueNamePattern s = (s \<noteq> [] \<and> list_all name_char s)"

definition groupKeyPattern :: "string \<Rightarrow> bool" where
  "groupKeyPattern s = (s \<noteq> [] \<and> list_all (\<lambda>c. name_char c \<or> c = CHR ''*'') s)"

definition db_ListQueues :: "faults \<Rightarrow> (queueRow list \<Rightarrow> queueRow list) \<Rightarrow> int \<Rightarrow> Store \<Rightarrow> db_error + queueRow list" where
  "db_ListQueues flt rows nsID s =
     (case flt 0 of
        Some e \<Rightarrow> Inl (DbOther e)
      | None \<Rightarrow> Inr (rows (sort_key qr_Name (filter (\<lambda>q. qr_NamespaceID q = nsID) (tb_queues s)))))"

definition GetQueueByName :: "faults \<Rightarrow> int \<Rightarrow> string \<Rightarrow> Store \<Rightarrow> db_error + queueRow" where
  "GetQueueByName flt nsID name s =
     (case flt 0 of
        Some e \<Rightarrow> Inl (DbOther e)
      | None \<Rightarrow>
          (case find (\<lambda>q. qr_NamespaceID q = nsID \<and> qr_Name q = name) (tb_queues s) of
             None \<Rightarrow> Inl (DbNotFound ''not found'')
           | Some q \<Rightarrow> Inr q))"

definition insert_queue :: "faults \<Rightarrow> string \<Rightarrow> int \<Rightarrow> string \<Rightarrow> string \<Rightarrow> Store \<Rightarrow> string + Store" where
  "insert_queue flt now nsID name config s =
     (case flt 0 of
        Some e \<Rightarrow> Inl e
      | None \<Rightarrow>
          if list_ex (\<lambda>q. qr_NamespaceID q = nsID \<and> qr_Name q = name) (tb_queues s)
          then Inl (unique_failed ''queues.namespace_id, queues.name'')
          else if tb_fk s \<and> nsID \<notin> ns_ID ` set (tb_namespaces s) then Inl fk_failed
          else Inr ((bump ''queues'' s)\<lparr>tb_queues := tb_queues s @
            [\<lparr>qr_ID = next_row ''queues'' s, qr_NamespaceID = nsID, qr_Name = name, qr_Config = config, qr_CreatedAt = now\<rparr>]\<rparr>))"

text \<open>The row is read back at the end; an error there is ignored and leaves the zero value.\<close>

definition zero_queue :: queueRow where
  "zero_queue = \<lparr>qr_ID = 0, qr_NamespaceID = 0, qr_Name = [], qr_Config = [], qr_CreatedAt = []\<rparr>"

definition CreateQueue :: "faults \<Rightarrow> string \<Rightarrow> int \<Rightarrow> string \<Rightarrow> string \<Rightarrow> Store \<Rightarrow> (db_error + queueRow) \<times> Store" where
  "CreateQueue flt now nsID name config s =
     (if \<not> queueNamePattern name then (Inl (DbValidation ''validation error: queue name must match ^[a-z0-9_-]+$''), s)
      else if length name > 128 then (Inl (DbValidation ''validation error: queue name must be at most 128 characters''), s)
      else case insert_queue flt now nsID name config s of
        Inl e \<Rightarrow>
          (Inl (if isUniqueViolation e then DbConflict ''already exists: queue already exists in this namespace''
            else if isFKViolation e then DbNotFound ''not found: namespace does not exist'' else DbOther e), s)
      | Inr s' \<Rightarrow>
          (Inr (case flt 1 of Some _ \<Rightarrow> zero_queue
             | None \<Rightarrow> (case find (\<lambda>q. qr_ID q = next_row ''queues'' s) (tb_queues s') of Some q \<Rightarrow> q | None \<Rightarrow> zero_queue)), s'))"

definition db_DeleteQueue :: "faults \<Rightarrow> int \<Rightarrow> string \<Rightarrow> Store \<Rightarrow> db_error option \<times> Store" where
  "db_DeleteQueue flt nsID name s =
     (case flt 0 of
        Some e \<Rightarrow> (Some (DbOther e), s)
      | None \<Rightarrow>
          if \<not> list_ex (\<lambda>q. qr_NamespaceID q = nsID \<and> qr_Name q = name) (tb_queues s) then (Some (DbNotFound ''not found''), s)
          else (None, cascade (s\<lparr>tb_queues := filter (\<lambda>q. \<not> (qr_NamespaceID q = nsID \<and> qr_Name q = name)) (tb_queues s)\<rparr>)))"

definition ListGroups :: "faults \<Rightarrow> (groupRow list \<Rightarrow> groupRow list) \<Rightarrow> int \<Rightarrow> Store \<Rightarrow> db_error + groupRow list" where
  "ListGroups flt rows qID s =
     (case flt 0 of
        Some e \<Rightarrow> Inl (DbOther e)
      | None \<Rightarrow> Inr (rows (sort_key gr_Key (filter (\<lambda>g. gr_QueueID g = qID) (tb_groups s)))))"

definition upsert_group :: "faults \<Rightarrow> string \<Rightarrow> int \<Rightarrow> string \<Rightarrow> string \<Rightarrow> Store \<Rightarrow> string + Store" where
  "upsert_group flt now qID key config s =
     (case flt 0 of
        Some e \<Rightarrow> Inl e
      | None \<Rightarrow>
          if list_ex (\<lambda>g. gr_QueueID g = qID \<and> gr_Key g = key) (tb_groups s)
          then Inr (s\<lparr>tb_groups := map (\<lambda>g. if gr_QueueID g = qID \<and> gr_Key g = key then g\<lparr>gr_Config := config\<rparr> else g) (tb_groups s)\<rparr>)
          else if tb_fk s \<and> qID \<notin> qr_ID ` set (tb_queues s) then Inl fk_failed
          else Inr ((bump ''groups'' s)\<lparr>tb_groups := tb_groups s @
            [\<lparr>gr_ID = next_row ''groups'' s, gr_QueueID = qID, gr_Key = key, gr_Config = config, gr_CreatedAt = now\<rparr>]\<rparr>))"

definition UpsertGroupConfig :: "faults \<Rightarrow> string \<Rightarrow> int \<Rightarrow> string \<Rightarrow> string \<Rightarrow> Store \<Rightarrow> db_error option \<times> Store" where
  "UpsertGroupConfig flt now qID key config s =
     (if \<not> groupKeyPattern key then (Some (DbValidation ''validation error: group key must match ^[a-z0-9_*-]+$''), s)
      else case upsert_group flt now qID key config s of
        Inl e \<Rightarrow> (Some (if isFKViolation e then DbNotFound ''not found: queue does not exist'' else DbOther e), s)
      | Inr s \<Rightarrow> (None, s))"

definition db_DeleteGroupConfig :: "faults \<Rightarrow> int \<Rightarrow> string \<Rightarrow> Store \<Rightarrow> db_error option \<times> Store" where
  "db_DeleteGroupConfig flt qID key s =
     (case flt 0 of
        Some e \<Rightarrow> (Some (DbOther e), s)
      | None \<Rightarrow>
          if \<not> list_ex (\<lambda>g. gr_QueueID g = qID \<and> gr_Key g = key) (tb_groups s) then (Some (DbNotFound ''not found''), s)
          else (None, s\<lparr>tb_groups := filter (\<lambda>g. \<not> (gr_QueueID g = qID \<and> gr_Key g = key)) (tb_groups s)\<rparr>))"

section \<open>The first start\<close>

text \<open>
  \<open>seedDefaultData\<close>: a count whose query fails keeps the value the variable had.  \<open>hashed\<close> is the answer of
  bcrypt for the configured password, or for \<^verbatim>\<open>admin\<close> when none is configured.  The second component of a
  result says whether the administrator was created (\<open>adminCreated\<close>).
\<close>

definition seedDefaultData ::
  "faults \<Rightarrow> string + string \<Rightarrow> string \<Rightarrow> string \<Rightarrow> Store \<Rightarrow> (string option \<times> bool) \<times> Store" where
  "seedDefaultData flt hashed now adminName s =
     (let count = (case flt 0 of Some _ \<Rightarrow> 0 | None \<Rightarrow> length (tb_namespaces s));
          s = (if count = 0 then case insert_namespace (\<lambda>_. flt 1) now ''main'' ''{}'' s of Inl _ \<Rightarrow> s | Inr s \<Rightarrow> s else s);
          count = (case flt 2 of Some _ \<Rightarrow> count | None \<Rightarrow> length (tb_users s))
      in if count = 0 then
           (case hashed of
              Inl e \<Rightarrow> ((Some (''hash default admin password: '' @ e), False), s)
            | Inr hash \<Rightarrow>
                (case insert_user (\<lambda>_. flt 3) now (if adminName = [] then ''admin'' else adminName) hash None ''admin'' s of
                   Inl e \<Rightarrow> ((Some (''create default admin user: '' @ e), False), s)
                 | Inr s \<Rightarrow> ((None, True), s)))
         else ((None, False), s))"

text \<open>The schema consists of 17 statements that create what is not there yet.\<close>

definition store_init ::
  "faults \<Rightarrow> string + string \<Rightarrow> string \<Rightarrow> string \<Rightarrow> Store \<Rightarrow> (string option \<times> bool) \<times> Store" where
  "store_init flt hashed now adminName s =
     (case find (\<lambda>k. flt k \<noteq> None) [0..<17] of
        Some k \<Rightarrow> ((Some (''init schema: '' @ the (flt k)), False), s)
      | None \<Rightarrow> seedDefaultData (\<lambda>k. flt (k + 17)) hashed now adminName s)"

definition emptyStore :: "bool \<Rightarrow> Store" where
  "emptyStore fk = \<lparr>tb_users = [], tb_namespaces = [], tb_perms = [], tb_queues = [], tb_groups = [], tb_seq = (\<lambda>_. 0), tb_fk = fk\<rparr>"

section \<open>The store as the password provider sees it\<close>

definition store_userdb :: "faults \<Rightarrow> (string \<Rightarrow> string \<Rightarrow> bool) \<Rightarrow> Store \<Rightarrow> userdb" where
  "store_userdb flt matches s =
     \<lparr>db_CheckPassword = (\<lambda>u p. CheckPassword flt matches u p s),
      db_GetUser = (\<lambda>u. case GetUser (\<lambda>k. flt (Suc k)) u s of Inl _ \<Rightarrow> None | Inr r \<Rightarrow> Some (User.truncate r))\<rparr>"

end
