(* ===== verification/Api_Queues.thy ===== *)
theory Api_Queues
  imports Broker Go_Duration Db_Store
begin

text \<open>
  The management operations on queues (\<^verbatim>\<open>internal/api/v1/queues.go\<close>, with \<^verbatim>\<open>errors.go\<close> and the identity check of
  \<^verbatim>\<open>middleware.go\<close>).  The answers of the database are arguments of the operations that ask it; the HTTP
  framework has decoded the request.  A response is the body or an error with its status.
\<close>

section \<open>Errors\<close>

datatype http_error = Status nat string | AsIs string

fun dbError :: "db_error \<Rightarrow> string \<Rightarrow> http_error" where
  "dbError (DbNotFound t) resource = Status 404 (resource @ '' not found'')"
| "dbError (DbConflict t) resource = Status 409 t"
| "dbError (DbValidation t) resource = Status 422 t"
| "dbError (DbForbidden t) resource = Status 403 t"
| "dbError (DbOther t) resource = AsIs t"

definition requireAuth :: "Identity option \<Rightarrow> http_error + Identity" where
  "requireAuth who = (case who of None \<Rightarrow> Inl (Status 401 ''unauthorized'') | Some i \<Rightarrow> Inr i)"

section \<open>Views and inputs\<close>

record queueSummary =
  qv_Name :: string
  qv_Namespace :: string
  qv_ActiveGroups :: nat
  qv_ConfigCount :: nat

record queueDetail = queueSummary +
  qv_Durable :: bool

definition toQueueDetail :: "Queue \<Rightarrow> bool \<Rightarrow> queueDetail" where
  "toQueueDetail q durable =
     \<lparr>qv_Name = q_Name q, qv_Namespace = q_Namespace q, qv_ActiveGroups = GroupCount q, qv_ConfigCount = ConfigCount q,
      qv_Durable = durable\<rparr>"

record rateLimitInput =
  rli_Max :: int
  rli_Window :: string

record retryInput =
  rei_MaxAttempts :: int
  rei_Backoff :: string
  rei_InitialDelay :: string
  rei_MaxDelay :: string

record dlqInput =
  di_Enabled :: bool
  di_Queue :: string

record groupConfigInput =
  gi_Parallelism :: int
  gi_Quantum :: int
  gi_LeaseTimeout :: string
  gi_RateLimit :: "rateLimitInput option"
  gi_Retry :: "retryInput option"
  gi_DLQ :: "dlqInput option"

section \<open>Group configurations\<close>

text \<open>A duration field; an empty text stands for the default.\<close>

definition duration_field :: "(nat \<Rightarrow> nat \<Rightarrow> nat \<Rightarrow> nat) \<Rightarrow> string \<Rightarrow> string \<Rightarrow> duration \<Rightarrow> string + duration" where
  "duration_field fmul name s dflt =
     (if s = [] then Inr dflt else case ParseDuration fmul s of None \<Rightarrow> Inl name | Some d \<Rightarrow> Inr d)"

definition to_rate_limit :: "(nat \<Rightarrow> nat \<Rightarrow> nat \<Rightarrow> nat) \<Rightarrow> rateLimitInput option \<Rightarrow> string + RateLimitConfig option" where
  "to_rate_limit fmul r =
     (case r of
        None \<Rightarrow> Inr None
      | Some r \<Rightarrow>
          (case ParseDuration fmul (rli_Window r) of
             None \<Rightarrow> Inl ''rate_limit.window''
           | Some window \<Rightarrow> Inr (Some \<lparr>rl_Max = rli_Max r, rl_Window = window\<rparr>)))"

definition to_retry :: "(nat \<Rightarrow> nat \<Rightarrow> nat \<Rightarrow> nat) \<Rightarrow> retryInput option \<Rightarrow> string + RetryConfig" where
  "to_retry fmul r =
     (let initial = 1000000000; maximal = 300000000000 in
      case r of
        None \<Rightarrow> Inr \<lparr>rt_MaxAttempts = 3, rt_Backoff = ''exponential'', rt_InitialDelay = initial, rt_MaxDelay = maximal\<rparr>
      | Some r \<Rightarrow>
          (case duration_field fmul ''retry.initial_delay'' (rei_InitialDelay r) initial of
             Inl e \<Rightarrow> Inl e
           | Inr d \<Rightarrow>
               (case duration_field fmul ''retry.max_delay'' (rei_MaxDelay r) maximal of
                  Inl e \<Rightarrow> Inl e
                | Inr m \<Rightarrow>
                    Inr \<lparr>rt_MaxAttempts = rei_MaxAttempts r, rt_Backoff = rei_Backoff r, rt_InitialDelay = d, rt_MaxDelay = m\<rparr>)))"

definition to_dlq :: "dlqInput option \<Rightarrow> string + DLQConfig option" where
  "to_dlq d =
     (case d of
        None \<Rightarrow> Inr None
      | Some d \<Rightarrow>
          if di_Enabled d \<and> di_Queue d = [] then Inl ''dlq.queue is required when dlq.enabled is true''
          else Inr (Some \<lparr>dlq_Enabled = di_Enabled d, dlq_Queue = di_Queue d\<rparr>))"

text \<open>An error is given by the field it is about; the text of the parser's error is left out.\<close>

definition toGroupConfig :: "(nat \<Rightarrow> nat \<Rightarrow> nat \<Rightarrow> nat) \<Rightarrow> string \<Rightarrow> groupConfigInput \<Rightarrow> string + GroupConfig" where
  "toGroupConfig fmul key inp =
     (case duration_field fmul ''lease_timeout'' (gi_LeaseTimeout inp) 300000000000 of
        Inl e \<Rightarrow> Inl e
      | Inr leaseTimeout \<Rightarrow>
          (case to_rate_limit fmul (gi_RateLimit inp) of
             Inl e \<Rightarrow> Inl e
           | Inr rl \<Rightarrow>
               (case to_retry fmul (gi_Retry inp) of
                  Inl e \<Rightarrow> Inl e
                | Inr retry \<Rightarrow>
                    (case to_dlq (gi_DLQ inp) of
                       Inl e \<Rightarrow> Inl e
                     | Inr dlq \<Rightarrow>
                         Inr \<lparr>c_Key = key,
                              c_Parallelism = (if gi_Parallelism inp \<le> 0 then 1 else gi_Parallelism inp),
                              c_Quantum = (if gi_Quantum inp \<le> 0 then 1 else gi_Quantum inp),
                              c_LeaseTimeout = leaseTimeout, c_RateLimit = rl, c_Retry = retry, c_DLQ = dlq, c_MaxPending = 0\<rparr>))))"

section \<open>Operations\<close>

datatype api_body =
    Summaries "queueSummary list"
  | Detail queueDetail
  | NoContent
  | Accepted_msg string
  | StatsPage "GroupStats list" string
  | StatsOf GroupStats
  | ConfigsPage "GroupConfig list" string
  | ConfigOf GroupConfig

type_synonym api_result = "(http_error + api_body) \<times> Broker"

text \<open>Every operation starts with the check for an identity, and those on one queue with the search for it.\<close>

definition authed :: "Identity option \<Rightarrow> (Broker \<Rightarrow> api_result) \<Rightarrow> Broker \<Rightarrow> api_result" where
  "authed who f b = (case requireAuth who of Inl e \<Rightarrow> (Inl e, b) | Inr _ \<Rightarrow> f b)"

definition on_queue :: "string \<Rightarrow> string \<Rightarrow> (qref \<Rightarrow> Broker \<Rightarrow> api_result) \<Rightarrow> Broker \<Rightarrow> api_result" where
  "on_queue ns name f b =
     (case sch_GetQueue ns name (b_Scheduler b) of None \<Rightarrow> (Inl (Status 404 ''queue not found''), b) | Some r \<Rightarrow> f r b)"

definition list_queues :: "Identity option \<Rightarrow> (string, qref) range_order \<Rightarrow> Broker \<Rightarrow> api_result" where
  "list_queues who it = authed who (\<lambda>b.
     (Inr (Summaries (map (\<lambda>r. let q = b_queue r b in
        \<lparr>qv_Name = q_Name q, qv_Namespace = q_Namespace q, qv_ActiveGroups = GroupCount q, qv_ConfigCount = ConfigCount q\<rparr>)
        (ListQueues it (b_Scheduler b)))), b))"

text \<open>
  \<open>nsRes\<close> and \<open>created\<close> are the answers of \<open>GetNamespace\<close> and \<open>CreateQueue\<close>; the new queue object is allocated at
  \<open>fresh\<close>, a reference that no other queue has.
\<close>

definition declare_queue ::
  "Identity option \<Rightarrow> db_error + int \<Rightarrow> db_error + int \<Rightarrow> qref \<Rightarrow> string \<Rightarrow> string \<Rightarrow> bool option \<Rightarrow> Broker \<Rightarrow> api_result" where
  "declare_queue who nsRes created fresh ns name dur = authed who (\<lambda>b.
      if sch_GetQueue ns name (b_Scheduler b) \<noteq> None then (Inl (Status 409 ''queue already exists''), b)
      else case nsRes of
        Inl e \<Rightarrow> (Inl (dbError e ''namespace''), b)
      | Inr nsID \<Rightarrow>
          let durable = (case dur of None \<Rightarrow> DefaultDurable (b_WAL b) | Some d \<Rightarrow> d)
          in case created of
               Inl e \<Rightarrow> (Inl (dbError e ''queue''), b)
             | Inr _ \<Rightarrow>
                 let b = set_queue fresh (NewQueue name ns) b;
                     b = b\<lparr>b_Scheduler := RegisterQueue fresh (b_Scheduler b),
                           b_WAL := SetQueueDurable ns name durable (RegisterQueueState ns name (b_WAL b))\<rparr>
                 in (Inr (Detail (toQueueDetail (b_queue fresh b) durable)), b))"

definition get_queue :: "Identity option \<Rightarrow> string \<Rightarrow> string \<Rightarrow> Broker \<Rightarrow> api_result" where
  "get_queue who ns name = authed who (on_queue ns name (\<lambda>r b.
     (Inr (Detail (toQueueDetail (b_queue r b) (QueueDurable ns name (b_WAL b)))), b)))"

text \<open>An error of \<open>GetNamespace\<close> is passed over; an error of \<open>DestroyQueue\<close> is only logged, and
  the answers to publishers that wait for the log are not part of the response.\<close>

definition delete_queue ::
  "Identity option \<Rightarrow> db_error + int \<Rightarrow> db_error option \<Rightarrow> (nat \<Rightarrow> walio) \<Rightarrow> (oserr \<times> dirents) option \<Rightarrow> string \<Rightarrow> string \<Rightarrow> Broker \<Rightarrow> api_result" where
  "delete_queue who nsRes deleted ios rm ns name = authed who (on_queue ns name (\<lambda>r b.
     case (nsRes, deleted) of
       (Inr nsID, Some e) \<Rightarrow> (Inl (dbError e ''queue''), b)
     | _ \<Rightarrow> (Inr NoContent, b\<lparr>b_Scheduler := UnregisterQueue ns name (b_Scheduler b),
                              b_WAL := snd (snd (DestroyQueue ios rm ns name (b_WAL b)))\<rparr>)))"

text \<open>The snapshot itself runs in a goroutine of its own.\<close>

definition trigger_snapshot :: "Identity option \<Rightarrow> string \<Rightarrow> string \<Rightarrow> Broker \<Rightarrow> api_result" where
  "trigger_snapshot who ns name = authed who (on_queue ns name (\<lambda>r b. (Inr (Accepted_msg ''snapshot triggered''), b)))"

definition queue_stats :: "Identity option \<Rightarrow> string \<Rightarrow> string \<Rightarrow> string \<Rightarrow> int \<Rightarrow> Broker \<Rightarrow> api_result" where
  "queue_stats who ns name after limit = authed who (on_queue ns name (\<lambda>r b.
     let (groups, nxt) = PageGroupStats (b_queue r b) after (if limit \<le> 0 then 100 else limit) in (Inr (StatsPage groups nxt), b)))"

definition group_stats :: "Identity option \<Rightarrow> string \<Rightarrow> string \<Rightarrow> string \<Rightarrow> Broker \<Rightarrow> api_result" where
  "group_stats who ns name key = authed who (on_queue ns name (\<lambda>r b.
     (Inr (StatsOf (case GetGroupStats (b_queue r b) key of
        Some st \<Rightarrow> st | None \<Rightarrow> \<lparr>st_Key = key, st_Pending = 0, st_Processing = 0\<rparr>)), b)))"

definition list_configs :: "Identity option \<Rightarrow> string \<Rightarrow> string \<Rightarrow> string \<Rightarrow> int \<Rightarrow> Broker \<Rightarrow> api_result" where
  "list_configs who ns name after limit = authed who (on_queue ns name (\<lambda>r b.
     let (configs, nxt) = PageGroupConfigs (b_queue r b) after (if limit \<le> 0 then 100 else limit) in (Inr (ConfigsPage configs nxt), b)))"

text \<open>Errors of the database after the change in memory are passed over.\<close>

definition set_config :: "Identity option \<Rightarrow> (nat \<Rightarrow> nat \<Rightarrow> nat \<Rightarrow> nat) \<Rightarrow> string \<Rightarrow> string \<Rightarrow> string \<Rightarrow> groupConfigInput \<Rightarrow> Broker \<Rightarrow> api_result" where
  "set_config who fmul ns name key inp = authed who (on_queue ns name (\<lambda>r b.
     case toGroupConfig fmul key inp of
       Inl e \<Rightarrow> (Inl (Status 422 e), b)
     | Inr cfg \<Rightarrow> (Inr (ConfigOf cfg), set_queue r (SetGroupConfig cfg (b_queue r b)) b)))"

definition get_config :: "Identity option \<Rightarrow> string \<Rightarrow> string \<Rightarrow> string \<Rightarrow> Broker \<Rightarrow> api_result" where
  "get_config who ns name key = authed who (on_queue ns name (\<lambda>r b.
     case GetGroupConfig (b_queue r b) key of
       None \<Rightarrow> (Inl (Status 404 ''group config not found''), b)
     | Some cfg \<Rightarrow> (Inr (ConfigOf cfg), b)))"

definition delete_config :: "Identity option \<Rightarrow> string \<Rightarrow> string \<Rightarrow> string \<Rightarrow> Broker \<Rightarrow> api_result" where
  "delete_config who ns name key = authed who (on_queue ns name (\<lambda>r b.
     case DeleteGroupConfig key (b_queue r b) of
       (False, q) \<Rightarrow> (Inl (Status 404 ''group config not found''), set_queue r q b)
     | (True, q) \<Rightarrow> (Inr NoContent, set_queue r q b)))"

section \<open>Requests\<close>

datatype api_request =
    ListQueuesReq "(string, qref) range_order"
  | DeclareReq "db_error + int" "db_error + int" qref string string "bool option"
  | GetQueueReq string string
  | DeleteQueueReq "db_error + int" "db_error option" "nat \<Rightarrow> walio" "(oserr \<times> dirents) option" string string
  | SnapshotReq string string
  | StatsReq string string string int
  | GroupStatsReq string string string
  | ListConfigsReq string string string int
  | SetConfigReq "nat \<Rightarrow> nat \<Rightarrow> nat \<Rightarrow> nat" string string string groupConfigInput
  | GetConfigReq string string string
  | DeleteConfigReq string string string

fun operation :: "Identity option \<Rightarrow> api_request \<Rightarrow> Broker \<Rightarrow> api_result" where
  "operation who (ListQueuesReq it) = list_queues who it"
| "operation who (DeclareReq nsRes created fresh ns name dur) = declare_queue who nsRes created fresh ns name dur"
| "operation who (GetQueueReq ns name) = get_queue who ns name"
| "operation who (DeleteQueueReq nsRes deleted ios rm ns name) = delete_queue who nsRes deleted ios rm ns name"
| "operation who (SnapshotReq ns name) = trigger_snapshot who ns name"
| "operation who (StatsReq ns name after limit) = queue_stats who ns name after limit"
| "operation who (GroupStatsReq ns name key) = group_stats who ns name key"
| "operation who (ListConfigsReq ns name after limit) = list_configs who ns name after limit"
| "operation who (SetConfigReq fmul ns name key inp) = set_config who fmul ns name key inp"
| "operation who (GetConfigReq ns name key) = get_config who ns name key"
| "operation who (DeleteConfigReq ns name key) = delete_config who ns name key"

end
