(* ===== verification/Api_Props.thy ===== *)
theory Api_Props
  imports Api_Queues Queue_Client
begin

text \<open>
  The management operations: what a refused request leaves behind, the life of a queue, and what the
  configurations that come in by this way guarantee and do not guarantee.
\<close>

section \<open>Refused requests\<close>

lemma delWildcard_absent: "delWildcard key ws = (False, ws') \<Longrightarrow> ws' = ws"
  by (induction ws arbitrary: ws') (auto simp: Let_def split: if_splits prod.splits)

lemma DeleteGroupConfig_absent: "DeleteGroupConfig key q = (False, q') \<Longrightarrow> q' = q"
  by (auto simp: DeleteGroupConfig_def ci_del_def Let_def split: prod.splits if_splits dest!: delWildcard_absent)

lemma set_queue_same [simp]: "set_queue r (b_queue r b) b = b"
  by (simp add: set_queue_def b_queue_def put_queue_def)

lemmas operation_defs = list_queues_def declare_queue_def get_queue_def delete_queue_def trigger_snapshot_def queue_stats_def
  group_stats_def list_configs_def set_config_def get_config_def delete_config_def on_queue_def authed_def requireAuth_def

lemma operation_refused: "operation who req b = (Inl e, b') \<Longrightarrow> b' = b"
  by (cases req) (auto simp: operation_defs Let_def split: option.splits sum.splits if_splits prod.splits bool.splits
      dest: DeleteGroupConfig_absent)

text \<open>
  [C40] Refused requests.  Each of the operations on queues, whatever its arguments, the state of the broker and the
  answers of the database, answers a request without an identity with status 401 and leaves the broker as it was; and a
  request with an identity that is refused, for whatever reason, changes no queue, no configuration, no log and no
  counter of the broker either.
\<close>

theorem api_refused:
  "operation None req b = (Inl (Status 401 ''unauthorized''), b)
   \<and> (\<forall>who e b'. operation who req b = (Inl e, b') \<longrightarrow> b' = b)"
proof -
  have "operation None req b = (Inl (Status 401 ''unauthorized''), b)"
    by (cases req) (simp_all add: operation_defs)
  then show ?thesis using operation_refused by blast
qed

definition demo_broker :: Broker where
  "demo_broker = NewBroker 0 0 [] \<lparr>FlushInterval = 5, FlushMaxMessages = 10, SegmentMaxBytes = 1000, Durable = True, SnapshotInterval = 0\<rparr> 1
     (\<lambda>r. NewQueue [] []) (\<lambda>c. newConnection [] [] 0) \<lparr>initMsgIDPrefix = 9, msgIDCounter = 0\<rparr>"

definition demo_caller :: Identity where
  "demo_caller = \<lparr>id_SubjectID = ''ann'', id_SubjectType = ''user'', id_AccountID = [], id_Namespace = [], id_Roles = [],
     id_Permissions = None, id_Namespaces = [], id_AuthMethod = ''jwt'', id_IssuedAt = 0, id_ExpiresAt = 0, id_Metadata = []\<rparr>"

theorem api_refused_witness:
  "operation None (DeleteConfigReq ''ns'' ''q'' ''k'') demo_broker = (Inl (Status 401 ''unauthorized''), demo_broker)
   \<and> (\<exists>b'. operation (Some demo_caller) (DeleteConfigReq ''ns'' ''q'' ''k'') demo_broker = (Inl (Status 404 ''queue not found''), b')
        \<and> b' = demo_broker)"
proof -
  obtain b' where r: "operation (Some demo_caller) (DeleteConfigReq ''ns'' ''q'' ''k'') demo_broker = (Inl (Status 404 ''queue not found''), b')"
    by (simp add: operation_defs demo_broker_def NewBroker_def NewScheduler_def sch_GetQueue_def)
  then show ?thesis using api_refused [of "DeleteConfigReq ''ns'' ''q'' ''k''" demo_broker] by blast
qed

text \<open>Beyond its presence the identity is not looked at: any account may delete any queue of any namespace.\<close>

lemma api_ignores_identity: "operation (Some i) req b = operation (Some j) req b"
  by (cases req) (simp_all add: operation_defs)

section \<open>The life of a queue\<close>

lemma DestroyQueue_logs:
  assumes "DestroyQueue ios rm ns name w = (err, a, w')"
  shows "WAL_GetQueue ns name w' = None"
    and "gm_get (w_disk w') (wal_key ns name) =
      (if WAL_GetQueue ns name w = None then gm_get (w_disk w) (wal_key ns name) else map_option snd rm)"
    and "key \<noteq> wal_key ns name \<Longrightarrow> gm_get (w_queues w') key = gm_get (w_queues w) key \<and> gm_get (w_disk w') key = gm_get (w_disk w) key"
  using assms by (auto simp: DestroyQueue_def WAL_GetQueue_def Let_def split: option.splits)

lemma declared_logs:
  "key \<noteq> wal_key ns name \<Longrightarrow> gm_get (w_queues (SetQueueDurable ns name d (RegisterQueueState ns name w))) key = gm_get (w_queues w) key"
  "w_disk (SetQueueDurable ns name d (RegisterQueueState ns name w)) = w_disk w"
  by (auto simp: SetQueueDurable_def RegisterQueueState_def Let_def split: option.split)

text \<open>
  [C39] Declaring and deleting.  A declaration that succeeds, its queue object allocated at a reference that no known
  queue has, makes exactly this queue known to the scheduler, empty and with the durability asked for or the default of
  the broker, and declaring it again is refused with status 409; the other queues keep their references, all that they
  hold and their logs.  A deletion that succeeds, in any state \<open>c\<close>, makes exactly this queue unknown and closes its
  log; if the log was open and \<open>os.RemoveAll\<close> succeeds its directory is gone from the disk, if that fails what it left
  is there, and if the log was not open the directory stays on the disk as it was.  The other queues, all that they
  hold, their logs and their directories stay.
\<close>

theorem queue_lifecycle:
  assumes d: "operation who (DeclareReq nsRes created fresh ns name dur) b = (Inr body, b1)"
    and "\<And>ns' name'. sch_GetQueue ns' name' (b_Scheduler b) \<noteq> Some fresh"
    and x: "operation who' (DeleteQueueReq nsRes' deleted ios rm ns name) c = (Inr body', c1)"
  shows "sch_GetQueue ns name (b_Scheduler b1) = Some fresh \<and> b_queue fresh b1 = NewQueue name ns
    \<and> QueueDurable ns name (b_WAL b1) = (case dur of None \<Rightarrow> DefaultDurable (b_WAL b) | Some d \<Rightarrow> d)
    \<and> operation who (DeclareReq nsRes2 created2 fresh2 ns name dur2) b1 = (Inl (Status 409 ''queue already exists''), b1)
    \<and> (\<forall>ns' name'. queueKey ns' name' \<noteq> queueKey ns name \<longrightarrow>
         sch_GetQueue ns' name' (b_Scheduler b1) = sch_GetQueue ns' name' (b_Scheduler b)
         \<and> (\<forall>r. sch_GetQueue ns' name' (b_Scheduler b) = Some r \<longrightarrow> b_queue r b1 = b_queue r b)
         \<and> WAL_GetQueue ns' name' (b_WAL b1) = WAL_GetQueue ns' name' (b_WAL b))
    \<and> sch_GetQueue ns name (b_Scheduler c1) = None \<and> WAL_GetQueue ns name (b_WAL c1) = None
    \<and> gm_get (w_disk (b_WAL c1)) (wal_key ns name) =
        (if WAL_GetQueue ns name (b_WAL c) = None then gm_get (w_disk (b_WAL c)) (wal_key ns name) else map_option snd rm)
    \<and> (\<forall>ns' name'. queueKey ns' name' \<noteq> queueKey ns name \<longrightarrow>
         sch_GetQueue ns' name' (b_Scheduler c1) = sch_GetQueue ns' name' (b_Scheduler c)
         \<and> WAL_GetQueue ns' name' (b_WAL c1) = WAL_GetQueue ns' name' (b_WAL c)
         \<and> gm_get (w_disk (b_WAL c1)) (wal_key ns' name') = gm_get (w_disk (b_WAL c)) (wal_key ns' name'))
    \<and> (\<forall>r. b_queue r c1 = b_queue r c)"
proof -
  let ?dur = "case dur of None \<Rightarrow> DefaultDurable (b_WAL b) | Some d \<Rightarrow> d"
  let ?b = "set_queue fresh (NewQueue name ns) b"
  have who: "\<exists>i. who = Some i" and b1: "b1 = ?b\<lparr>b_Scheduler := RegisterQueue fresh (b_Scheduler ?b),
      b_WAL := SetQueueDurable ns name ?dur (RegisterQueueState ns name (b_WAL ?b))\<rparr>"
    using d by (auto simp: declare_queue_def authed_def requireAuth_def Let_def split: if_splits sum.splits option.splits)
  have keys: "wal_key = queueKey" by (intro ext) (simp add: wal_key_def queueKey_def)
  have known: "sch_GetQueue ns name (b_Scheduler b1) = Some fresh" "b_queue fresh b1 = NewQueue name ns"
    by (simp_all add: b1 sch_GetQueue_def RegisterQueue_def set_queue_def b_queue_def put_queue_def NewQueue_def)
  moreover have "QueueDurable ns name (b_WAL b1) = ?dur"
    by (simp add: b1 QueueDurable_def SetQueueDurable_def RegisterQueueState_def Let_def split: option.split)
  moreover have "operation who (DeclareReq nsRes2 created2 fresh2 ns name dur2) b1 = (Inl (Status 409 ''queue already exists''), b1)"
    using who known(1) by (auto simp: declare_queue_def authed_def requireAuth_def)
  moreover have "sch_GetQueue ns' name' (b_Scheduler b1) = sch_GetQueue ns' name' (b_Scheduler b)
      \<and> (\<forall>r. sch_GetQueue ns' name' (b_Scheduler b) = Some r \<longrightarrow> b_queue r b1 = b_queue r b)
      \<and> WAL_GetQueue ns' name' (b_WAL b1) = WAL_GetQueue ns' name' (b_WAL b)"
    if "queueKey ns' name' \<noteq> queueKey ns name" for ns' name'
    using that assms(2) declared_logs(1) [of "wal_key ns' name'" ns name]
    by (auto simp: b1 sch_GetQueue_def RegisterQueue_def set_queue_def b_queue_def put_queue_def NewQueue_def WAL_GetQueue_def keys)
  moreover obtain err a w where w: "DestroyQueue ios rm ns name (b_WAL c) = (err, a, w)" by (metis prod_cases3)
  moreover from this have "c1 = c\<lparr>b_Scheduler := UnregisterQueue ns name (b_Scheduler c), b_WAL := w\<rparr>"
    using x by (auto simp: delete_queue_def on_queue_def authed_def requireAuth_def split: sum.splits option.splits)
  ultimately show ?thesis using DestroyQueue_logs [OF w]
    by (simp add: sch_GetQueue_def UnregisterQueue_def WAL_GetQueue_def b_queue_def keys)
qed

definition demo_calls :: "nat \<Rightarrow> walio" where
  "demo_calls n = \<lparr>io_flush = None, io_sync = None, io_idx = None, io_openLog = None, io_openIdx = None, io_clock = (\<lambda>_. 7)\<rparr>"

theorem queue_lifecycle_witness:
  "\<exists>body b1 body' b2. operation (Some demo_caller) (DeclareReq (Inr 1) (Inr 1) 4 ''prod'' ''q'' (Some False)) demo_broker = (Inr body, b1)
     \<and> operation (Some demo_caller) (DeleteQueueReq (Inr 1) None demo_calls None ''prod'' ''q'') b1 = (Inr body', b2)
     \<and> sch_GetQueue ''prod'' ''q'' (b_Scheduler b1) = Some 4 \<and> \<not> QueueDurable ''prod'' ''q'' (b_WAL b1)
     \<and> sch_GetQueue ''prod'' ''q'' (b_Scheduler b2) = None"
proof -
  obtain body b1 where d: "operation (Some demo_caller) (DeclareReq (Inr 1) (Inr 1) 4 ''prod'' ''q'' (Some False)) demo_broker = (Inr body, b1)"
    by (simp add: declare_queue_def authed_def requireAuth_def demo_broker_def NewBroker_def NewScheduler_def sch_GetQueue_def Let_def)
  then have k: "sch_GetQueue ''prod'' ''q'' (b_Scheduler b1) = Some 4"
    by (auto simp: declare_queue_def authed_def requireAuth_def sch_GetQueue_def RegisterQueue_def set_queue_def put_queue_def NewQueue_def Let_def
        split: if_splits)
  have f: "sch_GetQueue ns name (b_Scheduler demo_broker) \<noteq> Some 4" for ns name
    by (simp add: demo_broker_def NewBroker_def NewScheduler_def sch_GetQueue_def)
  obtain body' b2 where x: "operation (Some demo_caller) (DeleteQueueReq (Inr 1) None demo_calls None ''prod'' ''q'') b1 = (Inr body', b2)"
    using k by (simp add: delete_queue_def on_queue_def authed_def requireAuth_def)
  from queue_lifecycle [OF d f x] d x show ?thesis by auto
qed

text \<open>
  The directory of a queue that was only recovered, and has not logged anything since, survives the deletion: its log is
  not open.
\<close>

lemma delete_leaves_files:
  assumes "operation who (DeleteQueueReq nsRes deleted ios rm ns name) b = (Inr body, b')"
    and "WAL_GetQueue ns name (b_WAL b) = None" and "gm_get (w_disk (b_WAL b)) (wal_key ns name) = Some d"
  shows "sch_GetQueue ns name (b_Scheduler b') = None \<and> gm_get (w_disk (b_WAL b')) (wal_key ns name) = Some d"
  using assms by (auto simp: delete_queue_def on_queue_def authed_def requireAuth_def DestroyQueue_def WAL_GetQueue_def
      sch_GetQueue_def UnregisterQueue_def Let_def split: option.splits sum.splits)

section \<open>Configurations\<close>

lemma to_rate_limit_max: "to_rate_limit fmul r = Inr (Some rl) \<Longrightarrow> \<exists>i. r = Some i \<and> rl_Max rl = rli_Max i"
  by (auto simp: to_rate_limit_def split: option.splits)

text \<open>What the code fills in itself; the depth limit is not among the fields, and zero means none.\<close>

lemma toGroupConfig_fields:
  assumes "toGroupConfig fmul key inp = Inr cfg"
  shows "c_Key cfg = key \<and> 1 \<le> c_Parallelism cfg \<and> 1 \<le> c_Quantum cfg \<and> c_MaxPending cfg = 0
    \<and> ((\<forall>i. gi_RateLimit inp = Some i \<longrightarrow> 1 \<le> rli_Max i) \<longrightarrow> config_ok cfg)"
  using assms by (auto simp: toGroupConfig_def config_ok_def split: sum.splits if_splits dest!: to_rate_limit_max)

text \<open>
  With the minimum of the rate limit checked by the framework, setting a configuration is a step that
  keeps the invariant of the queue and all its messages.
\<close>

lemma set_config_step:
  assumes "operation who (SetConfigReq fmul ns name key inp) b = (Inr body, b')"
    and "\<And>i. gi_RateLimit inp = Some i \<Longrightarrow> 1 \<le> rli_Max i"
  shows "\<exists>r cfg. sch_GetQueue ns name (b_Scheduler b) = Some r \<and> body = ConfigOf cfg \<and> config_ok cfg
    \<and> b' = set_queue r (SetGroupConfig cfg (b_queue r b)) b
    \<and> (queue_wf (b_queue r b) \<longrightarrow> qstep {} {} (b_queue r b) (b_queue r b'))"
proof -
  obtain r cfg where r: "sch_GetQueue ns name (b_Scheduler b) = Some r" and c: "toGroupConfig fmul key inp = Inr cfg"
    and b': "body = ConfigOf cfg" "b' = set_queue r (SetGroupConfig cfg (b_queue r b)) b"
    using assms(1) by (auto simp: set_config_def on_queue_def authed_def requireAuth_def split: option.splits sum.splits)
  have ok: "config_ok cfg" using toGroupConfig_fields [OF c] assms(2) by blast
  have "b_queue r b' = SetGroupConfig cfg (b_queue r b)" by (simp add: b' set_queue_def b_queue_def put_queue_def)
  then show ?thesis using r b' ok SetGroupConfig_qstep [of "b_queue r b" cfg] by auto
qed

text \<open>A negative lease is accepted: every message handed out is overdue at once.\<close>

lemma negative_lease_accepted:
  "\<exists>cfg. toGroupConfig fmul ''k'' \<lparr>gi_Parallelism = 1, gi_Quantum = 1, gi_LeaseTimeout = ''-5m'', gi_RateLimit = None,
     gi_Retry = None, gi_DLQ = None\<rparr> = Inr cfg \<and> c_LeaseTimeout cfg = - 300000000000"
proof -
  have "parse_unit fmul ''5m'' = Some (300000000000, [])"
    by (simp add: parse_unit_def in_unit_def is_digit_def digit_val_def unitMap_def less_eq_char_def)
  then have "ParseDuration fmul ''-5m'' = Some (- 300000000000)"
    by (simp add: ParseDuration_def parse_units.simps)
  then show ?thesis by (simp add: toGroupConfig_def duration_field_def to_rate_limit_def to_retry_def to_dlq_def)
qed

end
