(* ===== verification/Api_Admin.thy ===== *)
theory Api_Admin
  imports Api_Queues
begin

text \<open>
  The management operations on users, namespaces, sessions and API keys (\<^verbatim>\<open>internal/api/v1\<close>:
  \<^verbatim>\<open>middleware.go\<close>, \<^verbatim>\<open>users.go\<close>, \<^verbatim>\<open>namespaces.go\<close>, \<^verbatim>\<open>auth.go\<close>, \<^verbatim>\<open>apikeys.go\<close>, \<^verbatim>\<open>permissions.go\<close>, \<^verbatim>\<open>health.go\<close>) over the store and the
  service of \<^verbatim>\<open>internal/auth/service.go\<close>.  The framework has decoded and validated the request;
  a handler may panic, where it dereferences a nil pointer.  The configuration of a namespace is
  represented by its JSON text, which only \<open>encoding/json\<close> writes.
\<close>

section \<open>The service\<close>

record Tokens =
  tk_AccessToken :: string
  tk_RefreshToken :: string
  tk_ExpiresIn :: int
  tk_TokenType :: string

text \<open>The token manager of \<^verbatim>\<open>internal/auth/jwt\<close> as the service uses it.\<close>

record JwtManager =
  jm_GenerateTokens :: "UserRow \<Rightarrow> (string + Tokens) outcome"
  jm_RefreshTokens :: "string \<Rightarrow> (string + Tokens) outcome"
  jm_VerifyAccessToken :: "string \<Rightarrow> string + Claims"

record Service =
  sv_jwtMgr :: "JwtManager option"
  sv_apiKeyAuth :: APIKeyAuthenticator
  sv_keyPrefix :: string
  sv_policy :: Policy

definition loadDefaultPolicy :: "Policy \<Rightarrow> Policy" where
  "loadDefaultPolicy p = AddRoleBinding ''service'' [''service''] [RoleService] [] (AddRoleBinding ''admin'' [''admin''] [RoleAdmin] [] p)"

definition VerifyToken :: "string \<Rightarrow> Service \<Rightarrow> string + Identity" where
  "VerifyToken token svc =
     (case (case sv_jwtMgr svc of None \<Rightarrow> None | Some m \<Rightarrow>
              (case jm_VerifyAccessToken m token of Inr claims \<Rightarrow> Some (ToIdentity claims) | Inl _ \<Rightarrow> None)) of
        Some i \<Rightarrow> Inr i
      | None \<Rightarrow>
          (case apikey_Authenticate (sv_apiKeyAuth svc) (noRequest\<lparr>ar_APIKey := token\<rparr>) of
             Inr (Some i) \<Rightarrow> Inr i
           | _ \<Rightarrow> Inl ''invalid token: neither JWT nor API key matched''))"

text \<open>Without a token manager the results are a nil pointer and no error.\<close>

definition GenerateTokens :: "UserRow \<Rightarrow> Service \<Rightarrow> (string + Tokens option) outcome" where
  "GenerateTokens user svc =
     (case sv_jwtMgr svc of None \<Rightarrow> Ret (Inr None) | Some m \<Rightarrow> map_outcome (map_sum id Some) (jm_GenerateTokens m user))"

definition RefreshTokens :: "string \<Rightarrow> Service \<Rightarrow> (string + Tokens option) outcome" where
  "RefreshTokens token svc =
     (case sv_jwtMgr svc of None \<Rightarrow> Ret (Inr None) | Some m \<Rightarrow> map_outcome (map_sum id Some) (jm_RefreshTokens m token))"

definition sv_GenerateAPIKey :: "byte list \<Rightarrow> string \<Rightarrow> string \<Rightarrow> string list \<Rightarrow> Service \<Rightarrow> string \<times> Service" where
  "sv_GenerateAPIKey random subjectID namespace perms svc =
     (let key = GenerateAPIKey random (sv_keyPrefix svc)
      in (key, svc\<lparr>sv_apiKeyAuth := AddKey key subjectID namespace perms (sv_apiKeyAuth svc)\<rparr>))"

definition sv_RevokeAPIKey :: "string \<Rightarrow> Service \<Rightarrow> Service" where
  "sv_RevokeAPIKey key svc = svc\<lparr>sv_apiKeyAuth := RevokeKey key (sv_apiKeyAuth svc)\<rparr>"

definition sv_ListAPIKeys :: "(string, APIKeyEntry) range_order \<Rightarrow> Service \<Rightarrow> APIKeyEntry list" where
  "sv_ListAPIKeys it svc = ListKeys it (sv_apiKeyAuth svc)"

section \<open>The middleware\<close>

definition needsAuth :: "string \<Rightarrow> bool" where
  "needsAuth path =
     (has_prefix path ''/namespaces'' \<or> has_prefix path ''/users'' \<or> has_prefix path ''/queues'' \<or> path = ''/internal/metrics'')"

text \<open>The identity that the middleware puts into the context, if any; \<open>header\<close> is the Authorization header.\<close>

definition authMiddleware :: "Service \<Rightarrow> string \<Rightarrow> string \<Rightarrow> http_error + Identity option" where
  "authMiddleware svc path header =
     (if \<not> needsAuth path then Inr None
      else if \<not> has_prefix header ''Bearer '' then Inl (Status 401 ''missing authorization header'')
      else case VerifyToken (drop 7 header) svc of
        Inl e \<Rightarrow> Inl (Status 401 (''invalid or expired token: '' @ e))
      | Inr i \<Rightarrow> Inr (Some i))"

section \<open>Views\<close>

record userView =
  uv_ID :: int
  uv_Username :: string
  uv_Email :: "string option"
  uv_Role :: string
  uv_CreatedAt :: string
  uv_UpdatedAt :: string

definition toUserView :: "UserRow \<Rightarrow> userView" where
  "toUserView u = \<lparr>uv_ID = u_ID u, uv_Username = u_Username u, uv_Email = u_Email u, uv_Role = u_Role u,
     uv_CreatedAt = u_CreatedAt u, uv_UpdatedAt = u_UpdatedAt u\<rparr>"

definition zero_user :: UserRow where
  "zero_user = \<lparr>u_Username = [], u_Email = None, u_Role = [], u_ID = 0, u_PasswordHash = [], u_CreatedAt = [], u_UpdatedAt = []\<rparr>"

record namespaceView =
  nv_ID :: int
  nv_Name :: string
  nv_Config :: "string option"
  nv_CreatedAt :: string
  nv_UpdatedAt :: string

definition toNamespaceView :: "Namespace \<Rightarrow> namespaceView" where
  "toNamespaceView n = \<lparr>nv_ID = ns_ID n, nv_Name = ns_Name n,
     nv_Config = (if ns_Config n \<noteq> [] \<and> ns_Config n \<noteq> ''{}'' then Some (ns_Config n) else None),
     nv_CreatedAt = ns_CreatedAt n, nv_UpdatedAt = ns_UpdatedAt n\<rparr>"

record listEntry =
  le_SubjectID :: string
  le_Namespace :: string
  le_Permissions :: "string list"
  le_Prefix :: string

datatype admin_body =
    UserViews "userView list"
  | UserViewOf userView
  | UserPerms string "(string, string list) gomap"
  | UserPermsSet string string "string list"
  | NamespaceViews "namespaceView list"
  | NamespaceViewOf namespaceView
  | LoginOut Tokens
  | Success
  | KeyCreated string string string "string list"
  | KeyEntries "listEntry list"
  | Catalog "(string \<times> string) list" "(string \<times> string) list"
  | Empty

type_synonym admin_answer = "(http_error + admin_body) outcome"

section \<open>Users\<close>

definition insufficient :: http_error where
  "insufficient = Status 403 ''insufficient permissions''"

text \<open>
  The view of a user after a change: the error of the query is ignored.  When the user is not
  found the pointer is nil; after another error it points to the zero value.
\<close>

definition view_user :: "faults \<Rightarrow> string \<Rightarrow> Store \<Rightarrow> admin_answer" where
  "view_user flt username s =
     (case GetUser flt username s of
        Inr u \<Rightarrow> Ret (Inr (UserViewOf (toUserView u)))
      | Inl (DbNotFound _) \<Rightarrow> Panic ''nil pointer dereference''
      | Inl _ \<Rightarrow> Ret (Inr (UserViewOf (toUserView zero_user))))"

definition list_users :: "faults \<Rightarrow> (UserRow list \<Rightarrow> UserRow list) \<Rightarrow> Store \<Rightarrow> admin_answer" where
  "list_users flt rows s =
     (case ListUsers flt rows s of
        Inl e \<Rightarrow> Ret (Inl (AsIs (err_text e)))
      | Inr us \<Rightarrow> Ret (Inr (UserViews (map toUserView us))))"

definition create_user ::
  "faults \<Rightarrow> string + string \<Rightarrow> string \<Rightarrow> string \<Rightarrow> string \<Rightarrow> string \<Rightarrow> Identity \<Rightarrow> Store \<Rightarrow> admin_answer \<times> Store" where
  "create_user flt hashed now username email role i s =
     (if \<not> IsAdmin i \<and> \<not> CanManageUsers i then (Ret (Inl insufficient), s)
      else case CreateUser flt hashed now username email role s of
        (Some e, s) \<Rightarrow> (Ret (Inl (dbError e ''user'')), s)
      | (None, s) \<Rightarrow> (view_user (\<lambda>k. flt (k + 1)) username s, s))"

definition get_user :: "faults \<Rightarrow> string \<Rightarrow> Store \<Rightarrow> admin_answer" where
  "get_user flt username s =
     (case GetUser flt username s of
        Inl e \<Rightarrow> Ret (Inl (dbError e ''user''))
      | Inr u \<Rightarrow> Ret (Inr (UserViewOf (toUserView u))))"

definition update_user ::
  "faults \<Rightarrow> string + string \<Rightarrow> string \<Rightarrow> string \<Rightarrow> string option \<Rightarrow> string option \<Rightarrow> string option \<Rightarrow> Identity \<Rightarrow> Store \<Rightarrow> admin_answer \<times> Store" where
  "update_user flt hashed now username email role password i s =
     (if \<not> IsAdmin i \<and> \<not> CanManageUsers i \<and> id_SubjectID i \<noteq> username then (Ret (Inl insufficient), s)
      else case UpdateUser flt hashed now username email role password s of
        (Some e, s) \<Rightarrow> (Ret (Inl (dbError e ''user'')), s)
      | (None, s) \<Rightarrow> (view_user (\<lambda>k. flt (k + 6)) username s, s))"

definition delete_user :: "faults \<Rightarrow> string \<Rightarrow> Identity \<Rightarrow> Store \<Rightarrow> admin_answer \<times> Store" where
  "delete_user flt username i s =
     (if \<not> IsAdmin i \<and> \<not> CanManageUsers i then (Ret (Inl insufficient), s)
      else case DeleteUser flt username s of
        (Some e, s) \<Rightarrow> (Ret (Inl (dbError e ''user'')), s)
      | (None, s) \<Rightarrow> (Ret (Inr Empty), s))"

definition get_user_permissions ::
  "faults \<Rightarrow> ((string \<times> string list) list \<Rightarrow> (string \<times> string list) list) \<Rightarrow> string \<Rightarrow> Store \<Rightarrow> admin_answer" where
  "get_user_permissions flt rows username s =
     (case GetUserNamespacePermissionsByUsername flt rows username s of
        Inl e \<Rightarrow> Ret (Inl (dbError e ''user''))
      | Inr perms \<Rightarrow> Ret (Inr (UserPerms username perms)))"

definition set_user_permissions ::
  "faults \<Rightarrow> string \<Rightarrow> string \<Rightarrow> string \<Rightarrow> string list \<Rightarrow> Identity \<Rightarrow> Store \<Rightarrow> admin_answer \<times> Store" where
  "set_user_permissions flt now username namespace perms i s =
     (if \<not> IsAdmin i \<and> \<not> CanManageUsers i then (Ret (Inl insufficient), s)
      else case SetUserNamespacePermissionsByName flt now username namespace perms s of
        (Some e, s) \<Rightarrow> (Ret (Inl (dbError e ''user or namespace'')), s)
      | (None, s) \<Rightarrow> (Ret (Inr (UserPermsSet username namespace perms)), s))"

definition delete_user_permissions :: "faults \<Rightarrow> string \<Rightarrow> string \<Rightarrow> string \<Rightarrow> Identity \<Rightarrow> Store \<Rightarrow> admin_answer \<times> Store" where
  "delete_user_permissions flt now username namespace i s =
     (if \<not> IsAdmin i \<and> \<not> CanManageUsers i then (Ret (Inl insufficient), s)
      else case SetUserNamespacePermissionsByName flt now username namespace [] s of
        (Some e, s) \<Rightarrow> (Ret (Inl (dbError e ''user or namespace'')), s)
      | (None, s) \<Rightarrow> (Ret (Inr Empty), s))"

section \<open>Namespaces\<close>

definition list_namespaces :: "faults \<Rightarrow> (Namespace list \<Rightarrow> Namespace list) \<Rightarrow> Store \<Rightarrow> admin_answer" where
  "list_namespaces flt rows s =
     (case ListNamespaces flt rows s of
        Inl e \<Rightarrow> Ret (Inl (AsIs (err_text e)))
      | Inr nss \<Rightarrow> Ret (Inr (NamespaceViews (map toNamespaceView nss))))"

definition config_json :: "string option \<Rightarrow> string" where
  "config_json c = (case c of None \<Rightarrow> ''{}'' | Some j \<Rightarrow> j)"

definition namespace_answer :: "(db_error + Namespace) \<times> Store \<Rightarrow> admin_answer \<times> Store" where
  "namespace_answer r =
     (case r of
        (Inl e, s) \<Rightarrow> (Ret (Inl (dbError e ''namespace'')), s)
      | (Inr n, s) \<Rightarrow> (Ret (Inr (NamespaceViewOf (toNamespaceView n))), s))"

definition create_namespace :: "faults \<Rightarrow> string \<Rightarrow> string \<Rightarrow> string option \<Rightarrow> Store \<Rightarrow> admin_answer \<times> Store" where
  "create_namespace flt now name config s = namespace_answer (CreateNamespace flt now name (config_json config) s)"

definition get_namespace :: "faults \<Rightarrow> string \<Rightarrow> Store \<Rightarrow> admin_answer" where
  "get_namespace flt name s = fst (namespace_answer (GetNamespace flt name s, s))"

definition update_namespace :: "faults \<Rightarrow> string \<Rightarrow> string \<Rightarrow> string option \<Rightarrow> Store \<Rightarrow> admin_answer \<times> Store" where
  "update_namespace flt now name config s = namespace_answer (UpdateNamespace flt now name (config_json config) s)"

definition delete_namespace :: "faults \<Rightarrow> string \<Rightarrow> Store \<Rightarrow> admin_answer \<times> Store" where
  "delete_namespace flt name s =
     (case DeleteNamespace flt name s of
        (Some e, s) \<Rightarrow> (Ret (Inl (dbError e ''namespace'')), s)
      | (None, s) \<Rightarrow> (Ret (Inr Empty), s))"

section \<open>Sessions\<close>

text \<open>The tokens are read through a pointer that is nil when there is no token manager.\<close>

definition login_out :: "Tokens option \<Rightarrow> admin_answer" where
  "login_out t = (case t of None \<Rightarrow> Panic ''nil pointer dereference'' | Some t \<Rightarrow> Ret (Inr (LoginOut t)))"

definition login :: "faults \<Rightarrow> (string \<Rightarrow> string \<Rightarrow> bool) \<Rightarrow> string \<Rightarrow> string \<Rightarrow> Service \<Rightarrow> Store \<Rightarrow> admin_answer" where
  "login flt matches username password svc s =
     (if \<not> CheckPassword flt matches username password s then Ret (Inl (Status 401 ''invalid credentials''))
      else case GetUser (\<lambda>k. flt (k + 1)) username s of
        Inl _ \<Rightarrow> Ret (Inl (Status 401 ''invalid credentials''))
      | Inr user \<Rightarrow>
          (case GenerateTokens user svc of
             Panic p \<Rightarrow> Panic p
           | Ret (Inl e) \<Rightarrow> Ret (Inl (AsIs e))
           | Ret (Inr tokens) \<Rightarrow> login_out tokens))"

definition refresh :: "string \<Rightarrow> Service \<Rightarrow> admin_answer" where
  "refresh token svc =
     (case RefreshTokens token svc of
        Panic e \<Rightarrow> Panic e
      | Ret (Inl _) \<Rightarrow> Ret (Inl (Status 401 ''invalid or expired refresh token''))
      | Ret (Inr tokens) \<Rightarrow> login_out tokens)"

definition logout :: "string \<Rightarrow> admin_answer" where
  "logout token = Ret (Inr Success)"

section \<open>API keys\<close>

definition create_api_key ::
  "byte list \<Rightarrow> string \<Rightarrow> string \<Rightarrow> string list \<Rightarrow> Identity option \<Rightarrow> Service \<Rightarrow> admin_answer \<times> Service" where
  "create_api_key random name namespace perms who svc =
     (case who of
        None \<Rightarrow> (Ret (Inl (Status 401 ''unauthorized'')), svc)
      | Some i \<Rightarrow>
          if \<not> CanManageUsers i \<and> \<not> IsAdmin i then (Ret (Inl insufficient), svc)
          else let perms = (if length perms = 0 then [''publish'', ''consume''] else perms);
                   (key, svc) = sv_GenerateAPIKey random name namespace perms svc
               in (Ret (Inr (KeyCreated key name namespace perms)), svc))"

definition list_api_keys :: "(string, APIKeyEntry) range_order \<Rightarrow> Identity option \<Rightarrow> Service \<Rightarrow> admin_answer" where
  "list_api_keys it who svc =
     (case who of
        None \<Rightarrow> Ret (Inl (Status 401 ''unauthorized''))
      | Some i \<Rightarrow>
          if \<not> CanManageUsers i \<and> \<not> IsAdmin i then Ret (Inl insufficient)
          else Ret (Inr (KeyEntries (map (\<lambda>k. \<lparr>le_SubjectID = ke_SubjectID k, le_Namespace = ke_Namespace k,
                 le_Permissions = ke_Permissions k, le_Prefix = ke_Prefix k\<rparr>) (sv_ListAPIKeys it svc)))))"

definition revoke_api_key :: "string \<Rightarrow> Identity option \<Rightarrow> Service \<Rightarrow> admin_answer \<times> Service" where
  "revoke_api_key key who svc =
     (case who of
        None \<Rightarrow> (Ret (Inl (Status 401 ''unauthorized'')), svc)
      | Some i \<Rightarrow>
          if \<not> CanManageUsers i \<and> \<not> IsAdmin i then (Ret (Inl insufficient), svc)
          else (Ret (Inr Success), sv_RevokeAPIKey key svc))"

section \<open>The catalogue of permissions\<close>

definition GlobalPermissionCatalog :: "(string \<times> string) list" where
  "GlobalPermissionCatalog =
     [(''admin'', ''Full access to all broker operations''), (''publish'', ''Publish messages to any queue''),
      (''consume'', ''Consume messages from any queue''), (''ack'', ''Acknowledge messages''),
      (''nack'', ''Negative-acknowledge messages''), (''queues:manage'', ''Declare, configure, and delete queues''),
      (''users:manage'', ''Create, update, and delete users''), (''metrics:read'', ''Read broker metrics'')]"

definition NamespacePermissionCatalog :: "(string \<times> string) list" where
  "NamespacePermissionCatalog =
     [(''publish'', ''Publish messages to queues in this namespace''), (''consume'', ''Consume messages from queues in this namespace''),
      (''ack'', ''Acknowledge messages in this namespace''), (''nack'', ''Negative-acknowledge messages in this namespace''),
      (''queues:manage'', ''Declare and configure queues in this namespace'')]"

section \<open>Requests\<close>

text \<open>A request with the answers of bcrypt, the time stamp, the random bytes and the row and map orders it meets.\<close>

datatype admin_request =
    ListUsersReq "UserRow list \<Rightarrow> UserRow list"
  | CreateUserReq "string + string" string string string string
  | GetUserReq string
  | PatchUserReq "string + string" string string "string option" "string option" "string option"
  | DeleteUserReq string
  | GetPermsReq "(string \<times> string list) list \<Rightarrow> (string \<times> string list) list" string
  | SetPermsReq string string string "string list"
  | DeletePermsReq string string string
  | ListNsReq "Namespace list \<Rightarrow> Namespace list"
  | CreateNsReq string string "string option"
  | GetNsReq string
  | PatchNsReq string string "string option"
  | DeleteNsReq string
  | LoginReq "string \<Rightarrow> string \<Rightarrow> bool" string string
  | RefreshReq string
  | LogoutReq string
  | CreateKeyReq "byte list" string string "string list"
  | ListKeysReq "(string, APIKeyEntry) range_order"
  | RevokeKeyReq string
  | PermissionsReq

fun request_path :: "admin_request \<Rightarrow> string" where
  "request_path (ListUsersReq _) = ''/users''"
| "request_path (CreateUserReq _ _ _ _ _) = ''/users''"
| "request_path (GetUserReq u) = ''/users/'' @ u"
| "request_path (PatchUserReq _ _ u _ _ _) = ''/users/'' @ u"
| "request_path (DeleteUserReq u) = ''/users/'' @ u"
| "request_path (GetPermsReq _ u) = ''/users/'' @ u @ ''/permissions''"
| "request_path (SetPermsReq _ u n _) = ''/users/'' @ u @ ''/permissions/'' @ n"
| "request_path (DeletePermsReq _ u n) = ''/users/'' @ u @ ''/permissions/'' @ n"
| "request_path (ListNsReq _) = ''/namespaces''"
| "request_path (CreateNsReq _ _ _) = ''/namespaces''"
| "request_path (GetNsReq n) = ''/namespaces/'' @ n"
| "request_path (PatchNsReq _ n _) = ''/namespaces/'' @ n"
| "request_path (DeleteNsReq n) = ''/namespaces/'' @ n"
| "request_path (LoginReq _ _ _) = ''/auth/login''"
| "request_path (RefreshReq _) = ''/auth/refresh''"
| "request_path (LogoutReq _) = ''/auth/logout''"
| "request_path (CreateKeyReq _ _ _ _) = ''/auth/api-keys''"
| "request_path (ListKeysReq _) = ''/auth/api-keys''"
| "request_path (RevokeKeyReq _) = ''/auth/api-keys''"
| "request_path PermissionsReq = ''/permissions''"

text \<open>The operations on users and namespaces, which all require an identity.\<close>

fun guarded :: "faults \<Rightarrow> admin_request \<Rightarrow> Identity \<Rightarrow> Store \<Rightarrow> admin_answer \<times> Store" where
  "guarded flt (ListUsersReq rows) i s = (list_users flt rows s, s)"
| "guarded flt (CreateUserReq hashed now u email role) i s = create_user flt hashed now u email role i s"
| "guarded flt (GetUserReq u) i s = (get_user flt u s, s)"
| "guarded flt (PatchUserReq hashed now u email role password) i s = update_user flt hashed now u email role password i s"
| "guarded flt (DeleteUserReq u) i s = delete_user flt u i s"
| "guarded flt (GetPermsReq rows u) i s = (get_user_permissions flt rows u s, s)"
| "guarded flt (SetPermsReq now u n perms) i s = set_user_permissions flt now u n perms i s"
| "guarded flt (DeletePermsReq now u n) i s = delete_user_permissions flt now u n i s"
| "guarded flt (ListNsReq rows) i s = (list_namespaces flt rows s, s)"
| "guarded flt (CreateNsReq now n config) i s = create_namespace flt now n config s"
| "guarded flt (GetNsReq n) i s = (get_namespace flt n s, s)"
| "guarded flt (PatchNsReq now n config) i s = update_namespace flt now n config s"
| "guarded flt (DeleteNsReq n) i s = delete_namespace flt n s"
| "guarded flt _ i s = (Ret (Inr Empty), s)"

fun admin_handle :: "faults \<Rightarrow> admin_request \<Rightarrow> Identity option \<Rightarrow> Service \<times> Store \<Rightarrow> admin_answer \<times> Service \<times> Store" where
  "admin_handle flt (LoginReq matches u p) who (svc, s) = (login flt matches u p svc s, svc, s)"
| "admin_handle flt (RefreshReq t) who (svc, s) = (refresh t svc, svc, s)"
| "admin_handle flt (LogoutReq t) who (svc, s) = (logout t, svc, s)"
| "admin_handle flt (CreateKeyReq random name namespace perms) who (svc, s) =
     (let (a, svc) = create_api_key random name namespace perms who svc in (a, svc, s))"
| "admin_handle flt (ListKeysReq it) who (svc, s) = (list_api_keys it who svc, svc, s)"
| "admin_handle flt (RevokeKeyReq key) who (svc, s) = (let (a, svc) = revoke_api_key key who svc in (a, svc, s))"
| "admin_handle flt PermissionsReq who (svc, s) = (Ret (Inr (Catalog GlobalPermissionCatalog NamespacePermissionCatalog)), svc, s)"
| "admin_handle flt req who (svc, s) =
     (case requireAuth who of
        Inl e \<Rightarrow> (Ret (Inl e), svc, s)
      | Inr i \<Rightarrow> (let (a, s) = guarded flt req i s in (a, svc, s)))"

definition serve :: "faults \<Rightarrow> string \<Rightarrow> admin_request \<Rightarrow> Service \<times> Store \<Rightarrow> admin_answer \<times> Service \<times> Store" where
  "serve flt header req st =
     (case authMiddleware (fst st) (request_path req) header of
        Inl e \<Rightarrow> (Ret (Inl e), st)
      | Inr who \<Rightarrow> admin_handle flt req who st)"

end
