(* ===== verification/Go_Base64.thy ===== *)
theory Go_Base64
  imports Prelude
begin

text \<open>
  The two encodings of Go's \<open>encoding/base64\<close> that the token code uses: \<open>StdEncoding\<close>, with padding, and
  \<open>RawURLEncoding\<close>, without.  As in the library, a decoder skips carriage returns and line feeds, wants
  the padding exactly at the end and ignores the unused bits of the last character.
\<close>

section \<open>Alphabets\<close>

definition letters :: string where
  "letters = ''ABCDEFGHIJKLMNOPQRSTUVWXYZabcdefghijklmnopqrstuvwxyz0123456789''"

definition stdAlphabet :: string where
  "stdAlphabet = letters @ ''+/''"

definition urlAlphabet :: string where
  "urlAlphabet = letters @ ''-_''"

fun index_of :: "char \<Rightarrow> string \<Rightarrow> nat option" where
  "index_of c [] = None"
| "index_of c (d # s) = (if c = d then Some 0 else map_option Suc (index_of c s))"

abbreviation bval :: "byte \<Rightarrow> nat" where
  "bval \<equiv> of_char"

abbreviation byte_of :: "nat \<Rightarrow> byte" where
  "byte_of \<equiv> char_of"

section \<open>Encoding\<close>

text \<open>Three bytes give four characters; the rest gives two or three, and padding.\<close>

fun b64_encode :: "string \<Rightarrow> bool \<Rightarrow> byte list \<Rightarrow> string" where
  "b64_encode alph pad (a # b # c # bs) =
     (let x = bval a; y = bval b; z = bval c in
      [alph ! (x div 4), alph ! (x mod 4 * 16 + y div 16), alph ! (y mod 16 * 4 + z div 64), alph ! (z mod 64)]) @ b64_encode alph pad bs"
| "b64_encode alph pad [a, b] =
     (let x = bval a; y = bval b in
      [alph ! (x div 4), alph ! (x mod 4 * 16 + y div 16), alph ! (y mod 16 * 4)] @ (if pad then ''='' else []))"
| "b64_encode alph pad [a] = (let x = bval a in [alph ! (x div 4), alph ! (x mod 4 * 16)] @ (if pad then ''=='' else []))"
| "b64_encode alph pad [] = []"

section \<open>Decoding\<close>

definition out3 :: "nat \<Rightarrow> nat \<Rightarrow> nat \<Rightarrow> nat \<Rightarrow> byte list" where
  "out3 p q r t = [byte_of (p * 4 + q div 16), byte_of (q mod 16 * 16 + r div 4), byte_of (r mod 4 * 64 + t)]"

fun b64_quanta :: "string \<Rightarrow> bool \<Rightarrow> string \<Rightarrow> byte list option" where
  "b64_quanta alph pad (a # b # c # d # s) =
     (case (index_of a alph, index_of b alph, index_of c alph, index_of d alph) of
        (Some p, Some q, Some r, Some t) \<Rightarrow> map_option ((@) (out3 p q r t)) (b64_quanta alph pad s)
      | (Some p, Some q, Some r, None) \<Rightarrow> if pad \<and> d = CHR ''='' \<and> s = [] then Some (take 2 (out3 p q r 0)) else None
      | (Some p, Some q, None, None) \<Rightarrow> if pad \<and> c = CHR ''='' \<and> d = CHR ''='' \<and> s = [] then Some (take 1 (out3 p q 0 0)) else None
      | _ \<Rightarrow> None)"
| "b64_quanta alph pad [a, b, c] =
     (case (index_of a alph, index_of b alph, index_of c alph) of
        (Some p, Some q, Some r) \<Rightarrow> if pad then None else Some (take 2 (out3 p q r 0))
      | _ \<Rightarrow> None)"
| "b64_quanta alph pad [a, b] =
     (case (index_of a alph, index_of b alph) of
        (Some p, Some q) \<Rightarrow> if pad then None else Some (take 1 (out3 p q 0 0))
      | _ \<Rightarrow> None)"
| "b64_quanta alph pad [a] = None"
| "b64_quanta alph pad [] = Some []"

definition b64_decode :: "string \<Rightarrow> bool \<Rightarrow> string \<Rightarrow> byte list option" where
  "b64_decode alph pad s = b64_quanta alph pad (filter (\<lambda>c. c \<noteq> CHR 0x0A \<and> c \<noteq> CHR 0x0D) s)"

definition Std_EncodeToString :: "byte list \<Rightarrow> string" where
  "Std_EncodeToString = b64_encode stdAlphabet True"

definition Std_DecodeString :: "string \<Rightarrow> byte list option" where
  "Std_DecodeString = b64_decode stdAlphabet True"

definition RawURL_EncodeToString :: "byte list \<Rightarrow> string" where
  "RawURL_EncodeToString = b64_encode urlAlphabet False"

definition RawURL_DecodeString :: "string \<Rightarrow> byte list option" where
  "RawURL_DecodeString = b64_decode urlAlphabet False"

section \<open>Decoding what was encoded\<close>

definition alphabet_ok :: "string \<Rightarrow> bool" where
  "alphabet_ok alph = (length alph = 64 \<and> distinct alph \<and> list_all (\<lambda>c. c \<noteq> CHR 0x0A \<and> c \<noteq> CHR 0x0D \<and> c \<noteq> CHR ''='' \<and> c \<noteq> CHR ''.'') alph)"

lemma alphabets_ok: "alphabet_ok stdAlphabet" "alphabet_ok urlAlphabet"
  by code_simp+

lemma index_of_nth: "distinct s \<Longrightarrow> i < length s \<Longrightarrow> index_of (s ! i) s = Some i"
proof (induction s arbitrary: i)
  case (Cons d s)
  then show ?case by (cases i) auto
qed simp

lemma index_of_None: "index_of c s = None \<longleftrightarrow> c \<notin> set s"
  by (induction s) auto

lemma bval_less [simp]: "bval c < 256"
  using nat_of_char_less_256 [of c] .

lemma alph_index: "alphabet_ok alph \<Longrightarrow> i < 64 \<Longrightarrow> index_of (alph ! i) alph = Some i"
  by (simp add: alphabet_ok_def index_of_nth)

lemma alph_pad: "alphabet_ok alph \<Longrightarrow> index_of (CHR ''='') alph = None"
  by (auto simp: alphabet_ok_def index_of_None list_all_iff)

lemma split6:
  assumes "x < (256 :: nat)" "y < 256" "z < 256"
  shows "x div 4 < 64" "x mod 4 * 16 + y div 16 < 64" "y mod 16 * 4 + z div 64 < 64" "z mod 64 < 64"
    "x mod 4 * 16 < 64" "y mod 16 * 4 < 64"
proof -
  show "x div 4 < 64" "x mod 4 * 16 < 64" "y mod 16 * 4 < 64" "z mod 64 < 64" using assms by (simp_all add: less_mult_imp_div_less)
  have "y div 16 < 16" "z div 64 < 4" "x mod 4 < 4" "y mod 16 < 16" using assms by (simp_all add: less_mult_imp_div_less)
  then show "x mod 4 * 16 + y div 16 < 64" "y mod 16 * 4 + z div 64 < 64" by linarith+
qed

lemma bval_split: "bval a div 4 < 64" "bval a mod 4 * 16 + bval b div 16 < 64" "bval b mod 16 * 4 + bval c div 64 < 64"
    "bval c mod 64 < 64" "bval a mod 4 * 16 < 64" "bval b mod 16 * 4 < 64"
  using split6 [OF bval_less [of a] bval_less [of b] bval_less [of c]] by simp_all

lemma bval_join: "bval b div 16 div 16 = 0" "bval b div 64 div 4 = 0" "bval b div 16 mod 16 = bval b div 16" "bval b div 64 mod 4 = bval b div 64"
  using bval_less [of b] by (simp_all add: less_mult_imp_div_less)

lemma quanta_encode: "alphabet_ok alph \<Longrightarrow> b64_quanta alph pad (b64_encode alph pad bs) = Some bs"
  by (induction alph pad bs rule: b64_encode.induct) (simp_all add: Let_def alph_index alph_pad bval_split out3_def bval_join)

lemma encode_chars: "alphabet_ok alph \<Longrightarrow> set (b64_encode alph pad bs) \<subseteq> set alph \<union> {CHR ''=''}"
  by (induction alph pad bs rule: b64_encode.induct) (auto simp add: Let_def alphabet_ok_def bval_split)

lemma decode_encode: "alphabet_ok alph \<Longrightarrow> b64_decode alph pad (b64_encode alph pad bs) = Some bs"
proof -
  assume a: "alphabet_ok alph"
  have "filter (\<lambda>c. c \<noteq> CHR 0x0A \<and> c \<noteq> CHR 0x0D) (b64_encode alph pad bs) = b64_encode alph pad bs"
    using encode_chars [OF a, of pad bs] a by (auto simp: filter_id_conv alphabet_ok_def list_all_iff)
  then show ?thesis using quanta_encode [OF a] by (simp add: b64_decode_def)
qed

lemma Std_roundtrip [codec_simps]: "Std_DecodeString (Std_EncodeToString bs) = Some bs"
  by (simp add: Std_DecodeString_def Std_EncodeToString_def decode_encode alphabets_ok)

lemma RawURL_roundtrip [codec_simps]: "RawURL_DecodeString (RawURL_EncodeToString bs) = Some bs"
  by (simp add: RawURL_DecodeString_def RawURL_EncodeToString_def decode_encode alphabets_ok)

lemma RawURL_no_dot: "CHR ''.'' \<notin> set (RawURL_EncodeToString bs)"
  using encode_chars [OF alphabets_ok(2), of False bs] alphabets_ok(2)
  by (auto simp: RawURL_EncodeToString_def alphabet_ok_def list_all_iff)

lemma encode_empty: "b64_encode alph pad bs = [] \<longleftrightarrow> bs = []"
  by (cases "(alph, pad, bs)" rule: b64_encode.cases) (simp_all add: Let_def)

end
