(* ===== verification/Go_Json.thy ===== *)
theory Go_Json
  imports Go_Fs
begin

text \<open>
  What the token code uses of Go's \<open>encoding/json\<close>: the compact text that \<open>Marshal\<close> writes and the
  documents that \<open>Unmarshal\<close> accepts, with UTF-8, escapes and surrogates.  A document is first
  checked and read as a tree; how a tree is stored into a Go struct is modelled with the struct.  A document nested
  more than 10000 levels deep is refused, as in the library.
\<close>

section \<open>UTF-8\<close>

abbreviation bv :: "byte \<Rightarrow> nat" where
  "bv \<equiv> of_char"

text \<open>
  The first byte of a sequence of several bytes gives its length and the range of the second byte (the tables \<open>first\<close> and
  \<open>acceptRanges\<close> of \<open>unicode/utf8\<close>); the others are continuation bytes.
\<close>

definition utf8_first :: "nat \<Rightarrow> nat \<times> nat \<times> nat" where
  "utf8_first a =
     (if 0xC2 \<le> a \<and> a \<le> 0xDF then (2, 0x80, 0xBF)
      else if a = 0xE0 then (3, 0xA0, 0xBF)
      else if a = 0xED then (3, 0x80, 0x9F)
      else if 0xE1 \<le> a \<and> a \<le> 0xEF then (3, 0x80, 0xBF)
      else if a = 0xF0 then (4, 0x90, 0xBF)
      else if a = 0xF4 then (4, 0x80, 0x8F)
      else if 0xF1 \<le> a \<and> a \<le> 0xF3 then (4, 0x80, 0xBF)
      else (0, 0, 0))"

definition utf8_cont :: "byte \<Rightarrow> bool" where
  "utf8_cont c = (0x80 \<le> bv c \<and> bv c \<le> 0xBF)"

text \<open>The length of the well-formed sequence of several bytes at the start, or zero.\<close>

fun utf8_len :: "byte list \<Rightarrow> nat" where
  "utf8_len [] = 0"
| "utf8_len (a # s) =
     (let (n, lo, hi) = utf8_first (bv a) in
      if n \<noteq> 0 \<and> n - 1 \<le> length s \<and> lo \<le> bv (hd s) \<and> bv (hd s) \<le> hi \<and> list_all utf8_cont (take (n - 2) (tl s)) then n else 0)"

lemma utf8_first_cases: "fst (utf8_first a) \<in> {0, 2, 3, 4}"
  by (simp add: utf8_first_def)

lemma utf8_len_bounds: "utf8_len s \<noteq> 0 \<Longrightarrow> 2 \<le> utf8_len s \<and> utf8_len s \<le> length s"
proof (cases s)
  case (Cons a t)
  assume "utf8_len s \<noteq> 0"
  moreover obtain n lo hi where "utf8_first (bv a) = (n, lo, hi)" by (cases "utf8_first (bv a)") auto
  ultimately show ?thesis using utf8_first_cases [of "bv a"] Cons by (auto split: if_splits)
qed simp

definition utf8_encode :: "nat \<Rightarrow> byte list" where
  "utf8_encode r =
     (if r < 0x80 then [char_of r]
      else if r < 0x800 then [char_of (0xC0 + r div 64), char_of (0x80 + r mod 64)]
      else if r < 0x10000 then [char_of (0xE0 + r div 4096), char_of (0x80 + r div 64 mod 64), char_of (0x80 + r mod 64)]
      else [char_of (0xF0 + r div 262144), char_of (0x80 + r div 4096 mod 64), char_of (0x80 + r div 64 mod 64), char_of (0x80 + r mod 64)])"

definition replacement :: "byte list" where
  "replacement = [CHR 0xEF, CHR 0xBF, CHR 0xBD]"

section \<open>Strings\<close>

abbreviation quotation :: char where
  "quotation \<equiv> CHR 0x22"

abbreviation backslash :: char where
  "backslash \<equiv> CHR 0x5C"

definition hex_char :: "nat \<Rightarrow> char" where
  "hex_char n = (if n < 10 then char_of (48 + n) else char_of (87 + n))"

definition esc :: "byte \<Rightarrow> string" where
  "esc c =
     (if c = quotation \<or> c = backslash then [backslash, c]
      else if c = CHR 0x08 then backslash # ''b''
      else if c = CHR 0x0C then backslash # ''f''
      else if c = CHR 0x0A then backslash # ''n''
      else if c = CHR 0x0D then backslash # ''r''
      else if c = CHR 0x09 then backslash # ''t''
      else if bv c < 0x20 \<or> c = CHR ''<'' \<or> c = CHR ''>'' \<or> c = CHR ''&''
        then backslash # ''u00'' @ [hex_char (bv c div 16), hex_char (bv c mod 16)]
      else [c])"

function json_quote :: "byte list \<Rightarrow> string" where
  "json_quote [] = []"
| "json_quote (c # s) =
     (if bv c < 0x80 then esc c @ json_quote s
      else let n = utf8_len (c # s) in
        if n = 0 then backslash # ''ufffd'' @ json_quote s
        else if take 3 (c # s) = [CHR 0xE2, CHR 0x80, CHR 0xA8] then backslash # ''u2028'' @ json_quote (drop n (c # s))
        else if take 3 (c # s) = [CHR 0xE2, CHR 0x80, CHR 0xA9] then backslash # ''u2029'' @ json_quote (drop n (c # s))
        else take n (c # s) @ json_quote (drop n (c # s)))"
  by pat_completeness auto
termination
  by (relation "measure length") (auto dest: utf8_len_bounds simp del: utf8_len.simps)

definition hex_val :: "char \<Rightarrow> nat option" where
  "hex_val c =
     (if CHR ''0'' \<le> c \<and> c \<le> CHR ''9'' then Some (bv c - 48)
      else if CHR ''a'' \<le> c \<and> c \<le> CHR ''f'' then Some (bv c - 87)
      else if CHR ''A'' \<le> c \<and> c \<le> CHR ''F'' then Some (bv c - 55)
      else None)"

fun hex4 :: "string \<Rightarrow> (nat \<times> string) option" where
  "hex4 (a # b # c # d # s) =
     (case (hex_val a, hex_val b, hex_val c, hex_val d) of
        (Some x, Some y, Some z, Some w) \<Rightarrow> Some (((x * 16 + y) * 16 + z) * 16 + w, s)
      | _ \<Rightarrow> None)"
| "hex4 _ = None"

definition simple_escape :: "char \<Rightarrow> char option" where
  "simple_escape c =
     (if c = quotation \<or> c = backslash \<or> c = CHR ''/'' then Some c
      else if c = CHR ''b'' then Some (CHR 0x08)
      else if c = CHR ''f'' then Some (CHR 0x0C)
      else if c = CHR ''n'' then Some (CHR 0x0A)
      else if c = CHR ''r'' then Some (CHR 0x0D)
      else if c = CHR ''t'' then Some (CHR 0x09)
      else None)"

text \<open>An escaped code point, after the letter u; two surrogates are combined, a single one is replaced.\<close>

definition json_rune :: "string \<Rightarrow> (byte list \<times> string) option" where
  "json_rune s =
     (case hex4 s of
        None \<Rightarrow> None
      | Some (r, s1) \<Rightarrow>
          if r < 0xD800 \<or> 0xDFFF < r then Some (utf8_encode r, s1)
          else case s1 of
            b # u # s2 \<Rightarrow>
              (case hex4 s2 of
                 Some (q, s3) \<Rightarrow>
                   if b = backslash \<and> u = CHR ''u'' \<and> r < 0xDC00 \<and> 0xDC00 \<le> q \<and> q \<le> 0xDFFF
                   then Some (utf8_encode (0x10000 + (r - 0xD800) * 1024 + (q - 0xDC00)), s3)
                   else Some (replacement, s1)
               | None \<Rightarrow> Some (replacement, s1))
          | _ \<Rightarrow> Some (replacement, s1))"

lemma hex4_length: "hex4 s = Some (r, t) \<Longrightarrow> length t + 4 = length s"
  by (cases s rule: hex4.cases) (auto split: option.splits)

lemma json_rune_length: "json_rune s = Some (r, t) \<Longrightarrow> length t < length s"
  by (auto simp: json_rune_def split: option.splits prod.splits if_splits list.splits dest!: hex4_length)

text \<open>The rest of a string literal, after the opening quotation mark.\<close>

function json_str :: "byte list \<Rightarrow> (byte list \<times> byte list) option" where
  "json_str [] = None"
| "json_str (c # s) =
     (if c = quotation then Some ([], s)
      else if c = backslash then
        (case s of
           [] \<Rightarrow> None
         | e # t \<Rightarrow>
             (case simple_escape e of
                Some x \<Rightarrow> map_option (map_prod ((#) x) id) (json_str t)
              | None \<Rightarrow>
                  if e = CHR ''u'' then
                    (case json_rune t of
                       None \<Rightarrow> None
                     | Some (x, r) \<Rightarrow> map_option (map_prod ((@) x) id) (json_str r))
                  else None))
      else if bv c < 0x20 then None
      else if bv c < 0x80 then map_option (map_prod ((#) c) id) (json_str s)
      else let n = utf8_len (c # s) in
        if n = 0 then map_option (map_prod ((@) replacement) id) (json_str s)
        else map_option (map_prod ((@) (take n (c # s))) id) (json_str (drop n (c # s))))"
  by pat_completeness auto
termination
  by (relation "measure length") (auto dest: json_rune_length utf8_len_bounds simp del: utf8_len.simps)

section \<open>Reading back a string\<close>

function utf8_ok :: "byte list \<Rightarrow> bool" where
  "utf8_ok [] = True"
| "utf8_ok (c # s) = (if bv c < 0x80 then utf8_ok s else if utf8_len (c # s) = 0 then False else utf8_ok (drop (utf8_len (c # s)) (c # s)))"
  by pat_completeness auto
termination
  by (relation "measure length") (auto dest: utf8_len_bounds simp del: utf8_len.simps)

declare json_str.simps [simp del] json_quote.simps [simp del] utf8_ok.simps [simp del] utf8_len.simps [simp del]

lemma utf8_len_take:
  assumes "utf8_len s \<noteq> 0"
  shows "utf8_len (take (utf8_len s) s @ t) = utf8_len s"
proof (cases s)
  case (Cons a u)
  obtain n lo hi where f: "utf8_first (bv a) = (n, lo, hi)" by (cases "utf8_first (bv a)") auto
  have n: "n \<in> {2, 3, 4}" "utf8_len s = n" and c: "n - 1 \<le> length u" "lo \<le> bv (hd u)" "bv (hd u) \<le> hi" "list_all utf8_cont (take (n - 2) (tl u))"
    using assms utf8_first_cases [of "bv a"] by (auto simp: Cons f utf8_len.simps split: if_splits)
  obtain b v where u: "u = b # v" using c(1) n(1) by (cases u) auto
  have "take n s @ t = a # b # take (n - 2) v @ t" using n(1) by (auto simp: Cons u take_Cons')
  moreover have "utf8_len (a # b # take (n - 2) v @ t) = n"
    using c n(1) by (auto simp: utf8_len.simps f u)
  ultimately show ?thesis using n(2) by simp
qed (use assms in \<open>simp add: utf8_len.simps\<close>)

lemma hex_val_char: "n < 16 \<Longrightarrow> hex_val (hex_char n) = Some n"
proof -
  have "\<forall>n \<in> set [0..<16]. hex_val (hex_char n) = Some n" by code_simp
  then show "n < 16 \<Longrightarrow> ?thesis" by simp
qed

lemma json_rune_byte: "k < 0x80 \<Longrightarrow> json_rune (''00'' @ [hex_char (k div 16), hex_char (k mod 16)] @ t) = Some ([char_of k], t)"
proof -
  assume k: "k < 0x80"
  have "hex_val CHR ''0'' = Some 0" by code_simp
  then have "hex4 (''00'' @ [hex_char (k div 16), hex_char (k mod 16)] @ t) = Some (k, t)"
    using k by (simp add: hex_val_char less_mult_imp_div_less)
  then show ?thesis using k by (simp add: json_rune_def utf8_encode_def)
qed

lemma json_str_esc:
  assumes "bv c < 0x80"
  shows "json_str (esc c @ t) = map_option (map_prod ((#) c) id) (json_str t)"
proof -
  have u: "simple_escape CHR ''u'' = None" by code_simp
  have e: "simple_escape quotation = Some quotation" "simple_escape backslash = Some backslash" "simple_escape CHR ''b'' = Some (CHR 0x08)"
    "simple_escape CHR ''f'' = Some (CHR 0x0C)" "simple_escape CHR ''n'' = Some (CHR 0x0A)" "simple_escape CHR ''r'' = Some (CHR 0x0D)"
    "simple_escape CHR ''t'' = Some (CHR 0x09)" by code_simp+
  have cons: "(@) [c] = (#) c" by (simp add: fun_eq_iff)
  have r: "json_str (backslash # CHR ''u'' # ''00'' @ [hex_char (bv c div 16), hex_char (bv c mod 16)] @ t) =
      map_option (map_prod ((#) c) id) (json_str t)"
    using json_rune_byte [OF assms, of t] by (subst json_str.simps) (simp add: u cons)
  show ?thesis
    using assms r by (auto simp: esc_def json_str.simps e)
qed

lemma json_str_chunk:
  assumes "0x80 \<le> bv c" "utf8_len (c # s) \<noteq> 0"
  shows "json_str (take (utf8_len (c # s)) (c # s) @ t) = map_option (map_prod ((@) (take (utf8_len (c # s)) (c # s))) id) (json_str t)"
proof -
  let ?n = "utf8_len (c # s)"
  obtain v where v: "take ?n (c # s) = c # v" "length (c # v) = ?n"
    using utf8_len_bounds [OF assms(2)] by (cases ?n) auto
  have n: "utf8_len (c # v @ t) = ?n" using utf8_len_take [OF assms(2), of t] v by simp
  have c: "c \<noteq> quotation" "c \<noteq> backslash" "\<not> bv c < 0x20" using assms(1) by auto
  have "take ?n (c # v @ t) = c # v" "drop ?n (c # v @ t) = t" by (simp_all flip: v(2))
  then have "json_str (c # v @ t) = map_option (map_prod ((@) (c # v)) id) (json_str t)"
    using assms c n by (subst json_str.simps) (simp only: Let_def if_False not_less [symmetric] v(1))
  then show ?thesis unfolding v(1) by (subst append_Cons)
qed

lemma json_str_rune:
  assumes "json_rune (x @ t) = Some (y, t)"
  shows "json_str (backslash # CHR ''u'' # x @ t) = map_option (map_prod ((@) y) id) (json_str t)"
  using assms by (subst json_str.simps) (simp add: simple_escape_def)

lemma json_rune_2028: "json_rune (''2028'' @ t) = Some ([CHR 0xE2, CHR 0x80, CHR 0xA8], t)" "json_rune (''2029'' @ t) = Some ([CHR 0xE2, CHR 0x80, CHR 0xA9], t)"
proof -
  have h: "hex_val CHR ''2'' = Some 2" "hex_val CHR ''0'' = Some 0" "hex_val CHR ''8'' = Some 8" "hex_val CHR ''9'' = Some 9" by code_simp+
  have ch: "char_of (226 :: nat) = CHR 0xE2" "char_of (128 :: nat) = CHR 0x80" "char_of (168 :: nat) = CHR 0xA8" "char_of (169 :: nat) = CHR 0xA9" by code_simp+
  have u: "utf8_encode 0x2028 = [CHR 0xE2, CHR 0x80, CHR 0xA8]" "utf8_encode 0x2029 = [CHR 0xE2, CHR 0x80, CHR 0xA9]" by (simp_all add: utf8_encode_def ch)
  show "json_rune (''2028'' @ t) = Some ([CHR 0xE2, CHR 0x80, CHR 0xA8], t)" "json_rune (''2029'' @ t) = Some ([CHR 0xE2, CHR 0x80, CHR 0xA9], t)"
    using u by (simp_all add: json_rune_def h)
qed

lemma utf8_len_E2: "utf8_len (CHR 0xE2 # s) \<in> {0, 3}"
  by (simp add: utf8_len.simps utf8_first_def)

lemma json_quote_head: "0x80 \<le> bv c \<Longrightarrow> utf8_len (c # s) \<noteq> 0 \<Longrightarrow> \<exists>x. json_quote (c # s) = x @ json_quote (drop (utf8_len (c # s)) (c # s))
    \<and> (\<forall>t. json_str (x @ t) = map_option (map_prod ((@) (take (utf8_len (c # s)) (c # s))) id) (json_str t))"
proof -
  assume c: "0x80 \<le> bv c" and n: "utf8_len (c # s) \<noteq> 0"
  let ?n = "utf8_len (c # s)"
  consider (a8) "take 3 (c # s) = [CHR 0xE2, CHR 0x80, CHR 0xA8]" | (a9) "take 3 (c # s) = [CHR 0xE2, CHR 0x80, CHR 0xA9]"
    | (other) "take 3 (c # s) \<noteq> [CHR 0xE2, CHR 0x80, CHR 0xA8]" "take 3 (c # s) \<noteq> [CHR 0xE2, CHR 0x80, CHR 0xA9]" by blast
  then show ?thesis
  proof cases
    case a8
    then have "?n = 3" using utf8_len_E2 [of s] n by auto
    then show ?thesis using a8 c n json_str_rune [OF json_rune_2028(1)]
      by (intro exI [of _ "backslash # ''u2028''"]) (simp add: json_quote.simps Let_def)
  next
    case a9
    then have "?n = 3" using utf8_len_E2 [of s] n by auto
    then show ?thesis using a9 c n json_str_rune [OF json_rune_2028(2)]
      by (intro exI [of _ "backslash # ''u2029''"]) (simp add: json_quote.simps Let_def)
  next
    case other
    have "json_quote (c # s) = take ?n (c # s) @ json_quote (drop ?n (c # s))"
      unfolding json_quote.simps(2) Let_def using other c n by (simp only: not_less [symmetric] if_False)
    then show ?thesis using json_str_chunk [OF c n] by blast
  qed
qed

lemma json_str_quote: "utf8_ok s \<Longrightarrow> json_str (json_quote s @ quotation # r) = Some (s, r)"
proof (induction "length s" arbitrary: s rule: less_induct)
  case less
  show ?case
  proof (cases s)
    case Nil
    then show ?thesis by (simp add: json_quote.simps json_str.simps)
  next
    case (Cons c t)
    show ?thesis
    proof (cases "bv c < 0x80")
      case True
      then show ?thesis using less Cons by (simp add: json_quote.simps utf8_ok.simps json_str_esc)
    next
      case False
      let ?n = "utf8_len (c # t)"
      have n: "?n \<noteq> 0" and ok: "utf8_ok (drop ?n (c # t))" using less(2) False Cons by (auto simp: utf8_ok.simps split: if_splits)
      obtain x where x: "json_quote (c # t) = x @ json_quote (drop ?n (c # t))"
        "\<And>u. json_str (x @ u) = map_option (map_prod ((@) (take ?n (c # t))) id) (json_str u)"
        using json_quote_head [OF _ n] False by auto
      have "length (drop ?n (c # t)) < length s" using utf8_len_bounds [OF n] Cons by simp
      from less(1) [OF this ok] show ?thesis unfolding Cons x(1) append_assoc x(2) by (simp only: option.map map_prod_simp append_take_drop_id id_apply)
    qed
  qed
qed

section \<open>Documents\<close>

datatype json =
    JNull
  | JBool bool
  | JNum string
  | JStr string
  | JArr "json list"
  | JObj "(string \<times> json) list"

definition skip_ws :: "string \<Rightarrow> string" where
  "skip_ws = dropWhile (\<lambda>c. c = CHR '' '' \<or> c = CHR 0x09 \<or> c = CHR 0x0A \<or> c = CHR 0x0D)"

text \<open>A number: a sign, digits without a leading zero, a fraction and an exponent.  The literal text is kept.\<close>

definition digits :: "string \<Rightarrow> string \<times> string" where
  "digits s = (takeWhile is_digit s, dropWhile is_digit s)"

definition json_int :: "string \<Rightarrow> (string \<times> string) option" where
  "json_int s =
     (case s of
        [] \<Rightarrow> None
      | c # t \<Rightarrow> if c = CHR ''0'' then Some (''0'', t) else if is_digit c then Some (digits s) else None)"

definition json_frac :: "string \<Rightarrow> (string \<times> string) option" where
  "json_frac s =
     (case s of
        c # t \<Rightarrow> if c = CHR ''.'' then let (ds, r) = digits t in if ds = [] then None else Some (c # ds, r) else Some ([], s)
      | [] \<Rightarrow> Some ([], []))"

definition json_exp :: "string \<Rightarrow> (string \<times> string) option" where
  "json_exp s =
     (case s of
        c # t \<Rightarrow>
          if c = CHR ''e'' \<or> c = CHR ''E'' then
            let sg = (case t of x # _ \<Rightarrow> if x = CHR ''+'' \<or> x = CHR ''-'' then [x] else [] | [] \<Rightarrow> []);
                (ds, r) = digits (drop (length sg) t)
            in if ds = [] then None else Some (c # sg @ ds, r)
          else Some ([], s)
      | [] \<Rightarrow> Some ([], []))"

definition json_num :: "string \<Rightarrow> (string \<times> string) option" where
  "json_num s =
     (let sg = (case s of c # _ \<Rightarrow> if c = CHR ''-'' then [c] else [] | [] \<Rightarrow> []) in
      case json_int (drop (length sg) s) of
        None \<Rightarrow> None
      | Some (i, r) \<Rightarrow>
          (case json_frac r of
             None \<Rightarrow> None
           | Some (fr, r) \<Rightarrow> (case json_exp r of None \<Rightarrow> None | Some (e, r) \<Rightarrow> Some (sg @ i @ fr @ e, r))))"

definition literal :: "string \<Rightarrow> 'a \<Rightarrow> string \<Rightarrow> ('a \<times> string) option" where
  "literal word v s = (if take (length word) s = word then Some (v, drop (length word) s) else None)"

text \<open>
  A value, the elements of a list up to its closing bracket, and the fields of an object up to its closing
  brace.  The first argument bounds the number of nested calls; twice the length of the text, and one, is enough.
\<close>

fun jval :: "nat \<Rightarrow> string \<Rightarrow> (json \<times> string) option"
and jelems :: "nat \<Rightarrow> string \<Rightarrow> (json list \<times> string) option"
and jfields :: "nat \<Rightarrow> string \<Rightarrow> ((string \<times> json) list \<times> string) option" where
  "jval 0 s = None"
| "jval (Suc n) s =
     (case skip_ws s of
        [] \<Rightarrow> None
      | c # t \<Rightarrow>
          if c = quotation then map_option (map_prod JStr id) (json_str t)
          else if c = CHR ''['' then
            (case skip_ws t of
               x # r \<Rightarrow> if x = CHR '']'' then Some (JArr [], r) else map_option (map_prod JArr id) (jelems n t)
             | [] \<Rightarrow> None)
          else if c = CHR ''{'' then
            (case skip_ws t of
               x # r \<Rightarrow> if x = CHR ''}'' then Some (JObj [], r) else map_option (map_prod JObj id) (jfields n t)
             | [] \<Rightarrow> None)
          else if c = CHR ''t'' then literal ''true'' (JBool True) (c # t)
          else if c = CHR ''f'' then literal ''false'' (JBool False) (c # t)
          else if c = CHR ''n'' then literal ''null'' JNull (c # t)
          else map_option (map_prod JNum id) (json_num (c # t)))"
| "jelems 0 s = None"
| "jelems (Suc n) s =
     (case jval n s of
        None \<Rightarrow> None
      | Some (v, r) \<Rightarrow>
          (case skip_ws r of
             [] \<Rightarrow> None
           | x # r \<Rightarrow>
               if x = CHR '']'' then Some ([v], r)
               else if x = CHR '','' then map_option (map_prod ((#) v) id) (jelems n r)
               else None))"
| "jfields 0 s = None"
| "jfields (Suc n) s =
     (case skip_ws s of
        [] \<Rightarrow> None
      | q # t \<Rightarrow>
          if q \<noteq> quotation then None
          else case json_str t of
            None \<Rightarrow> None
          | Some (k, r) \<Rightarrow>
              (case skip_ws r of
                 [] \<Rightarrow> None
               | x # r \<Rightarrow>
                   if x \<noteq> CHR '':'' then None
                   else case jval n r of
                     None \<Rightarrow> None
                   | Some (v, r) \<Rightarrow>
                       (case skip_ws r of
                          [] \<Rightarrow> None
                        | y # r \<Rightarrow>
                            if y = CHR ''}'' then Some ([(k, v)], r)
                            else if y = CHR '','' then map_option (map_prod ((#) (k, v)) id) (jfields n r)
                            else None)))"

fun jdepth :: "json \<Rightarrow> nat" where
  "jdepth (JArr vs) = Suc (fold max (map jdepth vs) 0)"
| "jdepth (JObj fs) = Suc (fold max (map (\<lambda>(k, v). jdepth v) fs) 0)"
| "jdepth _ = 0"

text \<open>The tree of a document: one value and white space around it.\<close>

definition json_parse :: "string \<Rightarrow> json option" where
  "json_parse s =
     (case jval (2 * length s + 1) s of
        Some (v, r) \<Rightarrow> if skip_ws r = [] \<and> jdepth v \<le> 10000 then Some v else None
      | None \<Rightarrow> None)"

section \<open>Printing\<close>

definition jquoted :: "string \<Rightarrow> string" where
  "jquoted s = quotation # json_quote s @ [quotation]"

fun commas :: "string list \<Rightarrow> string" where
  "commas [] = []"
| "commas [x] = x"
| "commas (x # y # xs) = x @ CHR '','' # commas (y # xs)"

fun jprint :: "json \<Rightarrow> string" where
  "jprint JNull = ''null''"
| "jprint (JBool b) = (if b then ''true'' else ''false'')"
| "jprint (JNum l) = l"
| "jprint (JStr s) = jquoted s"
| "jprint (JArr vs) = CHR ''['' # commas (map jprint vs) @ '']''"
| "jprint (JObj fs) = CHR ''{'' # commas (map (\<lambda>(k, v). jquoted k @ CHR '':'' # jprint v) fs) @ ''}''"

end
