(* ===== verification/Go_Json_Props.thy ===== *)
theory Go_Json_Props
  imports Go_Json
begin

text \<open>Reading back what was printed, and that the bound on nested calls of the reader is enough for every text.\<close>

section \<open>Integers\<close>

definition print_int :: "int \<Rightarrow> string" where
  "print_int i = (if i < 0 then CHR ''-'' # dec (nat (- i)) else dec (nat i))"

text \<open>\<open>strconv.ParseInt(s, 10, 64)\<close> on the literal of a number.\<close>

definition parse_int64 :: "string \<Rightarrow> int option" where
  "parse_int64 s =
     (let neg = (case s of c # _ \<Rightarrow> c = CHR ''-'' | [] \<Rightarrow> False); ds = (if neg then tl s else s) in
      if ds = [] \<or> \<not> list_all is_digit ds then None
      else let v = (if neg then - int (dec_val ds) else int (dec_val ds)) in
        if - (2 ^ 63) \<le> v \<and> v < 2 ^ 63 then Some v else None)"

lemma dec_head: "0 < n \<Longrightarrow> hd (dec n) \<noteq> CHR ''0'' \<and> is_digit (hd (dec n))"
proof (induction n rule: dec.induct)
  case (1 n)
  show ?case
  proof (cases "n < 10")
    case True
    then have "n \<in> set [1..<10]" using 1(2) by auto
    moreover have "\<forall>n \<in> set [1..<10]. dec_digit n \<noteq> CHR ''0'' \<and> is_digit (dec_digit n)" by code_simp
    ultimately show ?thesis using True by (subst dec.simps, subst dec.simps) auto
  next
    case False
    then show ?thesis using 1 dec_nonempty by (subst dec.simps, subst dec.simps) (auto simp: hd_append)
  qed
qed

lemma dec_0: "dec 0 = ''0''"
  by (simp add: dec.simps dec_digit_def) code_simp

lemma digits_dec_all: "list_all is_digit (dec n)"
  using digits_dec by (simp add: list_all_iff)

lemma print_int_parse: "- (2 ^ 63) \<le> i \<Longrightarrow> i < 2 ^ 63 \<Longrightarrow> parse_int64 (print_int i) = Some i"
proof -
  assume i: "- (2 ^ 63) \<le> i" "i < 2 ^ 63"
  have n: "(case dec n of c # _ \<Rightarrow> c = CHR ''-'' | [] \<Rightarrow> False) = False" for n
    using digits_dec_all [of n] by (auto simp: is_digit_def split: list.split)
  show ?thesis using i digits_dec_all dec_nonempty
    by (auto simp: parse_int64_def print_int_def Let_def n dec_val_dec)
qed

definition delim :: "string \<Rightarrow> bool" where
  "delim r = (case r of [] \<Rightarrow> True | c # _ \<Rightarrow> c = CHR '','' \<or> c = CHR '']'' \<or> c = CHR ''}'')"

lemma digits_append: "list_all is_digit ds \<Longrightarrow> delim r \<Longrightarrow> digits (ds @ r) = (ds, r)"
  by (induction ds) (auto simp: digits_def delim_def is_digit_def split: list.splits)

lemma json_int_dec: "delim r \<Longrightarrow> json_int (dec n @ r) = Some (dec n, r)"
proof (cases "n = 0")
  case False
  assume r: "delim r"
  obtain c t where "dec n = c # t" "c \<noteq> CHR ''0''" "is_digit c" using dec_head [of n] dec_nonempty [of n] False by (cases "dec n") auto
  then show ?thesis using digits_append [OF digits_dec_all r, of n] by (simp add: json_int_def)
qed (simp add: dec_0 json_int_def)

lemma delim_frac: "delim r \<Longrightarrow> json_frac r = Some ([], r) \<and> json_exp r = Some ([], r)"
  by (auto simp: delim_def json_frac_def json_exp_def split: list.splits)

lemma json_num_print: "delim r \<Longrightarrow> json_num (print_int i @ r) = Some (print_int i, r)"
proof -
  assume r: "delim r"
  have h: "(case dec n @ r of c # _ \<Rightarrow> if c = CHR ''-'' then [c] else [] | [] \<Rightarrow> []) = []" for n
    using dec_nonempty [of n] digits_dec_all [of n] by (cases "dec n") (auto simp: is_digit_def)
  show ?thesis using json_int_dec [OF r] delim_frac [OF r]
    by (auto simp: json_num_def print_int_def Let_def h)
qed

section \<open>Reading back a document\<close>

fun json_ok :: "json \<Rightarrow> bool" where
  "json_ok (JNum l) = (\<exists>i. l = print_int i)"
| "json_ok (JStr s) = utf8_ok s"
| "json_ok (JArr vs) = list_all json_ok vs"
| "json_ok (JObj fs) = list_all (\<lambda>(k, v). utf8_ok k \<and> json_ok v) fs"
| "json_ok _ = True"

definition plain_head :: "string \<Rightarrow> bool" where
  "plain_head s = (case s of [] \<Rightarrow> False | c # _ \<Rightarrow> c \<notin> {CHR '' '', CHR 0x09, CHR 0x0A, CHR 0x0D, CHR '']'', CHR ''}''})"

lemma plain_skip: "plain_head s \<Longrightarrow> skip_ws (s @ r) = s @ r"
  by (auto simp: plain_head_def skip_ws_def split: list.splits)

lemma plain_digit: "is_digit c \<Longrightarrow> plain_head (c # s)"
  by (auto simp: plain_head_def is_digit_def)

lemma plain_print_int: "plain_head (print_int i)"
proof (cases "i < 0")
  case False
  obtain c t where "dec (nat i) = c # t" "is_digit c"
    using digits_dec_all [of "nat i"] dec_nonempty [of "nat i"] by (cases "dec (nat i)") auto
  then show ?thesis using False by (simp add: print_int_def plain_digit)
qed (simp add: print_int_def plain_head_def)

lemma plain_jprint: "json_ok v \<Longrightarrow> plain_head (jprint v)"
proof (cases v)
  case (JNum l)
  then show "json_ok v \<Longrightarrow> ?thesis" using plain_print_int by auto
qed (auto simp: plain_head_def jquoted_def)

lemma skip_delim: "delim r \<Longrightarrow> skip_ws r = r"
  by (auto simp: delim_def skip_ws_def split: list.splits)

lemma commas_append: "xs \<noteq> [] \<Longrightarrow> commas (x # xs) = x @ CHR '','' # commas xs"
  by (cases xs) auto

lemma jelems_print:
  assumes "vs \<noteq> []"
    and "\<And>v r n. v \<in> set vs \<Longrightarrow> delim r \<Longrightarrow> 2 * length (jprint v) \<le> n \<Longrightarrow> jval (Suc n) (jprint v @ r) = Some (v, r)"
    and "2 * length (commas (map jprint vs)) < n"
  shows "jelems (Suc n) (commas (map jprint vs) @ CHR '']'' # r) = Some (vs, r)"
  using assms
proof (induction vs arbitrary: n)
  case (Cons v vs)
  obtain m where n: "n = Suc m" using Cons.prems(3) by (cases n) auto
  show ?case
  proof (cases "vs = []")
    case True
    have "jval (Suc m) (jprint v @ CHR '']'' # r) = Some (v, CHR '']'' # r)"
      using Cons.prems(3) n True by (intro Cons.prems(2)) (auto simp: delim_def)
    then show ?thesis using True n by (simp add: skip_ws_def)
  next
    case False
    have c: "commas (map jprint (v # vs)) = jprint v @ CHR '','' # commas (map jprint vs)" using False by (simp add: commas_append)
    have "jval (Suc m) (jprint v @ CHR '','' # commas (map jprint vs) @ CHR '']'' # r) = Some (v, CHR '','' # commas (map jprint vs) @ CHR '']'' # r)"
      using Cons.prems(3) n c by (intro Cons.prems(2)) (auto simp: delim_def)
    moreover have "jelems (Suc m) (commas (map jprint vs) @ CHR '']'' # r) = Some (vs, r)"
      using False Cons.prems n c by (intro Cons.IH) auto
    ultimately show ?thesis unfolding c n by (simp add: skip_ws_def del: jval.simps)
  qed
qed simp

definition jfield :: "string \<times> json \<Rightarrow> string" where
  "jfield = (\<lambda>(k, v). jquoted k @ CHR '':'' # jprint v)"

lemma jfield_step:
  assumes "utf8_ok k" and "jval n (jprint v @ d # r) = Some (v, d # r)" and "delim (d # r)"
  shows "jfields (Suc n) (jfield (k, v) @ d # r) =
    (if d = CHR ''}'' then Some ([(k, v)], r) else if d = CHR '','' then map_option (map_prod ((#) (k, v)) id) (jfields n r) else None)"
proof -
  have "json_str (json_quote k @ quotation # CHR '':'' # jprint v @ d # r) = Some (k, CHR '':'' # jprint v @ d # r)"
    using json_str_quote [OF assms(1)] .
  then show ?thesis using assms(2) skip_delim [OF assms(3)] by (simp add: jfield_def jquoted_def skip_ws_def)
qed

lemma jfields_print:
  assumes "fs \<noteq> []" and "\<And>k v. (k, v) \<in> set fs \<Longrightarrow> utf8_ok k"
    and "\<And>k v r n. (k, v) \<in> set fs \<Longrightarrow> delim r \<Longrightarrow> 2 * length (jprint v) \<le> n \<Longrightarrow> jval (Suc n) (jprint v @ r) = Some (v, r)"
    and "2 * length (commas (map jfield fs)) < n"
  shows "jfields (Suc n) (commas (map jfield fs) @ CHR ''}'' # r) = Some (fs, r)"
  using assms
proof (induction fs arbitrary: n)
  case (Cons kv fs)
  obtain k v where kv: "kv = (k, v)" by fastforce
  obtain m where n: "n = Suc m" using Cons.prems(4) by (cases n) auto
  have u: "utf8_ok k" using Cons.prems(2) kv by auto
  have len: "2 * length (jprint v) \<le> m" if "2 * length (jfield kv) < n" using that by (simp add: kv n jfield_def jquoted_def)
  show ?case
  proof (cases "fs = []")
    case True
    have "jval (Suc m) (jprint v @ CHR ''}'' # r) = Some (v, CHR ''}'' # r)"
      using Cons.prems(4) len True kv by (intro Cons.prems(3)) (auto simp: delim_def simp del: jval.simps)
    from jfield_step [OF u this] True show ?thesis by (simp add: kv n delim_def del: jfields.simps)
  next
    case False
    have c: "commas (map jfield (kv # fs)) = jfield kv @ CHR '','' # commas (map jfield fs)" using False by (simp add: commas_append)
    have "jval (Suc m) (jprint v @ CHR '','' # commas (map jfield fs) @ CHR ''}'' # r) = Some (v, CHR '','' # commas (map jfield fs) @ CHR ''}'' # r)"
      using Cons.prems(4) len c kv by (intro Cons.prems(3)) (auto simp: delim_def simp del: jval.simps)
    from jfield_step [OF u this]
    have "jfields (Suc n) (jfield kv @ CHR '','' # commas (map jfield fs) @ CHR ''}'' # r) =
        map_option (map_prod ((#) (k, v)) id) (jfields n (commas (map jfield fs) @ CHR ''}'' # r))"
      by (simp add: kv n delim_def del: jfields.simps)
    moreover have "jfields (Suc m) (commas (map jfield fs) @ CHR ''}'' # r) = Some (fs, r)"
    proof (rule Cons.IH [OF False])
      show "2 * length (commas (map jfield fs)) < m" using Cons.prems(4) c n by simp
    qed (use Cons.prems(2) Cons.prems(3) in \<open>meson list.set_intros(2)\<close>)+
    ultimately show ?thesis unfolding c n by (simp add: kv del: jfields.simps)
  qed
qed simp

lemma plain_commas: "xs \<noteq> [] \<Longrightarrow> plain_head (hd xs) \<Longrightarrow> plain_head (commas xs)"
  by (cases xs rule: commas.cases) (auto simp: plain_head_def split: list.splits)

lemma plain_jfield: "plain_head (jfield kv)"
  by (simp add: jfield_def jquoted_def plain_head_def split: prod.split)

lemma print_int_head:
  obtains c t where "print_int i = c # t" "c = CHR ''-'' \<or> is_digit c"
  using digits_dec_all [of "nat i"] dec_nonempty [of "nat i"] that by (cases "i < 0"; cases "dec (nat i)") (auto simp: print_int_def)

lemma jval_print: "json_ok v \<Longrightarrow> delim r \<Longrightarrow> 2 * length (jprint v) \<le> n \<Longrightarrow> jval (Suc n) (jprint v @ r) = Some (v, r)"
proof (induction v arbitrary: n r)
  case (JNum l)
  then obtain i where i: "l = print_int i" by auto
  obtain c t where c: "print_int i = c # t" "c = CHR ''-'' \<or> is_digit c" by (rule print_int_head)
  then have "c \<notin> {quotation, CHR ''['', CHR ''{'', CHR ''t'', CHR ''f'', CHR ''n''}" by (auto simp: is_digit_def)
  moreover have "skip_ws (c # t @ r) = c # t @ r" using plain_skip [OF plain_print_int, of i r] c(1) by simp
  ultimately show ?case using c(1) json_num_print [OF JNum(2), of i] by (simp add: i)
next
  case (JArr vs)
  show ?case
  proof (cases "vs = []")
    case False
    obtain m where m: "n = Suc m" "2 * length (commas (map jprint vs)) < m" using JArr.prems(3) by (cases n) auto
    have "jelems (Suc m) (commas (map jprint vs) @ CHR '']'' # r) = Some (vs, r)"
      using JArr False m by (intro jelems_print) (auto simp: list_all_iff simp del: jval.simps)
    moreover have p: "plain_head (commas (map jprint vs))"
      using False JArr.prems(1) by (intro plain_commas) (auto simp: hd_map list_all_iff intro!: plain_jprint)
    moreover obtain c t where "commas (map jprint vs) = c # t" "c \<noteq> CHR '']''" using p by (cases "commas (map jprint vs)") (auto simp: plain_head_def)
    ultimately show ?thesis using plain_skip [OF p, of "CHR '']'' # r"] m(1) by (simp add: skip_ws_def)
  qed (simp add: skip_ws_def)
next
  case (JObj fs)
  have f: "jprint (JObj fs) = CHR ''{'' # commas (map jfield fs) @ ''}''" by (simp add: jfield_def)
  show ?case
  proof (cases "fs = []")
    case False
    obtain m where m: "n = Suc m" "2 * length (commas (map jfield fs)) < m" using JObj.prems(3) unfolding f by (cases n) auto
    have IH: "jval (Suc n) (jprint v @ r) = Some (v, r)" if "(k, v) \<in> set fs" "delim r" "2 * length (jprint v) \<le> n" for k v r n
      using JObj.IH [OF that(1), of v] that JObj.prems(1) by (auto simp: list_all_iff simp del: jval.simps)
    have "jfields (Suc m) (commas (map jfield fs) @ CHR ''}'' # r) = Some (fs, r)"
      using JObj.prems(1) False m by (intro jfields_print IH) (auto simp: list_all_iff simp del: jval.simps)
    moreover have p: "plain_head (commas (map jfield fs))"
      using False by (intro plain_commas) (simp_all add: hd_map plain_jfield)
    moreover obtain c t where "commas (map jfield fs) = c # t" "c \<noteq> CHR ''}''" using p by (cases "commas (map jfield fs)") (auto simp: plain_head_def)
    ultimately show ?thesis unfolding f using plain_skip [OF p, of "CHR ''}'' # r"] m(1) by (simp add: skip_ws_def)
  qed (simp add: skip_ws_def)
qed (auto simp: skip_ws_def literal_def jquoted_def json_str_quote)

lemma json_parse_print: "json_ok v \<Longrightarrow> jdepth v \<le> 10000 \<Longrightarrow> json_parse (jprint v) = Some v"
  using jval_print [of v "[]" "2 * length (jprint v)"] by (simp add: json_parse_def delim_def skip_ws_def del: jval.simps)

section \<open>The bound on nested calls is enough\<close>

lemma json_str_length: "json_str s = Some (x, r) \<Longrightarrow> length r < length s"
proof (induction "length s" arbitrary: s x r rule: less_induct)
  case less
  show ?case
  proof (cases s)
    case (Cons c t)
    let ?n = "utf8_len (c # t)"
    have IH: "length r < length s" if "json_str u = Some (y, r)" "length u < length s" for u y
      using less(1) [OF that(2) that(1)] that(2) by simp
    have "length (drop ?n (c # t)) < length s" if "?n \<noteq> 0" using utf8_len_bounds [OF that] Cons by simp
    then show ?thesis
      using less(2) unfolding Cons json_str.simps
      by (auto simp: Let_def Cons map_option_case split: if_splits option.splits list.splits prod.splits dest!: IH json_rune_length)
  qed (use less(2) in \<open>simp add: json_str.simps\<close>)
qed

lemma skip_ws_length: "length (skip_ws s) \<le> length s"
  by (simp add: skip_ws_def length_dropWhile_le)

lemma skip_ws_cons: "skip_ws s = c # t \<Longrightarrow> length t < length s"
  using skip_ws_length [of s] by simp

lemma digits_length: "digits s = (ds, r) \<Longrightarrow> length ds + length r = length s"
  by (auto simp: digits_def) (metis length_append takeWhile_dropWhile_id)

lemma json_int_length: "json_int s = Some (x, r) \<Longrightarrow> length r < length s"
  by (auto simp: json_int_def digits_def length_dropWhile_le less_Suc_eq_le split: list.splits if_splits)

lemma json_frac_length: "json_frac s = Some (x, r) \<Longrightarrow> length r \<le> length s"
  by (auto simp: json_frac_def Let_def split: list.splits if_splits prod.splits dest!: digits_length)

lemma json_exp_length: "json_exp s = Some (x, r) \<Longrightarrow> length r \<le> length s"
  by (auto simp: json_exp_def Let_def split: list.splits if_splits prod.splits dest!: digits_length)

lemma json_num_length: "json_num s = Some (x, r) \<Longrightarrow> length r < length s"
proof -
  assume "json_num s = Some (x, r)"
  then obtain k i q p fr e where "json_int (drop k s) = Some (i, q)" "json_frac q = Some (fr, p)" "json_exp p = Some (e, r)"
    by (auto simp: json_num_def Let_def split: option.splits prod.splits)
  then have "length r < length (drop k s)" using json_int_length json_frac_length json_exp_length by (meson le_less_trans less_le_trans)
  then show ?thesis by simp
qed

lemma literal_length: "literal w v s = Some (x, r) \<Longrightarrow> w \<noteq> [] \<Longrightarrow> length r < length s"
  by (auto simp: literal_def split: if_splits) (metis diff_less length_greater_0_conv take_Nil)

lemma reader_length:
  "jval n s = Some (v, r) \<Longrightarrow> length r < length s"
  "jelems n s = Some (vs, r) \<Longrightarrow> length r < length s"
  "jfields n s = Some (fs, r) \<Longrightarrow> length r < length s"
proof (induction n s and n s and n s arbitrary: v r and vs r and fs r rule: jval_jelems_jfields.induct)
  case (2 n s)
  then show ?case
    by (auto simp: map_option_case split: if_splits option.splits list.splits prod.splits
        dest!: skip_ws_cons json_str_length json_num_length literal_length) (metis less_trans)+
next
  case (4 n s)
  then show ?case
    by (fastforce simp: map_option_case split: if_splits option.splits list.splits prod.splits dest!: skip_ws_cons)
next
  case (6 n s)
  then show ?case
    by (fastforce simp: map_option_case split: if_splits option.splits list.splits prod.splits dest!: skip_ws_cons json_str_length)
qed simp_all

lemma reader_fuel:
  "2 * length s < n \<Longrightarrow> 2 * length s < m \<Longrightarrow> jval n s = jval m s"
  "2 * length s + 1 < n \<Longrightarrow> 2 * length s + 1 < m \<Longrightarrow> jelems n s = jelems m s"
  "2 * length s + 1 < n \<Longrightarrow> 2 * length s + 1 < m \<Longrightarrow> jfields n s = jfields m s"
proof (induction n s and n s and n s arbitrary: m and m and m rule: jval_jelems_jfields.induct)
  case (2 n s)
  from 2(4) obtain k where k: "m = Suc k" by (cases m) auto
  have a: "jelems n t = jelems k t" if "skip_ws s = CHR ''['' # t" "skip_ws t = x # r" "x \<noteq> CHR '']''" for t x r
    using 2(1) [OF that(1) _ refl that(2,3), of k] skip_ws_cons [OF that(1)] 2(3,4) k by simp
  have b: "jfields n t = jfields k t" if "skip_ws s = CHR ''{'' # t" "skip_ws t = x # r" "x \<noteq> CHR ''}''" for t x r
    using 2(2) [OF that(1) _ _ refl that(2,3), of k] skip_ws_cons [OF that(1)] 2(3,4) k by simp
  show ?case
  proof (cases "skip_ws s")
    case (Cons c t)
    then show ?thesis using a [of t] b [of t] by (cases "skip_ws t") (simp_all add: k)
  qed (simp add: k)
next
  case (4 n s)
  from 4(4) obtain k where k: "m = Suc k" by (cases m) auto
  have v: "jval n s = jval k s" using 4(1) [of k] 4(3,4) k by simp
  have "jelems n r = jelems k r" if "jval n s = Some (a, b)" "skip_ws b = CHR '','' # r" for a b r
    using 4(2) [OF that(1) refl that(2)] reader_length(1) [OF that(1)] skip_ws_cons [OF that(2)] 4(3,4) k by auto
  then show ?case unfolding k jelems.simps v [symmetric] by (auto split: option.split list.split)
next
  case (6 n s)
  from 6(4) obtain k where k: "m = Suc k" by (cases m) auto
  have v: "jval n r = jval k r" if "skip_ws s = quotation # t" "json_str t = Some (x, u)" "skip_ws u = CHR '':'' # r" for t x u r
    using 6(1) [OF that(1) _ that(2) refl that(3), of k] skip_ws_cons [OF that(1)] json_str_length [OF that(2)] skip_ws_cons [OF that(3)] 6(3,4) k by simp
  have f: "jfields n q = jfields k q" if "skip_ws s = quotation # t" "json_str t = Some (x, u)" "skip_ws u = CHR '':'' # r"
    "jval n r = Some (w, p)" "skip_ws p = CHR '','' # q" for t x u r w p q
    using 6(2) [OF that(1) _ that(2) refl that(3) _ that(4) refl that(5), of k] skip_ws_cons [OF that(1)] json_str_length [OF that(2)]
      skip_ws_cons [OF that(3)] reader_length(1) [OF that(4)] skip_ws_cons [OF that(5)] 6(3,4) k by simp
  show ?case
  proof (cases "skip_ws s")
    case (Cons c t)
    show ?thesis
    proof (cases "c = quotation \<and> (\<exists>x u r. json_str t = Some (x, u) \<and> skip_ws u = CHR '':'' # r)")
      case True
      then obtain x u r where e: "c = quotation" "json_str t = Some (x, u)" "skip_ws u = CHR '':'' # r" by blast
      then show ?thesis using v [OF _ e(2,3)] f [OF _ e(2,3)] Cons by (auto simp: k split: list.split option.split)
    qed (auto simp: k Cons split: list.splits option.splits)
  qed (simp add: k)
qed simp_all

end
