(* ===== verification/Jwt.thy ===== *)
theory Jwt
  imports Api_Admin Go_Base64 Go_Json_Props
begin

text \<open>
  The tokens (\<^verbatim>\<open>internal/auth/jwt/jwt.go\<close>): claims and refresh tokens as JSON, signing and verification, issue and
  renewal.  The public-key signatures of the Go library are functions of the key store; loading and generating
  keys is an argument.  The clock is an argument, read once in each call.  Texts of errors of other packages are shortened.  The
  reader of JSON stores a repeated array from scratch.
\<close>

section \<open>Storing documents into structs\<close>

text \<open>Names of fields are compared without regard to case; two letters outside ASCII fold into it.\<close>

definition upper :: "byte \<Rightarrow> byte" where
  "upper c = (if CHR ''a'' \<le> c \<and> c \<le> CHR ''z'' then char_of (of_char c - 32 :: nat) else c)"

fun fold_name :: "byte list \<Rightarrow> byte list" where
  "fold_name [] = []"
| "fold_name (c # s) =
     (if c = CHR 0xC5 \<and> take 1 s = [CHR 0xBF] then CHR ''S'' # fold_name (drop 1 s)
      else if c = CHR 0xE2 \<and> take 2 s = [CHR 0x84, CHR 0xAA] then CHR ''K'' # fold_name (drop 2 s)
      else upper c # fold_name s)"

definition field_is :: "string \<Rightarrow> string \<Rightarrow> bool" where
  "field_is name key = (fold_name key = fold_name name)"

definition store_str :: "json \<Rightarrow> string \<Rightarrow> string option" where
  "store_str v old = (case v of JStr s \<Rightarrow> Some s | JNull \<Rightarrow> Some old | _ \<Rightarrow> None)"

definition store_int :: "json \<Rightarrow> int \<Rightarrow> int option" where
  "store_int v old = (case v of JNum l \<Rightarrow> parse_int64 l | JNull \<Rightarrow> Some old | _ \<Rightarrow> None)"

definition store_strs :: "json \<Rightarrow> string list option" where
  "store_strs v = (case v of JArr vs \<Rightarrow> those (map (\<lambda>x. store_str x []) vs) | JNull \<Rightarrow> Some [] | _ \<Rightarrow> None)"

fun store_fields :: "('k \<times> json \<Rightarrow> 'a \<Rightarrow> 'a option) \<Rightarrow> ('k \<times> json) list \<Rightarrow> 'a \<Rightarrow> 'a option" where
  "store_fields f [] c = Some c"
| "store_fields f (x # xs) c = (case f x c of None \<Rightarrow> None | Some c \<Rightarrow> store_fields f xs c)"

definition store_entry :: "string \<times> json \<Rightarrow> (string, string list) gomap \<Rightarrow> (string, string list) gomap option" where
  "store_entry x m = (case x of (k, v) \<Rightarrow> map_option (\<lambda>l. gm_put k l m) (store_strs v))"

definition store_map :: "json \<Rightarrow> (string, string list) gomap option \<Rightarrow> (string, string list) gomap option option" where
  "store_map v old =
     (case v of
        JObj fs \<Rightarrow> map_option Some (store_fields store_entry fs (case old of None \<Rightarrow> [] | Some m \<Rightarrow> m))
      | JNull \<Rightarrow> Some None
      | _ \<Rightarrow> None)"

section \<open>Claims\<close>

definition json_strs :: "string list \<Rightarrow> json" where
  "json_strs l = JArr (map JStr l)"

definition json_map :: "(string, string list) gomap \<Rightarrow> json" where
  "json_map m = JObj (map (\<lambda>(k, l). (k, json_strs l)) (sort_key fst m))"

definition omit :: "bool \<Rightarrow> string \<Rightarrow> json \<Rightarrow> (string \<times> json) list" where
  "omit absent k v = (if absent then [] else [(k, v)])"

definition claims_fields :: "Claims \<Rightarrow> (string \<times> json) list" where
  "claims_fields c =
     [(''sub'', JStr (cl_Subject c))] @ omit (cl_SubjectTy c = []) ''sty'' (JStr (cl_SubjectTy c)) @
     omit (cl_AccountID c = []) ''acc'' (JStr (cl_AccountID c)) @ omit (cl_Namespace c = []) ''ns'' (JStr (cl_Namespace c)) @
     omit (cl_Roles c = []) ''roles'' (json_strs (cl_Roles c)) @ omit (cl_Perms c = []) ''perms'' (json_strs (cl_Perms c)) @
     (case cl_Namespaces c of None \<Rightarrow> [] | Some m \<Rightarrow> omit (m = []) ''ns_perms'' (json_map m)) @
     omit (cl_Method c = []) ''method'' (JStr (cl_Method c)) @
     [(''iat'', JNum (print_int (cl_IssuedAt c))), (''exp'', JNum (print_int (cl_ExpiresAt c)))]"

definition json_of_claims :: "Claims \<Rightarrow> json" where
  "json_of_claims c = JObj (claims_fields c)"

definition zeroClaims :: Claims where
  "zeroClaims = \<lparr>cl_Subject = [], cl_SubjectTy = [], cl_AccountID = [], cl_Namespace = [], cl_Roles = [], cl_Perms = [],
     cl_Namespaces = None, cl_Method = [], cl_IssuedAt = 0, cl_ExpiresAt = 0\<rparr>"

definition claim_field :: "string \<times> json \<Rightarrow> Claims \<Rightarrow> Claims option" where
  "claim_field x c =
     (case x of (k, v) \<Rightarrow>
        if field_is ''sub'' k then map_option (\<lambda>y. c\<lparr>cl_Subject := y\<rparr>) (store_str v (cl_Subject c))
        else if field_is ''sty'' k then map_option (\<lambda>y. c\<lparr>cl_SubjectTy := y\<rparr>) (store_str v (cl_SubjectTy c))
        else if field_is ''acc'' k then map_option (\<lambda>y. c\<lparr>cl_AccountID := y\<rparr>) (store_str v (cl_AccountID c))
        else if field_is ''ns'' k then map_option (\<lambda>y. c\<lparr>cl_Namespace := y\<rparr>) (store_str v (cl_Namespace c))
        else if field_is ''roles'' k then map_option (\<lambda>y. c\<lparr>cl_Roles := y\<rparr>) (store_strs v)
        else if field_is ''perms'' k then map_option (\<lambda>y. c\<lparr>cl_Perms := y\<rparr>) (store_strs v)
        else if field_is ''ns_perms'' k then map_option (\<lambda>y. c\<lparr>cl_Namespaces := y\<rparr>) (store_map v (cl_Namespaces c))
        else if field_is ''method'' k then map_option (\<lambda>y. c\<lparr>cl_Method := y\<rparr>) (store_str v (cl_Method c))
        else if field_is ''iat'' k then map_option (\<lambda>y. c\<lparr>cl_IssuedAt := y\<rparr>) (store_int v (cl_IssuedAt c))
        else if field_is ''exp'' k then map_option (\<lambda>y. c\<lparr>cl_ExpiresAt := y\<rparr>) (store_int v (cl_ExpiresAt c))
        else Some c)"

definition unmarshal_struct :: "(string \<times> json \<Rightarrow> 'a \<Rightarrow> 'a option) \<Rightarrow> 'a \<Rightarrow> byte list \<Rightarrow> 'a option" where
  "unmarshal_struct f zero bs =
     (case json_parse bs of
        Some (JObj fs) \<Rightarrow> store_fields f fs zero
      | Some JNull \<Rightarrow> Some zero
      | _ \<Rightarrow> None)"

section \<open>Refresh tokens\<close>

record RefreshToken =
  rf_SubjectID :: string
  rf_SubjectType :: string
  rf_AccountID :: string
  rf_Roles :: "string list"
  rf_Namespaces :: "(string, string list) gomap option"
  rf_IssuedAt :: int
  rf_ExpiresAt :: int

definition refresh_fields :: "RefreshToken \<Rightarrow> (string \<times> json) list" where
  "refresh_fields r =
     [(''sid'', JStr (rf_SubjectID r)), (''sty'', JStr (rf_SubjectType r)), (''acc'', JStr (rf_AccountID r)),
      (''roles'', json_strs (rf_Roles r)), (''ns_perms'', case rf_Namespaces r of None \<Rightarrow> JNull | Some m \<Rightarrow> json_map m),
      (''iat'', JNum (print_int (rf_IssuedAt r))), (''exp'', JNum (print_int (rf_ExpiresAt r)))]"

definition json_of_refresh :: "RefreshToken \<Rightarrow> json" where
  "json_of_refresh r = JObj (refresh_fields r)"

definition zeroRefresh :: RefreshToken where
  "zeroRefresh = \<lparr>rf_SubjectID = [], rf_SubjectType = [], rf_AccountID = [], rf_Roles = [], rf_Namespaces = None,
     rf_IssuedAt = 0, rf_ExpiresAt = 0\<rparr>"

definition refresh_field :: "string \<times> json \<Rightarrow> RefreshToken \<Rightarrow> RefreshToken option" where
  "refresh_field x r =
     (case x of (k, v) \<Rightarrow>
        if field_is ''sid'' k then map_option (\<lambda>y. r\<lparr>rf_SubjectID := y\<rparr>) (store_str v (rf_SubjectID r))
        else if field_is ''sty'' k then map_option (\<lambda>y. r\<lparr>rf_SubjectType := y\<rparr>) (store_str v (rf_SubjectType r))
        else if field_is ''acc'' k then map_option (\<lambda>y. r\<lparr>rf_AccountID := y\<rparr>) (store_str v (rf_AccountID r))
        else if field_is ''roles'' k then map_option (\<lambda>y. r\<lparr>rf_Roles := y\<rparr>) (store_strs v)
        else if field_is ''ns_perms'' k then map_option (\<lambda>y. r\<lparr>rf_Namespaces := y\<rparr>) (store_map v (rf_Namespaces r))
        else if field_is ''iat'' k then map_option (\<lambda>y. r\<lparr>rf_IssuedAt := y\<rparr>) (store_int v (rf_IssuedAt r))
        else if field_is ''exp'' k then map_option (\<lambda>y. r\<lparr>rf_ExpiresAt := y\<rparr>) (store_int v (rf_ExpiresAt r))
        else Some r)"

section \<open>The manager\<close>

text \<open>
  Keys as what the cryptographic libraries compute with them: \<open>rsa.SignPKCS1v15\<close> and \<open>ecdsa.SignASN1\<close>, and the
  verifications that belong to the three kinds of keys.  \<open>PrivateKey.Sign\<close> of \<open>ed25519\<close> is called without options, and then panics
  whatever the key is.
\<close>

datatype privateKey =
    RSAKey "byte list \<Rightarrow> string + byte list"
  | ECDSAKey "byte list \<Rightarrow> string + byte list"
  | Ed25519Key
  | OtherKey

datatype publicKey =
    RSAPublic "byte list \<Rightarrow> byte list \<Rightarrow> bool"
  | ECDSAPublic "byte list \<Rightarrow> byte list \<Rightarrow> bool"
  | Ed25519Public "byte list \<Rightarrow> byte list \<Rightarrow> bool"
  | OtherPublic

record keyStore =
  ks_keyType :: string
  ks_keyID :: string
  ks_privateKey :: privateKey
  ks_publicKey :: publicKey

text \<open>\<open>sign\<close> and \<open>verify\<close>: two kinds of keys are applied to the digest of the data, the third to the data itself.\<close>

definition ks_sign :: "keyStore \<Rightarrow> byte list \<Rightarrow> (string + byte list) outcome" where
  "ks_sign ks body =
     (case ks_privateKey ks of
        RSAKey f \<Rightarrow> Ret (f (sha256 body))
      | ECDSAKey f \<Rightarrow> Ret (f (sha256 body))
      | Ed25519Key \<Rightarrow> Panic ''nil pointer dereference''
      | OtherKey \<Rightarrow> Ret (Inl ''unsupported key type''))"

definition ks_verify :: "keyStore \<Rightarrow> byte list \<Rightarrow> byte list \<Rightarrow> bool" where
  "ks_verify ks body sig =
     (case ks_publicKey ks of
        RSAPublic f \<Rightarrow> f (sha256 body) sig
      | ECDSAPublic f \<Rightarrow> f (sha256 body) sig
      | Ed25519Public f \<Rightarrow> f body sig
      | OtherPublic \<Rightarrow> False)"

record Manager =
  mg_keyStore :: "keyStore option"
  mg_AccessTokenTTL :: int
  mg_refreshTTL :: duration
  mg_hmacSecret :: "byte list"

text \<open>\<open>loaded\<close> is what the loader for the configured key gives, \<open>auto\<close> the key read from or generated in the data directory.\<close>

definition NewManager ::
  "string \<Rightarrow> string \<Rightarrow> int \<Rightarrow> string \<Rightarrow> string \<Rightarrow> keyStore option \<Rightarrow> keyStore option \<Rightarrow> Manager" where
  "NewManager privateKey keyType ttl hmacSecret dataDir loaded auto =
     \<lparr>mg_keyStore =
        (if privateKey \<noteq> [] then (if keyType \<in> {''RSA'', ''EC'', ''EdDSA''} then loaded else None)
         else if dataDir \<noteq> [] then auto else None),
      mg_AccessTokenTTL = ttl, mg_refreshTTL = 7 * 24 * 60 * 60 * 1000000000, mg_hmacSecret = hmacSecret\<rparr>"

definition unix :: "gtime \<Rightarrow> int" where
  "unix t = t div 1000000000"

definition access_ttl :: "Manager \<Rightarrow> duration" where
  "access_ttl m = (let ttl = to_i64 (mg_AccessTokenTTL m * 1000000000) in if ttl = 0 then 15 * 60 * 1000000000 else ttl)"

text \<open>\<open>int64(d.Seconds())\<close>, which rounds towards zero.\<close>

definition whole_seconds :: "duration \<Rightarrow> int" where
  "whole_seconds d = (if d < 0 then - ((- d) div 1000000000) else d div 1000000000)"

section \<open>Signing and verification\<close>

definition dot :: "string \<Rightarrow> string \<Rightarrow> string" where
  "dot a b = a @ CHR ''.'' # b"

definition signWithKey :: "keyStore \<Rightarrow> Claims \<Rightarrow> (string + string) outcome" where
  "signWithKey ks claims =
     (let header = JObj [(''alg'', JStr (ks_keyType ks)), (''kid'', JStr (ks_keyID ks)), (''typ'', JStr ''JWT'')];
          body = dot (RawURL_EncodeToString (jprint header)) (RawURL_EncodeToString (jprint (json_of_claims claims)))
      in map_outcome (map_sum id (\<lambda>sig. dot body (RawURL_EncodeToString sig))) (ks_sign ks body))"

definition signHMAC :: "byte list \<Rightarrow> Claims \<Rightarrow> string" where
  "signHMAC secret claims =
     (let header = JObj [(''alg'', JStr ''HS256''), (''typ'', JStr ''JWT'')];
          body = dot (RawURL_EncodeToString (jprint header)) (RawURL_EncodeToString (jprint (json_of_claims claims)))
      in dot body (RawURL_EncodeToString (hmacSHA256 body secret)))"

definition signClaims :: "Manager \<Rightarrow> Claims \<Rightarrow> (string + string) outcome" where
  "signClaims m claims =
     (case mg_keyStore m of
        Some ks \<Rightarrow> signWithKey ks claims
      | None \<Rightarrow> if length (mg_hmacSecret m) > 0 then Ret (Inr (signHMAC (mg_hmacSecret m) claims)) else Ret (Inl ''no signing key configured''))"

text \<open>The end of both verifications: the payload is decoded and must not have expired.\<close>

definition check_claims :: "gtime \<Rightarrow> string \<Rightarrow> string + Claims" where
  "check_claims now payloadEnc =
     (case RawURL_DecodeString payloadEnc of
        None \<Rightarrow> Inl ''illegal base64 data''
      | Some payload \<Rightarrow>
          (case unmarshal_struct claim_field zeroClaims payload of
             None \<Rightarrow> Inl ''json''
           | Some claims \<Rightarrow> if cl_ExpiresAt claims < unix now then Inl ''token expired'' else Inr claims))"

definition verifyWithKey :: "gtime \<Rightarrow> keyStore \<Rightarrow> string \<Rightarrow> string + Claims" where
  "verifyWithKey now ks token =
     (case splitToken token of
        [headerEnc, payloadEnc, sigEnc] \<Rightarrow>
          (case RawURL_DecodeString sigEnc of
             None \<Rightarrow> Inl ''illegal base64 data''
           | Some sig \<Rightarrow> if \<not> ks_verify ks (dot headerEnc payloadEnc) sig then Inl ''verification failed'' else check_claims now payloadEnc)
      | _ \<Rightarrow> Inl ''invalid token format'')"

definition verifyHMAC :: "gtime \<Rightarrow> byte list \<Rightarrow> string \<Rightarrow> string + Claims" where
  "verifyHMAC now secret token =
     (case splitToken token of
        [headerEnc, payloadEnc, sigEnc] \<Rightarrow>
          (case RawURL_DecodeString sigEnc of
             None \<Rightarrow> Inl ''illegal base64 data''
           | Some actual \<Rightarrow>
               if \<not> constTimeEqual (hmacSHA256 (dot headerEnc payloadEnc) secret) actual then Inl ''invalid signature''
               else check_claims now payloadEnc)
      | _ \<Rightarrow> Inl ''invalid token format'')"

definition VerifyAccessToken :: "gtime \<Rightarrow> Manager \<Rightarrow> string \<Rightarrow> string + Claims" where
  "VerifyAccessToken now m token =
     (case mg_keyStore m of
        Some ks \<Rightarrow> verifyWithKey now ks token
      | None \<Rightarrow> if length (mg_hmacSecret m) > 0 then verifyHMAC now (mg_hmacSecret m) token else Inl ''no signing key configured'')"

section \<open>Issue and renewal\<close>

definition generateRefreshToken ::
  "gtime \<Rightarrow> Manager \<Rightarrow> string \<Rightarrow> string \<Rightarrow> string \<Rightarrow> string list \<Rightarrow> (string, string list) gomap option \<Rightarrow> string" where
  "generateRefreshToken now m subjectID subjectType accountID roles namespaces =
     (let data = jprint (json_of_refresh \<lparr>rf_SubjectID = subjectID, rf_SubjectType = subjectType, rf_AccountID = accountID, rf_Roles = roles,
            rf_Namespaces = namespaces, rf_IssuedAt = unix now, rf_ExpiresAt = unix (now + mg_refreshTTL m)\<rparr>)
      in Std_EncodeToString (if length (mg_hmacSecret m) > 0 then data @ hmacSHA256 data (mg_hmacSecret m) else data))"

definition validateRefreshToken :: "gtime \<Rightarrow> Manager \<Rightarrow> string \<Rightarrow> string + RefreshToken" where
  "validateRefreshToken now m token =
     (case Std_DecodeString token of
        None \<Rightarrow> Inl ''illegal base64 data''
      | Some data \<Rightarrow>
          let body = take (length data - 32) data; mac = drop (length data - 32) data; signed = length (mg_hmacSecret m) > 0 in
          if signed \<and> length data < 32 then Inl ''invalid refresh token''
          else if signed \<and> \<not> constTimeEqual (hmacSHA256 body (mg_hmacSecret m)) mac then Inl ''invalid refresh token signature''
          else case unmarshal_struct refresh_field zeroRefresh (if signed then body else data) of
            None \<Rightarrow> Inl ''json''
          | Some rt \<Rightarrow> if rf_ExpiresAt rt < unix now then Inl ''refresh token expired'' else Inr rt)"

definition jwt_GenerateTokens :: "gtime \<Rightarrow> Manager \<Rightarrow> UserRow \<Rightarrow> (string + Tokens) outcome" where
  "jwt_GenerateTokens now m user =
     (let subjectType = (if u_Role user = ''admin'' then ''admin'' else ''user'');
          claims = \<lparr>cl_Subject = u_Username user, cl_SubjectTy = subjectType, cl_AccountID = u_Username user, cl_Namespace = [],
            cl_Roles = [u_Role user], cl_Perms = permissionsFromRole (u_Role user), cl_Namespaces = None, cl_Method = ''password'',
            cl_IssuedAt = unix now, cl_ExpiresAt = unix (now + access_ttl m)\<rparr>
      in case signClaims m claims of
           Panic p \<Rightarrow> Panic p
         | Ret (Inl e) \<Rightarrow> Ret (Inl e)
         | Ret (Inr access) \<Rightarrow>
             Ret (Inr \<lparr>tk_AccessToken = access,
                  tk_RefreshToken = generateRefreshToken now m (u_Username user) subjectType (u_Username user) [u_Role user] None,
                  tk_ExpiresIn = whole_seconds (access_ttl m), tk_TokenType = ''Bearer''\<rparr>))"

text \<open>The permissions are those of the first role; without roles the index is out of range.\<close>

definition jwt_RefreshTokens :: "gtime \<Rightarrow> Manager \<Rightarrow> string \<Rightarrow> (string + Tokens) outcome" where
  "jwt_RefreshTokens now m token =
     (case validateRefreshToken now m token of
        Inl e \<Rightarrow> Ret (Inl e)
      | Inr rt \<Rightarrow>
          (case rf_Roles rt of
             [] \<Rightarrow> Panic ''index out of range''
           | role # _ \<Rightarrow>
               (case signClaims m \<lparr>cl_Subject = rf_SubjectID rt, cl_SubjectTy = rf_SubjectType rt, cl_AccountID = rf_AccountID rt, cl_Namespace = [],
                    cl_Roles = rf_Roles rt, cl_Perms = permissionsFromRole role, cl_Namespaces = rf_Namespaces rt, cl_Method = ''refresh'',
                    cl_IssuedAt = unix now, cl_ExpiresAt = unix (now + access_ttl m)\<rparr> of
                  Panic p \<Rightarrow> Panic p
                | Ret (Inl e) \<Rightarrow> Ret (Inl e)
                | Ret (Inr access) \<Rightarrow>
                    Ret (Inr \<lparr>tk_AccessToken = access,
                         tk_RefreshToken = generateRefreshToken now m (rf_SubjectID rt) (rf_SubjectType rt) (rf_AccountID rt) (rf_Roles rt) (rf_Namespaces rt),
                         tk_ExpiresIn = whole_seconds (access_ttl m), tk_TokenType = ''Bearer''\<rparr>))))"

text \<open>The manager as the service uses it, at the given times of issue and of verification.\<close>

definition jwt_manager :: "gtime \<Rightarrow> Manager \<Rightarrow> JwtManager" where
  "jwt_manager now m =
     \<lparr>jm_GenerateTokens = jwt_GenerateTokens now m, jm_RefreshTokens = jwt_RefreshTokens now m, jm_VerifyAccessToken = VerifyAccessToken now m\<rparr>"

end
