(* ===== verification/Db_Props.thy ===== *)
theory Db_Props
  imports Db_Store
begin

text \<open>
  The metadata store: the constraints of the schema are kept by every operation, the table of users behaves as
  a map from names to accounts, and what the password provider reads from it.
\<close>

section \<open>Tables with a unique key and an identifier that grows\<close>

definition table_ok :: "('r \<Rightarrow> 'k) \<Rightarrow> ('r \<Rightarrow> int) \<Rightarrow> int \<Rightarrow> 'r list \<Rightarrow> bool" where
  "table_ok key rid n rows = (distinct (map key rows) \<and> distinct (map rid rows) \<and> (\<forall>r \<in> set rows. rid r \<le> n))"

lemma table_append:
  assumes "table_ok key rid n rows" "\<not> list_ex (\<lambda>x. key x = key r) rows" "rid r = n + 1"
  shows "table_ok key rid (n + 1) (rows @ [r])"
  using assms by (force simp: table_ok_def list_ex_iff)

lemma table_filter: "table_ok key rid n rows \<Longrightarrow> table_ok key rid n (filter P rows)"
  by (auto simp: table_ok_def distinct_map_filter)

lemma table_map:
  assumes "table_ok key rid n rows" "\<And>r. key (f r) = key r" "\<And>r. rid (f r) = rid r"
  shows "table_ok key rid n (map f rows)"
  using assms by (simp add: table_ok_def comp_def)

lemma table_find:
  assumes "table_ok key rid n rows" "r \<in> set rows"
  shows "find (\<lambda>x. key x = key r) rows = Some r"
  using assms by (induction rows) (auto simp: table_ok_def image_iff)

section \<open>The invariant\<close>

definition refs_ok :: "Store \<Rightarrow> bool" where
  "refs_ok s =
     ((\<forall>p \<in> set (tb_perms s). pr_User p \<in> u_ID ` set (tb_users s) \<and> pr_Namespace p \<in> ns_ID ` set (tb_namespaces s))
    \<and> (\<forall>q \<in> set (tb_queues s). qr_NamespaceID q \<in> ns_ID ` set (tb_namespaces s))
    \<and> (\<forall>g \<in> set (tb_groups s). gr_QueueID g \<in> qr_ID ` set (tb_queues s)))"

definition store_ok :: "Store \<Rightarrow> bool" where
  "store_ok s =
     (table_ok u_Username u_ID (tb_seq s ''users'') (tb_users s)
    \<and> table_ok ns_Name ns_ID (tb_seq s ''namespaces'') (tb_namespaces s)
    \<and> table_ok (\<lambda>p. (pr_User p, pr_Namespace p)) pr_ID (tb_seq s ''user_namespace_permissions'') (tb_perms s)
    \<and> table_ok (\<lambda>q. (qr_NamespaceID q, qr_Name q)) qr_ID (tb_seq s ''queues'') (tb_queues s)
    \<and> table_ok (\<lambda>g. (gr_QueueID g, gr_Key g)) gr_ID (tb_seq s ''groups'') (tb_groups s)
    \<and> list_all (\<lambda>u. u_Role u \<in> set validRoles) (tb_users s)
    \<and> list_all (\<lambda>n. namePattern (ns_Name n) \<and> length (ns_Name n) \<le> 64) (tb_namespaces s)
    \<and> (tb_fk s \<longrightarrow> refs_ok s))"

lemma emptyStore_ok: "store_ok (emptyStore fk)"
  by (simp add: store_ok_def emptyStore_def table_ok_def refs_ok_def)

text \<open>Deleting rows and then the rows that refer to them.\<close>

lemma cascade_fields [simp]:
  "tb_users (cascade s) = tb_users s" "tb_namespaces (cascade s) = tb_namespaces s" "tb_seq (cascade s) = tb_seq s"
  "tb_fk (cascade s) = tb_fk s"
  by (simp_all add: cascade_def Let_def)

lemma cascade_refs: "tb_fk s \<Longrightarrow> refs_ok (cascade s)"
  by (auto simp: cascade_def refs_ok_def Let_def)

lemma cascade_tables:
  "table_ok (\<lambda>p. (pr_User p, pr_Namespace p)) pr_ID n (tb_perms s) \<Longrightarrow> table_ok (\<lambda>p. (pr_User p, pr_Namespace p)) pr_ID n (tb_perms (cascade s))"
  "table_ok (\<lambda>q. (qr_NamespaceID q, qr_Name q)) qr_ID n (tb_queues s) \<Longrightarrow> table_ok (\<lambda>q. (qr_NamespaceID q, qr_Name q)) qr_ID n (tb_queues (cascade s))"
  "table_ok (\<lambda>g. (gr_QueueID g, gr_Key g)) gr_ID n (tb_groups s) \<Longrightarrow> table_ok (\<lambda>g. (gr_QueueID g, gr_Key g)) gr_ID n (tb_groups (cascade s))"
  by (simp_all add: cascade_def Let_def table_filter)

lemma list_all_filter: "list_all P xs \<Longrightarrow> list_all P (filter Q xs)"
  by (simp add: list_all_iff)

lemma delete_users_ok: "store_ok s \<Longrightarrow> store_ok (cascade (s\<lparr>tb_users := filter P (tb_users s)\<rparr>))"
  by (simp add: store_ok_def table_filter list_all_filter cascade_tables cascade_refs)

lemma delete_namespaces_ok: "store_ok s \<Longrightarrow> store_ok (cascade (s\<lparr>tb_namespaces := filter P (tb_namespaces s)\<rparr>))"
  by (simp add: store_ok_def table_filter list_all_filter cascade_tables cascade_refs)

lemma delete_queues_ok: "store_ok s \<Longrightarrow> store_ok (cascade (s\<lparr>tb_queues := filter P (tb_queues s)\<rparr>))"
  by (simp add: store_ok_def table_filter cascade_tables cascade_refs)

lemma delete_groups_ok: "store_ok s \<Longrightarrow> store_ok (s\<lparr>tb_groups := filter P (tb_groups s)\<rparr>)"
  by (auto simp: store_ok_def table_filter refs_ok_def)

section \<open>Every operation keeps the invariant\<close>

lemma insert_user_ok:
  assumes "store_ok s" "insert_user flt now u h e r s = Inr s'" "r \<in> set validRoles"
  shows "store_ok s'"
proof -
  have n: "\<not> list_ex (\<lambda>x. u_Username x = u) (tb_users s)" and
    s': "s' = (bump ''users'' s)\<lparr>tb_users := tb_users s @
            [\<lparr>u_Username = u, u_Email = e, u_Role = r, u_ID = next_row ''users'' s, u_PasswordHash = h,
              u_CreatedAt = now, u_UpdatedAt = now\<rparr>]\<rparr>"
    using assms(2) by (auto simp: insert_user_def split: option.splits if_splits)
  have "tb_fk s \<Longrightarrow> refs_ok s'" using assms(1) by (auto simp: s' store_ok_def refs_ok_def bump_def)
  then show ?thesis using assms(1,3) n
    by (auto simp: store_ok_def s' bump_def next_row_def intro!: table_append)
qed

lemma insert_namespace_ok:
  assumes "store_ok s" "insert_namespace flt now n c s = Inr s'" "namePattern n" "length n \<le> 64"
  shows "store_ok s'"
proof -
  have f: "\<not> list_ex (\<lambda>x. ns_Name x = n) (tb_namespaces s)" and
    s': "s' = (bump ''namespaces'' s)\<lparr>tb_namespaces := tb_namespaces s @
            [\<lparr>ns_ID = next_row ''namespaces'' s, ns_Name = n, ns_Config = c, ns_CreatedAt = now, ns_UpdatedAt = now\<rparr>]\<rparr>"
    using assms(2) by (auto simp: insert_namespace_def split: option.splits if_splits)
  have "tb_fk s \<Longrightarrow> refs_ok s'" using assms(1) by (auto simp: s' store_ok_def refs_ok_def bump_def)
  then show ?thesis using assms(1,3,4) f
    by (auto simp: store_ok_def s' bump_def next_row_def intro!: table_append)
qed

lemma insert_queue_ok:
  assumes "store_ok s" "insert_queue flt now nid n c s = Inr s'"
  shows "store_ok s'"
proof -
  have f: "\<not> list_ex (\<lambda>q. (qr_NamespaceID q, qr_Name q) = (nid, n)) (tb_queues s)" and
    fk: "tb_fk s \<longrightarrow> nid \<in> ns_ID ` set (tb_namespaces s)" and
    s': "s' = (bump ''queues'' s)\<lparr>tb_queues := tb_queues s @
            [\<lparr>qr_ID = next_row ''queues'' s, qr_NamespaceID = nid, qr_Name = n, qr_Config = c, qr_CreatedAt = now\<rparr>]\<rparr>"
    using assms(2) by (auto simp: insert_queue_def split: option.splits if_splits)
  have "tb_fk s \<Longrightarrow> refs_ok s'" using assms(1) fk by (auto simp: s' store_ok_def refs_ok_def bump_def)
  then show ?thesis using assms(1) f
    by (auto simp: store_ok_def s' bump_def next_row_def intro!: table_append)
qed

lemma upsert_group_ok:
  assumes I: "store_ok s" and r: "upsert_group flt now q k c s = Inr s'"
  shows "store_ok s'"
proof (cases "list_ex (\<lambda>g. gr_QueueID g = q \<and> gr_Key g = k) (tb_groups s)")
  case True
  then have s': "s' = s\<lparr>tb_groups := map (\<lambda>g. if gr_QueueID g = q \<and> gr_Key g = k then g\<lparr>gr_Config := c\<rparr> else g) (tb_groups s)\<rparr>"
    using r by (auto simp: upsert_group_def split: option.splits)
  have "tb_fk s \<Longrightarrow> refs_ok s'" using I by (auto simp: s' store_ok_def refs_ok_def)
  then show ?thesis using I by (auto simp: store_ok_def s' intro!: table_map)
next
  case False
  then have f: "\<not> list_ex (\<lambda>g. (gr_QueueID g, gr_Key g) = (q, k)) (tb_groups s)" by simp
  have fk: "tb_fk s \<longrightarrow> q \<in> qr_ID ` set (tb_queues s)" and s': "s' = (bump ''groups'' s)\<lparr>tb_groups := tb_groups s @
      [\<lparr>gr_ID = next_row ''groups'' s, gr_QueueID = q, gr_Key = k, gr_Config = c, gr_CreatedAt = now\<rparr>]\<rparr>"
    using r False by (auto simp: upsert_group_def split: option.splits if_splits)
  have "tb_fk s \<Longrightarrow> refs_ok s'" using I fk by (auto simp: s' store_ok_def refs_ok_def bump_def)
  then show ?thesis using I f
    by (auto simp: store_ok_def s' bump_def next_row_def intro!: table_append)
qed

lemma SetUserNamespacePermissions_ok:
  assumes I: "store_ok s" and r: "SetUserNamespacePermissions flt now u n ps s = (e, s')"
  shows "store_ok s'"
proof (cases "s' = s")
  case False
  let ?rest = "filter (\<lambda>p. \<not> (pr_User p = u \<and> pr_Namespace p = n)) (tb_perms s)"
  have fk: "tb_fk s \<longrightarrow> u \<in> u_ID ` set (tb_users s) \<and> n \<in> ns_ID ` set (tb_namespaces s)" and
    s': "s' = (bump ''user_namespace_permissions'' s)\<lparr>tb_perms := ?rest @
      [\<lparr>pr_ID = next_row ''user_namespace_permissions'' s, pr_User = u, pr_Namespace = n, pr_Permissions = ps, pr_CreatedAt = now\<rparr>]\<rparr>"
    using r False by (auto simp: SetUserNamespacePermissions_def split: option.splits if_splits)
  have t: "table_ok (\<lambda>p. (pr_User p, pr_Namespace p)) pr_ID (tb_seq s ''user_namespace_permissions'') ?rest"
    using I by (simp add: store_ok_def table_filter)
  have "\<not> list_ex (\<lambda>p. (pr_User p, pr_Namespace p) = (u, n)) ?rest" by (auto simp: list_ex_iff)
  moreover have "tb_fk s \<Longrightarrow> refs_ok s'" using I fk by (auto simp: s' store_ok_def refs_ok_def bump_def)
  ultimately show ?thesis using I t
    by (auto simp: store_ok_def s' bump_def next_row_def intro!: table_append)
qed (use I in simp)

lemma set_user_ok:
  assumes "store_ok s" "\<And>u. u_Username (f u) = u_Username u" "\<And>u. u_ID (f u) = u_ID u"
    "\<And>u. u_Role u \<in> set validRoles \<Longrightarrow> u_Role (f u) \<in> set validRoles"
  shows "store_ok (set_user now n f s)"
proof -
  have "map u_ID (tb_users (set_user now n f s)) = map u_ID (tb_users s)" using assms(3) by (simp add: set_user_def)
  then have "u_ID ` set (tb_users (set_user now n f s)) = u_ID ` set (tb_users s)" by (metis set_map)
  then have "tb_fk s \<Longrightarrow> refs_ok (set_user now n f s)"
    using assms(1) by (simp add: store_ok_def refs_ok_def) (simp add: set_user_def)
  then show ?thesis using assms by (auto simp: store_ok_def set_user_def list_all_iff intro!: table_map)
qed

lemma set_namespace_ok:
  assumes "store_ok s" "\<And>n. ns_Name (f n) = ns_Name n" "\<And>n. ns_ID (f n) = ns_ID n"
  shows "store_ok (s\<lparr>tb_namespaces := map f (tb_namespaces s)\<rparr>)"
proof -
  have "ns_ID ` set (map f (tb_namespaces s)) = ns_ID ` set (tb_namespaces s)" using assms(3) by (simp add: image_image)
  then have "tb_fk s \<Longrightarrow> refs_ok (s\<lparr>tb_namespaces := map f (tb_namespaces s)\<rparr>)"
    using assms(1) by (simp add: store_ok_def refs_ok_def)
  then show ?thesis using assms by (auto simp: store_ok_def list_all_iff intro!: table_map)
qed

lemma UpdateUser_tx_ok:
  assumes I: "store_ok s" and r: "UpdateUser_tx flt hsh now u e ro pw s = Inr s'" and v: "\<And>x. ro = Some x \<Longrightarrow> x \<in> set validRoles"
  shows "store_ok s'"
proof -
  have e: "store_ok (set_user now u (\<lambda>y. y\<lparr>u_Email := Some x\<rparr>) t)" if "store_ok t" for x t using that by (rule set_user_ok) simp_all
  have ro: "store_ok (set_user now u (\<lambda>y. y\<lparr>u_Role := x\<rparr>) t)" if "store_ok t" "x \<in> set validRoles" for x t
    using that(1) by (rule set_user_ok) (simp_all add: that(2))
  have pw: "store_ok (set_user now u (\<lambda>y. y\<lparr>u_PasswordHash := x\<rparr>) t)" if "store_ok t" for x t using that by (rule set_user_ok) simp_all
  show ?thesis using r v I unfolding UpdateUser_tx_def Let_def
    by (auto split: option.splits sum.splits intro!: e ro pw)
qed

lemma UpdateUser_ok: "store_ok s \<Longrightarrow> UpdateUser flt hsh now u e ro pw s = (err, s') \<Longrightarrow> store_ok s'"
  by (auto simp: UpdateUser_def split: if_splits option.splits sum.splits dest: UpdateUser_tx_ok)

lemma CreateUser_ok: "store_ok s \<Longrightarrow> CreateUser flt hsh now u e r s = (err, s') \<Longrightarrow> store_ok s'"
  by (auto simp: CreateUser_def split: if_splits sum.splits dest: insert_user_ok)

lemma DeleteUser_ok: "store_ok s \<Longrightarrow> DeleteUser flt u s = (err, s') \<Longrightarrow> store_ok s'"
  by (auto simp: DeleteUser_def DeleteUser_exec_def split: if_splits option.splits intro: delete_users_ok)

lemma SetUserNamespacePermissionsByName_ok:
  "store_ok s \<Longrightarrow> SetUserNamespacePermissionsByName flt now u n ps s = (err, s') \<Longrightarrow> store_ok s'"
  by (auto simp: SetUserNamespacePermissionsByName_def split: sum.splits dest: SetUserNamespacePermissions_ok)

lemma CreateNamespace_ok: "store_ok s \<Longrightarrow> CreateNamespace flt now n c s = (r, s') \<Longrightarrow> store_ok s'"
  by (auto simp: CreateNamespace_def split: if_splits sum.splits dest: insert_namespace_ok)

lemma UpdateNamespace_ok: "store_ok s \<Longrightarrow> UpdateNamespace flt now n c s = (r, s') \<Longrightarrow> store_ok s'"
  by (auto simp: UpdateNamespace_def Let_def split: if_splits option.splits intro!: set_namespace_ok)

lemma DeleteNamespace_ok: "store_ok s \<Longrightarrow> DeleteNamespace flt n s = (err, s') \<Longrightarrow> store_ok s'"
  by (auto simp: DeleteNamespace_def split: if_splits option.splits intro: delete_namespaces_ok)

lemma CreateQueue_ok: "store_ok s \<Longrightarrow> CreateQueue flt now i n c s = (r, s') \<Longrightarrow> store_ok s'"
  by (auto simp: CreateQueue_def split: if_splits sum.splits dest: insert_queue_ok)

lemma db_DeleteQueue_ok: "store_ok s \<Longrightarrow> db_DeleteQueue flt i n s = (err, s') \<Longrightarrow> store_ok s'"
  by (auto simp: db_DeleteQueue_def split: if_splits option.splits intro: delete_queues_ok)

lemma UpsertGroupConfig_ok: "store_ok s \<Longrightarrow> UpsertGroupConfig flt now i k c s = (err, s') \<Longrightarrow> store_ok s'"
  by (auto simp: UpsertGroupConfig_def split: if_splits sum.splits dest: upsert_group_ok)

lemma db_DeleteGroupConfig_ok: "store_ok s \<Longrightarrow> db_DeleteGroupConfig flt i k s = (err, s') \<Longrightarrow> store_ok s'"
  by (auto simp: db_DeleteGroupConfig_def split: if_splits option.splits intro: delete_groups_ok)

lemma seedDefaultData_ok:
  assumes "store_ok s" "seedDefaultData flt hsh now a s = (r, s')"
  shows "store_ok s'"
proof -
  have m: "namePattern ''main''" by (simp add: namePattern_def name_char_def)
  have ad: "''admin'' \<in> set validRoles" by (simp add: validRoles_def)
  define s1 where "s1 = (if (case flt 0 of Some _ \<Rightarrow> 0 | None \<Rightarrow> length (tb_namespaces s)) = 0
    then case insert_namespace (\<lambda>_. flt 1) now ''main'' ''{}'' s of Inl _ \<Rightarrow> s | Inr s \<Rightarrow> s else s)"
  have 1: "store_ok s1"
    using assms(1) insert_namespace_ok [OF assms(1) _ m] by (simp add: s1_def split: sum.split)
  have "s' = s1 \<or> (\<exists>f n h. insert_user f now n h None ''admin'' s1 = Inr s')"
    using assms(2) unfolding seedDefaultData_def Let_def s1_def [symmetric]
    by (simp split: if_splits sum.splits) blast+
  then show ?thesis using 1 insert_user_ok [OF 1 _ ad] by blast
qed

lemma store_init_ok: "store_ok s \<Longrightarrow> store_init flt hsh now a s = (r, s') \<Longrightarrow> store_ok s'"
  by (auto simp: store_init_def split: option.splits dest: seedDefaultData_ok)

lemmas store_ops_ok = CreateUser_ok UpdateUser_ok DeleteUser_ok SetUserNamespacePermissionsByName_ok CreateNamespace_ok UpdateNamespace_ok
  DeleteNamespace_ok CreateQueue_ok db_DeleteQueue_ok UpsertGroupConfig_ok db_DeleteGroupConfig_ok store_init_ok

section \<open>The table of users as a map\<close>

definition accounts :: "Store \<Rightarrow> string \<Rightarrow> UserRow option" where
  "accounts s n = find (\<lambda>u. u_Username u = n) (tb_users s)"

lemma GetUser_accounts: "GetUser flt n s = (case flt 0 of Some e \<Rightarrow> Inl (DbOther e) | None \<Rightarrow>
    (case accounts s n of None \<Rightarrow> Inl (DbNotFound ''not found'') | Some u \<Rightarrow> Inr u))"
  unfolding GetUser_def accounts_def ..

lemma accounts_name: "accounts s n = Some u \<Longrightarrow> u_Username u = n \<and> u \<in> set (tb_users s)"
  by (auto simp: accounts_def find_Some_iff)

lemma exists_account: "list_ex (\<lambda>u. u_Username u = n) (tb_users s) \<longleftrightarrow> accounts s n \<noteq> None"
  by (auto simp: accounts_def list_ex_iff find_None_iff)

lemma find_append_new: "find P (xs @ [x]) = (case find P xs of Some y \<Rightarrow> Some y | None \<Rightarrow> if P x then Some x else None)"
  by (induction xs) auto

lemma find_filter_other: "find (\<lambda>u. u_Username u = n) (filter (\<lambda>u. u_Username u \<noteq> m) us) = (if n = m then None else find (\<lambda>u. u_Username u = n) us)"
  by (induction us) auto

lemma find_map_key:
  assumes "\<And>u. u_Username (f u) = u_Username u"
  shows "find (\<lambda>u. u_Username u = n) (map f us) = map_option f (find (\<lambda>u. u_Username u = n) us)"
  using assms by (induction us) auto

lemma accounts_insert:
  assumes "insert_user flt now n h e r s = Inr s'"
  shows "accounts s n = None \<and> accounts s' = (accounts s)(n \<mapsto> \<lparr>u_Username = n, u_Email = e, u_Role = r, u_ID = next_row ''users'' s,
    u_PasswordHash = h, u_CreatedAt = now, u_UpdatedAt = now\<rparr>)"
  using assms by (auto simp: insert_user_def exists_account bump_def accounts_def find_append_new fun_eq_iff
      split: option.splits if_splits)

lemma accounts_set_user:
  assumes "\<And>u. u_Username (f u) = u_Username u"
  shows "accounts (set_user now n f s) k =
    (if k = n then map_option (\<lambda>u. (f u)\<lparr>u_UpdatedAt := now\<rparr>) (accounts s k) else accounts s k)"
proof -
  have "accounts (set_user now n f s) k =
      map_option (\<lambda>u. if u_Username u = n then (f u)\<lparr>u_UpdatedAt := now\<rparr> else u) (accounts s k)"
    using assms by (simp add: accounts_def set_user_def find_map_key)
  then show ?thesis by (cases "accounts s k") (auto dest: accounts_name)
qed

text \<open>What a patch does to an account: the fields that are given, and the time of the change if there is one.\<close>

definition edit_user :: "string \<Rightarrow> string option \<Rightarrow> string option \<Rightarrow> string option \<Rightarrow> UserRow \<Rightarrow> UserRow" where
  "edit_user now email role hash u =
     (let u = (case email of None \<Rightarrow> u | Some x \<Rightarrow> u\<lparr>u_Email := Some x, u_UpdatedAt := now\<rparr>);
          u = (case role of None \<Rightarrow> u | Some x \<Rightarrow> u\<lparr>u_Role := x, u_UpdatedAt := now\<rparr>)
      in (case hash of None \<Rightarrow> u | Some x \<Rightarrow> u\<lparr>u_PasswordHash := x, u_UpdatedAt := now\<rparr>))"

lemma accounts_tx:
  assumes "UpdateUser_tx flt hsh now n e r pw s = Inr s'"
  shows "\<exists>h. (pw = None \<longrightarrow> h = None) \<and> (pw \<noteq> None \<longrightarrow> (\<exists>x. hsh = Inr x \<and> h = Some x))
    \<and> accounts s' = (\<lambda>k. if k = n then map_option (edit_user now e r h) (accounts s k) else accounts s k)"
proof -
  define upd where "upd = (\<lambda>(v :: string option) f t. case v of None \<Rightarrow> t | Some x \<Rightarrow> set_user now n (f x) t)"
  define h where "h = (if pw = None then None else case hsh of Inl _ \<Rightarrow> None | Inr x \<Rightarrow> Some x)"
  have s': "s' = upd h (\<lambda>x u. u\<lparr>u_PasswordHash := x\<rparr>) (upd r (\<lambda>x u. u\<lparr>u_Role := x\<rparr>) (upd e (\<lambda>x u. u\<lparr>u_Email := Some x\<rparr>) s))"
    and h: "pw \<noteq> None \<Longrightarrow> \<exists>x. hsh = Inr x \<and> h = Some x"
    using assms by (auto simp: UpdateUser_tx_def Let_def upd_def h_def split: option.splits sum.splits)
  have "accounts s' k = (if k = n then map_option (edit_user now e r h) (accounts s k) else accounts s k)" for k
    by (cases "accounts s k"; cases e; cases r; cases h) (auto simp: s' upd_def accounts_set_user edit_user_def Let_def)
  then show ?thesis using h by (auto simp: h_def fun_eq_iff)
qed

lemma CreateUser_failed: "CreateUser flt hsh now n e r s = (Some err, s') \<Longrightarrow> s' = s"
  by (auto simp: CreateUser_def split: if_splits sum.splits)

lemma UpdateUser_failed: "UpdateUser flt hsh now n e r pw s = (Some err, s') \<Longrightarrow> s' = s"
  by (auto simp: UpdateUser_def split: if_splits option.splits sum.splits)

lemma DeleteUser_failed: "DeleteUser flt n s = (Some err, s') \<Longrightarrow> s' = s"
  by (auto simp: DeleteUser_def DeleteUser_exec_def split: if_splits option.splits)

lemma accounts_create:
  assumes "CreateUser flt (Inr h) now n e r s = (None, s')"
  shows "r \<in> set validRoles \<and> accounts s n = None \<and> accounts s' = (accounts s)(n \<mapsto> \<lparr>u_Username = n, u_Email = Some e, u_Role = r,
    u_ID = next_row ''users'' s, u_PasswordHash = h, u_CreatedAt = now, u_UpdatedAt = now\<rparr>)"
  using assms by (auto simp: CreateUser_def dest: accounts_insert split: if_splits sum.splits)

lemma accounts_update:
  assumes "UpdateUser flt (Inr h) now n e r pw s = (None, s')"
  shows "(\<forall>x. r = Some x \<longrightarrow> x \<in> set validRoles) \<and> (\<exists>u. accounts s n = Some u
    \<and> accounts s' = (accounts s)(n \<mapsto> edit_user now e r (case pw of None \<Rightarrow> None | Some _ \<Rightarrow> Some h) u))"
proof -
  have tx: "UpdateUser_tx flt (Inr h) now n e r pw s = Inr s'" and ex: "accounts s n \<noteq> None"
    and v: "\<forall>x. r = Some x \<longrightarrow> x \<in> set validRoles"
    using assms by (auto simp: UpdateUser_def exists_account split: if_splits option.splits sum.splits)
  obtain u where "accounts s n = Some u" using ex by blast
  moreover have "accounts s' = (\<lambda>k. if k = n then map_option (edit_user now e r (case pw of None \<Rightarrow> None | Some _ \<Rightarrow> Some h)) (accounts s k) else accounts s k)"
    using accounts_tx [OF tx] by (cases pw) auto
  ultimately show ?thesis using v by (auto simp: fun_eq_iff)
qed

lemma accounts_delete:
  assumes "DeleteUser flt n s = (None, s')"
  shows "accounts s' = (accounts s)(n := None) \<and>
    (\<exists>u. accounts s n = Some u \<and> (u_Role u = ''admin'' \<longrightarrow> 1 < length (admins s)))"
proof -
  have "s' = cascade (s\<lparr>tb_users := filter (\<lambda>u. u_Username u \<noteq> n) (tb_users s)\<rparr>)" and
    "\<exists>u. accounts s n = Some u \<and> (u_Role u = ''admin'' \<longrightarrow> 1 < length (admins s))"
    using assms by (auto simp: DeleteUser_def DeleteUser_exec_def DeleteUser_check_def GetUser_accounts split: if_splits option.splits sum.splits)
  then show ?thesis by (simp add: accounts_def find_filter_other fun_eq_iff)
qed

text \<open>
  [C19] The table of users is a map from names to accounts.  Whatever fails in the database or in bcrypt, an
  operation that returns an error leaves the whole store as it was.  A creation that succeeds had
  a free name and a known role and adds exactly this account; a change edits exactly
  the given fields of an existing account; a deletion removes exactly one account, and not that of the
  last administrator.  When nothing fails, these conditions are also enough.
\<close>

theorem users_refine:
  "(\<forall>flt e err s'. CreateUser flt hsh now n e r s = (Some err, s') \<longrightarrow> s' = s)
   \<and> (\<forall>flt e ro pw err s'. UpdateUser flt hsh now n e ro pw s = (Some err, s') \<longrightarrow> s' = s)
   \<and> (\<forall>flt err s'. DeleteUser flt n s = (Some err, s') \<longrightarrow> s' = s)
   \<and> (\<forall>flt e s'. CreateUser flt (Inr h) now n e r s = (None, s') \<longrightarrow> r \<in> set validRoles \<and> accounts s n = None
        \<and> accounts s' = (accounts s)(n \<mapsto> \<lparr>u_Username = n, u_Email = Some e, u_Role = r, u_ID = next_row ''users'' s, u_PasswordHash = h,
              u_CreatedAt = now, u_UpdatedAt = now\<rparr>))
   \<and> (\<forall>flt e ro pw s'. UpdateUser flt (Inr h) now n e ro pw s = (None, s') \<longrightarrow> (\<forall>x. ro = Some x \<longrightarrow> x \<in> set validRoles) \<and> (\<exists>u. accounts s n = Some u
        \<and> accounts s' = (accounts s)(n \<mapsto> edit_user now e ro (case pw of None \<Rightarrow> None | Some _ \<Rightarrow> Some h) u)))
   \<and> (\<forall>flt s'. DeleteUser flt n s = (None, s') \<longrightarrow> accounts s' = (accounts s)(n := None)
        \<and> (\<exists>u. accounts s n = Some u \<and> (u_Role u = ''admin'' \<longrightarrow> 1 < length (admins s))))
   \<and> (\<forall>e. fst (CreateUser no_faults (Inr h) now n e r s) = None \<longleftrightarrow> r \<in> set validRoles \<and> accounts s n = None)
   \<and> (\<forall>e ro pw. fst (UpdateUser no_faults (Inr h) now n e ro pw s) = None \<longleftrightarrow>
        accounts s n \<noteq> None \<and> (\<forall>x. ro = Some x \<longrightarrow> x \<in> set validRoles))
   \<and> (fst (DeleteUser no_faults n s) = None \<longleftrightarrow>
        (\<exists>u. accounts s n = Some u \<and> (u_Role u = ''admin'' \<longrightarrow> 1 < length (admins s))))"
proof -
  have c: "fst (CreateUser no_faults (Inr h) now n e r s) = None \<longleftrightarrow> r \<in> set validRoles \<and> accounts s n = None" for e
    by (auto simp: CreateUser_def insert_user_def no_faults_def exists_account)
  have tx: "\<exists>s'. UpdateUser_tx no_faults (Inr h) now n e ro pw s = Inr s'" for e ro pw
    by (auto simp: UpdateUser_tx_def Let_def no_faults_def split: option.splits)
  have u: "fst (UpdateUser no_faults (Inr h) now n e ro pw s) = None \<longleftrightarrow>
        accounts s n \<noteq> None \<and> (\<forall>x. ro = Some x \<longrightarrow> x \<in> set validRoles)" for e ro pw
    using tx [of e ro pw] unfolding UpdateUser_def exists_account by (auto simp: no_faults_def split: option.splits)
  have d: "fst (DeleteUser no_faults n s) = None \<longleftrightarrow> (\<exists>u. accounts s n = Some u \<and> (u_Role u = ''admin'' \<longrightarrow> 1 < length (admins s)))"
    by (auto simp: DeleteUser_def DeleteUser_exec_def DeleteUser_check_def GetUser_accounts exists_account no_faults_def split: option.splits)
  show ?thesis
    by (intro conjI allI impI; (rule c u d)?)
      (blast dest: CreateUser_failed UpdateUser_failed DeleteUser_failed accounts_create accounts_update accounts_delete)+
qed

theorem users_refine_witness:
  "accounts (snd (CreateUser no_faults (Inr ''h'') ''t'' ''ann'' ''a@x'' ''producer'' (emptyStore True))) =
     Map.empty(''ann'' \<mapsto> \<lparr>u_Username = ''ann'', u_Email = Some ''a@x'', u_Role = ''producer'', u_ID = 1, u_PasswordHash = ''h'',
       u_CreatedAt = ''t'', u_UpdatedAt = ''t''\<rparr>)"
proof -
  have "CreateUser no_faults (Inr ''h'') ''t'' ''ann'' ''a@x'' ''producer'' (emptyStore True) =
    (None, snd (CreateUser no_faults (Inr ''h'') ''t'' ''ann'' ''a@x'' ''producer'' (emptyStore True)))"
    by (simp add: CreateUser_def insert_user_def no_faults_def validRoles_def emptyStore_def)
  then show ?thesis
    using users_refine [of "Inr ''h''" "''t''" "''ann''" "''producer''" "emptyStore True" "''h''"]
    by (auto simp: accounts_def emptyStore_def next_row_def)
qed

section \<open>The constraints in every reachable state\<close>

text \<open>
  The steps of the store, with any failures.  The deletion of a user appears as the statement
  that deletes, so that other operations may come between the check and the deletion.
\<close>

inductive store_step :: "Store \<Rightarrow> Store \<Rightarrow> bool" where
  init: "store_init flt hsh now a s = (x, s') \<Longrightarrow> store_step s s'"
| create_user: "CreateUser flt hsh now n e r s = (x, s') \<Longrightarrow> store_step s s'"
| update_user: "UpdateUser flt hsh now n e ro pw s = (x, s') \<Longrightarrow> store_step s s'"
| delete_user: "DeleteUser_exec flt n s = (x, s') \<Longrightarrow> store_step s s'"
| set_permissions: "SetUserNamespacePermissions flt now u k ps s = (x, s') \<Longrightarrow> store_step s s'"
| create_namespace: "CreateNamespace flt now n c s = (y, s') \<Longrightarrow> store_step s s'"
| update_namespace: "UpdateNamespace flt now n c s = (y, s') \<Longrightarrow> store_step s s'"
| delete_namespace: "DeleteNamespace flt n s = (x, s') \<Longrightarrow> store_step s s'"
| create_queue: "CreateQueue flt now k n c s = (z, s') \<Longrightarrow> store_step s s'"
| delete_queue: "db_DeleteQueue flt k n s = (x, s') \<Longrightarrow> store_step s s'"
| upsert_group: "UpsertGroupConfig flt now k key c s = (x, s') \<Longrightarrow> store_step s s'"
| delete_group: "db_DeleteGroupConfig flt k key s = (x, s') \<Longrightarrow> store_step s s'"

lemma DeleteUser_exec_ok: "store_ok s \<Longrightarrow> DeleteUser_exec flt n s = (x, s') \<Longrightarrow> store_ok s'"
  by (auto simp: DeleteUser_exec_def split: if_splits option.splits intro: delete_users_ok)

lemma store_step_ok: "store_step s s' \<Longrightarrow> store_ok s \<Longrightarrow> store_ok s'"
  by (induction rule: store_step.induct)
    (blast intro: store_ops_ok DeleteUser_exec_ok SetUserNamespacePermissions_ok)+

text \<open>
  [C37] The constraints of the schema.  In every state that the operations of the store can reach, in any order and
  with any failures of the database, user names, namespace names, queues within a namespace, group keys within a
  queue and permissions of a user in a namespace are unique, so are the identifiers of the rows;
  every user has a role of the closed set and every namespace a well-formed name; and where the engine
  enforces foreign keys, no row refers to a row that is not there.
\<close>

theorem store_constraints:
  assumes "store_step\<^sup>*\<^sup>* (emptyStore fk) s"
  shows "store_ok s"
  using assms by (induction rule: rtranclp_induct) (auto simp: emptyStore_ok dest: store_step_ok)

theorem store_constraints_witness:
  "store_ok (snd (CreateUser no_faults (Inr ''h'') ''t'' ''ann'' ''a@x'' ''producer'' (emptyStore True)))
   \<and> length (tb_users (snd (CreateUser no_faults (Inr ''h'') ''t'' ''ann'' ''a@x'' ''producer'' (emptyStore True)))) = 1"
proof -
  have "store_step (emptyStore True) (snd (CreateUser no_faults (Inr ''h'') ''t'' ''ann'' ''a@x'' ''producer'' (emptyStore True)))"
    by (rule store_step.create_user [OF prod.collapse [symmetric]])
  from store_constraints [OF r_into_rtranclp [of store_step, OF this]] show ?thesis
    by (simp add: CreateUser_def insert_user_def no_faults_def validRoles_def emptyStore_def bump_def)
qed

section \<open>Gaps\<close>

lemma set_admins: "u \<in> set (admins s) \<longleftrightarrow> u \<in> set (tb_users s) \<and> u_Role u = ''admin''"
  by (auto simp: admins_def)

text \<open>
  The check for the last administrator and the deletion are separate statements outside of a
  transaction: two deletions of different administrators that run at the same time both pass the check.
\<close>

lemma admin_race:
  assumes "a \<noteq> b" "admins s = [x, y]" "u_Username x = a" "u_Username y = b" "store_ok s"
  shows "DeleteUser_check no_faults a s = None \<and> DeleteUser_check no_faults b s = None
    \<and> admins (snd (DeleteUser_exec no_faults b (snd (DeleteUser_exec no_faults a s)))) = []"
proof -
  have xy: "x \<in> set (tb_users s)" "y \<in> set (tb_users s)" using set_admins [of x s] set_admins [of y s] assms(2) by simp_all
  have t: "table_ok u_Username u_ID (tb_seq s ''users'') (tb_users s)" using assms(5) by (simp add: store_ok_def)
  have "accounts s a = Some x" "accounts s b = Some y"
    using table_find [OF t xy(1)] table_find [OF t xy(2)] assms(3,4) by (simp_all add: accounts_def)
  moreover have "accounts (cascade (s\<lparr>tb_users := filter (\<lambda>u. u_Username u \<noteq> a) (tb_users s)\<rparr>)) b = Some y"
    using calculation(2) assms(1) by (simp add: accounts_def find_filter_other)
  moreover have "filter (\<lambda>u. u_Username u \<noteq> b \<and> u_Username u \<noteq> a \<and> u_Role u = ''admin'') (tb_users s) = []"
  proof -
    have "u = x \<or> u = y" if "u \<in> set (tb_users s)" "u_Role u = ''admin''" for u using set_admins [of u s] assms(2) that by simp
    then show ?thesis using assms(3,4) by (auto simp: filter_empty_conv)
  qed
  moreover have "DeleteUser_exec no_faults n t = (None, cascade (t\<lparr>tb_users := filter (\<lambda>u. u_Username u \<noteq> n) (tb_users t)\<rparr>))"
    if "accounts t n \<noteq> None" for n t
    using that unfolding DeleteUser_exec_def exists_account by (simp add: no_faults_def)
  ultimately show ?thesis using assms(2)
    by (simp add: DeleteUser_check_def GetUser_accounts no_faults_def) (simp add: admins_def conj_ac)
qed

text \<open>A patch may take the role of the last administrator away; only the deletion looks at it.\<close>

lemma last_admin_demoted:
  assumes "accounts s n = Some u" "admins s = [u]" "store_ok s"
  shows "\<exists>s'. UpdateUser no_faults (Inr h) now n None (Some ''producer'') None s = (None, s') \<and> admins s' = []"
proof -
  have n: "u_Username u = n" using accounts_name [OF assms(1)] by simp
  let ?s' = "set_user now n (\<lambda>y. y\<lparr>u_Role := ''producer''\<rparr>) s"
  have "UpdateUser no_faults (Inr h) now n None (Some ''producer'') None s = (None, ?s')"
    using assms(1) by (simp add: UpdateUser_def UpdateUser_tx_def exists_account no_faults_def validRoles_def)
  moreover have "u_Username x = n" if "x \<in> set (tb_users s)" "u_Role x = ''admin''" for x
    using assms(2) n that set_admins [of x s] by simp
  then have "admins ?s' = []" by (auto simp: admins_def set_user_def filter_empty_conv)
  ultimately show ?thesis by blast
qed

end
