(* ===== verification/Admin_Props.thy ===== *)
theory Admin_Props
  imports Api_Admin Db_Props
begin

text \<open>
  The management of users, namespaces and API keys: who can change accounts, that an administrator remains, what
  a created account and a granted permission are worth, and the operations that can never succeed.
\<close>

section \<open>The password provider over the store\<close>

text \<open>What the provider relies on of the user database: a record that is found has the name that was asked for.\<close>

locale user_directory =
  fixes db :: userdb
  assumes named: "db_GetUser db n = Some r \<Longrightarrow> u_Username r = n"
begin

lemma password_identity:
  assumes "password_Authenticate db now req = Inr (Some i)"
  shows "db_CheckPassword db (ar_Username req) (ar_Password req) \<and> (\<exists>r. db_GetUser db (ar_Username req) = Some r
    \<and> id_SubjectID i = ar_Username req \<and> id_Roles i = [u_Role r]
    \<and> (IsAdmin i \<longleftrightarrow> u_Role r = ''admin'') \<and> (CanManageUsers i \<longleftrightarrow> u_Role r = ''admin''))"
proof -
  obtain r where r: "db_GetUser db (ar_Username req) = Some r" "db_CheckPassword db (ar_Username req) (ar_Password req)"
    "id_SubjectID i = u_Username r" "id_Roles i = [u_Role r]" "id_Permissions i = Some (resolvePermissions (u_Role r))"
    "id_SubjectType i = (if u_Role r = ''admin'' then SubjectAdmin else SubjectUser)"
    using assms by (auto simp: password_Authenticate_def Let_def split: if_splits option.splits)
  have "CanManageUsers i \<longleftrightarrow> u_Role r = ''admin''" "HasPermission PermAdmin i \<longleftrightarrow> u_Role r = ''admin''"
    using r(5) by (auto simp: CanManageUsers_def HasPermission_def resolvePermissions_def NewPermissionSet_def ps_Has_def ps_Add_def
        PermPublish_def PermConsume_def PermAck_def PermNack_def PermManageQueues_def PermManageUsers_def PermMetricsRead_def
        PermAuditRead_def PermAdmin_def update_conv')
  then show ?thesis using r named [OF r(1)] by (simp add: IsAdmin_def SubjectAdmin_def SubjectUser_def)
qed

end

interpretation store_users: user_directory "store_userdb flt matches s" for flt matches s
  by unfold_locales (auto simp: store_userdb_def GetUser_accounts User.truncate_def split: option.splits dest: accounts_name)

text \<open>
  Password logins.  The password provider over the store accepts only on behalf of an existing
  account whose stored hash matches the password; the identity carries the name of the account and its
  role, and it has the rights of an administrator just when the role is administrator.
\<close>

lemma password_login:
  assumes "password_Authenticate (store_userdb no_faults matches s) now req = Inr (Some i)"
  shows "\<exists>u. accounts s (id_SubjectID i) = Some u \<and> id_SubjectID i = ar_Username req
    \<and> matches (u_PasswordHash u) (ar_Password req) \<and> id_Roles i = [u_Role u]
    \<and> (IsAdmin i \<longleftrightarrow> u_Role u = ''admin'') \<and> (CanManageUsers i \<longleftrightarrow> u_Role u = ''admin'')"
  using store_users.password_identity [OF assms]
  by (auto simp: store_userdb_def CheckPassword_def GetUser_accounts no_faults_def User.truncate_def split: option.splits)

definition demo_store :: Store where
  "demo_store = snd (seedDefaultData no_faults (Inr ''hash'') ''now'' [] (emptyStore True))"

definition demo_match :: "string \<Rightarrow> string \<Rightarrow> bool" where
  "demo_match h p = (h = ''hash'' \<and> p = ''pw'')"

definition demo_login :: "string + Identity option" where
  "demo_login = password_Authenticate (store_userdb no_faults demo_match demo_store) 0
     (noRequest\<lparr>ar_Username := ''admin'', ar_Password := ''pw''\<rparr>)"

lemma demo_store_eval: "tb_users demo_store = [\<lparr>u_Username = ''admin'', u_Email = None, u_Role = ''admin'', u_ID = 1,
    u_PasswordHash = ''hash'', u_CreatedAt = ''now'', u_UpdatedAt = ''now''\<rparr>]"
  by (simp add: demo_store_def seedDefaultData_def emptyStore_def insert_namespace_def insert_user_def bump_def next_row_def no_faults_def)

lemma demo_login_some: "\<exists>i. demo_login = Inr (Some i)"
  by (simp add: demo_login_def password_Authenticate_def noRequest_def store_userdb_def CheckPassword_def GetUser_accounts accounts_def
      demo_store_eval no_faults_def demo_match_def Let_def)

section \<open>The middleware and the operations behind it\<close>

fun store_request :: "admin_request \<Rightarrow> bool" where
  "store_request (LoginReq _ _ _) = False"
| "store_request (RefreshReq _) = False"
| "store_request (LogoutReq _) = False"
| "store_request (CreateKeyReq _ _ _ _) = False"
| "store_request (ListKeysReq _) = False"
| "store_request (RevokeKeyReq _) = False"
| "store_request PermissionsReq = False"
| "store_request _ = True"

lemma path_needs_auth: "needsAuth (request_path req) \<longleftrightarrow> store_request req"
  by (cases req) (simp_all add: needsAuth_def has_prefix_def)

lemma handle_store:
  "store_request req \<Longrightarrow> admin_handle flt req (Some i) (svc, s) = (let (a, s) = guarded flt req i s in (a, svc, s))"
  by (cases req) (simp_all add: requireAuth_def)

lemma handle_anonymous: "\<not> store_request req \<Longrightarrow> snd (admin_handle flt req None (svc, s)) = (svc, s)"
  by (cases req) (simp_all add: create_api_key_def revoke_api_key_def)

lemma serve_valid:
  assumes "store_request req" "has_prefix header ''Bearer ''" "VerifyToken (drop 7 header) svc = Inr i"
  shows "serve flt header req (svc, s) = (fst (guarded flt req i s), svc, snd (guarded flt req i s))"
  using assms by (simp add: serve_def authMiddleware_def path_needs_auth handle_store split: prod.split)

text \<open>What a request does: it is refused, or it needs no identity and changes nothing, or its bearer token is valid.\<close>

lemma serve_cases:
  obtains (refused) e where "serve flt header req (svc, s) = (Ret (Inl e), svc, s)" "store_request req"
  | (open_path) a where "serve flt header req (svc, s) = (a, svc, s)" "\<not> store_request req" "a = fst (admin_handle flt req None (svc, s))"
  | (valid) i a s' where "has_prefix header ''Bearer ''" "VerifyToken (drop 7 header) svc = Inr i" "store_request req"
      "guarded flt req i s = (a, s')" "serve flt header req (svc, s) = (a, svc, s')"
proof (cases "store_request req")
  case True
  show thesis
  proof (cases "has_prefix header ''Bearer ''")
    case bearer: True
    show thesis
    proof (cases "VerifyToken (drop 7 header) svc")
      case (Inr i)
      obtain a s' where g: "guarded flt req i s = (a, s')" by fastforce
      then have "serve flt header req (svc, s) = (a, svc, s')"
        using serve_valid [OF True bearer Inr, of flt s] by simp
      from valid [OF bearer Inr True g this] show thesis .
    qed (use True bearer refused in \<open>simp add: serve_def authMiddleware_def path_needs_auth\<close>)
  qed (use True refused in \<open>simp add: serve_def authMiddleware_def path_needs_auth\<close>)
next
  case False
  then have "serve flt header req (svc, s) = admin_handle flt req None (svc, s)"
    by (simp add: serve_def authMiddleware_def path_needs_auth)
  then show thesis using False handle_anonymous [OF False, of flt svc s] open_path
    by (metis prod.collapse)
qed

text \<open>
  [C38] Keys cannot be managed.  The middleware looks for an identity only on the paths of namespaces, users,
  queues and metrics, and the API keys are under another path: every request to create, list or
  revoke a key is refused with status 401, whatever its token, and no request of the
  management interface changes the keys of the service.
\<close>

theorem key_requests_refused:
  "snd (serve flt header (CreateKeyReq random name ns perms) st) = st
   \<and> fst (serve flt header (CreateKeyReq random name ns perms) st) = Ret (Inl (Status 401 ''unauthorized''))
   \<and> fst (serve flt header (ListKeysReq it) st) = Ret (Inl (Status 401 ''unauthorized''))
   \<and> fst (serve flt header (RevokeKeyReq key) st) = Ret (Inl (Status 401 ''unauthorized''))
   \<and> fst (snd (serve flt header req st)) = fst st"
proof -
  obtain svc s where st: "st = (svc, s)" by fastforce
  have "fst (snd (serve flt header req (svc, s))) = svc" by (rule serve_cases [of flt header req svc s]) simp_all
  then show ?thesis
    by (simp add: st serve_def authMiddleware_def needsAuth_def has_prefix_def create_api_key_def list_api_keys_def revoke_api_key_def)
qed

section \<open>Who changes accounts\<close>

definition manages :: "Identity \<Rightarrow> bool" where
  "manages i = (IsAdmin i \<or> CanManageUsers i)"

lemma namespace_ops_users:
  "tb_users (snd (CreateNamespace flt now n c s)) = tb_users s"
  "tb_users (snd (UpdateNamespace flt now n c s)) = tb_users s"
  "tb_users (snd (DeleteNamespace flt n s)) = tb_users s"
  by (auto simp: CreateNamespace_def UpdateNamespace_def DeleteNamespace_def insert_namespace_def bump_def Let_def
      split: option.splits sum.splits if_splits)

lemma permission_ops_users: "tb_users (snd (SetUserNamespacePermissionsByName flt now u n ps s)) = tb_users s"
  by (auto simp: SetUserNamespacePermissionsByName_def SetUserNamespacePermissions_def bump_def split: option.splits sum.splits)

lemma snd_namespace_answer [simp]: "snd (namespace_answer r) = snd r"
  by (auto simp: namespace_answer_def split: prod.splits sum.splits)

lemma guarded_namespaces:
  "tb_users (snd (create_namespace flt now n c s)) = tb_users s" "tb_users (snd (update_namespace flt now n c s)) = tb_users s"
  "tb_users (snd (delete_namespace flt n s)) = tb_users s"
  using namespace_ops_users(3) [of flt n s]
  by (auto simp: create_namespace_def update_namespace_def delete_namespace_def namespace_ops_users(1,2) split: prod.splits option.splits)

lemma guarded_permissions:
  "tb_users (snd (set_user_permissions flt now u n ps i s)) = tb_users s" "tb_users (snd (delete_user_permissions flt now u n i s)) = tb_users s"
  using permission_ops_users [of flt now u n ps s] permission_ops_users [of flt now u n "[]" s]
  by (auto simp: set_user_permissions_def delete_user_permissions_def split: prod.splits option.splits)

text \<open>The states after the operations on accounts.\<close>

lemma snd_create_user: "snd (create_user flt hsh now u e r i s) = (if manages i then snd (CreateUser flt hsh now u e r s) else s)"
  by (auto simp: create_user_def manages_def split: prod.splits option.splits)

lemma snd_update_user:
  "snd (update_user flt hsh now u e r pw i s) = (if manages i \<or> id_SubjectID i = u then snd (UpdateUser flt hsh now u e r pw s) else s)"
  by (auto simp: update_user_def manages_def split: prod.splits option.splits)

lemma snd_delete_user: "snd (delete_user flt u i s) = (if manages i then snd (DeleteUser flt u s) else s)"
  by (auto simp: delete_user_def manages_def split: prod.splits option.splits)

lemma UpdateUser_others: "k \<noteq> n \<Longrightarrow> accounts (snd (UpdateUser flt hsh now n e r pw s)) k = accounts s k"
  using accounts_tx by (fastforce simp: UpdateUser_def split: option.splits sum.splits if_splits)

lemmas guarded_users = guarded_namespaces guarded_permissions snd_create_user snd_update_user snd_delete_user

lemma guarded_changes:
  assumes "tb_users (snd (guarded flt req i s)) \<noteq> tb_users s" "\<not> manages i"
  shows "\<exists>hsh now e r pw. req = PatchUserReq hsh now (id_SubjectID i) e r pw
    \<and> (\<forall>k. k \<noteq> id_SubjectID i \<longrightarrow> accounts (snd (guarded flt req i s)) k = accounts s k)"
  using assms by (cases req) (auto simp: guarded_users UpdateUser_others split: if_splits)

text \<open>
  [C15] Who changes accounts.  When a request changes the table of users, it carried a bearer token that the service
  accepts for some identity, and that identity is an administrator or may manage users, or the
  request patches the account of that identity and leaves all other accounts as they are.
\<close>

theorem accounts_guarded:
  assumes "serve flt header req (svc, s) = (a, svc', s')" "tb_users s' \<noteq> tb_users s"
  shows "\<exists>i. has_prefix header ''Bearer '' \<and> VerifyToken (drop 7 header) svc = Inr i
    \<and> (IsAdmin i \<or> CanManageUsers i
       \<or> (\<exists>hsh now e r pw. req = PatchUserReq hsh now (id_SubjectID i) e r pw
            \<and> (\<forall>k. k \<noteq> id_SubjectID i \<longrightarrow> accounts s' k = accounts s k)))"
proof (rule serve_cases [of flt header req svc s])
  fix i a' s1
  assume v: "has_prefix header ''Bearer ''" "VerifyToken (drop 7 header) svc = Inr i" "guarded flt req i s = (a', s1)"
    "serve flt header req (svc, s) = (a', svc, s1)"
  then have "snd (guarded flt req i s) = s'" using assms(1) by simp
  then show ?thesis using guarded_changes [of flt req i s] assms(2) v(1,2) by (auto simp: manages_def)
qed (use assms in simp_all)

text \<open>A service whose token manager accepts one token, of an administrator.\<close>

definition demo_service :: Service where
  "demo_service = \<lparr>sv_jwtMgr = Some \<lparr>jm_GenerateTokens = (\<lambda>u. Ret (Inr \<lparr>tk_AccessToken = ''tok'', tk_RefreshToken = ''ref'', tk_ExpiresIn = 900, tk_TokenType = ''Bearer''\<rparr>)),
       jm_RefreshTokens = (\<lambda>_. Ret (Inl ''expired'')),
       jm_VerifyAccessToken = (\<lambda>t. if t = ''tok'' then Inr \<lparr>cl_Subject = ''admin'', cl_SubjectTy = ''admin'', cl_AccountID = ''admin'', cl_Namespace = [],
         cl_Roles = [''admin''], cl_Perms = permissionsFromRole ''admin'', cl_Namespaces = None, cl_Method = ''password'', cl_IssuedAt = 0, cl_ExpiresAt = 900\<rparr>
         else Inl ''invalid token format'')\<rparr>,
     sv_apiKeyAuth = NewAPIKeyAuthenticator ''flw_'' 20 ''s'', sv_keyPrefix = ''flw_'', sv_policy = NewPolicy\<rparr>"

definition demo_admin :: Identity where
  "demo_admin = ToIdentity \<lparr>cl_Subject = ''admin'', cl_SubjectTy = ''admin'', cl_AccountID = ''admin'', cl_Namespace = [],
     cl_Roles = [''admin''], cl_Perms = permissionsFromRole ''admin'', cl_Namespaces = None, cl_Method = ''password'', cl_IssuedAt = 0, cl_ExpiresAt = 900\<rparr>"

lemma demo_token: "VerifyToken ''tok'' demo_service = Inr demo_admin"
  by (simp add: VerifyToken_def demo_service_def demo_admin_def)

lemma demo_manages: "CanManageUsers demo_admin"
  by code_simp

lemma demo_serve: "store_request req \<Longrightarrow> serve flt ''Bearer tok'' req (demo_service, s) =
    (fst (guarded flt req demo_admin s), demo_service, snd (guarded flt req demo_admin s))"
  by (rule serve_valid) (simp_all add: has_prefix_def demo_token)

definition demo_create :: admin_request where
  "demo_create = CreateUserReq (Inr ''h'') ''t'' ''ann'' ''a@x'' ''producer''"

lemma demo_create_users:
  "tb_users (snd (guarded no_faults demo_create demo_admin demo_store)) = tb_users demo_store @
     [\<lparr>u_Username = ''ann'', u_Email = Some ''a@x'', u_Role = ''producer'', u_ID = next_row ''users'' demo_store, u_PasswordHash = ''h'',
       u_CreatedAt = ''t'', u_UpdatedAt = ''t''\<rparr>]"
  by (simp add: demo_create_def snd_create_user manages_def demo_manages CreateUser_def insert_user_def demo_store_eval no_faults_def validRoles_def)

theorem accounts_guarded_witness:
  "\<exists>i. VerifyToken (drop 7 ''Bearer tok'') demo_service = Inr i
    \<and> tb_users (snd (snd (serve no_faults ''Bearer tok'' demo_create (demo_service, demo_store)))) \<noteq> tb_users demo_store
    \<and> (IsAdmin i \<or> CanManageUsers i)"
proof -
  have s: "serve no_faults ''Bearer tok'' demo_create (demo_service, demo_store) =
      (fst (guarded no_faults demo_create demo_admin demo_store), demo_service, snd (guarded no_faults demo_create demo_admin demo_store))"
    by (rule demo_serve) (simp add: demo_create_def)
  have c: "tb_users (snd (guarded no_faults demo_create demo_admin demo_store)) \<noteq> tb_users demo_store"
    by (simp add: demo_create_users)
  show ?thesis using accounts_guarded [OF s c] s c by (auto simp: demo_create_def)
qed

section \<open>An administrator remains\<close>

type_synonym http_request = "faults \<times> string \<times> admin_request"

fun serve_run :: "http_request list \<Rightarrow> Service \<times> Store \<Rightarrow> Service \<times> Store" where
  "serve_run [] st = st"
| "serve_run ((flt, header, req) # rs) st = serve_run rs (snd (serve flt header req st))"

text \<open>Patches that give an account a role other than administrator are left out.\<close>

fun keeps_roles :: "admin_request \<Rightarrow> bool" where
  "keeps_roles (PatchUserReq _ _ _ _ r _) = (r = None \<or> r = Some ''admin'')"
| "keeps_roles _ = True"

definition has_admin :: "Store \<Rightarrow> bool" where
  "has_admin s = (\<exists>n u. accounts s n = Some u \<and> u_Role u = ''admin'')"

lemma has_admin_admins: "store_ok s \<Longrightarrow> has_admin s \<longleftrightarrow> admins s \<noteq> []"
proof
  assume "store_ok s" "admins s \<noteq> []"
  then obtain u where u: "u \<in> set (tb_users s)" "u_Role u = ''admin''" by (metis list.set_sel(1) set_admins)
  moreover have "accounts s (u_Username u) = Some u"
    using \<open>store_ok s\<close> table_find [OF _ u(1)] by (auto simp: store_ok_def accounts_def)
  ultimately show "has_admin s" by (auto simp: has_admin_def)
qed (auto simp: has_admin_def dest!: accounts_name set_admins [THEN iffD2, OF conjI])

lemma create_keeps_admin: "has_admin s \<Longrightarrow> CreateUser flt hsh now n e r s = (x, s') \<Longrightarrow> has_admin s'"
proof (cases x)
  case None
  assume a: "has_admin s" "CreateUser flt hsh now n e r s = (x, s')"
  obtain h where "hsh = Inr h" using a None by (cases hsh) (auto simp: CreateUser_def split: if_splits)
  then obtain row where row: "accounts s n = None" "accounts s' = (accounts s)(n \<mapsto> row)" using a None accounts_create by blast
  obtain k u where u: "accounts s k = Some u" "u_Role u = ''admin''" using a(1) by (auto simp: has_admin_def)
  then have "accounts s' k = Some u" using row by auto
  then show ?thesis using u(2) unfolding has_admin_def by blast
qed (auto dest: CreateUser_failed)

lemma edit_keeps_admin: "r = None \<or> r = Some ''admin'' \<Longrightarrow> u_Role u = ''admin'' \<Longrightarrow> u_Role (edit_user now e r h u) = ''admin''"
  by (auto simp: edit_user_def Let_def split: option.splits)

lemma update_keeps_admin:
  assumes "has_admin s" "UpdateUser flt hsh now n e r pw s = (x, s')" "r = None \<or> r = Some ''admin''"
  shows "has_admin s'"
proof (cases x)
  case None
  have "UpdateUser_tx flt hsh now n e r pw s = Inr s'"
    using assms(2) None by (auto simp: UpdateUser_def split: if_splits option.splits sum.splits)
  from accounts_tx [OF this] obtain h where
    h: "accounts s' = (\<lambda>k. if k = n then map_option (edit_user now e r h) (accounts s k) else accounts s k)" by blast
  show ?thesis using assms(1) edit_keeps_admin [OF assms(3)] unfolding has_admin_def h by (metis option.simps(9))
qed (use assms UpdateUser_failed in blast)

lemma delete_keeps_admin:
  assumes I: "store_ok s" and h: "has_admin s" and d: "DeleteUser flt n s = (x, s')"
  shows "has_admin s'"
proof (cases x)
  case None
  obtain u where u: "accounts s n = Some u" "u_Role u = ''admin'' \<longrightarrow> 1 < length (admins s)" "accounts s' = (accounts s)(n := None)"
    using accounts_delete d None by blast
  obtain k v where v: "accounts s k = Some v" "u_Role v = ''admin''" using h by (auto simp: has_admin_def)
  show ?thesis
  proof (cases "k = n")
    case True
    have t: "table_ok u_Username u_ID (tb_seq s ''users'') (tb_users s)" using I by (simp add: store_ok_def)
    then have "distinct (map u_Username (admins s))" by (simp add: admins_def table_ok_def distinct_map_filter)
    then have "card (u_Username ` set (admins s)) = length (admins s)" by (metis distinct_card length_map list.set_map)
    moreover have "1 < length (admins s)" using u v True by simp
    ultimately have "\<not> u_Username ` set (admins s) \<subseteq> {n}" using card_mono [of "{n}" "u_Username ` set (admins s)"] by fastforce
    then have "\<exists>w \<in> set (admins s). u_Username w \<noteq> n" by blast
    then obtain w where w: "w \<in> set (tb_users s)" "u_Role w = ''admin''" "u_Username w \<noteq> n" using set_admins by blast
    then show ?thesis using u(3) table_find [OF t w(1)] by (auto simp: has_admin_def accounts_def)
  qed (use u(3) v in \<open>auto simp: has_admin_def\<close>)
qed (use h d DeleteUser_failed in blast)

text \<open>One request, then a run of them.\<close>

lemma same_users_admin: "tb_users s' = tb_users s \<Longrightarrow> has_admin s' = has_admin s"
  by (simp add: has_admin_def accounts_def)

lemma snd_namespaces:
  "snd (create_namespace flt now n c s) = snd (CreateNamespace flt now n (config_json c) s)"
  "snd (update_namespace flt now n c s) = snd (UpdateNamespace flt now n (config_json c) s)"
  "snd (delete_namespace flt n s) = snd (DeleteNamespace flt n s)"
  by (auto simp: create_namespace_def update_namespace_def delete_namespace_def split: prod.splits option.splits)

lemma snd_permissions:
  "snd (set_user_permissions flt now u n ps i s) = (if manages i then snd (SetUserNamespacePermissionsByName flt now u n ps s) else s)"
  "snd (delete_user_permissions flt now u n i s) = (if manages i then snd (SetUserNamespacePermissionsByName flt now u n [] s) else s)"
  by (auto simp: set_user_permissions_def delete_user_permissions_def manages_def split: prod.splits option.splits)

lemmas snd_guarded = snd_namespaces snd_permissions snd_create_user snd_update_user snd_delete_user

lemmas snd_ok = CreateUser_ok [OF _ prod.collapse [symmetric]] UpdateUser_ok [OF _ prod.collapse [symmetric]]
  DeleteUser_ok [OF _ prod.collapse [symmetric]] SetUserNamespacePermissionsByName_ok [OF _ prod.collapse [symmetric]]
  CreateNamespace_ok [OF _ prod.collapse [symmetric]] UpdateNamespace_ok [OF _ prod.collapse [symmetric]]
  DeleteNamespace_ok [OF _ prod.collapse [symmetric]]

lemma guarded_ok: "store_ok s \<Longrightarrow> store_ok (snd (guarded flt req i s))"
  by (cases req) (simp_all add: snd_guarded snd_ok)

lemma guarded_admin:
  assumes "store_ok s" "has_admin s" "keeps_roles req"
  shows "has_admin (snd (guarded flt req i s))"
proof (cases req)
  case (CreateUserReq hsh now u e r)
  then show ?thesis using assms create_keeps_admin [OF assms(2) prod.collapse [symmetric]] by (simp add: snd_create_user)
next
  case (PatchUserReq hsh now u e r pw)
  then show ?thesis using assms update_keeps_admin [OF assms(2) prod.collapse [symmetric]] by (simp add: snd_update_user)
next
  case (DeleteUserReq u)
  then show ?thesis using assms delete_keeps_admin [OF assms(1,2) prod.collapse [symmetric]] by (simp add: snd_delete_user)
qed (simp_all add: assms(2) same_users_admin [OF guarded_namespaces(1)] same_users_admin [OF guarded_namespaces(2)]
    same_users_admin [OF guarded_namespaces(3)] same_users_admin [OF guarded_permissions(1)] same_users_admin [OF guarded_permissions(2)])

lemma serve_admin:
  assumes "store_ok s" "has_admin s" "keeps_roles req"
  shows "store_ok (snd (snd (serve flt header req (svc, s)))) \<and> has_admin (snd (snd (serve flt header req (svc, s))))"
proof (rule serve_cases [of flt header req svc s])
  fix i a s1
  assume v: "guarded flt req i s = (a, s1)" "serve flt header req (svc, s) = (a, svc, s1)"
  show ?thesis using guarded_ok [OF assms(1), of flt req i] guarded_admin [OF assms, of flt i] v by simp
qed (use assms in simp_all)

lemma serve_run_admin:
  "store_ok (snd st) \<Longrightarrow> has_admin (snd st) \<Longrightarrow> list_all (\<lambda>(flt, header, req). keeps_roles req) rs \<Longrightarrow>
   store_ok (snd (serve_run rs st)) \<and> has_admin (snd (serve_run rs st))"
proof (induction rs arbitrary: st)
  case (Cons r rs)
  obtain flt header req where r: "r = (flt, header, req)" by (cases r) auto
  obtain svc s where st: "st = (svc, s)" by fastforce
  have "store_ok (snd (snd (serve flt header req st))) \<and> has_admin (snd (snd (serve flt header req st)))"
    using serve_admin [of s req flt header svc] Cons.prems r st by simp
  then show ?case using Cons.IH [of "snd (serve flt header req st)"] Cons.prems(3) r by simp
qed simp

text \<open>
  [C16] An administrator remains.  From a store that satisfies the constraints and has an administrator, any sequence of
  management requests, with any tokens and any failures of the database, leads to a store with an
  administrator, as long as no request gives an account another role.  (A patch can take
  the role of the last administrator away: \<open>last_admin_demoted\<close>; and so can two deletions at
  the same time: \<open>admin_race\<close>.)
\<close>

theorem admin_remains:
  assumes "store_ok (snd st)" "admins (snd st) \<noteq> []" "list_all (\<lambda>(flt, header, req). keeps_roles req) rs"
  shows "store_ok (snd (serve_run rs st)) \<and> admins (snd (serve_run rs st)) \<noteq> []"
  using serve_run_admin [OF assms(1) _ assms(3)] has_admin_admins assms(1,2) by blast

lemma demo_store_ok: "store_ok demo_store"
  unfolding demo_store_def by (rule seedDefaultData_ok [OF emptyStore_ok prod.collapse [symmetric]])

theorem admin_remains_witness:
  "admins (snd (serve_run [(no_faults, ''Bearer tok'', demo_create), (no_faults, ''Bearer tok'', DeleteUserReq ''admin'')] (demo_service, demo_store))) \<noteq> []"
  using admin_remains [of "(demo_service, demo_store)" "[(no_faults, ''Bearer tok'', demo_create), (no_faults, ''Bearer tok'', DeleteUserReq ''admin'')]"]
  by (simp add: demo_store_ok admins_def demo_store_eval demo_create_def)

text \<open>
  Every account may patch itself, and the patch may contain the role: any account can make itself an
  administrator.
\<close>

lemma self_promotion:
  assumes "has_prefix header ''Bearer ''" "VerifyToken (drop 7 header) svc = Inr i" "accounts s (id_SubjectID i) = Some u"
  shows "\<exists>a s' u'. serve no_faults header (PatchUserReq (Inr h) now (id_SubjectID i) None (Some ''admin'') None) (svc, s) = (a, svc, s')
    \<and> accounts s' (id_SubjectID i) = Some u' \<and> u_Role u' = ''admin''"
proof -
  let ?n = "id_SubjectID i" and ?req = "PatchUserReq (Inr h) now (id_SubjectID i) None (Some ''admin'') None"
  obtain x s' where x: "UpdateUser no_faults (Inr h) now ?n None (Some ''admin'') None s = (x, s')" by fastforce
  have "x = None"
    using x assms(3) unfolding UpdateUser_def exists_account by (simp add: UpdateUser_tx_def no_faults_def validRoles_def)
  then have "accounts s' ?n = Some (edit_user now None (Some ''admin'') None u)" using accounts_update x assms(3) by fastforce
  moreover have "u_Role (edit_user now None (Some ''admin'') None u) = ''admin''" by (simp add: edit_user_def)
  moreover have "serve no_faults header ?req (svc, s) = (fst (guarded no_faults ?req i s), svc, snd (guarded no_faults ?req i s))"
    by (rule serve_valid [OF _ assms(1,2)]) simp
  moreover have "snd (guarded no_faults ?req i s) = s'" by (simp add: snd_update_user x)
  ultimately show ?thesis by blast
qed

section \<open>New accounts and permissions\<close>

text \<open>
  A created account works.  After a successful creation, and as long as bcrypt accepts the password against
  the hash it computed for it, the new user can log in: the tokens are issued for an account with exactly the name, the
  address and the role that were asked for.
\<close>

lemma created_logs_in:
  assumes "create_user no_faults (Inr h) now n e r i s = (Ret (Inr v), s')" "matches h p"
  shows "\<exists>u. accounts s' n = Some u \<and> u_Username u = n \<and> u_Email u = Some e \<and> u_Role u = r \<and> v = UserViewOf (toUserView u)
    \<and> login no_faults matches n p svc s' =
       (case GenerateTokens u svc of Panic p \<Rightarrow> Panic p | Ret (Inl err) \<Rightarrow> Ret (Inl (AsIs err)) | Ret (Inr t) \<Rightarrow> login_out t)"
proof -
  have "CreateUser no_faults (Inr h) now n e r s = (None, s')" and v: "view_user (\<lambda>k. no_faults (k + 1)) n s' = Ret (Inr v)"
    using assms(1) by (auto simp: create_user_def split: if_splits prod.splits option.splits)
  from accounts_create [OF this(1)] obtain u where
    u: "accounts s' n = Some u" "u_Username u = n" "u_Email u = Some e" "u_Role u = r" "u_PasswordHash u = h" by simp
  have "login no_faults matches n p svc s' = (case GenerateTokens u svc of Panic p \<Rightarrow> Panic p | Ret (Inl err) \<Rightarrow> Ret (Inl (AsIs err)) | Ret (Inr t) \<Rightarrow> login_out t)"
    using assms(2) u(1,5) by (simp add: login_def CheckPassword_def GetUser_accounts no_faults_def)
  moreover have "v = UserViewOf (toUserView u)" using v u(1) by (simp add: view_user_def GetUser_accounts no_faults_def)
  ultimately show ?thesis using u by blast
qed

text \<open>Without a token manager a login with the right password dereferences a nil pointer.\<close>

lemma login_without_tokens_panics:
  assumes "sv_jwtMgr svc = None" "accounts s n = Some u" "matches (u_PasswordHash u) p"
  shows "login no_faults matches n p svc s = Panic ''nil pointer dereference''"
  using assms by (simp add: login_def CheckPassword_def GetUser_accounts no_faults_def GenerateTokens_def login_out_def)

text \<open>The permissions that the store reports for a user, as a map from namespaces.\<close>

definition perms_of ::
  "((string \<times> string list) list \<Rightarrow> (string \<times> string list) list) \<Rightarrow> Store \<Rightarrow> string \<Rightarrow> (string \<rightharpoonup> string list) option" where
  "perms_of rows s u = (case GetUserNamespacePermissionsByUsername no_faults rows u s of Inl _ \<Rightarrow> None | Inr m \<Rightarrow> Some (gm_get m))"

lemma fold_put: "map_of (fold (\<lambda>(k, v). gm_put k v) xs m) = map_of (rev xs @ m)"
  by (induction xs arbitrary: m) (auto simp: update_conv' map_add_def fun_eq_iff split: option.splits)

lemma in_join: "(k, v) \<in> set (perm_join uid s) \<longleftrightarrow>
    (\<exists>p \<in> set (tb_perms s). \<exists>n \<in> set (tb_namespaces s). pr_User p = uid \<and> ns_ID n = pr_Namespace p \<and> k = ns_Name n \<and> v = pr_Permissions p)"
  by (fastforce simp: perm_join_def)

lemma table_key_inj: "table_ok key rid m rows \<Longrightarrow> x \<in> set rows \<Longrightarrow> y \<in> set rows \<Longrightarrow> key x = key y \<Longrightarrow> x = y"
  by (auto simp: table_ok_def distinct_map inj_on_def)

lemma table_id_inj: "table_ok key rid m rows \<Longrightarrow> x \<in> set rows \<Longrightarrow> y \<in> set rows \<Longrightarrow> rid x = rid y \<Longrightarrow> x = y"
  by (auto simp: table_ok_def distinct_map inj_on_def)

lemma table_select: "table_ok key rid m rows \<Longrightarrow> filter (\<lambda>n. rid n = i) rows = (case find (\<lambda>n. rid n = i) rows of None \<Rightarrow> [] | Some n \<Rightarrow> [n])"
  by (induction rows) (auto simp: table_ok_def image_iff find_Some_iff split: option.splits)

lemma join_distinct:
  assumes n: "table_ok ns_Name ns_ID a nss" and p: "distinct (map (\<lambda>p. (pr_User p, pr_Namespace p)) ps)"
  shows "distinct (map fst (concat (map (\<lambda>p. if pr_User p = uid
       then map (\<lambda>n. (ns_Name n, pr_Permissions p)) (filter (\<lambda>n. ns_ID n = pr_Namespace p) nss) else []) ps)))"
    (is "distinct (map fst (concat (map ?f ps)))")
  using p
proof (induction ps)
  case (Cons p ps)
  have "ns_Name n \<noteq> ns_Name n'" if "pr_User p = uid" "n \<in> set nss" "ns_ID n = pr_Namespace p"
    "p' \<in> set ps" "pr_User p' = uid" "n' \<in> set nss" "ns_ID n' = pr_Namespace p'" for n n' p'
    using table_key_inj [OF n, of n n'] that Cons.prems by (force simp: image_iff)
  then have "fst ` set (?f p) \<inter> fst ` set (concat (map ?f ps)) = {}" by (auto simp: image_iff split: if_splits)
  moreover have "distinct (map fst (?f p))" by (simp add: table_select [OF n] split: option.split)
  ultimately show ?case using Cons by (simp only: list.map concat.simps map_append distinct_append set_map) simp
qed simp

lemma perm_join_distinct: "store_ok s \<Longrightarrow> distinct (map fst (perm_join i s))"
  unfolding perm_join_def by (rule join_distinct) (auto simp: store_ok_def table_ok_def)

lemma perms_of_join:
  assumes "store_ok s" "\<And>xs. mset (rows xs) = mset xs"
  shows "perms_of rows s u = map_option (\<lambda>r. map_of (perm_join (u_ID r) s)) (accounts s u)"
proof -
  have "map_of (rev (rows (perm_join i s))) = map_of (perm_join i s)" for i
  proof -
    have d: "distinct (map fst (perm_join i s))" by (rule perm_join_distinct [OF assms(1)])
    have "mset (map fst (rows (perm_join i s))) = mset (map fst (perm_join i s))" using assms(2) by (simp add: mset_map)
    then have "distinct (map fst (rows (perm_join i s)))" using d mset_eq_imp_distinct_iff by blast
    moreover have "set (rows (perm_join i s)) = set (perm_join i s)" by (metis assms(2) mset_eq_setD)
    ultimately show ?thesis using d map_of_inject_set [of "rev (rows (perm_join i s))" "perm_join i s"] by (simp add: rev_map [symmetric])
  qed
  then show ?thesis
    by (auto simp: perms_of_def GetUserNamespacePermissionsByUsername_def GetUser_accounts no_faults_def fold_put split: option.splits)
qed

lemma join_lookup: "store_ok s \<Longrightarrow> map_of (perm_join i s) k = Some v \<longleftrightarrow> (k, v) \<in> set (perm_join i s)"
  by (simp add: perm_join_distinct)

lemma set_permissions_effect:
  assumes "SetUserNamespacePermissionsByName no_faults now u n ps s = (None, s')"
  obtains r m where "accounts s u = Some r" "m \<in> set (tb_namespaces s)" "ns_Name m = n" "tb_users s' = tb_users s" "tb_namespaces s' = tb_namespaces s"
    "\<And>p. p \<in> set (tb_perms s') \<longleftrightarrow> (p \<in> set (tb_perms s) \<and> \<not> (pr_User p = u_ID r \<and> pr_Namespace p = ns_ID m)
      \<or> p = \<lparr>pr_ID = next_row ''user_namespace_permissions'' s, pr_User = u_ID r, pr_Namespace = ns_ID m, pr_Permissions = ps, pr_CreatedAt = now\<rparr>)"
proof -
  obtain r where r: "accounts s u = Some r"
    using assms by (auto simp: SetUserNamespacePermissionsByName_def GetUser_accounts no_faults_def split: option.splits)
  obtain m where m: "find (\<lambda>x. ns_Name x = n) (tb_namespaces s) = Some m"
    using assms r by (auto simp: SetUserNamespacePermissionsByName_def GetUser_accounts GetNamespace_def no_faults_def split: option.splits)
  have "SetUserNamespacePermissions no_faults now (u_ID r) (ns_ID m) ps s = (None, s')"
    using assms r m by (simp add: SetUserNamespacePermissionsByName_def GetUser_accounts GetNamespace_def no_faults_def)
  then have s': "s' = (bump ''user_namespace_permissions'' s)\<lparr>tb_perms :=
      filter (\<lambda>p. \<not> (pr_User p = u_ID r \<and> pr_Namespace p = ns_ID m)) (tb_perms s) @
      [\<lparr>pr_ID = next_row ''user_namespace_permissions'' s, pr_User = u_ID r, pr_Namespace = ns_ID m, pr_Permissions = ps, pr_CreatedAt = now\<rparr>]\<rparr>"
    by (auto simp: SetUserNamespacePermissions_def no_faults_def split: if_splits)
  have "m \<in> set (tb_namespaces s)" "ns_Name m = n" using m by (auto simp: find_Some_iff)
  then show thesis by (rule that [OF r]) (auto simp: s' bump_def)
qed

lemma join_after_set:
  assumes I: "store_ok s" and I': "store_ok s'" and m: "m \<in> set (tb_namespaces s)" and mn: "ns_Name m = n" and nss: "tb_namespaces s' = tb_namespaces s"
    and p: "\<And>p. p \<in> set (tb_perms s') \<longleftrightarrow> (p \<in> set (tb_perms s) \<and> \<not> (pr_User p = uid \<and> pr_Namespace p = ns_ID m)
      \<or> p = \<lparr>pr_ID = x, pr_User = uid, pr_Namespace = ns_ID m, pr_Permissions = ps, pr_CreatedAt = now\<rparr>)"
  shows "map_of (perm_join uid s') k = Some v \<longleftrightarrow> ((map_of (perm_join uid s))(n \<mapsto> ps)) k = Some v"
proof -
  have nt: "table_ok ns_Name ns_ID (tb_seq s ''namespaces'') (tb_namespaces s)" using I by (simp add: store_ok_def)
  show ?thesis
  proof (cases "k = n")
    case True
    have "(n, v) \<in> set (perm_join (uid) s') \<longleftrightarrow> v = ps"
    proof
      assume "(n, v) \<in> set (perm_join (uid) s')"
      then obtain q m' where q: "q \<in> set (tb_perms s')" "m' \<in> set (tb_namespaces s)" "pr_User q = uid" "ns_ID m' = pr_Namespace q"
        "n = ns_Name m'" "v = pr_Permissions q" by (auto simp: in_join nss)
      moreover have "m' = m" using table_key_inj [OF nt q(2) m] q(5) mn by simp
      ultimately have "q = \<lparr>pr_ID = x, pr_User = uid, pr_Namespace = ns_ID m, pr_Permissions = ps, pr_CreatedAt = now\<rparr>" using p [of q] by auto
      then have "pr_Permissions q = ps" by (cases q) simp
      then show "v = ps" using q(6) by simp
    next
      assume "v = ps"
      moreover have "\<lparr>pr_ID = x, pr_User = uid, pr_Namespace = ns_ID m, pr_Permissions = ps, pr_CreatedAt = now\<rparr> \<in> set (tb_perms s')" using p by simp
      ultimately show "(n, v) \<in> set (perm_join uid s')" using m mn unfolding in_join nss by (force simp del: p)
    qed
    then show ?thesis by (auto simp: True join_lookup [OF I'])
  next
    case False
    have nm: "ns_ID m' \<noteq> ns_ID m" if "m' \<in> set (tb_namespaces s)" "ns_Name m' = k" for m'
      using table_id_inj [OF nt that(1) m] that(2) mn False by blast
    have "q \<in> set (tb_perms s') \<longleftrightarrow> q \<in> set (tb_perms s)" if "pr_Namespace q \<noteq> ns_ID m" for q using p [of q] that by auto
    then have "(k, v) \<in> set (perm_join uid s') \<longleftrightarrow> (k, v) \<in> set (perm_join uid s)" unfolding in_join nss using nm by metis
    then show ?thesis using False by (simp add: join_lookup [OF I'] join_lookup [OF I])
  qed
qed

text \<open>
  Permissions of users.  After the permissions of a user in a namespace have been set, the store reports for this
  user exactly these for the namespace and the same as before for all other namespaces, and nothing changes
  for other users, in whatever order the engine delivers the rows.
\<close>

lemma permissions_roundtrip:
  assumes I: "store_ok s" and set: "SetUserNamespacePermissionsByName no_faults now u n ps s = (None, s')"
    and rows: "\<And>xs. mset (rows xs) = mset xs"
  shows "(\<exists>m. perms_of rows s u = Some m \<and> perms_of rows s' u = Some (m(n \<mapsto> ps))) \<and> (\<forall>v. v \<noteq> u \<longrightarrow> perms_of rows s' v = perms_of rows s v)"
proof -
  obtain r m where e: "accounts s u = Some r" "m \<in> set (tb_namespaces s)" "ns_Name m = n" "tb_users s' = tb_users s" "tb_namespaces s' = tb_namespaces s"
    and p: "\<And>p. p \<in> set (tb_perms s') \<longleftrightarrow> (p \<in> set (tb_perms s) \<and> \<not> (pr_User p = u_ID r \<and> pr_Namespace p = ns_ID m)
      \<or> p = \<lparr>pr_ID = next_row ''user_namespace_permissions'' s, pr_User = u_ID r, pr_Namespace = ns_ID m, pr_Permissions = ps, pr_CreatedAt = now\<rparr>)"
    using set_permissions_effect [OF set] by metis
  have I': "store_ok s'" using SetUserNamespacePermissionsByName_ok [OF I set] .
  have acc: "accounts s' = accounts s" using e(4) by (simp add: accounts_def fun_eq_iff)
  have ut: "table_ok u_Username u_ID (tb_seq s ''users'') (tb_users s)"
    using I by (simp add: store_ok_def)
  note own = join_after_set [OF I I' e(2,3,5) p]
  have "q \<in> set (tb_perms s') \<longleftrightarrow> q \<in> set (tb_perms s)" if "pr_User q \<noteq> u_ID r" for q using p [of q] that by auto
  then have other: "map_of (perm_join i s') k = Some v \<longleftrightarrow> map_of (perm_join i s) k = Some v" if "i \<noteq> u_ID r" for i k v
    using that unfolding join_lookup [OF I'] join_lookup [OF I] in_join e(5) by metis
  have eq: "f = g" if "\<And>k v. f k = Some v \<longleftrightarrow> g k = Some v" for f g :: "string \<rightharpoonup> string list"
    using that by (metis ext not_None_eq)
  have "perms_of rows s' v = perms_of rows s v" if "v \<noteq> u" for v
  proof (cases "accounts s v")
    case (Some w)
    then have "u_ID w \<noteq> u_ID r" using table_id_inj [OF ut] accounts_name [OF Some] accounts_name [OF e(1)] that by metis
    then show ?thesis using Some by (simp add: perms_of_join [OF I rows] perms_of_join [OF I' rows] acc eq [OF other])
  qed (simp add: perms_of_join [OF I rows] perms_of_join [OF I' rows] acc)
  moreover have "map_of (perm_join (u_ID r) s') = (map_of (perm_join (u_ID r) s))(n \<mapsto> ps)" by (rule eq) (rule own)
  then have "perms_of rows s' u = Some ((map_of (perm_join (u_ID r) s))(n \<mapsto> ps))"
    by (simp add: perms_of_join [OF I' rows] acc e(1))
  ultimately show ?thesis by (simp add: perms_of_join [OF I rows] e(1))
qed

end
