(* ===== verification/Jwt_Props.thy ===== *)
theory Jwt_Props
  imports Jwt Auth_Props Admin_Props
begin

text \<open>
  Tokens: what is signed can be verified and read back until it expires, what is accepted carries a valid
  signature, and what refresh tokens are worth without a secret.
\<close>

section \<open>Structs as JSON\<close>

text \<open>A Go struct with the fields it is written as, and the way a field is stored when it is read.\<close>

locale json_struct =
  fixes fields :: "'a \<Rightarrow> (string \<times> json) list" and store :: "string \<times> json \<Rightarrow> 'a \<Rightarrow> 'a option" and zero :: 'a and ok :: "'a \<Rightarrow> bool"
  assumes stored: "ok x \<Longrightarrow> store_fields store (fields x) zero = Some x"
    and printable: "ok x \<Longrightarrow> json_ok (JObj (fields x)) \<and> jdepth (JObj (fields x)) \<le> 10000"
begin

lemma unmarshal_marshal: "ok x \<Longrightarrow> unmarshal_struct store zero (jprint (JObj (fields x))) = Some x"
  using json_parse_print [of "JObj (fields x)"] stored printable by (simp add: unmarshal_struct_def)

end

definition int64 :: "int \<Rightarrow> bool" where
  "int64 i = (- (2 ^ 63) \<le> i \<and> i < 2 ^ 63)"

definition map_ok :: "(string, string list) gomap option \<Rightarrow> bool" where
  "map_ok m = (case m of None \<Rightarrow> True | Some m \<Rightarrow> m \<noteq> [] \<and> sorted (map fst m) \<and> distinct (map fst m)
     \<and> list_all (\<lambda>(k, l). utf8_ok k \<and> list_all utf8_ok l) m)"

text \<open>Texts are valid UTF-8, numbers fit their type, and a map, if there is one, is not empty and lists its keys in order.\<close>

definition claims_ok :: "Claims \<Rightarrow> bool" where
  "claims_ok c = (utf8_ok (cl_Subject c) \<and> utf8_ok (cl_SubjectTy c) \<and> utf8_ok (cl_AccountID c) \<and> utf8_ok (cl_Namespace c)
     \<and> list_all utf8_ok (cl_Roles c) \<and> list_all utf8_ok (cl_Perms c) \<and> map_ok (cl_Namespaces c) \<and> utf8_ok (cl_Method c)
     \<and> int64 (cl_IssuedAt c) \<and> int64 (cl_ExpiresAt c))"

definition refresh_ok :: "RefreshToken \<Rightarrow> bool" where
  "refresh_ok r = (utf8_ok (rf_SubjectID r) \<and> utf8_ok (rf_SubjectType r) \<and> utf8_ok (rf_AccountID r) \<and> list_all utf8_ok (rf_Roles r)
     \<and> map_ok (rf_Namespaces r) \<and> int64 (rf_IssuedAt r) \<and> int64 (rf_ExpiresAt r))"

lemma store_fields_append: "store_fields f (xs @ ys) c = (case store_fields f xs c of None \<Rightarrow> None | Some c \<Rightarrow> store_fields f ys c)"
  by (induction xs arbitrary: c) (auto split: option.split)

lemma store_strs_json [simp]: "store_strs (json_strs l) = Some l"
  by (induction l) (auto simp: store_strs_def json_strs_def store_str_def)

lemma store_str_json [simp]: "store_str (JStr s) old = Some s"
  by (simp add: store_str_def)

lemma store_int_json [simp]: "int64 i \<Longrightarrow> store_int (JNum (print_int i)) old = Some i"
  by (simp add: store_int_def int64_def print_int_parse)

lemma put_new: "k \<notin> fst ` set m \<Longrightarrow> gm_put k v m = m @ [(k, v)]"
  by (induction m) auto

lemma store_entries:
  "distinct (map fst (acc @ m)) \<Longrightarrow> store_fields store_entry (map (\<lambda>(k, l). (k, json_strs l)) m) acc = Some (acc @ m)"
proof (induction m arbitrary: acc)
  case (Cons kl m)
  obtain k l where kl: "kl = (k, l)" by fastforce
  have "gm_put k l acc = acc @ [(k, l)]" using Cons.prems kl by (intro put_new) auto
  then show ?case using Cons.IH [of "acc @ [(k, l)]"] Cons.prems kl by (simp add: store_entry_def)
qed simp

lemma store_map_json [simp]: "map_ok (Some m) \<Longrightarrow> store_map (json_map m) None = Some (Some m)"
  using store_entries [of "[]" m] by (simp add: map_ok_def store_map_def json_map_def sorted_sort_id sort_key_id_if_sorted)

lemma fold_max_le: "(fold max xs a :: nat) \<le> b \<longleftrightarrow> a \<le> b \<and> (\<forall>x \<in> set xs. x \<le> b)"
  by (induction xs arbitrary: a) auto

lemma json_strs_ok: "json_ok (json_strs l) \<longleftrightarrow> list_all utf8_ok l" "jdepth (json_strs l) \<le> Suc 0"
  unfolding json_strs_def jdepth.simps Suc_le_mono fold_max_le by (auto simp: list_all_iff)

lemma json_map_ok: "map_ok (Some m) \<Longrightarrow> json_ok (json_map m)" "jdepth (json_map m) \<le> 2"
proof -
  have "jdepth (json_strs l) \<le> Suc 0" for l using json_strs_ok(2) [of l] by simp
  then show "jdepth (json_map m) \<le> 2" by (auto simp: json_map_def fold_max_le)
qed (auto simp: json_map_def map_ok_def list_all_iff json_strs_ok)

lemma folded_names:
  "fold_name ''sub'' = ''SUB''" "fold_name ''sty'' = ''STY''" "fold_name ''acc'' = ''ACC''" "fold_name ''ns'' = ''NS''"
  "fold_name ''roles'' = ''ROLES''" "fold_name ''perms'' = ''PERMS''" "fold_name ''ns_perms'' = ''NS_PERMS''"
  "fold_name ''method'' = ''METHOD''" "fold_name ''iat'' = ''IAT''" "fold_name ''exp'' = ''EXP''" "fold_name ''sid'' = ''SID''"
  by code_simp+

lemma claim_fields:
  "claim_field (''sub'', v) c = map_option (\<lambda>y. c\<lparr>cl_Subject := y\<rparr>) (store_str v (cl_Subject c))"
  "claim_field (''sty'', v) c = map_option (\<lambda>y. c\<lparr>cl_SubjectTy := y\<rparr>) (store_str v (cl_SubjectTy c))"
  "claim_field (''acc'', v) c = map_option (\<lambda>y. c\<lparr>cl_AccountID := y\<rparr>) (store_str v (cl_AccountID c))"
  "claim_field (''ns'', v) c = map_option (\<lambda>y. c\<lparr>cl_Namespace := y\<rparr>) (store_str v (cl_Namespace c))"
  "claim_field (''roles'', v) c = map_option (\<lambda>y. c\<lparr>cl_Roles := y\<rparr>) (store_strs v)"
  "claim_field (''perms'', v) c = map_option (\<lambda>y. c\<lparr>cl_Perms := y\<rparr>) (store_strs v)"
  "claim_field (''ns_perms'', v) c = map_option (\<lambda>y. c\<lparr>cl_Namespaces := y\<rparr>) (store_map v (cl_Namespaces c))"
  "claim_field (''method'', v) c = map_option (\<lambda>y. c\<lparr>cl_Method := y\<rparr>) (store_str v (cl_Method c))"
  "claim_field (''iat'', v) c = map_option (\<lambda>y. c\<lparr>cl_IssuedAt := y\<rparr>) (store_int v (cl_IssuedAt c))"
  "claim_field (''exp'', v) c = map_option (\<lambda>y. c\<lparr>cl_ExpiresAt := y\<rparr>) (store_int v (cl_ExpiresAt c))"
  by (simp_all only: claim_field_def prod.case field_is_def folded_names list.inject char.inject if_True if_False list.distinct simp_thms)

lemma refresh_field_names:
  "refresh_field (''sid'', v) r = map_option (\<lambda>y. r\<lparr>rf_SubjectID := y\<rparr>) (store_str v (rf_SubjectID r))"
  "refresh_field (''sty'', v) r = map_option (\<lambda>y. r\<lparr>rf_SubjectType := y\<rparr>) (store_str v (rf_SubjectType r))"
  "refresh_field (''acc'', v) r = map_option (\<lambda>y. r\<lparr>rf_AccountID := y\<rparr>) (store_str v (rf_AccountID r))"
  "refresh_field (''roles'', v) r = map_option (\<lambda>y. r\<lparr>rf_Roles := y\<rparr>) (store_strs v)"
  "refresh_field (''ns_perms'', v) r = map_option (\<lambda>y. r\<lparr>rf_Namespaces := y\<rparr>) (store_map v (rf_Namespaces r))"
  "refresh_field (''iat'', v) r = map_option (\<lambda>y. r\<lparr>rf_IssuedAt := y\<rparr>) (store_int v (rf_IssuedAt r))"
  "refresh_field (''exp'', v) r = map_option (\<lambda>y. r\<lparr>rf_ExpiresAt := y\<rparr>) (store_int v (rf_ExpiresAt r))"
  by (simp_all only: refresh_field_def prod.case field_is_def folded_names list.inject char.inject if_True if_False list.distinct simp_thms)

text \<open>A field that is left out is one that has its zero value.\<close>

lemma omitted_map:
  "map_ok n \<Longrightarrow> store_fields claim_field ((case n of None \<Rightarrow> [] | Some m \<Rightarrow> omit (m = []) ''ns_perms'' (json_map m)) @ r) (c\<lparr>cl_Namespaces := None\<rparr>)
     = store_fields claim_field r (c\<lparr>cl_Namespaces := n\<rparr>)"
  by (cases n) (auto simp: omit_def claim_fields map_ok_def [of "Some []"])

lemma claims_stored: "claims_ok c \<Longrightarrow> store_fields claim_field (claims_fields c) zeroClaims = Some c"
proof -
  assume ok: "claims_ok c"
  let ?z = "\<lambda>su st ac ns ro pe nm me. \<lparr>cl_Subject = su, cl_SubjectTy = st, cl_AccountID = ac, cl_Namespace = ns, cl_Roles = ro, cl_Perms = pe,
     cl_Namespaces = nm, cl_Method = me, cl_IssuedAt = 0, cl_ExpiresAt = 0\<rparr>"
  let ?f = "store_fields claim_field"
  have r: "?f (omit (s = []) ''sty'' (JStr s) @ r) (?z su [] ac ns ro pe nm me) = ?f r (?z su s ac ns ro pe nm me)"
    "?f (omit (s = []) ''acc'' (JStr s) @ r) (?z su st [] ns ro pe nm me) = ?f r (?z su st s ns ro pe nm me)"
    "?f (omit (s = []) ''ns'' (JStr s) @ r) (?z su st ac [] ro pe nm me) = ?f r (?z su st ac s ro pe nm me)"
    "?f (omit (l = []) ''roles'' (json_strs l) @ r) (?z su st ac ns [] pe nm me) = ?f r (?z su st ac ns l pe nm me)"
    "?f (omit (l = []) ''perms'' (json_strs l) @ r) (?z su st ac ns ro [] nm me) = ?f r (?z su st ac ns ro l nm me)"
    "?f (omit (s = []) ''method'' (JStr s) @ r) (?z su st ac ns ro pe nm []) = ?f r (?z su st ac ns ro pe nm s)"
    for s l r su st ac ns ro pe nm me
    by (simp_all add: omit_def claim_fields)
  have m: "?f ((case cl_Namespaces c of None \<Rightarrow> [] | Some m \<Rightarrow> omit (m = []) ''ns_perms'' (json_map m)) @ r) (?z su st ac ns ro pe None me)
      = ?f r (?z su st ac ns ro pe (cl_Namespaces c) me)" for r su st ac ns ro pe me
    using omitted_map [of "cl_Namespaces c" r "?z su st ac ns ro pe None me"] ok by (simp add: claims_ok_def)
  show ?thesis using ok by (simp add: claims_fields_def zeroClaims_def claim_fields r m claims_ok_def)
qed

lemma refresh_stored: "refresh_ok r \<Longrightarrow> store_fields refresh_field (refresh_fields r) zeroRefresh = Some r"
  unfolding refresh_fields_def zeroRefresh_def refresh_ok_def
  by (cases "rf_Namespaces r") (simp_all add: refresh_field_names store_map_def [of JNull])

definition field_ok :: "string \<times> json \<Rightarrow> bool" where
  "field_ok x = (utf8_ok (fst x) \<and> json_ok (snd x) \<and> jdepth (snd x) \<le> 2)"

lemma fields_printable: "list_all field_ok fs \<Longrightarrow> json_ok (JObj fs) \<and> jdepth (JObj fs) \<le> 10000"
proof -
  assume a: "list_all field_ok fs"
  have "fold max (map (\<lambda>(k, v). jdepth v) fs) 0 \<le> 2" unfolding fold_max_le using a by (auto simp: list_all_iff field_ok_def)
  then show ?thesis using a by (auto simp: list_all_iff field_ok_def)
qed

lemma field_ok_str [simp]: "utf8_ok k \<Longrightarrow> utf8_ok s \<Longrightarrow> field_ok (k, JStr s)"
  and field_ok_int [simp]: "utf8_ok k \<Longrightarrow> field_ok (k, JNum (print_int i))"
  and field_ok_null [simp]: "utf8_ok k \<Longrightarrow> field_ok (k, JNull)"
  by (auto simp: field_ok_def)

lemma field_ok_strs [simp]: "utf8_ok k \<Longrightarrow> list_all utf8_ok l \<Longrightarrow> field_ok (k, json_strs l)"
  using json_strs_ok [of l] by (simp add: field_ok_def)

lemma field_ok_map [simp]: "utf8_ok k \<Longrightarrow> map_ok (Some m) \<Longrightarrow> field_ok (k, json_map m)"
  using json_map_ok [of m] by (simp add: field_ok_def)

lemma omit_ok [simp]: "field_ok (k, v) \<Longrightarrow> list_all field_ok (omit b k v)"
  by (simp add: omit_def)

lemma names_utf8 [simp]:
  "utf8_ok ''sub''" "utf8_ok ''sty''" "utf8_ok ''acc''" "utf8_ok ''ns''" "utf8_ok ''roles''" "utf8_ok ''perms''" "utf8_ok ''ns_perms''"
  "utf8_ok ''method''" "utf8_ok ''iat''" "utf8_ok ''exp''" "utf8_ok ''sid''"
  by code_simp+

lemma claims_printable: "claims_ok c \<Longrightarrow> json_ok (JObj (claims_fields c)) \<and> jdepth (JObj (claims_fields c)) \<le> 10000"
  by (rule fields_printable) (auto simp: claims_fields_def claims_ok_def split: option.split)

lemma refresh_printable: "refresh_ok r \<Longrightarrow> json_ok (JObj (refresh_fields r)) \<and> jdepth (JObj (refresh_fields r)) \<le> 10000"
  by (rule fields_printable) (auto simp: refresh_fields_def refresh_ok_def split: option.split)

interpretation claims_json: json_struct claims_fields claim_field zeroClaims claims_ok
  by unfold_locales (simp_all only: claims_stored claims_printable simp_thms)

interpretation refresh_json: json_struct refresh_fields refresh_field zeroRefresh refresh_ok
  by unfold_locales (simp_all only: refresh_stored refresh_printable simp_thms)

section \<open>What is signed is verified\<close>

text \<open>A key signs everything, with signatures that are not empty and that it verifies.\<close>

definition key_ok :: "keyStore \<Rightarrow> bool" where
  "key_ok ks \<longleftrightarrow> (\<forall>body. \<exists>sig. ks_sign ks body = Ret (Inr sig) \<and> sig \<noteq> [] \<and> ks_verify ks body sig)"

definition manager_ok :: "Manager \<Rightarrow> bool" where
  "manager_ok m \<longleftrightarrow> (case mg_keyStore m of Some ks \<Rightarrow> key_ok ks | None \<Rightarrow> mg_hmacSecret m \<noteq> [])"

lemma split_part: "CHR ''.'' \<notin> set a \<Longrightarrow> split_loop (a @ CHR ''.'' # r) parts cur = split_loop r (parts @ [(case cur of Some s \<Rightarrow> s | None \<Rightarrow> []) @ a]) None"
  by (induction a arbitrary: cur) (auto split: option.split)

lemma split_more: "CHR ''.'' \<notin> set a \<Longrightarrow> split_loop a parts (Some s) = parts @ [s @ a]"
  by (induction a arbitrary: s) auto

lemma split_last: "CHR ''.'' \<notin> set a \<Longrightarrow> a \<noteq> [] \<Longrightarrow> split_loop a parts None = parts @ [a]"
  by (cases a) (auto simp: split_more)

lemma splitToken_dots:
  assumes "sig \<noteq> []"
  shows "splitToken (dot (dot (RawURL_EncodeToString h) (RawURL_EncodeToString p)) (RawURL_EncodeToString sig))
    = [RawURL_EncodeToString h, RawURL_EncodeToString p, RawURL_EncodeToString sig]"
proof -
  have "RawURL_EncodeToString sig \<noteq> []" using assms by (simp add: RawURL_EncodeToString_def encode_empty)
  then show ?thesis by (simp add: splitToken_def dot_def split_part split_last RawURL_no_dot)
qed

lemma check_signed:
  "claims_ok c \<Longrightarrow> check_claims now (RawURL_EncodeToString (jprint (json_of_claims c))) =
     (if cl_ExpiresAt c < unix now then Inl ''token expired'' else Inr c)"
  by (simp add: check_claims_def RawURL_roundtrip json_of_claims_def claims_json.unmarshal_marshal del: jprint.simps)

lemma hmac_nonempty: "hmacSHA256 d k \<noteq> []"
proof -
  have "length (hmacSHA256 d k) = 32" by (simp add: hmacSHA256_def Let_def)
  then show ?thesis by auto
qed

lemma signed_verified:
  assumes m: "manager_ok m" and c: "claims_ok c"
  shows "\<exists>token. signClaims m c = Ret (Inr token)
    \<and> (\<forall>now. VerifyAccessToken now m token = (if cl_ExpiresAt c < unix now then Inl ''token expired'' else Inr c))"
proof (cases "mg_keyStore m")
  case None
  then show ?thesis using m check_signed [OF c] hmac_nonempty
    by (simp add: manager_ok_def signClaims_def VerifyAccessToken_def signHMAC_def verifyHMAC_def Let_def splitToken_dots RawURL_roundtrip
      constTimeEqual_correct)
next
  case (Some ks)
  let ?body = "dot (RawURL_EncodeToString (jprint (JObj [(''alg'', JStr (ks_keyType ks)), (''kid'', JStr (ks_keyID ks)), (''typ'', JStr ''JWT'')])))
    (RawURL_EncodeToString (jprint (json_of_claims c)))"
  obtain sig where "ks_sign ks ?body = Ret (Inr sig)" "sig \<noteq> []" "ks_verify ks ?body sig"
    using m Some by (auto simp: manager_ok_def key_ok_def)
  then show ?thesis using Some check_signed [OF c]
    by (simp add: signClaims_def VerifyAccessToken_def signWithKey_def verifyWithKey_def Let_def splitToken_dots RawURL_roundtrip)
qed

lemma roles_utf8 [simp]: "list_all utf8_ok (permissionsFromRole role)"
proof -
  have "list_all utf8_ok (permissionsFromRole ''admin'')" "list_all utf8_ok (permissionsFromRole ''user'')" by code_simp+
  then show ?thesis by (cases "role = ''admin''"; cases "role = ''user''") (simp_all add: permissionsFromRole_def)
qed

lemma methods_utf8 [simp]: "utf8_ok ''password''" "utf8_ok ''refresh''" "utf8_ok ''admin''" "utf8_ok ''user''" "utf8_ok []"
  by code_simp+

text \<open>The permissions of a role contain the administrator's exactly for the role of administrators.\<close>

lemma role_admin:
  "cl_Perms c = permissionsFromRole role \<Longrightarrow> IsAdmin (ToIdentity c) \<longleftrightarrow> role = ''admin'' \<or> cl_SubjectTy c = ''ADMIN''"
proof -
  assume c: "cl_Perms c = permissionsFromRole role"
  have "ps_Has (PermissionSetFromStrings (permissionsFromRole ''admin'')) PermAdmin"
    "\<not> ps_Has (PermissionSetFromStrings (permissionsFromRole ''user'')) PermAdmin" "\<not> ps_Has (NewPermissionSet []) PermAdmin" by code_simp+
  then show ?thesis using c
    by (cases "role = ''admin''"; cases "role = ''user''") (simp_all add: IsAdmin_def HasPermission_def ToIdentity_def permissionsFromRole_def SubjectAdmin_def)
qed

lemma verify_jwt:
  "sv_jwtMgr svc = Some (jwt_manager now m) \<Longrightarrow> VerifyAccessToken now m token = Inr c \<Longrightarrow> VerifyToken token svc = Inr (ToIdentity c)"
  by (simp add: VerifyToken_def jwt_manager_def)

definition login_claims :: "gtime \<Rightarrow> Manager \<Rightarrow> UserRow \<Rightarrow> Claims" where
  "login_claims t m user =
     \<lparr>cl_Subject = u_Username user, cl_SubjectTy = (if u_Role user = ''admin'' then ''admin'' else ''user''), cl_AccountID = u_Username user,
      cl_Namespace = [], cl_Roles = [u_Role user], cl_Perms = permissionsFromRole (u_Role user), cl_Namespaces = None, cl_Method = ''password'',
      cl_IssuedAt = unix t, cl_ExpiresAt = unix (t + access_ttl m)\<rparr>"

lemma login_identity:
  "id_SubjectID (ToIdentity (login_claims t m user)) = u_Username user" "id_Roles (ToIdentity (login_claims t m user)) = [u_Role user]"
  "IsAdmin (ToIdentity (login_claims t m user)) \<longleftrightarrow> u_Role user = ''admin''"
  using role_admin [of "login_claims t m user" "u_Role user"] by (auto simp: ToIdentity_def login_claims_def)

lemma issued:
  assumes "manager_ok m" and "utf8_ok (u_Username user)" "utf8_ok (u_Role user)" and "int64 (unix t)" "int64 (unix (t + access_ttl m))"
  shows "\<exists>tk. jwt_GenerateTokens t m user = Ret (Inr tk) \<and> (\<forall>now. VerifyAccessToken now m (tk_AccessToken tk) =
    (if unix (t + access_ttl m) < unix now then Inl ''token expired'' else Inr (login_claims t m user)))"
proof -
  have "claims_ok (login_claims t m user)" using assms by (simp add: claims_ok_def map_ok_def login_claims_def)
  from signed_verified [OF assms(1) this] show ?thesis by (auto simp: jwt_GenerateTokens_def Let_def login_claims_def)
qed

text \<open>
  [C10] Whoever logs in is recognised: a manager that can sign issues tokens for every account, and until the
  lifetime of the access token is over the service takes the token for that account with its role, and for
  an administrator exactly if the role is the administrators'; afterwards the token has expired.
\<close>

theorem login_token:
  assumes "manager_ok m" and "utf8_ok (u_Username user)" "utf8_ok (u_Role user)" and "int64 (unix t)" "int64 (unix (t + access_ttl m))"
  shows "\<exists>tk. jwt_GenerateTokens t m user = Ret (Inr tk)
    \<and> (\<forall>now svc. sv_jwtMgr svc = Some (jwt_manager now m) \<longrightarrow> unix now \<le> unix (t + access_ttl m) \<longrightarrow>
         (\<exists>i. VerifyToken (tk_AccessToken tk) svc = Inr i \<and> id_SubjectID i = u_Username user \<and> id_Roles i = [u_Role user]
            \<and> (IsAdmin i \<longleftrightarrow> u_Role user = ''admin'')))
    \<and> (\<forall>now. unix (t + access_ttl m) < unix now \<longrightarrow> VerifyAccessToken now m (tk_AccessToken tk) = Inl ''token expired'')"
proof -
  from issued [OF assms] obtain tk where tk: "jwt_GenerateTokens t m user = Ret (Inr tk)" "\<And>now. VerifyAccessToken now m (tk_AccessToken tk) =
    (if unix (t + access_ttl m) < unix now then Inl ''token expired'' else Inr (login_claims t m user))" by blast
  have "VerifyToken (tk_AccessToken tk) svc = Inr (ToIdentity (login_claims t m user))"
    if "sv_jwtMgr svc = Some (jwt_manager now m)" "unix now \<le> unix (t + access_ttl m)" for now svc
    using verify_jwt [OF that(1)] tk(2) [of now] that(2) by simp
  then show ?thesis using tk login_identity [of t m user] by auto
qed

text \<open>
  [C11] No access token is accepted without a signature of its header and payload: by the key, or by the
  shared secret where there is no key.  Its payload is the claims, and they have not expired.
\<close>

theorem token_accepted:
  assumes "VerifyAccessToken now m token = Inr c"
  shows "\<exists>h p s sig payload. splitToken token = [h, p, s] \<and> RawURL_DecodeString s = Some sig
    \<and> (case mg_keyStore m of Some ks \<Rightarrow> ks_verify ks (dot h p) sig
         | None \<Rightarrow> mg_hmacSecret m \<noteq> [] \<and> sig = hmacSHA256 (dot h p) (mg_hmacSecret m))
    \<and> RawURL_DecodeString p = Some payload \<and> unmarshal_struct claim_field zeroClaims payload = Some c \<and> unix now \<le> cl_ExpiresAt c"
proof -
  have checked: "\<exists>payload. RawURL_DecodeString p = Some payload \<and> unmarshal_struct claim_field zeroClaims payload = Some c \<and> unix now \<le> cl_ExpiresAt c"
    if "check_claims now p = Inr c" for p
    using that by (auto simp: check_claims_def split: option.splits if_splits)
  show ?thesis
  proof (cases "mg_keyStore m")
    case None
    then show ?thesis using assms checked
      by (auto simp: VerifyAccessToken_def verifyHMAC_def constTimeEqual_correct split: if_splits list.splits option.splits)
  next
    case (Some ks)
    then show ?thesis using assms checked
      by (auto simp: VerifyAccessToken_def verifyWithKey_def split: if_splits list.splits option.splits)
  qed
qed

text \<open>With a key for EdDSA every login and every renewal panics.\<close>

lemma eddsa_login_panics:
  assumes "mg_keyStore m = Some ks" "ks_privateKey ks = Ed25519Key"
  shows "jwt_GenerateTokens now m user = Panic ''nil pointer dereference''"
  using assms by (simp add: jwt_GenerateTokens_def signClaims_def signWithKey_def ks_sign_def Let_def)

section \<open>Renewal\<close>

lemma length_hmac [simp]: "length (hmacSHA256 d k) = 32"
  by (simp add: hmacSHA256_def Let_def)

lemma validate_issued:
  assumes "refresh_ok r"
  defines "d \<equiv> jprint (json_of_refresh r)"
  shows "validateRefreshToken now m (Std_EncodeToString (if length (mg_hmacSecret m) > 0 then d @ hmacSHA256 d (mg_hmacSecret m) else d))
    = (if rf_ExpiresAt r < unix now then Inl ''refresh token expired'' else Inr r)"
proof -
  have "unmarshal_struct refresh_field zeroRefresh d = Some r"
    using refresh_json.unmarshal_marshal [OF assms(1)] by (simp only: d_def json_of_refresh_def)
  then show ?thesis by (simp add: validateRefreshToken_def Std_roundtrip constTimeEqual_correct Let_def)
qed

text \<open>What a renewal issues is accepted for the subject and the roles of the refresh token.\<close>

lemma renewed:
  assumes m: "manager_ok m" and v: "validateRefreshToken now m token = Inr r" and r: "refresh_ok r" "rf_Roles r = role # roles"
    and t: "int64 (unix now)" "int64 (unix (now + access_ttl m))"
  shows "\<exists>tk. jwt_RefreshTokens now m token = Ret (Inr tk)
    \<and> (\<forall>later svc. sv_jwtMgr svc = Some (jwt_manager later m) \<longrightarrow> unix later \<le> unix (now + access_ttl m) \<longrightarrow>
         (\<exists>i. VerifyToken (tk_AccessToken tk) svc = Inr i \<and> id_SubjectID i = rf_SubjectID r \<and> id_Roles i = rf_Roles r
            \<and> (IsAdmin i \<longleftrightarrow> role = ''admin'' \<or> rf_SubjectType r = ''ADMIN'')))"
proof -
  let ?c = "\<lparr>cl_Subject = rf_SubjectID r, cl_SubjectTy = rf_SubjectType r, cl_AccountID = rf_AccountID r, cl_Namespace = [],
    cl_Roles = rf_Roles r, cl_Perms = permissionsFromRole role, cl_Namespaces = rf_Namespaces r, cl_Method = ''refresh'',
    cl_IssuedAt = unix now, cl_ExpiresAt = unix (now + access_ttl m)\<rparr>"
  have "claims_ok ?c" using r t by (simp add: claims_ok_def refresh_ok_def)
  then obtain access where sign: "signClaims m ?c = Ret (Inr access)"
    and ver: "\<And>later. VerifyAccessToken later m access = (if unix (now + access_ttl m) < unix later then Inl ''token expired'' else Inr ?c)"
    using signed_verified [OF m, of ?c] by auto
  obtain tk where tk: "jwt_RefreshTokens now m token = Ret (Inr tk)" "tk_AccessToken tk = access"
    using v r(2) sign by (simp add: jwt_RefreshTokens_def)
  have adm: "IsAdmin (ToIdentity ?c) \<longleftrightarrow> role = ''admin'' \<or> rf_SubjectType r = ''ADMIN''" using role_admin [of ?c role] by simp
  have "VerifyToken (tk_AccessToken tk) svc = Inr (ToIdentity ?c)"
    if "sv_jwtMgr svc = Some (jwt_manager later m)" "unix later \<le> unix (now + access_ttl m)" for later svc
    using verify_jwt [OF that(1)] ver [of later] that(2) tk(2) by simp
  moreover have "id_SubjectID (ToIdentity ?c) = rf_SubjectID r" "id_Roles (ToIdentity ?c) = rf_Roles r" by (simp_all add: ToIdentity_def)
  ultimately show ?thesis using tk(1) adm by blast
qed

text \<open>
  [C12] A login can be renewed for seven days and not longer.  Of a manager that \<open>NewManager\<close> has made, whatever its
  configuration, and that can sign: until seven days after the login, in whole seconds, the refresh token that it issued
  gives a new pair, whose access token is accepted for the same account and role for another lifetime; after that the
  refresh token is refused.
\<close>

theorem refresh_renews:
  assumes m: "m = NewManager privateKey keyType ttl hmacSecret dataDir loaded auto" and "manager_ok m"
    and "utf8_ok (u_Username user)" "utf8_ok (u_Role user)" and "jwt_GenerateTokens t m user = Ret (Inr tk)"
    and "int64 (unix t)" "int64 (unix (t + 7 * 24 * 60 * 60 * 1000000000))"
  shows "(unix now \<le> unix (t + 7 * 24 * 60 * 60 * 1000000000) \<and> int64 (unix now) \<and> int64 (unix (now + access_ttl m)) \<longrightarrow>
      (\<exists>tk'. jwt_RefreshTokens now m (tk_RefreshToken tk) = Ret (Inr tk')
       \<and> (\<forall>later svc. sv_jwtMgr svc = Some (jwt_manager later m) \<longrightarrow> unix later \<le> unix (now + access_ttl m) \<longrightarrow>
            (\<exists>i. VerifyToken (tk_AccessToken tk') svc = Inr i \<and> id_SubjectID i = u_Username user \<and> id_Roles i = [u_Role user]
               \<and> (IsAdmin i \<longleftrightarrow> u_Role user = ''admin'')))))
    \<and> (unix (t + 7 * 24 * 60 * 60 * 1000000000) < unix now \<longrightarrow>
        jwt_RefreshTokens now m (tk_RefreshToken tk) = Ret (Inl ''refresh token expired''))"
proof -
  let ?exp = "unix (t + 7 * 24 * 60 * 60 * 1000000000)"
  define sty where "sty = (if u_Role user = ''admin'' then ''admin'' else ''user'')"
  let ?r = "\<lparr>rf_SubjectID = u_Username user, rf_SubjectType = sty, rf_AccountID = u_Username user,
    rf_Roles = [u_Role user], rf_Namespaces = None, rf_IssuedAt = unix t, rf_ExpiresAt = ?exp\<rparr>"
  have ttl: "mg_refreshTTL m = 7 * 24 * 60 * 60 * 1000000000" by (simp add: m NewManager_def)
  have sty: "utf8_ok sty" "sty \<noteq> ''ADMIN''" by (simp_all add: sty_def)
  then have r: "refresh_ok ?r" using assms(3-) by (simp add: refresh_ok_def map_ok_def)
  have tk: "tk_RefreshToken tk = generateRefreshToken t m (u_Username user) sty (u_Username user) [u_Role user] None"
    using assms(5) by (auto simp: jwt_GenerateTokens_def Let_def sty_def split: sum.splits outcome.splits)
  have v: "validateRefreshToken now m (tk_RefreshToken tk) = (if ?exp < unix now then Inl ''refresh token expired'' else Inr ?r)"
    unfolding tk generateRefreshToken_def Let_def ttl using validate_issued [OF r, of now m] by simp
  show ?thesis
  proof (cases "?exp < unix now")
    case True
    then show ?thesis using v by (simp add: jwt_RefreshTokens_def)
  next
    case False
    then show ?thesis using renewed [OF assms(2) _ r, of now "tk_RefreshToken tk"] v sty(2) by simp
  qed
qed

text \<open>
  [C13] Where a secret is configured, tokens are renewed only for what the secret has signed: the refresh token
  ends with the code of everything before it, and what is before it has not expired.
\<close>

theorem refresh_authentic:
  assumes "mg_hmacSecret m \<noteq> []" and "jwt_RefreshTokens now m token = Ret (Inr tk)"
  shows "\<exists>body r. Std_DecodeString token = Some (body @ hmacSHA256 body (mg_hmacSecret m))
    \<and> unmarshal_struct refresh_field zeroRefresh body = Some r \<and> unix now \<le> rf_ExpiresAt r"
proof -
  obtain r where "validateRefreshToken now m token = Inr r" using assms(2) by (auto simp: jwt_RefreshTokens_def split: sum.splits)
  then obtain d where d: "Std_DecodeString token = Some d" "hmacSHA256 (take (length d - 32) d) (mg_hmacSecret m) = drop (length d - 32) d"
    "unmarshal_struct refresh_field zeroRefresh (take (length d - 32) d) = Some r" "unix now \<le> rf_ExpiresAt r"
    using assms(1) by (auto simp: validateRefreshToken_def constTimeEqual_correct Let_def split: option.splits if_splits)
  have "d = take (length d - 32) d @ hmacSHA256 (take (length d - 32) d) (mg_hmacSecret m)" using d(2) by simp
  then show ?thesis using d by metis
qed

text \<open>A token without roles is valid and makes the renewal panic.\<close>

lemma refresh_without_roles_panics:
  "validateRefreshToken now m token = Inr r \<Longrightarrow> rf_Roles r = [] \<Longrightarrow> jwt_RefreshTokens now m token = Panic ''index out of range''"
  by (simp add: jwt_RefreshTokens_def)

text \<open>
  [C14] Without a secret refresh tokens are not signed, although access tokens are signed by the key: for every
  name, a text that needs no secret to write is renewed into an access token of an administrator.
\<close>

theorem refresh_forged:
  assumes "mg_keyStore m = Some ks" "key_ok ks" and "mg_hmacSecret m = []" and "utf8_ok name"
    and "int64 (unix now)" "int64 (unix (now + access_ttl m))"
  shows "\<exists>tk. jwt_RefreshTokens now m (Std_EncodeToString (jprint (json_of_refresh \<lparr>rf_SubjectID = name, rf_SubjectType = ''admin'',
      rf_AccountID = name, rf_Roles = [''admin''], rf_Namespaces = None, rf_IssuedAt = unix now, rf_ExpiresAt = unix now\<rparr>))) = Ret (Inr tk)
    \<and> (\<forall>later svc. sv_jwtMgr svc = Some (jwt_manager later m) \<longrightarrow> unix later \<le> unix (now + access_ttl m) \<longrightarrow>
         (\<exists>i. VerifyToken (tk_AccessToken tk) svc = Inr i \<and> id_SubjectID i = name \<and> IsAdmin i))"
proof -
  let ?r = "\<lparr>rf_SubjectID = name, rf_SubjectType = ''admin'', rf_AccountID = name, rf_Roles = [''admin''], rf_Namespaces = None,
    rf_IssuedAt = unix now, rf_ExpiresAt = unix now\<rparr>"
  have m: "manager_ok m" using assms by (simp add: manager_ok_def)
  have r: "refresh_ok ?r" using assms by (simp add: refresh_ok_def map_ok_def)
  have "validateRefreshToken now m (Std_EncodeToString (jprint (json_of_refresh ?r))) = Inr ?r"
    using validate_issued [OF r, of now m] assms(3) by simp
  from renewed [OF m this r _ assms(5,6)] show ?thesis by fastforce
qed

section \<open>Instances\<close>

definition demo_signer :: keyStore where
  "demo_signer = \<lparr>ks_keyType = ''RSA'', ks_keyID = ''auto'', ks_privateKey = RSAKey Inr, ks_publicKey = RSAPublic (\<lambda>digest sig. sig = digest)\<rparr>"

definition demo_manager :: "string \<Rightarrow> Manager" where
  "demo_manager secret = NewManager [] [] 60 secret ''data'' None (Some demo_signer)"

definition demo_user :: UserRow where
  "demo_user = \<lparr>u_Username = ''root'', u_Email = None, u_Role = ''admin'', u_ID = 1, u_PasswordHash = ''h'', u_CreatedAt = ''t'', u_UpdatedAt = ''t''\<rparr>"

definition demo_tokens :: "gtime \<Rightarrow> string \<Rightarrow> Service" where
  "demo_tokens now secret = demo_service\<lparr>sv_jwtMgr := Some (jwt_manager now (demo_manager secret))\<rparr>"

lemma demo_signer_ok: "key_ok demo_signer"
proof -
  have "sha256 body \<noteq> []" for body using length_sha256 [of body] by (metis list.size(3) zero_neq_numeral)
  then show ?thesis by (simp add: key_ok_def demo_signer_def ks_sign_def ks_verify_def)
qed

lemma demo_manager_eval:
  "mg_keyStore (demo_manager s) = Some demo_signer" "mg_hmacSecret (demo_manager s) = s" "access_ttl (demo_manager s) = 60000000000"
  "mg_refreshTTL (demo_manager s) = 604800000000000" "manager_ok (demo_manager s)"
  by (simp_all add: demo_manager_def NewManager_def access_ttl_def Let_def to_i64_def manager_ok_def demo_signer_ok)

lemma demo_user_ok: "utf8_ok (u_Username demo_user)" "utf8_ok (u_Role demo_user)"
  by code_simp+

theorem login_token_witness:
  "\<exists>tk i. jwt_GenerateTokens 0 (demo_manager ''s'') demo_user = Ret (Inr tk) \<and> VerifyToken (tk_AccessToken tk) (demo_tokens 60000000000 ''s'') = Inr i
    \<and> id_SubjectID i = ''root'' \<and> IsAdmin i \<and> VerifyAccessToken 61000000000 (demo_manager ''s'') (tk_AccessToken tk) = Inl ''token expired''"
proof -
  let ?m = "demo_manager ''s''"
  obtain tk where tk: "jwt_GenerateTokens 0 ?m demo_user = Ret (Inr tk)"
    "\<And>now svc. sv_jwtMgr svc = Some (jwt_manager now ?m) \<Longrightarrow> unix now \<le> unix (0 + access_ttl ?m) \<Longrightarrow>
       \<exists>i. VerifyToken (tk_AccessToken tk) svc = Inr i \<and> id_SubjectID i = u_Username demo_user \<and> id_Roles i = [u_Role demo_user]
            \<and> (IsAdmin i \<longleftrightarrow> u_Role demo_user = ''admin'')"
    "\<And>now. unix (0 + access_ttl ?m) < unix now \<Longrightarrow> VerifyAccessToken now ?m (tk_AccessToken tk) = Inl ''token expired''"
    using login_token [of ?m demo_user 0] demo_user_ok by (auto simp: demo_manager_eval unix_def int64_def)
  show ?thesis
    using tk(1) tk(2) [of "demo_tokens 60000000000 ''s''" 60000000000] tk(3) [of 61000000000]
    by (auto simp: demo_tokens_def demo_manager_eval unix_def demo_user_def)
qed

theorem refresh_forged_witness:
  "\<exists>token tk i. jwt_RefreshTokens 0 (demo_manager []) token = Ret (Inr tk) \<and> VerifyToken (tk_AccessToken tk) (demo_tokens 1000000000 []) = Inr i
    \<and> id_SubjectID i = ''root'' \<and> IsAdmin i"
proof -
  let ?m = "demo_manager []"
  let ?token = "Std_EncodeToString (jprint (json_of_refresh \<lparr>rf_SubjectID = ''root'', rf_SubjectType = ''admin'',
      rf_AccountID = ''root'', rf_Roles = [''admin''], rf_Namespaces = None, rf_IssuedAt = unix 0, rf_ExpiresAt = unix 0\<rparr>))"
  have "utf8_ok ''root''" by code_simp
  then obtain tk where tk: "jwt_RefreshTokens 0 ?m ?token = Ret (Inr tk)"
    "\<And>later svc. sv_jwtMgr svc = Some (jwt_manager later ?m) \<Longrightarrow> unix later \<le> unix (0 + access_ttl ?m) \<Longrightarrow>
       \<exists>i. VerifyToken (tk_AccessToken tk) svc = Inr i \<and> id_SubjectID i = ''root'' \<and> IsAdmin i"
    using refresh_forged [OF demo_manager_eval(1) demo_signer_ok demo_manager_eval(2), of "''root''" 0]
    by (auto simp: demo_manager_eval unix_def int64_def)
  show ?thesis using tk(1) tk(2) [of "demo_tokens 1000000000 []" 1000000000]
    by (auto simp: demo_tokens_def demo_manager_eval unix_def)
qed

lemma demo_issued:
  "\<exists>tk. jwt_GenerateTokens 0 (demo_manager s) demo_user = Ret (Inr tk)
    \<and> VerifyAccessToken 0 (demo_manager s) (tk_AccessToken tk) = Inr (login_claims 0 (demo_manager s) demo_user)"
  using issued [of "demo_manager s" demo_user 0] demo_user_ok by (auto simp: demo_manager_eval unix_def int64_def)

theorem token_accepted_witness:
  "\<exists>token h p s sig. VerifyAccessToken 0 (demo_manager []) token = Inr (login_claims 0 (demo_manager []) demo_user)
    \<and> splitToken token = [h, p, s] \<and> RawURL_DecodeString s = Some sig \<and> sig = sha256 (dot h p)"
proof -
  obtain token where v: "VerifyAccessToken 0 (demo_manager []) token = Inr (login_claims 0 (demo_manager []) demo_user)" using demo_issued by blast
  from token_accepted [OF v] obtain h p s sig where "splitToken token = [h, p, s]" "RawURL_DecodeString s = Some sig" "ks_verify demo_signer (dot h p) sig"
    by (auto simp: demo_manager_eval)
  then show ?thesis using v by (auto simp: demo_signer_def ks_verify_def)
qed

theorem refresh_renews_witness:
  "\<exists>tk tk' i. jwt_GenerateTokens 0 (demo_manager ''s'') demo_user = Ret (Inr tk)
    \<and> jwt_RefreshTokens 604800000000000 (demo_manager ''s'') (tk_RefreshToken tk) = Ret (Inr tk')
    \<and> VerifyToken (tk_AccessToken tk') (demo_tokens 604860000000000 ''s'') = Inr i \<and> id_SubjectID i = ''root'' \<and> IsAdmin i"
proof -
  let ?m = "demo_manager ''s''" let ?now = "604800000000000"
  obtain tk where g: "jwt_GenerateTokens 0 ?m demo_user = Ret (Inr tk)" using demo_issued by blast
  obtain tk' where tk: "jwt_RefreshTokens ?now ?m (tk_RefreshToken tk) = Ret (Inr tk')"
    "\<And>later svc. sv_jwtMgr svc = Some (jwt_manager later ?m) \<Longrightarrow> unix later \<le> unix (?now + access_ttl ?m) \<Longrightarrow>
       \<exists>i. VerifyToken (tk_AccessToken tk') svc = Inr i \<and> id_SubjectID i = u_Username demo_user \<and> id_Roles i = [u_Role demo_user]
         \<and> (IsAdmin i \<longleftrightarrow> u_Role demo_user = ''admin'')"
    using refresh_renews [OF demo_manager_def demo_manager_eval(5) demo_user_ok g, of ?now] by (auto simp: demo_manager_eval unix_def int64_def)
  show ?thesis using g tk(1) tk(2) [of "demo_tokens 604860000000000 ''s''" 604860000000000]
    by (auto simp: demo_tokens_def demo_manager_eval unix_def demo_user_def)
qed

theorem refresh_authentic_witness:
  "\<exists>token tk body. jwt_RefreshTokens 0 (demo_manager ''s'') token = Ret (Inr tk) \<and> Std_DecodeString token = Some (body @ hmacSHA256 body ''s'')"
proof -
  let ?m = "demo_manager ''s''"
  let ?r = "\<lparr>rf_SubjectID = ''root'', rf_SubjectType = ''user'', rf_AccountID = ''root'', rf_Roles = [''user''], rf_Namespaces = None,
    rf_IssuedAt = 0, rf_ExpiresAt = 1\<rparr>"
  have r: "refresh_ok ?r" by code_simp
  obtain token where "validateRefreshToken 0 ?m token = Inr ?r" using validate_issued [OF r, of 0 ?m] by (auto simp: unix_def)
  then obtain tk where tk: "jwt_RefreshTokens 0 ?m token = Ret (Inr tk)"
    using renewed [OF demo_manager_eval(5) _ r, of 0 "''s''" token "''user''" "[]"] by (auto simp: demo_manager_eval unix_def int64_def)
  show ?thesis using refresh_authentic [OF _ tk] tk by (auto simp: demo_manager_eval)
qed

end
