(* ===== verification/Providers.thy ===== *)
theory Providers
  imports Jwt
begin

text \<open>
  The remaining authenticators and the construction of the service: \<^verbatim>\<open>internal/auth/providers/mtls/mtls.go\<close>,
  \<^verbatim>\<open>internal/auth/providers/oauth/oauth.go\<close>, the provider sections of \<^verbatim>\<open>internal/config/config.go\<close> and \<open>NewService\<close> of
  \<^verbatim>\<open>internal/auth/service.go\<close>.  Reading PEM and X.509 and the answer of the GitHub server are arguments; the exchange
  of a code for a token, an HTTP call, is left out.
\<close>

section \<open>Client certificates\<close>

record Certificate =
  ct_CommonName :: string
  ct_DNSNames :: "string list"
  ct_Organization :: "string list"
  ct_Extensions :: "(string \<times> byte list) list"
  ct_SerialNumber :: string

record MTLSConfig =
  mt_Enabled :: bool
  mt_ClientCACert :: string
  mt_AllowedCNs :: "string list"
  mt_AllowedSANs :: "string list"

text \<open>The pool of authorities is represented by the text it is made from.\<close>

record MTLSAuthenticator =
  ma_clientCAs :: string
  ma_allowedCNs :: "string list"
  ma_allowedSANs :: "string list"

definition NewMTLSAuthenticator :: "MTLSConfig \<Rightarrow> MTLSAuthenticator" where
  "NewMTLSAuthenticator cfg = \<lparr>ma_clientCAs = mt_ClientCACert cfg, ma_allowedCNs = mt_AllowedCNs cfg, ma_allowedSANs = mt_AllowedSANs cfg\<rparr>"

definition isCertificateAllowed :: "Certificate \<Rightarrow> MTLSAuthenticator \<Rightarrow> bool" where
  "isCertificateAllowed cert m =
     (if list_ex (\<lambda>cn. ct_CommonName cert = cn) (ma_allowedCNs m) then True
      else if list_ex (\<lambda>san. list_ex (\<lambda>allowed. san = allowed) (ma_allowedSANs m)) (ct_DNSNames cert) then True
      else length (ma_allowedCNs m) = 0 \<and> length (ma_allowedSANs m) = 0)"

definition extractSubjectID :: "Certificate \<Rightarrow> string outcome" where
  "extractSubjectID cert =
     (if ct_CommonName cert \<noteq> [] then Ret (ct_CommonName cert)
      else case ct_DNSNames cert of
        san # _ \<Rightarrow> Ret san
      | [] \<Rightarrow> (case ct_Organization cert of org # _ \<Rightarrow> Ret org | [] \<Rightarrow> Panic ''index out of range''))"

definition extractNamespace :: "Certificate \<Rightarrow> string" where
  "extractNamespace cert =
     (case find (\<lambda>ext. fst ext = ''1.2.3.4.5.6.7.8.1'') (ct_Extensions cert) of Some ext \<Rightarrow> snd ext | None \<Rightarrow> ''default'')"

definition certificate_identity :: "string \<Rightarrow> Certificate \<Rightarrow> Identity" where
  "certificate_identity subjectID cert =
     \<lparr>id_SubjectID = subjectID, id_SubjectType = SubjectService, id_AccountID = subjectID, id_Namespace = extractNamespace cert,
      id_Roles = [''service''], id_Permissions = None,
      id_Namespaces = [(extractNamespace cert, [''publish'', ''consume'', ''ack'', ''nack''])], id_AuthMethod = AuthMethodMTLS,
      id_IssuedAt = zeroTime, id_ExpiresAt = zeroTime, id_Metadata = [(''serial'', ct_SerialNumber cert)]\<rparr>"

text \<open>\<open>parse\<close> is \<open>decodePEM\<close>.\<close>

definition mtls_Authenticate ::
  "(string \<Rightarrow> string + Certificate) \<Rightarrow> MTLSAuthenticator \<Rightarrow> AuthRequest \<Rightarrow> (string + Identity option) outcome" where
  "mtls_Authenticate parse m req =
     (if ar_Certificate req = [] then Ret (Inr None)
      else case parse (ar_Certificate req) of
        Inl err \<Rightarrow> Ret (Inl (''failed to parse certificate: '' @ err))
      | Inr cert \<Rightarrow>
          if \<not> isCertificateAllowed cert m then Ret (Inl ''certificate not in allowlist'')
          else map_outcome (\<lambda>subjectID. Inr (Some (certificate_identity subjectID cert))) (extractSubjectID cert))"

text \<open>\<open>peers\<close> are the certificates of a TLS connection, if it is one.\<close>

definition VerifyConnection :: "Certificate list option \<Rightarrow> MTLSAuthenticator \<Rightarrow> (string + Identity) outcome" where
  "VerifyConnection peers m =
     (case peers of
        None \<Rightarrow> Ret (Inl ''connection is not TLS'')
      | Some [] \<Rightarrow> Ret (Inl ''no client certificate provided'')
      | Some (cert # _) \<Rightarrow>
          if \<not> isCertificateAllowed cert m then Ret (Inl ''certificate not allowed'')
          else map_outcome (\<lambda>subjectID. Inr (certificate_identity subjectID cert)) (extractSubjectID cert))"

section \<open>OAuth\<close>

record OAuthConfig =
  oc_Enabled :: bool
  oc_Provider :: string
  oc_ClientID :: string
  oc_RedirectURL :: string
  oc_Scopes :: "string list"
  oc_TeamsMap :: "(string, string) gomap"

record UserInfo =
  ui_ID :: string
  ui_Email :: string
  ui_Name :: string
  ui_Picture :: string
  ui_Teams :: "string list"

definition slice8 :: "string \<Rightarrow> string outcome" where
  "slice8 token = (if length token < 8 then Panic ''slice bounds out of range'' else Ret (take 8 token))"

definition validateGoogleToken :: "string \<Rightarrow> (string + UserInfo) outcome" where
  "validateGoogleToken token =
     map_outcome (\<lambda>t. Inr \<lparr>ui_ID = ''google-'' @ t, ui_Email = ''user@example.com'', ui_Name = ''Google User'', ui_Picture = [], ui_Teams = []\<rparr>)
       (slice8 token)"

definition validateMicrosoftToken :: "string \<Rightarrow> (string + UserInfo) outcome" where
  "validateMicrosoftToken token =
     map_outcome (\<lambda>t. Inr \<lparr>ui_ID = ''microsoft-'' @ t, ui_Email = ''user@outlook.com'', ui_Name = ''Microsoft User'', ui_Picture = [], ui_Teams = []\<rparr>)
       (slice8 token)"

fun mapTeams :: "(string, string) gomap \<Rightarrow> string list \<Rightarrow> string" where
  "mapTeams teamsMap [] = ''default''"
| "mapTeams teamsMap (team # teams) = (case gm_get teamsMap team of Some ns \<Rightarrow> ns | None \<Rightarrow> mapTeams teamsMap teams)"

definition mapTeamToNamespace :: "UserInfo \<Rightarrow> OAuthConfig \<Rightarrow> string" where
  "mapTeamToNamespace userInfo oa = mapTeams (oc_TeamsMap oa) (ui_Teams userInfo)"

text \<open>\<open>github\<close> is the answer of the GitHub server for a token.\<close>

definition oauth_Authenticate ::
  "(string \<Rightarrow> string + UserInfo) \<Rightarrow> OAuthConfig \<Rightarrow> AuthRequest \<Rightarrow> (string + Identity option) outcome" where
  "oauth_Authenticate github oa req =
     (if ar_Token req = [] then Ret (Inr None)
      else
        map_outcome
          (\<lambda>r. case r of
             Inl err \<Rightarrow> Inl err
           | Inr userInfo \<Rightarrow>
               let ns = mapTeamToNamespace userInfo oa in
               Inr (Some \<lparr>id_SubjectID = ui_ID userInfo, id_SubjectType = SubjectUser, id_AccountID = ui_Email userInfo, id_Namespace = ns,
                 id_Roles = [''user''], id_Permissions = None, id_Namespaces = [(ns, [''publish'', ''consume''])],
                 id_AuthMethod = ''OAUTH'', id_IssuedAt = zeroTime, id_ExpiresAt = zeroTime,
                 id_Metadata = [(''picture'', ui_Picture userInfo)]\<rparr>))
          (if oc_Provider oa = ''google'' then validateGoogleToken (ar_Token req)
           else if oc_Provider oa = ''github'' then Ret (github (ar_Token req))
           else if oc_Provider oa = ''microsoft'' then validateMicrosoftToken (ar_Token req)
           else Ret (Inl (''unsupported OAuth provider: '' @ oc_Provider oa))))"

definition getAuthURL :: "OAuthConfig \<Rightarrow> string" where
  "getAuthURL oa =
     (if oc_Provider oa = ''google'' then ''https://accounts.google.com/o/oauth2/v2/auth''
      else if oc_Provider oa = ''github'' then ''https://github.com/login/oauth/authorize''
      else if oc_Provider oa = ''microsoft'' then ''https://login.microsoftonline.com/common/oauth2/v2.0/authorize''
      else [])"

definition getTokenURL :: "OAuthConfig \<Rightarrow> string" where
  "getTokenURL oa =
     (if oc_Provider oa = ''google'' then ''https://oauth2.googleapis.com/token''
      else if oc_Provider oa = ''github'' then ''https://github.com/login/oauth/access_token''
      else if oc_Provider oa = ''microsoft'' then ''https://login.microsoftonline.com/common/oauth2/v2.0/token''
      else [])"

fun joinScopes :: "string list \<Rightarrow> string" where
  "joinScopes [] = []"
| "joinScopes [s] = s"
| "joinScopes (s # t # ss) = s @ '' '' @ joinScopes (t # ss)"

text \<open>\<open>url.QueryEscape\<close> and \<open>url.Values.Encode\<close>, which sorts by key.\<close>

definition unreserved :: "byte \<Rightarrow> bool" where
  "unreserved c = (let n = (of_char c :: nat) in
     97 \<le> n \<and> n \<le> 122 \<or> 65 \<le> n \<and> n \<le> 90 \<or> 48 \<le> n \<and> n \<le> 57 \<or> c \<in> set ''-_.~'')"

definition upper_hex :: "nat \<Rightarrow> byte" where
  "upper_hex n = ''0123456789ABCDEF'' ! n"

definition QueryEscape :: "string \<Rightarrow> string" where
  "QueryEscape s =
     concat (map (\<lambda>c. if unreserved c then [c] else if c = CHR '' '' then ''+''
       else [CHR ''%'', upper_hex (of_char c div 16), upper_hex (of_char c mod 16)]) s)"

fun ampersands :: "string list \<Rightarrow> string" where
  "ampersands [] = []"
| "ampersands [s] = s"
| "ampersands (s # t # ss) = s @ ''&'' @ ampersands (t # ss)"

definition Values_Encode :: "(string \<times> string) list \<Rightarrow> string" where
  "Values_Encode vs = ampersands (map (\<lambda>(k, v). QueryEscape k @ ''='' @ QueryEscape v) (sort_key fst vs))"

definition GetAuthorizationURL :: "string \<Rightarrow> OAuthConfig \<Rightarrow> string" where
  "GetAuthorizationURL state oa =
     getAuthURL oa @ ''?'' @ Values_Encode [(''client_id'', oc_ClientID oa), (''redirect_uri'', oc_RedirectURL oa),
       (''response_type'', ''code''), (''scope'', joinScopes (oc_Scopes oa)), (''state'', state)]"

text \<open>\<open>random\<close> are the 32 bytes that \<open>rand.Read\<close> returns.\<close>

definition GenerateState :: "byte list \<Rightarrow> string" where
  "GenerateState random = b64_encode urlAlphabet True random"

section \<open>The service and its registry\<close>

record ProvidersConfig =
  pc_Password :: bool
  pc_APIKey :: bool
  pc_APIKeyPriority :: int
  pc_APIKeyPrefix :: string
  pc_HashSecret :: string
  pc_JWT :: bool
  pc_OAuth :: OAuthConfig
  pc_MTLS :: MTLSConfig

text \<open>\<open>mgr\<close> is the token manager that is made from its part of the configuration.\<close>

definition NewService :: "ProvidersConfig \<Rightarrow> JwtManager \<Rightarrow> Service" where
  "NewService cfg mgr =
     \<lparr>sv_jwtMgr = (if pc_JWT cfg then Some mgr else None),
      sv_apiKeyAuth = NewAPIKeyAuthenticator (pc_APIKeyPrefix cfg) (pc_APIKeyPriority cfg) (pc_HashSecret cfg),
      sv_keyPrefix = pc_APIKeyPrefix cfg, sv_policy = loadDefaultPolicy NewPolicy\<rparr>"

text \<open>
  The registry holds the authenticator for API keys of the service itself, with the keys it has at the moment.
  A panic of a provider is here an error; the requests of the TCP server cannot cause one (\<open>tcp_no_panic\<close>).
\<close>

definition no_panic :: "(string + Identity option) outcome \<Rightarrow> string + Identity option" where
  "no_panic r = (case r of Ret x \<Rightarrow> x | Panic e \<Rightarrow> Inl e)"

definition service_registry ::
  "ProvidersConfig \<Rightarrow> userdb \<Rightarrow> gtime \<Rightarrow> (string \<Rightarrow> string + UserInfo) \<Rightarrow> (string \<Rightarrow> string + Certificate) \<Rightarrow> Service \<Rightarrow> Registry" where
  "service_registry cfg db now github parse svc =
     (let r = NewRegistry;
          r = (if pc_Password cfg then Register (PasswordAuthenticator db now) r else r);
          r = (if pc_APIKey cfg then Register (apikey_authenticator (sv_apiKeyAuth svc)) r else r);
          r = (if oc_Enabled (pc_OAuth cfg)
               then Register \<lparr>au_Name = ''oauth:'' @ oc_Provider (pc_OAuth cfg), au_Priority = 50,
                      au_Authenticate = (\<lambda>req. no_panic (oauth_Authenticate github (pc_OAuth cfg) req))\<rparr> r else r);
          r = (if mt_Enabled (pc_MTLS cfg)
               then Register \<lparr>au_Name = ''mtls'', au_Priority = 5,
                      au_Authenticate = (\<lambda>req. no_panic (mtls_Authenticate parse (NewMTLSAuthenticator (pc_MTLS cfg)) req))\<rparr> r else r)
      in r)"

end
