(* ===== verification/Providers_Props.thy ===== *)
theory Providers_Props
  imports Providers Auth_Props Admin_Props
begin

text \<open>
  The composed service: which of the configured providers decide about a connection of the TCP server, and what
  the providers for certificates and OAuth accept.
\<close>

section \<open>The registry of a service\<close>

lemma try_all_one:
  "(\<And>a. a \<in> set as \<Longrightarrow> au_Authenticate a req \<in> {Inr None, v}) \<Longrightarrow>
   try_all req as = (if \<exists>a \<in> set as. au_Authenticate a req = v then v else Inr None)"
proof (induction as)
  case (Cons a as)
  have IH: "try_all req as = (if \<exists>a \<in> set as. au_Authenticate a req = v then v else Inr None)" using Cons by simp
  have "au_Authenticate a req = Inr None \<or> au_Authenticate a req = v" using Cons.prems by auto
  then show ?case
  proof
    assume "au_Authenticate a req = Inr None"
    then show ?thesis using IH by auto
  next
    assume "au_Authenticate a req = v"
    then show ?thesis using IH by (cases v) (auto split: option.split)
  qed
qed simp

lemma registry_set:
  "snd ` set (service_registry cfg db now github parse svc) =
     (if pc_Password cfg then {PasswordAuthenticator db now} else {}) \<union>
     (if pc_APIKey cfg then {apikey_authenticator (sv_apiKeyAuth svc)} else {}) \<union>
     (if oc_Enabled (pc_OAuth cfg) then {\<lparr>au_Name = ''oauth:'' @ oc_Provider (pc_OAuth cfg), au_Priority = 50,
        au_Authenticate = (\<lambda>req. no_panic (oauth_Authenticate github (pc_OAuth cfg) req))\<rparr>} else {}) \<union>
     (if mt_Enabled (pc_MTLS cfg) then {\<lparr>au_Name = ''mtls'', au_Priority = 5,
        au_Authenticate = (\<lambda>req. no_panic (mtls_Authenticate parse (NewMTLSAuthenticator (pc_MTLS cfg)) req))\<rparr>} else {})"
  by (auto simp: service_registry_def Let_def Register_def NewRegistry_def PasswordAuthenticator_def apikey_authenticator_def)

text \<open>The TCP server sends neither tokens nor certificates: the two other providers pass such requests on.\<close>

lemma tcp_no_panic:
  "ar_Token req = [] \<Longrightarrow> oauth_Authenticate github oa req = Ret (Inr None)"
  "ar_Certificate req = [] \<Longrightarrow> mtls_Authenticate parse m req = Ret (Inr None)"
  by (simp_all add: oauth_Authenticate_def mtls_Authenticate_def)

text \<open>
  [C17] Whatever providers are configured, and in whatever order the registry iterates, a connection with a user
  name and a password is decided by the password provider alone, and one with an API key by the provider for
  API keys alone; where that provider is disabled nobody is let in.
\<close>

theorem tcp_logins:
  assumes "is_range_order it"
  shows "AuthenticateTCP it addr user pw ns (service_registry cfg db now github parse svc) =
      (if pc_Password cfg then password_Authenticate db now (noRequest\<lparr>ar_RemoteAddr := addr, ar_Username := user, ar_Password := pw, ar_Namespace := ns\<rparr>)
       else Inr None)
    \<and> AuthenticateTCPWithKey it addr key ns (service_registry cfg db now github parse svc) =
      (if pc_APIKey cfg then apikey_Authenticate (sv_apiKeyAuth svc) (noRequest\<lparr>ar_RemoteAddr := addr, ar_APIKey := key, ar_Namespace := ns\<rparr>)
       else Inr None)"
proof -
  let ?r = "service_registry cfg db now github parse svc"
  note all = reg_All_set [OF assms, of ?r, unfolded registry_set]
  let ?p = "noRequest\<lparr>ar_RemoteAddr := addr, ar_Username := user, ar_Password := pw, ar_Namespace := ns\<rparr>"
  let ?k = "noRequest\<lparr>ar_RemoteAddr := addr, ar_APIKey := key, ar_Namespace := ns\<rparr>"
  have "apikey_Authenticate a ?p = Inr None" "password_Authenticate db now ?k = Inr None" for a
    by (simp_all add: apikey_Authenticate_def password_Authenticate_def noRequest_def)
  moreover have "ar_Token ?p = []" "ar_Certificate ?p = []" "ar_Token ?k = []" "ar_Certificate ?k = []" by (simp_all add: noRequest_def)
  ultimately have "a \<in> set (reg_All it ?r) \<Longrightarrow> au_Authenticate a ?p \<in> {Inr None, if pc_Password cfg then password_Authenticate db now ?p else Inr None}"
    "a \<in> set (reg_All it ?r) \<Longrightarrow> au_Authenticate a ?k \<in> {Inr None, if pc_APIKey cfg then apikey_Authenticate (sv_apiKeyAuth svc) ?k else Inr None}" for a
    using all by (auto simp: tcp_no_panic no_panic_def PasswordAuthenticator_def apikey_authenticator_def split: if_splits)
  from try_all_one [OF this(1)] try_all_one [OF this(2)]
  have d: "try_all ?p (reg_All it ?r) = (if \<exists>a \<in> set (reg_All it ?r). au_Authenticate a ?p = (if pc_Password cfg then password_Authenticate db now ?p else Inr None)
      then (if pc_Password cfg then password_Authenticate db now ?p else Inr None) else Inr None)"
    "try_all ?k (reg_All it ?r) = (if \<exists>a \<in> set (reg_All it ?r). au_Authenticate a ?k = (if pc_APIKey cfg then apikey_Authenticate (sv_apiKeyAuth svc) ?k else Inr None)
      then (if pc_APIKey cfg then apikey_Authenticate (sv_apiKeyAuth svc) ?k else Inr None) else Inr None)" by blast+
  show ?thesis unfolding AuthenticateTCP_def AuthenticateTCPWithKey_def d all
    by (auto simp: PasswordAuthenticator_def apikey_authenticator_def)
qed

theorem tcp_logins_witness:
  "AuthenticateTCP rev ''a'' ''u'' ''p'' ''n'' (service_registry \<lparr>pc_Password = False, pc_APIKey = True, pc_APIKeyPriority = 20, pc_APIKeyPrefix = ''flw_'',
      pc_HashSecret = ''s'', pc_JWT = True, pc_OAuth = \<lparr>oc_Enabled = True, oc_Provider = ''google'', oc_ClientID = [], oc_RedirectURL = [], oc_Scopes = [],
      oc_TeamsMap = []\<rparr>, pc_MTLS = \<lparr>mt_Enabled = True, mt_ClientCACert = [], mt_AllowedCNs = [], mt_AllowedSANs = []\<rparr>\<rparr>
      \<lparr>db_CheckPassword = (\<lambda>u p. p = ''p''), db_GetUser = (\<lambda>u. None)\<rparr> 0 (\<lambda>_. Inl ''404'') (\<lambda>_. Inl ''no certificate found in PEM'') demo_service) = Inr None"
  using tcp_logins [OF is_range_order_rev, of "''a''" "''u''" "''p''" "''n''"] by simp

section \<open>What the other providers accept\<close>

text \<open>The configured authorities play no part: every certificate with an allowed name is accepted, whoever signed it.\<close>

lemma mtls_ignores_authorities: "mtls_Authenticate parse (m\<lparr>ma_clientCAs := pem\<rparr>) req = mtls_Authenticate parse m req"
proof -
  have "isCertificateAllowed cert (m\<lparr>ma_clientCAs := pem\<rparr>) = isCertificateAllowed cert m" for cert by (simp add: isCertificateAllowed_def)
  then show ?thesis by (auto simp: mtls_Authenticate_def split: sum.split)
qed

lemma certificate_without_names_panics:
  assumes "parse pem = Inr cert" "pem \<noteq> []" "isCertificateAllowed cert m"
    and "ct_CommonName cert = []" "ct_DNSNames cert = []" "ct_Organization cert = []"
  shows "mtls_Authenticate parse m (noRequest\<lparr>ar_Certificate := pem\<rparr>) = Panic ''index out of range''"
  using assms by (simp add: mtls_Authenticate_def extractSubjectID_def noRequest_def)

text \<open>The provider for Google accepts every token of eight bytes or more, and panics on the others.\<close>

lemma google_accepts_anything:
  "oc_Provider oa = ''google'' \<Longrightarrow> 8 \<le> length token \<Longrightarrow>
     \<exists>i. oauth_Authenticate github oa (noRequest\<lparr>ar_Token := token\<rparr>) = Ret (Inr (Some i)) \<and> id_SubjectID i = ''google-'' @ take 8 token"
  by (cases token) (auto simp: oauth_Authenticate_def noRequest_def validateGoogleToken_def slice8_def Let_def)

lemma short_token_panics:
  "oc_Provider oa = ''google'' \<or> oc_Provider oa = ''microsoft'' \<Longrightarrow> token \<noteq> [] \<Longrightarrow> length token < 8 \<Longrightarrow>
     oauth_Authenticate github oa (noRequest\<lparr>ar_Token := token\<rparr>) = Panic ''slice bounds out of range''"
  by (auto simp: oauth_Authenticate_def noRequest_def validateGoogleToken_def validateMicrosoftToken_def slice8_def)

text \<open>A value cannot add parameters to the address: what is escaped contains no separators.\<close>

lemma upper_hex_safe: "n < 16 \<Longrightarrow> upper_hex n \<noteq> CHR ''&'' \<and> upper_hex n \<noteq> CHR ''=''"
proof -
  assume "n < 16"
  then have "n \<in> set [0..<16]" by simp
  moreover have "\<forall>n \<in> set [0..<16]. upper_hex n \<noteq> CHR ''&'' \<and> upper_hex n \<noteq> CHR ''=''" by code_simp
  ultimately show ?thesis by blast
qed

lemma escape_safe: "CHR ''&'' \<notin> set (QueryEscape s) \<and> CHR ''='' \<notin> set (QueryEscape s)"
proof -
  have u: "\<not> unreserved (CHR ''&'')" "\<not> unreserved (CHR ''='')" by code_simp+
  have h: "CHR ''&'' \<noteq> upper_hex (of_char c div 16)" "CHR ''='' \<noteq> upper_hex (of_char c div 16)"
    "CHR ''&'' \<noteq> upper_hex (of_char c mod 16)" "CHR ''='' \<noteq> upper_hex (of_char c mod 16)" for c :: byte
    using upper_hex_safe [of "of_char c div 16"] upper_hex_safe [of "of_char c mod 16"] by (auto simp: less_mult_imp_div_less)
  show ?thesis by (induction s) (auto simp: QueryEscape_def u h)
qed

end
