(* ===== verification/App.thy ===== *)
theory App
  imports Admin_Props
begin

text \<open>
  Start-up and health: the limits that \<open>Load\<close> of \<^verbatim>\<open>internal/config/config.go\<close> puts on the values it has read, the
  part of \<open>New\<close> in \<^verbatim>\<open>internal/app/app.go\<close> that creates the first administrator and writes down the password, and the
  report of \<^verbatim>\<open>internal/api/v1/health.go\<close>.  Reading files and the environment, opening the database, random bytes and
  the hashes of bcrypt are arguments.
\<close>

section \<open>Configuration\<close>

record ServerConfig =
  sc_MaxConnections :: int
  sc_ConnRateLimit :: int
  sc_ReadTimeout :: duration
  sc_WriteTimeout :: duration

definition at_least :: "int \<Rightarrow> int \<Rightarrow> int" where
  "at_least dflt v = (if v \<le> 0 then dflt else v)"

definition Load_limits :: "WALConfig \<times> ServerConfig \<Rightarrow> WALConfig \<times> ServerConfig" where
  "Load_limits cfg =
     (case cfg of (w, s) \<Rightarrow>
        (w\<lparr>FlushInterval := at_least 10000000 (FlushInterval w), FlushMaxMessages := at_least 1000 (FlushMaxMessages w),
           SegmentMaxBytes := at_least (512 * 2 ^ 20) (SegmentMaxBytes w), SnapshotInterval := at_least 60000000000 (SnapshotInterval w)\<rparr>,
         s\<lparr>sc_MaxConnections := at_least 10000 (sc_MaxConnections s), sc_ConnRateLimit := at_least 1000 (sc_ConnRateLimit s),
           sc_ReadTimeout := at_least 30000000000 (sc_ReadTimeout s), sc_WriteTimeout := at_least 10000000000 (sc_WriteTimeout s)\<rparr>))"

text \<open>The broker starts with positive limits, and positive values are kept.\<close>

lemma loaded_positive:
  "Load_limits cfg = (w, s) \<Longrightarrow> 0 < FlushInterval w \<and> 0 < FlushMaxMessages w \<and> 0 < SegmentMaxBytes w \<and> 0 < SnapshotInterval w
     \<and> 0 < sc_MaxConnections s \<and> 0 < sc_ConnRateLimit s \<and> 0 < sc_ReadTimeout s \<and> 0 < sc_WriteTimeout s"
  by (cases cfg) (auto simp: Load_limits_def at_least_def)

lemma Load_limits_idem: "Load_limits (Load_limits cfg) = Load_limits cfg"
  by (cases cfg) (auto simp: Load_limits_def at_least_def)

section \<open>The first administrator\<close>

text \<open>
  What a start meets: the failures of the database, the hash function of bcrypt with its salt, the time stamp, the
  24 random bytes in hexadecimal form, whether the directory can be made, and how the write of the file
  ends: \<open>None\<close> if well, \<open>Some f\<close> if it fails and leaves the file as \<open>f\<close>.
\<close>

record start =
  st_faults :: faults
  st_bcrypt :: "string \<Rightarrow> string + string"
  st_now :: string
  st_random :: string
  st_mkdir :: bool
  st_write :: "string option option"
  st_Username :: string
  st_Password :: string

definition credentials :: "string \<Rightarrow> string \<Rightarrow> string" where
  "credentials username password = ''username: '' @ username @ [CHR 0x0A] @ ''password: '' @ password @ [CHR 0x0A]"

text \<open>The state is the database and the file \<^verbatim>\<open>admin_credentials.txt\<close>; the result is an error, if there is one.\<close>

definition app_New :: "start \<Rightarrow> Store \<times> string option \<Rightarrow> string option \<times> Store \<times> string option" where
  "app_New st state =
     (case state of (s, f) \<Rightarrow>
        let autoGenerated = (st_Password st = []);
            password = (if autoGenerated then st_random st else st_Password st)
        in case store_init (st_faults st) (st_bcrypt st (if password = [] then ''admin'' else password)) (st_now st) (st_Username st) s of
             ((Some err, _), s) \<Rightarrow> (Some err, s, f)
           | ((None, adminCreated), s) \<Rightarrow>
               (None, s,
                if autoGenerated \<and> adminCreated \<and> st_mkdir st
                then (case st_write st of None \<Rightarrow> Some (credentials (st_Username st) password) | Some g \<Rightarrow> g)
                else f))"

definition app_run :: "start list \<Rightarrow> Store \<times> string option \<Rightarrow> Store \<times> string option" where
  "app_run sts state = fold (\<lambda>st state. snd (app_New st state)) sts state"

text \<open>The credentials in the file open an account.\<close>

definition file_ok :: "(string \<Rightarrow> string \<Rightarrow> bool) \<Rightarrow> Store \<times> string option \<Rightarrow> bool" where
  "file_ok matches state \<longleftrightarrow> (\<forall>content. snd state = Some content \<longrightarrow>
     (\<exists>u p row. content = credentials u p \<and> accounts (fst state) u = Some row \<and> matches (u_PasswordHash row) p))"

lemma accounts_namespace: "insert_namespace flt now n c s = Inr s' \<Longrightarrow> accounts s' = accounts s"
  by (auto simp: insert_namespace_def accounts_def bump_def fun_eq_iff split: option.splits if_splits)

text \<open>A start creates the administrator, or leaves the accounts as they are.\<close>

definition seeded :: "string + string \<Rightarrow> string \<Rightarrow> Store \<Rightarrow> string option \<Rightarrow> bool \<Rightarrow> Store \<Rightarrow> bool" where
  "seeded hashed name s err created s' \<longleftrightarrow>
     (if created then err = None \<and> accounts s name = None
        \<and> (\<exists>row. hashed = Inr (u_PasswordHash row) \<and> u_Role row = ''admin'' \<and> accounts s' name = Some row)
        \<and> (\<forall>n. n \<noteq> name \<longrightarrow> accounts s' n = accounts s n)
      else accounts s' = accounts s)"

lemma seed_outcome:
  assumes "seedDefaultData flt hashed now name s = ((err, created), s')" "name \<noteq> []"
  shows "seeded hashed name s err created s'"
proof -
  define t where "t = (if (case flt 0 of Some _ \<Rightarrow> 0 | None \<Rightarrow> length (tb_namespaces s)) = 0
    then case insert_namespace (\<lambda>_. flt 1) now ''main'' ''{}'' s of Inl _ \<Rightarrow> s | Inr s \<Rightarrow> s else s)"
  have t: "accounts t = accounts s" by (auto simp: t_def dest: accounts_namespace split: sum.split)
  have c: "created \<Longrightarrow> err = None \<and> (\<exists>h. hashed = Inr h \<and> insert_user (\<lambda>_. flt 3) now name h None ''admin'' t = Inr s')" "\<not> created \<Longrightarrow> s' = t"
    using assms unfolding seedDefaultData_def Let_def t_def [symmetric]
    by (auto split: if_splits sum.splits option.splits)
  show ?thesis
  proof (cases created)
    case True
    then obtain h where h: "err = None" "hashed = Inr h" "insert_user (\<lambda>_. flt 3) now name h None ''admin'' t = Inr s'" using c(1) by blast
    show ?thesis unfolding seeded_def using True h(1,2) accounts_insert [OF h(3)] t by simp
  next
    case False
    then show ?thesis using c(2) t by (simp add: seeded_def)
  qed
qed

lemma init_outcome:
  assumes "store_init flt hashed now name s = ((err, created), s')" "name \<noteq> []"
  shows "seeded hashed name s err created s'"
proof (cases "find (\<lambda>k. flt k \<noteq> None) [0..<17]")
  case None
  then show ?thesis using seed_outcome [OF _ assms(2)] assms(1) by (simp add: store_init_def)
next
  case (Some k)
  then show ?thesis using assms(1) by (auto simp: store_init_def seeded_def)
qed

lemma app_New_keeps:
  assumes "file_ok matches state" and "st_Username st \<noteq> []" "\<And>p h. st_bcrypt st p = Inr h \<Longrightarrow> matches h p" "st_write st \<in> {None, Some None}"
    and "st_random st \<noteq> []"
  shows "file_ok matches (snd (app_New st state))"
proof -
  obtain s f where st: "state = (s, f)" by fastforce
  define pw where "pw = (if st_Password st = [] then st_random st else st_Password st)"
  have pw: "pw \<noteq> []" using assms(5) by (simp add: pw_def)
  obtain err created s' where i: "store_init (st_faults st) (st_bcrypt st pw) (st_now st) (st_Username st) s = ((err, created), s')"
    by (metis prod.exhaust)
  note out = init_outcome [OF i assms(2)]
  have r: "snd (app_New st state) = (s', if err = None \<and> st_Password st = [] \<and> created \<and> st_mkdir st
      then (case st_write st of None \<Rightarrow> Some (credentials (st_Username st) pw) | Some g \<Rightarrow> g) else f)"
    using i pw by (auto simp: app_New_def st Let_def pw_def split: option.split)
  have old: "accounts s' u = Some row" if "accounts s u = Some row" for u row
    using out that by (cases created; cases "u = st_Username st") (simp_all add: seeded_def)
  have keep: "file_ok matches (s', f)" using assms(1) old unfolding file_ok_def st by fastforce
  show ?thesis
  proof (cases "err = None \<and> st_Password st = [] \<and> created \<and> st_mkdir st \<and> st_write st = None")
    case True
    then obtain row where "st_bcrypt st pw = Inr (u_PasswordHash row)" "accounts s' (st_Username st) = Some row"
      using out by (auto simp: seeded_def)
    then have "credentials (st_Username st) pw = credentials (st_Username st) pw \<and> accounts s' (st_Username st) = Some row
      \<and> matches (u_PasswordHash row) pw" using assms(3) by simp
    then have "file_ok matches (s', Some (credentials (st_Username st) pw))" unfolding file_ok_def by fastforce
    then show ?thesis using True unfolding r by simp
  next
    case False
    then show ?thesis using keep assms(4) unfolding r by (auto simp: file_ok_def)
  qed
qed

text \<open>
  [C18] The password that a start has written down works.  Let every start have a configured name that is not empty, a
  generated password that is not empty, a password hash that accepts the password it was made from, and a write of the
  file that writes all of it or nothing.  Then after any sequence of starts of a new installation, with
  any failures of the database and of the other steps, the file with the credentials, if it is there, names an
  account and a password that the password check accepts.
\<close>

theorem first_credentials:
  assumes "\<And>st. st \<in> set sts \<Longrightarrow> st_Username st \<noteq> [] \<and> st_random st \<noteq> [] \<and> st_write st \<in> {None, Some None}
      \<and> (\<forall>p h. st_bcrypt st p = Inr h \<longrightarrow> matches h p)"
    and "app_run sts (emptyStore fk, None) = (s, Some content)"
  shows "\<exists>u p. content = credentials u p \<and> CheckPassword no_faults matches u p s"
proof -
  have "file_ok matches state \<Longrightarrow> file_ok matches (app_run sts state)" for state
    using assms(1)
  proof (induction sts arbitrary: state)
    case (Cons st sts)
    have "file_ok matches (snd (app_New st state))" by (rule app_New_keeps) (use Cons.prems in auto)
    then have "file_ok matches (app_run sts (snd (app_New st state)))" using Cons.IH Cons.prems(2) by fastforce
    then show ?case by (simp add: app_run_def)
  qed (simp add: app_run_def)
  then have "file_ok matches (s, Some content)" using assms(2) by (metis file_ok_def option.distinct(1) snd_conv)
  then obtain u p row where u: "content = credentials u p" "accounts s u = Some row" "matches (u_PasswordHash row) p" by (auto simp: file_ok_def)
  then have "CheckPassword no_faults matches u p s" by (simp add: CheckPassword_def GetUser_accounts no_faults_def)
  then show ?thesis using u(1) by blast
qed

definition demo_boot :: start where
  "demo_boot = \<lparr>st_faults = no_faults, st_bcrypt = (\<lambda>p. Inr (CHR ''h'' # p)), st_now = ''t'', st_random = ''0af3'', st_mkdir = True, st_write = None,
     st_Username = ''admin'', st_Password = []\<rparr>"

lemma demo_first_start: "snd (app_run [demo_boot, demo_boot] (emptyStore True, None)) = Some (credentials ''admin'' ''0af3'')"
  by code_simp

theorem first_credentials_witness:
  "\<exists>u p s content. app_run [demo_boot, demo_boot] (emptyStore True, None) = (s, Some content) \<and> content = credentials u p
    \<and> CheckPassword no_faults (\<lambda>h p. h = CHR ''h'' # p) u p s"
proof -
  obtain s where s: "app_run [demo_boot, demo_boot] (emptyStore True, None) = (s, Some (credentials ''admin'' ''0af3''))"
    using demo_first_start by (metis prod.collapse)
  have "\<exists>u p. credentials ''admin'' ''0af3'' = credentials u p \<and> CheckPassword no_faults (\<lambda>h p. h = CHR ''h'' # p) u p s"
    by (rule first_credentials [OF _ s]) (auto simp: demo_boot_def)
  then show ?thesis using s by blast
qed

text \<open>
  Once there are users, a start without failures of the database changes neither the accounts nor the file: where
  the first write failed, the password of the administrator is lost.
\<close>

lemma restart_keeps_file:
  assumes "st_faults st = no_faults" "tb_users s \<noteq> []"
  shows "\<exists>s'. app_New st (s, f) = (None, s', f) \<and> accounts s' = accounts s"
proof -
  have t: "\<exists>s'. seedDefaultData (\<lambda>k. None) hashed now name s = ((None, False), s') \<and> accounts s' = accounts s" for hashed now name
  proof -
    define t where "t = (if length (tb_namespaces s) = 0 then case insert_namespace (\<lambda>_. None) now ''main'' ''{}'' s of Inl _ \<Rightarrow> s | Inr s \<Rightarrow> s else s)"
    have "accounts t = accounts s" "tb_users t = tb_users s"
      by (auto simp: t_def insert_namespace_def bump_def accounts_def fun_eq_iff split: sum.split)
    then show ?thesis using assms(2) by (auto simp: seedDefaultData_def Let_def t_def)
  qed
  have i: "store_init no_faults hashed now name s = seedDefaultData (\<lambda>k. None) hashed now name s" for hashed now name
  proof -
    have "find (\<lambda>k. False) [0..<17] = None" by (simp add: find_None_iff)
    then show ?thesis by (simp add: store_init_def no_faults_def)
  qed
  obtain s' where "seedDefaultData (\<lambda>k. None) (st_bcrypt st (if st_Password st = [] \<and> st_random st = [] then ''admin''
      else if st_Password st = [] then st_random st else st_Password st)) (st_now st) (st_Username st) s = ((None, False), s')" "accounts s' = accounts s"
    using t by blast
  then show ?thesis by (auto simp: app_New_def i assms(1) Let_def split: if_splits)
qed

section \<open>Health\<close>

record checkResult =
  hc_Name :: string
  hc_Status :: string
  hc_Detail :: string

definition check_result :: "string \<Rightarrow> string option \<Rightarrow> checkResult" where
  "check_result name err =
     (case err of None \<Rightarrow> \<lparr>hc_Name = name, hc_Status = ''ok'', hc_Detail = []\<rparr> | Some d \<Rightarrow> \<lparr>hc_Name = name, hc_Status = ''error'', hc_Detail = d\<rparr>)"

text \<open>\<open>describe\<close> is the text of an error of the log; the scheduler of a broker is always there.\<close>

definition get_health ::
  "(string, QueueWAL) range_order \<Rightarrow> (wal_error \<Rightarrow> string) \<Rightarrow> string + 64 word \<Rightarrow> Broker \<Rightarrow> string \<times> checkResult list" where
  "get_health it describe free b =
     (let disk = CheckDiskSpace free;
          checks = [check_result ''wal'' (map_option describe (WAL_Err it (b_WAL b))), check_result ''scheduler'' None,
                    check_result ''disk'' (if fst disk then None else Some (snd disk))]
      in (if list_all (\<lambda>c. hc_Status c = ''ok'') checks then ''ok'' else ''degraded'', checks))"

text \<open>The report is good exactly if no log has failed and 500 MiB are free.\<close>

lemma first_error_None: "first_error qs = None \<longleftrightarrow> (\<forall>x \<in> set qs. qw_errored (snd x) = None)"
  by (induction qs rule: first_error.induct) (auto split: option.split)

lemma health_exact:
  assumes "is_range_order it"
  shows "fst (get_health it describe free b) = ''ok'' \<longleftrightarrow>
    (\<forall>x \<in> set (w_queues (b_WAL b)). qw_errored (snd x) = None) \<and> (\<exists>n. free = Inr n \<and> 524288000 \<le> n)"
proof -
  have "WAL_Err it (b_WAL b) = None \<longleftrightarrow> (\<forall>x \<in> set (w_queues (b_WAL b)). qw_errored (snd x) = None)"
    by (simp add: WAL_Err_def first_error_None range_order_set [OF assms])
  moreover have "fst (CheckDiskSpace free) \<longleftrightarrow> (\<exists>n. free = Inr n \<and> 524288000 \<le> n)"
    by (auto simp: CheckDiskSpace_def Let_def push_bit_eq_mult split: sum.split)
  ultimately show ?thesis by (auto simp: get_health_def check_result_def Let_def split: option.split)
qed

end
