(* ===== verification/Audit_Log.thy ===== *)
theory Audit_Log
  imports Go_Json_Props
begin

text \<open>
  The audit log (\<^verbatim>\<open>internal/auth/audit/audit.go\<close>): a window of the latest events in memory, each event also given to a
  handler in a goroutine of its own.  The readings of the clock are arguments.  The text of an event as JSON, which
  needs the format of time stamps, is not modelled.
\<close>

section \<open>Events\<close>

record AuditEvent =
  ae_ID :: string
  ae_Type :: string
  ae_Timestamp :: gtime
  ae_SubjectID :: string
  ae_SubjectType :: string
  ae_AuthMethod :: string
  ae_Namespace :: string
  ae_RemoteAddr :: string
  ae_Success :: bool
  ae_Reason :: string
  ae_Metadata :: "(string, string) gomap"

definition audit_event :: "string \<Rightarrow> gtime \<Rightarrow> string \<Rightarrow> bool \<Rightarrow> AuditEvent" where
  "audit_event ty now subjectID success =
     \<lparr>ae_ID = [], ae_Type = ty, ae_Timestamp = now, ae_SubjectID = subjectID, ae_SubjectType = [], ae_AuthMethod = [], ae_Namespace = [],
      ae_RemoteAddr = [], ae_Success = success, ae_Reason = [], ae_Metadata = []\<rparr>"

definition randomID :: "nat \<Rightarrow> string" where
  "randomID n = map (\<lambda>i. ''abcdefghijklmnopqrstuvwxyz0123456789'' ! (i mod 36)) [0..<n]"

definition generateEventID :: "gtime \<Rightarrow> string" where
  "generateEventID now = print_int now @ ''-'' @ randomID 8"

section \<open>The logger\<close>

text \<open>\<open>lg_handled\<close> are the events for which a goroutine with the handler was started.\<close>

record Logger =
  lg_events :: "AuditEvent list"
  lg_maxLen :: int
  lg_handler :: bool
  lg_handled :: "AuditEvent list"

definition NewLogger :: "bool \<Rightarrow> int \<Rightarrow> Logger" where
  "NewLogger handler maxLen = \<lparr>lg_events = [], lg_maxLen = maxLen, lg_handler = handler, lg_handled = []\<rparr>"

definition log_append :: "gtime \<Rightarrow> AuditEvent \<Rightarrow> Logger \<Rightarrow> Logger" where
  "log_append now event l =
     (let event = event\<lparr>ae_ID := generateEventID now\<rparr>;
          events = lg_events l @ [event];
          events = (if lg_maxLen l > 0 \<and> int (length events) > lg_maxLen l then tl events else events)
      in l\<lparr>lg_events := events, lg_handled := (if lg_handler l then lg_handled l @ [event] else lg_handled l)\<rparr>)"

definition LogAuth :: "gtime \<times> gtime \<Rightarrow> string \<Rightarrow> string \<Rightarrow> string \<Rightarrow> string \<Rightarrow> string \<Rightarrow> bool \<Rightarrow> string \<Rightarrow> Logger \<Rightarrow> Logger" where
  "LogAuth t subjectID subjectType meth remoteAddr namespace success reason =
     log_append (snd t) ((audit_event (if success then ''AUTH_SUCCESS'' else ''AUTH_FAILURE'') (fst t) subjectID success)
       \<lparr>ae_SubjectType := subjectType, ae_AuthMethod := meth, ae_RemoteAddr := remoteAddr, ae_Namespace := namespace, ae_Reason := reason\<rparr>)"

definition LogTokenIssued :: "gtime \<times> gtime \<Rightarrow> string \<Rightarrow> string \<Rightarrow> string \<Rightarrow> string \<Rightarrow> Logger \<Rightarrow> Logger" where
  "LogTokenIssued t subjectID subjectType meth remoteAddr =
     log_append (snd t) ((audit_event ''TOKEN_ISSUED'' (fst t) subjectID True)
       \<lparr>ae_SubjectType := subjectType, ae_AuthMethod := meth, ae_RemoteAddr := remoteAddr\<rparr>)"

definition LogTokenRevoked :: "gtime \<times> gtime \<Rightarrow> string \<Rightarrow> string \<Rightarrow> Logger \<Rightarrow> Logger" where
  "LogTokenRevoked t subjectID reason = log_append (snd t) ((audit_event ''TOKEN_REVOKED'' (fst t) subjectID True)\<lparr>ae_Reason := reason\<rparr>)"

definition LogTokenRefreshed :: "gtime \<times> gtime \<Rightarrow> string \<Rightarrow> string \<Rightarrow> Logger \<Rightarrow> Logger" where
  "LogTokenRefreshed t subjectID remoteAddr =
     log_append (snd t) ((audit_event ''TOKEN_REFRESHED'' (fst t) subjectID True)\<lparr>ae_RemoteAddr := remoteAddr\<rparr>)"

definition LogAPIKeyCreated :: "gtime \<times> gtime \<Rightarrow> string \<Rightarrow> string \<Rightarrow> string \<Rightarrow> Logger \<Rightarrow> Logger" where
  "LogAPIKeyCreated t subjectID keyID namespace =
     log_append (snd t) ((audit_event ''API_KEY_CREATED'' (fst t) subjectID True)
       \<lparr>ae_Namespace := namespace, ae_Metadata := [(''key_id'', keyID)]\<rparr>)"

definition LogAPIKeyRevoked :: "gtime \<times> gtime \<Rightarrow> string \<Rightarrow> string \<Rightarrow> string \<Rightarrow> Logger \<Rightarrow> Logger" where
  "LogAPIKeyRevoked t subjectID keyID reason =
     log_append (snd t) ((audit_event ''API_KEY_REVOKED'' (fst t) subjectID True)
       \<lparr>ae_Reason := reason, ae_Metadata := [(''key_id'', keyID)]\<rparr>)"

definition LogPermissionDenied :: "gtime \<times> gtime \<Rightarrow> string \<Rightarrow> string \<Rightarrow> string \<Rightarrow> string \<Rightarrow> Logger \<Rightarrow> Logger" where
  "LogPermissionDenied t subjectID namespace permission resource =
     log_append (snd t) ((audit_event ''PERMISSION_DENIED'' (fst t) subjectID False)
       \<lparr>ae_Namespace := namespace, ae_Reason := ''permission denied: '' @ permission @ '' on '' @ resource\<rparr>)"

definition LogNamespaceAccess :: "gtime \<times> gtime \<Rightarrow> string \<Rightarrow> string \<Rightarrow> string \<Rightarrow> Logger \<Rightarrow> Logger" where
  "LogNamespaceAccess t subjectID namespace operation =
     log_append (snd t) ((audit_event ''NAMESPACE_ACCESS'' (fst t) subjectID True)
       \<lparr>ae_Namespace := namespace, ae_Metadata := [(''operation'', operation)]\<rparr>)"

definition GetEvents :: "Logger \<Rightarrow> AuditEvent list" where
  "GetEvents l = lg_events l"

definition GetEventsByType :: "string \<Rightarrow> Logger \<Rightarrow> AuditEvent list" where
  "GetEventsByType eventType l = filter (\<lambda>e. ae_Type e = eventType) (lg_events l)"

definition GetEventsBySubject :: "string \<Rightarrow> Logger \<Rightarrow> AuditEvent list" where
  "GetEventsBySubject subjectID l = filter (\<lambda>e. ae_SubjectID e = subjectID) (lg_events l)"

definition GetEventsByNamespace :: "string \<Rightarrow> Logger \<Rightarrow> AuditEvent list" where
  "GetEventsByNamespace namespace l = filter (\<lambda>e. ae_Namespace e = namespace) (lg_events l)"

section \<open>The window of events\<close>

text \<open>After any sequence of events a logger with a limit holds the latest of them, in order.\<close>

definition numbered :: "(gtime \<times> AuditEvent) list \<Rightarrow> AuditEvent list" where
  "numbered es = map (\<lambda>(now, e). e\<lparr>ae_ID := generateEventID now\<rparr>) es"

definition log_run :: "(gtime \<times> AuditEvent) list \<Rightarrow> Logger \<Rightarrow> Logger" where
  "log_run es l = fold (\<lambda>(now, e). log_append now e) es l"

lemma log_run_snoc: "log_run (es @ [(now, e)]) l = log_append now e (log_run es l)"
  by (simp add: log_run_def)

lemma log_run_fixed: "lg_maxLen (log_run es l) = lg_maxLen l"
proof (induction es rule: rev_induct)
  case (snoc x es)
  then show ?case by (cases x) (simp add: log_run_snoc log_append_def Let_def)
qed (simp add: log_run_def)

lemma audit_window:
  assumes "0 < n"
  shows "GetEvents (log_run es (NewLogger h n)) = drop (length es - nat n) (numbered es)"
proof (induction es rule: rev_induct)
  case (snoc x es)
  obtain now e where x: "x = (now, e)" by fastforce
  let ?w = "drop (length es - nat n) (numbered es)"
  have len: "length ?w = min (length es) (nat n)" by (simp add: numbered_def)
  have w: "lg_events (log_run es (NewLogger h n)) = ?w" using snoc by (simp add: GetEvents_def)
  have m: "lg_maxLen (log_run es (NewLogger h n)) = n" by (simp add: log_run_fixed NewLogger_def)
  have num: "numbered (es @ [x]) = numbered es @ [e\<lparr>ae_ID := generateEventID now\<rparr>]" by (simp add: numbered_def x)
  show ?case
  proof (cases "length es < nat n")
    case True
    then have "\<not> n < 1 + int (length es)" "length es - nat n = 0" by linarith+
    then show ?thesis unfolding x log_run_snoc using len True by (simp add: GetEvents_def log_append_def Let_def w m num [unfolded x])
  next
    case False
    then have "?w \<noteq> []" "length es + 1 - nat n = Suc (length es - nat n)" using len assms by auto
    then show ?thesis unfolding x log_run_snoc using len False assms
      by (simp add: GetEvents_def log_append_def Let_def w m num [unfolded x] tl_drop drop_Suc numbered_def)
  qed
qed (simp add: log_run_def NewLogger_def GetEvents_def numbered_def)

text \<open>The random part of an identifier is always the same: two events of one instant have one identifier.\<close>

lemma randomID_constant: "randomID 8 = ''abcdefgh''"
  by code_simp

lemma event_id_repeats:
  "ae_ID (last (lg_events (log_append now e l))) = ae_ID (last (lg_events (log_append now e' l')))"
  if "lg_events l \<noteq> []" "lg_events l' \<noteq> []"
  using that by (simp add: log_append_def Let_def last_tl)

end
