(* ===== verification/Db_Auth.thy ===== *)
theory Db_Auth
  imports Db_Store Go_Json
begin

text \<open>
  The tables of API keys and of sessions (\<^verbatim>\<open>internal/db/auth.go\<close>).  A time stamp in the format RFC 3339 is represented by
  the second it denotes.  Failures of statements and the time stamps that the engine writes are arguments.
\<close>

section \<open>API keys\<close>

record APIKey =
  ak_ID :: int
  ak_KeyHash :: string
  ak_SubjectID :: string
  ak_Namespace :: string
  ak_Permissions :: string
  ak_Prefix :: string
  ak_ExpiresAt :: "int option"
  ak_RevokedAt :: "string option"

record SessionRow =
  se_ID :: int
  se_SessionID :: string
  se_SubjectID :: string
  se_SubjectType :: string
  se_RemoteAddr :: string
  se_CreatedAt :: string
  se_ExpiresAt :: "int option"
  se_LastSeen :: "string option"

record AuthTables =
  at_keys :: "APIKey list"
  at_sessions :: "SessionRow list"
  at_keySeq :: int
  at_sessionSeq :: int

definition rfc3339 :: "gtime option \<Rightarrow> int option" where
  "rfc3339 t = map_option (\<lambda>t. t div 1000000000) t"

definition expired :: "gtime \<Rightarrow> int option \<Rightarrow> bool" where
  "expired now exp = (case exp of None \<Rightarrow> False | Some e \<Rightarrow> e * 1000000000 < now)"

definition CreateAPIKey ::
  "faults \<Rightarrow> Store \<Rightarrow> string \<Rightarrow> string \<Rightarrow> string \<Rightarrow> string \<Rightarrow> string \<Rightarrow> gtime option \<Rightarrow> AuthTables \<Rightarrow> db_error option \<times> AuthTables" where
  "CreateAPIKey flt s keyHash subjectID namespace permissions pre expiresAt t =
     (let scoped = (namespace \<noteq> [] \<and> namespace \<noteq> ''*'') in
      if scoped \<and> (case GetNamespace flt namespace s of Inl _ \<Rightarrow> True | Inr _ \<Rightarrow> False)
      then (Some (DbNotFound (''not found: namespace does not exist'')), t)
      else case flt (if scoped then 1 else 0) of
        Some e \<Rightarrow> (Some (if isUniqueViolation e then DbConflict ''already exists: API key already exists'' else DbOther e), t)
      | None \<Rightarrow>
          if list_ex (\<lambda>k. ak_KeyHash k = keyHash) (at_keys t) then (Some (DbConflict ''already exists: API key already exists''), t)
          else (None, t\<lparr>at_keySeq := at_keySeq t + 1, at_keys := at_keys t @
            [\<lparr>ak_ID = at_keySeq t + 1, ak_KeyHash = keyHash, ak_SubjectID = subjectID, ak_Namespace = namespace,
              ak_Permissions = jquoted permissions, ak_Prefix = pre, ak_ExpiresAt = rfc3339 expiresAt, ak_RevokedAt = None\<rparr>]\<rparr>))"

definition GetAPIKey :: "faults \<Rightarrow> gtime \<Rightarrow> string \<Rightarrow> AuthTables \<Rightarrow> db_error + APIKey" where
  "GetAPIKey flt now keyHash t =
     (case flt 0 of
        Some e \<Rightarrow> Inl (DbOther e)
      | None \<Rightarrow>
          (case find (\<lambda>k. ak_KeyHash k = keyHash \<and> ak_RevokedAt k = None) (at_keys t) of
             None \<Rightarrow> Inl (DbNotFound ''not found'')
           | Some key \<Rightarrow> if expired now (ak_ExpiresAt key) then Inl (DbNotFound ''not found: API key has expired'') else Inr key))"

definition db_RevokeAPIKey :: "faults \<Rightarrow> string \<Rightarrow> string \<Rightarrow> AuthTables \<Rightarrow> db_error option \<times> AuthTables" where
  "db_RevokeAPIKey flt stamp keyHash t =
     (case flt 0 of
        Some e \<Rightarrow> (Some (DbOther e), t)
      | None \<Rightarrow>
          if list_ex (\<lambda>k. ak_KeyHash k = keyHash) (at_keys t)
          then (None, t\<lparr>at_keys := map (\<lambda>k. if ak_KeyHash k = keyHash then k\<lparr>ak_RevokedAt := Some stamp\<rparr> else k) (at_keys t)\<rparr>)
          else (Some (DbNotFound ''not found''), t))"

section \<open>Sessions\<close>

definition CreateSession ::
  "faults \<Rightarrow> string \<Rightarrow> string \<Rightarrow> string \<Rightarrow> string \<Rightarrow> string \<Rightarrow> gtime option \<Rightarrow> AuthTables \<Rightarrow> db_error option \<times> AuthTables" where
  "CreateSession flt stamp sessionID subjectID subjectType remoteAddr expiresAt t =
     (case flt 0 of
        Some e \<Rightarrow> (Some (if isUniqueViolation e then DbConflict ''already exists: session'' else DbOther e), t)
      | None \<Rightarrow>
          if list_ex (\<lambda>x. se_SessionID x = sessionID) (at_sessions t) then (Some (DbConflict ''already exists: session''), t)
          else (None, t\<lparr>at_sessionSeq := at_sessionSeq t + 1, at_sessions := at_sessions t @
            [\<lparr>se_ID = at_sessionSeq t + 1, se_SessionID = sessionID, se_SubjectID = subjectID, se_SubjectType = subjectType,
              se_RemoteAddr = remoteAddr, se_CreatedAt = stamp, se_ExpiresAt = rfc3339 expiresAt, se_LastSeen = None\<rparr>]\<rparr>))"

definition GetSession :: "faults \<Rightarrow> gtime \<Rightarrow> string \<Rightarrow> AuthTables \<Rightarrow> db_error + SessionRow" where
  "GetSession flt now sessionID t =
     (case flt 0 of
        Some e \<Rightarrow> Inl (DbOther e)
      | None \<Rightarrow>
          (case find (\<lambda>x. se_SessionID x = sessionID) (at_sessions t) of
             None \<Rightarrow> Inl (DbNotFound ''not found'')
           | Some x \<Rightarrow> if expired now (se_ExpiresAt x) then Inl (DbNotFound ''not found: session has expired'') else Inr x))"

definition DeleteSession :: "faults \<Rightarrow> string \<Rightarrow> AuthTables \<Rightarrow> db_error option \<times> AuthTables" where
  "DeleteSession flt sessionID t =
     (case flt 0 of
        Some e \<Rightarrow> (Some (DbOther e), t)
      | None \<Rightarrow>
          if list_ex (\<lambda>x. se_SessionID x = sessionID) (at_sessions t)
          then (None, t\<lparr>at_sessions := filter (\<lambda>x. se_SessionID x \<noteq> sessionID) (at_sessions t)\<rparr>)
          else (Some (DbNotFound ''not found''), t))"

section \<open>The life of a key\<close>

inductive auth_step :: "AuthTables \<Rightarrow> AuthTables \<Rightarrow> bool" where
  "auth_step t (snd (CreateAPIKey flt s h subj ns perms pre ex t))"
| "auth_step t (snd (db_RevokeAPIKey flt stamp h t))"
| "auth_step t (snd (CreateSession flt stamp sid subj ty addr ex t))"
| "auth_step t (snd (DeleteSession flt sid t))"

definition revoked :: "string \<Rightarrow> AuthTables \<Rightarrow> bool" where
  "revoked h t \<longleftrightarrow> h \<in> set (map ak_KeyHash (at_keys t)) \<and> (\<forall>k \<in> set (at_keys t). ak_KeyHash k = h \<longrightarrow> ak_RevokedAt k \<noteq> None)"

lemma revoke_hashes: "map ak_KeyHash (at_keys (snd (db_RevokeAPIKey flt stamp h t))) = map ak_KeyHash (at_keys t)"
  by (auto simp: db_RevokeAPIKey_def split: option.split)

lemma hash_known: "list_ex (\<lambda>k. ak_KeyHash k = h) ks \<longleftrightarrow> h \<in> set (map ak_KeyHash ks)"
  by (auto simp: list_ex_iff)

lemma revoked_step: "auth_step t t' \<Longrightarrow> revoked h t \<Longrightarrow> revoked h t'"
proof (induction rule: auth_step.induct)
  case (2 t flt stamp k)
  have "\<forall>x \<in> set (at_keys (snd (db_RevokeAPIKey flt stamp k t))). ak_KeyHash x = h \<longrightarrow> ak_RevokedAt x \<noteq> None"
    using 2 by (auto simp: revoked_def db_RevokeAPIKey_def split: option.split)
  then show ?case using 2 by (simp only: revoked_def revoke_hashes simp_thms)
next
  case (1 t flt s k subj ns perms pre ex)
  have "at_keys (snd (CreateAPIKey flt s k subj ns perms pre ex t)) = at_keys t
      \<or> k \<notin> set (map ak_KeyHash (at_keys t)) \<and> (\<exists>x. ak_KeyHash x = k \<and> at_keys (snd (CreateAPIKey flt s k subj ns perms pre ex t)) = at_keys t @ [x])"
    by (simp add: CreateAPIKey_def Let_def hash_known split: option.split)
  then show ?case using 1 by (auto simp: revoked_def)
qed (simp_all add: revoked_def CreateSession_def DeleteSession_def split: option.split)

lemma revoked_unknown: "revoked h t \<Longrightarrow> \<exists>e. GetAPIKey flt now h t = Inl e"
proof -
  assume "revoked h t"
  then have "find (\<lambda>k. ak_KeyHash k = h \<and> ak_RevokedAt k = None) (at_keys t) = None" by (auto simp: revoked_def find_None_iff)
  then show ?thesis by (cases "flt 0") (simp_all add: GetAPIKey_def)
qed

text \<open>A key that was revoked is never found again, whatever happens to the tables later.\<close>

lemma revoked_for_ever:
  assumes "db_RevokeAPIKey flt stamp h t = (None, t1)" "auth_step\<^sup>*\<^sup>* t1 t2"
  shows "\<exists>e. GetAPIKey flt' now h t2 = Inl e"
proof -
  let ?f = "\<lambda>k. if ak_KeyHash k = h then k\<lparr>ak_RevokedAt := Some stamp\<rparr> else k"
  have c: "flt 0 = None" "list_ex (\<lambda>k. ak_KeyHash k = h) (at_keys t)"
    using assms(1) by (cases "flt 0"; cases "list_ex (\<lambda>k. ak_KeyHash k = h) (at_keys t)"; simp add: db_RevokeAPIKey_def)+
  then have "snd (db_RevokeAPIKey flt stamp h t) = t\<lparr>at_keys := map ?f (at_keys t)\<rparr>" by (simp add: db_RevokeAPIKey_def)
  then have t1: "at_keys t1 = map ?f (at_keys t)" by (simp add: assms(1))
  have "h \<in> set (map ak_KeyHash (at_keys t1))"
    using c(2) revoke_hashes [of flt stamp h t] assms(1) by (simp only: hash_known snd_conv)
  moreover have "\<forall>k \<in> set (at_keys t1). ak_KeyHash k = h \<longrightarrow> ak_RevokedAt k \<noteq> None" unfolding t1 set_map ball_simps by simp
  ultimately have "revoked h t1" by (simp add: revoked_def)
  with assms(2) have "revoked h t2" by (induction rule: rtranclp_induct) (auto intro: revoked_step)
  then show ?thesis by (rule revoked_unknown)
qed

text \<open>
  A key that was created is found until its second of expiry, with its permissions as the JSON text of the text
  that was given, which is quoted and not what was given.
\<close>

lemma created_found:
  assumes "CreateAPIKey flt s h subj ns perms pre ex t = (None, t')"
  shows "GetAPIKey no_faults now h t' = (if expired now (rfc3339 ex) then Inl (DbNotFound ''not found: API key has expired'')
    else Inr \<lparr>ak_ID = at_keySeq t + 1, ak_KeyHash = h, ak_SubjectID = subj, ak_Namespace = ns, ak_Permissions = jquoted perms, ak_Prefix = pre,
      ak_ExpiresAt = rfc3339 ex, ak_RevokedAt = None\<rparr>)"
proof -
  have new: "\<not> list_ex (\<lambda>k. ak_KeyHash k = h) (at_keys t)"
    and t': "at_keys t' = at_keys t @ [\<lparr>ak_ID = at_keySeq t + 1, ak_KeyHash = h, ak_SubjectID = subj, ak_Namespace = ns,
      ak_Permissions = jquoted perms, ak_Prefix = pre, ak_ExpiresAt = rfc3339 ex, ak_RevokedAt = None\<rparr>]"
    using assms by (auto simp: CreateAPIKey_def Let_def split: if_splits option.splits)
  have "find (\<lambda>k. ak_KeyHash k = h \<and> ak_RevokedAt k = None) (xs @ ys) = find (\<lambda>k. ak_KeyHash k = h \<and> ak_RevokedAt k = None) ys"
    if "\<not> list_ex (\<lambda>k. ak_KeyHash k = h) xs" for xs ys using that by (induction xs) auto
  from this [OF new] t' show ?thesis by (simp add: GetAPIKey_def no_faults_def)
qed

text \<open>A session that was deleted is not found; deleting it again fails.\<close>

lemma deleted_session:
  assumes "DeleteSession flt sid t = (None, t')"
  shows "\<exists>e. GetSession flt' now sid t' = Inl e" "fst (DeleteSession no_faults sid t') = Some (DbNotFound ''not found'')"
proof -
  have "t' = t\<lparr>at_sessions := filter (\<lambda>x. se_SessionID x \<noteq> sid) (at_sessions t)\<rparr>"
    using assms by (auto simp: DeleteSession_def split: option.splits if_splits)
  moreover have "find (\<lambda>x. se_SessionID x = sid) (filter (\<lambda>x. se_SessionID x \<noteq> sid) (at_sessions t)) = None" by (simp add: find_None_iff)
  ultimately show "\<exists>e. GetSession flt' now sid t' = Inl e" "fst (DeleteSession no_faults sid t') = Some (DbNotFound ''not found'')"
    by (simp_all add: GetSession_def DeleteSession_def no_faults_def list_ex_iff split: option.split)
qed

end
