(* ===== verification/Limits.thy ===== *)
theory Limits
  imports Broker
begin

text \<open>
  The three counters that bound messages in flight: the credit of a connection, the quota of the broker and
  the number of messages in the broker.  All are used through the same interface: a slot is asked for,
  and given back later.  What follows from the interface is shown once, in the locale \<open>limiter\<close>.
\<close>

section \<open>The interface\<close>

text \<open>A sequence of requests (\<open>True\<close>) and returns; the result counts the slots granted and those given back.\<close>

fun slots :: "('s \<Rightarrow> bool \<times> 's) \<Rightarrow> ('s \<Rightarrow> 's) \<Rightarrow> bool list \<Rightarrow> 's \<Rightarrow> int \<times> int \<times> 's" where
  "slots acq rel [] s = (0, 0, s)"
| "slots acq rel (True # ops) s =
     (let (ok, s) = acq s; (g, r, s) = slots acq rel ops s in (if ok then g + 1 else g, r, s))"
| "slots acq rel (False # ops) s = (let (g, r, s) = slots acq rel ops (rel s) in (g, r + 1, s))"

text \<open>\<open>used\<close> is the value of the counter, \<open>lowest\<close> the least number it can hold, and \<open>enabled\<close> says that there is a limit.\<close>

locale limiter =
  fixes acquire :: "'s \<Rightarrow> bool \<times> 's" and release :: "'s \<Rightarrow> 's"
    and used :: "'s \<Rightarrow> int" and cap :: "'s \<Rightarrow> int" and enabled :: "'s \<Rightarrow> bool" and lowest :: int
  assumes granted: "enabled s \<Longrightarrow> acquire s = (True, s') \<Longrightarrow> used s < cap s \<and> used s' = used s + 1 \<and> cap s' = cap s \<and> enabled s'"
    and refused: "enabled s \<Longrightarrow> acquire s = (False, s') \<Longrightarrow> s' = s \<and> cap s \<le> used s"
    and released: "enabled s \<Longrightarrow> lowest < used s \<Longrightarrow> used (release s) = used s - 1 \<and> cap (release s) = cap s \<and> enabled (release s)"
begin

lemma slots_step:
  assumes "enabled s"
  shows "(acquire s = (True, s') \<longrightarrow> enabled s' \<and> used s' = used s + 1 \<and> cap s' = cap s \<and> used s' \<le> cap s)
    \<and> (acquire s = (False, s') \<longrightarrow> s' = s)"
  using granted [OF assms] refused [OF assms] by (metis add1_zle_eq)

lemma slots_bound:
  "enabled s \<Longrightarrow> lowest + int (length ops) \<le> used s \<Longrightarrow> slots acquire release ops s = (g, r, s') \<Longrightarrow>
   used s' = used s + g - r \<and> used s' \<le> max (used s) (cap s) \<and> cap s' = cap s \<and> enabled s'"
proof (induction ops arbitrary: s g r)
  case (Cons x ops)
  show ?case
  proof (cases x)
    case True
    obtain ok s1 where a: "acquire s = (ok, s1)" by fastforce
    obtain g1 where r: "slots acquire release ops s1 = (g1, r, s')" "g = (if ok then g1 + 1 else g1)"
      using Cons(4) a True by (auto split: prod.splits)
    have s1: "enabled s1" "used s1 = (if ok then used s + 1 else used s)" "cap s1 = cap s" "ok \<longrightarrow> used s1 \<le> cap s"
      using slots_step [OF Cons(2), of s1] a Cons(2) by (cases ok; simp)+
    have "used s' = used s1 + g1 - r \<and> used s' \<le> max (used s1) (cap s1) \<and> cap s' = cap s1 \<and> enabled s'"
      using Cons(1) [OF s1(1) _ r(1)] Cons(3) s1(2) by (cases ok) simp_all
    then show ?thesis using r(2) s1 by (cases ok) auto
  next
    case False
    obtain r1 where r: "slots acquire release ops (release s) = (g, r1, s')" "r = r1 + 1"
      using Cons(4) False by (auto split: prod.splits)
    have "lowest < used s" using Cons(3) by simp
    from released [OF Cons(2) this] Cons(1) [OF _ _ r(1)] Cons(3) r(2) show ?thesis by auto
  qed
qed simp

end

section \<open>The three counters\<close>

lemma sint_bounds32: "- (2 ^ 31) \<le> sint (w :: 32 word) \<and> sint w < 2 ^ 31"
  using sint_greater_eq [of w] sint_less [of w] by simp

lemma sint_up: "\<not> sint (m :: 32 word) \<le> sint (w :: 32 word) \<Longrightarrow> sint (w + 1) = sint w + 1"
  using sint_bounds32 [of w] sint_bounds32 [of m] by (simp add: sint_word_ariths signed_take_bit_int_eq_self)

lemma sint_down: "- (2 ^ 31) < sint (w :: 32 word) \<Longrightarrow> sint (w - 1) = sint w - 1"
  using sint_bounds32 [of w] by (simp add: sint_word_ariths signed_take_bit_int_eq_self)

interpretation connection_credit: limiter cr_AcquireCredit cr_ReleaseCredit "\<lambda>c. sint (cr_inflight c)" "\<lambda>c. sint (cr_maxInflight c)"
    "\<lambda>_. True" "- (2 ^ 31)"
  by unfold_locales
    (auto simp: cr_AcquireCredit_def cr_ReleaseCredit_def Let_def sint_down dest: sint_up split: if_splits)

interpretation broker_quota: limiter qt_TryAcquire qt_Release qt_inflight qt_max "\<lambda>q. 0 < qt_max q \<and> qt_max q < 2 ^ 63 \<and> qt_inflight q \<le> qt_max q" "- (2 ^ 63)"
  by unfold_locales (auto simp: qt_TryAcquire_def qt_Release_def Let_def to_i64_id split: if_splits)

interpretation global_messages: limiter IncGlobalMsgs DecGlobalMsgs b_globalMsgs b_GlobalMaxMsgs
    "\<lambda>b. 0 < b_GlobalMaxMsgs b \<and> b_GlobalMaxMsgs b < 2 ^ 63 \<and> b_globalMsgs b \<le> b_GlobalMaxMsgs b" "- (2 ^ 63)"
  by unfold_locales (auto simp: IncGlobalMsgs_def DecGlobalMsgs_def Let_def to_i64_id split: if_splits)

text \<open>
  [C36] The limits on messages in flight are kept.  Whatever the order in which slots are asked for and given
  back, the slots granted and not yet given back never exceed the limit: for the credit of a
  connection (a 32-bit counter), for the quota of the broker and for the number of messages in
  the broker, each started at zero.  The counter is exactly the slots granted less those given back,
  so it goes below zero when more is given back than was granted.
\<close>

theorem limits_kept:
  assumes "length ops < 2 ^ 31" "0 < n" "n < 2 ^ 63" "b_globalMsgs b = 0" "b_GlobalMaxMsgs b = n"
  shows "(case slots cr_AcquireCredit cr_ReleaseCredit ops (newCredit m) of (g, r, c) \<Rightarrow>
      sint (cr_inflight c) = g - r \<and> g - r \<le> max 0 (sint m))
    \<and> (case slots qt_TryAcquire qt_Release ops (newBrokerQuota n) of (g, r, q) \<Rightarrow> qt_inflight q = g - r \<and> g - r \<le> n)
    \<and> (case slots IncGlobalMsgs DecGlobalMsgs ops b of (g, r, b) \<Rightarrow> b_globalMsgs b = g - r \<and> g - r \<le> n)"
proof -
  have l: "int (length ops) < 2 ^ 31" using assms(1) by (metis of_nat_less_iff of_nat_numeral of_nat_power)
  obtain g r c where c: "slots cr_AcquireCredit cr_ReleaseCredit ops (newCredit m) = (g, r, c)" by (metis prod_cases3)
  obtain g' r' q where q: "slots qt_TryAcquire qt_Release ops (newBrokerQuota n) = (g', r', q)" by (metis prod_cases3)
  obtain h s b' where b: "slots IncGlobalMsgs DecGlobalMsgs ops b = (h, s, b')" by (metis prod_cases3)
  have "sint (cr_inflight c) = g - r \<and> g - r \<le> max 0 (sint m)"
    using connection_credit.slots_bound [OF _ _ c] l by (simp add: newCredit_def)
  moreover have "qt_inflight q = g' - r' \<and> g' - r' \<le> n"
    using broker_quota.slots_bound [OF _ _ q] l assms(2,3) by (simp add: newBrokerQuota_def)
  moreover have "b_globalMsgs b' = h - s \<and> h - s \<le> n"
    using global_messages.slots_bound [OF _ _ b] l assms(2-) by simp
  ultimately show ?thesis by (simp only: c q b prod.case simp_thms)
qed

theorem limits_kept_witness:
  "(case slots cr_AcquireCredit cr_ReleaseCredit [True, True, True, False] (newCredit 2) of (g, r, c) \<Rightarrow>
      sint (cr_inflight c) = g - r \<and> g - r \<le> max 0 (sint (2 :: 32 word)))
    \<and> (case slots qt_TryAcquire qt_Release [True, True, True, False] (newBrokerQuota 2) of (g, r, q) \<Rightarrow> qt_inflight q = g - r \<and> g - r \<le> 2)
    \<and> (case slots IncGlobalMsgs DecGlobalMsgs [True, True, True, False]
          (undefined\<lparr>b_globalMsgs := 0, b_GlobalMaxMsgs := 2\<rparr>) of (g, r, b) \<Rightarrow> b_globalMsgs b = g - r \<and> g - r \<le> 2)
    \<and> fst (slots cr_AcquireCredit cr_ReleaseCredit [True, True, True, False] (newCredit 2)) = 2"
  using limits_kept [of "[True, True, True, False]" 2 "undefined\<lparr>b_globalMsgs := 0, b_GlobalMaxMsgs := 2\<rparr>" 2]
  by (simp add: newCredit_def cr_AcquireCredit_def cr_ReleaseCredit_def)

end
